(* ===== verification/Prelude.thy ===== *)
theory Prelude
  imports Main "HOL-Library.Char_ord" "HOL-Library.List_Lexorder"
begin

section \<open>Shared notions: Python strings, results, ordered sets\<close>

text \<open>
  Conventions of the whole development.
  \<^item> A Python \<^verbatim>\<open>str\<close> is a \<^typ>\<open>string\<close>: the bytes of its UTF-8 encoding
    (a HOL \<^typ>\<open>char\<close> is exactly one byte). \<^verbatim>\<open>.encode("utf-8")\<close> is then the
    identity, and since UTF-8 preserves the code point order, the lexicographic order on
    \<^typ>\<open>string\<close> is Python's order on \<^verbatim>\<open>str\<close>. Lone surrogates are not modelled.
  \<^item> A Python \<^verbatim>\<open>bytes\<close> object is a \<open>bytes\<close>, also a list of \<^typ>\<open>char\<close>.
  \<^item> A raised exception is the left injection of a sum.
  \<^item> \<^verbatim>\<open>frozenset\<close> is a HOL set; \<^verbatim>\<open>sorted(...)\<close> of one is \<^const>\<open>sorted_list_of_set\<close>.
\<close>

type_synonym bytes = "char list"

named_theorems result_simps "unfolding of the result monad"
named_theorems ident_simps "facts on identifier-shaped strings"

subsection \<open>Results\<close>

text \<open>Sequencing of two computations that may raise, and the loop that stops at the first error.\<close>

fun rbind :: "'e + 'a \<Rightarrow> ('a \<Rightarrow> 'e + 'b) \<Rightarrow> 'e + 'b" where
  "rbind (Inl e) f = Inl e"
| "rbind (Inr x) f = f x"

fun rtraverse :: "('a \<Rightarrow> 'e + 'b) \<Rightarrow> 'a list \<Rightarrow> 'e + 'b list" where
  "rtraverse f [] = Inr []"
| "rtraverse f (x # xs) =
     rbind (f x) (\<lambda>y. rbind (rtraverse f xs) (\<lambda>ys. Inr (y # ys)))"

definition rcheck :: "bool \<Rightarrow> 'e \<Rightarrow> 'e + unit" where
  "rcheck ok e = (if ok then Inr () else Inl e)"

lemma rbind_Inr_iff [result_simps]: "rbind m f = Inr y \<longleftrightarrow> (\<exists>x. m = Inr x \<and> f x = Inr y)"
  by (cases m) auto

lemma rbind_InrE: "rbind m f = Inr y \<Longrightarrow> (\<And>x. m = Inr x \<Longrightarrow> f x = Inr y \<Longrightarrow> P) \<Longrightarrow> P"
  unfolding rbind_Inr_iff by blast

lemma rbind_Inl_iff [result_simps]:
  "rbind m f = Inl e \<longleftrightarrow> m = Inl e \<or> (\<exists>x. m = Inr x \<and> f x = Inl e)"
  by (cases m) auto

lemma rcheck_Inr [result_simps]: "rcheck ok e = Inr u \<longleftrightarrow> ok"
  by (simp add: rcheck_def)

lemma rcheck_Inl [result_simps]: "rcheck ok e = Inl e' \<longleftrightarrow> \<not> ok \<and> e' = e"
  by (auto simp: rcheck_def)

lemma rtraverse_Inr_length: "rtraverse f xs = Inr ys \<Longrightarrow> length ys = length xs"
  by (induction xs arbitrary: ys) (auto simp: result_simps)

lemma rtraverse_Inr_nth:
  "rtraverse f xs = Inr ys \<Longrightarrow> i < length xs \<Longrightarrow> f (xs ! i) = Inr (ys ! i)"
proof (induction xs arbitrary: ys i)
  case Nil
  then show ?case by simp
next
  case (Cons x xs)
  then show ?case by (cases i) (auto simp: result_simps)
qed

lemma rtraverse_Inr_iff:
  "rtraverse f xs = Inr ys \<longleftrightarrow> list_all2 (\<lambda>x y. f x = Inr y) xs ys"
  by (induction xs arbitrary: ys) (auto simp: result_simps list_all2_Cons1)

lemma rtraverse_Inr_set: "rtraverse f xs = Inr ys \<Longrightarrow> y \<in> set ys \<Longrightarrow> \<exists>x \<in> set xs. f x = Inr y"
  by (induction xs arbitrary: ys) (auto simp: result_simps)

lemma rtraverse_Inr_ex: "rtraverse f xs = Inr ys \<Longrightarrow> x \<in> set xs \<Longrightarrow> \<exists>y \<in> set ys. f x = Inr y"
  by (induction xs arbitrary: ys) (auto simp: result_simps)

lemma rtraverse_Inl_ex: "rtraverse f xs = Inl e \<Longrightarrow> \<exists>x \<in> set xs. f x = Inl e"
  by (induction xs) (auto simp: result_simps)

lemma rtraverse_total: "(\<And>x. x \<in> set xs \<Longrightarrow> \<exists>y. f x = Inr y) \<Longrightarrow> \<exists>ys. rtraverse f xs = Inr ys"
  by (induction xs) (auto simp: result_simps)

lemma rtraverse_map: "(\<And>x. x \<in> set xs \<Longrightarrow> f x = Inr (g x)) \<Longrightarrow> rtraverse f xs = Inr (map g xs)"
  by (induction xs) simp_all

subsection \<open>Identifiers and dotted names\<close>

text \<open>\<^verbatim>\<open>^[A-Za-z_][A-Za-z0-9_$]*$\<close>, the shape every name of the semantic layer has.\<close>

definition is_upper :: "char \<Rightarrow> bool" where
  "is_upper c \<longleftrightarrow> CHR ''A'' \<le> c \<and> c \<le> CHR ''Z''"

definition is_lower :: "char \<Rightarrow> bool" where
  "is_lower c \<longleftrightarrow> CHR ''a'' \<le> c \<and> c \<le> CHR ''z''"

definition is_digit :: "char \<Rightarrow> bool" where
  "is_digit c \<longleftrightarrow> CHR ''0'' \<le> c \<and> c \<le> CHR ''9''"

definition is_alnum :: "char \<Rightarrow> bool" where
  "is_alnum c \<longleftrightarrow> is_upper c \<or> is_lower c \<or> is_digit c"

definition ident_start :: "char \<Rightarrow> bool" where
  "ident_start c \<longleftrightarrow> is_upper c \<or> is_lower c \<or> c = CHR ''_''"

definition ident_char :: "char \<Rightarrow> bool" where
  "ident_char c \<longleftrightarrow> is_upper c \<or> is_lower c \<or> is_digit c \<or> c = CHR ''_'' \<or> c = CHR ''$''"

fun is_ident :: "string \<Rightarrow> bool" where
  "is_ident [] = False"
| "is_ident (c # cs) = (ident_start c \<and> list_all ident_char cs)"

lemmas char_class_defs = is_upper_def is_lower_def is_digit_def is_alnum_def
  ident_start_def ident_char_def

lemma ident_start_char: "ident_start c \<Longrightarrow> ident_char c"
  by (auto simp: ident_start_def ident_char_def)

lemma is_ident_chars [ident_simps]: "is_ident s \<Longrightarrow> list_all ident_char s"
  by (cases s) (auto simp: ident_start_char)

lemma is_ident_nonempty [ident_simps]: "is_ident s \<Longrightarrow> s \<noteq> []"
  by auto

lemma ident_char_neq:
  "ident_char c \<Longrightarrow> c \<noteq> CHR ''.'' \<and> c \<noteq> CHR '';'' \<and> c \<noteq> CHR 0x22 \<and> c \<noteq> CHR '':''
     \<and> c \<noteq> CHR '' '' \<and> c \<noteq> CHR ''('' \<and> c \<noteq> CHR '')'' \<and> c \<noteq> CHR '',''"
  by (auto simp: char_class_defs)

lemma is_ident_no_dot: "is_ident s \<Longrightarrow> CHR ''.'' \<notin> set s"
  using is_ident_chars ident_char_neq by (auto simp: list_all_iff)

text \<open>\<^verbatim>\<open>s.split(c, 1)\<close> and \<^verbatim>\<open>s.split(c)\<close> for a one-character separator.\<close>

definition split1 :: "char \<Rightarrow> string \<Rightarrow> string \<times> string option" where
  "split1 c s = (takeWhile (\<lambda>x. x \<noteq> c) s,
     case dropWhile (\<lambda>x. x \<noteq> c) s of [] \<Rightarrow> None | _ # r \<Rightarrow> Some r)"

fun split_on :: "char \<Rightarrow> string \<Rightarrow> string list" where
  "split_on c [] = [[]]"
| "split_on c (x # xs) =
     (if x = c then [] # split_on c xs
      else (case split_on c xs of [] \<Rightarrow> [[x]] | y # ys \<Rightarrow> (x # y) # ys))"

lemma split1_append: "c \<notin> set a \<Longrightarrow> split1 c (a @ c # b) = (a, Some b)"
  by (induction a) (auto simp: split1_def)

lemma split1_none: "c \<notin> set a \<Longrightarrow> split1 c a = (a, None)"
  by (induction a) (auto simp: split1_def)

lemma split1_Some: "split1 c s = (a, Some b) \<Longrightarrow> s = a @ c # b \<and> c \<notin> set a"
proof -
  assume h: "split1 c s = (a, Some b)"
  then have a: "a = takeWhile (\<lambda>x. x \<noteq> c) s"
    and d: "\<exists>y. dropWhile (\<lambda>x. x \<noteq> c) s = y # b"
    by (auto simp: split1_def split: list.splits)
  from d obtain y where y: "dropWhile (\<lambda>x. x \<noteq> c) s = y # b" by blast
  then have "y = c" by (metis (mono_tags, lifting) hd_dropWhile list.distinct(1) list.sel(1))
  then have "s = a @ c # b" using a y by (metis takeWhile_dropWhile_id)
  then show ?thesis using a by (auto dest: set_takeWhileD)
qed

text \<open>
  \<^verbatim>\<open>^([A-Za-z_][A-Za-z0-9_$]*)\.([A-Za-z_][A-Za-z0-9_$]*)$\<close> with its two groups: no identifier
  holds a dot, so the groups are what stands before and after the first one.
\<close>

definition match_qualified :: "string \<Rightarrow> (string \<times> string) option" where
  "match_qualified s =
     (case split1 CHR ''.'' s of
        (a, Some b) \<Rightarrow> if is_ident a \<and> is_ident b then Some (a, b) else None
      | (a, None) \<Rightarrow> None)"

lemma match_qualified_iff:
  "match_qualified s = Some (a, b) \<longleftrightarrow> is_ident a \<and> is_ident b \<and> s = a @ ''.'' @ b"
proof
  assume "match_qualified s = Some (a, b)"
  then show "is_ident a \<and> is_ident b \<and> s = a @ ''.'' @ b"
    by (auto simp: match_qualified_def split: option.splits if_splits prod.splits dest: split1_Some)
next
  assume "is_ident a \<and> is_ident b \<and> s = a @ ''.'' @ b"
  then show "match_qualified s = Some (a, b)"
    using split1_append [OF is_ident_no_dot, of a b] by (simp add: match_qualified_def)
qed

subsection \<open>Text helpers: join, decimal and hexadecimal numbers, lower case\<close>

fun join_str :: "string \<Rightarrow> string list \<Rightarrow> string" where
  "join_str sep [] = []"
| "join_str sep [x] = x"
| "join_str sep (x # y # ys) = x @ sep @ join_str sep (y # ys)"

fun dec_of_nat :: "nat \<Rightarrow> string" where
  "dec_of_nat n =
     (if n < 10 then [char_of (48 + n)] else dec_of_nat (n div 10) @ [char_of (48 + n mod 10)])"

declare dec_of_nat.simps [simp del]

definition dec_of_int :: "int \<Rightarrow> string" where
  "dec_of_int i = (if i < 0 then ''-'' @ dec_of_nat (nat (- i)) else dec_of_nat (nat i))"

definition hex_digit :: "nat \<Rightarrow> char" where
  "hex_digit n = (if n < 10 then char_of (48 + n) else char_of (87 + n))"

definition hex_byte :: "char \<Rightarrow> string" where
  "hex_byte c = [hex_digit (of_char c div 16), hex_digit (of_char c mod 16)]"

text \<open>\<^verbatim>\<open>bytes.hex()\<close>.\<close>

definition hex_of :: "bytes \<Rightarrow> string" where
  "hex_of b = concat (map hex_byte b)"

definition lower_char :: "char \<Rightarrow> char" where
  "lower_char c = (if is_upper c then char_of (of_char c + (32::nat)) else c)"

text \<open>\<^verbatim>\<open>str.lower()\<close> on ASCII letters; other bytes are left alone.\<close>

definition lower_str :: "string \<Rightarrow> string" where
  "lower_str = map lower_char"

text \<open>\<^verbatim>\<open>len(s)\<close> and \<^verbatim>\<open>s[:n]\<close> count code points: a byte \<open>10xxxxxx\<close> continues the one before it.\<close>

definition is_cont :: "char \<Rightarrow> bool" where
  "is_cont c \<longleftrightarrow> (128 :: nat) \<le> of_char c \<and> of_char c < (192 :: nat)"

definition py_len :: "string \<Rightarrow> nat" where
  "py_len s = length (filter (\<lambda>c. \<not> is_cont c) s)"

fun py_take :: "nat \<Rightarrow> string \<Rightarrow> string" where
  "py_take n [] = []"
| "py_take n (c # s) =
     (if is_cont c then c # py_take n s else (case n of 0 \<Rightarrow> [] | Suc m \<Rightarrow> c # py_take m s))"

lemma py_len_simps [simp]: "py_len [] = 0" "py_len (c # s) = (if is_cont c then 0 else 1) + py_len s"
  "py_len (s @ t) = py_len s + py_len t"
  by (simp_all add: py_len_def)

lemma py_len_take: "py_len (py_take n s) = min n (py_len s)"
  by (induction n s rule: py_take.induct) (auto split: nat.split)

lemma py_len_le: "py_len s \<le> length s"
  by (simp add: py_len_def)

text \<open>ASCII whitespace as \<^verbatim>\<open>str.split()\<close> and \<^verbatim>\<open>str.strip()\<close> see it.\<close>

definition is_space :: "char \<Rightarrow> bool" where
  "is_space c \<longleftrightarrow> c = CHR '' '' \<or> (of_char c \<ge> (9::nat) \<and> of_char c \<le> (13::nat))
     \<or> (of_char c \<ge> (28::nat) \<and> of_char c \<le> (31::nat))"

definition rstrip :: "string \<Rightarrow> string" where
  "rstrip s = rev (dropWhile is_space (rev s))"

text \<open>\<^verbatim>\<open>x in s\<close> for strings.\<close>

fun starts_with :: "string \<Rightarrow> string \<Rightarrow> bool" where
  "starts_with [] s = True"
| "starts_with (p # ps) [] = False"
| "starts_with (p # ps) (c # cs) = (p = c \<and> starts_with ps cs)"

fun has_substring :: "string \<Rightarrow> string \<Rightarrow> bool" where
  "has_substring p [] = (p = [])"
| "has_substring p (c # cs) = (starts_with p (c # cs) \<or> has_substring p cs)"

lemma set_join_str: "set (join_str sep xs) \<subseteq> set sep \<union> (\<Union>x \<in> set xs. set x)"
  by (induction sep xs rule: join_str.induct) auto

lemma of_char_less_256 [simp]: "(of_char c :: nat) < 256"
  using nat_of_char_less_256 by auto

lemma char_of_eq_iff_small: "a < 256 \<Longrightarrow> b < 256 \<Longrightarrow> (char_of (a::nat) = char_of b) = (a = b)"
  by (metis mod_less of_char_of)

lemma hex_digit_inj: "a < 16 \<Longrightarrow> b < 16 \<Longrightarrow> hex_digit a = hex_digit b \<longleftrightarrow> a = b"
  by (auto simp: hex_digit_def char_of_eq_iff_small)

lemma hex_byte_inj: "hex_byte c = hex_byte d \<longleftrightarrow> c = d"
proof
  assume h: "hex_byte c = hex_byte d"
  have "(of_char c :: nat) div 16 = of_char d div 16" "(of_char c :: nat) mod 16 = of_char d mod 16"
    using h hex_digit_inj [of "of_char c div 16" "of_char d div 16"]
      hex_digit_inj [of "of_char c mod 16" "of_char d mod 16"]
    by (auto simp: hex_byte_def less_mult_imp_div_less)
  then have "(of_char c :: nat) = of_char d" by (metis div_mult_mod_eq)
  then show "c = d" by simp
qed simp

lemma length_hex_of [simp]: "length (hex_of b) = 2 * length b"
  by (induction b) (auto simp: hex_of_def hex_byte_def)

lemma hex_of_inj: "hex_of a = hex_of b \<longleftrightarrow> a = b"
proof
  show "hex_of a = hex_of b \<Longrightarrow> a = b"
  proof (induction a arbitrary: b)
    case Nil
    then show ?case by (cases b) (auto simp: hex_of_def hex_byte_def)
  next
    case (Cons c a)
    then obtain d b' where b: "b = d # b'"
      by (cases b) (auto simp: hex_of_def hex_byte_def)
    with Cons.prems have "hex_byte c = hex_byte d" "hex_of a = hex_of b'"
      by (auto simp: hex_of_def hex_byte_def)
    with Cons.IH b show ?case by (simp add: hex_byte_inj)
  qed
qed simp

subsection \<open>Decimal numbers read back\<close>

definition digit_val :: "char \<Rightarrow> nat" where
  "digit_val c = of_char c - 48"

definition nat_of_dec :: "string \<Rightarrow> nat" where
  "nat_of_dec s = foldl (\<lambda>n c. 10 * n + digit_val c) 0 s"

lemma is_digit_char_of: "n < 10 \<Longrightarrow> is_digit (char_of (48 + n :: nat))"
  by (auto simp: is_digit_def less_eq_char_def)

lemma digit_val_char_of: "n < 10 \<Longrightarrow> digit_val (char_of (48 + n :: nat)) = n"
  by (simp add: digit_val_def)

lemma dec_of_nat_digits: "list_all is_digit (dec_of_nat n)"
proof (induction n rule: dec_of_nat.induct)
  case (1 n)
  then show ?case
    by (subst dec_of_nat.simps) (auto simp: is_digit_char_of)
qed

lemma dec_of_nat_nonempty: "dec_of_nat n \<noteq> []"
  by (subst dec_of_nat.simps) simp

lemma nat_of_dec_of_nat: "nat_of_dec (dec_of_nat n) = n"
proof (induction n rule: dec_of_nat.induct)
  case (1 n)
  then show ?case
    by (subst dec_of_nat.simps)
      (auto simp: nat_of_dec_def digit_val_char_of digit_val_char_of [of "n mod 10"])
qed

lemma dec_of_nat_inj: "dec_of_nat a = dec_of_nat b \<longleftrightarrow> a = b"
  by (metis nat_of_dec_of_nat)

lemma dec_of_nat_head: "\<exists>c cs. dec_of_nat n = c # cs \<and> is_digit c"
  using dec_of_nat_nonempty [of n] dec_of_nat_digits [of n] by (cases "dec_of_nat n") auto

lemma dec_of_int_inj: "dec_of_int a = dec_of_int b \<longleftrightarrow> a = b"
proof
  assume h: "dec_of_int a = dec_of_int b"
  have "is_digit CHR ''-'' = False" by (simp add: is_digit_def)
  then have "(a < 0) = (b < 0)"
    using h dec_of_nat_head [of "nat a"] dec_of_nat_head [of "nat b"]
    by (auto simp: dec_of_int_def split: if_splits)
  then show "a = b" using h by (auto simp: dec_of_int_def dec_of_nat_inj split: if_splits)
qed simp

text \<open>A run of digits ended by a non-digit determines both parts.\<close>

lemma span_unique:
  assumes "list_all P a" "list_all P b" "\<not> P x" "\<not> P y" "a @ x # r = b @ y # s"
  shows "a = b \<and> x = y \<and> r = s"
  using assms
proof (induction a arbitrary: b)
  case Nil
  then show ?case by (cases b) auto
next
  case (Cons c a)
  then show ?case by (cases b) auto
qed

subsection \<open>Joining and splitting at a separator\<close>

lemma split_on_nonempty: "split_on c s \<noteq> []"
  by (induction s) (auto split: list.splits)

lemma split_on_append: "c \<notin> set x \<Longrightarrow> split_on c (x @ c # s) = x # split_on c s"
  by (induction x) auto

lemma split_on_single: "c \<notin> set x \<Longrightarrow> split_on c x = [x]"
  by (induction x) auto

lemma split_on_join: "xs \<noteq> [] \<Longrightarrow> \<forall>x \<in> set xs. c \<notin> set x \<Longrightarrow> split_on c (join_str [c] xs) = xs"
proof (induction xs rule: induct_list012)
  case (3 x y zs)
  then show ?case using split_on_append [of c x "join_str [c] (y # zs)"] by simp
qed (simp_all add: split_on_single)

lemma join_str_empty: "join_str sep xs = [] \<Longrightarrow> xs = [] \<or> [] \<in> set xs"
  by (cases xs rule: list.exhaust; cases "tl xs") auto

subsection \<open>Lists and sets\<close>

lemma set_sorted_list_of_fin: "finite A \<Longrightarrow> set (sorted_list_of_set A) = A"
  by simp

lemma sorted_list_of_set_inj_iff:
  "finite A \<Longrightarrow> finite B \<Longrightarrow> sorted_list_of_set A = sorted_list_of_set B \<longleftrightarrow> A = B"
  using sorted_list_of_set_inject by blast

end
