(* ===== verification/Sha256.thy ===== *)
theory Sha256
  imports Prelude "HOL-Library.Word"
begin

unbundle bit_operations_syntax

section \<open>The standard library's SHA-256\<close>

text \<open>
  \<^verbatim>\<open>hashlib.sha256(b).digest()\<close> of the Python standard library, which the audit chain, the
  Merkle tree, the row fingerprint and the source identifiers all call: FIPS 180-4 over 32-bit
  words. Nothing in the development evaluates it on symbolic input; what the proofs use is that
  it is a function whose result has 32 bytes (\<open>length_sha256\<close>). Where security depends on
  collision freedom, the theorems name the two colliding inputs instead of assuming there are
  none.
\<close>

type_synonym w32 = "32 word"

definition sha_k :: "w32 list" where
  "sha_k = [
    1116352408, 1899447441, 3049323471, 3921009573, 961987163, 1508970993, 2453635748, 2870763221,
    3624381080, 310598401, 607225278, 1426881987, 1925078388, 2162078206, 2614888103, 3248222580,
    3835390401, 4022224774, 264347078, 604807628, 770255983, 1249150122, 1555081692, 1996064986,
    2554220882, 2821834349, 2952996808, 3210313671, 3336571891, 3584528711, 113926993, 338241895,
    666307205, 773529912, 1294757372, 1396182291, 1695183700, 1986661051, 2177026350, 2456956037,
    2730485921, 2820302411, 3259730800, 3345764771, 3516065817, 3600352804, 4094571909, 275423344,
    430227734, 506948616, 659060556, 883997877, 958139571, 1322822218, 1537002063, 1747873779,
    1955562222, 2024104815, 2227730452, 2361852424, 2428436474, 2756734187, 3204031479, 3329325298]"

definition sha_h0 :: "w32 list" where
  "sha_h0 = [
    1779033703, 3144134277, 1013904242, 2773480762, 1359893119, 2600822924, 528734635, 1541459225]"

definition rotr :: "nat \<Rightarrow> w32 \<Rightarrow> w32" where
  "rotr n x = (drop_bit n x OR push_bit (32 - n) x)"

definition ch :: "w32 \<Rightarrow> w32 \<Rightarrow> w32 \<Rightarrow> w32" where
  "ch x y z = ((x AND y) XOR (NOT x AND z))"

definition maj :: "w32 \<Rightarrow> w32 \<Rightarrow> w32 \<Rightarrow> w32" where
  "maj x y z = ((x AND y) XOR (x AND z) XOR (y AND z))"

definition big_sigma0 :: "w32 \<Rightarrow> w32" where
  "big_sigma0 x = (rotr 2 x XOR rotr 13 x XOR rotr 22 x)"

definition big_sigma1 :: "w32 \<Rightarrow> w32" where
  "big_sigma1 x = (rotr 6 x XOR rotr 11 x XOR rotr 25 x)"

definition small_sigma0 :: "w32 \<Rightarrow> w32" where
  "small_sigma0 x = (rotr 7 x XOR rotr 18 x XOR drop_bit 3 x)"

definition small_sigma1 :: "w32 \<Rightarrow> w32" where
  "small_sigma1 x = (rotr 17 x XOR rotr 19 x XOR drop_bit 10 x)"

subsection \<open>Padding and blocks\<close>

definition be_byte :: "int \<Rightarrow> nat \<Rightarrow> char" where
  "be_byte n i = char_of (n div 256 ^ i)"

definition sha_pad :: "bytes \<Rightarrow> bytes" where
  "sha_pad m = m @ [CHR 0x80] @ replicate ((119 - length m mod 64) mod 64) (CHR 0x00)
     @ map (be_byte (8 * int (length m))) [7, 6, 5, 4, 3, 2, 1, 0]"

fun be_words :: "bytes \<Rightarrow> w32 list" where
  "be_words (a # b # c # d # r) =
     word_of_int (((of_char a * 256 + of_char b) * 256 + of_char c) * 256 + of_char d) # be_words r"
| "be_words _ = []"

text \<open>The message schedule, newest word first.\<close>

fun sha_extend :: "nat \<Rightarrow> w32 list \<Rightarrow> w32 list" where
  "sha_extend 0 r = r"
| "sha_extend (Suc n) r =
     sha_extend n ((small_sigma1 (r ! 1) + r ! 6 + small_sigma0 (r ! 14) + r ! 15) # r)"

definition sha_schedule :: "w32 list \<Rightarrow> w32 list" where
  "sha_schedule ws = rev (sha_extend 48 (rev ws))"

subsection \<open>Compression\<close>

datatype sha_state = Sha_State w32 w32 w32 w32 w32 w32 w32 w32

fun sha_round :: "w32 \<Rightarrow> w32 \<Rightarrow> sha_state \<Rightarrow> sha_state" where
  "sha_round k w (Sha_State a b c d e f g h) =
     (let t1 = h + big_sigma1 e + ch e f g + k + w;
          t2 = big_sigma0 a + maj a b c
      in Sha_State (t1 + t2) a b c (d + t1) e f g)"

fun sha_rounds :: "w32 list \<Rightarrow> w32 list \<Rightarrow> sha_state \<Rightarrow> sha_state" where
  "sha_rounds (k # ks) (w # ws) s = sha_rounds ks ws (sha_round k w s)"
| "sha_rounds _ _ s = s"

fun sha_add :: "sha_state \<Rightarrow> sha_state \<Rightarrow> sha_state" where
  "sha_add (Sha_State a b c d e f g h) (Sha_State a' b' c' d' e' f' g' h') =
     Sha_State (a + a') (b + b') (c + c') (d + d') (e + e') (f + f') (g + g') (h + h')"

function sha_blocks :: "w32 list \<Rightarrow> sha_state \<Rightarrow> sha_state" where
  "sha_blocks ws s =
     (if length ws < 16 then s
      else sha_blocks (drop 16 ws) (sha_add s (sha_rounds sha_k (sha_schedule (take 16 ws)) s)))"
  by pat_completeness auto
termination
  by (relation "measure (\<lambda>(ws, s). length ws)") auto

declare sha_blocks.simps [simp del]

definition word_bytes :: "w32 \<Rightarrow> bytes" where
  "word_bytes w = map (be_byte (uint w)) [3, 2, 1, 0]"

fun sha_digest :: "sha_state \<Rightarrow> bytes" where
  "sha_digest (Sha_State a b c d e f g h) =
     concat (map word_bytes [a, b, c, d, e, f, g, h])"

definition sha_init :: sha_state where
  "sha_init = Sha_State (sha_h0 ! 0) (sha_h0 ! 1) (sha_h0 ! 2) (sha_h0 ! 3)
     (sha_h0 ! 4) (sha_h0 ! 5) (sha_h0 ! 6) (sha_h0 ! 7)"

definition sha256 :: "bytes \<Rightarrow> bytes" where
  "sha256 m = sha_digest (sha_blocks (be_words (sha_pad m)) sha_init)"

lemma length_sha_digest: "length (sha_digest s) = 32"
  by (cases s) (simp add: word_bytes_def)

lemma length_sha256 [simp]: "length (sha256 m) = 32"
  by (simp add: sha256_def length_sha_digest)

end
