(* ===== verification/AuditDigest.thy ===== *)
theory AuditDigest
  imports Sha256
begin

section \<open>Folding a digest over a sequence\<close>

text \<open>
  Both tamper-evidence structures of \<^verbatim>\<open>schemabrain/audit\<close> fold a digest over a sequence: the
  per-row chain hashes the previous digest followed by the row's bytes, the Merkle verifier hashes
  the running digest with one sibling per level. The contract they share is the locale
  \<open>digest_fold\<close>: the digest has a fixed size, and the bytes that are hashed determine both the
  previous digest and the new item. Its conclusion \<open>fold_binding\<close> says that two folds with the
  same result consumed the same sequence, or else two of the inputs that were hashed on the way
  collide, and it names them.
\<close>

fun fold_preimages :: "(bytes \<Rightarrow> bytes) \<Rightarrow> (bytes \<Rightarrow> 'x \<Rightarrow> bytes) \<Rightarrow> bytes \<Rightarrow> 'x list \<Rightarrow> bytes list" where
  "fold_preimages H pre p [] = []"
| "fold_preimages H pre p (x # xs) = pre p x # fold_preimages H pre (H (pre p x)) xs"

fun fold_digest :: "(bytes \<Rightarrow> bytes) \<Rightarrow> (bytes \<Rightarrow> 'x \<Rightarrow> bytes) \<Rightarrow> bytes \<Rightarrow> 'x list \<Rightarrow> bytes" where
  "fold_digest H pre p [] = p"
| "fold_digest H pre p (x # xs) = fold_digest H pre (H (pre p x)) xs"

definition collision :: "bytes list \<Rightarrow> bytes list \<Rightarrow> bool" where
  "collision as bs \<longleftrightarrow> (\<exists>a \<in> set as. \<exists>b \<in> set bs. a \<noteq> b \<and> sha256 a = sha256 b)"

lemma collision_mono:
  "collision as bs \<Longrightarrow> set as \<subseteq> set as' \<Longrightarrow> set bs \<subseteq> set bs' \<Longrightarrow> collision as' bs'"
  by (auto simp: collision_def)

lemma collisionI: "a \<in> set as \<Longrightarrow> b \<in> set bs \<Longrightarrow> a \<noteq> b \<Longrightarrow> sha256 a = sha256 b \<Longrightarrow> collision as bs"
  by (auto simp: collision_def)

lemma collision_Cons [intro]: "collision as bs \<Longrightarrow> collision (a # as) (b # bs)"
  by (auto elim: collision_mono)

lemma fold_digest_append:
  "fold_digest H pre p (xs @ ys) = fold_digest H pre (fold_digest H pre p xs) ys"
  by (induction xs arbitrary: p) auto

locale digest_fold =
  fixes H :: "bytes \<Rightarrow> bytes"
    and pre :: "bytes \<Rightarrow> 'x \<Rightarrow> bytes"
    and size :: nat
    and alike :: "'x \<Rightarrow> 'x \<Rightarrow> bool"
  assumes digest_size: "length (H m) = size"
    and pre_inj: "length p = size \<Longrightarrow> length q = size \<Longrightarrow> alike x y \<Longrightarrow> pre p x = pre q y
      \<Longrightarrow> p = q \<and> x = y"
begin

lemma fold_size: "length p = size \<Longrightarrow> length (fold_digest H pre p xs) = size"
  by (induction xs arbitrary: p) (auto simp: digest_size)

lemma fold_binding:
  assumes "list_all2 alike xs ys" "length p = size" "length q = size"
    and "fold_digest H pre p xs = fold_digest H pre q ys"
  shows "(p = q \<and> xs = ys) \<or>
    (\<exists>a \<in> set (fold_preimages H pre p xs). \<exists>b \<in> set (fold_preimages H pre q ys). a \<noteq> b \<and> H a = H b)"
  using assms
proof (induction xs ys arbitrary: p q rule: list_all2_induct)
  case Nil
  then show ?case by simp
next
  case (Cons x xs y ys)
  from Cons.prems have "fold_digest H pre (H (pre p x)) xs = fold_digest H pre (H (pre q y)) ys"
    by simp
  from Cons.IH [OF digest_size digest_size this] consider
      (same) "H (pre p x) = H (pre q y)" "xs = ys"
    | (coll) "\<exists>a \<in> set (fold_preimages H pre (H (pre p x)) xs).
        \<exists>b \<in> set (fold_preimages H pre (H (pre q y)) ys). a \<noteq> b \<and> H a = H b"
    by blast
  then show ?case
  proof cases
    case same
    then show ?thesis using pre_inj [OF Cons.prems(1,2) Cons.hyps(1)] by auto
  next
    case coll
    then show ?thesis by auto
  qed
qed

end

end
