(* ===== verification/AuditMerkle.thy ===== *)
theory AuditMerkle
  imports AuditDigest
begin

section \<open>The Merkle tree over the audit log (audit/merkle.py)\<close>

text \<open>
  The RFC 6962 tree hash, audit paths and the verifier's walk of
  \<^verbatim>\<open>schemabrain/audit/merkle.py\<close>, with SHA-256 as the digest. Lists of leaves are the
  canonical row bytes in id order. \<^verbatim>\<open>ValueError\<close> is the only exception of the module.
\<close>

datatype merkle_error = LeafIndexOutOfRange int nat

definition LEAF_PREFIX :: bytes where
  "LEAF_PREFIX = [CHR 0x00]"

definition NODE_PREFIX :: bytes where
  "NODE_PREFIX = [CHR 0x01]"

definition EMPTY_TREE_HASH :: bytes where
  "EMPTY_TREE_HASH = sha256 []"

definition leaf_hash :: "bytes \<Rightarrow> bytes" where
  "leaf_hash leaf_bytes = sha256 (LEAF_PREFIX @ leaf_bytes)"

definition node_hash :: "bytes \<Rightarrow> bytes \<Rightarrow> bytes" where
  "node_hash left right = sha256 (NODE_PREFIX @ left @ right)"

text \<open>\<^verbatim>\<open>int.bit_length\<close> on a non-negative integer.\<close>

fun bit_length :: "nat \<Rightarrow> nat" where
  "bit_length n = (if n = 0 then 0 else Suc (bit_length (n div 2)))"

declare bit_length.simps [simp del]

definition largest_power_of_two_below :: "nat \<Rightarrow> nat" where
  "largest_power_of_two_below n = push_bit (bit_length (n - 1) - 1) 1"

lemma bit_length_pos: "0 < n \<Longrightarrow> bit_length n = Suc (bit_length n - 1)"
  by (simp add: bit_length.simps [of n])

lemma bit_length_bounds: "0 < n \<Longrightarrow> 2 ^ (bit_length n - 1) \<le> n \<and> n < 2 ^ bit_length n"
proof (induction n rule: bit_length.induct)
  case (1 n)
  show ?case
  proof (cases "n div 2 = 0")
    case True
    with "1.prems" have "n = 1" by simp
    then show ?thesis by (simp add: bit_length.simps)
  next
    case False
    with "1.IH" "1.prems" have h: "2 ^ (bit_length (n div 2) - 1) \<le> n div 2"
      "n div 2 < 2 ^ bit_length (n div 2)" by auto
    have pos: "bit_length (n div 2) = Suc (bit_length (n div 2) - 1)"
      using False bit_length_pos by simp
    have "(2::nat) ^ bit_length (n div 2) = 2 * 2 ^ (bit_length (n div 2) - 1)"
      by (subst pos) simp
    then show ?thesis using h "1.prems" by (simp add: bit_length.simps [of n]) linarith
  qed
qed

lemma bit_length_le: "n < 2 ^ j \<Longrightarrow> bit_length n \<le> j"
proof (cases "n = 0")
  case False
  assume "n < 2 ^ j"
  then have "2 ^ (bit_length n - 1) < (2::nat) ^ j" using bit_length_bounds [of n] False by linarith
  then have "bit_length n - 1 < j" by (rule power_less_imp_less_exp [rotated]) simp
  then show ?thesis by simp
qed (simp add: bit_length.simps)

text \<open>The split point \<^verbatim>\<open>k\<close> of RFC 6962: a power of two with \<open>k < n \<le> 2k\<close>.\<close>

lemma split_point:
  assumes "2 \<le> n"
  obtains j where "largest_power_of_two_below n = 2 ^ j" "2 ^ j < n" "n \<le> 2 * 2 ^ j"
    "bit_length (n - 1) = Suc j"
proof -
  let ?j = "bit_length (n - 1) - 1"
  have b: "2 ^ ?j \<le> n - 1" "n - 1 < 2 ^ bit_length (n - 1)"
    using bit_length_bounds [of "n - 1"] assms by auto
  have s: "bit_length (n - 1) = Suc ?j"
    using assms bit_length_pos [of "n - 1"] by simp
  have "n - 1 < 2 * 2 ^ ?j" using b(2) s by (metis power_Suc)
  then have "2 ^ ?j < n" "n \<le> 2 * 2 ^ ?j" using b(1) assms by auto
  then show ?thesis using that [of ?j] s by (simp add: largest_power_of_two_below_def)
qed

lemma split_point_less: "2 \<le> n \<Longrightarrow> largest_power_of_two_below n < n"
  by (rule split_point) auto

lemma split_point_less' [simp]:
  "n \<noteq> 0 \<Longrightarrow> n \<noteq> Suc 0 \<Longrightarrow> largest_power_of_two_below n < n"
  by (rule split_point_less) simp

lemma split_point_pos [simp]: "0 < largest_power_of_two_below n"
  by (simp add: largest_power_of_two_below_def)

lemma split_shorter [simp]:
  assumes "hs \<noteq> []" "length hs \<noteq> Suc 0"
  shows "min (length hs) (largest_power_of_two_below (length hs)) < length hs"
    "length hs - largest_power_of_two_below (length hs) < length hs"
  using assms split_point_less' [of "length hs"] split_point_pos [of "length hs"]
  by (auto simp del: split_point_less' split_point_pos)

lemma split_shorter_int [simp]:
  assumes "m < int (length hs)" "\<not> m < int (largest_power_of_two_below (length hs))"
  shows "length hs - largest_power_of_two_below (length hs) < length hs"
proof -
  have "0 < largest_power_of_two_below (length hs)" "largest_power_of_two_below (length hs) < length hs"
    using assms by (auto simp del: split_point_less')
  then show ?thesis by linarith
qed

lemma split_shorter_min [simp]:
  "0 \<le> m \<Longrightarrow> m < int (length hs) \<Longrightarrow> length hs \<noteq> Suc 0 \<Longrightarrow>
     min (length hs) (largest_power_of_two_below (length hs)) < length hs"
  by (rule split_shorter(1)) auto

function root_from_leaf_hashes :: "bytes list \<Rightarrow> bytes" where
  "root_from_leaf_hashes hashes =
     (if length hashes = 0 then EMPTY_TREE_HASH
      else if length hashes = 1 then hashes ! 0
      else node_hash
        (root_from_leaf_hashes (take (largest_power_of_two_below (length hashes)) hashes))
        (root_from_leaf_hashes (drop (largest_power_of_two_below (length hashes)) hashes)))"
  by pat_completeness auto
termination
  by (relation "measure length") auto

declare root_from_leaf_hashes.simps [simp del]

function path_from_leaf_hashes :: "int \<Rightarrow> bytes list \<Rightarrow> merkle_error + bytes list" where
  "path_from_leaf_hashes m hashes =
     (let n = length hashes; k = largest_power_of_two_below n in
      if \<not> (0 \<le> m \<and> m < int n) then Inl (LeafIndexOutOfRange m n)
      else if n = 1 then Inr []
      else if m < int k then
        rbind (path_from_leaf_hashes m (take k hashes))
          (\<lambda>p. Inr (p @ [root_from_leaf_hashes (drop k hashes)]))
      else
        rbind (path_from_leaf_hashes (m - int k) (drop k hashes))
          (\<lambda>p. Inr (p @ [root_from_leaf_hashes (take k hashes)])))"
  by pat_completeness auto
termination
  by (relation "measure (\<lambda>(m, hs). length hs)") auto

declare path_from_leaf_hashes.simps [simp del]

definition merkle_root :: "bytes list \<Rightarrow> bytes" where
  "merkle_root leaves = root_from_leaf_hashes (map leaf_hash leaves)"

definition inclusion_proof :: "int \<Rightarrow> bytes list \<Rightarrow> merkle_error + bytes list" where
  "inclusion_proof leaf_index leaves = path_from_leaf_hashes leaf_index (map leaf_hash leaves)"

text \<open>
  The verifier. The inner \<^verbatim>\<open>while\<close> is \<open>collapse\<close>; the \<^verbatim>\<open>for\<close> over the path is
  \<open>verify_loop\<close>, whose result None is the early \<^verbatim>\<open>return False\<close>.
\<close>

fun collapse :: "nat \<Rightarrow> nat \<Rightarrow> nat \<times> nat" where
  "collapse fn sn = (if even fn \<and> fn \<noteq> 0 then collapse (fn div 2) (sn div 2) else (fn, sn))"

declare collapse.simps [simp del]

fun verify_loop :: "nat \<Rightarrow> nat \<Rightarrow> bytes \<Rightarrow> bytes list \<Rightarrow> (nat \<times> nat \<times> bytes) option" where
  "verify_loop fn sn r [] = Some (fn, sn, r)"
| "verify_loop fn sn r (sibling # path) =
     (if sn = 0 then None
      else if odd fn \<or> fn = sn then
        (let r' = node_hash sibling r;
             (fn', sn') = (if even fn then collapse fn sn else (fn, sn))
         in verify_loop (fn' div 2) (sn' div 2) r' path)
      else verify_loop (fn div 2) (sn div 2) (node_hash r sibling) path)"

definition verify_inclusion :: "int \<Rightarrow> int \<Rightarrow> bytes \<Rightarrow> bytes list \<Rightarrow> bytes \<Rightarrow> bool" where
  "verify_inclusion leaf_index tree_size leaf_hash_value audit_path root =
     (if leaf_index < 0 \<or> tree_size \<le> 0 \<or> leaf_index \<ge> tree_size then False
      else (case verify_loop (nat leaf_index) (nat (tree_size - 1)) leaf_hash_value audit_path of
              None \<Rightarrow> False
            | Some (fn, sn, r) \<Rightarrow> sn = 0 \<and> r = root))"

subsection \<open>One split of the tree\<close>

lemma split_point_unique:
  assumes "2 ^ i < n" "n \<le> 2 * 2 ^ i"
  shows "largest_power_of_two_below n = 2 ^ i"
proof -
  have "2 \<le> n" using assms(1) by (metis One_nat_def Suc_leI le_less_trans not_less_eq_eq
      numeral_2_eq_2 one_le_numeral one_le_power)
  then obtain j where j: "largest_power_of_two_below n = 2 ^ j" "2 ^ j < n" "n \<le> 2 * 2 ^ j"
    by (rule split_point)
  have "(2::nat) ^ i < 2 ^ Suc j" "(2::nat) ^ j < 2 ^ Suc i" using assms j by auto
  then have "i < Suc j" "j < Suc i"
    using power_less_imp_less_exp [of "2::nat"] by (metis one_less_numeral_iff semiring_norm(76))+
  then show ?thesis using j(1) by simp
qed

lemma split_point_power: "largest_power_of_two_below (2 * 2 ^ j) = 2 ^ j"
  by (rule split_point_unique) auto

lemma root_single: "length hs = Suc 0 \<Longrightarrow> root_from_leaf_hashes hs = hs ! 0"
  by (subst root_from_leaf_hashes.simps) simp

lemma root_split:
  "2 \<le> length hs \<Longrightarrow> k = largest_power_of_two_below (length hs) \<Longrightarrow>
     root_from_leaf_hashes hs =
       node_hash (root_from_leaf_hashes (take k hs)) (root_from_leaf_hashes (drop k hs))"
  by (subst root_from_leaf_hashes.simps) auto

lemma path_single: "length hs = Suc 0 \<Longrightarrow> path_from_leaf_hashes 0 hs = Inr []"
  by (subst path_from_leaf_hashes.simps) simp

lemma path_left:
  "2 \<le> length hs \<Longrightarrow> k = largest_power_of_two_below (length hs) \<Longrightarrow> m < k \<Longrightarrow>
     path_from_leaf_hashes (int m) hs =
       rbind (path_from_leaf_hashes (int m) (take k hs))
         (\<lambda>p. Inr (p @ [root_from_leaf_hashes (drop k hs)]))"
  using split_point_less [of "length hs"]
  by (subst path_from_leaf_hashes.simps) (auto simp: Let_def)

lemma path_right:
  "2 \<le> length hs \<Longrightarrow> k = largest_power_of_two_below (length hs) \<Longrightarrow> k \<le> m \<Longrightarrow> m < length hs \<Longrightarrow>
     path_from_leaf_hashes (int m) hs =
       rbind (path_from_leaf_hashes (int (m - k)) (drop k hs))
         (\<lambda>p. Inr (p @ [root_from_leaf_hashes (take k hs)]))"
  by (subst path_from_leaf_hashes.simps) (auto simp: Let_def of_nat_diff)

subsection \<open>The verifier's walk along an honest path\<close>

lemma collapse_power: "odd a \<Longrightarrow> collapse (2 ^ t * a) (2 ^ t * a) = (a, a)"
  by (induction t) (auto simp: collapse.simps odd_pos)

lemma verify_step_border:
  assumes "odd a"
  shows "verify_loop (2 ^ t * a) (2 ^ t * a) r (sib # q) =
    verify_loop (a div 2) (a div 2) (node_hash sib r) q"
  using assms collapse_power [OF assms, of t] by (auto simp: Let_def odd_pos)

lemma verify_step_left:
  "even f \<Longrightarrow> s \<noteq> 0 \<Longrightarrow> f \<noteq> s \<Longrightarrow>
     verify_loop f s r (sib # q) = verify_loop (f div 2) (s div 2) (node_hash r sib) q"
  by simp

lemma verify_step_odd:
  "odd f \<Longrightarrow> s \<noteq> 0 \<Longrightarrow>
     verify_loop f s r (sib # q) = verify_loop (f div 2) (s div 2) (node_hash sib r) q"
  by (simp add: Let_def)

text \<open>A perfect subtree strictly left of the border: the walk follows the bits of the index.\<close>

lemma verify_perfect:
  assumes "length hs = 2 ^ j" "m < 2 ^ j" "b < s div 2 ^ j"
  shows "\<exists>p. path_from_leaf_hashes (int m) hs = Inr p \<and> length p = j \<and>
    (\<forall>q. verify_loop (m + 2 ^ j * b) s (hs ! m) (p @ q) =
         verify_loop b (s div 2 ^ j) (root_from_leaf_hashes hs) q)"
  using assms
proof (induction j arbitrary: hs m b)
  case 0
  then show ?case by (auto simp: path_single root_single)
next
  case (Suc j)
  let ?k = "2 ^ j :: nat"
  have n: "2 \<le> length hs" "?k = largest_power_of_two_below (length hs)"
    using Suc.prems(1) split_point_power [of j] by auto
  have lens: "length (take ?k hs) = ?k" "length (drop ?k hs) = ?k" using Suc.prems(1) by auto
  have s2: "s div 2 ^ Suc j = s div ?k div 2" "s div (2 * ?k) = s div ?k div 2"
    by (simp_all add: mult.commute [of 2] flip: div_mult2_eq)
  have above: "2 * b + 1 < s div ?k" "s div ?k \<noteq> 0" using Suc.prems(3) s2(1) by linarith+
  show ?case
  proof (cases "m < ?k")
    case True
    have e: "m + ?k * (2 * b) = m + 2 ^ Suc j * b" by simp
    have "2 * b < s div ?k" using above by simp
    from Suc.IH [OF lens(1) True this, unfolded e] obtain p where p:
      "path_from_leaf_hashes (int m) (take ?k hs) = Inr p" "length p = j"
      "\<And>q. verify_loop (m + 2 ^ Suc j * b) s (take ?k hs ! m) (p @ q) =
         verify_loop (2 * b) (s div ?k) (root_from_leaf_hashes (take ?k hs)) q" by blast
    have "verify_loop (m + 2 ^ Suc j * b) s (hs ! m) ((p @ [root_from_leaf_hashes (drop ?k hs)]) @ q)
        = verify_loop b (s div 2 ^ Suc j) (root_from_leaf_hashes hs) q" for q
      using p(3) True above by (simp add: root_split [OF n] s2)
    then show ?thesis using path_left [OF n True] p by auto
  next
    case False
    let ?m = "m - ?k"
    have m: "?m < ?k" "m < length hs" using Suc.prems False by auto
    have e: "?m + ?k * (2 * b + 1) = m + 2 ^ Suc j * b" using False by simp
    from Suc.IH [OF lens(2) m(1) above(1), unfolded e] obtain p where p:
      "path_from_leaf_hashes (int ?m) (drop ?k hs) = Inr p" "length p = j"
      "\<And>q. verify_loop (m + 2 ^ Suc j * b) s (drop ?k hs ! ?m) (p @ q) =
         verify_loop (2 * b + 1) (s div ?k) (root_from_leaf_hashes (drop ?k hs)) q" by blast
    have at: "drop ?k hs ! ?m = hs ! m" using False Suc.prems by simp
    have "verify_loop (m + 2 ^ Suc j * b) s (hs ! m) ((p @ [root_from_leaf_hashes (take ?k hs)]) @ q)
        = verify_loop b (s div 2 ^ Suc j) (root_from_leaf_hashes hs) q" for q
      using p(3) [unfolded at] above by (simp add: root_split [OF n] s2 Let_def)
    then show ?thesis using path_right [OF n _ m(2)] False p by auto
  qed
qed

text \<open>
  A subtree on the right border. Its index and its last index carry the same high part
  \<open>a\<close>; the walk through it ends with both counters equal to \<open>a\<close> times a power of two, the
  levels at which the border node has no sibling.
\<close>

lemma verify_border:
  assumes "m < length hs" "length hs \<le> 2 ^ h"
  shows "\<exists>p t. path_from_leaf_hashes (int m) hs = Inr p \<and> length p \<le> bit_length (length hs - 1) \<and>
    (\<forall>q. verify_loop (m + 2 ^ h * a) (length hs - 1 + 2 ^ h * a) (hs ! m) (p @ q) =
         verify_loop (2 ^ t * a) (2 ^ t * a) (root_from_leaf_hashes hs) q)"
  using assms
proof (induction "length hs" arbitrary: hs m h a rule: less_induct)
  case less
  show ?case
  proof (cases "length hs = 1")
    case True
    then show ?thesis using less.prems by (auto simp: path_single root_single)
  next
    case False
    then have two: "2 \<le> length hs" using less.prems by simp
    then obtain j where j: "largest_power_of_two_below (length hs) = 2 ^ j" "2 ^ j < length hs"
      "length hs \<le> 2 * 2 ^ j" "bit_length (length hs - 1) = Suc j" by (rule split_point)
    let ?k = "2 ^ j :: nat"
    have n: "2 \<le> length hs" "?k = largest_power_of_two_below (length hs)" using two j by auto
    have "(2::nat) ^ j < 2 ^ h" using j less.prems by linarith
    then have "j < h" using power_strict_increasing_iff [of "2::nat"] by simp
    then obtain d where h: "h = j + Suc d" by (metis add_Suc_right less_iff_Suc_add)
    show ?thesis
    proof (cases "m < ?k")
      case True
      let ?b = "2 ^ Suc d * a" and ?s = "length hs - 1 + 2 ^ h * a"
      have "(length hs - 1) div ?k = 1" using j by (intro div_nat_eqI) auto
      moreover have "?s = length hs - 1 + ?k * ?b" by (simp add: h power_add)
      ultimately have sd: "?s div ?k = 1 + ?b"
        by (metis div_mult_self2 power_not_zero zero_neq_numeral add.commute)
      have mb: "m + ?k * ?b = m + 2 ^ h * a" by (simp add: h power_add)
      have "length (take ?k hs) = ?k" "?b < ?s div ?k" "take ?k hs ! m = hs ! m"
        using j sd True by auto
      from verify_perfect [OF this(1) True this(2), unfolded mb sd this(3)] obtain p where p:
        "path_from_leaf_hashes (int m) (take ?k hs) = Inr p" "length p = j"
        "\<And>q. verify_loop (m + 2 ^ h * a) ?s (hs ! m) (p @ q) =
           verify_loop ?b (1 + ?b) (root_from_leaf_hashes (take ?k hs)) q" by blast
      have "verify_loop (m + 2 ^ h * a) ?s (hs ! m) ((p @ [root_from_leaf_hashes (drop ?k hs)]) @ q)
          = verify_loop (2 ^ d * a) (2 ^ d * a) (root_from_leaf_hashes hs) q" for q
        using p(3) by (simp add: root_split [OF n])
      then show ?thesis using path_left [OF n True] p j(4) by fastforce
    next
      case False
      let ?m = "m - ?k" and ?a = "1 + 2 ^ Suc d * a"
      have r: "length (drop ?k hs) < length hs" "?m < length (drop ?k hs)"
        "length (drop ?k hs) \<le> 2 ^ j" using False j less.prems by auto
      have e: "?m + 2 ^ j * ?a = m + 2 ^ h * a"
        "length (drop ?k hs) - 1 + 2 ^ j * ?a = length hs - 1 + 2 ^ h * a"
        "drop ?k hs ! ?m = hs ! m"
        using False j less.prems by (auto simp: h power_add algebra_simps)
      from less.hyps [OF r, of ?a, unfolded e] obtain p t where p:
        "path_from_leaf_hashes (int ?m) (drop ?k hs) = Inr p"
        "length p \<le> bit_length (length (drop ?k hs) - 1)"
        "\<And>q. verify_loop (m + 2 ^ h * a) (length hs - 1 + 2 ^ h * a) (hs ! m) (p @ q) =
           verify_loop (2 ^ t * ?a) (2 ^ t * ?a) (root_from_leaf_hashes (drop ?k hs)) q" by blast
      have "verify_loop (m + 2 ^ h * a) (length hs - 1 + 2 ^ h * a) (hs ! m)
          ((p @ [root_from_leaf_hashes (take ?k hs)]) @ q) =
          verify_loop (2 ^ d * a) (2 ^ d * a) (root_from_leaf_hashes hs) q" for q
        using p(3) verify_step_border [of ?a t] by (simp add: root_split [OF n] del: verify_loop.simps)
      moreover have "length (p @ [root_from_leaf_hashes (take ?k hs)]) \<le> bit_length (length hs - 1)"
        using p(2) bit_length_le [of "length (drop ?k hs) - 1" j] r j(4)
        by (simp add: less_eq_nat.simps) linarith
      ultimately show ?thesis using path_right [OF n _ less.prems(1)] False p(1)
        by (intro exI [of _ "p @ [root_from_leaf_hashes (take ?k hs)]"] exI [of _ d]) simp
    qed
  qed
qed

subsection \<open>The walk as a fold with recorded sides\<close>

text \<open>
  Which side each sibling goes on, and how many siblings are consumed, depends on the index and
  the tree size only. \<open>walk_pos\<close> and \<open>walk_dirs\<close> are that part of the verifier; the rest is a
  \<open>fold_digest\<close> over the siblings tagged with their sides.
\<close>

definition sibling_left :: "nat \<Rightarrow> nat \<Rightarrow> bool" where
  "sibling_left fn sn \<longleftrightarrow> odd fn \<or> fn = sn"

definition walk_next :: "nat \<Rightarrow> nat \<Rightarrow> nat \<times> nat" where
  "walk_next fn sn =
     (let (fn', sn') = (if sibling_left fn sn \<and> even fn then collapse fn sn else (fn, sn))
      in (fn' div 2, sn' div 2))"

fun walk_pos :: "nat \<Rightarrow> nat \<Rightarrow> nat \<Rightarrow> (nat \<times> nat) option" where
  "walk_pos fn sn 0 = Some (fn, sn)"
| "walk_pos fn sn (Suc k) =
     (if sn = 0 then None else case walk_next fn sn of (f, s) \<Rightarrow> walk_pos f s k)"

fun walk_dirs :: "nat \<Rightarrow> nat \<Rightarrow> nat \<Rightarrow> bool list" where
  "walk_dirs fn sn 0 = []"
| "walk_dirs fn sn (Suc k) =
     sibling_left fn sn # (case walk_next fn sn of (f, s) \<Rightarrow> walk_dirs f s k)"

fun merkle_pre :: "bytes \<Rightarrow> bool \<times> bytes \<Rightarrow> bytes" where
  "merkle_pre r (left, sibling) = NODE_PREFIX @ (if left then sibling @ r else r @ sibling)"

definition sided :: "nat \<Rightarrow> nat \<Rightarrow> bytes list \<Rightarrow> (bool \<times> bytes) list" where
  "sided fn sn path = zip (walk_dirs fn sn (length path)) path"

text \<open>The byte strings the verifier hashes on its way up.\<close>

definition walk_preimages :: "nat \<Rightarrow> nat \<Rightarrow> bytes \<Rightarrow> bytes list \<Rightarrow> bytes list" where
  "walk_preimages fn sn r path = fold_preimages sha256 merkle_pre r (sided fn sn path)"

lemma length_walk_dirs [simp]: "length (walk_dirs fn sn k) = k"
  by (induction k arbitrary: fn sn) (auto split: prod.splits)

lemma verify_loop_fold:
  "verify_loop fn sn r path =
     (case walk_pos fn sn (length path) of None \<Rightarrow> None
      | Some (f, s) \<Rightarrow> Some (f, s, fold_digest sha256 merkle_pre r (sided fn sn path)))"
proof (induction path arbitrary: fn sn r)
  case Nil
  then show ?case by (simp add: sided_def)
next
  case (Cons sib path)
  have "verify_loop fn sn r (sib # path) = (if sn = 0 then None
      else case walk_next fn sn of
        (f, s) \<Rightarrow> verify_loop f s (sha256 (merkle_pre r (sibling_left fn sn, sib))) path)"
    by (auto simp: walk_next_def sibling_left_def node_hash_def Let_def split: prod.splits)
  then show ?case
    by (auto simp: Cons.IH sided_def split: prod.splits option.splits)
qed

lemma walk_pos_end: "walk_pos fn sn k = Some (f, 0) \<Longrightarrow> k < k' \<Longrightarrow> walk_pos fn sn k' = None"
proof (induction k arbitrary: fn sn k')
  case 0
  then show ?case by (cases k') auto
next
  case (Suc k)
  then show ?case by (cases k') (auto split: if_splits prod.splits)
qed

lemma walk_pos_unique:
  "walk_pos fn sn k = Some (f, 0) \<Longrightarrow> walk_pos fn sn k' = Some (f', 0) \<Longrightarrow> k = k'"
  using walk_pos_end [of fn sn k f k'] walk_pos_end [of fn sn k' f' k] by (cases k k' rule: linorder_cases) auto

interpretation merkle: digest_fold sha256 merkle_pre 32 "\<lambda>x y. fst x = fst y"
proof (standard, goal_cases)
  case (2 p q x y)
  then show ?case
    by (cases x; cases y) (auto simp: NODE_PREFIX_def split: if_splits)
qed simp

subsection \<open>Inclusion proofs\<close>

lemma inclusion_proof_verifies:
  assumes "m < length leaves"
  shows "\<exists>p. inclusion_proof (int m) leaves = Inr p \<and> 2 ^ length p < 2 * length leaves \<and>
    verify_loop m (length leaves - 1) (leaf_hash (leaves ! m)) p = Some (0, 0, merkle_root leaves)"
proof -
  let ?hs = "map leaf_hash leaves" and ?n = "length leaves"
  have "?n \<le> 2 ^ ?n" using less_exp by (simp add: less_imp_le)
  with verify_border [of m ?hs ?n 0] assms obtain p where p0:
    "path_from_leaf_hashes (int m) ?hs = Inr p" "length p \<le> bit_length (?n - 1)"
    "\<forall>q. verify_loop m (?n - 1) (leaf_hash (leaves ! m)) (p @ q) =
       verify_loop 0 0 (root_from_leaf_hashes ?hs) q"
    by auto
  note p = p0(1,2) spec [OF p0(3), of "[]"]
  have "2 ^ length p < 2 * ?n"
  proof (cases "?n = 1")
    case True
    then show ?thesis using p(2) by (simp add: bit_length.simps)
  next
    case False
    then have n: "0 < ?n - 1" using assms by linarith
    then have "(2::nat) ^ length p \<le> 2 * 2 ^ (bit_length (?n - 1) - 1)"
      using p(2) bit_length_pos [OF n] by (metis one_le_numeral power_Suc power_increasing)
    then show ?thesis using bit_length_bounds [OF n] assms by linarith
  qed
  then show ?thesis using p by (auto simp: inclusion_proof_def merkle_root_def)
qed

lemma inclusion_proof_error:
  "\<not> (0 \<le> i \<and> i < int (length leaves)) \<Longrightarrow>
     inclusion_proof i leaves = Inl (LeafIndexOutOfRange i (length leaves))"
  unfolding inclusion_proof_def by (subst path_from_leaf_hashes.simps) (simp add: Let_def)

lemma length_leaf_hash [simp]: "length (leaf_hash d) = 32"
  by (simp add: leaf_hash_def)

lemma verify_binding:
  assumes v: "verify_inclusion i (int (length leaves)) lh path (merkle_root leaves)"
    and lh: "length lh = 32"
  obtains p where "inclusion_proof i leaves = Inr p" "0 \<le> i" "nat i < length leaves"
    "lh = leaf_hash (leaves ! nat i) \<and> path = p \<or>
     collision (walk_preimages (nat i) (length leaves - 1) lh path)
       (walk_preimages (nat i) (length leaves - 1) (leaf_hash (leaves ! nat i)) p)"
proof -
  let ?m = "nat i" and ?s = "length leaves - 1"
  from v have i: "0 \<le> i" "?m < length leaves"
    by (auto simp: verify_inclusion_def split: if_splits)
  have "nat (int (length leaves) - 1) = ?s" by simp
  with v i obtain f where vp: "verify_loop ?m ?s lh path = Some (f, 0, merkle_root leaves)"
    by (auto simp: verify_inclusion_def split: if_splits option.splits)
  from inclusion_proof_verifies [OF i(2)] i(1) obtain p where p:
    "inclusion_proof i leaves = Inr p"
    "verify_loop ?m ?s (leaf_hash (leaves ! ?m)) p = Some (0, 0, merkle_root leaves)" by auto
  have len: "length path = length p"
    using vp p(2) by (auto simp: verify_loop_fold split: option.splits intro: walk_pos_unique)
  have "fold_digest sha256 merkle_pre lh (sided ?m ?s path) =
      fold_digest sha256 merkle_pre (leaf_hash (leaves ! ?m)) (sided ?m ?s p)"
    using vp p(2) by (auto simp: verify_loop_fold split: option.splits)
  moreover have "list_all2 (\<lambda>x y. fst x = fst y) (sided ?m ?s path) (sided ?m ?s p)"
    by (simp add: sided_def len list_all2_conv_all_nth)
  ultimately consider "lh = leaf_hash (leaves ! ?m) \<and> sided ?m ?s path = sided ?m ?s p"
    | "collision (walk_preimages ?m ?s lh path) (walk_preimages ?m ?s (leaf_hash (leaves ! ?m)) p)"
    using merkle.fold_binding [of "sided ?m ?s path" "sided ?m ?s p" lh "leaf_hash (leaves ! ?m)"] lh
    unfolding collision_def walk_preimages_def by (metis length_leaf_hash)
  then show ?thesis
  proof cases
    case 1
    then have "map snd (sided ?m ?s path) = map snd (sided ?m ?s p)" by simp
    then have "path = p" by (simp add: sided_def len)
    then show ?thesis using that p(1) i 1 by blast
  next
    case 2
    then show ?thesis using that p(1) i by blast
  qed
qed

subsection \<open>The root commits to the whole list\<close>

text \<open>The byte strings hashed while the root of a list of leaves is computed, the root's own first.\<close>

function root_preimages :: "bytes list \<Rightarrow> bytes list" where
  "root_preimages leaves =
     (if length leaves = 0 then [[]]
      else if length leaves = 1 then [LEAF_PREFIX @ leaves ! 0]
      else (let k = largest_power_of_two_below (length leaves) in
        (NODE_PREFIX @ merkle_root (take k leaves) @ merkle_root (drop k leaves))
          # root_preimages (take k leaves) @ root_preimages (drop k leaves)))"
  by pat_completeness auto
termination
  by (relation "measure length") auto

declare root_preimages.simps [simp del]

lemma merkle_root_split:
  assumes "2 \<le> length ls" "k = largest_power_of_two_below (length ls)"
  shows "merkle_root ls = node_hash (merkle_root (take k ls)) (merkle_root (drop k ls))"
  using root_split [of "map leaf_hash ls" k] assms
  by (simp add: merkle_root_def take_map drop_map)

lemma root_preimages_cases:
  obtains (nil) "ls = []" "root_preimages ls = [[]]"
  | (one) d where "ls = [d]" "root_preimages ls = [LEAF_PREFIX @ d]"
  | (split) k where "2 \<le> length ls" "k = largest_power_of_two_below (length ls)" "0 < k" "k < length ls"
      "root_preimages ls = (NODE_PREFIX @ merkle_root (take k ls) @ merkle_root (drop k ls))
         # root_preimages (take k ls) @ root_preimages (drop k ls)"
proof -
  consider "length ls = 0" | "length ls = 1" | "2 \<le> length ls" by linarith
  then show ?thesis
  proof cases
    case 1
    then show ?thesis using nil by (simp add: root_preimages.simps)
  next
    case 2
    then obtain d where "ls = [d]" by (auto simp: length_Suc_conv)
    then show ?thesis using one by (simp add: root_preimages.simps)
  next
    case 3
    then have "ls \<noteq> []" "length ls \<noteq> Suc 0" by auto
    then show ?thesis using split [OF 3 refl]
      by (simp add: root_preimages.simps [of ls] Let_def)
  qed
qed

lemma merkle_root_hd: "merkle_root ls = sha256 (hd (root_preimages ls)) \<and> root_preimages ls \<noteq> []"
proof (cases ls rule: root_preimages_cases)
  case nil
  then show ?thesis by (simp add: merkle_root_def root_from_leaf_hashes.simps EMPTY_TREE_HASH_def)
next
  case (one d)
  then show ?thesis by (simp add: merkle_root_def root_single leaf_hash_def)
next
  case (split k)
  then show ?thesis using merkle_root_split [OF split(1,2)]
    unfolding split(5) by (simp add: node_hash_def)
qed

lemma length_merkle_root [simp]: "length (merkle_root ls) = 32"
  using merkle_root_hd by simp

lemma root_binding:
  "merkle_root xs = merkle_root ys \<Longrightarrow> xs = ys \<or> collision (root_preimages xs) (root_preimages ys)"
proof (induction "length xs" arbitrary: xs ys rule: less_induct)
  case less
  show ?case
  proof (cases "hd (root_preimages xs) = hd (root_preimages ys)")
    case False
    then show ?thesis using less.prems merkle_root_hd [of xs] merkle_root_hd [of ys]
      by (auto intro!: collisionI [of "hd (root_preimages xs)" _ "hd (root_preimages ys)"])
  next
    case heads: True
    show ?thesis
    proof (cases xs rule: root_preimages_cases; cases ys rule: root_preimages_cases)
      fix k l
      let ?xl = "take k xs" and ?xr = "drop k xs" and ?yl = "take l ys" and ?yr = "drop l ys"
      assume x: "0 < k" "k < length xs" "root_preimages xs =
          (NODE_PREFIX @ merkle_root ?xl @ merkle_root ?xr) # root_preimages ?xl @ root_preimages ?xr"
        and y: "root_preimages ys =
          (NODE_PREFIX @ merkle_root ?yl @ merkle_root ?yr) # root_preimages ?yl @ root_preimages ?yr"
      have "merkle_root ?xl = merkle_root ?yl" "merkle_root ?xr = merkle_root ?yr"
        using heads x(3) y by auto
      from less.hyps [OF _ this(1)] less.hyps [OF _ this(2)] x(1,2)
      consider "?xl = ?yl" "?xr = ?yr" | "collision (root_preimages ?xl) (root_preimages ?yl)"
        | "collision (root_preimages ?xr) (root_preimages ?yr)" by fastforce
      then show ?thesis
      proof cases
        case 1
        then show ?thesis by (metis append_take_drop_id)
      next
        case 2
        have "collision (root_preimages xs) (root_preimages ys)"
          by (rule collision_mono [OF 2]) (auto simp: x(3) y)
        then show ?thesis ..
      next
        case 3
        have "collision (root_preimages xs) (root_preimages ys)"
          by (rule collision_mono [OF 3]) (auto simp: x(3) y)
        then show ?thesis ..
      qed
    qed (use heads in \<open>auto simp: LEAF_PREFIX_def NODE_PREFIX_def\<close>)
  qed
qed

subsection \<open>Properties\<close>

text \<open>C14: an inclusion proof the module produces for any row of a log of any size verifies
  against that log's root, and it is logarithmic: \<open>2 ^ length\<close> is below twice the log's size.\<close>

theorem merkle_inclusion_complete:
  assumes "m < length leaves"
  shows "\<exists>path. inclusion_proof (int m) leaves = Inr path \<and>
    verify_inclusion (int m) (int (length leaves)) (leaf_hash (leaves ! m)) path (merkle_root leaves) \<and>
    2 ^ length path < 2 * length leaves"
  using inclusion_proof_verifies [OF assms] assms
  by (auto simp: verify_inclusion_def nat_diff_distrib)

theorem merkle_inclusion_complete_witness:
  "\<exists>path. inclusion_proof (int 2) [''r1'', ''r2'', ''r3''] = Inr path \<and>
    verify_inclusion (int 2) (int (length [''r1'', ''r2'', ''r3''])) (leaf_hash ([''r1'', ''r2'', ''r3''] ! 2)) path
      (merkle_root [''r1'', ''r2'', ''r3'']) \<and>
    2 ^ length path < 2 * length [''r1'', ''r2'', ''r3'']"
  by (rule merkle_inclusion_complete) simp

text \<open>C15: a proof that verifies for the bytes of a row, at an index, against the root of a log, is
  the module's own proof for the row the log holds at that index; otherwise two byte strings hashed
  during the two verifications (or the two leaf inputs) are a SHA-256 collision.\<close>

theorem merkle_inclusion_sound:
  assumes "verify_inclusion i (int (length leaves)) (leaf_hash d) path (merkle_root leaves)"
  shows "\<exists>p. inclusion_proof i leaves = Inr p \<and> nat i < length leaves \<and>
    (d = leaves ! nat i \<and> path = p \<or>
     collision ((LEAF_PREFIX @ d) # walk_preimages (nat i) (length leaves - 1) (leaf_hash d) path)
       ((LEAF_PREFIX @ leaves ! nat i) #
         walk_preimages (nat i) (length leaves - 1) (leaf_hash (leaves ! nat i)) p))"
proof -
  from verify_binding [OF assms length_leaf_hash] obtain p where p:
    "inclusion_proof i leaves = Inr p" "nat i < length leaves"
    "leaf_hash d = leaf_hash (leaves ! nat i) \<and> path = p \<or>
     collision (walk_preimages (nat i) (length leaves - 1) (leaf_hash d) path)
       (walk_preimages (nat i) (length leaves - 1) (leaf_hash (leaves ! nat i)) p)" by blast
  have "leaf_hash d = leaf_hash (leaves ! nat i) \<Longrightarrow> d \<noteq> leaves ! nat i \<Longrightarrow> ?thesis"
    using p(1,2) by (auto simp: leaf_hash_def
        intro!: collisionI [of "LEAF_PREFIX @ d" _ "LEAF_PREFIX @ leaves ! nat i"])
  then show ?thesis using p by blast
qed

theorem merkle_inclusion_sound_witness:
  "\<exists>path p. inclusion_proof (int 0) [''r1''] = Inr p \<and> nat (int 0) < length [''r1''] \<and>
    (''r1'' = [''r1''] ! nat (int 0) \<and> path = p \<or>
     collision ((LEAF_PREFIX @ ''r1'') # walk_preimages (nat (int 0)) (length [''r1''] - 1) (leaf_hash ''r1'') path)
       ((LEAF_PREFIX @ [''r1''] ! nat (int 0)) #
         walk_preimages (nat (int 0)) (length [''r1''] - 1) (leaf_hash ([''r1''] ! nat (int 0))) p))"
proof -
  have "verify_inclusion (int 0) (int (length [''r1''])) (leaf_hash ''r1'') [] (merkle_root [''r1''])"
    by (simp add: verify_inclusion_def merkle_root_def root_single)
  from merkle_inclusion_sound [OF this] show ?thesis by blast
qed

text \<open>the root commits to every row and to their number: two logs with the same root are the
  same log, or two byte strings hashed while computing the two roots collide.\<close>

theorem merkle_root_binding:
  assumes "merkle_root xs = merkle_root ys"
  shows "xs = ys \<or> collision (root_preimages xs) (root_preimages ys)"
  using assms by (rule root_binding)

theorem merkle_root_binding_witness:
  "[''r1'', ''r2''] = [''r1'', ''r2''] \<or>
     collision (root_preimages [''r1'', ''r2'']) (root_preimages [''r1'', ''r2''])"
  by (rule merkle_root_binding) simp

text \<open>the verifier does not check the width of the leaf digest or of the siblings. In a log of
  two rows a response whose leaf digest has 33 bytes and whose sibling has 31 verifies, although no
  row of the log has that digest.\<close>

theorem verify_inclusion_accepts_resplit:
  "verify_inclusion 0 2 (leaf_hash a @ take 1 (leaf_hash b)) [drop 1 (leaf_hash b)] (merkle_root [a, b]) \<and>
   leaf_hash a @ take 1 (leaf_hash b) \<notin> leaf_hash ` set [a, b] \<and>
   length (drop 1 (leaf_hash b)) \<noteq> 32"
proof -
  have "largest_power_of_two_below (Suc (Suc 0)) = 1" using split_point_unique [of 0 "Suc (Suc 0)"] by simp
  then have "merkle_root [a, b] = node_hash (leaf_hash a) (leaf_hash b)"
    using root_split [of "[leaf_hash a, leaf_hash b]" 1]
    by (simp add: merkle_root_def root_single)
  moreover have "length x = 32" if "x \<in> leaf_hash ` set [a, b]" for x
    using that by auto
  from this [of "leaf_hash a @ take 1 (leaf_hash b)"]
  have "leaf_hash a @ take 1 (leaf_hash b) \<notin> leaf_hash ` set [a, b]" by force
  ultimately show ?thesis
    by (simp add: verify_inclusion_def node_hash_def)
qed

end
