(* ===== verification/Json.thy ===== *)
theory Json
  imports Prelude
begin

section \<open>The standard library's json.dumps\<close>

text \<open>
  \<^verbatim>\<open>json.dumps(payload, sort_keys=True, separators=(",", ":"))\<close> of the Python standard library
  on the values the audit modules serialise, with both settings of \<^verbatim>\<open>ensure_ascii\<close>, and a
  reader of string literals that inverts it. Two facts carry the audit proofs: a string literal can
  be read back (\<open>json_read_dumps\<close>), and so the text of a value followed by a delimiter determines
  the value and the rest (\<open>json_scalar_unique\<close>).
\<close>

datatype json = JNull | JBool bool | JStr string | JInt int | JList "json list" | JObj "(string \<times> json) list"

definition json_quote :: char where
  "json_quote = CHR 0x22"

definition json_backslash :: char where
  "json_backslash = CHR 0x5C"

definition u_escape :: "nat \<Rightarrow> string" where
  "u_escape n = [json_backslash, CHR ''u'', hex_digit (n div 4096 mod 16), hex_digit (n div 256 mod 16),
     hex_digit (n div 16 mod 16), hex_digit (n mod 16)]"

text \<open>The two-character escapes, shared by both settings.\<close>

definition short_escape :: "nat \<Rightarrow> string option" where
  "short_escape n =
     (if n = 0x22 then Some [json_backslash, json_quote]
      else if n = 0x5C then Some [json_backslash, json_backslash]
      else if n = 0x0A then Some [json_backslash, CHR ''n'']
      else if n = 0x0D then Some [json_backslash, CHR ''r'']
      else if n = 0x09 then Some [json_backslash, CHR ''t'']
      else if n = 0x0C then Some [json_backslash, CHR ''f'']
      else if n = 0x08 then Some [json_backslash, CHR ''b'']
      else None)"

text \<open>\<^verbatim>\<open>ensure_ascii=False\<close>: only quotes, backslashes and control characters below 0x20 are
  escaped; the bytes of a multi-byte character are all at least 0x80 and pass through.\<close>

definition escape_byte :: "char \<Rightarrow> string" where
  "escape_byte c =
     (case short_escape (of_char c) of
        Some e \<Rightarrow> e
      | None \<Rightarrow> if of_char c < (0x20::nat) then u_escape (of_char c) else [c])"

text \<open>\<^verbatim>\<open>ensure_ascii=True\<close>: every code point outside the printable ASCII range becomes one
  \<^verbatim>\<open>\uXXXX\<close> escape, or a surrogate pair of them.\<close>

fun utf8_decode :: "string \<Rightarrow> nat list" where
  "utf8_decode [] = []"
| "utf8_decode (c # cs) =
     (let b = of_char c in
      if b < 0x80 then b # utf8_decode cs
      else if b < 0xE0 then
        (case cs of d # r \<Rightarrow> ((b - 0xC0) * 64 + (of_char d - 0x80)) # utf8_decode r | _ \<Rightarrow> [])
      else if b < 0xF0 then
        (case cs of d # e # r \<Rightarrow>
           ((b - 0xE0) * 4096 + (of_char d - 0x80) * 64 + (of_char e - 0x80)) # utf8_decode r
         | _ \<Rightarrow> [])
      else
        (case cs of d # e # f # r \<Rightarrow>
           ((b - 0xF0) * 262144 + (of_char d - 0x80) * 4096 + (of_char e - 0x80) * 64
             + (of_char f - 0x80)) # utf8_decode r
         | _ \<Rightarrow> []))"

definition escape_code_point :: "nat \<Rightarrow> string" where
  "escape_code_point n =
     (case short_escape n of
        Some e \<Rightarrow> e
      | None \<Rightarrow>
          if 0x20 \<le> n \<and> n < 0x7F then [char_of n]
          else if n < 0x10000 then u_escape n
          else u_escape (0xD800 + (n - 0x10000) div 1024) @ u_escape (0xDC00 + (n - 0x10000) mod 1024))"

definition json_string :: "bool \<Rightarrow> string \<Rightarrow> string" where
  "json_string ensure_ascii s =
     [json_quote]
     @ (if ensure_ascii then concat (map escape_code_point (utf8_decode s))
        else concat (map escape_byte s))
     @ [json_quote]"

fun json_dumps :: "bool \<Rightarrow> json \<Rightarrow> string" where
  "json_dumps ea JNull = ''null''"
| "json_dumps ea (JBool b) = (if b then ''true'' else ''false'')"
| "json_dumps ea (JStr s) = json_string ea s"
| "json_dumps ea (JInt i) = dec_of_int i"
| "json_dumps ea (JList js) = ''['' @ join_str '','' (map (json_dumps ea) js) @ '']''"
| "json_dumps ea (JObj kvs) =
     ''{'' @ join_str '',''
       (map (\<lambda>(k, t). json_string ea k @ '':'' @ t)
         (sort_key fst (map (\<lambda>(k, v). (k, json_dumps ea v)) kvs))) @ ''}''"

subsection \<open>Reading a string literal back\<close>

definition hex_val :: "char \<Rightarrow> nat" where
  "hex_val c = (if of_char c < (58::nat) then of_char c - 48 else of_char c - 87)"

definition unescape_char :: "char \<Rightarrow> char" where
  "unescape_char d =
     (if d = CHR ''n'' then CHR 0x0A else if d = CHR ''r'' then CHR 0x0D
      else if d = CHR ''t'' then CHR 0x09 else if d = CHR ''f'' then CHR 0x0C
      else if d = CHR ''b'' then CHR 0x08 else d)"

fun json_read :: "string \<Rightarrow> (string \<times> string) option" where
  "json_read [] = None"
| "json_read (c # cs) =
     (if c = json_quote then Some ([], cs)
      else if c = json_backslash then
        (case cs of
           [] \<Rightarrow> None
         | d # ds \<Rightarrow>
             if d = CHR ''u'' then
               (case ds of
                  w # x # h # l # r \<Rightarrow>
                    map_option (apfst ((#) (char_of (hex_val h * 16 + hex_val l)))) (json_read r)
                | _ \<Rightarrow> None)
             else map_option (apfst ((#) (unescape_char d))) (json_read ds))
      else map_option (apfst ((#) c)) (json_read cs))"

lemma hex_val_digit: "n < 16 \<Longrightarrow> hex_val (hex_digit n) = n"
  by (auto simp: hex_val_def hex_digit_def)

lemma of_char_eq_code: "of_char d = (n :: nat) \<Longrightarrow> (of_char c = n) = (c = d)"
  by auto

lemmas of_char_codes =
  of_char_eq_code [of "CHR 0x22" "0x22", simplified] of_char_eq_code [of "CHR 0x5C" "0x5C", simplified]
  of_char_eq_code [of "CHR 0x0A" "0x0A", simplified] of_char_eq_code [of "CHR 0x0D" "0x0D", simplified]
  of_char_eq_code [of "CHR 0x09" "0x09", simplified] of_char_eq_code [of "CHR 0x0C" "0x0C", simplified]
  of_char_eq_code [of "CHR 0x08" "0x08", simplified]

lemma json_read_escape: "json_read (escape_byte c @ t) = map_option (apfst ((#) c)) (json_read t)"
proof (cases "short_escape (of_char c)")
  case (Some e)
  then show ?thesis
    by (auto simp: escape_byte_def short_escape_def json_backslash_def json_quote_def unescape_char_def
        of_char_codes split: if_splits)
next
  case None
  then have ne: "c \<noteq> json_quote" "c \<noteq> json_backslash"
    by (auto simp: short_escape_def json_backslash_def json_quote_def of_char_codes split: if_splits)
  show ?thesis
  proof (cases "of_char c < (0x20::nat)")
    case True
    then have "hex_val (hex_digit (of_char c div 16 mod 16)) * 16 + hex_val (hex_digit (of_char c mod 16))
        = of_char c"
      by (simp add: hex_val_digit)
    then show ?thesis using None True
      by (simp add: escape_byte_def u_escape_def json_backslash_def json_quote_def)
  next
    case False
    then show ?thesis using None ne by (simp add: escape_byte_def)
  qed
qed

lemma json_read_body: "json_read (concat (map escape_byte s) @ json_quote # t) = Some (s, t)"
  by (induction s) (simp_all add: json_read_escape)

text \<open>What \<^verbatim>\<open>json.dumps\<close> writes for a string reads back as that string.\<close>

lemma json_string_tl: "tl (json_string False s) @ t = concat (map escape_byte s) @ json_quote # t"
  by (simp add: json_string_def)

lemma json_read_dumps: "json_read (tl (json_dumps False (JStr s)) @ t) = Some (s, t)"
  by (simp only: json_dumps.simps json_string_tl json_read_body)

lemma json_string_unique:
  assumes "json_string False s @ t = json_string False s' @ t'"
  shows "s = s' \<and> t = t'"
proof -
  have "concat (map escape_byte s) @ json_quote # t = concat (map escape_byte s') @ json_quote # t'"
    using assms by (simp add: json_string_def)
  then have "json_read (concat (map escape_byte s) @ json_quote # t)
      = json_read (concat (map escape_byte s') @ json_quote # t')"
    by (rule arg_cong)
  then show ?thesis by (simp only: json_read_body option.inject prod.inject)
qed

subsection \<open>Scalars followed by a delimiter\<close>

definition json_scalar :: "json \<Rightarrow> bool" where
  "json_scalar v \<longleftrightarrow> (case v of JList _ \<Rightarrow> False | JObj _ \<Rightarrow> False | _ \<Rightarrow> True)"

definition json_delim :: "char \<Rightarrow> bool" where
  "json_delim c \<longleftrightarrow> c = CHR '','' \<or> c = CHR ''}''"

lemma dec_of_int_chars: "list_all (\<lambda>c. is_digit c \<or> c = CHR ''-'') (dec_of_int i)"
  using dec_of_nat_digits [of "nat i"] dec_of_nat_digits [of "nat (- i)"]
  by (auto simp: dec_of_int_def list_all_iff)

lemma dec_of_int_nonempty: "dec_of_int i \<noteq> []"
  by (simp add: dec_of_int_def dec_of_nat_nonempty)

lemma dec_of_int_head: "\<exists>c cs. dec_of_int i = c # cs \<and> (is_digit c \<or> c = CHR ''-'')"
  using dec_of_int_chars [of i] dec_of_int_nonempty [of i] by (cases "dec_of_int i") auto

lemma dec_of_int_delim:
  assumes "json_delim d" "json_delim d'" "dec_of_int i @ d # t = dec_of_int i' @ d' # t'"
  shows "i = i' \<and> d # t = d' # t'"
proof -
  have "\<not> (is_digit d \<or> d = CHR ''-'')" "\<not> (is_digit d' \<or> d' = CHR ''-'')"
    using assms(1,2) by (auto simp: json_delim_def is_digit_def)
  from span_unique [OF dec_of_int_chars dec_of_int_chars this assms(3)]
  show ?thesis by (simp add: dec_of_int_inj)
qed

text \<open>The first byte of a scalar tells its kind.\<close>

definition kind_head :: "json \<Rightarrow> char \<Rightarrow> bool" where
  "kind_head v c \<longleftrightarrow> (case v of JNull \<Rightarrow> c = CHR ''n'' | JBool b \<Rightarrow> c = (if b then CHR ''t'' else CHR ''f'') | JStr _ \<Rightarrow> c = json_quote
     | JInt _ \<Rightarrow> is_digit c \<or> c = CHR ''-'' | _ \<Rightarrow> False)"

lemma json_scalar_head: "json_scalar v \<Longrightarrow> \<exists>c cs. json_dumps False v = c # cs \<and> kind_head v c"
  using dec_of_int_head by (cases v) (auto simp: json_scalar_def kind_head_def json_string_def)

lemma kind_head_kinds:
  "kind_head v c \<Longrightarrow> kind_head v' c \<Longrightarrow> (v = JNull \<and> v' = JNull) \<or> (\<exists>s s'. v = JStr s \<and> v' = JStr s')
     \<or> (\<exists>i i'. v = JInt i \<and> v' = JInt i') \<or> (\<exists>b. v = JBool b \<and> v' = JBool b)"
  by (cases v; cases v') (auto simp: kind_head_def json_quote_def is_digit_def split: if_splits)

lemma json_scalar_unique:
  assumes "json_scalar v" "json_scalar v'" "json_delim d" "json_delim d'"
    and eq: "json_dumps False v @ d # t = json_dumps False v' @ d' # t'"
  shows "v = v' \<and> d # t = d' # t'"
proof -
  obtain c cs c' cs' where "json_dumps False v = c # cs" "kind_head v c"
    "json_dumps False v' = c' # cs'" "kind_head v' c'"
    using json_scalar_head assms(1,2) by meson
  moreover from this eq have "c = c'" by simp
  ultimately consider "v = JNull \<and> v' = JNull" | s s' where "v = JStr s \<and> v' = JStr s'"
    | i i' where "v = JInt i \<and> v' = JInt i'" | b where "v = JBool b \<and> v' = JBool b"
    using kind_head_kinds [of v c v'] by blast
  then show ?thesis
  proof cases
    case 1
    then show ?thesis using eq by simp
  next
    case 2
    then show ?thesis using eq json_string_unique [of s "d # t" s' "d' # t'"] by simp
  next
    case 3
    then show ?thesis using eq dec_of_int_delim [OF assms(3,4), of i t i' t'] by simp
  next
    case 4
    then show ?thesis using eq by simp
  qed
qed

subsection \<open>Optional strings and lists of strings\<close>

definition json_opt :: "string option \<Rightarrow> json" where
  "json_opt x = (case x of None \<Rightarrow> JNull | Some s \<Rightarrow> JStr s)"

text \<open>The text of a list of strings, followed by anything, determines the list.\<close>

fun strings_text :: "string list \<Rightarrow> string" where
  "strings_text [] = '']''"
| "strings_text [s] = json_string False s @ '']''"
| "strings_text (s # t # ts) = json_string False s @ '','' @ strings_text (t # ts)"

lemma strings_text_join: "join_str '','' (map (json_string False) ss) @ '']'' = strings_text ss"
  by (induction ss rule: strings_text.induct) auto

lemma strings_text_head: "strings_text (s # ss) = json_string False s @ (case ss of [] \<Rightarrow> '']'' | _ \<Rightarrow> '','' @ strings_text ss)"
  by (cases ss) auto

lemma strings_text_unique: "strings_text ss @ t = strings_text ss' @ t' \<Longrightarrow> ss = ss' \<and> t = t'"
proof (induction ss arbitrary: ss')
  case Nil
  then show ?case by (cases ss') (auto simp: strings_text_head json_string_def json_quote_def split: list.splits)
next
  case (Cons s ss)
  then obtain s' ss'' where e: "ss' = s' # ss''"
    by (cases ss') (auto simp: strings_text_head json_string_def json_quote_def)
  with Cons.prems have "s = s' \<and> (case ss of [] \<Rightarrow> '']'' | _ \<Rightarrow> '','' @ strings_text ss) @ t
      = (case ss'' of [] \<Rightarrow> '']'' | _ \<Rightarrow> '','' @ strings_text ss'') @ t'"
    by (intro json_string_unique) (simp add: strings_text_head)
  then show ?case using Cons.IH [of ss''] e by (cases ss; cases ss'') auto
qed

lemma json_opt_scalar: "json_scalar (json_opt x)"
  by (simp add: json_scalar_def json_opt_def split: option.splits)

lemma json_str_scalar: "json_scalar (JStr s)"
  by (simp add: json_scalar_def)

lemma json_opt_inj: "json_opt x = json_opt y \<longleftrightarrow> x = y"
  by (auto simp: json_opt_def split: option.splits)

subsection \<open>Flat values and objects of them\<close>

text \<open>A scalar or a list of strings: the values of the objects that are hashed.\<close>

definition json_flat :: "json \<Rightarrow> bool" where
  "json_flat v \<longleftrightarrow> json_scalar v \<or> (\<exists>ss. v = JList (map JStr ss))"

lemma json_scalar_flat: "json_scalar v \<Longrightarrow> json_flat v"
  by (simp add: json_flat_def)

lemma json_flat_simps [simp]:
  "json_flat JNull" "json_flat (JBool b)" "json_flat (JStr s)" "json_flat (JInt i)" "json_flat (json_opt x)"
  "json_flat (JList (map JStr ss))"
  by (auto simp: json_flat_def json_scalar_def json_opt_def split: option.splits)

lemma json_list_text: "json_dumps False (JList (map JStr ss)) = ''['' @ strings_text ss"
  using strings_text_join [of ss] by (simp add: comp_def)

lemma json_flat_unique:
  assumes "json_flat v" "json_flat v'" "json_delim d" "json_delim d'"
    and eq: "json_dumps False v @ d # t = json_dumps False v' @ d' # t'"
  shows "v = v' \<and> d # t = d' # t'"
proof -
  have no_list: False if w: "json_scalar w" "json_dumps False w @ r = ''['' @ q" for w q r
  proof -
    obtain c cs where "json_dumps False w = c # cs" "kind_head w c" using json_scalar_head [OF w(1)] by blast
    then have "kind_head w CHR ''[''" using w(2) by simp
    then show False by (cases w) (simp_all add: kind_head_def json_quote_def is_digit_def split: if_splits)
  qed
  consider (scalars) "json_scalar v" "json_scalar v'"
    | (lists) ss ss' where "v = JList (map JStr ss)" "v' = JList (map JStr ss')"
    | (l) ss where "json_scalar v" "v' = JList (map JStr ss)"
    | (r) ss where "v = JList (map JStr ss)" "json_scalar v'"
    using assms(1,2) unfolding json_flat_def by blast
  then show ?thesis
  proof cases
    case scalars
    then show ?thesis using json_scalar_unique [OF _ _ assms(3,4) eq] by simp
  next
    case (lists ss ss')
    then have "strings_text ss @ d # t = strings_text ss' @ d' # t'"
      using eq by (simp add: json_list_text del: json_dumps.simps)
    then show ?thesis using lists by (auto dest: strings_text_unique)
  next
    case (l ss)
    then show ?thesis using no_list [of v "d # t" "strings_text ss @ d' # t'"] eq
      by (simp add: json_list_text del: json_dumps.simps)
  next
    case (r ss)
    then show ?thesis using no_list [of v' "d' # t'" "strings_text ss @ d # t"] eq
      by (simp add: json_list_text del: json_dumps.simps)
  qed
qed

text \<open>The object text as a recursion over its sorted key/value pairs.\<close>

fun members_text :: "(string \<times> json) list \<Rightarrow> string" where
  "members_text [] = ''}''"
| "members_text [(k, v)] = json_string False k @ '':'' @ json_dumps False v @ ''}''"
| "members_text ((k, v) # m # ms) =
     json_string False k @ '':'' @ json_dumps False v @ '','' @ members_text (m # ms)"

lemma members_text_join:
  "join_str '','' (map (\<lambda>(k, t). json_string False k @ '':'' @ t)
     (map (\<lambda>(k, v). (k, json_dumps False v)) ms)) @ ''}'' = members_text ms"
  by (induction ms rule: members_text.induct) auto

lemma json_object_text:
  assumes "sorted (map fst kvs)"
  shows "json_dumps False (JObj kvs) = ''{'' @ members_text kvs"
proof -
  have "sorted (map fst (map (\<lambda>(k, v). (k, json_dumps False v)) kvs))"
    using assms by (simp add: comp_def split_def)
  then have "sort_key fst (map (\<lambda>(k, v). (k, json_dumps False v)) kvs) =
      map (\<lambda>(k, v). (k, json_dumps False v)) kvs"
    by (rule sort_key_id_if_sorted)
  then show ?thesis using members_text_join [of kvs] by simp
qed

lemma members_text_unique:
  assumes "map fst ms = map fst ms'" "\<forall>v \<in> snd ` set ms. json_flat v" "\<forall>v \<in> snd ` set ms'. json_flat v"
    and "members_text ms = members_text ms'"
  shows "ms = ms'"
  using assms
proof (induction ms arbitrary: ms' rule: members_text.induct)
  case 1
  then show ?case by simp
next
  case (2 k v)
  then obtain v' where m: "ms' = [(k, v')]" by auto
  with 2 have "json_dumps False v @ CHR ''}'' # [] = json_dumps False v' @ CHR ''}'' # []" by simp
  from json_flat_unique [OF _ _ _ _ this] 2 m show ?case by (simp add: json_delim_def)
next
  case (3 k v m ms)
  then obtain v' m' ms'' where m: "ms' = (k, v') # m' # ms''" "fst m' = fst m" by auto
  with 3 have "json_dumps False v @ CHR '','' # members_text (m # ms)
      = json_dumps False v' @ CHR '','' # members_text (m' # ms'')" by simp
  from json_flat_unique [OF _ _ _ _ this] 3(3,4) m
  have "v = v'" "members_text (m # ms) = members_text (m' # ms'')"
    by (simp_all add: json_delim_def)
  moreover have "m # ms = m' # ms''"
    using 3(2,3,4) m by (intro "3.IH" [OF _ _ _ \<open>members_text (m # ms) = _\<close>]) auto
  ultimately show ?case using m by simp
qed

text \<open>Two objects with the same keys and flat values that have the same text are equal.\<close>

lemma json_object_inj:
  assumes "sorted (map fst ms)" "map fst ms = map fst ms'" "\<forall>v \<in> snd ` set ms. json_flat v" "\<forall>v \<in> snd ` set ms'. json_flat v"
    and "json_dumps False (JObj ms) = json_dumps False (JObj ms')"
  shows "ms = ms'"
proof -
  have "sorted (map fst ms')" using assms(1,2) by simp
  then have "members_text ms = members_text ms'"
    using assms(5) json_object_text [OF assms(1)] json_object_text [of ms'] by simp
  then show ?thesis by (rule members_text_unique [OF assms(2-4)])
qed

lemma map_JStr_eq: "map JStr ss = map JStr ts \<longleftrightarrow> ss = ts"
  by (rule inj_map_eq_map) (auto intro: injI)

end
