(* ===== verification/PiiCategories.thy ===== *)
theory PiiCategories
  imports Prelude
begin

section \<open>The PII taxonomy and its propagation (pii/categories.py, pii/propagation.py)\<close>

text \<open>
  The two layers of the taxonomy as datatypes with the source's members in the source's order, the
  catastrophic floor, and \<open>propagate\<close>, which combines the tags of the columns a query touches.
  The literal types carry the string values of the source through \<open>category_name\<close> and
  \<open>sensitivity_name\<close>; sorting a set of categories is sorting those strings.
\<close>

subsection \<open>Sensitivities\<close>

datatype sensitivity = Public | Internal | Confidential | Pii

definition SENSITIVITIES :: "sensitivity list" where
  "SENSITIVITIES = [Public, Internal, Confidential, Pii]"

fun sensitivity_name :: "sensitivity \<Rightarrow> string" where
  "sensitivity_name Public = ''public''"
| "sensitivity_name Internal = ''internal''"
| "sensitivity_name Confidential = ''confidential''"
| "sensitivity_name Pii = ''pii''"

definition sensitivity_of_name :: "string \<Rightarrow> sensitivity option" where
  "sensitivity_of_name s = find (\<lambda>x. sensitivity_name x = s) SENSITIVITIES"

lemma sensitivity_of_name_name: "sensitivity_of_name (sensitivity_name x) = Some x"
  by (cases x) (simp_all add: sensitivity_of_name_def SENSITIVITIES_def)

text \<open>\<open>_SENSITIVITY_RANK\<close>: the position in the tuple; it is also the order on the type.\<close>

fun sensitivity_rank :: "sensitivity \<Rightarrow> nat" where
  "sensitivity_rank Public = 0"
| "sensitivity_rank Internal = 1"
| "sensitivity_rank Confidential = 2"
| "sensitivity_rank Pii = 3"

lemma sensitivity_rank_nth: "SENSITIVITIES ! sensitivity_rank x = x"
  by (cases x) (simp_all add: SENSITIVITIES_def)

lemma sensitivity_rank_inj: "sensitivity_rank x = sensitivity_rank y \<longleftrightarrow> x = y"
  by (metis sensitivity_rank_nth)

instantiation sensitivity :: linorder
begin

definition less_eq_sensitivity :: "sensitivity \<Rightarrow> sensitivity \<Rightarrow> bool" where
  "less_eq_sensitivity x y \<longleftrightarrow> sensitivity_rank x \<le> sensitivity_rank y"

definition less_sensitivity :: "sensitivity \<Rightarrow> sensitivity \<Rightarrow> bool" where
  "less_sensitivity x y \<longleftrightarrow> sensitivity_rank x < sensitivity_rank y"

instance
  by standard (auto simp: less_eq_sensitivity_def less_sensitivity_def sensitivity_rank_inj)

end

subsection \<open>Categories\<close>

datatype pii_category =
    Contact | Financial | Payment_Card | Health | Genetic | Biometric | Behavioral
  | Online_Identifier | Credential | Government_Id | Location | Demographic_Protected

definition PII_CATEGORIES_ORDERED :: "pii_category list" where
  "PII_CATEGORIES_ORDERED = [Contact, Financial, Payment_Card, Health, Genetic, Biometric, Behavioral,
     Online_Identifier, Credential, Government_Id, Location, Demographic_Protected]"

definition PII_CATEGORIES :: "pii_category set" where
  "PII_CATEGORIES = set PII_CATEGORIES_ORDERED"

fun category_name :: "pii_category \<Rightarrow> string" where
  "category_name Contact = ''contact''"
| "category_name Financial = ''financial''"
| "category_name Payment_Card = ''payment_card''"
| "category_name Health = ''health''"
| "category_name Genetic = ''genetic''"
| "category_name Biometric = ''biometric''"
| "category_name Behavioral = ''behavioral''"
| "category_name Online_Identifier = ''online_identifier''"
| "category_name Credential = ''credential''"
| "category_name Government_Id = ''government_id''"
| "category_name Location = ''location''"
| "category_name Demographic_Protected = ''demographic_protected''"

definition category_of_name :: "string \<Rightarrow> pii_category option" where
  "category_of_name s = find (\<lambda>c. category_name c = s) PII_CATEGORIES_ORDERED"

lemma category_of_name_name: "category_of_name (category_name c) = Some c"
  by (cases c) (simp_all add: category_of_name_def PII_CATEGORIES_ORDERED_def)

lemma category_name_inj: "category_name c = category_name d \<longleftrightarrow> c = d"
  by (metis category_of_name_name option.inject)

lemma PII_CATEGORIES_UNIV: "c \<in> PII_CATEGORIES"
  by (cases c) (simp_all add: PII_CATEGORIES_def PII_CATEGORIES_ORDERED_def)

instantiation pii_category :: linorder
begin

definition less_eq_pii_category :: "pii_category \<Rightarrow> pii_category \<Rightarrow> bool" where
  "less_eq_pii_category c d \<longleftrightarrow> category_name c \<le> category_name d"

definition less_pii_category :: "pii_category \<Rightarrow> pii_category \<Rightarrow> bool" where
  "less_pii_category c d \<longleftrightarrow> category_name c < category_name d"

instance
  by standard (auto simp: less_eq_pii_category_def less_pii_category_def less_le category_name_inj)

end

instantiation pii_category :: finite
begin

instance
proof
  show "finite (UNIV :: pii_category set)"
    by (rule finite_subset [of _ PII_CATEGORIES])
      (auto simp: PII_CATEGORIES_UNIV, simp add: PII_CATEGORIES_def)
qed

end

text \<open>\<^verbatim>\<open>sorted(categories)\<close>, as the strings that reach the wire.\<close>

definition sorted_category_names :: "pii_category set \<Rightarrow> string list" where
  "sorted_category_names cs = map category_name (sorted_list_of_set cs)"

lemma sorted_category_names_inj: "sorted_category_names A = sorted_category_names B \<longleftrightarrow> A = B"
proof
  assume "sorted_category_names A = sorted_category_names B"
  then have "sorted_list_of_set A = sorted_list_of_set B"
    unfolding sorted_category_names_def
    by (rule map_injective) (simp add: inj_def category_name_inj)
  then show "A = B" by (simp add: sorted_list_of_set_inj_iff)
qed simp

lemma sorted_category_names_sorted: "sorted (sorted_category_names cs)"
proof -
  have "sorted_wrt (\<lambda>c d. category_name c \<le> category_name d) (sorted_list_of_set cs)"
    by (rule sorted_wrt_mono_rel [OF _ sorted_sorted_list_of_set]) (simp add: less_eq_pii_category_def)
  then show ?thesis by (simp add: sorted_category_names_def sorted_wrt_map)
qed

definition CATASTROPHIC_LEAK_CATEGORIES :: "pii_category set" where
  "CATASTROPHIC_LEAK_CATEGORIES = {Credential, Payment_Card, Government_Id}"

definition has_catastrophic_category :: "pii_category set \<Rightarrow> bool" where
  "has_catastrophic_category categories \<longleftrightarrow> (\<exists>category \<in> categories. category \<in> CATASTROPHIC_LEAK_CATEGORIES)"

type_synonym column_pii_tag = "sensitivity \<times> pii_category set"

subsection \<open>Propagation\<close>

text \<open>The loop of \<^verbatim>\<open>propagate\<close>: the running maximal rank and the running union.\<close>

fun propagate_loop :: "nat \<Rightarrow> 'c set \<Rightarrow> (sensitivity \<times> 'c set) list \<Rightarrow> nat \<times> 'c set" where
  "propagate_loop max_rank acc [] = (max_rank, acc)"
| "propagate_loop max_rank acc ((sensitivity, categories) # rest) =
     (let rank = sensitivity_rank sensitivity
      in propagate_loop (if rank > max_rank then rank else max_rank) (acc \<union> categories) rest)"

definition propagate :: "(sensitivity \<times> 'c set) list \<Rightarrow> sensitivity \<times> 'c set" where
  "propagate per_column =
     (let (max_rank, acc) = propagate_loop 0 {} per_column in (SENSITIVITIES ! max_rank, acc))"

text \<open>The categories come as members of the taxonomy or, from the store, as their names.\<close>

lemma propagate_union: "snd (propagate xs) = (\<Union>x \<in> set xs. snd x)"
proof -
  have "snd (propagate_loop r acc xs) = acc \<union> (\<Union>x \<in> set xs. snd x)" for r acc
  proof (induction xs arbitrary: r acc)
    case (Cons x xs)
    then show ?case by (cases x) (auto simp: Let_def)
  qed simp
  then show ?thesis by (simp add: propagate_def Let_def case_prod_unfold)
qed

text \<open>What the two rules of the taxonomy ask for: an idempotent commutative combination with a
  unit, so that neither the order nor the multiplicity of the touched columns matters.\<close>

locale tag_combination =
  fixes combine :: "'t \<Rightarrow> 't \<Rightarrow> 't" and unit :: 't
  assumes combine_assoc: "combine (combine a b) c = combine a (combine b c)"
    and combine_comm: "combine a b = combine b a"
    and combine_idem: "combine a a = a"
    and combine_unit: "combine unit a = a"
begin

lemma foldl_start: "foldl combine a xs = combine a (foldl combine unit xs)"
proof (induction xs arbitrary: a)
  case Nil
  then show ?case by (metis combine_comm combine_unit foldl_Nil)
next
  case (Cons x xs)
  have "foldl combine a (x # xs) = combine (combine a x) (foldl combine unit xs)"
    unfolding foldl_Cons by (rule Cons.IH)
  also have "\<dots> = combine a (combine x (foldl combine unit xs))" by (rule combine_assoc)
  also have "combine x (foldl combine unit xs) = foldl combine unit (x # xs)"
    unfolding foldl_Cons combine_unit by (rule Cons.IH [symmetric])
  finally show ?case .
qed

lemma foldl_append_combine:
  "foldl combine unit (xs @ ys) = combine (foldl combine unit xs) (foldl combine unit ys)"
  unfolding foldl_append by (rule foldl_start)

lemma foldl_absorb: "x \<in> set xs \<Longrightarrow> combine x (foldl combine unit xs) = foldl combine unit xs"
proof (induction xs)
  case (Cons y ys)
  have e: "foldl combine unit (y # ys) = combine y (foldl combine unit ys)"
    using foldl_start [of y ys] by (simp add: combine_unit)
  show ?case
  proof (cases "x = y")
    case True
    then show ?thesis by (metis e combine_assoc combine_idem)
  next
    case False
    then have "combine x (foldl combine unit ys) = foldl combine unit ys" using Cons by simp
    then show ?thesis by (metis e combine_assoc combine_comm)
  qed
qed simp

lemma foldl_subset: "set xs \<subseteq> set ys \<Longrightarrow>
  combine (foldl combine unit xs) (foldl combine unit ys) = foldl combine unit ys"
proof (induction xs)
  case Nil
  then show ?case by (simp add: combine_unit)
next
  case (Cons x xs)
  then show ?case using foldl_absorb [of x ys] foldl_start [of x xs]
    by (simp add: combine_unit combine_assoc)
qed

lemma foldl_set_eq: "set xs = set ys \<Longrightarrow> foldl combine unit xs = foldl combine unit ys"
  using foldl_subset [of xs ys] foldl_subset [of ys xs] by (metis combine_comm order_refl)

end

definition tag_join :: "column_pii_tag \<Rightarrow> column_pii_tag \<Rightarrow> column_pii_tag" where
  "tag_join a b = (max (fst a) (fst b), snd a \<union> snd b)"

interpretation tags: tag_combination tag_join "(Public, {})"
proof (standard, goal_cases)
  case (4 a)
  have "max Public (fst a) = fst a" by (cases "fst a") (auto simp: max_def less_eq_sensitivity_def)
  then show ?case by (simp add: tag_join_def)
qed (auto simp: tag_join_def max.assoc max.commute max.left_commute)

lemma propagate_loop_join:
  "propagate_loop (sensitivity_rank s) u xs =
     (let t = foldl tag_join (s, u) xs in (sensitivity_rank (fst t), snd t))"
proof (induction xs arbitrary: s u)
  case (Cons x xs)
  obtain s' u' where x: "x = (s', u')" by (cases x)
  have "(if sensitivity_rank s' > sensitivity_rank s then sensitivity_rank s' else sensitivity_rank s)
      = sensitivity_rank (max s s')"
    by (auto simp: max_def less_eq_sensitivity_def)
  then show ?case using Cons.IH [of "max s s'" "u \<union> u'"] by (simp add: x tag_join_def Let_def)
qed simp

lemma propagate_foldl: "propagate xs = foldl tag_join (Public, {}) xs"
  using propagate_loop_join [of Public "{}" xs]
  by (simp add: propagate_def Let_def sensitivity_rank_nth)

lemma propagate_Cons: "propagate (x # xs) = tag_join x (propagate xs)"
  using tags.foldl_start [of "tag_join (Public, {}) x" xs]
  by (simp add: propagate_foldl tags.combine_unit)

lemma fst_propagate: "fst (propagate (xs :: column_pii_tag list)) = Max (insert Public (fst ` set xs))"
proof (induction xs)
  case (Cons x xs)
  have "Max (insert Public (fst ` set (x # xs))) = max (fst x) (Max (insert Public (fst ` set xs)))"
    by (simp only: list.set image_insert insert_commute [of Public] Max_insert [of "insert Public (fst ` set xs)"]
        finite_insert finite_imageI List.finite_set insert_not_empty not_False_eq_True)
  then show ?case using Cons.IH by (simp add: propagate_Cons tag_join_def)
qed (simp add: propagate_foldl)

subsection \<open>Properties\<close>

text \<open>the effective tag of a query is the maximum of the sensitivities it touches (public for
  none) and the union of their categories, whatever the order and multiplicity of the columns; the
  tag of two queries together is the join of their tags.\<close>

theorem propagate_is_max_and_union:
  "propagate xs = (Max (insert Public (fst ` set xs)), \<Union>x \<in> set xs. snd x) \<and>
   propagate (xs @ ys) = tag_join (propagate xs) (propagate ys) \<and>
   (set xs = set ys \<longrightarrow> propagate xs = propagate ys)"
  using fst_propagate [of xs] propagate_union [of xs] tags.foldl_append_combine [of xs ys]
    tags.foldl_set_eq [of xs ys]
  by (auto simp: prod_eq_iff propagate_foldl)

theorem propagate_is_max_and_union_witness:
  "set [(Pii, {Contact}), (Internal, {})] = set [(Internal, {}), (Pii, {Contact}), (Internal, {})] \<and>
   propagate [(Pii, {Contact}), (Internal, {})] =
     propagate [(Internal, {}), (Pii, {Contact}), (Internal, {})]"
  using propagate_is_max_and_union
    [of "[(Pii, {Contact}), (Internal, {})]" "[(Internal, {}), (Pii, {Contact}), (Internal, {})]"]
  by auto

end
