(* ===== verification/AuditCanonical.thy ===== *)
theory AuditCanonical
  imports Json PiiCategories AuditDigest
begin

section \<open>Canonical rows and fingerprints (audit/canonical.py, audit/fingerprint.py)\<close>

text \<open>
  A row is a Python dict from column names to values, as an association list. \<open>canonical_audit_row\<close>
  checks its shape and serialises it; \<open>compute_fingerprint\<close> hashes the five structural fields. The
  main fact is that the canonical bytes determine the row (\<open>canonical_row_injective\<close>), which is
  what makes a digest of them a commitment to the row's content.
\<close>

subsection \<open>Values and errors\<close>

datatype pyval = PNone | PInt int | PStr string | PBytes bytes

text \<open>The exceptions of the audit package. All are \<^verbatim>\<open>ValueError\<close> except
  \<open>NotSerializable\<close>, the \<^verbatim>\<open>TypeError\<close> of \<^verbatim>\<open>json.dumps\<close> on a \<^verbatim>\<open>bytes\<close> value, and
  \<open>NoBytesOf\<close>, that of \<^verbatim>\<open>bytes(value)\<close> on a text or \<^verbatim>\<open>None\<close>.\<close>

datatype audit_error =
    MissingFields "string list"
  | UnexpectedFields "string list"
  | NotNullable string
  | NotBytes string
  | WrongWidth string nat nat
  | NotSerializable string
  | PrevHashWidth nat
  | CorruptTailHash int nat
  | NegativeCount string
  | NoBytesOf string

fun is_value_error :: "audit_error \<Rightarrow> bool" where
  "is_value_error (NotSerializable f) = False"
| "is_value_error (NoBytesOf f) = False"
| "is_value_error _ = True"

type_synonym audit_dict = "(string \<times> pyval) list"

subsection \<open>The canonical form\<close>

text \<open>The frozenset in sorted order. Python iterates it in an unspecified order; that only decides
  which error is reported when several fields are wrong.\<close>

definition AUDIT_ROW_FIELDS :: "string list" where
  "AUDIT_ROW_FIELDS = [''ast_shape_hash'', ''caller_id'', ''cost_class'', ''fingerprint'',
     ''fingerprint_version'', ''id'', ''occurred_at'', ''pii_categories'', ''refusal_reason'',
     ''rule_id'', ''source_connection_id'', ''status'', ''tool_name'']"

definition NULLABLE :: "string list" where
  "NULLABLE = [''caller_id'', ''refusal_reason'', ''ast_shape_hash'', ''rule_id'']"

definition BINARY :: "string list" where
  "BINARY = [''ast_shape_hash'', ''fingerprint'']"

definition FINGERPRINT_BYTES :: nat where
  "FINGERPRINT_BYTES = 32"

definition AST_SHAPE_HASH_BYTES :: nat where
  "AST_SHAPE_HASH_BYTES = 32"

definition hex_bytes :: "string \<Rightarrow> pyval \<Rightarrow> audit_error + string" where
  "hex_bytes field value =
     (case value of
        PBytes b \<Rightarrow>
          (let expected = (if field = ''ast_shape_hash'' then AST_SHAPE_HASH_BYTES else FINGERPRINT_BYTES)
           in if length b \<noteq> expected then Inl (WrongWidth field expected (length b))
              else Inr (hex_of b))
      | _ \<Rightarrow> Inl (NotBytes field))"

definition canonical_field :: "string \<Rightarrow> pyval \<Rightarrow> audit_error + pyval" where
  "canonical_field key value =
     (if value = PNone then (if key \<notin> set NULLABLE then Inl (NotNullable key) else Inr PNone)
      else if key \<in> set BINARY then rbind (hex_bytes key value) (\<lambda>h. Inr (PStr h))
      else Inr value)"

text \<open>The loop over the fields. \<^verbatim>\<open>row[key]\<close> cannot fail after the shape checks.\<close>

definition canonical_payload :: "audit_dict \<Rightarrow> audit_error + (string \<times> pyval) list" where
  "canonical_payload row =
     rtraverse (\<lambda>key. rbind (canonical_field key (case map_of row key of Some v \<Rightarrow> v | None \<Rightarrow> PNone))
       (\<lambda>v. Inr (key, v))) AUDIT_ROW_FIELDS"

fun json_of_pyval :: "string \<Rightarrow> pyval \<Rightarrow> audit_error + json" where
  "json_of_pyval key PNone = Inr JNull"
| "json_of_pyval key (PInt i) = Inr (JInt i)"
| "json_of_pyval key (PStr s) = Inr (JStr s)"
| "json_of_pyval key (PBytes b) = Inl (NotSerializable key)"

definition canonical_audit_row :: "audit_dict \<Rightarrow> audit_error + bytes" where
  "canonical_audit_row row =
     (let keys = map fst row;
          missing = filter (\<lambda>f. f \<notin> set keys) AUDIT_ROW_FIELDS;
          extra = sort (filter (\<lambda>k. k \<notin> set AUDIT_ROW_FIELDS) keys)
      in if missing \<noteq> [] then Inl (MissingFields missing)
         else if extra \<noteq> [] then Inl (UnexpectedFields extra)
         else rbind (canonical_payload row) (\<lambda>payload.
           rbind (rtraverse (\<lambda>(k, v). rbind (json_of_pyval k v) (\<lambda>j. Inr (k, j))) payload) (\<lambda>kvs.
             Inr (json_dumps False (JObj kvs)))))"

subsection \<open>The text of a row determines its values\<close>

lemma json_of_pyval_flat: "json_of_pyval k v = Inr j \<Longrightarrow> json_flat j"
  by (cases v) (auto simp: json_scalar_def intro!: json_scalar_flat)

lemma json_of_pyval_inj: "json_of_pyval k v = Inr j \<Longrightarrow> json_of_pyval k v' = Inr j \<Longrightarrow> v = v'"
  by (cases v; cases v') auto

lemma hex_bytes_inj: "hex_bytes k v = Inr h \<Longrightarrow> hex_bytes k v' = Inr h \<Longrightarrow> v = v'"
  by (auto simp: hex_bytes_def hex_of_inj Let_def split: pyval.splits if_splits)

lemma canonical_field_inj:
  "canonical_field k v = Inr x \<Longrightarrow> canonical_field k v' = Inr x \<Longrightarrow> v = v'"
  by (auto simp: canonical_field_def result_simps split: if_splits intro: hex_bytes_inj)

lemma sorted_AUDIT_ROW_FIELDS: "sorted AUDIT_ROW_FIELDS"
  by (simp add: AUDIT_ROW_FIELDS_def)

text \<open>What a successful serialisation has gone through, field by field.\<close>

lemma canonical_audit_row_Inr:
  assumes "canonical_audit_row row = Inr b"
  obtains kvs where "map fst kvs = AUDIT_ROW_FIELDS" "b = ''{'' @ members_text kvs"
    "\<forall>v \<in> snd ` set kvs. json_flat v"
    "\<And>i. i < length AUDIT_ROW_FIELDS \<Longrightarrow> \<exists>v x. map_of row (AUDIT_ROW_FIELDS ! i) = Some v \<and>
       canonical_field (AUDIT_ROW_FIELDS ! i) v = Inr x \<and>
       json_of_pyval (AUDIT_ROW_FIELDS ! i) x = Inr (snd (kvs ! i))"
    "set (map fst row) = set AUDIT_ROW_FIELDS"
proof -
  let ?F = AUDIT_ROW_FIELDS
  from assms have keys: "filter (\<lambda>f. f \<notin> set (map fst row)) ?F = []"
      "sort (filter (\<lambda>k. k \<notin> set ?F) (map fst row)) = []"
    and "\<exists>payload kvs. canonical_payload row = Inr payload \<and>
      rtraverse (\<lambda>(k, v). rbind (json_of_pyval k v) (\<lambda>j. Inr (k, j))) payload = Inr kvs \<and>
      b = json_dumps False (JObj kvs)"
    by (auto simp: canonical_audit_row_def Let_def result_simps split: if_splits simp del: json_dumps.simps)
  then obtain payload kvs where p: "canonical_payload row = Inr payload"
    and k: "rtraverse (\<lambda>(k, v). rbind (json_of_pyval k v) (\<lambda>j. Inr (k, j))) payload = Inr kvs"
    and b: "b = json_dumps False (JObj kvs)" by blast
  have lp: "length payload = length ?F" and lk: "length kvs = length ?F"
    using rtraverse_Inr_length [OF p [unfolded canonical_payload_def]] rtraverse_Inr_length [OF k] by auto
  have set: "set (map fst row) = set ?F"
    using keys(1) arg_cong [OF keys(2), of set] by (auto simp: filter_empty_conv)
  have at: "\<exists>v x. map_of row (?F ! i) = Some v \<and> canonical_field (?F ! i) v = Inr x \<and>
      json_of_pyval (?F ! i) x = Inr (snd (kvs ! i)) \<and> fst (kvs ! i) = ?F ! i" if i: "i < length ?F" for i
  proof -
    have "?F ! i \<in> fst ` set row" using set nth_mem [OF i] by auto
    then obtain v where v: "map_of row (?F ! i) = Some v" by (metis map_of_eq_None_iff not_None_eq)
    with rtraverse_Inr_nth [OF p [unfolded canonical_payload_def] i]
    obtain x where x: "canonical_field (?F ! i) v = Inr x" "payload ! i = (?F ! i, x)"
      by (auto simp: result_simps)
    with rtraverse_Inr_nth [OF k, of i] i lp
    obtain y where "json_of_pyval (?F ! i) x = Inr y" "(?F ! i, y) = kvs ! i"
      by (auto simp: result_simps)
    from this(1) this(2) [symmetric] show ?thesis using x v by simp
  qed
  have f: "map fst kvs = ?F" by (rule nth_equalityI) (use at lk in auto)
  have "json_flat (snd (kvs ! i))" if "i < length kvs" for i
    using at [of i] lk that json_of_pyval_flat by metis
  then have "\<forall>v \<in> snd ` set kvs. json_flat v" by (metis in_set_conv_nth imageE)
  then show ?thesis using that [of kvs] f b at set json_object_text [of kvs] sorted_AUDIT_ROW_FIELDS
    by metis
qed

lemma canonical_row_injective:
  assumes r: "canonical_audit_row row = Inr b" and r': "canonical_audit_row row' = Inr b"
  shows "map_of row = map_of row'"
proof -
  obtain kvs where k: "map fst kvs = AUDIT_ROW_FIELDS" "b = ''{'' @ members_text kvs"
    "\<forall>v \<in> snd ` set kvs. json_flat v"
    "\<And>i. i < length AUDIT_ROW_FIELDS \<Longrightarrow> \<exists>v x. map_of row (AUDIT_ROW_FIELDS ! i) = Some v \<and>
       canonical_field (AUDIT_ROW_FIELDS ! i) v = Inr x \<and>
       json_of_pyval (AUDIT_ROW_FIELDS ! i) x = Inr (snd (kvs ! i))"
    "set (map fst row) = set AUDIT_ROW_FIELDS"
    using canonical_audit_row_Inr [OF r] by blast
  obtain kvs' where k': "map fst kvs' = AUDIT_ROW_FIELDS" "b = ''{'' @ members_text kvs'"
    "\<forall>v \<in> snd ` set kvs'. json_flat v"
    "\<And>i. i < length AUDIT_ROW_FIELDS \<Longrightarrow> \<exists>v x. map_of row' (AUDIT_ROW_FIELDS ! i) = Some v \<and>
       canonical_field (AUDIT_ROW_FIELDS ! i) v = Inr x \<and>
       json_of_pyval (AUDIT_ROW_FIELDS ! i) x = Inr (snd (kvs' ! i))"
    "set (map fst row') = set AUDIT_ROW_FIELDS"
    using canonical_audit_row_Inr [OF r'] by blast
  have "kvs = kvs'" using members_text_unique [of kvs kvs'] k k' by simp
  show ?thesis
  proof
    fix f
    show "map_of row f = map_of row' f"
    proof (cases "f \<in> set AUDIT_ROW_FIELDS")
      case True
      then obtain i where i: "i < length AUDIT_ROW_FIELDS" "f = AUDIT_ROW_FIELDS ! i"
        by (auto simp: in_set_conv_nth)
      from k(4) [OF i(1)] k'(4) [OF i(1)] \<open>kvs = kvs'\<close> show ?thesis
        unfolding i(2) by (metis json_of_pyval_inj canonical_field_inj)
    next
      case False
      then have "f \<notin> fst ` set row" "f \<notin> fst ` set row'" using k(5) k'(5) by auto
      then show ?thesis by (metis map_of_eq_None_iff)
    qed
  qed
qed

subsection \<open>Rows of the declared types serialise\<close>

definition pv_text :: "string option \<Rightarrow> pyval" where
  "pv_text x = (case x of None \<Rightarrow> PNone | Some s \<Rightarrow> PStr s)"

definition pv_blob :: "bytes option \<Rightarrow> pyval" where
  "pv_blob x = (case x of None \<Rightarrow> PNone | Some b \<Rightarrow> PBytes b)"

text \<open>The dict of a row whose columns have the types of the schema, in the column order that the
  writer and the verifier both use.\<close>

definition typed_dict :: "int \<Rightarrow> string \<Rightarrow> string \<Rightarrow> string option \<Rightarrow> string \<Rightarrow> string \<Rightarrow> string option
    \<Rightarrow> string \<Rightarrow> string \<Rightarrow> bytes option \<Rightarrow> string option \<Rightarrow> bytes \<Rightarrow> string \<Rightarrow> audit_dict" where
  "typed_dict rid occ src caller tool status reason cost pii ast rule fp fpv =
     [(''id'', PInt rid), (''occurred_at'', PStr occ), (''source_connection_id'', PStr src),
      (''caller_id'', pv_text caller), (''tool_name'', PStr tool), (''status'', PStr status),
      (''refusal_reason'', pv_text reason), (''cost_class'', PStr cost), (''pii_categories'', PStr pii),
      (''ast_shape_hash'', pv_blob ast), (''rule_id'', pv_text rule), (''fingerprint'', PBytes fp),
      (''fingerprint_version'', PStr fpv)]"

lemma typed_dict_keys:
  "set (map fst (typed_dict rid occ src caller tool status reason cost pii ast rule fp fpv)) = set AUDIT_ROW_FIELDS"
  unfolding typed_dict_def AUDIT_ROW_FIELDS_def by auto

text \<open>Field by field, the serialisation of a row succeeds if it does at every field.\<close>

lemma canonical_audit_row_total:
  assumes "set (map fst d) = set AUDIT_ROW_FIELDS"
    and "\<And>f. f \<in> set AUDIT_ROW_FIELDS \<Longrightarrow> \<exists>v x j. map_of d f = Some v \<and> canonical_field f v = Inr x \<and> json_of_pyval f x = Inr j"
  shows "\<exists>c. canonical_audit_row d = Inr c"
proof -
  let ?step = "\<lambda>key. rbind (canonical_field key (case map_of d key of Some v \<Rightarrow> v | None \<Rightarrow> PNone))
      (\<lambda>v. Inr (key, v))"
  have "\<exists>y. ?step f = Inr y" if "f \<in> set AUDIT_ROW_FIELDS" for f
    using assms(2) [OF that] by auto
  then obtain p where p: "canonical_payload d = Inr p"
    unfolding canonical_payload_def using rtraverse_total [of AUDIT_ROW_FIELDS ?step] by blast
  have "\<exists>y. (\<lambda>(k, v). rbind (json_of_pyval k v) (\<lambda>j. Inr (k, j))) kv = Inr y" if kv: "kv \<in> set p" for kv
  proof -
    obtain i where i: "i < length p" "kv = p ! i" using kv by (auto simp: in_set_conv_nth)
    have l: "length p = length AUDIT_ROW_FIELDS" by (rule rtraverse_Inr_length [OF p [unfolded canonical_payload_def]])
    then have f: "AUDIT_ROW_FIELDS ! i \<in> set AUDIT_ROW_FIELDS" using i by simp
    from rtraverse_Inr_nth [OF p [unfolded canonical_payload_def], of i] i l assms(2) [OF f]
    obtain x j where "(AUDIT_ROW_FIELDS ! i, x) = p ! i" "json_of_pyval (AUDIT_ROW_FIELDS ! i) x = Inr j"
      by (auto simp: result_simps)
    from this(2) this(1) [symmetric] show ?thesis using i by simp
  qed
  then obtain kvs where "rtraverse (\<lambda>(k, v). rbind (json_of_pyval k v) (\<lambda>j. Inr (k, j))) p = Inr kvs"
    using rtraverse_total by blast
  moreover have "filter (\<lambda>f. f \<notin> set (map fst d)) AUDIT_ROW_FIELDS = []"
    "filter (\<lambda>k. k \<notin> set AUDIT_ROW_FIELDS) (map fst d) = []"
    using assms(1) by (auto simp: filter_empty_conv)
  ultimately show ?thesis by (simp add: canonical_audit_row_def Let_def p)
qed

lemma typed_dict_canonical:
  assumes "length fp = 32" "\<And>a. ast = Some a \<Longrightarrow> length a = 32"
  shows "\<exists>c. canonical_audit_row (typed_dict rid occ src caller tool status reason cost pii ast rule fp fpv) = Inr c"
proof (rule canonical_audit_row_total [OF typed_dict_keys])
  fix f assume "f \<in> set AUDIT_ROW_FIELDS"
  then show "\<exists>v x j. map_of (typed_dict rid occ src caller tool status reason cost pii ast rule fp fpv) f = Some v
      \<and> canonical_field f v = Inr x \<and> json_of_pyval f x = Inr j"
    using assms unfolding AUDIT_ROW_FIELDS_def typed_dict_def
    by (cases caller; cases reason; cases ast; cases rule)
      (auto simp: canonical_field_def hex_bytes_def pv_text_def pv_blob_def NULLABLE_def BINARY_def
        FINGERPRINT_BYTES_def AST_SHAPE_HASH_BYTES_def)
qed

subsection \<open>The fingerprint of an audit row\<close>

datatype cost_class = Small | Medium | Large | Refused

fun cost_name :: "cost_class \<Rightarrow> string" where
  "cost_name Small = ''small''"
| "cost_name Medium = ''medium''"
| "cost_name Large = ''large''"
| "cost_name Refused = ''refused''"

datatype refusal_reason =
    Pii_Blocked | Allowlist_Violation | Fragment_Unsafe | Cost_Cap_Exceeded | Ambiguous_Resolution | Schema_Drift

fun reason_name :: "refusal_reason \<Rightarrow> string" where
  "reason_name Pii_Blocked = ''pii_blocked''"
| "reason_name Allowlist_Violation = ''allowlist_violation''"
| "reason_name Fragment_Unsafe = ''fragment_unsafe''"
| "reason_name Cost_Cap_Exceeded = ''cost_cap_exceeded''"
| "reason_name Ambiguous_Resolution = ''ambiguous_resolution''"
| "reason_name Schema_Drift = ''schema_drift''"

lemma cost_name_inj: "cost_name a = cost_name b \<longleftrightarrow> a = b"
  by (cases a; cases b) simp_all

lemma reason_name_inj: "reason_name a = reason_name b \<longleftrightarrow> a = b"
  by (cases a; cases b) simp_all

definition FINGERPRINT_VERSION :: string where
  "FINGERPRINT_VERSION = ''fp-v1''"

record fingerprint_input =
  fi_ast_shape_hash :: "bytes option"
  fi_pii_tags_touched :: "pii_category set"
  fi_refusal_reason :: "refusal_reason option"
  fi_cost_class :: cost_class
  fi_rule_id :: "string option"

definition fingerprint_payload :: "fingerprint_input \<Rightarrow> json" where
  "fingerprint_payload fp = JObj
     [(''v'', JStr FINGERPRINT_VERSION),
      (''ast'', json_opt (map_option hex_of (fi_ast_shape_hash fp))),
      (''pii'', JList (map JStr (sorted_category_names (fi_pii_tags_touched fp)))),
      (''reason'', json_opt (map_option reason_name (fi_refusal_reason fp))),
      (''cost'', JStr (cost_name (fi_cost_class fp))),
      (''rule'', json_opt (fi_rule_id fp))]"

definition fingerprint_bytes :: "fingerprint_input \<Rightarrow> bytes" where
  "fingerprint_bytes fp = json_dumps True (fingerprint_payload fp)"

definition compute_fingerprint :: "fingerprint_input \<Rightarrow> bytes" where
  "compute_fingerprint fp = sha256 (fingerprint_bytes fp)"

lemma length_compute_fingerprint: "length (compute_fingerprint fp) = 32"
  by (simp add: compute_fingerprint_def)

text \<open>On text below 0x7F both settings of \<^verbatim>\<open>ensure_ascii\<close> write the same.\<close>

definition plain_ascii :: "string \<Rightarrow> bool" where
  "plain_ascii s \<longleftrightarrow> list_all (\<lambda>c. of_char c < (0x7F :: nat)) s"

lemma escape_code_point_plain: "of_char c < (0x7F::nat) \<Longrightarrow> escape_code_point (of_char c) = escape_byte c"
  by (auto simp: escape_code_point_def escape_byte_def split: option.splits)

lemma json_string_plain: "plain_ascii s \<Longrightarrow> json_string True s = json_string False s"
proof -
  assume "plain_ascii s"
  then have "concat (map escape_code_point (utf8_decode s)) = concat (map escape_byte s)"
    by (induction s) (auto simp: plain_ascii_def escape_code_point_plain Let_def)
  then show ?thesis by (simp add: json_string_def)
qed

lemma json_opt_plain: "(\<And>s. x = Some s \<Longrightarrow> plain_ascii s) \<Longrightarrow> json_dumps True (json_opt x) = json_dumps False (json_opt x)"
  by (cases x) (auto simp: json_opt_def json_string_plain)

lemma hex_of_plain: "plain_ascii (hex_of b)"
proof -
  have "of_char (hex_digit n) < (0x7F::nat)" if "n < 16" for n
    using that by (auto simp: hex_digit_def)
  then show ?thesis
    by (induction b) (auto simp: plain_ascii_def hex_of_def hex_byte_def less_mult_imp_div_less)
qed

lemma cost_name_plain: "plain_ascii (cost_name c)"
  by (cases c) (simp_all add: plain_ascii_def)

lemma reason_name_plain: "plain_ascii (reason_name r)"
  by (cases r) (simp_all add: plain_ascii_def)

lemma category_name_plain: "plain_ascii (category_name c)"
  by (cases c) (simp_all add: plain_ascii_def)

lemmas names_plain = cost_name_plain reason_name_plain category_name_plain hex_of_plain

text \<open>The six members in key order.\<close>

definition fingerprint_text :: "json \<Rightarrow> json \<Rightarrow> string list \<Rightarrow> json \<Rightarrow> json \<Rightarrow> string" where
  "fingerprint_text ast cost pii reason rule =
     ''{'' @ json_string False ''ast'' @ '':'' @ json_dumps False ast @ '','' @
     json_string False ''cost'' @ '':'' @ json_dumps False cost @ '','' @
     json_string False ''pii'' @ '':['' @ strings_text pii @ '','' @
     json_string False ''reason'' @ '':'' @ json_dumps False reason @ '','' @
     json_string False ''rule'' @ '':'' @ json_dumps False rule @ '','' @
     json_string False ''v'' @ '':'' @ json_string False FINGERPRINT_VERSION @ ''}''"

lemma fingerprint_bytes_text:
  assumes "\<And>r. fi_rule_id fp = Some r \<Longrightarrow> plain_ascii r"
  shows "fingerprint_bytes fp =
    fingerprint_text (json_opt (map_option hex_of (fi_ast_shape_hash fp))) (JStr (cost_name (fi_cost_class fp)))
      (sorted_category_names (fi_pii_tags_touched fp)) (json_opt (map_option reason_name (fi_refusal_reason fp)))
      (json_opt (fi_rule_id fp))"
proof -
  have keys: "json_string True k = json_string False k"
    if "k \<in> {''v'', ''ast'', ''pii'', ''reason'', ''cost'', ''rule'', FINGERPRINT_VERSION}" for k
    using that by (intro json_string_plain) (auto simp: plain_ascii_def FINGERPRINT_VERSION_def)
  have pii: "map (json_string True) (sorted_category_names C) = map (json_string False) (sorted_category_names C)"
    for C by (simp add: sorted_category_names_def json_string_plain names_plain)
  have opts: "json_dumps True (json_opt (map_option hex_of a)) = json_dumps False (json_opt (map_option hex_of a))"
    "json_dumps True (json_opt (map_option reason_name b)) = json_dumps False (json_opt (map_option reason_name b))"
    "json_dumps True (json_opt (fi_rule_id fp)) = json_dumps False (json_opt (fi_rule_id fp))" for a b
    using assms by (auto intro!: json_opt_plain simp: names_plain)
  show ?thesis
    unfolding fingerprint_bytes_def fingerprint_payload_def fingerprint_text_def
    by (simp add: opts keys pii comp_def names_plain json_string_plain [OF cost_name_plain]
        strings_text_join [symmetric] del: fingerprint_text_def)
qed

lemma map_option_inj_iff:
  "map_option hex_of x = map_option hex_of y \<longleftrightarrow> x = y"
  "map_option reason_name r = map_option reason_name r' \<longleftrightarrow> r = r'"
  by (cases x; cases y; simp add: hex_of_inj) (cases r; cases r'; simp add: reason_name_inj)

lemma fingerprint_text_unique:
  assumes "json_scalar a" "json_scalar a'" "json_scalar c" "json_scalar c'" "json_scalar r" "json_scalar r'"
    "json_scalar u" "json_scalar u'"
    and eq: "fingerprint_text a c p r u = fingerprint_text a' c' p' r' u'"
  shows "a = a' \<and> c = c' \<and> p = p' \<and> r = r' \<and> u = u'"
proof -
  have d: "json_delim CHR '',''" by (simp add: json_delim_def)
  note u = json_scalar_unique [OF _ _ d d]
  let ?U = "\<lambda>u. json_string False ''rule'' @ '':'' @ json_dumps False u @ CHR '','' #
     json_string False ''v'' @ '':'' @ json_string False FINGERPRINT_VERSION @ ''}''"
  let ?R = "\<lambda>r u. json_string False ''reason'' @ '':'' @ json_dumps False r @ CHR '','' # ?U u"
  let ?P = "\<lambda>p r u. json_string False ''pii'' @ '':['' @ strings_text p @ '','' @ ?R r u"
  let ?C = "\<lambda>c p r u. json_string False ''cost'' @ '':'' @ json_dumps False c @ CHR '','' # ?P p r u"
  have "json_dumps False a @ CHR '','' # ?C c p r u = json_dumps False a' @ CHR '','' # ?C c' p' r' u'"
    using eq by (simp add: fingerprint_text_def)
  from u [OF assms(1,2) this] have a: "a = a'"
    and "json_dumps False c @ CHR '','' # ?P p r u = json_dumps False c' @ CHR '','' # ?P p' r' u'"
    by simp_all
  from u [OF assms(3,4) this(2)] have c: "c = c'"
    and "strings_text p @ '','' @ ?R r u = strings_text p' @ '','' @ ?R r' u'"
    by simp_all
  from strings_text_unique [OF this(2)] have p: "p = p'"
    and "json_dumps False r @ CHR '','' # ?U u = json_dumps False r' @ CHR '','' # ?U u'"
    by simp_all
  from u [OF assms(5,6) this(2)] have r: "r = r'"
    and "json_dumps False u @ CHR '','' # json_string False ''v'' @ '':'' @ json_string False FINGERPRINT_VERSION @ ''}''
      = json_dumps False u' @ CHR '','' # json_string False ''v'' @ '':'' @ json_string False FINGERPRINT_VERSION @ ''}''"
    by simp_all
  from u [OF assms(7,8) this(2)] a c p r show ?thesis by simp
qed

text \<open>A fingerprint commits to the five structural fields. Two inputs (with ASCII rule ids) that
  have the same digest are the same input, or else the two serialisations collide under sha256: no
  two of the five fields can be traded off against each other in the text that is hashed.\<close>

theorem fingerprint_binding:
  assumes "\<And>r. fi_rule_id f = Some r \<Longrightarrow> plain_ascii r" "\<And>r. fi_rule_id g = Some r \<Longrightarrow> plain_ascii r"
    and eq: "compute_fingerprint f = compute_fingerprint g"
  shows "f = g \<or> collision [fingerprint_bytes f] [fingerprint_bytes g]"
proof (cases "fingerprint_bytes f = fingerprint_bytes g")
  case True
  let ?A = "\<lambda>f. json_opt (map_option hex_of (fi_ast_shape_hash f))"
  let ?R = "\<lambda>f. json_opt (map_option reason_name (fi_refusal_reason f))"
  have "fingerprint_text (?A f) (JStr (cost_name (fi_cost_class f))) (sorted_category_names (fi_pii_tags_touched f))
      (?R f) (json_opt (fi_rule_id f)) =
    fingerprint_text (?A g) (JStr (cost_name (fi_cost_class g))) (sorted_category_names (fi_pii_tags_touched g))
      (?R g) (json_opt (fi_rule_id g))"
    using True fingerprint_bytes_text [of f, OF assms(1)] fingerprint_bytes_text [of g, OF assms(2)] by simp
  then have "?A f = ?A g" "cost_name (fi_cost_class f) = cost_name (fi_cost_class g)"
    "sorted_category_names (fi_pii_tags_touched f) = sorted_category_names (fi_pii_tags_touched g)"
    "?R f = ?R g" "json_opt (fi_rule_id f) = json_opt (fi_rule_id g)"
    by (auto dest!: fingerprint_text_unique [rotated -1] simp: json_opt_scalar json_str_scalar)
  then have "f = g"
    by (intro fingerprint_input.equality)
      (auto simp: json_opt_inj sorted_category_names_inj cost_name_inj map_option_inj_iff)
  then show ?thesis by simp
next
  case False
  then show ?thesis using eq by (simp add: collision_def compute_fingerprint_def)
qed

theorem fingerprint_binding_witness:
  "let f = \<lparr>fi_ast_shape_hash = None, fi_pii_tags_touched = {Health, Contact}, fi_refusal_reason = Some Pii_Blocked,
       fi_cost_class = Refused, fi_rule_id = Some ''r1''\<rparr>;
     g = f\<lparr>fi_pii_tags_touched := {Contact, Health}\<rparr>
   in f = g \<or> collision [fingerprint_bytes f] [fingerprint_bytes g]"
  unfolding Let_def
  by (rule fingerprint_binding) (auto simp: plain_ascii_def insert_commute)

end
