(* ===== verification/AuditChain.thy ===== *)
theory AuditChain
  imports AuditCanonical
begin

section \<open>The audit chain and its verifier (audit/chain.py, audit/verify.py)\<close>

text \<open>
  Every row of \<^verbatim>\<open>mcp_audit\<close> stores the hash of the previous row's hash and its own canonical
  bytes. This theory holds the hash, the table, the walk that recomputes it and the resolution of a
  \<^verbatim>\<open>--since\<close> prefix. \<open>walk_rows_clean\<close> turns a clean walk into the fold of \<open>digest_fold\<close>, whose
  binding law then gives tamper evidence; the remaining lemmas say which rows a walk reports.
\<close>

subsection \<open>The hash\<close>

definition CHAIN_HASH_SIZE :: nat where
  "CHAIN_HASH_SIZE = 32"

definition GENESIS_CHAIN_HASH :: bytes where
  "GENESIS_CHAIN_HASH = replicate CHAIN_HASH_SIZE CHR 0x00"

definition compute_chain_hash :: "bytes \<Rightarrow> bytes \<Rightarrow> audit_error + bytes" where
  "compute_chain_hash prev_chain_hash canonical_row =
     (if length prev_chain_hash \<noteq> CHAIN_HASH_SIZE then Inl (PrevHashWidth (length prev_chain_hash))
      else Inr (sha256 (prev_chain_hash @ canonical_row)))"

definition chain_pre :: "bytes \<Rightarrow> bytes \<Rightarrow> bytes" where
  "chain_pre p c = p @ c"

interpretation chain: digest_fold sha256 chain_pre 32 "\<lambda>a b. True"
  by unfold_locales (auto simp: chain_pre_def)

lemma length_GENESIS [simp]: "length GENESIS_CHAIN_HASH = 32"
  by (simp add: GENESIS_CHAIN_HASH_def CHAIN_HASH_SIZE_def)

lemma compute_chain_hash_Inr:
  "compute_chain_hash p c = Inr h \<longleftrightarrow> length p = 32 \<and> h = sha256 (chain_pre p c)"
  by (auto simp: compute_chain_hash_def CHAIN_HASH_SIZE_def chain_pre_def)

subsection \<open>The table\<close>

text \<open>
  A row as SQLite returns it: the integer primary key and one value per column. SQLite does not
  enforce column types, so a column may hold any value that its \<^verbatim>\<open>CHECK\<close>s let through. The
  column \<^verbatim>\<open>anchor_entity\<close> is not part of the canonical form.
\<close>

record stored_row =
  sr_id :: int
  sr_occurred_at :: pyval
  sr_source_connection_id :: pyval
  sr_caller_id :: pyval
  sr_tool_name :: pyval
  sr_status :: pyval
  sr_refusal_reason :: pyval
  sr_cost_class :: pyval
  sr_pii_categories :: pyval
  sr_ast_shape_hash :: pyval
  sr_rule_id :: pyval
  sr_fingerprint :: pyval
  sr_fingerprint_version :: pyval
  sr_chain_hash :: pyval
  sr_anchor_entity :: pyval

type_synonym audit_table = "stored_row list"

definition ROW_COLUMNS :: "(string \<times> (stored_row \<Rightarrow> pyval)) list" where
  "ROW_COLUMNS =
     [(''id'', \<lambda>r. PInt (sr_id r)), (''occurred_at'', sr_occurred_at),
      (''source_connection_id'', sr_source_connection_id), (''caller_id'', sr_caller_id),
      (''tool_name'', sr_tool_name), (''status'', sr_status), (''refusal_reason'', sr_refusal_reason),
      (''cost_class'', sr_cost_class), (''pii_categories'', sr_pii_categories),
      (''ast_shape_hash'', sr_ast_shape_hash), (''rule_id'', sr_rule_id),
      (''fingerprint'', sr_fingerprint), (''fingerprint_version'', sr_fingerprint_version)]"

text \<open>\<^verbatim>\<open>bytes(value)\<close>: a count gives that many zero bytes, a text raises \<^verbatim>\<open>TypeError\<close>,
  \<^verbatim>\<open>None\<close> too.\<close>

definition py_bytes :: "string \<Rightarrow> pyval \<Rightarrow> audit_error + bytes" where
  "py_bytes field v =
     (case v of
        PBytes b \<Rightarrow> Inr b
      | PInt n \<Rightarrow> if n < 0 then Inl (NegativeCount field) else Inr (replicate (nat n) CHR 0x00)
      | _ \<Rightarrow> Inl (NoBytesOf field))"

definition row_to_canonical_dict :: "stored_row \<Rightarrow> audit_error + audit_dict" where
  "row_to_canonical_dict row =
     rtraverse (\<lambda>(col, get).
       let value = get row in
       if (col = ''ast_shape_hash'' \<or> col = ''fingerprint'') \<and> value \<noteq> PNone
       then rbind (py_bytes col value) (\<lambda>b. Inr (col, PBytes b))
       else Inr (col, value)) ROW_COLUMNS"

definition row_canonical :: "stored_row \<Rightarrow> audit_error + bytes" where
  "row_canonical row = rbind (row_to_canonical_dict row) canonical_audit_row"

text \<open>A row whose columns have the declared types.\<close>

definition typed_row :: "int \<Rightarrow> string \<Rightarrow> string \<Rightarrow> string option \<Rightarrow> string \<Rightarrow> string \<Rightarrow> string option
    \<Rightarrow> string \<Rightarrow> string \<Rightarrow> bytes option \<Rightarrow> string option \<Rightarrow> bytes \<Rightarrow> string \<Rightarrow> bytes \<Rightarrow> string option \<Rightarrow> stored_row" where
  "typed_row rid occ src caller tool status reason cost pii ast rule fp fpv chain anchor =
     \<lparr>sr_id = rid, sr_occurred_at = PStr occ, sr_source_connection_id = PStr src, sr_caller_id = pv_text caller,
      sr_tool_name = PStr tool, sr_status = PStr status, sr_refusal_reason = pv_text reason,
      sr_cost_class = PStr cost, sr_pii_categories = PStr pii, sr_ast_shape_hash = pv_blob ast,
      sr_rule_id = pv_text rule, sr_fingerprint = PBytes fp, sr_fingerprint_version = PStr fpv,
      sr_chain_hash = PBytes chain, sr_anchor_entity = pv_text anchor\<rparr>"

lemma typed_row_dict:
  "row_to_canonical_dict (typed_row rid occ src caller tool status reason cost pii ast rule fp fpv chain anchor)
     = Inr (typed_dict rid occ src caller tool status reason cost pii ast rule fp fpv)"
  by (cases ast) (simp_all add: row_to_canonical_dict_def ROW_COLUMNS_def typed_row_def typed_dict_def pv_blob_def py_bytes_def)

subsection \<open>The walk\<close>

text \<open>A mismatch carries the expected hash in hexadecimal, or the canonicalisation error.\<close>

record chain_mismatch =
  cm_row_id :: int
  cm_expected :: "audit_error + string"
  cm_actual_hex :: string

text \<open>
  The generator's whole run: the mismatches it yields, and the exception that ends it, if any. Only
  a \<^verbatim>\<open>ValueError\<close> of the serialisation is caught; \<^verbatim>\<open>compute_chain_hash\<close> and the
  \<^verbatim>\<open>bytes(row["chain_hash"])\<close> stand outside the \<^verbatim>\<open>try\<close>.
\<close>

fun walk_rows :: "bool \<Rightarrow> bytes \<Rightarrow> stored_row list \<Rightarrow> chain_mismatch list \<times> audit_error option" where
  "walk_rows full prev_chain [] = ([], None)"
| "walk_rows full prev_chain (row # rows) =
     (case py_bytes ''chain_hash'' (sr_chain_hash row) of
        Inl e \<Rightarrow> ([], Some e)
      | Inr actual_chain \<Rightarrow>
          (case row_canonical row of
             Inl e \<Rightarrow>
               if \<not> is_value_error e then ([], Some e)
               else (let m = \<lparr>cm_row_id = sr_id row, cm_expected = Inl e, cm_actual_hex = hex_of actual_chain\<rparr>
                     in if \<not> full then ([m], None)
                        else apfst ((#) m) (walk_rows full actual_chain rows))
           | Inr canonical \<Rightarrow>
               (case compute_chain_hash prev_chain canonical of
                  Inl e \<Rightarrow> ([], Some e)
                | Inr expected_chain \<Rightarrow>
                    if expected_chain \<noteq> actual_chain
                    then (let m = \<lparr>cm_row_id = sr_id row, cm_expected = Inr (hex_of expected_chain),
                                   cm_actual_hex = hex_of actual_chain\<rparr>
                          in if \<not> full then ([m], None)
                             else apfst ((#) m) (walk_rows full actual_chain rows))
                    else walk_rows full actual_chain rows)))"

definition walk_chain :: "audit_table \<Rightarrow> bool \<Rightarrow> int option \<Rightarrow> chain_mismatch list \<times> audit_error option" where
  "walk_chain conn full start_after_row_id =
     (case start_after_row_id of
        None \<Rightarrow> walk_rows full GENESIS_CHAIN_HASH (sort_key sr_id conn)
      | Some n \<Rightarrow>
          (case find (\<lambda>r. sr_id r = n) conn of
             None \<Rightarrow> ([], None)
           | Some anchor \<Rightarrow>
               (case py_bytes ''chain_hash'' (sr_chain_hash anchor) of
                  Inl e \<Rightarrow> ([], Some e)
                | Inr prev_chain \<Rightarrow>
                    walk_rows full prev_chain (sort_key sr_id (filter (\<lambda>r. n < sr_id r) conn)))))"

subsection \<open>What a clean walk means\<close>

text \<open>The specification of an intact chain: every stored hash is the digest of the previous one and
  the row.\<close>

fun linked :: "bytes \<Rightarrow> stored_row list \<Rightarrow> bool" where
  "linked prev [] = True"
| "linked prev (row # rows) =
     (case row_canonical row of
        Inl e \<Rightarrow> False
      | Inr c \<Rightarrow> py_bytes ''chain_hash'' (sr_chain_hash row) = Inr (sha256 (chain_pre prev c))
          \<and> linked (sha256 (chain_pre prev c)) rows)"

lemma apfst_Cons_neq [simp]: "apfst ((#) m) w \<noteq> ([], None)"
  by (cases w) simp

lemma walk_rows_clean: "length prev = 32 \<Longrightarrow> walk_rows full prev rows = ([], None) \<longleftrightarrow> linked prev rows"
proof (induction rows arbitrary: prev)
  case Nil
  then show ?case by simp
next
  case (Cons row rows)
  then show ?case
    by (auto simp: Let_def compute_chain_hash_def CHAIN_HASH_SIZE_def chain_pre_def split: sum.splits)
qed

definition row_bytes :: "stored_row \<Rightarrow> bytes" where
  "row_bytes row = (case row_canonical row of Inr c \<Rightarrow> c | Inl _ \<Rightarrow> [])"

lemma row_bytes_Inr: "row_canonical row = Inr c \<Longrightarrow> row_bytes row = c"
  by (simp add: row_bytes_def)

lemma linked_nth:
  "linked prev rows \<Longrightarrow> i < length rows \<Longrightarrow> row_canonical (rows ! i) = Inr (row_bytes (rows ! i)) \<and>
     py_bytes ''chain_hash'' (sr_chain_hash (rows ! i)) =
       Inr (fold_digest sha256 chain_pre prev (map row_bytes (take (Suc i) rows)))"
proof (induction rows arbitrary: prev i)
  case Nil
  then show ?case by simp
next
  case (Cons row rows)
  then show ?case by (cases i) (auto simp: row_bytes_Inr split: sum.splits)
qed

lemma linked_append: "linked p (xs @ ys) \<longleftrightarrow>
    linked p xs \<and> linked (fold_digest sha256 chain_pre p (map row_bytes xs)) ys"
  by (induction xs arbitrary: p) (auto simp: row_bytes_Inr split: sum.splits)

lemma row_dict_keys: "row_to_canonical_dict row = Inr d \<Longrightarrow> map fst d = map fst ROW_COLUMNS"
proof -
  assume h: "row_to_canonical_dict row = Inr d"
  note r = h [unfolded row_to_canonical_dict_def]
  show ?thesis
  proof (rule nth_equalityI)
    show "length (map fst d) = length (map fst ROW_COLUMNS)" using rtraverse_Inr_length [OF r] by simp
    fix i assume "i < length (map fst d)"
    then show "map fst d ! i = map fst ROW_COLUMNS ! i"
      using rtraverse_Inr_length [OF r] rtraverse_Inr_nth [OF r, of i]
      by (auto simp: result_simps Let_def split: prod.splits if_splits) (metis fst_conv)+
  qed
qed

lemma distinct_ROW_COLUMNS: "distinct (map fst ROW_COLUMNS)"
  by (simp add: ROW_COLUMNS_def)

lemma map_of_keys_eq:
  "distinct (map fst xs) \<Longrightarrow> map fst xs = map fst ys \<Longrightarrow> map_of xs = map_of ys \<Longrightarrow> xs = ys"
proof (induction xs arbitrary: ys)
  case Nil
  then show ?case by simp
next
  case (Cons x xs)
  then obtain y ys' where y: "ys = y # ys'" by (cases ys) auto
  with Cons.prems have k: "fst x = fst y" "map fst xs = map fst ys'" by auto
  have v: "snd x = snd y" using Cons.prems(3) fun_cong [OF Cons.prems(3), of "fst x"] k y by (cases x; cases y) simp
  have "map_of xs k = map_of ys' k" for k
  proof (cases "k = fst x")
    case True
    then have "k \<notin> fst ` set xs" "k \<notin> fst ` set ys'" using Cons.prems(1) k by (auto simp flip: set_map)
    then show ?thesis by (metis map_of_eq_None_iff)
  next
    case False
    then show ?thesis using fun_cong [OF Cons.prems(3), of k] y k by (cases x; cases y) auto
  qed
  then show ?case using Cons.IH [of ys'] Cons.prems k v y by (cases x; cases y) auto
qed

lemma row_canonical_inj:
  assumes "row_canonical r = Inr c" "row_canonical r' = Inr c"
  shows "row_to_canonical_dict r = row_to_canonical_dict r'"
proof -
  obtain d d' where d: "row_to_canonical_dict r = Inr d" "canonical_audit_row d = Inr c"
    "row_to_canonical_dict r' = Inr d'" "canonical_audit_row d' = Inr c"
    using assms by (auto simp: row_canonical_def result_simps)
  have "d = d'"
    using map_of_keys_eq [of d d'] canonical_row_injective [OF d(2,4)] row_dict_keys [OF d(1)]
      row_dict_keys [OF d(3)] distinct_ROW_COLUMNS by simp
  then show ?thesis using d by simp
qed

lemma map_take_nth:
  assumes "map f (take n xs) = map f (take n ys)" "j < n" "n \<le> length xs" "n \<le> length ys"
  shows "f (xs ! j) = f (ys ! j)"
proof -
  have "map f (take n xs) ! j = map f (take n ys) ! j" using assms(1) by simp
  then show ?thesis using assms(2-4) by simp
qed

subsection \<open>Tamper evidence\<close>

definition by_id :: "audit_table \<Rightarrow> stored_row list" where
  "by_id conn = sort_key sr_id conn"

text \<open>The byte strings that are hashed on the way through a chain.\<close>

definition chain_preimages :: "stored_row list \<Rightarrow> bytes list" where
  "chain_preimages rows = fold_preimages sha256 chain_pre GENESIS_CHAIN_HASH (map row_bytes rows)"

lemma fold_preimages_take:
  "set (fold_preimages H pre p (take n xs)) \<subseteq> set (fold_preimages H pre p xs)"
  by (induction xs arbitrary: p n) (auto simp: take_Cons split: nat.splits)

lemma walk_chain_clean: "walk_chain conn full None = ([], None) \<longleftrightarrow> linked GENESIS_CHAIN_HASH (by_id conn)"
  by (simp add: walk_chain_def by_id_def walk_rows_clean)

text \<open>A two-row chain to evaluate the properties on.\<close>

definition sample_row :: "int \<Rightarrow> string \<Rightarrow> bytes \<Rightarrow> stored_row" where
  "sample_row n tool h = typed_row n ''2026-01-01T00:00:00.000000Z'' ''src'' None tool ''success'' None ''small''
     [] None None (replicate 32 CHR 0x00) ''fp-v1'' h None"

definition seal :: "bytes \<Rightarrow> (bytes \<Rightarrow> stored_row) \<Rightarrow> stored_row" where
  "seal prev mk = mk (sha256 (chain_pre prev (row_bytes (mk []))))"

definition sealed_hash :: "bytes \<Rightarrow> (bytes \<Rightarrow> stored_row) \<Rightarrow> bytes" where
  "sealed_hash prev mk = sha256 (chain_pre prev (row_bytes (mk [])))"

definition sample_log :: audit_table where
  "sample_log =
     (let r1 = sample_row 1 ''find''; h1 = sealed_hash GENESIS_CHAIN_HASH r1
      in [seal GENESIS_CHAIN_HASH r1, seal h1 (sample_row 2 ''get'')])"

lemma sample_row_simps [simp]: "sr_id (sample_row n t h) = n" "sr_chain_hash (sample_row n t h) = PBytes h"
  by (simp_all add: sample_row_def typed_row_def)

lemma sample_row_canonical: "\<exists>c. \<forall>h. row_canonical (sample_row n t h) = Inr c"
  unfolding row_canonical_def sample_row_def typed_row_dict
  using typed_dict_canonical [of "replicate 32 CHR 0x00" None] by simp

lemma row_canonical_sample: "row_canonical (sample_row n t h) = Inr (row_bytes (sample_row n t []))"
  using sample_row_canonical [of n t] by (metis row_bytes_Inr)

lemma linked_sample:
  "linked p (seal p (sample_row n t) # rs) \<longleftrightarrow> linked (sealed_hash p (sample_row n t)) rs"
  by (simp add: seal_def sealed_hash_def row_canonical_sample py_bytes_def)

lemma sr_id_seal [simp]: "sr_id (seal p (sample_row n t)) = n"
  by (simp add: seal_def)

lemma by_id_sample_log: "by_id sample_log = sample_log" "by_id [r] = [r]"
  by (simp_all add: by_id_def sample_log_def Let_def)

lemma take_sample_log: "take 1 sample_log = [seal GENESIS_CHAIN_HASH (sample_row 1 ''find'')]"
  by (simp add: sample_log_def Let_def)

lemma sample_log_clean: "walk_chain sample_log full None = ([], None)" "walk_chain (take 1 sample_log) full None = ([], None)"
  by (simp_all only: walk_chain_clean by_id_sample_log take_sample_log)
    (simp_all only: sample_log_def Let_def linked_sample linked.simps(1))

text \<open>C16: Tamper evidence. Take the log as it was archived and the log as it is now, both of which the
  verifier accepts, and a position at which both store the same \<^verbatim>\<open>chain_hash\<close>. Then all rows up to that
  position agree in their 13 canonical fields, or the hashed byte strings of the two logs contain a
  sha256 collision. An attacker who rewrites history coherently therefore changes every later hash.\<close>

theorem chain_tamper_evident:
  assumes old: "walk_chain old full None = ([], None)" and new: "walk_chain new full' None = ([], None)"
    and i: "i < length old" "i < length new"
    and head: "sr_chain_hash (by_id old ! i) = sr_chain_hash (by_id new ! i)"
  shows "map row_to_canonical_dict (take (Suc i) (by_id old)) = map row_to_canonical_dict (take (Suc i) (by_id new))
    \<or> collision (chain_preimages (by_id old)) (chain_preimages (by_id new))"
proof -
  let ?o = "by_id old" and ?n = "by_id new"
  have len: "i < length ?o" "i < length ?n" using i by (simp_all add: by_id_def)
  have l: "linked GENESIS_CHAIN_HASH ?o" "linked GENESIS_CHAIN_HASH ?n"
    using old new by (simp_all add: walk_chain_clean)
  let ?bo = "map row_bytes (take (Suc i) ?o)" and ?bn = "map row_bytes (take (Suc i) ?n)"
  have f: "fold_digest sha256 chain_pre GENESIS_CHAIN_HASH ?bo = fold_digest sha256 chain_pre GENESIS_CHAIN_HASH ?bn"
    using linked_nth [OF l(1) len(1)] linked_nth [OF l(2) len(2)] head by simp
  have a: "list_all2 (\<lambda>a b. True) ?bo ?bn"
    using len by (simp add: list_all2_conv_all_nth)
  from chain.fold_binding [OF a length_GENESIS length_GENESIS f]
  consider (eq) "?bo = ?bn"
    | (coll) "collision (fold_preimages sha256 chain_pre GENESIS_CHAIN_HASH ?bo)
        (fold_preimages sha256 chain_pre GENESIS_CHAIN_HASH ?bn)"
    unfolding collision_def by blast
  then show ?thesis
  proof cases
    case eq
    have "row_to_canonical_dict (?o ! j) = row_to_canonical_dict (?n ! j)" if "j < Suc i" for j
    proof -
      have "row_bytes (?o ! j) = row_bytes (?n ! j)" using map_take_nth [OF eq that] len by simp
      moreover have "j < length ?o" "j < length ?n" using that len by simp_all
      ultimately show ?thesis
        using linked_nth [OF l(1), of j] linked_nth [OF l(2), of j] by (metis row_canonical_inj)
    qed
    then have "map row_to_canonical_dict (take (Suc i) ?o) = map row_to_canonical_dict (take (Suc i) ?n)"
      using len by (intro nth_equalityI) simp_all
    then show ?thesis ..
  next
    case coll
    have "collision (chain_preimages ?o) (chain_preimages ?n)"
      by (rule collision_mono [OF coll])
        (simp_all add: chain_preimages_def fold_preimages_take flip: take_map)
    then show ?thesis ..
  qed
qed

theorem chain_tamper_evident_witness:
  "map row_to_canonical_dict (take 1 (by_id sample_log)) = map row_to_canonical_dict (take 1 (by_id (take 1 sample_log)))
    \<or> collision (chain_preimages (by_id sample_log)) (chain_preimages (by_id (take 1 sample_log)))"
  using chain_tamper_evident [OF sample_log_clean(1) sample_log_clean(2), of 0]
  unfolding take_sample_log by_id_sample_log by (simp add: sample_log_def Let_def)

subsection \<open>Which rows a walk reports\<close>

definition mismatch_ids :: "chain_mismatch list \<times> audit_error option \<Rightarrow> int list" where
  "mismatch_ids w = map cm_row_id (fst w)"

text \<open>The hash that the walk carries on with after some rows: the stored one of the last.\<close>

fun stored_tail :: "bytes \<Rightarrow> stored_row list \<Rightarrow> bytes" where
  "stored_tail p [] = p"
| "stored_tail p (r # rs) = stored_tail (case py_bytes ''chain_hash'' (sr_chain_hash r) of Inr b \<Rightarrow> b | Inl _ \<Rightarrow> p) rs"

lemma walk_rows_append:
  "snd (walk_rows True p xs) = None \<Longrightarrow>
    walk_rows True p (xs @ ys) = apfst ((@) (fst (walk_rows True p xs))) (walk_rows True (stored_tail p xs) ys)"
proof (induction xs arbitrary: p)
  case Nil
  then show ?case by (simp add: apfst_def map_prod_def split: prod.splits)
next
  case (Cons x xs)
  then show ?case
    by (auto simp: Let_def apfst_compose comp_def split: sum.splits)
qed

lemma linked_stored_tail:
  "linked p xs \<Longrightarrow> stored_tail p xs = fold_digest sha256 chain_pre p (map row_bytes xs)"
  by (induction xs arbitrary: p) (auto simp: row_bytes_Inr split: sum.splits)

lemma walk_rows_ids: "set (map cm_row_id (fst (walk_rows full p xs))) \<subseteq> sr_id ` set xs"
proof (induction xs arbitrary: p)
  case Nil
  then show ?case by simp
next
  case (Cons x xs)
  have ih: "cm_row_id m \<in> sr_id ` set xs" if "m \<in> set (fst (walk_rows full q xs))" for m q
    using Cons.IH [of q] that by auto
  then show ?case by (auto simp: Let_def dest: ih split: sum.splits if_splits)
qed

lemma walk_rows_serial_independent:
  "linked h ys \<Longrightarrow> length h = 32 \<Longrightarrow> walk_rows full h ys = ([], None)"
  by (simp add: walk_rows_clean)

text \<open>One row with a well-sized hash: at most that row is reported, and no exception.\<close>

lemma walk_rows_one:
  assumes "py_bytes ''chain_hash'' (sr_chain_hash r) = Inr h" "length p = 32"
    and "\<And>e. row_canonical r = Inl e \<Longrightarrow> is_value_error e"
  shows "\<exists>ms. walk_rows True p [r] = (ms, None) \<and> set (map cm_row_id ms) \<subseteq> {sr_id r}"
  using assms by (auto simp: Let_def compute_chain_hash_def CHAIN_HASH_SIZE_def split: sum.splits)

lemma stored_tail_one: "py_bytes ''chain_hash'' (sr_chain_hash r) = Inr h \<Longrightarrow> stored_tail p [r] = h"
  by simp

text \<open>After a replaced row the walk is back on the clean chain one row later.\<close>

lemma walk_rows_resume:
  assumes l: "linked p (r # ys)" and h: "length h = 32"
  shows "\<exists>ms. walk_rows True h ys = (ms, None) \<and> set (map cm_row_id ms) \<subseteq> sr_id ` set (take 1 ys)"
proof (cases ys)
  case Nil
  then show ?thesis by simp
next
  case (Cons y zs)
  from l obtain c c' where c: "row_canonical y = Inr c'"
    "py_bytes ''chain_hash'' (sr_chain_hash y) = Inr (sha256 (chain_pre (sha256 (chain_pre p c)) c'))"
    "linked (sha256 (chain_pre (sha256 (chain_pre p c)) c')) zs"
    by (auto simp: Cons split: sum.splits)
  obtain ms where ms: "walk_rows True h [y] = (ms, None)" "set (map cm_row_id ms) \<subseteq> {sr_id y}"
    using walk_rows_one [OF c(2) h] c(1) by auto
  have "walk_rows True h ([y] @ zs) = (ms, None)"
    using walk_rows_append [of h "[y]" zs] ms(1) stored_tail_one [OF c(2)]
      walk_rows_serial_independent [OF c(3)] by (simp del: walk_rows.simps)
  then show ?thesis using ms(2) by (simp add: Cons)
qed

lemma linked_length_tail: "linked p xs \<Longrightarrow> length p = 32 \<Longrightarrow> length (stored_tail p xs) = 32"
  by (simp add: linked_stored_tail chain.fold_size)

lemma walk_replaced_row:
  assumes l: "linked p (xs @ r # ys)" and p: "length p = 32"
    and h: "py_bytes ''chain_hash'' (sr_chain_hash r') = Inr h" "length h = 32"
    and c: "\<And>e. row_canonical r' = Inl e \<Longrightarrow> is_value_error e"
  shows "\<exists>ms. walk_rows True p (xs @ r' # ys) = (ms, None)
    \<and> set (map cm_row_id ms) \<subseteq> insert (sr_id r') (sr_id ` set (take 1 ys))"
proof -
  have lx: "linked p xs" and ly: "linked (stored_tail p xs) (r # ys)"
    using l by (auto simp: linked_append linked_stored_tail)
  obtain m1 where m1: "walk_rows True (stored_tail p xs) [r'] = (m1, None)" "set (map cm_row_id m1) \<subseteq> {sr_id r'}"
    using walk_rows_one [OF h(1) linked_length_tail [OF lx p] c] by auto
  obtain m2 where m2: "walk_rows True h ys = (m2, None)" "set (map cm_row_id m2) \<subseteq> sr_id ` set (take 1 ys)"
    using walk_rows_resume [OF ly h(2)] by auto
  have "walk_rows True (stored_tail p xs) ([r'] @ ys) = (m1 @ m2, None)"
    using walk_rows_append [of "stored_tail p xs" "[r']" ys] m1(1) m2(1) stored_tail_one [OF h(1)]
    by (simp del: walk_rows.simps)
  moreover have "walk_rows True p xs = ([], None)" using walk_rows_clean [OF p] lx by simp
  ultimately have "walk_rows True p (xs @ r' # ys) = (m1 @ m2, None)"
    using walk_rows_append [of p xs "r' # ys"] by simp
  then show ?thesis using m1(2) m2(2) by auto
qed

text \<open>Replacing a row in place commutes with reading the table in id order.\<close>

definition replace_row :: "int \<Rightarrow> stored_row \<Rightarrow> audit_table \<Rightarrow> audit_table" where
  "replace_row n r' conn = map (\<lambda>r. if sr_id r = n then r' else r) conn"

lemma insort_key_map:
  "(\<And>x. f (g x) = f x) \<Longrightarrow> insort_key f (g x) (map g xs) = map g (insort_key f x xs)"
  by (induction xs) auto

lemma sort_key_map: "(\<And>x. f (g x) = f x) \<Longrightarrow> sort_key f (map g xs) = map g (sort_key f xs)"
  by (induction xs) (auto simp: insort_key_map)

lemma by_id_replace_row:
  assumes "sr_id r' = n"
  shows "by_id (replace_row n r' conn) = map (\<lambda>r. if sr_id r = n then r' else r) (by_id conn)"
  unfolding by_id_def replace_row_def by (rule sort_key_map) (simp add: assms)

lemma distinct_by_id: "distinct (map sr_id conn) \<Longrightarrow> distinct (map sr_id (by_id conn))"
proof -
  assume "distinct (map sr_id conn)"
  then have "distinct conn" "inj_on sr_id (set conn)" by (simp_all add: distinct_map)
  then show ?thesis by (simp add: by_id_def distinct_map)
qed

lemma by_id_split:
  assumes d: "distinct (map sr_id conn)" and r: "r \<in> set conn"
  obtains xs ys where "by_id conn = xs @ r # ys" "\<And>x. x \<in> set xs \<Longrightarrow> sr_id x < sr_id r"
    "\<And>y. y \<in> set ys \<Longrightarrow> sr_id r < sr_id y" "sorted (map sr_id ys)"
proof -
  have "r \<in> set (by_id conn)" using r by (simp add: by_id_def)
  then obtain xs ys where s: "by_id conn = xs @ r # ys" by (meson split_list)
  have "sorted_wrt (<) (map sr_id (by_id conn))"
    using distinct_by_id [OF d] by (simp add: strict_sorted_iff by_id_def)
  then have "sorted_wrt (<) (map sr_id xs @ sr_id r # map sr_id ys)" by (simp add: s)
  then have "\<forall>x \<in> set xs. sr_id x < sr_id r" "\<forall>y \<in> set ys. sr_id r < sr_id y" "sorted (map sr_id ys)"
    by (simp_all add: sorted_wrt_append strict_sorted_imp_sorted)
  then show ?thesis using that [OF s] by blast
qed

text \<open>C18: A tampered row is reported near where it is. Replace one row of an intact log by any row with the
  same id whose stored hash still has 32 bytes (and whose columns can be serialised or fail with a
  \<^verbatim>\<open>ValueError\<close>): the full walk finishes, and it reports no row but that one and its immediate
  successor. All later rows verify again, because the walk carries on with the stored hash.\<close>

theorem tamper_is_local:
  assumes clean: "walk_chain conn True None = ([], None)" and d: "distinct (map sr_id conn)"
    and r: "r \<in> set conn" "sr_id r' = sr_id r"
    and h: "py_bytes ''chain_hash'' (sr_chain_hash r') = Inr h" "length h = 32"
    and c: "\<And>e. row_canonical r' = Inl e \<Longrightarrow> is_value_error e"
  shows "snd (walk_chain (replace_row (sr_id r) r' conn) True None) = None \<and>
    (\<forall>n \<in> set (mismatch_ids (walk_chain (replace_row (sr_id r) r' conn) True None)).
       n = sr_id r \<or> (sr_id r < n \<and> \<not> (\<exists>q \<in> set conn. sr_id r < sr_id q \<and> sr_id q < n)))"
proof -
  obtain xs ys where s: "by_id conn = xs @ r # ys" "\<And>x. x \<in> set xs \<Longrightarrow> sr_id x < sr_id r"
    "\<And>y. y \<in> set ys \<Longrightarrow> sr_id r < sr_id y" "sorted (map sr_id ys)"
    using by_id_split [OF d r(1)] by blast
  have "map (\<lambda>q. if sr_id q = sr_id r then r' else q) xs = xs"
    "map (\<lambda>q. if sr_id q = sr_id r then r' else q) ys = ys"
    by (auto intro!: map_idI dest: s(2,3))
  then have w: "walk_chain (replace_row (sr_id r) r' conn) True None = walk_rows True GENESIS_CHAIN_HASH (xs @ r' # ys)"
    using by_id_replace_row [OF r(2)] by (simp add: walk_chain_def s(1) flip: by_id_def)
  have "linked GENESIS_CHAIN_HASH (xs @ r # ys)" using clean by (simp add: walk_chain_clean s(1))
  from walk_replaced_row [OF this length_GENESIS h c]
  obtain ms where ms: "walk_rows True GENESIS_CHAIN_HASH (xs @ r' # ys) = (ms, None)"
    "set (map cm_row_id ms) \<subseteq> insert (sr_id r') (sr_id ` set (take 1 ys))" by blast
  have first: "sr_id r < sr_id y \<and> \<not> (\<exists>q \<in> set conn. sr_id r < sr_id q \<and> sr_id q < sr_id y)"
    if y: "y \<in> set (take 1 ys)" for y
  proof -
    from y obtain zs where zs: "ys = y # zs" by (cases ys) auto
    have "set conn = set (by_id conn)" by (simp add: by_id_def)
    then have "set conn = set xs \<union> {r} \<union> set ys" by (simp add: s(1))
    then show ?thesis using s(2,3,4) zs by fastforce
  qed
  show ?thesis unfolding w ms(1) using ms(2) first by (auto simp: mismatch_ids_def r(2))
qed

definition sample_first :: stored_row where
  "sample_first = seal GENESIS_CHAIN_HASH (sample_row 1 ''find'')"

lemma sample_first_simps:
  "sample_first \<in> set sample_log" "sr_id sample_first = 1" "distinct (map sr_id sample_log)"
  by (simp_all add: sample_first_def sample_log_def Let_def)

definition forged_row :: stored_row where
  "forged_row = sample_row 1 ''forged'' (replicate 32 CHR 0x01)"

lemma forged_row_simps: "sr_id forged_row = 1"
  "py_bytes ''chain_hash'' (sr_chain_hash forged_row) = Inr (replicate 32 CHR 0x01)"
  "row_canonical forged_row \<noteq> Inl e"
  by (simp_all add: forged_row_def py_bytes_def row_canonical_sample)

lemma sample_log_successor:
  "q \<in> set sample_log \<Longrightarrow> 1 < sr_id q \<Longrightarrow> sr_id q = 2" "\<exists>q \<in> set sample_log. sr_id q = 2"
  by (auto simp: sample_log_def Let_def)

theorem tamper_is_local_witness:
  "snd (walk_chain (replace_row 1 forged_row sample_log) True None) = None \<and>
    set (mismatch_ids (walk_chain (replace_row 1 forged_row sample_log) True None)) \<subseteq> {n. n \<le> 2}"
proof -
  let ?w = "walk_chain (replace_row 1 forged_row sample_log) True None"
  have t: "snd ?w = None \<and> (\<forall>n \<in> set (mismatch_ids ?w). n = 1 \<or> (1 < n \<and> \<not> (\<exists>q \<in> set sample_log. 1 < sr_id q \<and> sr_id q < n)))"
    using tamper_is_local [OF sample_log_clean(1) sample_first_simps(3,1), of forged_row "replicate 32 CHR 0x01"]
    by (simp add: sample_first_simps(2) forged_row_simps)
  obtain q where "q \<in> set sample_log" "sr_id q = 2" using sample_log_successor(2) by blast
  with t have "n \<le> 2" if "n \<in> set (mismatch_ids ?w)" for n using that by (metis not_less one_less_numeral_iff one_le_numeral order.trans semiring_norm(76))
  then show ?thesis using t by blast
qed

text \<open>A row whose content was rewritten while all stored hashes were left alone is pinpointed: if its
  canonical bytes changed, the full walk reports exactly that row, with the digest the new content
  should have had, unless the old and the new content collide under sha256.\<close>

theorem content_tamper_pinpointed:
  assumes clean: "walk_chain conn True None = ([], None)" and d: "distinct (map sr_id conn)"
    and r: "r \<in> set conn" "sr_id r' = sr_id r" "sr_chain_hash r' = sr_chain_hash r"
    and c: "row_canonical r' = Inr c'" "row_canonical r \<noteq> Inr c'"
  shows "\<exists>prev c. row_canonical r = Inr c \<and>
    ((\<exists>e. walk_chain (replace_row (sr_id r) r' conn) True None =
        ([\<lparr>cm_row_id = sr_id r, cm_expected = Inr (hex_of (sha256 (chain_pre prev c'))), cm_actual_hex = hex_of e\<rparr>], None))
     \<or> collision [chain_pre prev c] [chain_pre prev c'])"
proof -
  obtain xs ys where s: "by_id conn = xs @ r # ys" "\<And>x. x \<in> set xs \<Longrightarrow> sr_id x < sr_id r"
    "\<And>y. y \<in> set ys \<Longrightarrow> sr_id r < sr_id y" "sorted (map sr_id ys)"
    using by_id_split [OF d r(1)] by blast
  have "map (\<lambda>q. if sr_id q = sr_id r then r' else q) xs = xs"
    "map (\<lambda>q. if sr_id q = sr_id r then r' else q) ys = ys"
    by (auto intro!: map_idI dest: s(2,3))
  then have w: "walk_chain (replace_row (sr_id r) r' conn) True None = walk_rows True GENESIS_CHAIN_HASH (xs @ r' # ys)"
    using by_id_replace_row [OF r(2)] by (simp add: walk_chain_def s(1) flip: by_id_def)
  have l: "linked GENESIS_CHAIN_HASH xs" "linked (stored_tail GENESIS_CHAIN_HASH xs) (r # ys)"
    using clean by (auto simp: walk_chain_clean s(1) linked_append linked_stored_tail)
  let ?p = "stored_tail GENESIS_CHAIN_HASH xs"
  obtain c where cr: "row_canonical r = Inr c" "py_bytes ''chain_hash'' (sr_chain_hash r) = Inr (sha256 (chain_pre ?p c))"
    "linked (sha256 (chain_pre ?p c)) ys"
    using l(2) by (auto split: sum.splits)
  have p: "length ?p = 32" using linked_length_tail [OF l(1)] by simp
  show ?thesis
  proof (cases "sha256 (chain_pre ?p c') = sha256 (chain_pre ?p c)")
    case True
    then have "collision [chain_pre ?p c] [chain_pre ?p c']"
      using c(2) cr(1) by (auto simp: collision_def chain_pre_def)
    then show ?thesis using cr(1) by blast
  next
    case False
    have "walk_rows True ?p (r' # ys) = ([\<lparr>cm_row_id = sr_id r, cm_expected = Inr (hex_of (sha256 (chain_pre ?p c'))),
        cm_actual_hex = hex_of (sha256 (chain_pre ?p c))\<rparr>], None)"
      using False c(1) cr(2) r walk_rows_serial_independent [OF cr(3)] p
      by (simp add: compute_chain_hash_def CHAIN_HASH_SIZE_def Let_def chain_pre_def)
    moreover have "walk_rows True GENESIS_CHAIN_HASH xs = ([], None)" using walk_rows_clean l(1) by simp
    ultimately show ?thesis using walk_rows_append [of GENESIS_CHAIN_HASH xs "r' # ys"] cr(1) unfolding w by auto
  qed
qed

text \<open>Stopping at the first mismatch reports exactly the first mismatch of the full walk, and nothing
  when the full walk reports nothing.\<close>

theorem walk_stops_at_first:
  "fst (walk_chain conn False start) = take 1 (fst (walk_chain conn True start))"
proof -
  have "fst (walk_rows False p rows) = take 1 (fst (walk_rows True p rows))" for p rows
    by (induction rows arbitrary: p) (auto simp: Let_def split: sum.splits)
  then show ?thesis by (auto simp: walk_chain_def split: option.splits sum.splits)
qed

lemma walk_rows_prefix_ok: "snd (walk_rows True p (us @ vs)) = None \<Longrightarrow> snd (walk_rows True p us) = None"
  by (induction us arbitrary: p) (auto simp: Let_def split: sum.splits if_splits)

lemma walk_rows_snoc_bytes:
  "snd (walk_rows True p (xs @ [r])) = None \<Longrightarrow>
    \<exists>b. py_bytes ''chain_hash'' (sr_chain_hash r) = Inr b \<and> stored_tail p (xs @ [r]) = b"
  by (induction xs arbitrary: p) (auto simp: Let_def split: sum.splits if_splits)

text \<open>A walk from a cursor row sees exactly what the walk from genesis sees after that row: the
  mismatches with a larger id, no more and no fewer. It trusts the cursor's stored hash, which is the
  same value the full walk carries on with.\<close>

theorem since_walk_is_suffix:
  assumes whole: "snd (walk_chain conn True None) = None" and d: "distinct (map sr_id conn)"
    and n: "n \<in> sr_id ` set conn"
  shows "walk_chain conn True (Some n) = (filter (\<lambda>m. n < cm_row_id m) (fst (walk_chain conn True None)), None)"
proof -
  obtain r where r: "r \<in> set conn" "sr_id r = n" using n by blast
  obtain xs ys where s: "by_id conn = xs @ r # ys" "\<And>x. x \<in> set xs \<Longrightarrow> sr_id x < sr_id r"
    "\<And>y. y \<in> set ys \<Longrightarrow> sr_id r < sr_id y" "sorted (map sr_id ys)"
    using by_id_split [OF d r(1)] by blast
  have "filter (\<lambda>q. n < sr_id q) xs = []" "filter (\<lambda>q. n < sr_id q) ys = ys"
    using r(2) by (auto simp: filter_empty_conv dest: s(2) intro!: filter_True s(3))
  then have "filter (\<lambda>q. n < sr_id q) (by_id conn) = ys" using r(2) by (simp add: s(1))
  then have suffix: "sort_key sr_id (filter (\<lambda>q. n < sr_id q) conn) = ys" by (simp add: by_id_def filter_sort)
  have f: "find (\<lambda>q. sr_id q = n) conn = Some r"
  proof -
    obtain q where q: "find (\<lambda>q. sr_id q = n) conn = Some q"
      using r by (cases "find (\<lambda>q. sr_id q = n) conn") (auto simp: find_None_iff)
    then have "q \<in> set conn" "sr_id q = n" by (auto simp: find_Some_iff)
    then show ?thesis using q r d by (metis distinct_map inj_onD)
  qed
  have w: "walk_chain conn True None = walk_rows True GENESIS_CHAIN_HASH ((xs @ [r]) @ ys)"
    by (simp add: walk_chain_def s(1) flip: by_id_def)
  have ok: "snd (walk_rows True GENESIS_CHAIN_HASH (xs @ [r])) = None"
    using whole unfolding w by (rule walk_rows_prefix_ok)
  obtain b where b: "py_bytes ''chain_hash'' (sr_chain_hash r) = Inr b" "stored_tail GENESIS_CHAIN_HASH (xs @ [r]) = b"
    using walk_rows_snoc_bytes [OF ok] by blast
  let ?pre = "fst (walk_rows True GENESIS_CHAIN_HASH (xs @ [r]))" and ?post = "walk_rows True b ys"
  have full: "walk_chain conn True None = apfst ((@) ?pre) ?post"
    unfolding w using walk_rows_append [OF ok, of ys] b(2) by simp
  have "filter (\<lambda>m. n < cm_row_id m) ?pre = []"
    using walk_rows_ids [of True GENESIS_CHAIN_HASH "xs @ [r]"] s(2) r(2) by (fastforce simp: filter_empty_conv)
  moreover have "filter (\<lambda>m. n < cm_row_id m) (fst ?post) = fst ?post"
    using walk_rows_ids [of True b ys] s(3) r(2) by (intro filter_True) fastforce
  ultimately have "filter (\<lambda>m. n < cm_row_id m) (fst (walk_chain conn True None)) = fst ?post"
    unfolding full by (cases ?post) simp
  moreover have "snd ?post = None" using whole unfolding full by (cases ?post) simp
  ultimately show ?thesis unfolding walk_chain_def by (simp add: f b(1) suffix prod_eq_iff)
qed

lemma forged_walk_ok: "snd (walk_chain (replace_row 1 forged_row sample_log) True None) = None"
proof -
  let ?h = "sealed_hash GENESIS_CHAIN_HASH (sample_row 1 ''find'')"
  have "linked GENESIS_CHAIN_HASH ([] @ sample_first # [seal ?h (sample_row 2 ''get'')])"
    by (simp only: sample_first_def append.simps linked_sample linked.simps(1))
  from walk_replaced_row [OF this length_GENESIS forged_row_simps(2)]
  have "snd (walk_rows True GENESIS_CHAIN_HASH (forged_row # [seal ?h (sample_row 2 ''get'')])) = None"
    by (auto simp: forged_row_simps)
  moreover have "by_id (replace_row 1 forged_row sample_log) = forged_row # [seal ?h (sample_row 2 ''get'')]"
    by (simp add: by_id_def replace_row_def sample_log_def Let_def forged_row_simps)
  ultimately show ?thesis by (simp add: walk_chain_def flip: by_id_def)
qed

theorem since_walk_is_suffix_witness:
  "walk_chain (replace_row 1 forged_row sample_log) True (Some 1) =
    (filter (\<lambda>m. 1 < cm_row_id m) (fst (walk_chain (replace_row 1 forged_row sample_log) True None)), None)"
  by (rule since_walk_is_suffix [OF forged_walk_ok])
    (simp_all add: replace_row_def sample_log_def Let_def forged_row_simps)

definition rewritten_row :: stored_row where
  "rewritten_row = sample_row 1 ''forged'' (sealed_hash GENESIS_CHAIN_HASH (sample_row 1 ''find''))"

lemma rewritten_row_simps: "sr_id rewritten_row = sr_id sample_first"
  "sr_chain_hash rewritten_row = sr_chain_hash sample_first"
  by (simp_all add: rewritten_row_def sample_first_def seal_def sealed_hash_def)

lemma rewritten_row_differs: "row_canonical sample_first \<noteq> row_canonical rewritten_row"
proof
  assume "row_canonical sample_first = row_canonical rewritten_row"
  then have "row_to_canonical_dict sample_first = row_to_canonical_dict rewritten_row"
    using row_canonical_inj row_canonical_sample by (metis rewritten_row_def)
  then show False
    by (simp add: sample_first_def seal_def rewritten_row_def sample_row_def typed_row_dict typed_dict_def)
qed

theorem content_tamper_pinpointed_witness:
  "\<exists>c' prev c. row_canonical sample_first = Inr c \<and>
    ((\<exists>e. walk_chain (replace_row 1 rewritten_row sample_log) True None =
        ([\<lparr>cm_row_id = 1, cm_expected = Inr (hex_of (sha256 (chain_pre prev c'))), cm_actual_hex = hex_of e\<rparr>], None))
     \<or> collision [chain_pre prev c] [chain_pre prev c'])"
proof -
  obtain c' where c': "row_canonical rewritten_row = Inr c'"
    using row_canonical_sample by (simp add: rewritten_row_def)
  show ?thesis
    using content_tamper_pinpointed [OF sample_log_clean(1) sample_first_simps(3,1) rewritten_row_simps c']
      rewritten_row_differs c' by (auto simp: sample_first_simps(2))
qed

subsection \<open>An exception that is not caught\<close>

text \<open>The walk ends with an exception, instead of a mismatch, at a row whose serialisation fails with a
  \<^verbatim>\<open>TypeError\<close>; a BLOB in a text column, which SQLite stores as it is, does that. Nothing is yielded for
  that row, and no later row is looked at.\<close>

theorem walk_raises_on_type_error:
  assumes "linked prev xs" "length prev = 32" "row_canonical r = Inl e" "\<not> is_value_error e"
    "py_bytes ''chain_hash'' (sr_chain_hash r) = Inr h"
  shows "walk_rows full prev (xs @ r # ys) = ([], Some e)"
  using assms(1,2)
proof (induction xs arbitrary: prev)
  case Nil
  then show ?case using assms(3-5) by simp
next
  case (Cons x xs)
  then show ?case
    by (auto simp: compute_chain_hash_def CHAIN_HASH_SIZE_def chain_pre_def split: sum.splits)
qed

definition blob_row :: stored_row where
  "blob_row = (sample_row 3 ''find'' (replicate 32 CHR 0x00))\<lparr>sr_tool_name := PBytes ''x''\<rparr>"

theorem walk_raises_on_type_error_witness:
  "walk_rows True GENESIS_CHAIN_HASH ([] @ blob_row # []) = ([], Some (NotSerializable ''tool_name''))"
proof (rule walk_raises_on_type_error)
  show "row_canonical blob_row = Inl (NotSerializable ''tool_name'')"
    by (simp add: row_canonical_def row_to_canonical_dict_def ROW_COLUMNS_def blob_row_def sample_row_def typed_row_def
        py_bytes_def pv_text_def pv_blob_def canonical_audit_row_def canonical_payload_def AUDIT_ROW_FIELDS_def
        canonical_field_def hex_bytes_def NULLABLE_def BINARY_def FINGERPRINT_BYTES_def AST_SHAPE_HASH_BYTES_def Let_def)
qed (simp_all add: blob_row_def py_bytes_def)

subsection \<open>The cursor of a partial walk\<close>

text \<open>
  \<open>resolve_since_cursor\<close> maps a \<^verbatim>\<open>--since\<close> argument to the id of a trusted row. The parameter
  \<open>threshold_of\<close> is \<^verbatim>\<open>parse_since\<close> followed by \<^verbatim>\<open>strftime\<close>: date arithmetic of the standard library,
  giving a threshold text in the format of \<^verbatim>\<open>occurred_at\<close>.
\<close>

datatype since_error =
    NoSuchPrefix string | AmbiguousPrefix string int int | NoRowBefore string | MalformedSince string

definition is_hex_prefix :: "string \<Rightarrow> bool" where
  "is_hex_prefix since \<longleftrightarrow> 8 \<le> length since
     \<and> list_all (\<lambda>c. is_digit c \<or> (CHR ''a'' \<le> c \<and> c \<le> CHR ''f'')) since"

text \<open>\<^verbatim>\<open>lower(hex(v))\<close> and \<^verbatim>\<open>v < text\<close> as SQLite evaluates them on a stored value.\<close>

fun sql_lower_hex :: "pyval \<Rightarrow> string" where
  "sql_lower_hex PNone = []"
| "sql_lower_hex (PInt i) = hex_of (dec_of_int i)"
| "sql_lower_hex (PStr s) = hex_of s"
| "sql_lower_hex (PBytes b) = hex_of b"

fun sql_text_less :: "pyval \<Rightarrow> string \<Rightarrow> bool" where
  "sql_text_less PNone t = False"
| "sql_text_less (PInt i) t = True"
| "sql_text_less (PStr s) t = (s < t)"
| "sql_text_less (PBytes b) t = False"

definition resolve_since_cursor ::
  "(string \<Rightarrow> since_error + string) \<Rightarrow> audit_table \<Rightarrow> string \<Rightarrow> since_error + int" where
  "resolve_since_cursor threshold_of conn since =
     (if is_hex_prefix since then
        (case take 2 (sort_key sr_id (filter (\<lambda>r. starts_with since (sql_lower_hex (sr_chain_hash r))) conn)) of
           [] \<Rightarrow> Inl (NoSuchPrefix since)
         | [r] \<Rightarrow> Inr (sr_id r)
         | r # q # _ \<Rightarrow> Inl (AmbiguousPrefix since (sr_id r) (sr_id q)))
      else rbind (threshold_of since) (\<lambda>threshold_iso.
        case rev (sort_key sr_id (filter (\<lambda>r. sql_text_less (sr_occurred_at r) threshold_iso) conn)) of
          [] \<Rightarrow> Inl (NoRowBefore since)
        | r # _ \<Rightarrow> Inr (sr_id r)))"

text \<open>A hash prefix resolves to a row exactly if it is the prefix of one stored hash only: no match and
  several matches are errors, never an arbitrary choice.\<close>

theorem since_prefix_unique:
  assumes "is_hex_prefix since"
  shows "resolve_since_cursor threshold_of conn since = Inr n \<longleftrightarrow>
    map sr_id (filter (\<lambda>r. starts_with since (sql_lower_hex (sr_chain_hash r))) conn) = [n]"
proof -
  let ?m = "filter (\<lambda>r. starts_with since (sql_lower_hex (sr_chain_hash r))) conn"
  show ?thesis
  proof (cases "length ?m = 1")
    case True
    then obtain r where "?m = [r]" by (auto simp: length_Suc_conv)
    then show ?thesis using assms by (simp add: resolve_since_cursor_def)
  next
    case False
    then have l: "take 2 (sort_key sr_id ?m) \<noteq> [r]" for r
      by (auto dest!: arg_cong [of _ "[r]" length] simp: min_def split: if_splits)
    then have "resolve_since_cursor threshold_of conn since \<noteq> Inr n"
      using assms by (auto simp: resolve_since_cursor_def l split: list.splits)
    moreover have "map sr_id ?m \<noteq> [n]" using False by (metis length_map length_Cons list.size(3) One_nat_def)
    ultimately show ?thesis by blast
  qed
qed

lemma forged_row_prefix: "starts_with ''01010101'' (sql_lower_hex (sr_chain_hash forged_row))"
  by code_simp

theorem since_prefix_unique_witness:
  "resolve_since_cursor (\<lambda>t. Inl (MalformedSince t)) [forged_row] ''01010101'' = Inr 1"
  by (subst since_prefix_unique) (simp_all add: is_hex_prefix_def is_digit_def forged_row_prefix forged_row_simps)

text \<open>A time cursor cuts the log at the threshold when the clock never ran backwards: if
  \<^verbatim>\<open>occurred_at\<close> is text and grows with the id, the rows that the partial walk visits are exactly the rows
  at or after the threshold. Without that hypothesis the cursor is the row with the largest id before the
  threshold, and rows at or after the threshold with smaller ids are skipped.\<close>

theorem since_threshold_cuts:
  assumes spec: "\<not> is_hex_prefix since" "threshold_of since = Inr t"
    and res: "resolve_since_cursor threshold_of conn since = Inr n"
    and text_times: "\<And>r. r \<in> set conn \<Longrightarrow> \<exists>s. sr_occurred_at r = PStr s"
    and mono: "\<And>r q s u. r \<in> set conn \<Longrightarrow> q \<in> set conn \<Longrightarrow> sr_id r \<le> sr_id q \<Longrightarrow>
      sr_occurred_at r = PStr s \<Longrightarrow> sr_occurred_at q = PStr u \<Longrightarrow> s \<le> u"
    and r: "r \<in> set conn"
  shows "n < sr_id r \<longleftrightarrow> (\<exists>s. sr_occurred_at r = PStr s \<and> t \<le> s)"
proof -
  let ?m = "sort_key sr_id (filter (\<lambda>r. sql_text_less (sr_occurred_at r) t) conn)"
  obtain q qs where q: "rev ?m = q # qs" "n = sr_id q"
    using res spec by (auto simp: resolve_since_cursor_def split: list.splits)
  then have m: "?m = rev qs @ [q]" by (simp add: rev_eq_Cons_iff)
  have "q \<in> set ?m" by (simp only: m) simp
  then have qin: "q \<in> set conn" "sql_text_less (sr_occurred_at q) t" by auto
  have "sorted (map sr_id ?m)" by simp
  then have top: "sr_id x \<le> sr_id q" if "x \<in> set ?m" for x
    using that unfolding m by (auto simp: sorted_append)
  obtain s u where s: "sr_occurred_at r = PStr s" and u: "sr_occurred_at q = PStr u" "u < t"
    using text_times [OF r] text_times [OF qin(1)] qin(2) by auto
  show ?thesis
  proof
    assume "n < sr_id r"
    then have "r \<notin> set ?m" using top q(2) by fastforce
    then show "\<exists>s. sr_occurred_at r = PStr s \<and> t \<le> s" using r s by auto
  next
    assume "\<exists>s. sr_occurred_at r = PStr s \<and> t \<le> s"
    then have "u < s" using s u by auto
    then show "n < sr_id r" using mono [OF r qin(1) _ s u(1)] q(2) by (meson not_le)
  qed
qed

definition timed_row :: "int \<Rightarrow> string \<Rightarrow> stored_row" where
  "timed_row n t = (sample_row n ''find'' [])\<lparr>sr_occurred_at := PStr t\<rparr>"

theorem since_threshold_cuts_witness:
  "1 < sr_id (timed_row 2 ''2026-02'') \<longleftrightarrow> (\<exists>s. sr_occurred_at (timed_row 2 ''2026-02'') = PStr s \<and> ''2026-02'' \<le> s)"
  by (rule since_threshold_cuts [of "''2026-02''" "\<lambda>t. Inr t" "''2026-02''" "[timed_row 1 ''2026-01'', timed_row 2 ''2026-02'']"])
    (auto simp: is_hex_prefix_def resolve_since_cursor_def timed_row_def split: if_splits)

end
