(* ===== verification/AuditWriter.thy ===== *)
theory AuditWriter
  imports AuditChain
begin

section \<open>The audit writer (audit/writer.py, audit/ddl.py)\<close>

text \<open>
  The draft of a row taken from a tool response, the table's \<^verbatim>\<open>CHECK\<close> constraints, and the writer
  object: an open or closed connection and the cached hash of the last row. \<open>write_row\<close> is the one
  mutating operation; what the environment decides (the clock, whether the commit succeeds) is an
  argument. The lemmas show that a single writer keeps the chain verifying, and what two do.
\<close>

subsection \<open>From a response to a draft\<close>

datatype audit_status = Success | Empty | Partial | Degraded | Error | RefusedStatus

fun status_name :: "audit_status \<Rightarrow> string" where
  "status_name Success = ''success''"
| "status_name Empty = ''empty''"
| "status_name Partial = ''partial''"
| "status_name Degraded = ''degraded''"
| "status_name Error = ''error''"
| "status_name RefusedStatus = ''refused''"

definition ALLOWED_STATUSES :: "audit_status list" where
  "ALLOWED_STATUSES = [Success, Empty, Partial, Degraded, Error, RefusedStatus]"

text \<open>
  What the helpers read off a response with \<^verbatim>\<open>getattr(..., None)\<close>: a missing attribute is \<open>None\<close>,
  a missing or falsy \<^verbatim>\<open>pii_categories\<close> the empty list. A status that is no text is \<open>None\<close> as well,
  it is in no case among the allowed ones.
\<close>

record response_error =
  re_kind :: "string option"
  re_pii_categories :: "pii_category list"
  re_anchor_entity :: "string option"

record response =
  rs_status :: "string option"
  rs_data :: "pii_category list option"
  rs_error :: "response_error option"

record draft =
  dr_source_connection_id :: string
  dr_caller_id :: "string option"
  dr_tool_name :: string
  dr_status :: audit_status
  dr_refusal_reason :: "refusal_reason option"
  dr_cost_class :: cost_class
  dr_pii_categories :: "pii_category set"
  dr_ast_shape_hash :: "bytes option"
  dr_rule_id :: "string option"
  dr_fingerprint_version :: string
  dr_anchor_entity :: "string option"

definition extract_pii_categories :: "response \<Rightarrow> pii_category set" where
  "extract_pii_categories response =
     (let from_error = (case rs_error response of
            Some e \<Rightarrow> if re_pii_categories e \<noteq> [] then set (re_pii_categories e) else {}
          | None \<Rightarrow> {})
      in case rs_data response of
           Some categories \<Rightarrow> if categories \<noteq> [] then set categories else from_error
         | None \<Rightarrow> from_error)"

definition extract_refusal_reason :: "response \<Rightarrow> audit_status \<Rightarrow> refusal_reason option" where
  "extract_refusal_reason response status =
     (if status \<noteq> RefusedStatus then None
      else case rs_error response of
             None \<Rightarrow> None
           | Some e \<Rightarrow> if re_kind e = Some ''pii_blocked'' then Some Pii_Blocked else None)"

definition extract_anchor_entity :: "response \<Rightarrow> string option" where
  "extract_anchor_entity response =
     (case rs_error response of None \<Rightarrow> None | Some e \<Rightarrow> re_anchor_entity e)"

definition build_audit_row :: "string \<Rightarrow> string \<Rightarrow> response \<Rightarrow> draft" where
  "build_audit_row tool_name source_connection_id response =
     (let status = (case find (\<lambda>s. Some (status_name s) = rs_status response) ALLOWED_STATUSES of
                      Some s \<Rightarrow> s | None \<Rightarrow> Error)
      in \<lparr>dr_source_connection_id = source_connection_id, dr_caller_id = None, dr_tool_name = tool_name,
          dr_status = status, dr_refusal_reason = extract_refusal_reason response status,
          dr_cost_class = (if status = RefusedStatus then Refused else Small),
          dr_pii_categories = extract_pii_categories response, dr_ast_shape_hash = None, dr_rule_id = None,
          dr_fingerprint_version = FINGERPRINT_VERSION, dr_anchor_entity = extract_anchor_entity response\<rparr>)"

definition encode_pii_categories_csv :: "pii_category set \<Rightarrow> string" where
  "encode_pii_categories_csv categories = join_str '','' (sorted_category_names categories)"

subsection \<open>The table's constraints\<close>

text \<open>The \<^verbatim>\<open>NOT NULL\<close> and \<^verbatim>\<open>CHECK\<close> clauses of the DDL, and the primary key.\<close>

definition STATUS_CHECK :: "string list" where
  "STATUS_CHECK = [''success'', ''empty'', ''partial'', ''degraded'', ''error'', ''refused'']"

definition REFUSAL_CHECK :: "string list" where
  "REFUSAL_CHECK = [''pii_blocked'', ''allowlist_violation'', ''fragment_unsafe'', ''cost_cap_exceeded'',
     ''ambiguous_resolution'', ''schema_drift'']"

definition COST_CHECK :: "string list" where
  "COST_CHECK = [''small'', ''medium'', ''large'', ''refused'']"

definition ddl_accepts :: "audit_table \<Rightarrow> stored_row \<Rightarrow> bool" where
  "ddl_accepts db r \<longleftrightarrow>
     sr_id r \<notin> sr_id ` set db
     \<and> PNone \<notin> {sr_occurred_at r, sr_source_connection_id r, sr_tool_name r, sr_status r, sr_cost_class r,
                sr_pii_categories r, sr_fingerprint r, sr_fingerprint_version r, sr_chain_hash r}
     \<and> sr_status r \<in> PStr ` set STATUS_CHECK
     \<and> (sr_refusal_reason r = PNone \<or> sr_refusal_reason r \<in> PStr ` set REFUSAL_CHECK)
     \<and> sr_cost_class r \<in> PStr ` set COST_CHECK"

text \<open>The statements the schema lets through: an insert that satisfies the constraints; the triggers
  abort every update and delete.\<close>

datatype sql_statement = Insert stored_row | Update int stored_row | Delete int

definition run_statement :: "audit_table \<Rightarrow> sql_statement \<Rightarrow> audit_table option" where
  "run_statement db stmt =
     (case stmt of
        Insert r \<Rightarrow> if ddl_accepts db r then Some (db @ [r]) else None
      | Update n r \<Rightarrow> if n \<in> sr_id ` set db then None else Some db
      | Delete n \<Rightarrow> if n \<in> sr_id ` set db then None else Some db)"

subsection \<open>The writer\<close>

datatype write_error = Closed | Audit audit_error | IntegrityError | CommitFailed

record audit_writer =
  aw_open :: bool
  aw_last_chain_hash :: bytes

definition max_row :: "audit_table \<Rightarrow> stored_row option" where
  "max_row db = (case rev (by_id db) of [] \<Rightarrow> None | r # _ \<Rightarrow> Some r)"

definition load_tail_chain_hash :: "audit_table \<Rightarrow> audit_error + bytes" where
  "load_tail_chain_hash db =
     (case max_row db of
        None \<Rightarrow> Inr GENESIS_CHAIN_HASH
      | Some r \<Rightarrow>
          rbind (py_bytes ''chain_hash'' (sr_chain_hash r)) (\<lambda>raw.
            if length raw \<noteq> CHAIN_HASH_SIZE then Inl (CorruptTailHash (sr_id r) (length raw)) else Inr raw))"

definition open_writer :: "audit_table \<Rightarrow> audit_error + audit_writer" where
  "open_writer db = rbind (load_tail_chain_hash db) (\<lambda>h. Inr \<lparr>aw_open = True, aw_last_chain_hash = h\<rparr>)"

definition close_writer :: "audit_writer \<Rightarrow> audit_writer" where
  "close_writer w = w\<lparr>aw_open := False\<rparr>"

definition next_row_id :: "audit_table \<Rightarrow> int" where
  "next_row_id db = (case max_row db of None \<Rightarrow> 0 | Some r \<Rightarrow> sr_id r) + 1"

definition draft_fingerprint :: "draft \<Rightarrow> bytes" where
  "draft_fingerprint d = compute_fingerprint
     \<lparr>fi_ast_shape_hash = dr_ast_shape_hash d, fi_pii_tags_touched = dr_pii_categories d,
      fi_refusal_reason = dr_refusal_reason d, fi_cost_class = dr_cost_class d, fi_rule_id = dr_rule_id d\<rparr>"

definition draft_dict :: "draft \<Rightarrow> int \<Rightarrow> string \<Rightarrow> audit_dict" where
  "draft_dict d n occurred_at =
     typed_dict n occurred_at (dr_source_connection_id d) (dr_caller_id d) (dr_tool_name d)
       (status_name (dr_status d)) (map_option reason_name (dr_refusal_reason d)) (cost_name (dr_cost_class d))
       (encode_pii_categories_csv (dr_pii_categories d)) (dr_ast_shape_hash d) (dr_rule_id d)
       (draft_fingerprint d) (dr_fingerprint_version d)"

definition draft_row :: "draft \<Rightarrow> int \<Rightarrow> string \<Rightarrow> bytes \<Rightarrow> stored_row" where
  "draft_row d n occurred_at chain_hash =
     typed_row n occurred_at (dr_source_connection_id d) (dr_caller_id d) (dr_tool_name d)
       (status_name (dr_status d)) (map_option reason_name (dr_refusal_reason d)) (cost_name (dr_cost_class d))
       (encode_pii_categories_csv (dr_pii_categories d)) (dr_ast_shape_hash d) (dr_rule_id d)
       (draft_fingerprint d) (dr_fingerprint_version d) chain_hash (dr_anchor_entity d)"

text \<open>The result is the new state of table and writer, and the row or the exception.\<close>

definition write_row :: "audit_writer \<Rightarrow> audit_table \<Rightarrow> string \<Rightarrow> bool \<Rightarrow> draft
    \<Rightarrow> audit_table \<times> audit_writer \<times> (write_error + stored_row)" where
  "write_row w db occurred_at commit_ok d =
     (if \<not> aw_open w then (db, w, Inl Closed)
      else
        (let next_id = next_row_id db in
         case rbind (canonical_audit_row (draft_dict d next_id occurred_at))
                (compute_chain_hash (aw_last_chain_hash w)) of
           Inl e \<Rightarrow> (db, w, Inl (Audit e))
         | Inr chain_hash \<Rightarrow>
             (let row = draft_row d next_id occurred_at chain_hash in
              case run_statement db (Insert row) of
                None \<Rightarrow> (db, w, Inl IntegrityError)
              | Some db' \<Rightarrow>
                  if \<not> commit_ok then (db, w, Inl CommitFailed)
                  else (db', w\<lparr>aw_last_chain_hash := chain_hash\<rparr>, Inr row))))"

subsection \<open>A single writer keeps the chain\<close>

lemma draft_row_canonical:
  "row_canonical (draft_row d n t h) = canonical_audit_row (draft_dict d n t)"
  by (simp add: row_canonical_def draft_row_def draft_dict_def typed_row_dict)

lemma draft_row_simps [simp]: "sr_id (draft_row d n t h) = n" "sr_chain_hash (draft_row d n t h) = PBytes h"
  "sr_occurred_at (draft_row d n t h) = PStr t"
  by (simp_all add: draft_row_def typed_row_def)

lemma draft_dict_canonical:
  "(\<And>a. dr_ast_shape_hash d = Some a \<Longrightarrow> length a = 32) \<Longrightarrow> \<exists>c. canonical_audit_row (draft_dict d n t) = Inr c"
  unfolding draft_dict_def by (rule typed_dict_canonical) (simp_all add: draft_fingerprint_def length_compute_fingerprint)

lemma by_id_snoc:
  assumes "\<And>r. r \<in> set db \<Longrightarrow> sr_id r \<le> sr_id q"
  shows "by_id (db @ [q]) = by_id db @ [q]"
proof -
  have "sorted (map sr_id (by_id db @ [q]))"
    using assms by (auto simp: sorted_append by_id_def)
  moreover have "insort_key sr_id x (ys @ [q]) = insort_key sr_id x ys @ [q]"
    if "sr_id x \<le> sr_id q" "sorted (map sr_id (ys @ [q]))" for x ys
    using that by (induction ys) auto
  ultimately show ?thesis using assms
  proof (induction db)
    case (Cons x db)
    have s: "sorted (map sr_id (by_id db @ [q]))"
      using Cons.prems(3) by (auto simp: sorted_append by_id_def)
    then have "by_id (db @ [q]) = by_id db @ [q]" using Cons.IH Cons.prems by simp
    then show ?case using Cons.prems s by (simp add: by_id_def)
  qed (simp add: by_id_def)
qed

lemma max_row_top: "max_row db = Some m \<Longrightarrow> r \<in> set db \<Longrightarrow> sr_id r \<le> sr_id m"
proof -
  assume m: "max_row db = Some m" and r: "r \<in> set db"
  then have "rev (by_id db) = m # tl (rev (by_id db))" by (auto simp: max_row_def split: list.splits)
  then have b: "by_id db = rev (tl (rev (by_id db))) @ [m]" by (metis rev_eq_Cons_iff)
  have "sorted (map sr_id (rev (tl (rev (by_id db))) @ [m]))" unfolding b [symmetric] by (simp add: by_id_def)
  moreover have "r \<in> set (rev (tl (rev (by_id db))) @ [m])" unfolding b [symmetric] using r by (simp add: by_id_def)
  ultimately show ?thesis by (auto simp: sorted_append)
qed

lemma max_row_None: "max_row db = None \<longleftrightarrow> db = []"
proof -
  have "by_id db = [] \<longleftrightarrow> db = []" by (metis by_id_def length_0_conv length_sort)
  then show ?thesis by (auto simp: max_row_def split: list.splits)
qed

lemma next_row_id_fresh: "r \<in> set db \<Longrightarrow> sr_id r < next_row_id db"
  using max_row_None [of db] max_row_top [of db] by (cases "max_row db") (auto simp: next_row_id_def)

lemma by_id_max_row: "max_row db = Some m \<Longrightarrow> \<exists>xs. by_id db = xs @ [m]"
  by (auto simp: max_row_def rev_eq_Cons_iff split: list.splits)

text \<open>On an intact table the stored tail is the digest of the whole chain.\<close>

lemma tail_of_linked:
  assumes "linked GENESIS_CHAIN_HASH (by_id db)"
  shows "load_tail_chain_hash db = Inr (stored_tail GENESIS_CHAIN_HASH (by_id db))"
proof (cases "max_row db")
  case None
  then have "db = []" by (simp add: max_row_None)
  then show ?thesis using None by (simp add: load_tail_chain_hash_def by_id_def)
next
  case (Some m)
  then obtain xs where xs: "by_id db = xs @ [m]" using by_id_max_row by blast
  then have "snd (walk_rows True GENESIS_CHAIN_HASH (xs @ [m])) = None"
    using assms walk_rows_serial_independent [OF _ length_GENESIS] by (simp del: walk_rows.simps)
  from walk_rows_snoc_bytes [OF this] xs Some linked_length_tail [OF assms]
  show ?thesis by (auto simp: load_tail_chain_hash_def CHAIN_HASH_SIZE_def)
qed

text \<open>The writer's invariant: the table is an intact chain and the cached hash is its tail.\<close>

definition in_sync :: "audit_writer \<Rightarrow> audit_table \<Rightarrow> bool" where
  "in_sync w db \<longleftrightarrow> linked GENESIS_CHAIN_HASH (by_id db) \<and> load_tail_chain_hash db = Inr (aw_last_chain_hash w)
     \<and> distinct (map sr_id db)"

lemma open_in_sync:
  "linked GENESIS_CHAIN_HASH (by_id db) \<Longrightarrow> distinct (map sr_id db) \<Longrightarrow> \<exists>w. open_writer db = Inr w \<and> aw_open w \<and> in_sync w db"
  by (simp add: open_writer_def tail_of_linked in_sync_def)

lemma status_in_check: "status_name s \<in> set STATUS_CHECK"
  by (cases s) (simp_all add: STATUS_CHECK_def)

lemma reason_in_check: "reason_name r \<in> set REFUSAL_CHECK"
  by (cases r) (simp_all add: REFUSAL_CHECK_def)

lemma cost_in_check: "cost_name c \<in> set COST_CHECK"
  by (cases c) (simp_all add: COST_CHECK_def)

lemma ddl_accepts_draft_row: "ddl_accepts db (draft_row d (next_row_id db) t h)"
proof -
  have "next_row_id db \<notin> sr_id ` set db" using next_row_id_fresh by force
  then show ?thesis
    by (cases "dr_refusal_reason d")
      (simp_all add: ddl_accepts_def draft_row_def typed_row_def pv_text_def status_in_check reason_in_check cost_in_check)
qed

lemma write_row_cases [consumes 2, case_names error abort wrote]:
  assumes "aw_open w" "length (aw_last_chain_hash w) = 32"
  obtains (error) e where "canonical_audit_row (draft_dict d (next_row_id db) t) = Inl e"
      "write_row w db t ok d = (db, w, Inl (Audit e))"
  | (abort) "\<not> ok" "write_row w db t ok d = (db, w, Inl CommitFailed)"
  | (wrote) c where "ok" "canonical_audit_row (draft_dict d (next_row_id db) t) = Inr c"
      "write_row w db t ok d =
        (let h = sha256 (chain_pre (aw_last_chain_hash w) c); r = draft_row d (next_row_id db) t h
         in (db @ [r], w\<lparr>aw_last_chain_hash := h\<rparr>, Inr r))"
proof (cases "canonical_audit_row (draft_dict d (next_row_id db) t)")
  case (Inl e)
  then show ?thesis using error assms by (simp add: write_row_def Let_def)
next
  case (Inr c)
  then show ?thesis using abort wrote assms ddl_accepts_draft_row
    by (cases ok) (simp_all add: write_row_def Let_def compute_chain_hash_def CHAIN_HASH_SIZE_def run_statement_def chain_pre_def)
qed

lemma write_row_Inr:
  assumes "aw_open w" "length (aw_last_chain_hash w) = 32" "write_row w db t ok d = (db', w', Inr r)"
  shows "\<exists>c. canonical_audit_row (draft_dict d (next_row_id db) t) = Inr c \<and> db' = db @ [r] \<and>
    r = draft_row d (next_row_id db) t (sha256 (chain_pre (aw_last_chain_hash w) c)) \<and>
    aw_last_chain_hash w' = sha256 (chain_pre (aw_last_chain_hash w) c)"
  using assms(1,2)
proof (cases rule: write_row_cases [where d = d and db = db and t = t and ok = ok])
  case (wrote c)
  then show ?thesis using assms(3) by (auto simp: Let_def)
qed (use assms(3) in simp_all)

lemma in_sync_length: "in_sync w db \<Longrightarrow> length (aw_last_chain_hash w) = 32"
  using tail_of_linked [of db] linked_length_tail [of GENESIS_CHAIN_HASH "by_id db"] by (simp add: in_sync_def)

lemma write_row_in_sync:
  assumes s: "in_sync w db" and w: "write_row w db t ok d = (db', w', res)"
  shows "in_sync w' db'"
proof (cases "aw_open w")
  case False
  then show ?thesis using s w by (simp add: write_row_def)
next
  case True
  from True in_sync_length [OF s] show ?thesis
  proof (cases rule: write_row_cases [where d = d and db = db and t = t and ok = ok])
    case (wrote c)
    let ?h = "sha256 (chain_pre (aw_last_chain_hash w) c)" and ?n = "next_row_id db"
    have db': "db' = db @ [draft_row d ?n t ?h]" "aw_last_chain_hash w' = ?h"
      using wrote(3) w by (auto simp: Let_def)
    have b: "by_id db' = by_id db @ [draft_row d ?n t ?h]"
      unfolding db' by (rule by_id_snoc) (use next_row_id_fresh in force)
    have tail: "fold_digest sha256 chain_pre GENESIS_CHAIN_HASH (map row_bytes (by_id db)) = aw_last_chain_hash w"
      using s tail_of_linked linked_stored_tail by (auto simp: in_sync_def)
    have "linked GENESIS_CHAIN_HASH (by_id db')"
      using s wrote(2) by (simp add: b linked_append tail in_sync_def draft_row_canonical py_bytes_def)
    moreover have "load_tail_chain_hash db' = Inr ?h"
      by (simp add: load_tail_chain_hash_def max_row_def b py_bytes_def CHAIN_HASH_SIZE_def)
    moreover have "distinct (map sr_id db')" using s next_row_id_fresh by (force simp: db'(1) in_sync_def)
    ultimately show ?thesis by (simp add: in_sync_def db'(2))
  qed (use s w in simp_all)
qed

subsection \<open>Runs of one writer\<close>

text \<open>What one process does with its writer: it writes drafts at clock readings, a commit may fail, and
  it may restart, which opens a new writer on the table (and leaves auditing off if that raises).\<close>

datatype audit_event = Write string bool draft | Restart

fun run_event :: "audit_event \<Rightarrow> audit_table \<times> audit_writer \<Rightarrow> audit_table \<times> audit_writer" where
  "run_event (Write t ok d) (db, w) = (let (db', w', res) = write_row w db t ok d in (db', w'))"
| "run_event Restart (db, w) = (db, case open_writer db of Inr w' \<Rightarrow> w' | Inl e \<Rightarrow> close_writer w)"

definition run_events :: "audit_event list \<Rightarrow> audit_table \<times> audit_writer \<Rightarrow> audit_table \<times> audit_writer" where
  "run_events es s = fold run_event es s"

lemma run_event_in_sync: "in_sync w db \<Longrightarrow> run_event e (db, w) = (db', w') \<Longrightarrow> in_sync w' db'"
  using open_in_sync [of db]
  by (cases e) (auto simp: Let_def in_sync_def split: prod.splits dest: write_row_in_sync [unfolded in_sync_def, rotated])

lemma run_events_in_sync: "in_sync w db \<Longrightarrow> in_sync (snd (run_events es (db, w))) (fst (run_events es (db, w)))"
  unfolding run_events_def
  by (induction es arbitrary: w db) (auto simp: run_event_in_sync split: prod.splits, metis prod.collapse run_event_in_sync)

lemma in_sync_empty: "open_writer [] = Inr w \<Longrightarrow> in_sync w []"
  by (auto simp: open_writer_def in_sync_def by_id_def load_tail_chain_hash_def max_row_def)

text \<open>C17: Whatever one writer does on a fresh store (successful writes, refused drafts, failed commits,
  restarts), the table it leaves verifies: the walk from genesis reports no row and raises nothing.\<close>

theorem single_writer_chain_verifies:
  assumes "open_writer [] = Inr w"
  shows "walk_chain (fst (run_events es ([], w))) full None = ([], None)"
  using run_events_in_sync [OF in_sync_empty [OF assms], of es] by (simp add: walk_chain_clean in_sync_def)

definition sample_draft :: draft where
  "sample_draft = build_audit_row ''get_metric'' ''src''
     \<lparr>rs_status = Some ''refused'', rs_data = None,
      rs_error = Some \<lparr>re_kind = Some ''pii_blocked'', re_pii_categories = [Health, Contact], re_anchor_entity = Some ''patient''\<rparr>\<rparr>"

theorem single_writer_chain_verifies_witness:
  "walk_chain (fst (run_events [Write ''t1'' True sample_draft, Restart, Write ''t2'' False sample_draft]
     ([], \<lparr>aw_open = True, aw_last_chain_hash = GENESIS_CHAIN_HASH\<rparr>))) True None = ([], None)"
  by (rule single_writer_chain_verifies) (simp add: open_writer_def load_tail_chain_hash_def max_row_def by_id_def)

text \<open>Ids count up from one.\<close>

definition ids_dense :: "audit_table \<Rightarrow> bool" where
  "ids_dense db \<longleftrightarrow> map sr_id db = map int [1 ..< Suc (length db)]"

lemma ids_dense_sorted: "ids_dense db \<Longrightarrow> by_id db = db"
proof -
  assume "ids_dense db"
  moreover have "sorted (map int xs) \<longleftrightarrow> sorted xs" for xs by (simp add: sorted_wrt_map)
  ultimately have "sorted (map sr_id db)" by (simp add: ids_dense_def del: upt_Suc)
  then show ?thesis by (simp add: by_id_def sort_key_id_if_sorted)
qed

lemma ids_dense_next: "ids_dense db \<Longrightarrow> next_row_id db = int (Suc (length db))"
proof (cases db rule: rev_cases)
  case Nil
  then show ?thesis by (simp add: next_row_id_def max_row_def by_id_def)
next
  case (snoc xs r)
  moreover assume d: "ids_dense db"
  ultimately have "sr_id r = int (length db)" by (auto simp: ids_dense_def)
  then show ?thesis using ids_dense_sorted [OF d] snoc by (simp add: next_row_id_def max_row_def)
qed

lemma write_row_dense:
  assumes "ids_dense db" "write_row w db t ok d = (db', w', res)"
  shows "ids_dense db' \<and> (\<exists>rs. db' = db @ rs \<and> length rs \<le> 1)"
proof -
  have "ids_dense (db @ [draft_row d (next_row_id db) t h])" for h
    using assms(1) by (simp add: ids_dense_next) (simp add: ids_dense_def)
  then show ?thesis using assms
    by (auto simp: write_row_def Let_def run_statement_def split: if_splits sum.splits)
qed

text \<open>The log of one writer is append-only and gap-free: rows already there stay where they are, and the
  ids are 1, 2, 3, ... in the order of the table, across failures and restarts.\<close>

theorem log_append_only:
  assumes "ids_dense db"
  shows "\<exists>rs. fst (run_events es (db, w)) = db @ rs \<and> ids_dense (db @ rs)"
  using assms
proof (induction es arbitrary: db w)
  case Nil
  then show ?case by (simp add: run_events_def)
next
  case (Cons e es)
  obtain db1 w1 where e: "run_event e (db, w) = (db1, w1)" by fastforce
  then have "ids_dense db1 \<and> (\<exists>rs. db1 = db @ rs)"
    using Cons.prems write_row_dense by (cases e) (auto simp: Let_def split: prod.splits, blast+)
  then obtain rs where "db1 = db @ rs" "ids_dense db1" by blast
  then show ?case using Cons.IH [of db1 w1] e by (auto simp: run_events_def)
qed

theorem log_append_only_witness:
  "\<exists>rs. fst (run_events [Write ''t'' True sample_draft] (sample_log, \<lparr>aw_open = True, aw_last_chain_hash = GENESIS_CHAIN_HASH\<rparr>))
     = sample_log @ rs \<and> ids_dense (sample_log @ rs)"
  by (rule log_append_only) (simp add: ids_dense_def sample_log_def Let_def)

subsection \<open>Every response is logged\<close>

lemma build_audit_row_status:
  "rs_status resp = Some (status_name st) \<Longrightarrow> dr_status (build_audit_row tool src resp) = st"
  "\<forall>st. rs_status resp \<noteq> Some (status_name st) \<Longrightarrow> dr_status (build_audit_row tool src resp) = Error"
proof -
  show "rs_status resp = Some (status_name st) \<Longrightarrow> dr_status (build_audit_row tool src resp) = st"
    by (cases st) (simp_all add: build_audit_row_def Let_def ALLOWED_STATUSES_def)
  assume "\<forall>st. rs_status resp \<noteq> Some (status_name st)"
  then have "find (\<lambda>s. Some (status_name s) = rs_status resp) ALLOWED_STATUSES = None"
    unfolding find_None_iff by metis
  then show "dr_status (build_audit_row tool src resp) = Error" by (simp add: build_audit_row_def Let_def)
qed

text \<open>No tool response can make the audit write fail. With the writer open and in step with an intact
  table, and the commit succeeding, the row for any response (also one without a status, or with a status
  the schema does not know) passes the serialisation and all the table's constraints and is appended;
  it carries the response's status, or \<^verbatim>\<open>error\<close> when that is not one of the six.\<close>

theorem every_response_logged:
  assumes "aw_open w" "in_sync w db"
  shows "\<exists>r w'. write_row w db t True (build_audit_row tool src resp) = (db @ [r], w', Inr r) \<and>
    sr_tool_name r = PStr tool \<and> sr_occurred_at r = PStr t \<and>
    (\<forall>st. rs_status resp = Some (status_name st) \<longrightarrow> sr_status r = PStr (status_name st)) \<and>
    ((\<forall>st. rs_status resp \<noteq> Some (status_name st)) \<longrightarrow> sr_status r = PStr ''error'')"
proof -
  let ?d = "build_audit_row tool src resp"
  have d: "dr_ast_shape_hash ?d = None" "dr_tool_name ?d = tool" by (simp_all add: build_audit_row_def Let_def)
  obtain c where "canonical_audit_row (draft_dict ?d (next_row_id db) t) = Inr c"
    using draft_dict_canonical [of ?d "next_row_id db" t] d(1) by auto
  moreover have "sr_status (draft_row ?d n t h) = PStr (status_name (dr_status ?d))"
    "sr_tool_name (draft_row ?d n t h) = PStr tool" for n h
    by (simp_all add: draft_row_def typed_row_def d)
  moreover have "rs_status resp = Some (status_name st) \<Longrightarrow> dr_status ?d = st"
    "(\<forall>st. rs_status resp \<noteq> Some (status_name st)) \<Longrightarrow> dr_status ?d = Error" for st
    by (simp_all add: build_audit_row_status)
  ultimately show ?thesis
    using assms(1) in_sync_length [OF assms(2)] ddl_accepts_draft_row
    by (auto simp: write_row_def Let_def compute_chain_hash_def CHAIN_HASH_SIZE_def run_statement_def)
qed

theorem every_response_logged_witness:
  "\<exists>r w'. write_row \<lparr>aw_open = True, aw_last_chain_hash = GENESIS_CHAIN_HASH\<rparr> [] ''t'' True
      (build_audit_row ''find'' ''src'' \<lparr>rs_status = Some ''weird'', rs_data = None, rs_error = None\<rparr>) = ([] @ [r], w', Inr r)"
  using every_response_logged [of "\<lparr>aw_open = True, aw_last_chain_hash = GENESIS_CHAIN_HASH\<rparr>" "[]" "''t''" "''find''" "''src''"
      "\<lparr>rs_status = Some ''weird'', rs_data = None, rs_error = None\<rparr>"]
  by (auto simp: in_sync_def load_tail_chain_hash_def max_row_def by_id_def)

subsection \<open>Two writers on one store\<close>

text \<open>The cached tail is private to one writer while the next id is read from the table. If two
  writers are opened on the same table and each writes once, both writes succeed, and the walk then
  reports the second row: it was chained to the row both writers saw, not to its predecessor. (The
  only exceptions are a digest equal to its own predecessor and a sha256 collision.)\<close>

theorem two_writers_break_chain:
  assumes "open_writer db = Inr w1" "open_writer db = Inr w2"
    and clean: "walk_chain db True None = ([], None)" and d: "distinct (map sr_id db)"
    and a: "write_row w1 db t1 True d1 = (db1, w1', Inr r1)"
    and b: "write_row w2 db1 t2 True d2 = (db2, w2', Inr r2)"
  shows "mismatch_ids (walk_chain db2 True None) = [sr_id r2]
    \<or> aw_last_chain_hash w1' = aw_last_chain_hash w1
    \<or> (\<exists>c. collision [chain_pre (aw_last_chain_hash w1) c] [chain_pre (aw_last_chain_hash w1') c])"
proof -
  let ?p = "aw_last_chain_hash w1"
  have w: "aw_open w1" "w2 = w1" "in_sync w1 db"
    using assms(1-4) by (auto simp: open_writer_def result_simps in_sync_def walk_chain_clean)
  note len = in_sync_length [OF w(3)]
  obtain c1 where c1: "db1 = db @ [r1]" "aw_last_chain_hash w1' = sha256 (chain_pre ?p c1)"
    using write_row_Inr [OF w(1) len a] by blast
  obtain c2 where c2: "canonical_audit_row (draft_dict d2 (next_row_id db1) t2) = Inr c2"
    "db2 = db1 @ [r2]" "r2 = draft_row d2 (next_row_id db1) t2 (sha256 (chain_pre ?p c2))"
    using write_row_Inr [OF w(1) len b [unfolded w(2)]] by blast
  have s1: "in_sync w1' db1" by (rule write_row_in_sync [OF w(3) a])
  have l1: "linked GENESIS_CHAIN_HASH (by_id db1)" "stored_tail GENESIS_CHAIN_HASH (by_id db1) = aw_last_chain_hash w1'"
    using s1 tail_of_linked [of db1] by (simp_all add: in_sync_def)
  have "by_id db2 = by_id db1 @ [r2]"
    unfolding c2(2) by (rule by_id_snoc) (use next_row_id_fresh [of _ db1] c2(3) in force)
  then have walk: "walk_chain db2 True None = apfst ((@) []) (walk_rows True (aw_last_chain_hash w1') [r2])"
    using walk_rows_append [of GENESIS_CHAIN_HASH "by_id db1" "[r2]"] l1 walk_rows_serial_independent [OF l1(1) length_GENESIS]
    by (simp add: walk_chain_def del: walk_rows.simps flip: by_id_def)
  show ?thesis
  proof (cases "sha256 (chain_pre (aw_last_chain_hash w1') c2) = sha256 (chain_pre ?p c2)")
    case True
    then have "collision [chain_pre ?p c2] [chain_pre (aw_last_chain_hash w1') c2]" if "aw_last_chain_hash w1' \<noteq> ?p"
      using that by (simp add: collision_def chain_pre_def)
    then show ?thesis by blast
  next
    case False
    have "row_canonical r2 = Inr c2" "py_bytes ''chain_hash'' (sr_chain_hash r2) = Inr (sha256 (chain_pre ?p c2))"
      using c2 by (simp_all add: draft_row_canonical py_bytes_def)
    then show ?thesis using False walk in_sync_length [OF s1]
      by (simp add: mismatch_ids_def compute_chain_hash_def CHAIN_HASH_SIZE_def chain_pre_def Let_def)
  qed
qed

lemma write_row_sample:
  assumes "aw_open w" "length (aw_last_chain_hash w) = 32"
  shows "\<exists>db' w' r. write_row w db t True sample_draft = (db', w', Inr r)"
  using assms
proof (cases rule: write_row_cases [where d = sample_draft and db = db and t = t and ok = True])
  case (error e)
  then show ?thesis
    using draft_dict_canonical [of sample_draft "next_row_id db" t] by (auto simp: sample_draft_def build_audit_row_def Let_def)
qed (auto simp: Let_def)

theorem two_writers_break_chain_witness:
  "let w = \<lparr>aw_open = True, aw_last_chain_hash = GENESIS_CHAIN_HASH\<rparr> in
    \<exists>db1 w1' r1 db2 w2' r2. write_row w [] ''t1'' True sample_draft = (db1, w1', Inr r1) \<and>
      write_row w db1 ''t2'' True sample_draft = (db2, w2', Inr r2) \<and>
      (mismatch_ids (walk_chain db2 True None) = [sr_id r2] \<or> aw_last_chain_hash w1' = GENESIS_CHAIN_HASH
       \<or> (\<exists>c. collision [chain_pre GENESIS_CHAIN_HASH c] [chain_pre (aw_last_chain_hash w1') c]))"
proof -
  let ?w = "\<lparr>aw_open = True, aw_last_chain_hash = GENESIS_CHAIN_HASH\<rparr>"
  have o: "open_writer [] = Inr ?w" by (simp add: open_writer_def load_tail_chain_hash_def max_row_def by_id_def)
  have c: "walk_chain [] True None = ([], None)" by (simp add: walk_chain_def)
  obtain db1 w1' r1 where a: "write_row ?w [] ''t1'' True sample_draft = (db1, w1', Inr r1)"
    using write_row_sample [of ?w] by fastforce
  obtain db2 w2' r2 where b: "write_row ?w db1 ''t2'' True sample_draft = (db2, w2', Inr r2)"
    using write_row_sample [of ?w] by fastforce
  show ?thesis using two_writers_break_chain [OF o o c _ a b] a b unfolding Let_def by simp
qed

end
