(* ===== verification/PiiClassifier.thy ===== *)
theory PiiClassifier
  imports PiiCategories
begin

section \<open>The column-name classifier (pii/classifier.py)\<close>

text \<open>
  A rule is a keyword pattern and the category it contributes; \<open>classify_column\<close> unions the
  categories of the matching rules and applies the two guards (the non-PII name denylist and the
  integer foreign-key guard). The patterns are regular expressions of one shape, so their search is
  modelled directly: some keyword occurs between non-alphanumeric boundaries, case ignored
  (\<open>kw_search_iff\<close>). Column names are ASCII; Python's \<^verbatim>\<open>IGNORECASE\<close> also folds a few
  non-ASCII letters, which is not modelled. The optional separator of \<^verbatim>\<open>e_?mail\<close> is expanded.
\<close>

subsection \<open>Keyword patterns\<close>

fun boundary :: "string \<Rightarrow> bool" where
  "boundary [] = True"
| "boundary (c # cs) = (\<not> is_alnum c)"

text \<open>\<^verbatim>\<open>_kw(...)\<close>: the pattern is its list of alternatives; \<open>kw_from\<close> is \<^verbatim>\<open>search\<close> from a position,
  told whether the character before it is a boundary.\<close>

definition kw_here :: "string list \<Rightarrow> string \<Rightarrow> bool" where
  "kw_here alternatives s \<longleftrightarrow>
     (\<exists>a \<in> set alternatives. starts_with a (lower_str s) \<and> boundary (drop (length a) s))"

fun kw_from :: "string list \<Rightarrow> bool \<Rightarrow> string \<Rightarrow> bool" where
  "kw_from alternatives open_left [] = (open_left \<and> kw_here alternatives [])"
| "kw_from alternatives open_left (c # cs) =
     ((open_left \<and> kw_here alternatives (c # cs)) \<or> kw_from alternatives (\<not> is_alnum c) cs)"

definition kw_search :: "string list \<Rightarrow> string \<Rightarrow> bool" where
  "kw_search alternatives s = kw_from alternatives True s"

subsection \<open>The rule table\<close>

datatype rule = Rule (rule_keywords: "string list") (rule_category: pii_category)

definition NAME_RULE :: rule where
  "NAME_RULE = Rule [''name'', ''user_name'', ''customer_name'', ''display_name'', ''legal_name'',
          ''contact_name''] Contact"

definition RULES_CONTACT :: "rule list" where
  "RULES_CONTACT =
     [Rule [''email'', ''email'', ''e_mail''] Contact,
      Rule [''phone'', ''mobile'', ''fax''] Contact,
      Rule [''address'', ''address_line'', ''address_street'', ''street''] Contact,
      Rule [''first_name'', ''last_name'', ''middle_name'', ''full_name'', ''given_name'',
          ''family_name''] Contact,
      NAME_RULE,
      Rule [''zip'', ''zip_code'', ''postal_code''] Contact,
      Rule [''city'', ''state'', ''country''] Contact]"

definition RULES_FINANCIAL :: "rule list" where
  "RULES_FINANCIAL =
     [Rule [''salary'', ''wage'', ''income''] Financial,
      Rule [''balance'', ''revenue''] Financial,
      Rule [''amount'', ''transaction_amount'', ''transaction_value''] Financial]"

definition RULES_PAYMENT_CARD :: "rule list" where
  "RULES_PAYMENT_CARD =
     [Rule [''card_number'', ''card_num'', ''card_pan'', ''pan''] Payment_Card,
      Rule [''cvv'', ''cvc''] Payment_Card,
      Rule [''iban''] Payment_Card,
      Rule [''account_number'', ''bank_account'', ''routing_number'', ''sort_code''] Payment_Card,
      Rule [''credit_card'', ''creditcard'', ''credit_card_no'', ''debit_card'',
          ''debitcard'', ''cardnumber'', ''card_no'', ''cardno'', ''cc_num'', ''ccnum'',
          ''cc_number'', ''ccnumber'', ''swift_code'', ''swift_bic'', ''bic''] Payment_Card]"

definition RULES_HEALTH :: "rule list" where
  "RULES_HEALTH =
     [Rule [''diagnosis'', ''medication'', ''treatment''] Health,
      Rule [''icd9'', ''icd_9'', ''icd10'', ''icd_10'', ''cpt_code''] Health,
      Rule [''phi'', ''mrn'', ''medical_record''] Health,
      Rule [''allergy'', ''blood_type'', ''prescription'', ''lab_result'', ''symptom'',
          ''bmi'', ''vital_sign''] Health,
      Rule [''patient'', ''insurance_id'', ''health_record''] Health,
      Rule [''encounter_id'', ''visit_id'', ''admission_id'', ''discharge_id''] Health,
      Rule [''insurance_member_id'', ''insurance_subscriber_id''] Health]"

definition RULES_GENETIC :: "rule list" where
  "RULES_GENETIC =
     [Rule [''genome'', ''genotype'', ''dna_seq'', ''rsid''] Genetic]"

definition RULES_BIOMETRIC :: "rule list" where
  "RULES_BIOMETRIC =
     [Rule [''fingerprint'', ''face_id'', ''face_hash'', ''face_embedding'', ''face_print'',
          ''face_vector'', ''voiceprint'', ''iris'', ''biometric''] Biometric]"

definition RULES_BEHAVIORAL :: "rule list" where
  "RULES_BEHAVIORAL =
     [Rule [''purchase_history'', ''browse_history'', ''clickstream'', ''click_stream'',
          ''event_log''] Behavioral]"

definition RULES_ONLINE_IDENTIFIER :: "rule list" where
  "RULES_ONLINE_IDENTIFIER =
     [Rule [''ip'', ''ip_addr'', ''ip_address'', ''client_ip'', ''remote_ip'', ''src_ip''] Online_Identifier,
      Rule [''cookie_id'', ''device_id'', ''session_id'', ''idfa'', ''gaid''] Online_Identifier,
      Rule [''aid'', ''google_aid'', ''fb_aid'', ''advertising_aid''] Online_Identifier,
      Rule [''wallet_address'', ''blockchain_address'', ''crypto_address''] Online_Identifier]"

definition RULES_CREDENTIAL :: "rule list" where
  "RULES_CREDENTIAL =
     [Rule [''password'', ''passwd'', ''pwd''] Credential,
      Rule [''api_key'', ''secret''] Credential,
      Rule [''token'', ''refresh_token'', ''access_token'', ''session_id''] Credential,
      Rule [''pass_hash'', ''pw_hash''] Credential,
      Rule [''private_key'', ''seed_phrase'', ''mnemonic_phrase'', ''mnemonic''] Credential,
      Rule [''pin'', ''pin_code'', ''recovery_code'', ''security_answer''] Credential,
      Rule [''ssh_key'', ''kms_key'', ''encryption_key'', ''signing_key'', ''aws_access_key''] Credential,
      Rule [''magic_link'', ''webauthn_credential'', ''totp_seed''] Credential,
      Rule [''passwordhash'', ''pwhash'', ''passhash'', ''pwdhash'', ''apikey'',
          ''apisecret'', ''apitoken'', ''accesstoken'', ''refreshtoken'', ''authtoken'',
          ''bearertoken'', ''sessiontoken'', ''privatekey'', ''secretkey'', ''accesskey'',
          ''signingkey'', ''encryptionkey''] Credential,
      Rule [''recovery_codes'', ''backup_code'', ''backup_codes'', ''seedphrase'',
          ''clientsecret''] Credential]"

definition RULES_GOVERNMENT_ID :: "rule list" where
  "RULES_GOVERNMENT_ID =
     [Rule [''ssn'', ''tin'', ''nino''] Government_Id,
      Rule [''passport''] Government_Id,
      Rule [''driver_license'', ''driver_licence'', ''drivers_license'', ''drivers_licence'',
          ''dl_number'', ''dl_no'', ''driver_license_number'', ''drivers_license_number''] Government_Id,
      Rule [''tax_id''] Government_Id,
      Rule [''national_id'', ''aadhar'', ''aadhaar'', ''voter_id'', ''ein''] Government_Id,
      Rule [''npi'', ''provider_npi'', ''dea_number''] Government_Id]"

definition RULES_LOCATION :: "rule list" where
  "RULES_LOCATION =
     [Rule [''lat'', ''latitude'', ''lon'', ''lng'', ''longitude''] Location,
      Rule [''location'', ''geolocation'', ''gps'', ''coords'', ''coord''] Location]"

definition RULES_DEMOGRAPHIC_PROTECTED :: "rule list" where
  "RULES_DEMOGRAPHIC_PROTECTED =
     [Rule [''dob'', ''date_of_birth'', ''birth_date'', ''birthdate''] Demographic_Protected,
      Rule [''race'', ''ethnicity'', ''religion''] Demographic_Protected,
      Rule [''orientation'', ''sexual_orientation'', ''gender_orientation''] Demographic_Protected,
      Rule [''political_party'', ''political_view'', ''political_affiliation'',
          ''trade_union''] Demographic_Protected,
      Rule [''age'', ''gender'', ''sex'', ''disability'', ''marital_status'',
          ''nationality'', ''veteran_status''] Demographic_Protected]"

definition RULES_I18N :: "rule list" where
  "RULES_I18N =
     [Rule [''correo_electronico'', ''courriel''] Contact,
      Rule [''telefonnummer'', ''numero_telefono'', ''numero_telephone''] Contact,
      Rule [''kreditkartennummer'', ''numero_carte_credit'', ''numero_tarjeta_credito''] Payment_Card,
      Rule [''sozialversicherungsnummer'', ''numero_seguridad_social'',
          ''numero_securite_sociale''] Government_Id,
      Rule [''cpf''] Government_Id,
      Rule [''cnpj''] Government_Id,
      Rule [''dni'', ''nif'', ''nie'', ''codice_fiscale'', ''curp'', ''nric'', ''bsn'',
          ''pesel''] Government_Id,
      Rule [''social_security_number'', ''social_security_no'',
          ''national_insurance_number'', ''national_insurance_no'',
          ''social_insurance_number'', ''social_insurance_no'', ''passportno'',
          ''passportnumber'', ''vat_number'', ''vat_numbers'', ''vat_no'', ''vat_id'',
          ''vat_registration''] Government_Id]"

text \<open>All \<open>60\<close> rules in the source's order.\<close>

definition RULES :: "rule list" where
  "RULES = RULES_CONTACT @ RULES_FINANCIAL @ RULES_PAYMENT_CARD @ RULES_HEALTH
     @ RULES_GENETIC @ RULES_BIOMETRIC @ RULES_BEHAVIORAL @ RULES_ONLINE_IDENTIFIER @ RULES_CREDENTIAL
     @ RULES_GOVERNMENT_ID @ RULES_LOCATION @ RULES_DEMOGRAPHIC_PROTECTED @ RULES_I18N"

lemmas RULES_defs = RULES_def RULES_CONTACT_def
  RULES_FINANCIAL_def
  RULES_PAYMENT_CARD_def
  RULES_HEALTH_def
  RULES_GENETIC_def
  RULES_BIOMETRIC_def
  RULES_BEHAVIORAL_def
  RULES_ONLINE_IDENTIFIER_def
  RULES_CREDENTIAL_def
  RULES_GOVERNMENT_ID_def
  RULES_LOCATION_def
  RULES_DEMOGRAPHIC_PROTECTED_def
  RULES_I18N_def NAME_RULE_def

definition RULE_COUNT :: nat where
  "RULE_COUNT = length RULES"

subsection \<open>The guards\<close>

definition NON_PII_NAME_PREFIXES :: "string list" where
  "NON_PII_NAME_PREFIXES =
     [''product'', ''brand'', ''category'', ''language'', ''currency'', ''tag'', ''event'',
      ''feature'', ''setting'', ''field'', ''column'', ''table'', ''database'',
      ''service'', ''process'', ''task'', ''job'', ''file'', ''directory'', ''folder'',
      ''bucket'', ''device'', ''app'', ''module'', ''plugin'', ''report'', ''dashboard'',
      ''widget'', ''channel'', ''topic'', ''queue'', ''host'', ''cluster'']"

definition NON_PII_NAME_TABLE_NAMES :: "string list" where
  "NON_PII_NAME_TABLE_NAMES = NON_PII_NAME_PREFIXES @
     [''products'', ''brands'', ''categories'', ''languages'', ''currencies'', ''tags'',
      ''events'', ''features'', ''settings'', ''fields'', ''columns'', ''tables'',
      ''databases'', ''services'', ''processes'', ''tasks'', ''jobs'', ''files'',
      ''directories'', ''folders'', ''buckets'', ''devices'', ''apps'', ''modules'',
      ''plugins'', ''reports'', ''dashboards'', ''widgets'', ''channels'', ''topics'',
      ''queues'', ''hosts'', ''clusters'']"

text \<open>\<^verbatim>\<open>_NON_PII_NAME_RE.fullmatch\<close>.\<close>

definition non_pii_name :: "string \<Rightarrow> bool" where
  "non_pii_name s \<longleftrightarrow> lower_str s \<in> set (map (\<lambda>p. p @ ''_name'') NON_PII_NAME_PREFIXES)"

definition FK_SAFE_CATEGORIES :: "pii_category set" where
  "FK_SAFE_CATEGORIES = {Credential, Online_Identifier, Government_Id, Health,
     Demographic_Protected, Behavioral, Location}"

definition INTEGER_TYPE_PREFIXES :: "string list" where
  "INTEGER_TYPE_PREFIXES =
     [''int'', ''integer'', ''bigint'', ''smallint'', ''tinyint'', ''mediumint'', ''int2'',
      ''int4'', ''int8'', ''serial'', ''bigserial'', ''smallserial'']"

text \<open>\<^verbatim>\<open>^[a-z][a-z0-9]*(?:_[a-z0-9]+)*_id$\<close>: at least two underscore-separated alphanumeric segments,
  the first starting with a letter and the last being \<^verbatim>\<open>id\<close>.\<close>

definition fk_shape :: "string \<Rightarrow> bool" where
  "fk_shape s \<longleftrightarrow>
     (let segments = split_on CHR ''_'' (lower_str s)
      in 2 \<le> length segments \<and> last segments = ''id''
        \<and> list_all (\<lambda>g. g \<noteq> [] \<and> list_all (\<lambda>c. is_lower c \<or> is_digit c) g) segments
        \<and> is_lower (hd (hd segments)))"

text \<open>The first whitespace-separated token of the type, parameters and array suffix cut off.\<close>

definition is_integer_type :: "string \<Rightarrow> bool" where
  "is_integer_type column_type =
     (let pruned = fst (split1 CHR ''['' (fst (split1 CHR ''('' column_type)));
          token = takeWhile (\<lambda>c. \<not> is_space c) (dropWhile is_space pruned)
      in token \<noteq> [] \<and> lower_str token \<in> set INTEGER_TYPE_PREFIXES)"

subsection \<open>Classification\<close>

definition skip_name_rule :: "string \<Rightarrow> string option \<Rightarrow> bool" where
  "skip_name_rule column_name table_name \<longleftrightarrow>
     non_pii_name column_name \<or>
     (case table_name of
        None \<Rightarrow> False
      | Some t \<Rightarrow> lower_str column_name = ''name'' \<and> lower_str t \<in> set NON_PII_NAME_TABLE_NAMES)"

fun match_rules :: "bool \<Rightarrow> string \<Rightarrow> rule list \<Rightarrow> pii_category set" where
  "match_rules skip column_name [] = {}"
| "match_rules skip column_name (r # rs) =
     (if skip \<and> r = NAME_RULE then match_rules skip column_name rs
      else if kw_search (rule_keywords r) column_name
           then insert (rule_category r) (match_rules skip column_name rs)
           else match_rules skip column_name rs)"

definition fk_guard :: "string \<Rightarrow> string option \<Rightarrow> bool \<Rightarrow> bool" where
  "fk_guard column_name column_type is_primary_key \<longleftrightarrow>
     (case column_type of None \<Rightarrow> False
      | Some ty \<Rightarrow> \<not> is_primary_key \<and> is_integer_type ty \<and> fk_shape column_name)"

definition classify_column ::
  "string \<Rightarrow> string option \<Rightarrow> bool \<Rightarrow> string option \<Rightarrow> sensitivity \<times> pii_category set" where
  "classify_column column_name column_type is_primary_key table_name =
     (let matched = match_rules (skip_name_rule column_name table_name) column_name RULES;
          matched = (if fk_guard column_name column_type is_primary_key
                     then matched \<inter> FK_SAFE_CATEGORIES else matched)
      in if matched = {} then (Public, {}) else (Pii, matched))"
subsection \<open>What a keyword search decides\<close>

lemma lower_str_append [simp]: "lower_str (a @ b) = lower_str a @ lower_str b"
  by (simp add: lower_str_def)

lemma length_lower_str [simp]: "length (lower_str s) = length s"
  by (simp add: lower_str_def)

lemma starts_with_iff: "starts_with p s \<longleftrightarrow> (\<exists>r. s = p @ r)"
  by (induction p s rule: starts_with.induct) auto

lemma kw_here_iff:
  "kw_here alts s \<longleftrightarrow> (\<exists>mid post. s = mid @ post \<and> lower_str mid \<in> set alts \<and> boundary post)"
proof
  assume "kw_here alts s"
  then obtain a r where a: "a \<in> set alts" "lower_str s = a @ r" "boundary (drop (length a) s)"
    by (auto simp: kw_here_def starts_with_iff)
  have "lower_str (take (length a) s) = a" using a(2) by (simp add: lower_str_def flip: take_map)
  then show "\<exists>mid post. s = mid @ post \<and> lower_str mid \<in> set alts \<and> boundary post"
    using a by (intro exI [of _ "take (length a) s"] exI [of _ "drop (length a) s"]) simp
next
  assume "\<exists>mid post. s = mid @ post \<and> lower_str mid \<in> set alts \<and> boundary post"
  then obtain mid post where "s = mid @ post" "lower_str mid \<in> set alts" "boundary post" by blast
  then show "kw_here alts s" by (auto simp: kw_here_def starts_with_iff intro!: bexI [of _ "lower_str mid"])
qed

lemma kw_from_iff:
  "kw_from alts open_left s \<longleftrightarrow>
    (\<exists>pre rest. s = pre @ rest \<and> kw_here alts rest \<and> (if pre = [] then open_left else \<not> is_alnum (last pre)))"
proof (induction s arbitrary: open_left)
  case Nil
  then show ?case by auto
next
  case (Cons c cs)
  let ?left = "\<lambda>b pre. if pre = [] then b else \<not> is_alnum (last pre)"
  have shift: "\<And>b pre. ?left b (c # pre) = ?left (\<not> is_alnum c) pre" by simp
  show ?case
  proof
    assume "kw_from alts open_left (c # cs)"
    then consider "open_left" "kw_here alts (c # cs)" | "kw_from alts (\<not> is_alnum c) cs" by auto
    then show "\<exists>pre rest. c # cs = pre @ rest \<and> kw_here alts rest \<and> ?left open_left pre"
    proof cases
      case 1
      then show ?thesis by (intro exI [of _ "[]"] exI [of _ "c # cs"]) simp
    next
      case 2
      then obtain pre rest where "cs = pre @ rest" "kw_here alts rest" "?left (\<not> is_alnum c) pre"
        using Cons.IH by blast
      then show ?thesis using shift by (intro exI [of _ "c # pre"] exI [of _ rest]) simp
    qed
  next
    assume "\<exists>pre rest. c # cs = pre @ rest \<and> kw_here alts rest \<and> ?left open_left pre"
    then obtain pre rest where p: "c # cs = pre @ rest" "kw_here alts rest" "?left open_left pre" by blast
    show "kw_from alts open_left (c # cs)"
    proof (cases pre)
      case Nil
      then have "rest = c # cs" "open_left" using p by simp_all
      then show ?thesis using p(2) by simp
    next
      case (Cons d pre')
      then have "cs = pre' @ rest" "d = c" using p(1) by simp_all
      then have "kw_from alts (\<not> is_alnum c) cs"
        using Cons.IH [of "\<not> is_alnum c"] p(2,3) Cons shift by blast
      then show ?thesis by simp
    qed
  qed
qed

text \<open>A keyword pattern finds exactly the keywords that stand between boundaries: the column name
  splits into a part that is empty or ends in a non-alphanumeric character, a keyword up to letter case,
  and a part that is empty or starts with a non-alphanumeric character. An underscore is a boundary.\<close>

theorem kw_search_iff:
  "kw_search alts s \<longleftrightarrow>
    (\<exists>pre mid post. s = pre @ mid @ post \<and> boundary (rev pre) \<and> lower_str mid \<in> set alts \<and> boundary post)"
proof -
  have "boundary (rev pre) \<longleftrightarrow> (if pre = [] then True else \<not> is_alnum (last pre))" for pre
    by (cases pre rule: rev_cases) simp_all
  then show ?thesis by (auto simp: kw_search_def kw_from_iff kw_here_iff)
qed

lemma lower_char_idem [simp]: "lower_char (lower_char c) = lower_char c"
  by (auto simp: lower_char_def is_upper_def less_eq_char_def)

lemma lower_str_idem [simp]: "lower_str (lower_str s) = lower_str s"
  by (simp add: lower_str_def)

lemma is_alnum_lower_char [simp]: "is_alnum (lower_char c) = is_alnum c"
  by (auto simp: lower_char_def is_alnum_def is_upper_def is_lower_def is_digit_def less_eq_char_def)

lemma boundary_lower [simp]: "boundary (lower_str s) = boundary s"
  by (cases s) (simp_all add: lower_str_def)

lemma drop_lower: "drop n (lower_str s) = lower_str (drop n s)"
  by (simp add: lower_str_def drop_map)

lemma kw_here_lower [simp]: "kw_here alts (lower_str s) = kw_here alts s"
  by (simp add: kw_here_def drop_lower)

lemma kw_from_lower: "kw_from alts b (lower_str s) = kw_from alts b s"
proof (induction s arbitrary: b)
  case Nil
  then show ?case by (simp add: lower_str_def)
next
  case (Cons c cs)
  have "kw_here alts (lower_char c # lower_str cs) = kw_here alts (c # cs)"
    using kw_here_lower [of alts "c # cs"] by (simp add: lower_str_def)
  then show ?case using Cons.IH by (simp add: lower_str_def)
qed

subsection \<open>What the classifier decides\<close>

lemma match_rules_iff:
  "c \<in> match_rules skip s rs \<longleftrightarrow>
    (\<exists>r \<in> set rs. \<not> (skip \<and> r = NAME_RULE) \<and> kw_search (rule_keywords r) s \<and> rule_category r = c)"
  by (induction rs) auto

lemma classify_categories:
  "snd (classify_column s ty pk t) =
    (if fk_guard s ty pk then match_rules (skip_name_rule s t) s RULES \<inter> FK_SAFE_CATEGORIES
     else match_rules (skip_name_rule s t) s RULES)"
  by (simp add: classify_column_def Let_def)

lemma NAME_RULE_category: "rule_category NAME_RULE = Contact"
  by (simp add: NAME_RULE_def)

text \<open>Letter case of the column name never changes a classification.\<close>

theorem classify_ignores_case:
  "classify_column (lower_str s) ty pk t = classify_column s ty pk t"
proof -
  have "match_rules skip (lower_str s) rs = match_rules skip s rs" for skip rs
    by (auto simp: match_rules_iff kw_search_def kw_from_lower)
  moreover have "skip_name_rule (lower_str s) t = skip_name_rule s t"
    by (simp add: skip_name_rule_def non_pii_name_def split: option.splits)
  moreover have "fk_guard (lower_str s) ty pk = fk_guard s ty pk"
    by (simp add: fk_guard_def fk_shape_def split: option.splits)
  ultimately show ?thesis by (simp add: classify_column_def)
qed

text \<open>The catastrophic floor cannot be argued away by context. A column that matches a credential or
  government-id rule carries that category whatever its declared type, key role or table; one that
  matches a payment-card rule does unless the integer foreign-key guard applies.\<close>

theorem catastrophic_matches_kept:
  assumes r: "r \<in> set RULES" "kw_search (rule_keywords r) s"
    and c: "rule_category r \<in> CATASTROPHIC_LEAK_CATEGORIES"
  shows "(fk_guard s ty pk \<and> rule_category r = Payment_Card) \<or>
    (rule_category r \<in> snd (classify_column s ty pk t) \<and> fst (classify_column s ty pk t) = Pii
     \<and> has_catastrophic_category (snd (classify_column s ty pk t)))"
proof -
  have "r \<noteq> NAME_RULE" using c NAME_RULE_category by (auto simp: CATASTROPHIC_LEAK_CATEGORIES_def)
  then have m: "rule_category r \<in> match_rules (skip_name_rule s t) s RULES"
    using r by (auto simp: match_rules_iff)
  have "rule_category r = Payment_Card \<or> rule_category r \<in> FK_SAFE_CATEGORIES"
    using c by (auto simp: CATASTROPHIC_LEAK_CATEGORIES_def FK_SAFE_CATEGORIES_def)
  with m have k: "(fk_guard s ty pk \<and> rule_category r = Payment_Card) \<or> rule_category r \<in> snd (classify_column s ty pk t)"
    by (auto simp: classify_categories)
  have "rule_category r \<in> snd (classify_column s ty pk t) \<Longrightarrow> fst (classify_column s ty pk t) = Pii"
    by (auto simp: classify_column_def Let_def split: if_splits)
  moreover have "rule_category r \<in> snd (classify_column s ty pk t) \<Longrightarrow>
      has_catastrophic_category (snd (classify_column s ty pk t))"
    using c by (auto simp: has_catastrophic_category_def)
  ultimately show ?thesis using k by blast
qed

definition SSN_RULE :: rule where
  "SSN_RULE = Rule [''ssn'', ''tin'', ''nino''] Government_Id"

lemma SSN_RULE_in: "SSN_RULE \<in> set RULES"
  by (simp add: RULES_def RULES_GOVERNMENT_ID_def SSN_RULE_def)

lemma SSN_RULE_search: "kw_search (rule_keywords SSN_RULE) ''user_SSN_id''"
  by code_simp

theorem catastrophic_matches_kept_witness:
  "Government_Id \<in> snd (classify_column ''user_SSN_id'' (Some ''BIGINT'') False (Some ''products''))"
  using catastrophic_matches_kept [OF SSN_RULE_in SSN_RULE_search, of "Some ''BIGINT''" False "Some ''products''"]
  by (simp add: SSN_RULE_def CATASTROPHIC_LEAK_CATEGORIES_def)

text \<open>The table the column is in can only take the bare-name contact tag away: all other categories are
  those the column has on its own, and \<^verbatim>\<open>contact\<close> is lost only when no other contact rule matches.\<close>

theorem table_context_only_drops_name:
  "snd (classify_column s ty pk t) \<subseteq> snd (classify_column s ty pk None) \<and>
   snd (classify_column s ty pk None) - {Contact} \<subseteq> snd (classify_column s ty pk t) \<and>
   (Contact \<in> snd (classify_column s ty pk None) - snd (classify_column s ty pk t) \<longrightarrow>
      (\<forall>r \<in> set RULES. r \<noteq> NAME_RULE \<longrightarrow> rule_category r = Contact \<longrightarrow> \<not> kw_search (rule_keywords r) s))"
proof -
  have mono: "skip_name_rule s None \<Longrightarrow> skip_name_rule s t" by (simp add: skip_name_rule_def)
  then have 1: "match_rules (skip_name_rule s t) s RULES \<subseteq> match_rules (skip_name_rule s None) s RULES"
    unfolding subset_iff match_rules_iff by blast
  have 2: "match_rules (skip_name_rule s None) s RULES - {Contact} \<subseteq> match_rules (skip_name_rule s t) s RULES"
    using NAME_RULE_category by (auto simp: match_rules_iff)
  have 3: "\<not> kw_search (rule_keywords r) s" if "Contact \<notin> match_rules (skip_name_rule s t) s RULES"
    "r \<in> set RULES" "r \<noteq> NAME_RULE" "rule_category r = Contact" for r
    using that unfolding match_rules_iff by blast
  have 4: "Contact \<notin> FK_SAFE_CATEGORIES" by (simp add: FK_SAFE_CATEGORIES_def)
  show ?thesis
  proof (cases "fk_guard s ty pk")
    case True
    then show ?thesis using 1 2 4 by (auto simp: classify_categories)
  next
    case False
    then show ?thesis using 1 2 3 by (auto simp: classify_categories)
  qed
qed

theorem table_context_only_drops_name_witness:
  "Contact \<in> snd (classify_column ''name'' None False None) - snd (classify_column ''name'' None False (Some ''products'')) \<and>
   \<not> kw_search [''zip'', ''zip_code'', ''postal_code''] ''name''"
proof -
  have lost: "Contact \<in> snd (classify_column ''name'' None False None) - snd (classify_column ''name'' None False (Some ''products''))"
    by code_simp
  have "Rule [''zip'', ''zip_code'', ''postal_code''] Contact \<in> set RULES" by (simp add: RULES_def RULES_CONTACT_def)
  moreover have "Rule [''zip'', ''zip_code'', ''postal_code''] Contact \<noteq> NAME_RULE" by (simp add: NAME_RULE_def)
  ultimately show ?thesis using lost table_context_only_drops_name [of "''name''" None False "Some ''products''"] by fastforce
qed

end
