(* ===== verification/PiiConfidence.thy ===== *)
theory PiiConfidence
  imports PiiCategories
begin

section \<open>Classification confidence (pii/confidence.py)\<close>

text \<open>
  The band and score of a classified column from its categories and the shapes of its sampled values.
  A score is a Python float; the few that occur lie in the interval from one half to one, where the
  doubles are the multiples of \<open>2 ^ -53\<close>. \<open>score\<close> counts in units of \<open>2 ^ -54\<close>, so that the sum
  of the source can be rounded as the hardware does.
\<close>

datatype confidence_band = Floor_Locked | High | Medium_Band | Low

definition PII_CONFIDENCE_BANDS :: "confidence_band list" where
  "PII_CONFIDENCE_BANDS = [Floor_Locked, High, Medium_Band, Low]"

type_synonym score = nat

text \<open>0.6, 0.3, 0.8 and 1.0 as doubles, in units of \<open>2 ^ -54\<close>.\<close>

definition NAME_MATCH_BASE :: score where
  "NAME_MATCH_BASE = 10808639105689190"

definition SHAPE_CORROBORATION :: score where
  "SHAPE_CORROBORATION = 5404319552844595"

definition HIGH_BAND_THRESHOLD :: score where
  "HIGH_BAND_THRESHOLD = 14411518807585588"

definition SCORE_ONE :: score where
  "SCORE_ONE = 2 ^ 54"

text \<open>Addition rounded to an even multiple of two units: round half to even for a sum below one.\<close>

definition add_scores :: "score \<Rightarrow> score \<Rightarrow> score" where
  "add_scores a b =
     (let s = a + b in
      if even s then s else if even ((s - 1) div 2) then s - 1 else s + 1)"

subsection \<open>Shapes\<close>

definition PHONE_SHAPE_CHARS :: "char list" where
  "PHONE_SHAPE_CHARS = ''9 +-().''"

definition COORDINATE_SHAPE_CHARS :: "char list" where
  "COORDINATE_SHAPE_CHARS = ''9.-''"

definition IPV4_SHAPE_CHARS :: "char list" where
  "IPV4_SHAPE_CHARS = ''9.''"

definition UUID_SHAPE_CHARS :: "char list" where
  "UUID_SHAPE_CHARS = ''9aA-''"

definition count_char :: "char \<Rightarrow> string \<Rightarrow> nat" where
  "count_char c s = length (filter (\<lambda>x. x = c) s)"

definition has_email_shape :: "string \<Rightarrow> bool" where
  "has_email_shape shape \<longleftrightarrow>
     (case split1 CHR ''@'' shape of (_, None) \<Rightarrow> False | (_, Some rest) \<Rightarrow> CHR ''.'' \<in> set rest)"

definition has_phone_shape :: "string \<Rightarrow> bool" where
  "has_phone_shape shape \<longleftrightarrow>
     shape \<noteq> [] \<and> 7 \<le> count_char CHR ''9'' shape \<and> list_all (\<lambda>c. c \<in> set PHONE_SHAPE_CHARS) shape"

definition has_coordinate_shape :: "string \<Rightarrow> bool" where
  "has_coordinate_shape shape \<longleftrightarrow>
     shape \<noteq> [] \<and> set shape \<subseteq> set COORDINATE_SHAPE_CHARS \<and> count_char CHR ''.'' shape = 1
     \<and> CHR ''9'' \<in> set shape"

definition has_ip_or_uuid_shape :: "string \<Rightarrow> bool" where
  "has_ip_or_uuid_shape shape \<longleftrightarrow>
     (set shape \<subseteq> set IPV4_SHAPE_CHARS \<and> count_char CHR ''.'' shape = 3 \<and> CHR ''9'' \<in> set shape)
     \<or> (length shape = 36 \<and> count_char CHR ''-'' shape = 4 \<and> set shape \<subseteq> set UUID_SHAPE_CHARS)"

fun category_shape_families :: "pii_category \<Rightarrow> (string \<Rightarrow> bool) list" where
  "category_shape_families Contact = [has_email_shape, has_phone_shape]"
| "category_shape_families Location = [has_coordinate_shape]"
| "category_shape_families Online_Identifier = [has_ip_or_uuid_shape]"
| "category_shape_families _ = []"

definition shapes_corroborate :: "pii_category set \<Rightarrow> string list \<Rightarrow> bool" where
  "shapes_corroborate categories shape_patterns \<longleftrightarrow>
     (\<exists>shape \<in> set shape_patterns. \<exists>cat \<in> categories. \<exists>pred \<in> set (category_shape_families cat). pred shape)"

definition classify_pii_confidence ::
  "pii_category set \<Rightarrow> string list \<Rightarrow> confidence_band option \<times> score option" where
  "classify_pii_confidence categories shape_patterns =
     (if categories = {} then (None, None)
      else if categories \<inter> CATASTROPHIC_LEAK_CATEGORIES \<noteq> {} then (Some Floor_Locked, None)
      else
        (let score = (if shapes_corroborate categories shape_patterns
                      then min SCORE_ONE (add_scores NAME_MATCH_BASE SHAPE_CORROBORATION)
                      else NAME_MATCH_BASE)
         in (Some (if HIGH_BAND_THRESHOLD \<le> score then High else Medium_Band), Some score)))"

lemma corroborated_score: "add_scores NAME_MATCH_BASE SHAPE_CORROBORATION = 16212958658533784"
  by (simp add: add_scores_def NAME_MATCH_BASE_def SHAPE_CORROBORATION_def)

lemma score_bands: "HIGH_BAND_THRESHOLD \<le> min SCORE_ONE (add_scores NAME_MATCH_BASE SHAPE_CORROBORATION)"
  "\<not> HIGH_BAND_THRESHOLD \<le> NAME_MATCH_BASE"
  by (simp add: corroborated_score HIGH_BAND_THRESHOLD_def SCORE_ONE_def)
    (simp add: HIGH_BAND_THRESHOLD_def NAME_MATCH_BASE_def)

text \<open>The bands are what they are documented to be: \<^verbatim>\<open>floor_locked\<close> exactly on a catastrophic column
  (and then without a score), \<^verbatim>\<open>high\<close> exactly on another column with a corroborating value shape,
  \<^verbatim>\<open>medium\<close> on the rest, nothing on an untagged column, and never \<^verbatim>\<open>low\<close>.\<close>

theorem confidence_bands:
  "fst (classify_pii_confidence cs shapes) =
    (if cs = {} then None
     else if has_catastrophic_category cs then Some Floor_Locked
     else if shapes_corroborate cs shapes then Some High else Some Medium_Band)
   \<and> (snd (classify_pii_confidence cs shapes) = None \<longleftrightarrow> cs = {} \<or> has_catastrophic_category cs)"
  using score_bands by (auto simp: classify_pii_confidence_def has_catastrophic_category_def Let_def)

end
