(* ===== verification/PiiStore.thy ===== *)
theory PiiStore
  imports PiiConfidence
begin

section \<open>The stored column tags (core/store.py, column_pii_tags)\<close>

text \<open>
  The table \<^verbatim>\<open>column_pii_tags\<close> as a map from its primary key to a row, the bulk write of an index
  run, the operator's override and its removal with their guard against downgrading a catastrophic
  column, and the reads. Categories are stored as sorted comma-separated text, as in the source.
  The invariant is that operations without the force flag keep a catastrophic column catastrophic.
\<close>

subsection \<open>The text encoding of a category set\<close>

definition category_names :: "pii_category set \<Rightarrow> string set" where
  "category_names cs = category_name ` cs"

definition encode_pii_categories :: "string set \<Rightarrow> string" where
  "encode_pii_categories categories =
     (if categories = {} then [] else join_str '','' (sorted_list_of_set categories))"

definition decode_pii_categories :: "string \<Rightarrow> string set" where
  "decode_pii_categories stored = (if stored = [] then {} else set (split_on CHR '','' stored))"

text \<open>Names without commas that are not empty survive the encoding.\<close>

lemma decode_encode:
  assumes "finite cs" "\<forall>c \<in> cs. CHR '','' \<notin> set c \<and> c \<noteq> []"
  shows "decode_pii_categories (encode_pii_categories cs) = cs"
proof (cases "cs = {}")
  case True
  then show ?thesis by (simp add: encode_pii_categories_def decode_pii_categories_def)
next
  case False
  let ?l = "sorted_list_of_set cs"
  have l: "?l \<noteq> []" "set ?l = cs" using False assms(1) by simp_all
  then have "join_str '','' ?l \<noteq> []" using join_str_empty assms(2) by fastforce
  then show ?thesis using l assms(2) split_on_join [of ?l "CHR '',''"] False
    by (simp add: encode_pii_categories_def decode_pii_categories_def)
qed

lemma category_name_no_comma: "CHR '','' \<notin> set (category_name c)" "category_name c \<noteq> []"
  by (cases c; simp)+

lemma decode_encode_categories [simp]:
  "decode_pii_categories (encode_pii_categories (category_names cs)) = category_names cs"
  using category_name_no_comma by (intro decode_encode) (auto simp: category_names_def)

subsection \<open>The table\<close>

datatype tag_origin = Heuristic | Operator

record tag_key =
  tk_source :: string
  tk_table :: string
  tk_column :: string

text \<open>The score is opaque here; it is computed elsewhere and only stored.\<close>

record 'score tag_row =
  tr_sensitivity :: sensitivity
  tr_categories :: string
  tr_origin :: tag_origin
  tr_classified_at :: int
  tr_confidence :: "confidence_band option"
  tr_score :: "'score option"

type_synonym 'score tag_table = "tag_key \<rightharpoonup> 'score tag_row"

datatype tag_error = CatastrophicDowngrade tag_key "string set"

definition CATASTROPHIC_NAMES :: "string set" where
  "CATASTROPHIC_NAMES = category_names CATASTROPHIC_LEAK_CATEGORIES"

subsection \<open>Writes\<close>

text \<open>The bulk write of one table in its three steps: drop the table's heuristic rows, read which columns
  an operator row claims, insert a heuristic row for every other tagged column. \<open>tags\<close> and
  \<open>confidence\<close> are the mappings of the call.\<close>

definition drop_heuristic :: "string \<Rightarrow> string \<Rightarrow> 'score tag_table \<Rightarrow> 'score tag_table" where
  "drop_heuristic src tbl db = (\<lambda>k.
     case db k of
       None \<Rightarrow> None
     | Some r \<Rightarrow> if tk_source k = src \<and> tk_table k = tbl \<and> tr_origin r = Heuristic then None else Some r)"

definition overridden :: "string \<Rightarrow> string \<Rightarrow> 'score tag_table \<Rightarrow> string \<Rightarrow> bool" where
  "overridden src tbl db column \<longleftrightarrow>
     (case db \<lparr>tk_source = src, tk_table = tbl, tk_column = column\<rparr> of
        None \<Rightarrow> False | Some r \<Rightarrow> tr_origin r = Operator)"

definition heuristic_row :: "int \<Rightarrow> column_pii_tag \<Rightarrow> (confidence_band option \<times> 'score option) option \<Rightarrow> 'score tag_row" where
  "heuristic_row now tag conf =
     (let (band, score) = (case conf of Some bs \<Rightarrow> bs | None \<Rightarrow> (None, None))
      in \<lparr>tr_sensitivity = fst tag, tr_categories = encode_pii_categories (category_names (snd tag)),
          tr_origin = Heuristic, tr_classified_at = now, tr_confidence = band, tr_score = score\<rparr>)"

definition write_column_pii_tags :: "'score tag_table \<Rightarrow> int \<Rightarrow> string \<Rightarrow> string
    \<Rightarrow> (string \<rightharpoonup> column_pii_tag) \<Rightarrow> (string \<rightharpoonup> confidence_band option \<times> 'score option) \<Rightarrow> 'score tag_table" where
  "write_column_pii_tags db now src tbl tags confidence =
     (let kept = drop_heuristic src tbl db;
          claimed = overridden src tbl kept
      in (\<lambda>k. if tk_source k = src \<and> tk_table k = tbl \<and> \<not> claimed (tk_column k) then
               (case tags (tk_column k) of
                  Some tag \<Rightarrow> Some (heuristic_row now tag (confidence (tk_column k)))
                | None \<Rightarrow> kept k)
             else kept k))"

text \<open>The operator's override of one column. The upsert leaves the confidence columns of an existing
  row as they are.\<close>

definition upsert_column_pii_tag_override ::
  "'score tag_table \<Rightarrow> int \<Rightarrow> tag_key \<Rightarrow> sensitivity \<Rightarrow> pii_category set \<Rightarrow> bool \<Rightarrow> tag_error + 'score tag_table" where
  "upsert_column_pii_tag_override db now k sens cats force =
     (let dropped = (case db k of None \<Rightarrow> {} | Some prior \<Rightarrow> CATASTROPHIC_NAMES \<inter> decode_pii_categories (tr_categories prior))
      in if \<not> force \<and> cats \<inter> CATASTROPHIC_LEAK_CATEGORIES = {} \<and> dropped \<noteq> {}
         then Inl (CatastrophicDowngrade k dropped)
         else Inr (db(k \<mapsto>
           (case db k of
              None \<Rightarrow> \<lparr>tr_sensitivity = sens, tr_categories = encode_pii_categories (category_names cats),
                       tr_origin = Operator, tr_classified_at = now, tr_confidence = None, tr_score = None\<rparr>
            | Some r \<Rightarrow> r\<lparr>tr_sensitivity := sens, tr_categories := encode_pii_categories (category_names cats),
                         tr_origin := Operator, tr_classified_at := now\<rparr>))))"

definition delete_column_pii_tag_override :: "'score tag_table \<Rightarrow> tag_key \<Rightarrow> bool \<Rightarrow> tag_error + ('score tag_table \<times> bool)" where
  "delete_column_pii_tag_override db k force =
     (case db k of
        None \<Rightarrow> Inr (db, False)
      | Some r \<Rightarrow>
          if tr_origin r \<noteq> Operator then Inr (db, False)
          else (let dropped = CATASTROPHIC_NAMES \<inter> decode_pii_categories (tr_categories r)
                in if \<not> force \<and> dropped \<noteq> {} then Inl (CatastrophicDowngrade k dropped)
                   else Inr (db(k := None), True)))"

subsection \<open>Reads\<close>

definition get_column_pii_tags :: "'score tag_table \<Rightarrow> string \<Rightarrow> string \<Rightarrow> string list
    \<Rightarrow> (string \<times> sensitivity \<times> string set) list" where
  "get_column_pii_tags db src tbl columns =
     List.map_filter (\<lambda>c. map_option (\<lambda>r. (c, tr_sensitivity r, decode_pii_categories (tr_categories r)))
       (db \<lparr>tk_source = src, tk_table = tbl, tk_column = c\<rparr>)) (remdups columns)"

definition get_column_pii_confidence :: "'score tag_table \<Rightarrow> string \<Rightarrow> string \<Rightarrow> string list
    \<Rightarrow> (string \<times> confidence_band option \<times> 'score option) list" where
  "get_column_pii_confidence db src tbl columns =
     List.map_filter (\<lambda>c. map_option (\<lambda>r. (c, tr_confidence r, tr_score r))
       (db \<lparr>tk_source = src, tk_table = tbl, tk_column = c\<rparr>)) (remdups columns)"

subsection \<open>The catastrophic floor\<close>

definition floor_tagged :: "'score tag_table \<Rightarrow> tag_key \<Rightarrow> bool" where
  "floor_tagged db k \<longleftrightarrow>
     (case db k of None \<Rightarrow> False | Some r \<Rightarrow> CATASTROPHIC_NAMES \<inter> decode_pii_categories (tr_categories r) \<noteq> {})"

datatype tag_op =
    Index int string string "string \<rightharpoonup> column_pii_tag"
  | Override int tag_key sensitivity "pii_category set"
  | Clear tag_key

text \<open>The three writes without the force flag; a refused one changes nothing.\<close>

fun run_tag_op :: "tag_op \<Rightarrow> 'score tag_table \<Rightarrow> 'score tag_table" where
  "run_tag_op (Index now src tbl tags) db = write_column_pii_tags db now src tbl tags (\<lambda>c. None)"
| "run_tag_op (Override now k sens cats) db =
     (case upsert_column_pii_tag_override db now k sens cats False of Inr db' \<Rightarrow> db' | Inl e \<Rightarrow> db)"
| "run_tag_op (Clear k) db =
     (case delete_column_pii_tag_override db k False of Inr (db', b) \<Rightarrow> db' | Inl e \<Rightarrow> db)"

text \<open>An index run respects a column when it does not cover its table or tags it catastrophic again.\<close>

fun op_reclassifies :: "tag_op \<Rightarrow> tag_key \<Rightarrow> bool" where
  "op_reclassifies (Index now src tbl tags) k \<longleftrightarrow>
     tk_source k \<noteq> src \<or> tk_table k \<noteq> tbl
     \<or> (case tags (tk_column k) of Some (s, cs) \<Rightarrow> cs \<inter> CATASTROPHIC_LEAK_CATEGORIES \<noteq> {} | None \<Rightarrow> False)"
| "op_reclassifies _ k \<longleftrightarrow> True"

lemma catastrophic_names_inter:
  "CATASTROPHIC_NAMES \<inter> category_names cs \<noteq> {} \<longleftrightarrow> cs \<inter> CATASTROPHIC_LEAK_CATEGORIES \<noteq> {}"
  by (auto simp: CATASTROPHIC_NAMES_def category_names_def category_name_inj)

lemma tag_key_eta: "\<lparr>tk_source = tk_source k, tk_table = tk_table k, tk_column = tk_column k\<rparr> = k"
  by simp

lemma index_floor:
  assumes "floor_tagged db k" "op_reclassifies (Index now src tbl tags) k"
  shows "floor_tagged (write_column_pii_tags db now src tbl tags confidence) k"
  using assms
  by (auto simp: floor_tagged_def write_column_pii_tags_def Let_def drop_heuristic_def overridden_def heuristic_row_def
      catastrophic_names_inter tag_key_eta split: option.splits if_splits prod.splits)

lemma upsert_floor:
  assumes "floor_tagged db k" "upsert_column_pii_tag_override db now k' sens cats False = Inr db'"
  shows "floor_tagged db' k"
  using assms
  by (cases "db k'"; cases "k = k'")
    (auto simp: floor_tagged_def upsert_column_pii_tag_override_def Let_def catastrophic_names_inter split: if_splits)

lemma delete_floor:
  assumes "floor_tagged db k" "delete_column_pii_tag_override db k' False = Inr (db', b)"
  shows "floor_tagged db' k"
  using assms
  by (auto simp: floor_tagged_def delete_column_pii_tag_override_def Let_def split: option.splits if_splits)

text \<open>C19: The catastrophic floor holds across any sequence of unforced writes: a column whose stored row has
  a catastrophic category keeps one through every override, every removal of an override (refused or
  not) and every index run that classifies it so again.\<close>

theorem floor_invariant:
  assumes "floor_tagged db k" "\<forall>oper \<in> set ops. op_reclassifies oper k"
  shows "floor_tagged (fold run_tag_op ops db) k"
  using assms
proof (induction ops arbitrary: db)
  case Nil
  then show ?case by simp
next
  case (Cons x ops)
  have "floor_tagged (run_tag_op x db) k"
    using Cons.prems index_floor upsert_floor delete_floor
    by (cases x) (auto split: sum.splits simp del: op_reclassifies.simps)
  then show ?case using Cons by simp
qed

definition demo_key :: tag_key where
  "demo_key = \<lparr>tk_source = ''s'', tk_table = ''public.users'', tk_column = ''password''\<rparr>"

definition demo_tags :: "string \<rightharpoonup> column_pii_tag" where
  "demo_tags = [''password'' \<mapsto> (Pii, {Credential})]"

definition demo_table :: "nat tag_table" where
  "demo_table = write_column_pii_tags Map.empty 0 ''s'' ''public.users'' demo_tags (\<lambda>c. None)"

lemma demo_table_floor: "floor_tagged demo_table demo_key"
proof -
  have "CATASTROPHIC_NAMES \<inter> category_names {Credential} \<noteq> {}"
    unfolding catastrophic_names_inter by (simp add: CATASTROPHIC_LEAK_CATEGORIES_def)
  then show ?thesis
    by (simp add: demo_table_def write_column_pii_tags_def Let_def drop_heuristic_def overridden_def demo_key_def
      floor_tagged_def heuristic_row_def demo_tags_def)
qed

theorem floor_invariant_witness:
  "floor_tagged (fold run_tag_op [Override 1 demo_key Internal {}, Clear demo_key,
     Index 2 ''s'' ''public.users'' demo_tags, Override 3 demo_key Pii {Payment_Card}, Clear demo_key] demo_table) demo_key"
  by (rule floor_invariant [OF demo_table_floor])
    (auto simp: demo_tags_def demo_key_def CATASTROPHIC_LEAK_CATEGORIES_def)

lemma write_column_pii_tags_at:
  "write_column_pii_tags db now src tbl tags confidence k =
    (if tk_source k \<noteq> src \<or> tk_table k \<noteq> tbl then db k
     else if (\<exists>r. db k = Some r \<and> tr_origin r = Operator) then db k
     else map_option (\<lambda>tag. heuristic_row now tag (confidence (tk_column k))) (tags (tk_column k)))"
  by (cases "db k")
    (auto simp: write_column_pii_tags_def Let_def drop_heuristic_def overridden_def tag_key_eta
      split: option.splits intro: tag_origin.exhaust)

text \<open>An index run replaces exactly the heuristic rows of its table, for reads: the tag read for a column
  is that of the operator's row if there is one, else the new tag of the run, else nothing; the columns
  of every other table read as before.\<close>

theorem index_then_read:
  "get_column_pii_tags (write_column_pii_tags db now src tbl tags confidence) src' tbl' [c] =
    (if src' = src \<and> tbl' = tbl \<and> \<not> overridden src tbl db c
     then (case tags c of None \<Rightarrow> [] | Some (s, cs) \<Rightarrow> [(c, s, category_names cs)])
     else get_column_pii_tags db src' tbl' [c])"
  by (auto simp: get_column_pii_tags_def write_column_pii_tags_at overridden_def heuristic_row_def Let_def map_filter_simps
      split: option.splits prod.splits)

text \<open>C21: The floor guard looks at the stored row only. An override with no catastrophic category that is
  written before the column has a row is accepted without the force flag, and from then on an index run
  whose classifier tags the column as a credential leaves it without any catastrophic category.\<close>

theorem override_before_index_bypasses_floor:
  assumes "db k = None" "cats \<inter> CATASTROPHIC_LEAK_CATEGORIES = {}" "tags (tk_column k) = Some (Pii, {Credential})"
  shows "\<exists>db'. upsert_column_pii_tag_override db now k sens cats False = Inr db' \<and>
    \<not> floor_tagged (write_column_pii_tags db' now2 (tk_source k) (tk_table k) tags confidence) k"
proof -
  obtain db' where db': "upsert_column_pii_tag_override db now k sens cats False = Inr db'"
    using assms by (auto simp: upsert_column_pii_tag_override_def)
  then have r: "\<exists>r. db' k = Some r \<and> tr_origin r = Operator \<and>
      decode_pii_categories (tr_categories r) = category_names cats"
    using assms by (auto simp: upsert_column_pii_tag_override_def)
  then have n: "\<not> floor_tagged db' k"
    using assms(2) catastrophic_names_inter [of cats] by (auto simp: floor_tagged_def)
  have "write_column_pii_tags db' now2 (tk_source k) (tk_table k) tags confidence k = db' k"
    using r by (auto simp: write_column_pii_tags_at)
  then show ?thesis using db' n by (auto simp: floor_tagged_def)
qed

theorem override_before_index_bypasses_floor_witness:
  "\<exists>db'. upsert_column_pii_tag_override Map.empty 1 demo_key Public {} False = Inr db' \<and>
    \<not> floor_tagged (write_column_pii_tags db' 2 (tk_source demo_key) (tk_table demo_key) demo_tags (\<lambda>c. None)) demo_key"
  by (rule override_before_index_bypasses_floor) (simp_all add: demo_tags_def demo_key_def)

end
