(* ===== verification/PiiPolicy.thy ===== *)
theory PiiPolicy
  imports PiiCategories
begin

section \<open>The enforcement policy and its YAML form (pii/policy.py, pii/policy_yaml.py)\<close>

text \<open>
  The two dataclasses with the validation of their constructors, the parser of a policy document and
  the emitter. PyYAML is not part of the repository: \<open>safe_load\<close> and \<open>safe_dump\<close> are parameters,
  between text and the plain data of a document (\<open>yval\<close>). The main fact is the round trip: parsing
  what the emitter writes gives the policy back, its overrides in sorted order.
\<close>

subsection \<open>Documents and errors\<close>

datatype yval =
    YNone | YBool bool | YInt int | YFloat string | YStr string | YOther string
  | YList "yval list" | YMap "(yval \<times> yval) list"

datatype policy_error =
    YamlSyntax string | EmptyDocument | NotAMapping yval
  | MissingFields string "string list" | UnknownKeys string "yval list" | KeysNotComparable string
  | BadVersion yval | NotAString string yval
  | BlockNotAList yval | BlockItemNotAString yval | BlockDuplicate string
  | OverridesNotAMapping yval | OverrideKeyNotAString yval | OverrideNotAMapping string yval
  | SensitivityNotAString string yval | UnknownSensitivity string string
  | CategoriesNotAList string yval | CategoryNotAString string yval | CategoryDuplicate string string
  | BadQualifiedColumn string | UnknownCategories "string list"
  | UnknownBlock "string list" | DuplicateOverride string

subsection \<open>The dataclasses\<close>

record column_override =
  co_qualified_column :: string
  co_sensitivity :: sensitivity
  co_categories :: "pii_category set"

record policy =
  po_block :: "pii_category set"
  po_column_overrides :: "column_override list"
  po_description :: string

definition is_qualified_column :: "string \<Rightarrow> bool" where
  "is_qualified_column s \<longleftrightarrow>
     (case split_on CHR ''.'' s of [a, b, c] \<Rightarrow> is_ident a \<and> is_ident b \<and> is_ident c | _ \<Rightarrow> False)"

definition categories_of_names :: "string list \<Rightarrow> pii_category set" where
  "categories_of_names names = {c. category_name c \<in> set names}"

definition unknown_categories :: "string list \<Rightarrow> string list" where
  "unknown_categories names = sort (filter (\<lambda>n. category_of_name n = None) names)"

text \<open>\<open>ColumnOverride(...)\<close> and \<open>Policy(...)\<close> with \<^verbatim>\<open>__post_init__\<close>; the arguments are the raw strings.\<close>

definition make_column_override :: "string \<Rightarrow> string \<Rightarrow> string list \<Rightarrow> policy_error + column_override" where
  "make_column_override qualified_column sens categories =
     (if \<not> is_qualified_column qualified_column then Inl (BadQualifiedColumn qualified_column)
      else case sensitivity_of_name sens of
             None \<Rightarrow> Inl (UnknownSensitivity qualified_column sens)
           | Some s \<Rightarrow>
               if unknown_categories categories \<noteq> [] then Inl (UnknownCategories (unknown_categories categories))
               else Inr \<lparr>co_qualified_column = qualified_column, co_sensitivity = s,
                         co_categories = categories_of_names categories\<rparr>)"

fun first_duplicate :: "string set \<Rightarrow> column_override list \<Rightarrow> string option" where
  "first_duplicate seen [] = None"
| "first_duplicate seen (o1 # os) =
     (if co_qualified_column o1 \<in> seen then Some (co_qualified_column o1)
      else first_duplicate (insert (co_qualified_column o1) seen) os)"

definition make_policy :: "string list \<Rightarrow> column_override list \<Rightarrow> string \<Rightarrow> policy_error + policy" where
  "make_policy block overrides description =
     (if unknown_categories block \<noteq> [] then Inl (UnknownBlock (unknown_categories block))
      else case first_duplicate {} overrides of
             Some q \<Rightarrow> Inl (DuplicateOverride q)
           | None \<Rightarrow> Inr \<lparr>po_block = categories_of_names block, po_column_overrides = overrides,
                          po_description = description\<rparr>)"

definition qualified_table :: "column_override \<Rightarrow> string" where
  "qualified_table ov = (case split_on CHR ''.'' (co_qualified_column ov) of a # b # _ \<Rightarrow> a @ ''.'' @ b | _ \<Rightarrow> [])"

definition column_name :: "column_override \<Rightarrow> string" where
  "column_name ov = (case split_on CHR ''.'' (co_qualified_column ov) of _ # _ # c # _ \<Rightarrow> c | _ \<Rightarrow> [])"

subsection \<open>Parsing a document\<close>

definition lookup :: "(yval \<times> yval) list \<Rightarrow> string \<Rightarrow> yval option" where
  "lookup m k = map_of m (YStr k)"

text \<open>\<^verbatim>\<open>sorted(unknown)\<close> in the error message compares the keys with each other, which raises for keys of
  different kinds.\<close>

fun key_kind :: "yval \<Rightarrow> string" where
  "key_kind (YStr s) = ''str''"
| "key_kind (YInt i) = ''number''"
| "key_kind (YBool b) = ''number''"
| "key_kind (YFloat f) = ''number''"
| "key_kind (YOther t) = t"
| "key_kind _ = ''none''"

definition comparable_keys :: "yval list \<Rightarrow> bool" where
  "comparable_keys ks \<longleftrightarrow> length ks \<le> 1 \<or> (\<forall>k \<in> set ks. key_kind k = key_kind (hd ks) \<and> key_kind k \<noteq> ''none'')"

definition check_keys :: "(yval \<times> yval) list \<Rightarrow> string list \<Rightarrow> string list \<Rightarrow> string \<Rightarrow> policy_error + unit" where
  "check_keys m allowed required scope =
     (let keys = map fst m;
          missing = sort (filter (\<lambda>f. YStr f \<notin> set keys) required);
          unknown = filter (\<lambda>k. k \<notin> YStr ` set allowed) keys
      in if missing \<noteq> [] then Inl (MissingFields scope missing)
         else if unknown \<noteq> []
              then (if comparable_keys unknown then Inl (UnknownKeys scope unknown) else Inl (KeysNotComparable scope))
              else Inr ())"

definition check_version :: "yval \<Rightarrow> policy_error + unit" where
  "check_version v = (case v of YInt i \<Rightarrow> rcheck (i = 1) (BadVersion v) | _ \<Rightarrow> Inl (BadVersion v))"

definition optional_str :: "(yval \<times> yval) list \<Rightarrow> string \<Rightarrow> string \<Rightarrow> policy_error + string" where
  "optional_str m field dflt =
     (case lookup m field of None \<Rightarrow> Inr dflt | Some (YStr s) \<Rightarrow> Inr s | Some v \<Rightarrow> Inl (NotAString field v))"

text \<open>The loops over \<^verbatim>\<open>block\<close> and over \<^verbatim>\<open>categories\<close>: distinct strings, in the order met.\<close>

fun distinct_strings :: "(yval \<Rightarrow> policy_error) \<Rightarrow> (string \<Rightarrow> policy_error) \<Rightarrow> string set \<Rightarrow> yval list \<Rightarrow> policy_error + string list" where
  "distinct_strings not_str dup seen [] = Inr []"
| "distinct_strings not_str dup seen (v # vs) =
     (case v of
        YStr s \<Rightarrow> if s \<in> seen then Inl (dup s)
                 else rbind (distinct_strings not_str dup (insert s seen) vs) (\<lambda>ss. Inr (s # ss))
      | _ \<Rightarrow> Inl (not_str v))"

definition parse_block :: "yval \<Rightarrow> policy_error + string list" where
  "parse_block raw =
     (case raw of YList vs \<Rightarrow> distinct_strings BlockItemNotAString BlockDuplicate {} vs | _ \<Rightarrow> Inl (BlockNotAList raw))"

definition parse_override :: "yval \<times> yval \<Rightarrow> policy_error + column_override" where
  "parse_override kv =
     (case fst kv of
        YStr q \<Rightarrow>
          (case snd kv of
             YMap m \<Rightarrow>
               rbind (check_keys m [''sensitivity'', ''categories''] [''sensitivity''] (''column_overrides['' @ q @ '']''))
                 (\<lambda>_. case lookup m ''sensitivity'' of
                    Some (YStr sens) \<Rightarrow>
                      if sensitivity_of_name sens = None then Inl (UnknownSensitivity q sens)
                      else (case (case lookup m ''categories'' of None \<Rightarrow> YList [] | Some v \<Rightarrow> v) of
                              YList vs \<Rightarrow>
                                rbind (distinct_strings (CategoryNotAString q) (CategoryDuplicate q) {} vs)
                                  (\<lambda>cats. make_column_override q sens cats)
                            | v \<Rightarrow> Inl (CategoriesNotAList q v))
                  | Some v \<Rightarrow> Inl (SensitivityNotAString q v)
                  | None \<Rightarrow> Inl (MissingFields q [''sensitivity'']))
           | v \<Rightarrow> Inl (OverrideNotAMapping q v))
      | k \<Rightarrow> Inl (OverrideKeyNotAString k))"

definition parse_column_overrides :: "yval option \<Rightarrow> policy_error + column_override list" where
  "parse_column_overrides raw =
     (case raw of
        None \<Rightarrow> Inr []
      | Some YNone \<Rightarrow> Inr []
      | Some (YMap m) \<Rightarrow> rtraverse parse_override m
      | Some v \<Rightarrow> Inl (OverridesNotAMapping v))"

definition parse_policy_data :: "yval \<Rightarrow> policy_error + policy" where
  "parse_policy_data d =
     (case d of
        YNone \<Rightarrow> Inl EmptyDocument
      | YMap m \<Rightarrow>
          rbind (check_keys m [''version'', ''description'', ''block'', ''column_overrides''] [''version'', ''block''] ''top-level'') (\<lambda>_.
          rbind (check_version (the (lookup m ''version''))) (\<lambda>_.
          rbind (optional_str m ''description'' []) (\<lambda>description.
          rbind (parse_block (the (lookup m ''block''))) (\<lambda>block.
          rbind (parse_column_overrides (lookup m ''column_overrides'')) (\<lambda>overrides.
            make_policy block overrides description)))))
      | v \<Rightarrow> Inl (NotAMapping v))"

definition parse_policy_yaml :: "(string \<Rightarrow> policy_error + yval) \<Rightarrow> string \<Rightarrow> policy_error + policy" where
  "parse_policy_yaml safe_load text = rbind (safe_load text) parse_policy_data"

subsection \<open>Emitting a document\<close>

definition ordered_names :: "pii_category set \<Rightarrow> yval" where
  "ordered_names cs = YList (map (\<lambda>c. YStr (category_name c)) (filter (\<lambda>c. c \<in> cs) PII_CATEGORIES_ORDERED))"

definition override_body :: "column_override \<Rightarrow> yval \<times> yval" where
  "override_body ov =
     (YStr (co_qualified_column ov),
      YMap [(YStr ''sensitivity'', YStr (sensitivity_name (co_sensitivity ov))),
            (YStr ''categories'', ordered_names (co_categories ov))])"

definition policy_body :: "policy \<Rightarrow> yval" where
  "policy_body p = YMap
     ([(YStr ''version'', YInt 1)]
      @ (if po_description p \<noteq> [] then [(YStr ''description'', YStr (po_description p))] else [])
      @ [(YStr ''block'', ordered_names (po_block p))]
      @ (if po_column_overrides p \<noteq> []
         then [(YStr ''column_overrides'', YMap (map override_body (sort_key co_qualified_column (po_column_overrides p))))]
         else []))"

definition policy_to_yaml :: "(yval \<Rightarrow> string) \<Rightarrow> policy \<Rightarrow> string" where
  "policy_to_yaml safe_dump p = rstrip (safe_dump (policy_body p))"

subsection \<open>Validity\<close>

definition policy_ok :: "policy \<Rightarrow> bool" where
  "policy_ok p \<longleftrightarrow> distinct (map co_qualified_column (po_column_overrides p))
     \<and> list_all (\<lambda>ov. is_qualified_column (co_qualified_column ov)) (po_column_overrides p)"

lemma first_duplicate_None:
  "first_duplicate seen os = None \<longleftrightarrow>
    distinct (map co_qualified_column os) \<and> seen \<inter> set (map co_qualified_column os) = {}"
  by (induction seen os rule: first_duplicate.induct) auto

lemma parse_override_ok: "parse_override kv = Inr ov \<Longrightarrow> is_qualified_column (co_qualified_column ov)"
  by (auto simp: parse_override_def make_column_override_def result_simps split: yval.splits option.splits if_splits prod.splits)

text \<open>Every policy the parser accepts is valid: its override keys are \<^verbatim>\<open>schema.table.column\<close> with three
  identifiers, no column is overridden twice, and the accepted document had version 1 as an integer.\<close>

theorem parse_policy_valid:
  assumes "parse_policy_yaml safe_load text = Inr p"
  shows "policy_ok p \<and> (\<exists>m. safe_load text = Inr (YMap m) \<and> lookup m ''version'' = Some (YInt 1))"
proof -
  obtain d where d: "safe_load text = Inr d" "parse_policy_data d = Inr p"
    using assms by (auto simp: parse_policy_yaml_def result_simps)
  obtain m where m: "d = YMap m" using d(2) by (cases d) (simp_all add: parse_policy_data_def)
  obtain block overrides description where
    c: "check_keys m [''version'', ''description'', ''block'', ''column_overrides''] [''version'', ''block''] ''top-level'' = Inr ()"
    and v: "check_version (the (lookup m ''version'')) = Inr ()"
    and o: "parse_column_overrides (lookup m ''column_overrides'') = Inr overrides"
    and p: "make_policy block overrides description = Inr p"
    using d(2) by (auto simp: parse_policy_data_def m result_simps)
  have "YStr ''version'' \<in> fst ` set m"
    using c by (auto simp: check_keys_def Let_def filter_empty_conv insort_is_Cons split: if_splits)
  then obtain x where x: "lookup m ''version'' = Some x" by (metis lookup_def map_of_eq_None_iff not_None_eq)
  then have "x = YInt 1" using v by (cases x) (auto simp: check_version_def result_simps)
  moreover have "list_all (\<lambda>ov. is_qualified_column (co_qualified_column ov)) overrides"
    using o parse_override_ok
    by (force simp: parse_column_overrides_def list_all_iff split: option.splits yval.splits dest: rtraverse_Inr_set)
  moreover have "po_column_overrides p = overrides" "first_duplicate {} overrides = None"
    using p by (auto simp: make_policy_def split: if_splits option.splits)
  ultimately show ?thesis using x d(1) m by (simp add: policy_ok_def first_duplicate_None)
qed

subsection \<open>Round trip\<close>

lemma distinct_PII_CATEGORIES_ORDERED: "distinct PII_CATEGORIES_ORDERED"
  by (simp add: PII_CATEGORIES_ORDERED_def)

lemma distinct_strings_distinct:
  "distinct ss \<Longrightarrow> seen \<inter> set ss = {} \<Longrightarrow> distinct_strings f g seen (map YStr ss) = Inr ss"
  by (induction ss arbitrary: seen) (auto simp: result_simps)

definition names_in_order :: "pii_category set \<Rightarrow> string list" where
  "names_in_order cs = map category_name (filter (\<lambda>c. c \<in> cs) PII_CATEGORIES_ORDERED)"

lemma ordered_names_alt: "ordered_names cs = YList (map YStr (names_in_order cs))"
  by (simp add: ordered_names_def names_in_order_def)

lemma distinct_names_in_order: "distinct (names_in_order cs)"
  unfolding names_in_order_def distinct_map
  using distinct_PII_CATEGORIES_ORDERED by (auto simp: inj_on_def category_name_inj)

lemma unknown_names_in_order: "unknown_categories (names_in_order cs) = []"
  by (simp add: unknown_categories_def names_in_order_def filter_map comp_def category_of_name_name)

lemma categories_of_names_in_order: "categories_of_names (names_in_order cs) = cs"
  using PII_CATEGORIES_UNIV
  by (auto simp: categories_of_names_def names_in_order_def category_name_inj PII_CATEGORIES_def)

lemma parse_override_body:
  assumes "is_qualified_column (co_qualified_column ov)"
  shows "parse_override (override_body ov) = Inr ov"
  using assms
  by (simp add: parse_override_def override_body_def check_keys_def Let_def lookup_def ordered_names_alt
      sensitivity_of_name_name distinct_strings_distinct distinct_names_in_order make_column_override_def
      unknown_names_in_order categories_of_names_in_order)

lemma rtraverse_map_id: "(\<And>x. x \<in> set xs \<Longrightarrow> f (g x) = Inr x) \<Longrightarrow> rtraverse f (map g xs) = Inr xs"
  by (induction xs) simp_all

lemma parse_policy_body:
  assumes "policy_ok p"
  shows "parse_policy_data (policy_body p) =
    Inr (p\<lparr>po_column_overrides := sort_key co_qualified_column (po_column_overrides p)\<rparr>)"
proof -
  let ?os = "sort_key co_qualified_column (po_column_overrides p)"
  have "rtraverse parse_override (map override_body ?os) = Inr ?os"
    using assms by (intro rtraverse_map_id parse_override_body) (simp add: policy_ok_def list_all_iff)
  moreover have "first_duplicate {} ?os = None"
    using assms by (simp add: first_duplicate_None policy_ok_def distinct_map)
  moreover have "distinct_strings f g {} (map YStr (names_in_order cs)) = Inr (names_in_order cs)" for f g cs
    by (simp add: distinct_strings_distinct distinct_names_in_order)
  ultimately show ?thesis
    by (cases "po_description p = []"; cases "po_column_overrides p = []")
      (simp_all add: policy_body_def parse_policy_data_def check_keys_def Let_def lookup_def check_version_def rcheck_def
        optional_str_def ordered_names_alt parse_block_def parse_column_overrides_def make_policy_def
        unknown_names_in_order categories_of_names_in_order)
qed

text \<open>C20: Writing a valid policy and reading the text back gives the same policy with its overrides sorted by
  column, provided the YAML library reads back the one document it was given.\<close>

theorem policy_yaml_roundtrip:
  assumes "policy_ok p" "safe_load (rstrip (safe_dump (policy_body p))) = Inr (policy_body p)"
  shows "parse_policy_yaml safe_load (policy_to_yaml safe_dump p) =
    Inr (p\<lparr>po_column_overrides := sort_key co_qualified_column (po_column_overrides p)\<rparr>)"
  using assms by (simp add: parse_policy_yaml_def policy_to_yaml_def parse_policy_body)

definition sample_policy :: policy where
  "sample_policy = \<lparr>po_block = {Payment_Card, Credential},
     po_column_overrides =
       [\<lparr>co_qualified_column = ''public.users.email'', co_sensitivity = Internal, co_categories = {}\<rparr>,
        \<lparr>co_qualified_column = ''public.cards.last4'', co_sensitivity = Internal, co_categories = {Contact}\<rparr>],
     po_description = ''note''\<rparr>"

lemma sample_policy_ok: "policy_ok sample_policy"
  by (simp add: policy_ok_def sample_policy_def is_qualified_column_def char_class_defs)

theorem policy_yaml_roundtrip_witness:
  "parse_policy_yaml (\<lambda>t. Inr (policy_body sample_policy)) (policy_to_yaml (\<lambda>v. []) sample_policy) =
    Inr (sample_policy\<lparr>po_column_overrides := rev (po_column_overrides sample_policy)\<rparr>)"
  by (subst policy_yaml_roundtrip [OF sample_policy_ok]) (simp_all add: sample_policy_def)

theorem parse_policy_valid_witness:
  "policy_ok (sample_policy\<lparr>po_column_overrides := rev (po_column_overrides sample_policy)\<rparr>) \<and>
    (\<exists>m. Inr (policy_body sample_policy) = (Inr (YMap m) :: policy_error + yval) \<and> lookup m ''version'' = Some (YInt 1))"
proof (rule parse_policy_valid)
  show "parse_policy_yaml (\<lambda>t. Inr (policy_body sample_policy)) [] =
      Inr (sample_policy\<lparr>po_column_overrides := rev (po_column_overrides sample_policy)\<rparr>)"
    using parse_policy_body [OF sample_policy_ok] by (simp add: parse_policy_yaml_def sample_policy_def)
qed

end
