(* ===== verification/MeasureExpression.thy ===== *)
theory MeasureExpression
  imports Prelude
begin

section \<open>Composite measures (semantic/compiler/measure_expression.py)\<close>

text \<open>
  The whitelist walk over a parsed expression and its rendering into SQL. \<^verbatim>\<open>ast.parse\<close> is the
  parameter \<open>ast_parse\<close>; the trees it returns are \<open>py_expr\<close>, where every node and operator outside the
  whitelist keeps only its type name. A float literal carries its \<^verbatim>\<open>repr\<close>. The rendering of an
  accepted tree determines the tree, stays within a small alphabet and cannot open an SQL comment.
\<close>

subsection \<open>Trees\<close>

datatype py_float = Finite string | NonFinite string

datatype py_operator = Add | Sub | Mult | Div | OtherOperator string

datatype py_unary = USub | OtherUnary string

datatype py_expr =
    Name string
  | ConstInt int
  | ConstFloat py_float
  | ConstBool bool
  | ConstOther string
  | BinOp py_expr py_operator py_expr
  | UnaryOp py_unary py_expr
  | OtherNode string

datatype reason =
    EmptyExpression | SyntaxProblem string | InvalidIdentifier string | BooleanLiteral bool
  | NonFiniteLiteral string | NonNumericLiteral string | OperatorNotAllowed string
  | UnaryNotAllowed string | NodeNotAllowed string | NoColumn

datatype expression_error = Malformed string reason

subsection \<open>The walk\<close>

text \<open>\<open>_walk\<close>: the columns in the order they are met, or the first violation.\<close>

fun walk :: "string \<Rightarrow> py_expr \<Rightarrow> expression_error + string list" where
  "walk source (Name n) =
     (if \<not> is_ident n then Inl (Malformed source (InvalidIdentifier n)) else Inr [n])"
| "walk source (ConstInt i) = Inr []"
| "walk source (ConstFloat (Finite r)) = Inr []"
| "walk source (ConstFloat (NonFinite r)) = Inl (Malformed source (NonFiniteLiteral r))"
| "walk source (ConstBool b) = Inl (Malformed source (BooleanLiteral b))"
| "walk source (ConstOther t) = Inl (Malformed source (NonNumericLiteral t))"
| "walk source (BinOp l op r) =
     (case op of
        OtherOperator t \<Rightarrow> Inl (Malformed source (OperatorNotAllowed t))
      | _ \<Rightarrow> rbind (walk source l) (\<lambda>cs. rbind (walk source r) (\<lambda>ds. Inr (cs @ ds))))"
| "walk source (UnaryOp op e) =
     (case op of
        OtherUnary t \<Rightarrow> Inl (Malformed source (UnaryNotAllowed t))
      | USub \<Rightarrow> walk source e)"
| "walk source (OtherNode t) = Inl (Malformed source (NodeNotAllowed t))"

record parsed_measure_expression =
  pm_expression :: string
  pm_ast_node :: py_expr
  pm_columns :: "string set"

definition parse_measure_expression ::
  "(string \<Rightarrow> string + py_expr) \<Rightarrow> string \<Rightarrow> expression_error + parsed_measure_expression" where
  "parse_measure_expression ast_parse expression =
     (if list_all is_space expression then Inl (Malformed expression EmptyExpression)
      else case ast_parse expression of
             Inl msg \<Rightarrow> Inl (Malformed expression (SyntaxProblem msg))
           | Inr tree \<Rightarrow>
               rbind (walk expression tree) (\<lambda>columns.
                 if columns = [] then Inl (Malformed expression NoColumn)
                 else Inr \<lparr>pm_expression = expression, pm_ast_node = tree, pm_columns = set columns\<rparr>))"

subsection \<open>Rendering\<close>

datatype render_error = ParserBypassed

definition dquote :: char where
  "dquote = CHR 0x22"

fun binop_sql :: "py_operator \<Rightarrow> string option" where
  "binop_sql Add = Some ''+''"
| "binop_sql Sub = Some ''-''"
| "binop_sql Mult = Some ''*''"
| "binop_sql Div = Some ''/''"
| "binop_sql (OtherOperator t) = None"

fun render_measure_expression :: "string \<Rightarrow> py_expr \<Rightarrow> render_error + string" where
  "render_measure_expression a (Name n) = Inr (a @ ''.'' @ [dquote] @ n @ [dquote])"
| "render_measure_expression a (ConstInt i) = Inr (dec_of_int i)"
| "render_measure_expression a (ConstFloat (Finite r)) = Inr r"
| "render_measure_expression a (ConstFloat (NonFinite r)) = Inr r"
| "render_measure_expression a (ConstBool b) = Inl ParserBypassed"
| "render_measure_expression a (ConstOther t) = Inl ParserBypassed"
| "render_measure_expression a (BinOp l op r) =
     (case binop_sql op of
        None \<Rightarrow> Inl ParserBypassed
      | Some sql \<Rightarrow>
          rbind (render_measure_expression a l) (\<lambda>left.
          rbind (render_measure_expression a r) (\<lambda>right.
            Inr (''('' @ left @ '' '' @ sql @ '' '' @ right @ '')''))))"
| "render_measure_expression a (UnaryOp op e) =
     (case op of
        OtherUnary t \<Rightarrow> Inl ParserBypassed
      | USub \<Rightarrow> rbind (render_measure_expression a e) (\<lambda>operand. Inr (''(-'' @ operand @ '')'')))"
| "render_measure_expression a (OtherNode t) = Inl ParserBypassed"

subsection \<open>The whitelist\<close>

text \<open>The whitelist as a predicate, and the columns of a tree, independent of the walk.\<close>

fun allowed :: "py_expr \<Rightarrow> bool" where
  "allowed (Name n) = is_ident n"
| "allowed (ConstInt i) = True"
| "allowed (ConstFloat f) = (case f of Finite r \<Rightarrow> True | NonFinite r \<Rightarrow> False)"
| "allowed (BinOp l op r) = (op \<in> {Add, Sub, Mult, Div} \<and> allowed l \<and> allowed r)"
| "allowed (UnaryOp op e) = (op = USub \<and> allowed e)"
| "allowed _ = False"

fun columns_of :: "py_expr \<Rightarrow> string set" where
  "columns_of (Name n) = {n}"
| "columns_of (BinOp l op r) = columns_of l \<union> columns_of r"
| "columns_of (UnaryOp op e) = columns_of e"
| "columns_of _ = {}"

lemma walk_Inr: "walk src e = Inr cs \<Longrightarrow> allowed e \<and> set cs = columns_of e"
  by (induction src e arbitrary: cs rule: walk.induct)
    (auto simp: result_simps split: if_splits py_operator.splits py_unary.splits)

lemma walk_allowed: "allowed e \<Longrightarrow> \<exists>cs. walk src e = Inr cs"
  by (induction src e rule: walk.induct) (auto simp: result_simps split: py_operator.splits)

text \<open>The parser accepts exactly the whitelist: a non-blank text that parses to a tree of identifiers,
  integers, finite floats, the four operations and unary minus, with at least one column; and the
  columns it reports are exactly those of the tree.\<close>

theorem parse_accepts_whitelist:
  "parse_measure_expression ast_parse s = Inr p \<longleftrightarrow>
    \<not> list_all is_space s \<and> (\<exists>t. ast_parse s = Inr t \<and> allowed t \<and> columns_of t \<noteq> {} \<and>
      p = \<lparr>pm_expression = s, pm_ast_node = t, pm_columns = columns_of t\<rparr>)"
proof
  assume "parse_measure_expression ast_parse s = Inr p"
  then obtain t cs where "\<not> list_all is_space s" "ast_parse s = Inr t" "walk s t = Inr cs" "cs \<noteq> []"
    "p = \<lparr>pm_expression = s, pm_ast_node = t, pm_columns = set cs\<rparr>"
    by (auto simp: parse_measure_expression_def result_simps split: if_splits sum.splits)
  then show "\<not> list_all is_space s \<and> (\<exists>t. ast_parse s = Inr t \<and> allowed t \<and> columns_of t \<noteq> {} \<and>
      p = \<lparr>pm_expression = s, pm_ast_node = t, pm_columns = columns_of t\<rparr>)"
    using walk_Inr [of s t cs] by auto
next
  assume "\<not> list_all is_space s \<and> (\<exists>t. ast_parse s = Inr t \<and> allowed t \<and> columns_of t \<noteq> {} \<and>
      p = \<lparr>pm_expression = s, pm_ast_node = t, pm_columns = columns_of t\<rparr>)"
  then obtain t where t: "\<not> list_all is_space s" "ast_parse s = Inr t" "allowed t" "columns_of t \<noteq> {}"
    "p = \<lparr>pm_expression = s, pm_ast_node = t, pm_columns = columns_of t\<rparr>" by blast
  then obtain cs where "walk s t = Inr cs" using walk_allowed by blast
  then show "parse_measure_expression ast_parse s = Inr p"
    using t walk_Inr [of s t cs] by (auto simp: parse_measure_expression_def)
qed

subsection \<open>The rendering is unambiguous\<close>

text \<open>The text of an accepted tree, as a total function.\<close>

fun text_of :: "string \<Rightarrow> py_expr \<Rightarrow> string" where
  "text_of a (Name n) = a @ ''.'' @ [dquote] @ n @ [dquote]"
| "text_of a (ConstInt i) = dec_of_int i"
| "text_of a (ConstFloat (Finite r)) = r"
| "text_of a (ConstFloat (NonFinite r)) = r"
| "text_of a (BinOp l op r) =
     ''('' @ text_of a l @ '' '' @ (case binop_sql op of Some s \<Rightarrow> s | None \<Rightarrow> []) @ '' '' @ text_of a r @ '')''"
| "text_of a (UnaryOp op e) = ''(-'' @ text_of a e @ '')''"
| "text_of a _ = []"

lemma render_allowed: "allowed e \<Longrightarrow> render_measure_expression a e = Inr (text_of a e)"
  by (induction a e rule: render_measure_expression.induct)
    (auto simp: result_simps split: py_operator.splits option.splits)

text \<open>What Python's parser and \<^verbatim>\<open>repr\<close> guarantee of literals: integers are not negative, a finite float's
  text starts with a digit, has only digits and \<^verbatim>\<open>.e+-\<close>, is no integer's text, has no two minus
  signs in a row and does not end in one.\<close>

definition comment_pair :: "char \<Rightarrow> char \<Rightarrow> bool" where
  "comment_pair c d \<longleftrightarrow> (c = CHR ''-'' \<and> d = CHR ''-'') \<or> (c = CHR ''/'' \<and> d = CHR ''*'')"

fun comment_free :: "string \<Rightarrow> bool" where
  "comment_free (c # d # s) = (\<not> comment_pair c d \<and> comment_free (d # s))"
| "comment_free _ = True"

definition is_float_text :: "string \<Rightarrow> bool" where
  "is_float_text r \<longleftrightarrow> r \<noteq> [] \<and> is_digit (hd r) \<and> list_all (\<lambda>c. is_digit c \<or> c \<in> set ''.e+-'') r
     \<and> \<not> list_all is_digit r \<and> comment_free r \<and> last r \<noteq> CHR ''-''"

fun python_tree :: "py_expr \<Rightarrow> bool" where
  "python_tree (ConstInt i) = (0 \<le> i)"
| "python_tree (ConstFloat (Finite r)) = is_float_text r"
| "python_tree (BinOp l op r) = (python_tree l \<and> python_tree r)"
| "python_tree (UnaryOp op e) = python_tree e"
| "python_tree _ = True"

definition num_char :: "char \<Rightarrow> bool" where
  "num_char c \<longleftrightarrow> is_digit c \<or> c \<in> set ''.e+-''"

definition ends_token :: "string \<Rightarrow> bool" where
  "ends_token s \<longleftrightarrow> (case s of [] \<Rightarrow> True | c # _ \<Rightarrow> c = CHR '' '' \<or> c = CHR '')'')"

lemma number_unique:
  assumes "list_all num_char x" "list_all num_char y" "ends_token s" "ends_token t" "x @ s = y @ t"
  shows "x = y \<and> s = t"
proof -
  have n: "\<not> num_char c" if "c = CHR '' '' \<or> c = CHR '')''" for c
    using that by (auto simp: num_char_def is_digit_def)
  have tail: "\<exists>c r. u @ '' '' = c # r \<and> \<not> num_char c" if "ends_token u" for u
    using n that by (cases u) (auto simp: ends_token_def)
  obtain c r where c: "s @ '' '' = c # r" "\<not> num_char c" using tail [OF assms(3)] by blast
  obtain d q where d: "t @ '' '' = d # q" "\<not> num_char d" using tail [OF assms(4)] by blast
  have "x @ (s @ '' '') = y @ (t @ '' '')" using assms(5) by (metis append_assoc)
  then have "x @ c # r = y @ d # q" by (simp only: c(1) d(1))
  with span_unique [OF assms(1,2) c(2) d(2)] have "x = y" by blast
  then show ?thesis using assms(5) by simp
qed

lemma dec_of_int_num: "0 \<le> i \<Longrightarrow> list_all num_char (dec_of_int i) \<and> list_all is_digit (dec_of_int i)"
  using dec_of_nat_digits [of "nat i"] by (auto simp: dec_of_int_def num_char_def list_all_iff)

lemma float_text_num: "is_float_text r \<Longrightarrow> list_all num_char r"
  by (auto simp: is_float_text_def num_char_def list_all_iff)

lemma dec_of_int_hd: "0 \<le> i \<Longrightarrow> \<exists>c cs. dec_of_int i = c # cs \<and> is_digit c"
  using dec_of_nat_head [of "nat i"] by (simp add: dec_of_int_def)

lemma float_text_hd: "is_float_text r \<Longrightarrow> \<exists>c cs. r = c # cs \<and> is_digit c"
  by (cases r) (simp_all add: is_float_text_def)

text \<open>The first character of a text tells the kind of the node, and is never a minus sign.\<close>

fun head_kind :: "py_expr \<Rightarrow> char \<Rightarrow> bool" where
  "head_kind (Name n) c = (c = dquote)"
| "head_kind (ConstInt i) c = is_digit c"
| "head_kind (ConstFloat f) c = is_digit c"
| "head_kind _ c = (c = CHR ''('')"

lemma text_head:
  assumes "allowed e" "python_tree e"
  shows "\<exists>c cs. text_of (dquote # a) e = c # cs \<and> head_kind e c"
  using assms dec_of_int_hd float_text_hd
  by (cases e) (auto split: py_float.splits)

lemma head_kind_no_minus: "head_kind e c \<Longrightarrow> c \<noteq> CHR ''-''"
  by (cases e) (auto simp: dquote_def is_digit_def)

lemma binop_sql_inj:
  "op \<in> {Add, Sub, Mult, Div} \<Longrightarrow> op' \<in> {Add, Sub, Mult, Div} \<Longrightarrow>
    \<exists>c d. binop_sql op = Some [c] \<and> binop_sql op' = Some [d] \<and> (c = d \<longleftrightarrow> op = op')"
  by auto

lemma head_kind_same:
  "head_kind e c \<Longrightarrow> head_kind e' c \<Longrightarrow> allowed e \<Longrightarrow> allowed e' \<Longrightarrow>
    (\<exists>n n'. e = Name n \<and> e' = Name n') \<or>
    ((\<exists>i. e = ConstInt i) \<or> (\<exists>f. e = ConstFloat f)) \<and> ((\<exists>i. e' = ConstInt i) \<or> (\<exists>f. e' = ConstFloat f)) \<or>
    ((\<exists>l op r. e = BinOp l op r) \<or> (\<exists>op x. e = UnaryOp op x)) \<and>
      ((\<exists>l op r. e' = BinOp l op r) \<or> (\<exists>op x. e' = UnaryOp op x))"
  by (cases e; cases e') (auto simp: dquote_def is_digit_def)

lemma number_text:
  assumes "allowed e" "python_tree e" "(\<exists>i. e = ConstInt i) \<or> (\<exists>f. e = ConstFloat f)"
  shows "list_all num_char (text_of a e) \<and> (list_all is_digit (text_of a e) \<longleftrightarrow> (\<exists>i. e = ConstInt i))"
  using assms dec_of_int_num float_text_num
  by (auto split: py_float.splits simp: is_float_text_def)

lemma text_of_unique:
  assumes "allowed e" "python_tree e" "allowed e'" "python_tree e'" "ends_token s" "ends_token s'"
    "text_of (dquote # a) e @ s = text_of (dquote # a) e' @ s'"
  shows "e = e' \<and> s = s'"
  using assms
proof (induction e arbitrary: e' s s')
  case (Name n)
  obtain c cs c' cs' where h: "text_of (dquote # a) (Name n) = c # cs" "head_kind (Name n) c"
    "text_of (dquote # a) e' = c' # cs'" "head_kind e' c'"
    using text_head Name by meson
  then obtain n' where e': "e' = Name n'" using head_kind_same [of "Name n" c e'] Name.prems by auto
  with Name.prems have "n @ dquote # s = n' @ dquote # s'" by simp
  moreover have "list_all (\<lambda>c. c \<noteq> dquote) n" "list_all (\<lambda>c. c \<noteq> dquote) n'"
    using Name.prems e' is_ident_chars ident_char_neq by (auto simp: list_all_iff dquote_def)
  ultimately show ?case using span_unique [of "\<lambda>c. c \<noteq> dquote" n n' dquote dquote s s'] e' by simp
next
  case (ConstInt i)
  obtain c cs c' cs' where h: "text_of (dquote # a) (ConstInt i) = c # cs" "head_kind (ConstInt i) c"
    "text_of (dquote # a) e' = c' # cs'" "head_kind e' c'"
    using text_head ConstInt by meson
  then have k: "(\<exists>j. e' = ConstInt j) \<or> (\<exists>f. e' = ConstFloat f)"
    using head_kind_same [of "ConstInt i" c e'] ConstInt.prems by auto
  have "text_of (dquote # a) (ConstInt i) = text_of (dquote # a) e' \<and> s = s'"
    using number_unique number_text [of "ConstInt i"] number_text [OF _ _ k] ConstInt.prems by blast
  then show ?case using number_text [of "ConstInt i" "dquote # a"] number_text [OF _ _ k, of "dquote # a"] ConstInt.prems
    by (auto simp: dec_of_int_inj)
next
  case (ConstFloat f)
  obtain c cs c' cs' where h: "text_of (dquote # a) (ConstFloat f) = c # cs" "head_kind (ConstFloat f) c"
    "text_of (dquote # a) e' = c' # cs'" "head_kind e' c'"
    using text_head ConstFloat by meson
  then have k: "(\<exists>j. e' = ConstInt j) \<or> (\<exists>f. e' = ConstFloat f)"
    using head_kind_same [of "ConstFloat f" c e'] ConstFloat.prems by auto
  have "text_of (dquote # a) (ConstFloat f) = text_of (dquote # a) e' \<and> s = s'"
    using number_unique number_text [of "ConstFloat f"] number_text [OF _ _ k] ConstFloat.prems by blast
  moreover have "\<not> (\<exists>j. e' = ConstInt j)"
    using calculation number_text [of "ConstFloat f" "dquote # a"] number_text [OF _ _ k, of "dquote # a"] ConstFloat.prems
    by auto
  ultimately show ?case using k ConstFloat.prems by (auto split: py_float.splits)
next
  case (BinOp l op r)
  obtain c cs c' cs' where h: "text_of (dquote # a) (BinOp l op r) = c # cs" "head_kind (BinOp l op r) c"
    "text_of (dquote # a) e' = c' # cs'" "head_kind e' c'"
    using text_head [OF BinOp.prems(1,2)] text_head [OF BinOp.prems(3,4)] by meson
  then consider (b) l' op' r' where "e' = BinOp l' op' r'" | (u) op' x where "e' = UnaryOp op' x"
    using head_kind_same [of "BinOp l op r" c e'] BinOp.prems by auto
  then show ?case
  proof cases
    case b
    obtain o1 o2 where o: "binop_sql op = Some [o1]" "binop_sql op' = Some [o2]" "o1 = o2 \<longleftrightarrow> op = op'"
      using binop_sql_inj BinOp.prems(1,3) b by (metis allowed.simps(4))
    have "text_of (dquote # a) l @ '' '' @ [o1] @ '' '' @ text_of (dquote # a) r @ '')'' @ s =
        text_of (dquote # a) l' @ '' '' @ [o2] @ '' '' @ text_of (dquote # a) r' @ '')'' @ s'"
      using BinOp.prems(7) b o by simp
    from BinOp.IH(1) [OF _ _ _ _ _ _ this] BinOp.prems(1-4) b
    have "l = l'" "o1 = o2" "text_of (dquote # a) r @ '')'' @ s = text_of (dquote # a) r' @ '')'' @ s'"
      by (auto simp: ends_token_def)
    from BinOp.IH(2) [OF _ _ _ _ _ _ this(3)] BinOp.prems(1-4) b \<open>l = l'\<close> \<open>o1 = o2\<close> o(3)
    show ?thesis by (auto simp: ends_token_def)
  next
    case u
    obtain d ds where "text_of (dquote # a) l = d # ds" "head_kind l d" using text_head BinOp.prems(1,2) by fastforce
    then show ?thesis using BinOp.prems(7) u head_kind_no_minus by simp
  qed
next
  case (UnaryOp op x)
  obtain c cs c' cs' where h: "text_of (dquote # a) (UnaryOp op x) = c # cs" "head_kind (UnaryOp op x) c"
    "text_of (dquote # a) e' = c' # cs'" "head_kind e' c'"
    using text_head [OF UnaryOp.prems(1,2)] text_head [OF UnaryOp.prems(3,4)] by meson
  then consider (b) l' op' r' where "e' = BinOp l' op' r'" | (u) op' y where "e' = UnaryOp op' y"
    using head_kind_same [of "UnaryOp op x" c e'] UnaryOp.prems by auto
  then show ?case
  proof cases
    case b
    obtain d ds where "text_of (dquote # a) l' = d # ds" "head_kind l' d"
      using text_head UnaryOp.prems(3,4) b by fastforce
    then show ?thesis using UnaryOp.prems(7) b head_kind_no_minus by auto
  next
    case u
    then have "text_of (dquote # a) x @ '')'' @ s = text_of (dquote # a) y @ '')'' @ s'" using UnaryOp.prems(7) by simp
    from UnaryOp.IH [OF _ _ _ _ _ _ this] UnaryOp.prems(1-4) u show ?thesis by (auto simp: ends_token_def)
  qed
qed simp_all

text \<open>The SQL of a measure determines the expression: two accepted expressions rendered for the same
  table alias with the same text are the same tree. Operator precedence, literals and column names cannot
  be confused, whatever the nesting.\<close>

theorem render_injective:
  assumes "allowed e" "python_tree e" "allowed e'" "python_tree e'"
    and "render_measure_expression (dquote # a) e = render_measure_expression (dquote # a) e'"
  shows "e = e'"
  using text_of_unique [OF assms(1-4), of "[]" "[]" a] assms(5)
  by (simp add: render_allowed assms(1,3) ends_token_def)

theorem render_injective_witness:
  "render_measure_expression (dquote # ''o'' @ [dquote]) (BinOp (Name ''a'') Sub (BinOp (Name ''b'') Sub (ConstInt 1)))
     \<noteq> render_measure_expression (dquote # ''o'' @ [dquote]) (BinOp (BinOp (Name ''a'') Sub (Name ''b'')) Sub (ConstInt 1))"
  using render_injective [of "BinOp (Name ''a'') Sub (BinOp (Name ''b'') Sub (ConstInt 1))"
      "BinOp (BinOp (Name ''a'') Sub (Name ''b'')) Sub (ConstInt 1)" "''o'' @ [dquote]"]
  by (simp add: char_class_defs)

subsection \<open>The rendering is harmless SQL\<close>

lemma comment_free_append:
  "comment_free (x @ y) \<longleftrightarrow> comment_free x \<and> comment_free y \<and> (x = [] \<or> y = [] \<or> \<not> comment_pair (last x) (hd y))"
proof (induction x)
  case (Cons c x)
  then show ?case by (cases x; cases y) auto
qed simp

definition quoted :: "string \<Rightarrow> string" where
  "quoted n = dquote # n @ [dquote]"

text \<open>Characters an expression may contain, and the two that begin a comment.\<close>

definition sql_char :: "char \<Rightarrow> bool" where
  "sql_char c \<longleftrightarrow> ident_char c \<or> c = dquote \<or> c \<in> set ''.() +-*/''"

definition harmless :: "string \<Rightarrow> bool" where
  "harmless s \<longleftrightarrow> s \<noteq> [] \<and> comment_free s \<and> list_all sql_char s \<and> hd s \<noteq> CHR ''-'' \<and> hd s \<noteq> CHR ''*''
     \<and> last s \<noteq> CHR ''-'' \<and> last s \<noteq> CHR ''/''"

definition plain_char :: "char \<Rightarrow> bool" where
  "plain_char c \<longleftrightarrow> sql_char c \<and> c \<noteq> CHR ''-'' \<and> c \<noteq> CHR ''/'' \<and> c \<noteq> CHR ''*''"

lemma plain_ident_char: "ident_char c \<Longrightarrow> plain_char c"
  by (auto simp: plain_char_def sql_char_def char_class_defs)

lemma plain_digit: "is_digit c \<Longrightarrow> plain_char c"
  by (rule plain_ident_char) (simp add: ident_char_def)

lemma plain_marks: "plain_char dquote" "plain_char CHR ''.''"
  by (simp_all add: plain_char_def sql_char_def dquote_def)

lemma harmless_plain: "s \<noteq> [] \<Longrightarrow> list_all plain_char s \<Longrightarrow> harmless s"
proof -
  assume s: "s \<noteq> []" "list_all plain_char s"
  then have "plain_char (hd s)" "plain_char (last s)" by (simp_all add: list_all_iff)
  moreover have "comment_free s" using s(2)
    by (induction s rule: comment_free.induct) (auto simp: comment_pair_def plain_char_def)
  moreover have "list_all sql_char s" using s(2) by (auto simp: list_all_iff plain_char_def)
  ultimately show "harmless s" using s(1) by (simp add: harmless_def plain_char_def)
qed

lemma harmless_column: "is_ident n \<Longrightarrow> is_ident m \<Longrightarrow> harmless (quoted n @ ''.'' @ [dquote] @ m @ [dquote])"
  using is_ident_chars [of n] is_ident_chars [of m] plain_ident_char plain_marks
  by (intro harmless_plain) (auto simp: quoted_def list_all_iff)

lemma harmless_int: "0 \<le> i \<Longrightarrow> harmless (dec_of_int i)"
  using dec_of_int_num [of i] dec_of_int_hd [of i] plain_digit
  by (intro harmless_plain) (auto simp: list_all_iff)

lemma harmless_float: "is_float_text r \<Longrightarrow> harmless r"
proof -
  assume r: "is_float_text r"
  have e: "is_lower CHR ''e''" by (simp add: is_lower_def)
  have num: "sql_char c \<and> c \<noteq> CHR ''/'' \<and> c \<noteq> CHR ''*''" if "is_digit c \<or> c \<in> set ''.e+-''" for c
  proof (cases "is_digit c")
    case True
    then show ?thesis using plain_digit [of c] by (simp add: plain_char_def)
  next
    case False
    then have "c = CHR ''.'' \<or> c = CHR ''e'' \<or> c = CHR ''+'' \<or> c = CHR ''-''" using that by simp
    then show ?thesis using e by (elim disjE) (simp_all add: sql_char_def ident_char_def)
  qed
  have f: "is_digit (hd r)" "list_all (\<lambda>c. is_digit c \<or> c \<in> set ''.e+-'') r" "r \<noteq> []"
    "comment_free r" "last r \<noteq> CHR ''-''"
    using r unfolding is_float_text_def by blast+
  have "list_all sql_char r" using f(2) num unfolding list_all_iff by blast
  moreover have "last r \<noteq> CHR ''/''" using f(2,3) num last_in_set unfolding list_all_iff by blast
  moreover have "plain_char (hd r)" by (rule plain_digit [OF f(1)])
  ultimately show "harmless r" using f(3-5) by (simp add: harmless_def plain_char_def)
qed

lemma comment_free_Cons: "comment_free (c # s) \<longleftrightarrow> s = [] \<or> (\<not> comment_pair c (hd s) \<and> comment_free s)"
  by (cases s) auto

lemma comment_pair_space: "\<not> comment_pair CHR '' '' c" "\<not> comment_pair c CHR '' ''" "\<not> comment_pair CHR ''('' c"
  "\<not> comment_pair c CHR '')''"
  by (simp_all add: comment_pair_def)

lemma harmless_binop:
  assumes "harmless x" "harmless y" "sql_char c"
  shows "harmless (''('' @ x @ '' '' @ [c] @ '' '' @ y @ '')'')"
  using assms
  by (simp add: harmless_def comment_free_append comment_free_Cons comment_pair_space) (simp add: sql_char_def)

lemma harmless_minus: "harmless x \<Longrightarrow> harmless (''(-'' @ x @ '')'')"
  by (simp add: harmless_def comment_free_append comment_free_Cons comment_pair_space)
    (simp add: sql_char_def comment_pair_def)

lemma harmless_text:
  assumes "is_ident a" "allowed e" "python_tree e"
  shows "harmless (text_of (quoted a) e)"
  using assms(2,3)
proof (induction e)
  case (ConstFloat f)
  then show ?case using harmless_float by (cases f) simp_all
next
  case (BinOp l op r)
  then have h: "harmless (text_of (quoted a) l)" "harmless (text_of (quoted a) r)" by simp_all
  obtain c where "binop_sql op = Some [c]" "sql_char c"
    using BinOp.prems(1) by (cases op) (auto simp: sql_char_def)
  then show ?case using harmless_binop [OF h, of c] by simp
next
  case (UnaryOp op e)
  then show ?case using harmless_minus [of "text_of (quoted a) e"] by simp
qed (simp_all add: harmless_column [OF assms(1), simplified] harmless_int)

text \<open>Rendering an accepted expression never raises, and its SQL has neither a quote, a semicolon nor the
  start of a comment: besides identifier characters it holds only double quotes, dots, spaces,
  parentheses and the four operators, and no \<^verbatim>\<open>--\<close> or \<^verbatim>\<open>/*\<close>, not even from nested minus signs.\<close>

theorem rendered_measure_harmless:
  assumes "parse_measure_expression ast_parse s = Inr p" "python_tree (pm_ast_node p)" "is_ident a"
  shows "\<exists>t. render_measure_expression (quoted a) (pm_ast_node p) = Inr t \<and> comment_free t \<and>
    CHR '';'' \<notin> set t \<and> CHR 0x27 \<notin> set t"
proof -
  have "allowed (pm_ast_node p)"
    using assms(1) walk_Inr by (fastforce simp: parse_measure_expression_def result_simps split: if_splits sum.splits)
  then have "harmless (text_of (quoted a) (pm_ast_node p))"
    "render_measure_expression (quoted a) (pm_ast_node p) = Inr (text_of (quoted a) (pm_ast_node p))"
    using harmless_text assms render_allowed by simp_all
  then show ?thesis by (auto simp: harmless_def list_all_iff sql_char_def char_class_defs dquote_def)
qed

theorem rendered_measure_harmless_witness:
  "\<exists>t. render_measure_expression (quoted ''o'') (UnaryOp USub (UnaryOp USub (Name ''a''))) = Inr t \<and> comment_free t \<and>
    CHR '';'' \<notin> set t \<and> CHR 0x27 \<notin> set t"
  using rendered_measure_harmless [of "\<lambda>t. Inr (UnaryOp USub (UnaryOp USub (Name ''a'')))" "''- -a''"
      "\<lparr>pm_expression = ''- -a'', pm_ast_node = UnaryOp USub (UnaryOp USub (Name ''a'')), pm_columns = {''a''}\<rparr>" "''o''"]
  by (simp add: parse_measure_expression_def is_space_def char_class_defs)

end
