(* ===== verification/CoreModel.thy ===== *)
theory CoreModel
  imports MeasureExpression
begin

section \<open>Entities, joins and metrics (core/entity.py, core/join.py, core/metric.py)\<close>

text \<open>
  The frozen dataclasses of the semantic layer and the validation of their constructors. The closed
  \<^verbatim>\<open>Literal\<close> fields are datatypes, so the runtime guards on them have nothing left to check; the
  guards on identifiers, qualified names, column pairs, measures and time grains are the
  constructors' branches, in the source's order. \<open>flip_cardinality\<close> is the reading of a join in
  reverse.
\<close>

subsection \<open>Closed vocabularies\<close>

datatype origin = Manual | Suggested | Dbt_Import

datatype inference_method =
  Manually_Authored | Llm_Suggested | Fk_Constraint | Inferred_Dbt | Observed_In_Query_Log

datatype validation_state = Draft | Applied | Confirmed

datatype entity_group = Identity | Billing | Activity | Other_Group

datatype bind_confidence = Bind_High | Bind_Medium | Bind_Low

datatype cardinality = One_To_One | One_To_Many | Many_To_One | Many_To_Many

datatype agg_function = Agg_Sum | Agg_Count | Agg_Count_Distinct | Agg_Avg | Agg_Min | Agg_Max

datatype time_grain = Day | Week | Month | Quarter | Year

fun agg_name :: "agg_function \<Rightarrow> string" where
  "agg_name Agg_Sum = ''sum''"
| "agg_name Agg_Count = ''count''"
| "agg_name Agg_Count_Distinct = ''count_distinct''"
| "agg_name Agg_Avg = ''avg''"
| "agg_name Agg_Min = ''min''"
| "agg_name Agg_Max = ''max''"

fun grain_name :: "time_grain \<Rightarrow> string" where
  "grain_name Day = ''day''"
| "grain_name Week = ''week''"
| "grain_name Month = ''month''"
| "grain_name Quarter = ''quarter''"
| "grain_name Year = ''year''"

fun time_grain_rank :: "time_grain \<Rightarrow> nat" where
  "time_grain_rank Day = 0"
| "time_grain_rank Week = 1"
| "time_grain_rank Month = 2"
| "time_grain_rank Quarter = 3"
| "time_grain_rank Year = 4"

definition TIME_GRAIN_ORDER :: "time_grain list" where
  "TIME_GRAIN_ORDER = [Day, Week, Month, Quarter, Year]"

datatype model_error =
    BadIdentifier string string | BadQualifiedTable string | SelfJoin string | EmptyOn string
  | MeasureNotExactlyOne | MeasureExpressionError expression_error
  | GrainsWithoutDimension | DimensionWithoutGrains string | BadTimeDimension string
  | DuplicateGrains "time_grain list" | GrainsOutOfOrder "time_grain list"

subsection \<open>Entities\<close>

record single_table_binding =
  bd_qualified_table :: string

record entity =
  en_name :: string
  en_description :: string
  en_binding :: single_table_binding
  en_identity :: string
  en_origin :: origin
  en_inference_method :: inference_method
  en_validation_state :: validation_state
  en_group :: entity_group
  en_bind_confidence :: "bind_confidence option"
  en_rationale :: string

definition en_qualified_table :: "entity \<Rightarrow> string" where
  "en_qualified_table e = bd_qualified_table (en_binding e)"

definition make_binding :: "string \<Rightarrow> model_error + single_table_binding" where
  "make_binding t = (if match_qualified t = None then Inl (BadQualifiedTable t) else Inr \<lparr>bd_qualified_table = t\<rparr>)"

text \<open>\<^verbatim>\<open>__post_init__\<close> on an entity with its fields already set.\<close>

definition check_entity :: "entity \<Rightarrow> model_error + entity" where
  "check_entity e =
     (if \<not> is_ident (en_name e) then Inl (BadIdentifier ''name'' (en_name e))
      else if \<not> is_ident (en_identity e) then Inl (BadIdentifier ''identity'' (en_identity e))
      else Inr e)"

definition entity_ok :: "entity \<Rightarrow> bool" where
  "entity_ok e \<longleftrightarrow> is_ident (en_name e) \<and> is_ident (en_identity e) \<and> match_qualified (en_qualified_table e) \<noteq> None"

subsection \<open>Joins\<close>

definition flip_cardinality :: "cardinality option \<Rightarrow> cardinality option" where
  "flip_cardinality c =
     (case c of
        None \<Rightarrow> None
      | Some One_To_Many \<Rightarrow> Some Many_To_One
      | Some Many_To_One \<Rightarrow> Some One_To_Many
      | Some One_To_One \<Rightarrow> Some One_To_One
      | Some Many_To_Many \<Rightarrow> Some Many_To_Many)"

record join_column_pair =
  jp_source_column :: string
  jp_target_column :: string

definition make_join_column_pair :: "string \<Rightarrow> string \<Rightarrow> model_error + join_column_pair" where
  "make_join_column_pair s t =
     (if \<not> is_ident s then Inl (BadIdentifier ''source_column'' s)
      else if \<not> is_ident t then Inl (BadIdentifier ''target_column'' t)
      else Inr \<lparr>jp_source_column = s, jp_target_column = t\<rparr>)"

record canonical_join =
  cj_name :: string
  cj_description :: string
  cj_source_entity :: string
  cj_target_entity :: string
  cj_on :: "join_column_pair list"
  cj_origin :: origin
  cj_cardinality :: "cardinality option"
  cj_inference_method :: inference_method
  cj_validation_state :: validation_state

definition check_canonical_join :: "canonical_join \<Rightarrow> model_error + canonical_join" where
  "check_canonical_join j =
     (if \<not> is_ident (cj_name j) then Inl (BadIdentifier ''name'' (cj_name j))
      else if \<not> is_ident (cj_source_entity j) then Inl (BadIdentifier ''source_entity'' (cj_source_entity j))
      else if \<not> is_ident (cj_target_entity j) then Inl (BadIdentifier ''target_entity'' (cj_target_entity j))
      else if cj_source_entity j = cj_target_entity j then Inl (SelfJoin (cj_source_entity j))
      else if cj_on j = [] then Inl (EmptyOn (cj_name j))
      else Inr j)"

definition pair_ok :: "join_column_pair \<Rightarrow> bool" where
  "pair_ok p \<longleftrightarrow> is_ident (jp_source_column p) \<and> is_ident (jp_target_column p)"

definition join_ok :: "canonical_join \<Rightarrow> bool" where
  "join_ok j \<longleftrightarrow> is_ident (cj_name j) \<and> is_ident (cj_source_entity j) \<and> is_ident (cj_target_entity j)
     \<and> cj_source_entity j \<noteq> cj_target_entity j \<and> cj_on j \<noteq> [] \<and> list_all pair_ok (cj_on j)"

subsection \<open>Metrics\<close>

record metric_measure =
  mm_agg :: agg_function
  mm_column :: "string option"
  mm_expression :: "string option"

record metric =
  mt_name :: string
  mt_description :: string
  mt_entity :: string
  mt_measure :: metric_measure
  mt_time_dimension :: "string option"
  mt_time_grains :: "time_grain list"
  mt_origin :: origin
  mt_inference_method :: inference_method
  mt_validation_state :: validation_state

definition check_measure :: "(string \<Rightarrow> string + py_expr) \<Rightarrow> metric_measure \<Rightarrow> model_error + metric_measure" where
  "check_measure ast_parse m =
     (if (mm_column m = None) = (mm_expression m = None) then Inl MeasureNotExactlyOne
      else if (case mm_column m of Some c \<Rightarrow> \<not> is_ident c | None \<Rightarrow> False)
           then Inl (BadIdentifier ''column'' (the (mm_column m)))
      else case mm_expression m of
             None \<Rightarrow> Inr m
           | Some x \<Rightarrow> (case parse_measure_expression ast_parse x of
                         Inl e \<Rightarrow> Inl (MeasureExpressionError e) | Inr p \<Rightarrow> Inr m))"

definition measure_columns :: "(string \<Rightarrow> string + py_expr) \<Rightarrow> metric_measure \<Rightarrow> expression_error + string set" where
  "measure_columns ast_parse m =
     (case mm_column m of
        Some c \<Rightarrow> Inr {c}
      | None \<Rightarrow> rbind (parse_measure_expression ast_parse (the (mm_expression m))) (\<lambda>p. Inr (pm_columns p)))"

definition check_metric :: "metric \<Rightarrow> model_error + metric" where
  "check_metric m =
     (if \<not> is_ident (mt_name m) then Inl (BadIdentifier ''name'' (mt_name m))
      else if \<not> is_ident (mt_entity m) then Inl (BadIdentifier ''entity'' (mt_entity m))
      else if mt_time_dimension m = None \<and> mt_time_grains m \<noteq> [] then Inl GrainsWithoutDimension
      else if mt_time_dimension m \<noteq> None \<and> mt_time_grains m = []
           then Inl (DimensionWithoutGrains (the (mt_time_dimension m)))
      else if (case mt_time_dimension m of Some d \<Rightarrow> match_qualified d = None | None \<Rightarrow> False)
           then Inl (BadTimeDimension (the (mt_time_dimension m)))
      else if \<not> distinct (mt_time_grains m) then Inl (DuplicateGrains (mt_time_grains m))
      else if \<not> sorted (map time_grain_rank (mt_time_grains m)) then Inl (GrainsOutOfOrder (mt_time_grains m))
      else Inr m)"

definition measure_ok :: "(string \<Rightarrow> string + py_expr) \<Rightarrow> metric_measure \<Rightarrow> bool" where
  "measure_ok ast_parse m \<longleftrightarrow> check_measure ast_parse m = Inr m"

definition metric_ok :: "(string \<Rightarrow> string + py_expr) \<Rightarrow> metric \<Rightarrow> bool" where
  "metric_ok ast_parse m \<longleftrightarrow> check_metric m = Inr m \<and> measure_ok ast_parse (mt_measure m)"

lemma measure_ok_cases:
  assumes "measure_ok ast_parse m"
  obtains (column) c where "mm_column m = Some c" "mm_expression m = None" "is_ident c"
  | (expression) x p where "mm_column m = None" "mm_expression m = Some x" "parse_measure_expression ast_parse x = Inr p"
  using assms by (auto simp: measure_ok_def check_measure_def split: if_splits option.splits sum.splits)

lemma measure_columns_ok: "measure_ok ast_parse m \<Longrightarrow> \<exists>cs. measure_columns ast_parse m = Inr cs \<and> cs \<noteq> {} \<and> (\<forall>c \<in> cs. is_ident c)"
proof (erule measure_ok_cases)
  fix x p
  assume a: "mm_column m = None" "mm_expression m = Some x" "parse_measure_expression ast_parse x = Inr p"
  obtain t where t: "allowed t" "columns_of t \<noteq> {}" "pm_columns p = columns_of t"
    using a(3) walk_Inr by (fastforce simp: parse_measure_expression_def result_simps split: if_splits sum.splits)
  have "allowed e \<Longrightarrow> c \<in> columns_of e \<Longrightarrow> is_ident c" for e c by (induction e) auto
  then show ?thesis using a t by (auto simp: measure_columns_def)
qed (auto simp: measure_columns_def)

text \<open>Grains in strictly increasing rank: the canonical order admits each set of grains in one way only.\<close>

lemma time_grain_rank_inj: "time_grain_rank a = time_grain_rank b \<longleftrightarrow> a = b"
  by (cases a; cases b) simp_all

lemma metric_ok_grains_canonical:
  assumes "metric_ok p m" "metric_ok q m'" "set (mt_time_grains m) = set (mt_time_grains m')"
  shows "mt_time_grains m = mt_time_grains m'"
proof -
  have g: "sorted_wrt (<) (map time_grain_rank (mt_time_grains x))" if "metric_ok y x" for x y
    using that by (auto simp: metric_ok_def check_metric_def strict_sorted_iff distinct_map inj_on_def time_grain_rank_inj
        split: if_splits option.splits)
  have "map time_grain_rank (mt_time_grains m) = map time_grain_rank (mt_time_grains m')"
    using g [OF assms(1)] g [OF assms(2)] assms(3) by (intro strict_sorted_equal) simp_all
  then show ?thesis by (rule map_injective) (simp add: inj_def time_grain_rank_inj)
qed

end
