(* ===== verification/CompilerPlan.thy ===== *)
theory CompilerPlan
  imports CoreModel
begin

section \<open>Compiler IR and errors (semantic/compiler/plan.py)\<close>

text \<open>
  What a caller may request, what the resolver produces and the emitter consumes, and the error
  classes with their structured fields. A filter value is \<^verbatim>\<open>None\<close>, a list or anything else: the
  compiler looks no further, so the scalars are a type parameter. Errors that the source raises as
  \<^verbatim>\<open>RuntimeError\<close> (store corruption, broken compiler invariants) have constructors of their own;
  \<open>StoreRead\<close> is an exception out of a read of the store.
\<close>

datatype operator =
  Op_Eq | Op_Ne | Op_Lt | Op_Lte | Op_Gt | Op_Gte | Op_In | Op_Not_In | Op_Is_Null | Op_Not_Null

datatype direction = Asc | Desc

datatype 'v filter_value = V_None | V_List "'v list" | V_Scalar 'v

datatype column_kind = K_Group_By | K_Filter | K_Measure

datatype malformed =
    Bad_Shape column_kind string
  | Unary_With_Value nat operator
  | List_Expected nat operator
  | Empty_List nat operator
  | Null_Scalar nat operator
  | List_For_Scalar nat operator

datatype compile_error =
    UnknownMetric string
  | MalformedColumn malformed
  | UnknownColumn column_kind string string
  | UnknownGroupByColumn string string "string list"
  | UnknownFilterColumn string string "string list"
  | UnknownMeasureColumn string string "string list"
  | UnreachableEntity string string
  | AmbiguousJoin string string "string list"
  | AmbiguousPath string string "string list list"
  | UnknownViaJoin string string "string list" "string list"
  | InvalidTimeGrain time_grain "time_grain list"
  | AmbiguousTimeDimension string "(string \<times> string list) list"
  | UnknownOrderByColumn string "string list"
  | MeasureError expression_error
  | StoreCorruption string
  | StoreRead
  | CompilerInvariant

record 'v requested_filter =
  rf_column :: string
  rf_op :: operator
  rf_value :: "'v filter_value"

record requested_order_by =
  ro_column :: string
  ro_direction :: direction

record resolved_order_by =
  rb_expression :: string
  rb_direction :: direction
  rb_auto_tie_break :: bool

record resolved_column =
  rc_entity :: string
  rc_column :: string
  rc_qualified_table :: string
  rc_alias :: string

text \<open>\<^verbatim>\<open>"alias"."column"\<close>.\<close>

definition column_ref :: "resolved_column \<Rightarrow> string" where
  "column_ref c = quoted (rc_alias c) @ ''.'' @ quoted (rc_column c)"

record 'v resolved_predicate =
  rp_column :: resolved_column
  rp_op :: operator
  rp_param_names :: "string list"
  rp_value :: "'v filter_value"

record resolved_join =
  rj_canonical_name :: string
  rj_source_alias :: string
  rj_target_entity :: string
  rj_target_table :: string
  rj_target_alias :: string
  rj_on_pairs :: "join_column_pair list"
  rj_cardinality :: "cardinality option"

datatype time_resolution = T_Local | T_Inherited | T_Unavailable

record 'v metric_plan =
  mp_metric :: metric
  mp_anchor_table :: string
  mp_anchor_alias :: string
  mp_group_by :: "resolved_column list"
  mp_time_bucket :: "time_grain option"
  mp_predicates :: "'v resolved_predicate list"
  mp_limit :: int
  mp_joins :: "resolved_join list"
  mp_order_by :: "resolved_order_by list"
  mp_time_resolution :: time_resolution
  mp_inherited_time_dimension :: "string option"
  mp_inherited_via :: "string list"

definition required_join_names :: "'v metric_plan \<Rightarrow> string list" where
  "required_join_names p = map rj_canonical_name (mp_joins p)"

definition fans_out :: "cardinality option \<Rightarrow> bool" where
  "fans_out c \<longleftrightarrow> c = Some One_To_Many \<or> c = Some Many_To_Many \<or> c = None"

definition fan_out_join_names :: "'v metric_plan \<Rightarrow> string list" where
  "fan_out_join_names p = map rj_canonical_name (filter (\<lambda>j. fans_out (rj_cardinality j)) (mp_joins p))"

end
