(* ===== verification/JoinGraph.thy ===== *)
theory JoinGraph
  imports CompilerPlan "HOL-Library.Multiset"
begin

section \<open>The canonical-join graph and its searches (compiler/resolve.py, core/graph.py)\<close>

text \<open>
  Canonical joins are the edges of an undirected multigraph over entities. \<open>build_join_graph\<close> is the
  adjacency dictionary, an association list in insertion order; \<open>structural_shortest_paths\<close> is the
  layered search over entity pairs; \<open>find_canonical_chain\<close> picks one join per hop under the caller's
  \<^verbatim>\<open>via\<close> names; \<open>build_canonical_path\<close> and \<open>longest_canonical_path\<close> are the read-only
  projections of the dashboard. The searches are compared with walks: a list of hops is a walk when
  consecutive entities are adjacent.
\<close>

subsection \<open>The graph\<close>

record graph_entry =
  ge_neighbor :: string
  ge_join :: canonical_join
  ge_on :: "join_column_pair list"
  ge_reverse :: bool

type_synonym join_graph = "(string \<times> graph_entry list) list"
type_synonym structural_path = "(string \<times> string) list"

fun add_entry :: "string \<Rightarrow> 'e \<Rightarrow> (string \<times> 'e list) list \<Rightarrow> (string \<times> 'e list) list" where
  "add_entry k e [] = [(k, [e])]"
| "add_entry k e ((k', es) # g) = (if k = k' then (k', es @ [e]) # g else (k', es) # add_entry k e g)"

definition swap_pair :: "join_column_pair \<Rightarrow> join_column_pair" where
  "swap_pair p = p\<lparr>jp_source_column := jp_target_column p, jp_target_column := jp_source_column p\<rparr>"

definition forward_entry :: "canonical_join \<Rightarrow> graph_entry" where
  "forward_entry j = \<lparr>ge_neighbor = cj_target_entity j, ge_join = j, ge_on = cj_on j, ge_reverse = False\<rparr>"

definition reverse_entry :: "canonical_join \<Rightarrow> graph_entry" where
  "reverse_entry j =
     \<lparr>ge_neighbor = cj_source_entity j, ge_join = j, ge_on = map swap_pair (cj_on j), ge_reverse = True\<rparr>"

definition add_join :: "join_graph \<Rightarrow> canonical_join \<Rightarrow> join_graph" where
  "add_join g j = add_entry (cj_target_entity j) (reverse_entry j) (add_entry (cj_source_entity j) (forward_entry j) g)"

definition build_join_graph :: "canonical_join list \<Rightarrow> join_graph" where
  "build_join_graph edges = map (\<lambda>(k, es). (k, sort_key (\<lambda>e. cj_name (ge_join e)) es)) (foldl add_join [] edges)"

definition graph_get :: "(string \<times> 'e list) list \<Rightarrow> string \<Rightarrow> 'e list" where
  "graph_get g k = (case map_of g k of None \<Rightarrow> [] | Some es \<Rightarrow> es)"

definition in_graph :: "string \<Rightarrow> join_graph \<Rightarrow> bool" where
  "in_graph k g \<longleftrightarrow> k \<in> set (map fst g)"

text \<open>\<^verbatim>\<open>sorted({n for (n, ...) in graph.get(entity, [])})\<close>: parallel joins collapsed.\<close>

definition neighbors :: "join_graph \<Rightarrow> string \<Rightarrow> string list" where
  "neighbors g k = sort (remdups (map ge_neighbor (graph_get g k)))"

subsection \<open>The layered search\<close>

definition expand :: "join_graph \<Rightarrow> string set \<Rightarrow> string \<times> structural_path \<Rightarrow> (string \<times> structural_path) list" where
  "expand g visited ep =
     map (\<lambda>n. (n, snd ep @ [(fst ep, n)])) (filter (\<lambda>n. n \<notin> visited) (neighbors g (fst ep)))"

text \<open>
  One iteration per hop left. The entries that reach the target are the found paths, the others the
  next frontier, in frontier order; \<^verbatim>\<open>visited\<close> grows only when the layer is done.
\<close>

primrec bfs_layers :: "nat \<Rightarrow> join_graph \<Rightarrow> string \<Rightarrow> string set \<Rightarrow> (string \<times> structural_path) list \<Rightarrow> structural_path list" where
  "bfs_layers 0 g target visited frontier = []"
| "bfs_layers (Suc k) g target visited frontier =
     (if frontier = [] then []
      else (let new_paths = concat (map (expand g visited) frontier);
                found = map snd (filter (\<lambda>np. fst np = target) new_paths);
                next_frontier = filter (\<lambda>np. fst np \<noteq> target) new_paths
            in if found \<noteq> [] then found
               else bfs_layers k g target (visited \<union> set (map fst next_frontier)) next_frontier))"

definition structural_shortest_paths :: "join_graph \<Rightarrow> string \<Rightarrow> string \<Rightarrow> nat \<Rightarrow> structural_path list" where
  "structural_shortest_paths g anchor target max_hops = bfs_layers max_hops g target {anchor} [(anchor, [])]"

definition MAX_HOPS :: nat where
  "MAX_HOPS = 6"

subsection \<open>Joins on a path, the via filter and the chain\<close>

definition hop_candidates :: "join_graph \<Rightarrow> string \<times> string \<Rightarrow> graph_entry list" where
  "hop_candidates g hop = filter (\<lambda>e. ge_neighbor e = snd hop) (graph_get g (fst hop))"

definition canonicals_on_structural_path :: "structural_path \<Rightarrow> join_graph \<Rightarrow> canonical_join list" where
  "canonicals_on_structural_path path g = concat (map (\<lambda>hop. map ge_join (hop_candidates g hop)) path)"

definition names_on_path :: "structural_path \<Rightarrow> join_graph \<Rightarrow> string set" where
  "names_on_path path g = set (map cj_name (canonicals_on_structural_path path g))"

definition filter_structural_paths_by_via ::
  "structural_path list \<Rightarrow> join_graph \<Rightarrow> string set \<Rightarrow> structural_path list" where
  "filter_structural_paths_by_via paths g via =
     (if via = {} then paths else filter (\<lambda>path. via \<subseteq> names_on_path path g) paths)"

definition render_hop :: "join_graph \<Rightarrow> string \<times> string \<Rightarrow> compile_error + string" where
  "render_hop g hop =
     (case sort (map (\<lambda>e. cj_name (ge_join e)) (hop_candidates g hop)) of
        [] \<Rightarrow> Inl CompilerInvariant
      | n # ns \<Rightarrow> Inr n)"

definition render_structural_path :: "structural_path \<Rightarrow> join_graph \<Rightarrow> compile_error + string list" where
  "render_structural_path path g = rtraverse (render_hop g) path"

record chain_edge =
  ce_join :: canonical_join
  ce_target_entity :: string
  ce_on_pairs :: "join_column_pair list"
  ce_reverse :: bool

definition chain_edge_of :: "graph_entry \<Rightarrow> chain_edge" where
  "chain_edge_of e = \<lparr>ce_join = ge_join e, ce_target_entity = ge_neighbor e, ce_on_pairs = ge_on e, ce_reverse = ge_reverse e\<rparr>"

definition names_of :: "graph_entry list \<Rightarrow> string list" where
  "names_of es = sort (map (\<lambda>e. cj_name (ge_join e)) es)"

text \<open>One hop of pass 2: the predecessor, the chosen edge and the via name it used up, if any.\<close>

definition choose_join :: "join_graph \<Rightarrow> string set \<Rightarrow> string \<times> string \<Rightarrow> compile_error + (string \<times> chain_edge)" where
  "choose_join g via hop =
     (case hop_candidates g hop of
        [] \<Rightarrow> Inl CompilerInvariant
      | [e] \<Rightarrow> Inr (fst hop, chain_edge_of e)
      | e # e' # es \<Rightarrow>
          (case filter (\<lambda>c. cj_name (ge_join c) \<in> via) (e # e' # es) of
             [] \<Rightarrow> Inl (AmbiguousJoin (fst hop) (snd hop) (names_of (e # e' # es)))
           | [m] \<Rightarrow> Inr (fst hop, chain_edge_of m)
           | m # m' # ms \<Rightarrow> Inl (AmbiguousJoin (fst hop) (snd hop) (names_of (m # m' # ms)))))"

definition consumed_via :: "string set \<Rightarrow> (string \<times> chain_edge) list \<Rightarrow> string set" where
  "consumed_via via chain = set (filter (\<lambda>n. n \<in> via) (map (\<lambda>(p, c). cj_name (ce_join c)) chain))"

definition find_canonical_chain ::
  "join_graph \<Rightarrow> string \<Rightarrow> string \<Rightarrow> string set \<Rightarrow> compile_error + ((string \<times> chain_edge) list \<times> string set)" where
  "find_canonical_chain g anchor target via =
     (if \<not> in_graph anchor g \<or> \<not> in_graph target g then Inl (UnreachableEntity anchor target)
      else (let paths = structural_shortest_paths g anchor target MAX_HOPS;
                feasible = filter_structural_paths_by_via paths g via
            in if paths = [] then Inl (UnreachableEntity anchor target)
               else (case feasible of
                       [] \<Rightarrow> Inl (UnknownViaJoin anchor target (sorted_list_of_set via)
                               (sort (remdups (concat (map (\<lambda>p. map cj_name (canonicals_on_structural_path p g)) paths)))))
                     | [path] \<Rightarrow> rbind (rtraverse (choose_join g via) path)
                                  (\<lambda>chain. Inr (chain, consumed_via via chain))
                     | p # q # ps \<Rightarrow> rbind (rtraverse (\<lambda>path. render_structural_path path g) feasible)
                                      (\<lambda>cs. Inl (AmbiguousPath anchor target cs)))))"

subsection \<open>Read-only paths of the graph projection\<close>

record canonical_path =
  cp_nodes :: "string list"
  cp_edges :: "string list"

definition hops :: "canonical_path \<Rightarrow> nat" where
  "hops p = length (cp_edges p)"

definition EMPTY_PATH :: canonical_path where
  "EMPTY_PATH = \<lparr>cp_nodes = [], cp_edges = []\<rparr>"

definition path_from_graph :: "join_graph \<Rightarrow> string \<Rightarrow> string \<Rightarrow> compile_error + canonical_path" where
  "path_from_graph g anchor target =
     (if anchor = target \<or> \<not> in_graph anchor g \<or> \<not> in_graph target g then Inr EMPTY_PATH
      else (case structural_shortest_paths g anchor target (length g) of
              [] \<Rightarrow> Inr EMPTY_PATH
            | chosen # others \<Rightarrow>
                rbind (render_structural_path chosen g)
                  (\<lambda>edges. Inr \<lparr>cp_nodes = fst (hd chosen) # map snd chosen, cp_edges = edges\<rparr>)))"

definition build_canonical_path :: "canonical_join list \<Rightarrow> string \<Rightarrow> string \<Rightarrow> compile_error + canonical_path" where
  "build_canonical_path joins anchor target = path_from_graph (build_join_graph joins) anchor target"

definition better_path :: "canonical_path \<Rightarrow> canonical_path \<Rightarrow> bool" where
  "better_path c b \<longleftrightarrow> hops b < hops c \<or> (hops c = hops b \<and> 0 < hops c \<and> cp_nodes c < cp_nodes b)"

text \<open>The pairs \<^verbatim>\<open>entities[i], entities[j]\<close> with \<^verbatim>\<open>i < j\<close>, in the order of the two loops.\<close>

fun ordered_pairs :: "string list \<Rightarrow> (string \<times> string) list" where
  "ordered_pairs [] = []"
| "ordered_pairs (x # xs) = map (\<lambda>y. (x, y)) xs @ ordered_pairs xs"

fun keep_best :: "join_graph \<Rightarrow> canonical_path \<Rightarrow> (string \<times> string) list \<Rightarrow> compile_error + canonical_path" where
  "keep_best g best [] = Inr best"
| "keep_best g best ((a, t) # ps) =
     rbind (path_from_graph g a t) (\<lambda>c. keep_best g (if better_path c best then c else best) ps)"

definition longest_canonical_path :: "canonical_join list \<Rightarrow> compile_error + canonical_path" where
  "longest_canonical_path joins =
     (let g = build_join_graph joins in keep_best g EMPTY_PATH (ordered_pairs (sort (map fst g))))"

subsection \<open>What the graph holds\<close>

named_theorems graph_simps "contents of a built join graph"

lemma keys_add_entry [graph_simps]: "set (map fst (add_entry k e g)) = insert k (set (map fst g))"
  by (induction k e g rule: add_entry.induct) auto

lemma distinct_add_entry: "distinct (map fst g) \<Longrightarrow> distinct (map fst (add_entry k e g))"
proof (induction k e g rule: add_entry.induct)
  case (2 k e k' es g)
  then show ?case using keys_add_entry [of k e g] by auto
qed simp

lemma get_add_entry: "graph_get (add_entry k e g) x = (if x = k then graph_get g k @ [e] else graph_get g x)"
  by (induction k e g rule: add_entry.induct) (auto simp: graph_get_def)

lemma keys_fold [graph_simps]:
  "set (map fst (foldl add_join g js)) = set (map fst g) \<union> cj_source_entity ` set js \<union> cj_target_entity ` set js"
proof (induction js arbitrary: g)
  case (Cons j js)
  then show ?case by (auto simp: add_join_def graph_simps simp del: set_map)
qed simp

lemma distinct_fold: "distinct (map fst g) \<Longrightarrow> distinct (map fst (foldl add_join g js))"
  by (induction js arbitrary: g) (auto simp: add_join_def intro: distinct_add_entry)

definition join_entries :: "canonical_join \<Rightarrow> string \<Rightarrow> graph_entry set" where
  "join_entries j x =
     (if cj_source_entity j = x then {forward_entry j} else {}) \<union> (if cj_target_entity j = x then {reverse_entry j} else {})"

lemma get_fold: "set (graph_get (foldl add_join g js) x) = set (graph_get g x) \<union> (\<Union>j \<in> set js. join_entries j x)"
  by (induction js arbitrary: g) (auto simp: add_join_def get_add_entry join_entries_def)

lemma get_build: "graph_get (build_join_graph js) x = sort_key (\<lambda>e. cj_name (ge_join e)) (graph_get (foldl add_join [] js) x)"
  by (auto simp: graph_get_def build_join_graph_def map_of_map split: option.splits)

lemma set_get_build [graph_simps]: "set (graph_get (build_join_graph js) x) = (\<Union>j \<in> set js. join_entries j x)"
  using get_fold [of "[]" js x] unfolding get_build by (simp add: graph_get_def [of "[]"])

lemma in_build [graph_simps]: "in_graph x (build_join_graph js) \<longleftrightarrow> (\<exists>j \<in> set js. x = cj_source_entity j \<or> x = cj_target_entity j)"
proof -
  have "map fst (build_join_graph js) = map fst (foldl add_join [] js)"
    by (simp add: build_join_graph_def case_prod_beta)
  then show ?thesis using keys_fold [of "[]" js] by (auto simp: in_graph_def simp del: set_map)
qed

lemma distinct_build: "distinct (map fst (build_join_graph js))"
proof -
  have "map fst (build_join_graph js) = map fst (foldl add_join [] js)"
    by (simp add: build_join_graph_def case_prod_beta)
  then show ?thesis using distinct_fold [of "[]" js] by simp
qed

lemma set_neighbors [graph_simps]: "set (neighbors g x) = ge_neighbor ` set (graph_get g x)"
  by (simp add: neighbors_def)

lemma distinct_neighbors: "distinct (neighbors g x)"
  by (simp add: neighbors_def)

text \<open>Two entities are adjacent when some join has them as its ends, in either order.\<close>

definition adjacent :: "canonical_join list \<Rightarrow> string \<Rightarrow> string \<Rightarrow> bool" where
  "adjacent js x y \<longleftrightarrow> (\<exists>j \<in> set js. (cj_source_entity j = x \<and> cj_target_entity j = y)
     \<or> (cj_target_entity j = x \<and> cj_source_entity j = y))"

lemma neighbor_build [graph_simps]: "y \<in> set (neighbors (build_join_graph js) x) \<longleftrightarrow> adjacent js x y"
  by (auto simp: graph_simps adjacent_def join_entries_def forward_entry_def reverse_entry_def image_iff)

lemma adjacent_sym: "adjacent js x y = adjacent js y x"
  by (auto simp: adjacent_def)

subsection \<open>Walks\<close>

fun walks :: "join_graph \<Rightarrow> string \<Rightarrow> structural_path \<Rightarrow> string \<Rightarrow> bool" where
  "walks g a [] b = (a = b)"
| "walks g a ((x, y) # p) b = (x = a \<and> y \<in> set (neighbors g a) \<and> walks g y p b)"

definition shortest :: "join_graph \<Rightarrow> string \<Rightarrow> structural_path \<Rightarrow> string \<Rightarrow> bool" where
  "shortest g a p b \<longleftrightarrow> walks g a p b \<and> (\<forall>q. walks g a q b \<longrightarrow> length p \<le> length q)"

lemma walks_append: "walks g a (p @ q) b \<longleftrightarrow> (\<exists>c. walks g a p c \<and> walks g c q b)"
  by (induction g a p b rule: walks.induct) auto

lemma walks_snoc: "walks g a (p @ [(e, n)]) b \<longleftrightarrow> walks g a p e \<and> n \<in> set (neighbors g e) \<and> b = n"
  by (auto simp: walks_append)

lemma walks_unique: "walks g a p b \<Longrightarrow> walks g a p c \<Longrightarrow> b = c"
  by (induction g a p b rule: walks.induct) auto

lemma shortest_exists: "walks g a p b \<Longrightarrow> \<exists>q. shortest g a q b"
  using ex_has_least_nat [of "\<lambda>q. walks g a q b" p length] by (auto simp: shortest_def)

lemma shortest_length: "shortest g a p b \<Longrightarrow> shortest g a q b \<Longrightarrow> length p = length q"
  by (auto simp: shortest_def intro: le_antisym)

lemma shortest_snoc: "shortest g a (p @ [(e, n)]) b \<Longrightarrow> shortest g a p e \<and> n \<in> set (neighbors g e) \<and> b = n"
proof -
  assume s: "shortest g a (p @ [(e, n)]) b"
  then have w: "walks g a p e" "n \<in> set (neighbors g e)" "b = n" by (auto simp: shortest_def walks_snoc)
  have "length p \<le> length q" if "walks g a q e" for q
    using s w that walks_snoc [of g a q e n b] by (auto simp: shortest_def)
  then show ?thesis using w by (simp add: shortest_def)
qed

lemma shortest_prefix: "shortest g a (p @ q) b \<Longrightarrow> \<exists>c. shortest g a p c \<and> walks g c q b"
proof -
  assume s: "shortest g a (p @ q) b"
  then obtain c where c: "walks g a p c" "walks g c q b" by (auto simp: shortest_def walks_append)
  have "length p \<le> length r" if "walks g a r c" for r
    using s c walks_append [of g a r q b] that by (force simp: shortest_def)
  then show ?thesis using c by (auto simp: shortest_def)
qed

subsection \<open>The search finds exactly the shortest walks\<close>

definition layer_inv :: "join_graph \<Rightarrow> string \<Rightarrow> nat \<Rightarrow> string set \<Rightarrow> (string \<times> structural_path) list \<Rightarrow> bool" where
  "layer_inv g a d visited frontier \<longleftrightarrow>
     (\<forall>n. n \<in> visited \<longleftrightarrow> (\<exists>p. walks g a p n \<and> length p \<le> d)) \<and>
     (\<forall>n p. (n, p) \<in> set frontier \<longleftrightarrow> shortest g a p n \<and> length p = d)"

definition layer :: "join_graph \<Rightarrow> string set \<Rightarrow> (string \<times> structural_path) list \<Rightarrow> (string \<times> structural_path) list" where
  "layer g visited frontier = concat (map (expand g visited) frontier)"

lemma layer_inv_start: "layer_inv g a 0 {a} [(a, [])]"
  by (auto simp: layer_inv_def shortest_def)

lemma in_layer:
  "(n, q) \<in> set (layer g visited frontier) \<longleftrightarrow>
     (\<exists>e p. (e, p) \<in> set frontier \<and> n \<in> set (neighbors g e) \<and> n \<notin> visited \<and> q = p @ [(e, n)])"
  by (force simp: layer_def expand_def)

lemma layer_shortest:
  assumes "layer_inv g a d visited frontier"
  shows "(n, q) \<in> set (layer g visited frontier) \<longleftrightarrow> shortest g a q n \<and> length q = Suc d"
proof
  assume "(n, q) \<in> set (layer g visited frontier)"
  then obtain e p where e: "(e, p) \<in> set frontier" "n \<in> set (neighbors g e)" "n \<notin> visited" "q = p @ [(e, n)]"
    by (auto simp: in_layer)
  then have p: "walks g a p e" "length p = d" using assms by (auto simp: layer_inv_def shortest_def)
  have "d < length r" if "walks g a r n" for r using assms e(3) that by (auto simp: layer_inv_def not_le)
  then show "shortest g a q n \<and> length q = Suc d" using e p by (auto simp: shortest_def walks_snoc Suc_le_eq)
next
  assume q: "shortest g a q n \<and> length q = Suc d"
  then obtain p e m where qp: "q = p @ [(e, m)]" by (cases q rule: rev_cases) auto
  then have s: "shortest g a p e" "m \<in> set (neighbors g e)" "n = m" "length p = d"
    using shortest_snoc [of g a p e m n] q by auto
  have "m \<notin> visited" using assms q s(3) by (fastforce simp: layer_inv_def shortest_def)
  then show "(n, q) \<in> set (layer g visited frontier)" using assms s qp by (auto simp: in_layer layer_inv_def)
qed

lemma layer_inv_step:
  assumes inv: "layer_inv g a d visited frontier"
  shows "layer_inv g a (Suc d) (visited \<union> fst ` set (layer g visited frontier)) (layer g visited frontier)"
proof -
  have "n \<in> visited \<union> fst ` set (layer g visited frontier) \<longleftrightarrow> (\<exists>p. walks g a p n \<and> length p \<le> Suc d)" for n
  proof
    assume "n \<in> visited \<union> fst ` set (layer g visited frontier)"
    then consider "n \<in> visited" | q where "(n, q) \<in> set (layer g visited frontier)" by fastforce
    then show "\<exists>p. walks g a p n \<and> length p \<le> Suc d"
    proof cases
      case 1
      then show ?thesis using inv le_Suc_eq by (auto simp: layer_inv_def)
    next
      case 2
      then show ?thesis using layer_shortest [OF inv] by (auto simp: shortest_def)
    qed
  next
    assume "\<exists>p. walks g a p n \<and> length p \<le> Suc d"
    then obtain p where p: "walks g a p n" "length p \<le> Suc d" by blast
    then obtain q where q: "shortest g a q n" using shortest_exists by blast
    then have "length q \<le> d \<or> length q = Suc d" using p by (force simp: shortest_def)
    then show "n \<in> visited \<union> fst ` set (layer g visited frontier)"
    proof
      assume "length q \<le> d"
      then show ?thesis using q inv by (auto simp: layer_inv_def shortest_def)
    next
      assume "length q = Suc d"
      then have "(n, q) \<in> set (layer g visited frontier)" using q layer_shortest [OF inv] by blast
      then show ?thesis by force
    qed
  qed
  then show ?thesis using layer_shortest [OF inv] unfolding layer_inv_def by blast
qed

lemma no_longer_shortest:
  assumes "layer_inv g a d visited []" "shortest g a p b"
  shows "length p < d"
proof (rule ccontr)
  assume "\<not> length p < d"
  then have l: "length (take d p) = d" by simp
  obtain c where "shortest g a (take d p) c"
    using shortest_prefix [of g a "take d p" "drop d p" b] assms(2) by auto
  then show False using assms(1) l unfolding layer_inv_def by (metis empty_iff list.set(1))
qed

lemma bfs_layers_set:
  assumes "layer_inv g a d visited frontier" "t \<notin> visited"
  shows "set (bfs_layers k g t visited frontier) = {p. shortest g a p t \<and> length p \<le> d + k}"
  using assms
proof (induction k arbitrary: d visited frontier)
  case 0
  then show ?case by (fastforce simp: layer_inv_def shortest_def)
next
  case (Suc k)
  let ?new = "layer g visited frontier"
  let ?found = "map snd (filter (\<lambda>np. fst np = t) ?new)" and ?next = "filter (\<lambda>np. fst np \<noteq> t) ?new"
  have found: "set ?found = {p. shortest g a p t \<and> length p = Suc d}"
    using layer_shortest [OF Suc.prems(1), of t] by (force simp: image_iff)
  show ?case
  proof (cases "frontier = []")
    case True
    then have "length p < d" if "shortest g a p t" for p using no_longer_shortest Suc.prems(1) that by blast
    moreover have "\<not> length p \<le> d" if "shortest g a p t" for p
      using Suc.prems that by (fastforce simp: layer_inv_def shortest_def)
    ultimately show ?thesis using True by fastforce
  next
    case False
    show ?thesis
    proof (cases "?found = []")
      case nf: False
      then obtain q where q: "shortest g a q t" "length q = Suc d" using found by (cases ?found) auto
      then have "length p = Suc d" if "shortest g a p t" for p using shortest_length that by metis
      then have "{p. shortest g a p t \<and> length p \<le> d + Suc k} = {p. shortest g a p t \<and> length p = Suc d}" by auto
      then show ?thesis using False nf found by (simp add: layer_def Let_def)
    next
      case True
      then have "?next = ?new" by (auto simp: filter_empty_conv intro: filter_True)
      moreover have "t \<notin> visited \<union> fst ` set ?new" using True Suc.prems(2) by (auto simp: filter_empty_conv)
      ultimately have "set (bfs_layers k g t (visited \<union> fst ` set ?new) ?next)
          = {p. shortest g a p t \<and> length p \<le> Suc d + k}"
        using Suc.IH [OF layer_inv_step [OF Suc.prems(1)]] by metis
      then show ?thesis using False True \<open>?next = ?new\<close> by (simp add: layer_def Let_def)
    qed
  qed
qed

lemma structural_set:
  "a \<noteq> t \<Longrightarrow> set (structural_shortest_paths g a t h) = {p. shortest g a p t \<and> length p \<le> h}"
  using bfs_layers_set [OF layer_inv_start, of t a h g] by (simp add: structural_shortest_paths_def)

lemma distinct_layer: "distinct frontier \<Longrightarrow> distinct (layer g visited frontier)"
  by (induction frontier)
    (auto simp: layer_def expand_def distinct_map inj_on_def distinct_neighbors)

lemma distinct_bfs: "distinct frontier \<Longrightarrow> distinct (bfs_layers k g t visited frontier)"
proof (induction k arbitrary: visited frontier)
  case (Suc k)
  have "distinct (layer g visited frontier)" by (rule distinct_layer [OF Suc.prems])
  moreover have "inj_on snd (set (filter (\<lambda>np. fst np = t) (layer g visited frontier)))"
    by (auto simp: inj_on_def)
  ultimately show ?case using Suc.IH unfolding layer_def [symmetric]
    by (auto simp: Let_def layer_def [symmetric] distinct_map)
qed simp

text \<open>C23: The search returns each shortest walk between two entities once, every one of them, and nothing
  else, as long as they are no longer than the hop bound.\<close>

theorem bfs_finds_shortest_walks:
  assumes "anchor \<noteq> target"
  shows "distinct (structural_shortest_paths g anchor target max_hops) \<and>
    set (structural_shortest_paths g anchor target max_hops) = {p. shortest g anchor p target \<and> length p \<le> max_hops}"
  using structural_set [OF assms] distinct_bfs [of "[(anchor, [])]"] by (simp add: structural_shortest_paths_def)

subsection \<open>One hop of a chain\<close>

lemma walks_candidates: "walks g a p t \<Longrightarrow> hop \<in> set p \<Longrightarrow> hop_candidates g hop \<noteq> []"
  by (induction g a p t rule: walks.induct) (auto simp: hop_candidates_def filter_empty_conv graph_simps)

lemma render_total: "walks g a p t \<Longrightarrow> \<exists>ns. render_structural_path p g = Inr ns \<and> length ns = length p"
proof -
  assume w: "walks g a p t"
  have "\<exists>n. render_hop g hop = Inr n" if "hop \<in> set p" for hop
  proof -
    have "sort (map (\<lambda>e. cj_name (ge_join e)) (hop_candidates g hop)) \<noteq> []"
      using walks_candidates [OF w that] by (metis Nil_is_map_conv length_0_conv length_sort)
    then show ?thesis by (auto simp: render_hop_def split: list.splits)
  qed
  then show ?thesis using rtraverse_total [of p "render_hop g"] rtraverse_Inr_length
    unfolding render_structural_path_def by metis
qed

lemma choose_join_Inr:
  assumes "choose_join g via hop = Inr (p, e)"
  shows "\<exists>c \<in> set (hop_candidates g hop). e = chain_edge_of c \<and> p = fst hop \<and>
    (\<forall>d \<in> set (hop_candidates g hop). cj_name (ge_join d) \<in> via \<longrightarrow> cj_name (ge_join d) = cj_name (ge_join c))"
proof -
  consider c where "hop_candidates g hop = [c]" "(p, e) = (fst hop, chain_edge_of c)"
    | c where "filter (\<lambda>c. cj_name (ge_join c) \<in> via) (hop_candidates g hop) = [c]" "(p, e) = (fst hop, chain_edge_of c)"
    using assms by (auto simp: choose_join_def split: list.splits)
  then show ?thesis
  proof cases
    case 1
    then show ?thesis by simp
  next
    case 2
    have "{d \<in> set (hop_candidates g hop). cj_name (ge_join d) \<in> via} = {c}"
      using arg_cong [OF 2(1), of set] by simp
    then have "d = c" if "d \<in> set (hop_candidates g hop)" "cj_name (ge_join d) \<in> via" for d
      using that by blast
    moreover have "c \<in> set (hop_candidates g hop)" using arg_cong [OF 2(1), of set] by auto
    ultimately show ?thesis using 2 by blast
  qed
qed

lemma names_on_path_iff: "n \<in> names_on_path p g \<longleftrightarrow> (\<exists>hop \<in> set p. \<exists>c \<in> set (hop_candidates g hop). n = cj_name (ge_join c))"
  by (auto simp: names_on_path_def canonicals_on_structural_path_def)

subsection \<open>A shortest walk visits no entity twice\<close>

lemma walks_take: "walks g a p t \<Longrightarrow> i \<le> length p \<Longrightarrow> walks g a (take i p) ((a # map snd p) ! i)"
proof (induction p arbitrary: a i)
  case (Cons h p)
  then show ?case by (cases h; cases i) auto
qed simp

lemma shortest_take:
  assumes "shortest g a p t" "i \<le> length p"
  shows "shortest g a (take i p) ((a # map snd p) ! i)"
proof -
  obtain c where c: "shortest g a (take i p) c" using shortest_prefix [of g a "take i p" "drop i p" t] assms(1) by auto
  moreover have "walks g a p t" using assms(1) by (simp add: shortest_def)
  ultimately show ?thesis using walks_take [of g a p t i] assms(2) walks_unique by (metis shortest_def)
qed

lemma shortest_distinct: "shortest g a p t \<Longrightarrow> distinct (a # map snd p)"
  unfolding distinct_conv_nth
proof (intro allI impI)
  fix i j assume s: "shortest g a p t" and ij: "i < length (a # map snd p)" "j < length (a # map snd p)" "i \<noteq> j"
  show "(a # map snd p) ! i \<noteq> (a # map snd p) ! j"
  proof
    assume "(a # map snd p) ! i = (a # map snd p) ! j"
    then have "length (take i p) = length (take j p)"
      using shortest_take [OF s, of i] shortest_take [OF s, of j] ij shortest_length by (metis length_Cons length_map less_Suc_eq_le)
    then show False using ij by simp
  qed
qed

subsection \<open>Parallel joins\<close>

text \<open>The stored joins between two entities, in either direction; the ones that the via names leave to choose from,
  where the search asks them at all; and the ones an ambiguity is reported over.\<close>

definition parallel :: "canonical_join list \<Rightarrow> string \<times> string \<Rightarrow> canonical_join list" where
  "parallel js hop = filter (\<lambda>j. (cj_source_entity j = fst hop \<and> cj_target_entity j = snd hop)
     \<or> (cj_target_entity j = fst hop \<and> cj_source_entity j = snd hop)) js"

definition deciding :: "canonical_join list \<Rightarrow> string set \<Rightarrow> string \<times> string \<Rightarrow> canonical_join list" where
  "deciding js via hop =
     (if length (parallel js hop) = 1 then parallel js hop else filter (\<lambda>j. cj_name j \<in> via) (parallel js hop))"

definition decided :: "canonical_join list \<Rightarrow> string set \<Rightarrow> string \<times> string \<Rightarrow> bool" where
  "decided js via hop \<longleftrightarrow> length (deciding js via hop) = 1"

definition contested :: "canonical_join list \<Rightarrow> string set \<Rightarrow> string \<times> string \<Rightarrow> canonical_join list" where
  "contested js via hop = (if deciding js via hop = [] then parallel js hop else deciding js via hop)"

definition hop_names :: "canonical_join list \<Rightarrow> string \<times> string \<Rightarrow> string set" where
  "hop_names js hop = {cj_name j |j. j \<in> set js \<and>
     ((cj_source_entity j = fst hop \<and> cj_target_entity j = snd hop) \<or> (cj_target_entity j = fst hop \<and> cj_source_entity j = snd hop))}"

lemma entry_fields:
  "ge_neighbor (forward_entry j) = cj_target_entity j" "ge_neighbor (reverse_entry j) = cj_source_entity j"
  "ge_join (forward_entry j) = j" "ge_join (reverse_entry j) = j"
  by (simp_all add: forward_entry_def reverse_entry_def)

lemma candidate_names: "(\<lambda>c. cj_name (ge_join c)) ` set (hop_candidates (build_join_graph js) hop) = hop_names js hop"
proof -
  have e: "c \<in> join_entries j x \<longleftrightarrow> (cj_source_entity j = x \<and> c = forward_entry j) \<or> (cj_target_entity j = x \<and> c = reverse_entry j)"
    for c j x by (simp add: join_entries_def)
  have "n \<in> (\<lambda>c. cj_name (ge_join c)) ` set (hop_candidates (build_join_graph js) hop) \<longleftrightarrow>
      (\<exists>j \<in> set js. \<exists>c. c \<in> join_entries j (fst hop) \<and> ge_neighbor c = snd hop \<and> n = cj_name (ge_join c))" for n
    unfolding hop_candidates_def set_filter set_get_build by blast
  then show ?thesis unfolding hop_names_def e
    by (simp add: set_eq_iff conj_disj_distribR ex_disj_distrib entry_fields) blast
qed

lemma render_hop_Min: "render_hop (build_join_graph js) hop = Inr n \<Longrightarrow> n = Min (hop_names js hop)"
proof -
  assume "render_hop (build_join_graph js) hop = Inr n"
  then obtain ns where ns: "sort (map (\<lambda>e. cj_name (ge_join e)) (hop_candidates (build_join_graph js) hop)) = n # ns"
    by (auto simp: render_hop_def split: list.splits)
  have "set (n # ns) = hop_names js hop" unfolding ns [symmetric] by (simp add: candidate_names)
  moreover have "sorted (n # ns)" unfolding ns [symmetric] by simp
  ultimately show ?thesis by (metis List.finite_set Min_eqI list.set_intros(1) set_ConsD sorted_simps(2) order_refl)
qed

text \<open>Between two different entities each stored join is one candidate.\<close>

definition join_entry_list :: "canonical_join \<Rightarrow> string \<Rightarrow> graph_entry list" where
  "join_entry_list j x = (if cj_source_entity j = x then [forward_entry j] else []) @ (if cj_target_entity j = x then [reverse_entry j] else [])"

lemma get_fold_list: "graph_get (foldl add_join g js) x = graph_get g x @ concat (map (\<lambda>j. join_entry_list j x) js)"
  by (induction js arbitrary: g) (auto simp: add_join_def get_add_entry join_entry_list_def)

lemma candidates_parallel:
  assumes "x \<noteq> y"
  shows "mset (map ge_join (hop_candidates (build_join_graph js) (x, y))) = mset (parallel js (x, y))"
proof -
  have "map ge_join (filter (\<lambda>e. ge_neighbor e = y) (concat (map (\<lambda>j. join_entry_list j x) js))) = parallel js (x, y)"
    using assms by (induction js) (auto simp: join_entry_list_def parallel_def entry_fields)
  then have "mset (map ge_join (filter (\<lambda>e. ge_neighbor e = y) (graph_get (foldl add_join [] js) x))) = mset (parallel js (x, y))"
    unfolding get_fold_list by (simp add: graph_get_def)
  then show ?thesis by (simp add: hop_candidates_def get_build)
qed

lemma candidates_named:
  assumes "mset (map ge_join cs) = mset ps"
  shows "mset (map ge_join (filter (\<lambda>c. cj_name (ge_join c) \<in> via) cs)) = mset (filter (\<lambda>j. cj_name j \<in> via) ps)"
proof -
  have "map ge_join (filter (\<lambda>c. cj_name (ge_join c) \<in> via) cs) = filter (\<lambda>j. cj_name j \<in> via) (map ge_join cs)"
    by (simp add: filter_map comp_def)
  then show ?thesis using assms by (metis mset_filter)
qed

lemma names_of_joins:
  assumes "mset (map ge_join cs) = mset ps"
  shows "names_of cs = sort (map cj_name ps)"
proof -
  have "mset (map (\<lambda>e. cj_name (ge_join e)) cs) = mset (map cj_name ps)"
    using arg_cong [OF assms, of "image_mset cj_name"] by (simp add: image_mset.compositionality comp_def)
  then show ?thesis unfolding names_of_def by (metis sorted_list_of_multiset_mset)
qed

lemma choose_join_decides:
  assumes "x \<noteq> y" "hop_candidates (build_join_graph js) (x, y) \<noteq> []"
  shows "case choose_join (build_join_graph js) via (x, y) of
      Inr (p, e) \<Rightarrow> p = x \<and> deciding js via (x, y) = [ce_join e]
    | Inl err \<Rightarrow> \<not> decided js via (x, y) \<and> 2 \<le> length (contested js via (x, y))
        \<and> err = AmbiguousJoin x y (sort (map cj_name (contested js via (x, y))))"
proof -
  let ?cs = "hop_candidates (build_join_graph js) (x, y)" and ?ps = "parallel js (x, y)"
  let ?named = "filter (\<lambda>c. cj_name (ge_join c) \<in> via) ?cs"
  note all = candidates_parallel [OF assms(1), of js]
  note some = candidates_named [OF all, of via]
  have len: "length ?ps = length ?cs" using mset_eq_length [OF all] by simp
  obtain c cs where cs: "?cs = c # cs" using assms(2) by (cases ?cs) auto
  show ?thesis
  proof (cases cs)
    case Nil
    then have "?ps = [ge_join c]" using all cs by (simp flip: mset_single_iff)
    then show ?thesis using cs Nil by (simp add: choose_join_def deciding_def chain_edge_of_def)
  next
    case (Cons d ds)
    have d: "deciding js via (x, y) = filter (\<lambda>j. cj_name j \<in> via) ?ps" using len cs Cons by (simp add: deciding_def)
    have len': "length (deciding js via (x, y)) = length ?named" using mset_eq_length [OF some] d by simp
    have two: "2 \<le> length ?ps" using len cs Cons by simp
    consider "?named = []" | m where "?named = [m]" | m m' ms where "?named = m # m' # ms"
      by (cases ?named rule: remdups_adj.cases) auto
    then show ?thesis
    proof cases
      case 1
      then have "choose_join (build_join_graph js) via (x, y) = Inl (AmbiguousJoin x y (names_of ?cs))"
        using cs Cons by (simp add: choose_join_def)
      moreover have "contested js via (x, y) = ?ps" using 1 len' by (simp add: contested_def)
      ultimately show ?thesis using names_of_joins [OF all] two 1 len' by (simp add: decided_def)
    next
      case 2
      then have "choose_join (build_join_graph js) via (x, y) = Inr (x, chain_edge_of m)"
        using cs Cons by (simp add: choose_join_def)
      moreover have "mset (deciding js via (x, y)) = {#ge_join m#}" unfolding d some [symmetric] 2 by simp
      then have "deciding js via (x, y) = [ge_join m]" by (simp only: mset_single_iff)
      ultimately show ?thesis by (simp add: chain_edge_of_def)
    next
      case 3
      then have "choose_join (build_join_graph js) via (x, y) = Inl (AmbiguousJoin x y (names_of ?named))"
        using cs Cons by (simp add: choose_join_def)
      moreover have "contested js via (x, y) = filter (\<lambda>j. cj_name j \<in> via) ?ps" using 3 len' d by (auto simp: contested_def)
      ultimately show ?thesis using names_of_joins [OF some] 3 len' d by (simp add: decided_def)
    qed
  qed
qed

subsection \<open>Chains\<close>

text \<open>
  The specification of a chain: every hop starts where the last one ended and runs along a stored
  join, forwards with its own column pairs, or backwards with the pairs swapped.
\<close>

definition edge_ok :: "canonical_join list \<Rightarrow> string \<Rightarrow> chain_edge \<Rightarrow> bool" where
  "edge_ok js p e \<longleftrightarrow> ce_join e \<in> set js \<and>
     (if ce_reverse e
      then cj_target_entity (ce_join e) = p \<and> cj_source_entity (ce_join e) = ce_target_entity e
        \<and> ce_on_pairs e = map swap_pair (cj_on (ce_join e))
      else cj_source_entity (ce_join e) = p \<and> cj_target_entity (ce_join e) = ce_target_entity e
        \<and> ce_on_pairs e = cj_on (ce_join e))"

fun chain_ok :: "canonical_join list \<Rightarrow> string \<Rightarrow> (string \<times> chain_edge) list \<Rightarrow> string \<Rightarrow> bool" where
  "chain_ok js a [] b = (a = b)"
| "chain_ok js a ((p, e) # c) b = (p = a \<and> edge_ok js p e \<and> chain_ok js (ce_target_entity e) c b)"

definition hop_of :: "string \<times> chain_edge \<Rightarrow> string \<times> string" where
  "hop_of pe = (fst pe, ce_target_entity (snd pe))"

definition feasible :: "join_graph \<Rightarrow> string \<Rightarrow> string \<Rightarrow> string set \<Rightarrow> structural_path set" where
  "feasible g a t via = {p. shortest g a p t \<and> length p \<le> MAX_HOPS \<and> via \<subseteq> names_on_path p g}"

lemma entry_edge_ok: "c \<in> set (graph_get (build_join_graph js) p) \<Longrightarrow> edge_ok js p (chain_edge_of c)"
  by (auto simp: graph_simps join_entries_def forward_entry_def reverse_entry_def edge_ok_def chain_edge_of_def
      split: if_splits)

lemma chain_of_path:
  assumes "list_all2 (\<lambda>hop x. choose_join (build_join_graph js) via hop = Inr x) path chain"
    "walks (build_join_graph js) a path t"
  shows "chain_ok js a chain t \<and> map hop_of chain = path"
  using assms
proof (induction path chain arbitrary: a rule: list_all2_induct)
  case (Cons hop path x chain)
  obtain p e where x: "x = (p, e)" by (cases x)
  obtain c where c: "c \<in> set (hop_candidates (build_join_graph js) hop)" "e = chain_edge_of c" "p = fst hop"
    using choose_join_Inr [of "build_join_graph js" via hop p e] Cons.hyps(1) x by auto
  obtain y where hop: "hop = (a, y)" "walks (build_join_graph js) y path t"
    using Cons.prems by (cases hop) auto
  have e: "edge_ok js a e" "ce_target_entity e = y"
    using c hop entry_edge_ok by (auto simp: hop_candidates_def chain_edge_of_def)
  then show ?case using Cons.IH hop x c by (simp add: hop_of_def)
qed simp

lemma consumed_is_via:
  assumes "list_all2 (\<lambda>hop x. choose_join g via hop = Inr x) path chain" "via \<subseteq> names_on_path path g"
  shows "consumed_via via chain = via"
proof -
  have "n \<in> cj_name ` ce_join ` snd ` set chain" if n: "n \<in> via" for n
  proof -
    obtain hop d where d: "hop \<in> set path" "d \<in> set (hop_candidates g hop)" "n = cj_name (ge_join d)"
      using n assms(2) names_on_path_iff by blast
    then obtain i where i: "i < length path" "hop = path ! i" by (metis in_set_conv_nth)
    obtain p e where x: "chain ! i = (p, e)" by (cases "chain ! i")
    then have "choose_join g via hop = Inr (p, e)" using list_all2_nthD [OF assms(1) i(1)] i(2) by simp
    then obtain c where "e = chain_edge_of c" "cj_name (ge_join d) = cj_name (ge_join c)"
      using choose_join_Inr [of g via hop p e] d n by auto
    then have "cj_name (ce_join e) = n" using d by (simp add: chain_edge_of_def)
    moreover have "(p, e) \<in> set chain" using x i assms(1) by (metis list_all2_lengthD nth_mem)
    ultimately show ?thesis by force
  qed
  then show ?thesis by (force simp: consumed_via_def)
qed

lemma filter_feasible:
  assumes "a \<noteq> t"
  shows "set (filter_structural_paths_by_via (structural_shortest_paths g a t MAX_HOPS) g via) = feasible g a t via"
    "distinct (filter_structural_paths_by_via (structural_shortest_paths g a t MAX_HOPS) g via)"
proof -
  have s: "set (structural_shortest_paths g a t MAX_HOPS) = {p. shortest g a p t \<and> length p \<le> MAX_HOPS}"
    by (rule structural_set [OF assms])
  show "set (filter_structural_paths_by_via (structural_shortest_paths g a t MAX_HOPS) g via) = feasible g a t via"
    using s by (simp add: filter_structural_paths_by_via_def feasible_def)
  have "distinct (structural_shortest_paths g a t MAX_HOPS)"
    unfolding structural_shortest_paths_def by (rule distinct_bfs) simp
  then show "distinct (filter_structural_paths_by_via (structural_shortest_paths g a t MAX_HOPS) g via)"
    by (simp add: filter_structural_paths_by_via_def)
qed

lemma walk_ends_in_graph:
  "walks (build_join_graph js) a p t \<Longrightarrow> p \<noteq> [] \<Longrightarrow>
     in_graph a (build_join_graph js) \<and> in_graph t (build_join_graph js)"
proof (induction p arbitrary: a)
  case (Cons h p)
  obtain y where h: "adjacent js a y" "walks (build_join_graph js) y p t"
    using Cons.prems(1) by (cases h) (auto simp: neighbor_build)
  then have "in_graph a (build_join_graph js)" "in_graph y (build_join_graph js)"
    by (auto simp: in_build adjacent_def)
  then show ?case using h Cons.IH [of y] by (cases "p = []") auto
qed simp

lemma unreachable_iff:
  assumes "a \<noteq> t"
  shows "(\<not> in_graph a (build_join_graph js) \<or> \<not> in_graph t (build_join_graph js)
      \<or> structural_shortest_paths (build_join_graph js) a t h = []) \<longleftrightarrow>
    (\<nexists>p. walks (build_join_graph js) a p t \<and> length p \<le> h)"
proof -
  have "p \<noteq> []" if "walks (build_join_graph js) a p t" for p using assms that by auto
  moreover have "structural_shortest_paths (build_join_graph js) a t h = [] \<longleftrightarrow>
      (\<nexists>p. walks (build_join_graph js) a p t \<and> length p \<le> h)"
  proof -
    have "structural_shortest_paths (build_join_graph js) a t h = [] \<longleftrightarrow>
        (\<nexists>p. shortest (build_join_graph js) a p t \<and> length p \<le> h)"
      using structural_set [OF assms, of "build_join_graph js" h] by (metis (mono_tags) empty_Collect_eq set_empty)
    also have "\<dots> \<longleftrightarrow> (\<nexists>p. walks (build_join_graph js) a p t \<and> length p \<le> h)"
      using shortest_exists unfolding shortest_def by (meson le_trans)
    finally show ?thesis .
  qed
  ultimately show ?thesis using walk_ends_in_graph by blast
qed

text \<open>What each outcome of the chain search means, in terms of walks.\<close>

definition chain_outcome ::
  "canonical_join list \<Rightarrow> string \<Rightarrow> string \<Rightarrow> string set \<Rightarrow> compile_error + ((string \<times> chain_edge) list \<times> string set) \<Rightarrow> bool" where
  "chain_outcome js a t via r =
     (let g = build_join_graph js in
      case r of
        Inr (chain, used) \<Rightarrow> chain_ok js a chain t \<and> feasible g a t via = {map hop_of chain} \<and> used = via
          \<and> (\<forall>pe \<in> set chain. deciding js via (hop_of pe) = [ce_join (snd pe)])
      | Inl (UnreachableEntity x y) \<Rightarrow> x = a \<and> y = t \<and> (\<nexists>p. walks g a p t \<and> length p \<le> MAX_HOPS)
      | Inl (UnknownViaJoin x y requested available) \<Rightarrow> x = a \<and> y = t \<and>
          (\<exists>p. walks g a p t \<and> length p \<le> MAX_HOPS) \<and> feasible g a t via = {} \<and> requested = sorted_list_of_set via
          \<and> available = sorted_list_of_set (\<Union>p \<in> feasible g a t {}. names_on_path p g)
      | Inl (AmbiguousPath x y candidates) \<Rightarrow> x = a \<and> y = t \<and> 2 \<le> card (feasible g a t via) \<and>
          (\<exists>ps. distinct ps \<and> set ps = feasible g a t via \<and> candidates = map (map (\<lambda>hop. Min (hop_names js hop))) ps)
      | Inl (AmbiguousJoin x y names) \<Rightarrow>
          (\<exists>pre post. feasible g a t via = {pre @ (x, y) # post} \<and> list_all (decided js via) pre) \<and> \<not> decided js via (x, y)
          \<and> 2 \<le> length names \<and> names = sort (map cj_name (contested js via (x, y)))
      | Inl _ \<Rightarrow> False)"

lemma shortest_hop:
  assumes "shortest (build_join_graph js) a p t" "hop \<in> set p"
  shows "fst hop \<noteq> snd hop" "hop_candidates (build_join_graph js) hop \<noteq> []"
proof -
  have w: "walks g a q t \<Longrightarrow> hop \<in> set q \<Longrightarrow> distinct (a # map snd q) \<Longrightarrow> fst hop \<noteq> snd hop" for g q a
    by (induction g a q t rule: walks.induct) auto
  show "fst hop \<noteq> snd hop" using w [OF _ assms(2) shortest_distinct [OF assms(1)]] assms(1) by (auto simp: shortest_def)
  have "walks (build_join_graph js) a p t" using assms(1) by (simp add: shortest_def)
  then show "hop_candidates (build_join_graph js) hop \<noteq> []" by (rule walks_candidates [OF _ assms(2)])
qed

lemma rtraverse_Inl_first: "rtraverse f xs = Inl e \<Longrightarrow> \<exists>pre x post. xs = pre @ x # post \<and> f x = Inl e \<and> list_all (\<lambda>y. \<exists>z. f y = Inr z) pre"
proof (induction xs)
  case (Cons x xs)
  show ?case
  proof (cases "f x")
    case (Inl e')
    then show ?thesis using Cons.prems by (intro exI [of _ "[]"]) auto
  next
    case (Inr z)
    then obtain pre y post where "xs = pre @ y # post" "f y = Inl e" "list_all (\<lambda>y. \<exists>z. f y = Inr z) pre"
      using Cons by (auto simp: rbind_Inl_iff)
    then show ?thesis using Inr by (intro exI [of _ "x # pre"]) auto
  qed
qed simp

lemma single_path_outcome:
  assumes f: "feasible (build_join_graph js) a t via = {path}"
  shows "chain_outcome js a t via
    (rbind (rtraverse (choose_join (build_join_graph js) via) path) (\<lambda>chain. Inr (chain, consumed_via via chain)))"
proof -
  let ?g = "build_join_graph js"
  have sh: "shortest ?g a path t" and sub: "via \<subseteq> names_on_path path ?g" using f by (auto simp: feasible_def)
  have hop: "case choose_join ?g via hop of Inr (p, e) \<Rightarrow> p = fst hop \<and> deciding js via hop = [ce_join e]
    | Inl err \<Rightarrow> \<not> decided js via hop \<and> 2 \<le> length (contested js via hop)
        \<and> err = AmbiguousJoin (fst hop) (snd hop) (sort (map cj_name (contested js via hop)))" if "hop \<in> set path" for hop
    using choose_join_decides [of "fst hop" "snd hop" js via] shortest_hop [OF sh that] unfolding prod.collapse by blast
  show ?thesis
  proof (cases "rtraverse (choose_join ?g via) path")
    case (Inl x)
    obtain pre h post where h: "path = pre @ h # post" "choose_join ?g via h = Inl x"
      "list_all (\<lambda>y. \<exists>z. choose_join ?g via y = Inr z) pre"
      using rtraverse_Inl_first [OF Inl] by blast
    have "decided js via y" if y: "y \<in> set pre" for y
    proof -
      obtain z where "choose_join ?g via y = Inr z" using h(3) y by (auto simp: list_all_iff)
      then show ?thesis using hop [of y] h(1) y by (auto simp: decided_def split: prod.splits)
    qed
    then have "list_all (decided js via) pre" by (simp add: list_all_iff)
    moreover have "\<not> decided js via h \<and> 2 \<le> length (contested js via h)
        \<and> x = AmbiguousJoin (fst h) (snd h) (sort (map cj_name (contested js via h)))" using hop [of h] h(1,2) by simp
    moreover have "feasible ?g a t via = {pre @ (fst h, snd h) # post}" using f h(1) by simp
    ultimately show ?thesis using Inl by (simp add: chain_outcome_def) blast
  next
    case (Inr chain)
    have l: "list_all2 (\<lambda>hop x. choose_join ?g via hop = Inr x) path chain" using Inr rtraverse_Inr_iff by blast
    have w: "walks ?g a path t" using sh by (simp add: shortest_def)
    have c: "chain_ok js a chain t" "map hop_of chain = path" using chain_of_path [OF l w] by simp_all
    have "deciding js via (hop_of pe) = [ce_join (snd pe)]" if pe: "pe \<in> set chain" for pe
    proof -
      obtain h where h: "h \<in> set path" "choose_join ?g via h = Inr pe" using rtraverse_Inr_set [OF Inr pe] by blast
      have d: "fst pe = fst h \<and> deciding js via h = [ce_join (snd pe)]" using hop [OF h(1)] h(2) by (simp add: case_prod_beta)
      have "ce_target_entity (snd pe) = snd h"
        using choose_join_Inr [of ?g via h "fst pe" "snd pe"] h(2) by (auto simp: chain_edge_of_def hop_candidates_def)
      then show ?thesis using d by (simp add: hop_of_def)
    qed
    then show ?thesis using c consumed_is_via [OF l sub] Inr f by (simp add: chain_outcome_def)
  qed
qed

lemma render_path_Min: "render_structural_path w (build_join_graph js) = Inr ns \<Longrightarrow> ns = map (\<lambda>hop. Min (hop_names js hop)) w"
proof -
  assume "render_structural_path w (build_join_graph js) = Inr ns"
  then have "list_all2 (\<lambda>hop n. n = Min (hop_names js hop)) w ns"
    unfolding render_structural_path_def rtraverse_Inr_iff by (rule list_all2_mono) (simp add: render_hop_Min)
  then show ?thesis by (induction w ns rule: list_all2_induct) simp_all
qed

lemma render_paths_Min:
  "rtraverse (\<lambda>path. render_structural_path path (build_join_graph js)) ps = Inr cs \<Longrightarrow> cs = map (map (\<lambda>hop. Min (hop_names js hop))) ps"
  by (induction ps arbitrary: cs) (auto simp: rbind_Inr_iff render_path_Min)

lemma feasible_no_via:
  assumes "a \<noteq> t"
  shows "set (structural_shortest_paths g a t MAX_HOPS) = feasible g a t {}"
  using structural_set [OF assms, of g MAX_HOPS] by (simp add: feasible_def)

lemma chain_outcome_holds:
  assumes "a \<noteq> t" "finite via"
  shows "chain_outcome js a t via (find_canonical_chain (build_join_graph js) a t via)"
proof (cases "\<exists>p. walks (build_join_graph js) a p t \<and> length p \<le> MAX_HOPS")
  case False
  then have "find_canonical_chain (build_join_graph js) a t via = Inl (UnreachableEntity a t)"
    using unreachable_iff [OF assms(1), of js MAX_HOPS] by (auto simp: find_canonical_chain_def Let_def)
  then show ?thesis using False by (simp add: chain_outcome_def)
next
  case True
  let ?g = "build_join_graph js" and ?paths = "structural_shortest_paths (build_join_graph js) a t MAX_HOPS"
  let ?ok = "filter_structural_paths_by_via ?paths ?g via"
  have r: "in_graph a ?g" "in_graph t ?g" "?paths \<noteq> []" using True unreachable_iff [OF assms(1), of js MAX_HOPS] by auto
  have f: "set ?ok = feasible ?g a t via" "distinct ?ok" using filter_feasible [OF assms(1)] by blast+
  consider "?ok = []" | path where "?ok = [path]" | p q ps where "?ok = p # q # ps"
    by (cases ?ok rule: remdups_adj.cases) auto
  then show ?thesis
  proof cases
    case 1
    have "set (concat (map (\<lambda>p. map cj_name (canonicals_on_structural_path p ?g)) ?paths))
        = (\<Union>p \<in> feasible ?g a t {}. names_on_path p ?g)"
      using feasible_no_via [OF assms(1), of ?g] by (simp add: names_on_path_def)
    then have "sort (remdups (concat (map (\<lambda>p. map cj_name (canonicals_on_structural_path p ?g)) ?paths)))
        = sorted_list_of_set (\<Union>p \<in> feasible ?g a t {}. names_on_path p ?g)"
      by (metis sorted_list_of_set_sort_remdups)
    then show ?thesis using 1 r f True by (simp add: find_canonical_chain_def Let_def chain_outcome_def)
  next
    case 2
    then show ?thesis using single_path_outcome [of js a t via path] r f
      by (simp add: find_canonical_chain_def Let_def)
  next
    case 3
    have "\<exists>ns. render_structural_path x ?g = Inr ns" if "x \<in> set ?ok" for x
      using that f render_total [of ?g a x t] by (auto simp: feasible_def shortest_def)
    then obtain cs where cs: "rtraverse (\<lambda>path. render_structural_path path ?g) ?ok = Inr cs"
      using rtraverse_total by metis
    have "2 \<le> card (feasible ?g a t via)" using f 3 distinct_card [of ?ok] by simp
    moreover have "cs = map (map (\<lambda>hop. Min (hop_names js hop))) ?ok"
      by (rule render_paths_Min [OF cs])
    moreover have "find_canonical_chain ?g a t via = Inl (AmbiguousPath a t cs)"
      using 3 cs r by (simp add: find_canonical_chain_def Let_def)
    ultimately show ?thesis using f by (auto simp: chain_outcome_def Let_def intro!: exI [of _ ?ok])
  qed
qed

text \<open>C22: The chain search ends in exactly one documented way. It answers a chain along stored joins, each walked in its
  own direction, whose hops are the one shortest path carrying all the via names, every one of which it consumes,
  and whose join at each hop is the only stored one between the two entities or, of several, the only one that the
  via names name. Or it refuses with the condition that holds: nothing within six hops; no shortest path with all
  the names, with the names that would do; at least two of them, each listed hop by hop with its least join name;
  or the first hop of the one path whose parallel joins the names do not decide, with those named, or all of them
  when none is. The compiler's internal errors do not occur.\<close>

theorem chain_search_outcome:
  assumes "anchor \<noteq> target" "finite via"
  shows "chain_outcome js anchor target via (find_canonical_chain (build_join_graph js) anchor target via)"
  using chain_outcome_holds [OF assms] .

definition demo_join :: "string \<Rightarrow> string \<Rightarrow> string \<Rightarrow> canonical_join" where
  "demo_join n s t = \<lparr>cj_name = n, cj_description = [], cj_source_entity = s, cj_target_entity = t,
     cj_on = [\<lparr>jp_source_column = t @ ''_id'', jp_target_column = ''id''\<rparr>], cj_origin = Manual, cj_cardinality = Some Many_To_One,
     cj_inference_method = Fk_Constraint, cj_validation_state = Applied\<rparr>"

theorem bfs_finds_shortest_walks_witness:
  "set (structural_shortest_paths (build_join_graph [demo_join ''ab'' ''a'' ''b'', demo_join ''bc'' ''b'' ''c'']) ''a'' ''c'' 6)
     = {p. shortest (build_join_graph [demo_join ''ab'' ''a'' ''b'', demo_join ''bc'' ''b'' ''c'']) ''a'' p ''c'' \<and> length p \<le> 6} \<and>
   structural_shortest_paths (build_join_graph [demo_join ''ab'' ''a'' ''b'', demo_join ''bc'' ''b'' ''c'']) ''a'' ''c'' 6
     = [[(''a'', ''b''), (''b'', ''c'')]]"
proof
  show "structural_shortest_paths (build_join_graph [demo_join ''ab'' ''a'' ''b'', demo_join ''bc'' ''b'' ''c'']) ''a'' ''c'' 6
      = [[(''a'', ''b''), (''b'', ''c'')]]" by code_simp
qed (use bfs_finds_shortest_walks [of "''a''" "''c''"] in simp)

theorem chain_search_outcome_witness:
  "chain_outcome [demo_join ''ab'' ''a'' ''b'', demo_join ''ab2'' ''a'' ''b''] ''a'' ''b'' {''ab2''}
     (Inr ([(''a'', \<lparr>ce_join = demo_join ''ab2'' ''a'' ''b'', ce_target_entity = ''b'',
        ce_on_pairs = [\<lparr>jp_source_column = ''b_id'', jp_target_column = ''id''\<rparr>], ce_reverse = False\<rparr>)], {''ab2''}))"
proof -
  have "find_canonical_chain (build_join_graph [demo_join ''ab'' ''a'' ''b'', demo_join ''ab2'' ''a'' ''b'']) ''a'' ''b'' {''ab2''} =
      Inr ([(''a'', \<lparr>ce_join = demo_join ''ab2'' ''a'' ''b'', ce_target_entity = ''b'',
        ce_on_pairs = [\<lparr>jp_source_column = ''b_id'', jp_target_column = ''id''\<rparr>], ce_reverse = False\<rparr>)], {''ab2''})"
    by code_simp
  then show ?thesis
    using chain_search_outcome [of "''a''" "''b''" "{''ab2''}" "[demo_join ''ab'' ''a'' ''b'', demo_join ''ab2'' ''a'' ''b'']"]
    by simp
qed

subsection \<open>A shortest walk is shorter than the number of entities\<close>

lemma nodes_in_graph:
  assumes "walks (build_join_graph js) a p t" "p \<noteq> []"
  shows "set (a # map snd p) \<subseteq> set (map fst (build_join_graph js))"
proof
  fix x assume "x \<in> set (a # map snd p)"
  then obtain i where i: "i \<le> length p" "x = (a # map snd p) ! i"
    by (metis in_set_conv_nth length_Cons length_map less_Suc_eq_le)
  show "x \<in> set (map fst (build_join_graph js))"
  proof (cases "i = 0")
    case True
    then show ?thesis using walk_ends_in_graph [OF assms] i by (simp add: in_graph_def)
  next
    case False
    then have "take i p \<noteq> []" using assms(2) by simp
    then show ?thesis using walk_ends_in_graph walks_take [OF assms(1) i(1)] i(2) by (metis in_graph_def)
  qed
qed

lemma shortest_bound:
  assumes "shortest (build_join_graph js) a p t" "p \<noteq> []"
  shows "length p < length (build_join_graph js)"
proof -
  have "walks (build_join_graph js) a p t" using assms(1) by (simp add: shortest_def)
  then have "card (set (a # map snd p)) \<le> card (set (map fst (build_join_graph js)))"
    using nodes_in_graph assms(2) by (intro card_mono) simp_all
  moreover have "card (set (a # map snd p)) = Suc (length p)"
    using distinct_card [OF shortest_distinct [OF assms(1)]] by simp
  ultimately show ?thesis using card_length [of "map fst (build_join_graph js)"] by simp
qed

lemma walks_reverse:
  "walks (build_join_graph js) a p b \<Longrightarrow> walks (build_join_graph js) b (rev (map prod.swap p)) a"
proof (induction p arbitrary: a)
  case (Cons h p)
  then show ?case using adjacent_sym by (cases h) (auto simp: walks_snoc neighbor_build)
qed simp

lemma shortest_reverse:
  assumes "shortest (build_join_graph js) a p b" "shortest (build_join_graph js) b q a"
  shows "length p = length q"
  using assms walks_reverse [of js a p b] walks_reverse [of js b q a] unfolding shortest_def
  by (metis le_antisym length_map length_rev)

subsection \<open>The read-only paths\<close>

definition no_walk :: "canonical_join list \<Rightarrow> string \<Rightarrow> string \<Rightarrow> bool" where
  "no_walk js a t \<longleftrightarrow> (\<nexists>w. walks (build_join_graph js) a w t)"

lemma path_from_graph_result:
  "(if a = t \<or> no_walk js a t then build_canonical_path js a t = Inr EMPTY_PATH
    else \<exists>w ns. shortest (build_join_graph js) a w t \<and> w \<noteq> [] \<and> render_structural_path w (build_join_graph js) = Inr ns \<and>
      build_canonical_path js a t = Inr \<lparr>cp_nodes = a # map snd w, cp_edges = ns\<rparr>)"
proof (cases "a = t \<or> no_walk js a t")
  case True
  then show ?thesis using unreachable_iff [of a t js "length (build_join_graph js)"]
    by (auto simp: build_canonical_path_def path_from_graph_def no_walk_def)
next
  case False
  let ?g = "build_join_graph js" and ?ps = "structural_shortest_paths (build_join_graph js) a t (length (build_join_graph js))"
  obtain w where w: "shortest ?g a w t" using False shortest_exists unfolding no_walk_def by blast
  have ne: "v \<noteq> []" if "shortest ?g a v t" for v using False that by (auto simp: shortest_def)
  then have "length w \<le> length ?g" using shortest_bound [OF w] w by fastforce
  then have r: "in_graph a ?g" "in_graph t ?g" "?ps \<noteq> []"
    using unreachable_iff [of a t js "length ?g"] False w by (auto simp: shortest_def)
  then obtain v vs where v: "?ps = v # vs" by (cases ?ps) auto
  then have "v \<in> set ?ps" by simp
  then have s: "shortest ?g a v t" using structural_set [of a t ?g "length ?g"] False by simp
  obtain ns where ns: "render_structural_path v ?g = Inr ns" using render_total s unfolding shortest_def by blast
  have "fst (hd v) = a" using s ne [OF s] by (cases v rule: list.exhaust) (auto simp: shortest_def)
  then show ?thesis using False v r ns s ne [OF s] by (auto simp: build_canonical_path_def path_from_graph_def)
qed

text \<open>The read-only path between two entities is never an error. It is empty exactly when the two are the
  same or no chain of joins of any length links them (the entity count is a large enough search bound);
  otherwise its nodes run along a shortest walk and each edge carries the least name among the parallel joins.\<close>

theorem canonical_path_is_shortest:
  "\<exists>p. build_canonical_path js anchor target = Inr p \<and>
     (if anchor = target \<or> no_walk js anchor target then p = EMPTY_PATH
      else (\<exists>w. shortest (build_join_graph js) anchor w target \<and> cp_nodes p = anchor # map snd w
        \<and> cp_edges p = map (\<lambda>hop. Min (hop_names js hop)) w))"
proof (cases "anchor = target \<or> no_walk js anchor target")
  case True
  then show ?thesis using path_from_graph_result [of anchor target js] by auto
next
  case False
  then obtain w ns where w: "shortest (build_join_graph js) anchor w target"
    "render_structural_path w (build_join_graph js) = Inr ns"
    "build_canonical_path js anchor target = Inr \<lparr>cp_nodes = anchor # map snd w, cp_edges = ns\<rparr>"
    using path_from_graph_result [of anchor target js] by auto
  have "ns = map (\<lambda>hop. Min (hop_names js hop)) w" by (rule render_path_Min [OF w(2)])
  then show ?thesis using w False by auto
qed

subsection \<open>The longest path\<close>

lemma better_trans: "better_path a b \<Longrightarrow> better_path b c \<Longrightarrow> better_path a c"
  by (auto simp: better_path_def)

lemma keep_best_result:
  assumes "\<And>a t. (a, t) \<in> set ps \<Longrightarrow> \<exists>c. path_from_graph g a t = Inr c"
  shows "\<exists>r. keep_best g best ps = Inr r \<and> (r = best \<or> (\<exists>(a, t) \<in> set ps. path_from_graph g a t = Inr r)) \<and>
    (r = best \<or> better_path r best) \<and> (\<forall>(a, t) \<in> set ps. \<forall>c. path_from_graph g a t = Inr c \<longrightarrow> \<not> better_path c r)"
  using assms
proof (induction g best ps rule: keep_best.induct)
  case (2 g best a t ps)
  obtain c where c: "path_from_graph g a t = Inr c" using "2.prems" by fastforce
  let ?b = "if better_path c best then c else best"
  obtain r where r: "keep_best g ?b ps = Inr r" "r = ?b \<or> (\<exists>(a, t) \<in> set ps. path_from_graph g a t = Inr r)"
    "r = ?b \<or> better_path r ?b" "\<forall>(a, t) \<in> set ps. \<forall>c. path_from_graph g a t = Inr c \<longrightarrow> \<not> better_path c r"
    using "2.IH" [of c, OF "2.prems"] by (auto simp del: split_paired_Ex)
  have irr: "\<not> better_path x x" for x by (simp add: better_path_def)
  have "r = best \<or> better_path r best" using r(3) better_trans by (auto split: if_splits)
  moreover have "\<not> better_path c r" using r(3) better_trans irr by (auto split: if_splits)
  moreover have "r = best \<or> (\<exists>(a, t) \<in> set ((a, t) # ps). path_from_graph g a t = Inr r)"
    using r(2) c by (auto split: if_splits)
  ultimately show ?case using r c by auto
qed simp

lemma ordered_pairs_set: "(a, t) \<in> set (ordered_pairs xs) \<Longrightarrow> a \<in> set xs \<and> t \<in> set xs"
  by (induction xs rule: ordered_pairs.induct) auto

lemma ordered_pairs_sorted:
  "sorted xs \<Longrightarrow> distinct xs \<Longrightarrow> a \<in> set xs \<Longrightarrow> t \<in> set xs \<Longrightarrow> a < t \<Longrightarrow> (a, t) \<in> set (ordered_pairs xs)"
  by (induction xs rule: ordered_pairs.induct) auto

lemma hops_symmetric:
  assumes "build_canonical_path js a t = Inr p" "build_canonical_path js t a = Inr q"
  shows "hops p = hops q"
proof -
  let ?g = "build_join_graph js"
  have nw: "no_walk js a t = no_walk js t a" unfolding no_walk_def using walks_reverse by blast
  show ?thesis
  proof (cases "a = t \<or> no_walk js a t")
    case True
    then show ?thesis using path_from_graph_result [of a t js] path_from_graph_result [of t a js] nw assms by auto
  next
    case False
    then obtain w ns where w: "shortest ?g a w t" "render_structural_path w ?g = Inr ns" "p = \<lparr>cp_nodes = a # map snd w, cp_edges = ns\<rparr>"
      using path_from_graph_result [of a t js] assms(1) by auto
    from False nw obtain v ms where v: "shortest ?g t v a" "render_structural_path v ?g = Inr ms" "q = \<lparr>cp_nodes = t # map snd v, cp_edges = ms\<rparr>"
      using path_from_graph_result [of t a js] assms(2) by auto
    have "length ns = length w" "length ms = length v"
      using rtraverse_Inr_length [OF w(2) [unfolded render_structural_path_def]]
        rtraverse_Inr_length [OF v(2) [unfolded render_structural_path_def]] by simp_all
    then show ?thesis using shortest_reverse [OF w(1) v(1)] w(3) v(3) by (simp add: hops_def)
  qed
qed

lemma build_total: "\<exists>p. build_canonical_path js a t = Inr p"
  using path_from_graph_result [of a t js] by (auto split: if_splits)

lemma outside_graph: "build_canonical_path js a t = Inr c \<Longrightarrow> c = EMPTY_PATH \<or>
    (a \<noteq> t \<and> in_graph a (build_join_graph js) \<and> in_graph t (build_join_graph js))"
  by (auto simp: build_canonical_path_def path_from_graph_def split: if_splits)

lemma diameter_pairs:
  assumes "build_canonical_path js a t = Inr c" "c \<noteq> EMPTY_PATH"
  shows "\<exists>a' t' c'. (a', t') \<in> set (ordered_pairs (sort (map fst (build_join_graph js)))) \<and>
    build_canonical_path js a' t' = Inr c' \<and> hops c' = hops c \<and> (a < t \<longrightarrow> a' = a \<and> t' = t \<and> c' = c)"
proof -
  let ?xs = "sort (map fst (build_join_graph js))"
  have xs: "sorted ?xs" "distinct ?xs" using distinct_build by simp_all
  have at: "a \<noteq> t" "a \<in> set ?xs" "t \<in> set ?xs" using outside_graph [OF assms(1)] assms(2) by (auto simp: in_graph_def)
  obtain d where d: "build_canonical_path js t a = Inr d" using build_total by blast
  from at(1) consider "a < t" | "t < a" by (meson linorder_neqE)
  then show ?thesis
  proof cases
    case 1
    then show ?thesis using ordered_pairs_sorted [OF xs at(2,3) 1] assms(1) by blast
  next
    case 2
    then show ?thesis using ordered_pairs_sorted [OF xs at(3,2) 2] d hops_symmetric [OF assms(1) d] by fastforce
  qed
qed

text \<open>The longest canonical path is never an error and is the diameter of the graph: it is one of the
  shortest paths between two entities, none of which has more hops, and among the longest of them,
  read from the smaller end, none has a smaller node sequence. It is empty only when no two
  entities are connected.\<close>

theorem longest_path_is_diameter:
  "\<exists>p. longest_canonical_path js = Inr p \<and> (p = EMPTY_PATH \<or> (\<exists>a t. build_canonical_path js a t = Inr p)) \<and>
    (\<forall>a t c. build_canonical_path js a t = Inr c \<longrightarrow> hops c \<le> hops p) \<and>
    (\<forall>a t c. build_canonical_path js a t = Inr c \<and> a < t \<and> hops c = hops p \<and> 0 < hops p \<longrightarrow> cp_nodes p \<le> cp_nodes c)"
proof -
  let ?g = "build_join_graph js" and ?ps = "ordered_pairs (sort (map fst (build_join_graph js)))"
  have pg: "path_from_graph ?g a t = build_canonical_path js a t" for a t by (simp add: build_canonical_path_def)
  obtain p where p: "longest_canonical_path js = Inr p" "p = EMPTY_PATH \<or> (\<exists>(a, t) \<in> set ?ps. build_canonical_path js a t = Inr p)"
    "\<forall>(a, t) \<in> set ?ps. \<forall>c. build_canonical_path js a t = Inr c \<longrightarrow> \<not> better_path c p"
    using keep_best_result [of ?ps ?g EMPTY_PATH] build_total [of js] unfolding pg longest_canonical_path_def Let_def by blast
  have e: "hops EMPTY_PATH = 0" by (simp add: hops_def EMPTY_PATH_def)
  have le: "hops c \<le> hops p" if c: "build_canonical_path js a t = Inr c" for a t c
  proof (cases "c = EMPTY_PATH")
    case False
    then obtain a' t' c' where "(a', t') \<in> set ?ps" "build_canonical_path js a' t' = Inr c'" "hops c' = hops c"
      using diameter_pairs [OF c] by blast
    then show ?thesis using p(3) by (fastforce simp: better_path_def)
  qed (simp add: e)
  have min: "cp_nodes p \<le> cp_nodes c" if c: "build_canonical_path js a t = Inr c" "a < t" "hops c = hops p" "0 < hops p" for a t c
  proof -
    have "c \<noteq> EMPTY_PATH" using c(3,4) e by auto
    then have "\<not> better_path c p" using diameter_pairs [OF c(1)] c(2) p(3) by blast
    then show ?thesis using c by (auto simp: better_path_def not_less)
  qed
  show ?thesis using p(1,2) le min by blast
qed

theorem longest_path_is_diameter_witness:
  "longest_canonical_path [demo_join ''ab'' ''a'' ''b'', demo_join ''cb'' ''c'' ''b''] =
     Inr \<lparr>cp_nodes = [''a'', ''b'', ''c''], cp_edges = [''ab'', ''cb'']\<rparr> \<and>
   hops EMPTY_PATH \<le> hops \<lparr>cp_nodes = [''a'', ''b'', ''c''], cp_edges = [''ab'', ''cb'']\<rparr>"
proof
  show l: "longest_canonical_path [demo_join ''ab'' ''a'' ''b'', demo_join ''cb'' ''c'' ''b''] =
     Inr \<lparr>cp_nodes = [''a'', ''b'', ''c''], cp_edges = [''ab'', ''cb'']\<rparr>" by code_simp
  have "build_canonical_path [demo_join ''ab'' ''a'' ''b'', demo_join ''cb'' ''c'' ''b''] ''a'' ''a'' = Inr EMPTY_PATH" by code_simp
  then show "hops EMPTY_PATH \<le> hops \<lparr>cp_nodes = [''a'', ''b'', ''c''], cp_edges = [''ab'', ''cb'']\<rparr>"
    using longest_path_is_diameter [of "[demo_join ''ab'' ''a'' ''b'', demo_join ''cb'' ''c'' ''b'']"] l by auto
qed

end
