(* ===== verification/SchemaModels.thy ===== *)
theory SchemaModels
  imports Prelude
begin

section \<open>Database objects after introspection (core/models.py)\<close>

text \<open>
  The immutable representations that connectors produce, the store persists and the tools return,
  with the validation of their constructors in the order of the checks, and the heuristic that
  recognises an association table. The stripping of white space by the string type is left out:
  strings are those after it.
\<close>

record column =
  co_name :: string
  co_table_name :: string
  co_schema_name :: string
  co_data_type :: string
  co_nullable :: bool
  co_ordinal_position :: int
  co_default :: "string option"
  co_is_primary_key :: bool

record foreign_key =
  fk_name :: string
  fk_source_columns :: "string list"
  fk_target_schema :: string
  fk_target_table :: string
  fk_target_columns :: "string list"

record incoming_foreign_key =
  ik_name :: string
  ik_source_qualified_name :: string
  ik_source_columns :: "string list"
  ik_target_columns :: "string list"

record db_table =
  tb_name :: string
  tb_schema_name :: string
  tb_columns :: "column list"
  tb_foreign_keys :: "foreign_key list"

datatype schema_error =
    EmptyString string | BadOrdinal int | NoColumns string | LengthMismatch | DuplicateSourceColumns | DuplicateTargetColumns
  | ForeignParent string | DuplicateColumnNames "string list" | DuplicatePositions "int list"
  | UnknownSourceColumns string "string list"

definition check_column :: "column \<Rightarrow> schema_error + column" where
  "check_column c =
     (if co_name c = [] then Inl (EmptyString ''name'')
      else if co_table_name c = [] then Inl (EmptyString ''table_name'')
      else if co_schema_name c = [] then Inl (EmptyString ''schema_name'')
      else if co_data_type c = [] then Inl (EmptyString ''data_type'')
      else if co_ordinal_position c < 1 then Inl (BadOrdinal (co_ordinal_position c))
      else if co_default c = Some [] then Inl (EmptyString ''default'')
      else Inr c)"

text \<open>The shared validator of the two foreign-key classes: aligned sides without duplicates.\<close>

definition check_sides :: "string list \<Rightarrow> string list \<Rightarrow> schema_error + unit" where
  "check_sides ss ts =
     (if length ss \<noteq> length ts then Inl LengthMismatch
      else if \<not> distinct ss then Inl DuplicateSourceColumns
      else if \<not> distinct ts then Inl DuplicateTargetColumns
      else Inr ())"

definition check_names :: "string list \<Rightarrow> schema_error + unit" where
  "check_names ns = rcheck ([] \<notin> set ns) (EmptyString ''name'')"

definition check_foreign_key :: "foreign_key \<Rightarrow> schema_error + foreign_key" where
  "check_foreign_key k =
     rbind (check_names ([fk_name k, fk_target_schema k, fk_target_table k] @ fk_source_columns k @ fk_target_columns k)) (\<lambda>_.
     if fk_source_columns k = [] then Inl (NoColumns ''source_columns'')
     else if fk_target_columns k = [] then Inl (NoColumns ''target_columns'')
     else rbind (check_sides (fk_source_columns k) (fk_target_columns k)) (\<lambda>_. Inr k))"

definition check_incoming_foreign_key :: "incoming_foreign_key \<Rightarrow> schema_error + incoming_foreign_key" where
  "check_incoming_foreign_key k =
     rbind (check_names ([ik_name k, ik_source_qualified_name k] @ ik_source_columns k @ ik_target_columns k)) (\<lambda>_.
     if ik_source_columns k = [] then Inl (NoColumns ''source_columns'')
     else if ik_target_columns k = [] then Inl (NoColumns ''target_columns'')
     else rbind (check_sides (ik_source_columns k) (ik_target_columns k)) (\<lambda>_. Inr k))"

text \<open>\<^verbatim>\<open>sorted({n for n in xs if xs.count(n) > 1})\<close>.\<close>

definition repeated :: "'a :: linorder list \<Rightarrow> 'a list" where
  "repeated xs = sort (remdups (filter (\<lambda>x. 1 < count_list xs x) xs))"

definition check_parent :: "db_table \<Rightarrow> column \<Rightarrow> schema_error + unit" where
  "check_parent t c =
     rcheck (co_table_name c = tb_name t \<and> co_schema_name c = tb_schema_name t) (ForeignParent (co_name c))"

definition check_fk_columns :: "db_table \<Rightarrow> foreign_key \<Rightarrow> schema_error + unit" where
  "check_fk_columns t k =
     (let missing = filter (\<lambda>c. c \<notin> set (map co_name (tb_columns t))) (fk_source_columns k)
      in rcheck (missing = []) (UnknownSourceColumns (fk_name k) (sort (remdups missing))))"

definition check_table :: "db_table \<Rightarrow> schema_error + db_table" where
  "check_table t =
     rbind (rtraverse (check_parent t) (tb_columns t)) (\<lambda>_.
     let names = map co_name (tb_columns t); positions = map co_ordinal_position (tb_columns t) in
     if \<not> distinct names then Inl (DuplicateColumnNames (repeated names))
     else if \<not> distinct positions then Inl (DuplicatePositions (repeated positions))
     else rbind (rtraverse (check_fk_columns t) (tb_foreign_keys t)) (\<lambda>_. Inr t))"

definition qualified_name :: "db_table \<Rightarrow> string" where
  "qualified_name t = tb_schema_name t @ ''.'' @ tb_name t"

definition get_column :: "db_table \<Rightarrow> string \<Rightarrow> column option" where
  "get_column t n = find (\<lambda>c. co_name c = n) (tb_columns t)"

definition primary_key_columns :: "db_table \<Rightarrow> string list" where
  "primary_key_columns t = map co_name (filter co_is_primary_key (tb_columns t))"

definition touches_key :: "db_table \<Rightarrow> foreign_key \<Rightarrow> bool" where
  "touches_key t k \<longleftrightarrow> (\<exists>c \<in> set (fk_source_columns k). c \<in> set (primary_key_columns t))"

definition fk_target :: "foreign_key \<Rightarrow> string" where
  "fk_target k = fk_target_schema k @ ''.'' @ fk_target_table k"

definition is_junction_table :: "db_table \<Rightarrow> bool" where
  "is_junction_table t =
     (let pk = set (primary_key_columns t); fks = filter (touches_key t) (tb_foreign_keys t) in
      if card pk < 2 then False
      else if \<not> pk \<subseteq> (\<Union>k \<in> set fks. set (fk_source_columns k)) then False
      else 2 \<le> card (fk_target ` set fks))"

definition junction_target_tables :: "db_table \<Rightarrow> string list" where
  "junction_target_tables t =
     (if \<not> is_junction_table t then []
      else sorted_list_of_set (fk_target ` set (filter (touches_key t) (tb_foreign_keys t))))"

definition table_ok :: "db_table \<Rightarrow> bool" where
  "table_ok t \<longleftrightarrow> check_table t = Inr t"

lemma rtraverse_unit_Inr: "(\<exists>us. rtraverse f xs = Inr us) \<longleftrightarrow> (\<forall>x \<in> set xs. \<exists>u. f x = Inr u)"
  by (induction xs) (auto simp: result_simps)

lemma table_ok_iff:
  "table_ok t \<longleftrightarrow> (\<forall>c \<in> set (tb_columns t). co_table_name c = tb_name t \<and> co_schema_name c = tb_schema_name t) \<and>
     distinct (map co_name (tb_columns t)) \<and> distinct (map co_ordinal_position (tb_columns t)) \<and>
     (\<forall>k \<in> set (tb_foreign_keys t). set (fk_source_columns k) \<subseteq> co_name ` set (tb_columns t))"
proof -
  have "table_ok t \<longleftrightarrow> (\<exists>us. rtraverse (check_parent t) (tb_columns t) = Inr us) \<and>
      distinct (map co_name (tb_columns t)) \<and> distinct (map co_ordinal_position (tb_columns t)) \<and>
      (\<exists>us. rtraverse (check_fk_columns t) (tb_foreign_keys t) = Inr us)"
    by (auto simp: table_ok_def check_table_def Let_def result_simps)
  then show ?thesis unfolding rtraverse_unit_Inr
    by (simp add: check_parent_def check_fk_columns_def result_simps Let_def filter_empty_conv subset_iff Ball_def)
qed

text \<open>A table recognised as an association table lists at least two targets.\<close>

lemma junction_targets: "is_junction_table t \<Longrightarrow> 2 \<le> length (junction_target_tables t)"
  by (simp add: junction_target_tables_def is_junction_table_def Let_def split: if_splits)

end
