(* ===== verification/SqlRows.thy ===== *)
theory SqlRows
  imports Prelude "HOL-Library.Product_Lexorder"
begin

section \<open>Rows of a keyed SQL table\<close>

text \<open>
  What the stores use of SQL, over a table as the list of its rows in insertion order and a primary
  key: insertion with its uniqueness error, \<^verbatim>\<open>INSERT ... ON CONFLICT DO UPDATE\<close>, deletion by a
  predicate, point lookup and \<^verbatim>\<open>ORDER BY\<close>. A keyed table has no two rows with the same key.
\<close>

named_theorems sql_simps "lookup after an operation"
named_theorems sql_intros "operations keep a table keyed"

definition keyed :: "('r \<Rightarrow> 'k) \<Rightarrow> 'r list \<Rightarrow> bool" where
  "keyed key rows \<longleftrightarrow> distinct (map key rows)"

definition find_row :: "('r \<Rightarrow> 'k) \<Rightarrow> 'k \<Rightarrow> 'r list \<Rightarrow> 'r option" where
  "find_row key k rows = find (\<lambda>r. key r = k) rows"

definition has_key :: "('r \<Rightarrow> 'k) \<Rightarrow> 'k \<Rightarrow> 'r list \<Rightarrow> bool" where
  "has_key key k rows \<longleftrightarrow> k \<in> set (map key rows)"

definition delete_rows :: "('r \<Rightarrow> bool) \<Rightarrow> 'r list \<Rightarrow> 'r list" where
  "delete_rows P rows = filter (\<lambda>r. \<not> P r) rows"

text \<open>\<^verbatim>\<open>executemany\<close> of an insert: nothing is kept when one row clashes.\<close>

definition insert_rows :: "('r \<Rightarrow> 'k) \<Rightarrow> 'r list \<Rightarrow> 'r list \<Rightarrow> 'r list option" where
  "insert_rows key news rows = (if distinct (map key (rows @ news)) then Some (rows @ news) else None)"

definition upsert_row :: "('r \<Rightarrow> 'k) \<Rightarrow> ('r \<Rightarrow> 'r) \<Rightarrow> 'r \<Rightarrow> 'r list \<Rightarrow> 'r list" where
  "upsert_row key upd new rows =
     (if has_key key (key new) rows then map (\<lambda>r. if key r = key new then upd r else r) rows else rows @ [new])"

lemma find_row_Some [sql_simps]: "keyed key rows \<Longrightarrow> find_row key k rows = Some r \<longleftrightarrow> r \<in> set rows \<and> key r = k"
proof (induction rows)
  case (Cons x rows)
  then show ?case by (auto simp: keyed_def find_row_def image_iff)
qed (simp add: find_row_def)

lemma find_row_None [sql_simps]: "find_row key k rows = None \<longleftrightarrow> \<not> has_key key k rows"
  by (auto simp: find_row_def find_None_iff has_key_def)

lemma find_row_SomeD: "find_row key k rows = Some r \<Longrightarrow> r \<in> set rows \<and> key r = k"
  by (auto simp: find_row_def find_Some_iff)

lemma has_key_iff: "has_key key k rows \<longleftrightarrow> (\<exists>r \<in> set rows. key r = k)"
  by (auto simp: has_key_def)

lemma keyed_empty [sql_intros]: "keyed key []"
  by (simp add: keyed_def)

lemma keyed_delete [sql_intros]: "keyed key rows \<Longrightarrow> keyed key (delete_rows P rows)"
  by (simp add: keyed_def delete_rows_def distinct_map_filter)

lemma keyed_insert [sql_intros]: "insert_rows key news rows = Some rows' \<Longrightarrow> keyed key rows'"
  by (auto simp: keyed_def insert_rows_def split: if_splits)

lemma set_delete [sql_simps]: "set (delete_rows P rows) = {r \<in> set rows. \<not> P r}"
  by (auto simp: delete_rows_def)

lemma set_insert [sql_simps]: "insert_rows key news rows = Some rows' \<Longrightarrow> set rows' = set rows \<union> set news"
  by (auto simp: insert_rows_def split: if_splits)

text \<open>An update that leaves the key alone.\<close>

definition update_at :: "('r \<Rightarrow> 'k) \<Rightarrow> 'k \<Rightarrow> ('r \<Rightarrow> 'r) \<Rightarrow> 'r list \<Rightarrow> 'r list" where
  "update_at key k upd rows = map (\<lambda>r. if key r = k then upd r else r) rows"

definition keeps_key :: "('r \<Rightarrow> 'k) \<Rightarrow> ('r \<Rightarrow> 'r) \<Rightarrow> bool" where
  "keeps_key key upd \<longleftrightarrow> (\<forall>r. key (upd r) = key r)"

lemma keys_update_at: "keeps_key key upd \<Longrightarrow> map key (update_at key k upd rows) = map key rows"
  by (induction rows) (auto simp: update_at_def keeps_key_def)

lemma upsert_cases: "upsert_row key upd new rows =
    (if has_key key (key new) rows then update_at key (key new) upd rows else rows @ [new])"
  by (simp add: upsert_row_def update_at_def)

lemma keyed_upsert [sql_intros]: "keyed key rows \<Longrightarrow> keeps_key key upd \<Longrightarrow> keyed key (upsert_row key upd new rows)"
  by (auto simp: keyed_def upsert_cases keys_update_at has_key_def)

lemma set_upsert: "r \<in> set (upsert_row key upd new rows) \<Longrightarrow>
    (r \<in> set rows \<and> key r \<noteq> key new) \<or> (r = new \<and> \<not> has_key key (key new) rows) \<or> (\<exists>r0 \<in> set rows. key r0 = key new \<and> r = upd r0)"
  by (cases "has_key key (key new) rows") (auto simp: upsert_row_def has_key_iff split: if_splits)

lemma has_key_upsert [sql_simps]:
  "keeps_key key upd \<Longrightarrow> has_key key k (upsert_row key upd new rows) \<longleftrightarrow> k = key new \<or> has_key key k rows"
  by (auto simp: upsert_cases has_key_def keys_update_at simp del: set_map)

lemma find_update_at: "keeps_key key upd \<Longrightarrow>
    find_row key k (update_at key k' upd rows) = (if k = k' then map_option upd (find_row key k rows) else find_row key k rows)"
  unfolding find_row_def update_at_def keeps_key_def by (cases "k = k'"; induction rows) simp_all

lemma find_append: "find_row key k (rows @ [new]) =
    (case find_row key k rows of Some r \<Rightarrow> Some r | None \<Rightarrow> if key new = k then Some new else None)"
  unfolding find_row_def by (induction rows) simp_all

lemma find_upsert [sql_simps]:
  assumes "keeps_key key upd"
  shows "find_row key k (upsert_row key upd new rows) =
    (if k = key new then Some (case find_row key k rows of None \<Rightarrow> new | Some r \<Rightarrow> upd r) else find_row key k rows)"
proof (cases "has_key key (key new) rows")
  case True
  then have "find_row key (key new) rows \<noteq> None" by (simp add: sql_simps)
  then show ?thesis using True by (auto simp: upsert_cases find_update_at [OF assms])
next
  case False
  then have "find_row key (key new) rows = None" by (simp add: sql_simps)
  then show ?thesis using False by (auto simp: upsert_cases find_append split: option.splits)
qed

text \<open>Rows of one parent replaced at once: every other key keeps its row.\<close>

lemma find_delete [sql_simps]:
  assumes "\<And>r. key r = k \<Longrightarrow> \<not> P r"
  shows "find_row key k (delete_rows P rows) = find_row key k rows"
  unfolding find_row_def delete_rows_def using assms by (induction rows) auto

lemma delete_rows_none: "(\<And>r. r \<in> set rows \<Longrightarrow> \<not> P r) \<Longrightarrow> delete_rows P rows = rows"
  by (simp add: delete_rows_def)

lemma sort_key_sorted: "sorted (map key rows) \<Longrightarrow> sort_key key rows = rows"
  by (induction rows) (simp_all add: insort_is_Cons)

end
