(* ===== verification/GraphModel.thy ===== *)
theory GraphModel
  imports CoreModel
begin

section \<open>Nodes and edges of the graph projection (core/graph.py)\<close>

text \<open>
  The two rows the dashboard's graph is made of, the validation of an edge (its vocabulary fields are
  datatypes, so the rank is what is left to check) and the evidence band of a join.
\<close>

datatype edge_origin = Declared | Log_Mined | Inferred

definition MIN_PATH_RANK :: int where
  "MIN_PATH_RANK = 0"

definition MAX_PATH_RANK :: int where
  "MAX_PATH_RANK = 2"

record graph_node =
  gn_entity_name :: string
  gn_group :: entity_group
  gn_is_catastrophic :: bool
  gn_row_count :: "int option"

record graph_edge =
  gg_join_name :: string
  gg_source_entity :: string
  gg_target_entity :: string
  gg_edge_origin :: edge_origin
  gg_canonical_path_rank :: int
  gg_cardinality :: "cardinality option"

datatype graph_error = BadPathRank int

definition check_graph_edge :: "graph_edge \<Rightarrow> graph_error + graph_edge" where
  "check_graph_edge e =
     (if MIN_PATH_RANK \<le> gg_canonical_path_rank e \<and> gg_canonical_path_rank e \<le> MAX_PATH_RANK then Inr e
      else Inl (BadPathRank (gg_canonical_path_rank e)))"

definition edge_origin_from_inference_method :: "inference_method \<Rightarrow> edge_origin" where
  "edge_origin_from_inference_method m =
     (if m = Fk_Constraint then Declared else if m = Observed_In_Query_Log then Log_Mined else Inferred)"

end
