(* ===== verification/SemanticStore.thy ===== *)
theory SemanticStore
  imports SchemaModels SqlRows GraphModel
begin

section \<open>The semantic layer in SQLite (core/store.py)\<close>

text \<open>
  The indexed tables with their columns, foreign keys and fingerprints, and the entities, canonical
  joins, metrics and graph projection on top of them, as one record of row lists; each operation of
  the store is a function on it. The schema's constraints are part of the operations: a broken key
  or reference is \<open>IntegrityError\<close> and leaves the state as it was (the operations run in one
  transaction), and deleting a row deletes the rows that reference it (\<^verbatim>\<open>ON DELETE CASCADE\<close>).
  The join columns are kept as pairs instead of their JSON text. Descriptions, embeddings, example
  queries and the cost ledger are not part of the record.
\<close>

subsection \<open>Rows\<close>

type_synonym table_key = "string \<times> string \<times> string"

record table_row =
  ta_schema :: string
  ta_name :: string
  ta_source :: string
  ta_indexed_at :: int
  ta_row_count :: "int option"

record column_row =
  cl_source :: string
  cl_column :: "column"

record foreign_key_row =
  fr_schema :: string
  fr_table :: string
  fr_source :: string
  fr_key :: foreign_key

record fingerprint_row =
  fp_schema :: string
  fp_table :: string
  fp_column :: string
  fp_source :: string
  fp_structural :: string
  fp_semantic :: string
  fp_at :: int

record entity_row =
  er_source :: string
  er_name :: string
  er_description :: string
  er_binding_schema :: string
  er_binding_table :: string
  er_identity :: string
  er_origin :: origin
  er_inference_method :: inference_method
  er_validation_state :: validation_state
  er_bind_confidence :: "bind_confidence option"
  er_rationale :: string
  er_group :: entity_group
  er_created_at :: int
  er_updated_at :: int

record join_row =
  jr_source :: string
  jr_name :: string
  jr_description :: string
  jr_source_entity :: string
  jr_target_entity :: string
  jr_on_columns :: "(string \<times> string) list"
  jr_origin :: origin
  jr_inference_method :: inference_method
  jr_validation_state :: validation_state
  jr_cardinality :: "cardinality option"
  jr_created_at :: int
  jr_updated_at :: int

record metric_row =
  mr_source :: string
  mr_name :: string
  mr_description :: string
  mr_entity :: string
  mr_measure_agg :: agg_function
  mr_measure_column :: "string option"
  mr_measure_expression :: "string option"
  mr_time_dimension :: "string option"
  mr_time_grains :: string
  mr_origin :: origin
  mr_inference_method :: inference_method
  mr_validation_state :: validation_state
  mr_created_at :: int
  mr_updated_at :: int

record node_row =
  nr_source :: string
  nr_node :: graph_node

record edge_row =
  gr_source :: string
  gr_edge :: graph_edge

record store =
  st_tables :: "table_row list"
  st_columns :: "column_row list"
  st_foreign_keys :: "foreign_key_row list"
  st_fingerprints :: "fingerprint_row list"
  st_entities :: "entity_row list"
  st_joins :: "join_row list"
  st_metrics :: "metric_row list"
  st_nodes :: "node_row list"
  st_edges :: "edge_row list"

datatype store_error =
    IntegrityError | UnpackError string | DbtOwnedEntity string | DbtOwnedMetric string
  | RowInvalid model_error | CorruptJoinRow string | MalformedMetricRow string | TableInvalid schema_error

definition empty_store :: store where
  "empty_store = \<lparr>st_tables = [], st_columns = [], st_foreign_keys = [], st_fingerprints = [],
     st_entities = [], st_joins = [], st_metrics = [], st_nodes = [], st_edges = []\<rparr>"

subsection \<open>Primary keys and references\<close>

definition table_key :: "table_row \<Rightarrow> table_key" where
  "table_key r = (ta_schema r, ta_name r, ta_source r)"

definition column_parent :: "column_row \<Rightarrow> table_key" where
  "column_parent r = (co_schema_name (cl_column r), co_table_name (cl_column r), cl_source r)"

definition column_key :: "column_row \<Rightarrow> table_key \<times> string" where
  "column_key r = (column_parent r, co_name (cl_column r))"

definition fk_parent :: "foreign_key_row \<Rightarrow> table_key" where
  "fk_parent r = (fr_schema r, fr_table r, fr_source r)"

definition fk_key :: "foreign_key_row \<Rightarrow> table_key \<times> string" where
  "fk_key r = (fk_parent r, fk_name (fr_key r))"

definition fp_parent :: "fingerprint_row \<Rightarrow> table_key" where
  "fp_parent r = (fp_schema r, fp_table r, fp_source r)"

definition fp_key :: "fingerprint_row \<Rightarrow> table_key \<times> string" where
  "fp_key r = (fp_parent r, fp_column r)"

definition entity_key :: "entity_row \<Rightarrow> string \<times> string" where
  "entity_key r = (er_source r, er_name r)"

definition entity_parent :: "entity_row \<Rightarrow> table_key" where
  "entity_parent r = (er_binding_schema r, er_binding_table r, er_source r)"

definition join_key :: "join_row \<Rightarrow> string \<times> string" where
  "join_key r = (jr_source r, jr_name r)"

definition metric_key :: "metric_row \<Rightarrow> string \<times> string" where
  "metric_key r = (mr_source r, mr_name r)"

definition node_key :: "node_row \<Rightarrow> string \<times> string" where
  "node_key r = (nr_source r, gn_entity_name (nr_node r))"

definition edge_key :: "edge_row \<Rightarrow> string \<times> string" where
  "edge_key r = (gr_source r, gg_join_name (gr_edge r))"

definition has_table :: "store \<Rightarrow> table_key \<Rightarrow> bool" where
  "has_table db k \<longleftrightarrow> has_key table_key k (st_tables db)"

definition has_entity :: "store \<Rightarrow> string \<times> string \<Rightarrow> bool" where
  "has_entity db k \<longleftrightarrow> has_key entity_key k (st_entities db)"

definition has_join :: "store \<Rightarrow> string \<times> string \<Rightarrow> bool" where
  "has_join db k \<longleftrightarrow> has_key join_key k (st_joins db)"

lemmas key_defs = table_key_def column_parent_def column_key_def fk_parent_def fk_key_def fp_parent_def fp_key_def
  entity_key_def entity_parent_def join_key_def metric_key_def node_key_def edge_key_def

subsection \<open>Cascading deletes\<close>

text \<open>Deleting entities takes the joins and metrics on them, their nodes, and every edge that named a
  deleted join or entity.\<close>

definition cascade_entities :: "(entity_row \<Rightarrow> bool) \<Rightarrow> store \<Rightarrow> store" where
  "cascade_entities P db =
     (let gone = (\<lambda>k. \<exists>r \<in> set (st_entities db). P r \<and> entity_key r = k);
          gone_join = (\<lambda>j. gone (jr_source j, jr_source_entity j) \<or> gone (jr_source j, jr_target_entity j))
      in db\<lparr>st_entities := delete_rows P (st_entities db),
            st_joins := delete_rows gone_join (st_joins db),
            st_metrics := delete_rows (\<lambda>m. gone (mr_source m, mr_entity m)) (st_metrics db),
            st_nodes := delete_rows (\<lambda>n. gone (node_key n)) (st_nodes db),
            st_edges := delete_rows (\<lambda>e. gone (gr_source e, gg_source_entity (gr_edge e)) \<or> gone (gr_source e, gg_target_entity (gr_edge e))
              \<or> (\<exists>j \<in> set (st_joins db). gone_join j \<and> join_key j = edge_key e)) (st_edges db)\<rparr>)"

definition cascade_table :: "table_key \<Rightarrow> store \<Rightarrow> store" where
  "cascade_table k db =
     (if has_table db k
      then cascade_entities (\<lambda>r. entity_parent r = k)
             (db\<lparr>st_tables := delete_rows (\<lambda>r. table_key r = k) (st_tables db),
                 st_columns := delete_rows (\<lambda>r. column_parent r = k) (st_columns db),
                 st_foreign_keys := delete_rows (\<lambda>r. fk_parent r = k) (st_foreign_keys db),
                 st_fingerprints := delete_rows (\<lambda>r. fp_parent r = k) (st_fingerprints db)\<rparr>)
      else db)"

subsection \<open>Tables\<close>

definition column_rows :: "string \<Rightarrow> db_table \<Rightarrow> column_row list" where
  "column_rows src t = map (\<lambda>c. \<lparr>cl_source = src, cl_column = c\<rparr>) (tb_columns t)"

definition foreign_key_rows :: "string \<Rightarrow> db_table \<Rightarrow> foreign_key_row list" where
  "foreign_key_rows src t =
     map (\<lambda>k. \<lparr>fr_schema = tb_schema_name t, fr_table = tb_name t, fr_source = src, fr_key = k\<rparr>) (tb_foreign_keys t)"

definition write_table :: "string \<Rightarrow> int \<Rightarrow> db_table \<Rightarrow> int option \<Rightarrow> store \<Rightarrow> store_error + store" where
  "write_table src now t row_count db =
     (let k = (tb_schema_name t, tb_name t, src);
          db1 = cascade_table k db;
          tables = st_tables db1 @ [\<lparr>ta_schema = tb_schema_name t, ta_name = tb_name t, ta_source = src,
                                     ta_indexed_at = now, ta_row_count = row_count\<rparr>]
      in case insert_rows column_key (column_rows src t) (st_columns db1) of
           None \<Rightarrow> Inl IntegrityError
         | Some cols \<Rightarrow>
             if \<not> list_all (\<lambda>r. has_key table_key (column_parent r) tables) (column_rows src t) then Inl IntegrityError
             else (case insert_rows fk_key (foreign_key_rows src t) (st_foreign_keys db1) of
                     None \<Rightarrow> Inl IntegrityError
                   | Some fks \<Rightarrow> Inr (db1\<lparr>st_tables := tables, st_columns := cols, st_foreign_keys := fks\<rparr>)))"

definition get_table :: "store \<Rightarrow> string \<Rightarrow> string \<Rightarrow> string \<Rightarrow> store_error + db_table option" where
  "get_table db src schema name =
     (let k = (schema, name, src) in
      if \<not> has_table db k then Inr None
      else (let cols = sort_key co_ordinal_position (map cl_column (filter (\<lambda>r. column_parent r = k) (st_columns db)));
                fks = sort_key fk_name (map fr_key (filter (\<lambda>r. fk_parent r = k) (st_foreign_keys db)));
                t = \<lparr>tb_name = name, tb_schema_name = schema,
                     tb_columns = map (\<lambda>c. c\<lparr>co_table_name := name, co_schema_name := schema\<rparr>) cols, tb_foreign_keys = fks\<rparr>
            in case check_table t of Inl e \<Rightarrow> Inl (TableInvalid e) | Inr u \<Rightarrow> Inr (Some u)))"

definition delete_table :: "string \<Rightarrow> string \<Rightarrow> string \<Rightarrow> store \<Rightarrow> store" where
  "delete_table src schema name db = cascade_table (schema, name, src) db"

definition list_tables :: "store \<Rightarrow> string option \<Rightarrow> (string \<times> string) list" where
  "list_tables db src =
     sort (map (\<lambda>r. (ta_schema r, ta_name r)) (filter (\<lambda>r. src = None \<or> src = Some (ta_source r)) (st_tables db)))"

definition estimated_row_counts :: "store \<Rightarrow> string \<Rightarrow> (string \<rightharpoonup> int option)" where
  "estimated_row_counts db src =
     map_of (rev (map (\<lambda>r. (ta_schema r @ ''.'' @ ta_name r, ta_row_count r)) (filter (\<lambda>r. ta_source r = src) (st_tables db))))"

definition get_table_fingerprints :: "store \<Rightarrow> string \<Rightarrow> string \<Rightarrow> string \<Rightarrow> (string \<times> string \<times> string) list" where
  "get_table_fingerprints db src schema name =
     map (\<lambda>r. (fp_column r, fp_structural r, fp_semantic r)) (filter (\<lambda>r. fp_parent r = (schema, name, src)) (st_fingerprints db))"

definition write_table_fingerprints ::
  "string \<Rightarrow> int \<Rightarrow> string \<Rightarrow> string \<Rightarrow> (string \<times> string \<times> string) list \<Rightarrow> store \<Rightarrow> store_error + store" where
  "write_table_fingerprints src now schema name fps db =
     (let k = (schema, name, src);
          kept = delete_rows (\<lambda>r. fp_parent r = k) (st_fingerprints db);
          news = map (\<lambda>(c, s, m). \<lparr>fp_schema = schema, fp_table = name, fp_column = c, fp_source = src,
                                     fp_structural = s, fp_semantic = m, fp_at = now\<rparr>) fps
      in case insert_rows fp_key news kept of
           None \<Rightarrow> Inl IntegrityError
         | Some rows \<Rightarrow> if news \<noteq> [] \<and> \<not> has_table db k then Inl IntegrityError else Inr (db\<lparr>st_fingerprints := rows\<rparr>))"

subsection \<open>Entities\<close>

definition row_to_entity :: "entity_row \<Rightarrow> store_error + entity" where
  "row_to_entity r =
     (case make_binding (er_binding_schema r @ ''.'' @ er_binding_table r) of
        Inl e \<Rightarrow> Inl (RowInvalid e)
      | Inr b \<Rightarrow>
          (case check_entity \<lparr>en_name = er_name r, en_description = er_description r, en_binding = b,
                 en_identity = er_identity r, en_origin = er_origin r, en_inference_method = er_inference_method r,
                 en_validation_state = er_validation_state r, en_group = er_group r,
                 en_bind_confidence = er_bind_confidence r, en_rationale = er_rationale r\<rparr> of
             Inl e \<Rightarrow> Inl (RowInvalid e)
           | Inr e \<Rightarrow> Inr e))"

definition entity_to_row :: "string \<Rightarrow> int \<Rightarrow> entity \<Rightarrow> string \<Rightarrow> string \<Rightarrow> entity_row" where
  "entity_to_row src now e schema tbl =
     \<lparr>er_source = src, er_name = en_name e, er_description = en_description e, er_binding_schema = schema,
      er_binding_table = tbl, er_identity = en_identity e, er_origin = en_origin e,
      er_inference_method = en_inference_method e, er_validation_state = en_validation_state e,
      er_bind_confidence = en_bind_confidence e, er_rationale = en_rationale e, er_group = en_group e,
      er_created_at = now, er_updated_at = now\<rparr>"

text \<open>The \<^verbatim>\<open>DO UPDATE SET\<close> list: everything but the key and \<^verbatim>\<open>created_at\<close>.\<close>

definition update_entity_row :: "entity_row \<Rightarrow> entity_row \<Rightarrow> entity_row" where
  "update_entity_row new r = new\<lparr>er_source := er_source r, er_name := er_name r, er_created_at := er_created_at r\<rparr>"

definition write_entity :: "string \<Rightarrow> int \<Rightarrow> entity \<Rightarrow> store \<Rightarrow> store_error + store" where
  "write_entity src now e db =
     (case split1 CHR ''.'' (en_qualified_table e) of
        (schema, None) \<Rightarrow> Inl (UnpackError (en_qualified_table e))
      | (schema, Some tbl) \<Rightarrow>
          (let existing = find_row entity_key (src, en_name e) (st_entities db);
               new = entity_to_row src now e schema tbl
           in if (case existing of Some r \<Rightarrow> er_origin r = Dbt_Import \<and> en_origin e \<noteq> Dbt_Import | None \<Rightarrow> False)
              then Inl (DbtOwnedEntity (en_name e))
              else if \<not> has_table db (schema, tbl, src) then Inl IntegrityError
              else Inr (db\<lparr>st_entities := upsert_row entity_key (update_entity_row new) new (st_entities db)\<rparr>)))"

definition get_entity :: "store \<Rightarrow> string \<Rightarrow> string \<Rightarrow> store_error + entity option" where
  "get_entity db src name =
     (case find_row entity_key (src, name) (st_entities db) of
        None \<Rightarrow> Inr None
      | Some r \<Rightarrow> rbind (row_to_entity r) (\<lambda>e. Inr (Some e)))"

definition list_entities :: "store \<Rightarrow> string option \<Rightarrow> store_error + entity list" where
  "list_entities db src =
     rtraverse row_to_entity (sort_key (\<lambda>r. (er_name r, er_source r)) (filter (\<lambda>r. src = None \<or> src = Some (er_source r)) (st_entities db)))"

subsection \<open>Canonical joins\<close>

definition pair_of_columns :: "join_column_pair \<Rightarrow> string \<times> string" where
  "pair_of_columns p = (jp_source_column p, jp_target_column p)"

definition row_to_canonical_join :: "join_row \<Rightarrow> store_error + canonical_join" where
  "row_to_canonical_join r =
     (case rtraverse (\<lambda>(s, t). make_join_column_pair s t) (jr_on_columns r) of
        Inl e \<Rightarrow> Inl (CorruptJoinRow (jr_name r))
      | Inr on \<Rightarrow>
          (case check_canonical_join \<lparr>cj_name = jr_name r, cj_description = jr_description r,
                 cj_source_entity = jr_source_entity r, cj_target_entity = jr_target_entity r, cj_on = on,
                 cj_origin = jr_origin r, cj_cardinality = jr_cardinality r,
                 cj_inference_method = jr_inference_method r, cj_validation_state = jr_validation_state r\<rparr> of
             Inl e \<Rightarrow> Inl (RowInvalid e)
           | Inr j \<Rightarrow> Inr j))"

definition join_to_row :: "string \<Rightarrow> int \<Rightarrow> canonical_join \<Rightarrow> join_row" where
  "join_to_row src now j =
     \<lparr>jr_source = src, jr_name = cj_name j, jr_description = cj_description j,
      jr_source_entity = cj_source_entity j, jr_target_entity = cj_target_entity j,
      jr_on_columns = map pair_of_columns (cj_on j), jr_origin = cj_origin j,
      jr_inference_method = cj_inference_method j, jr_validation_state = cj_validation_state j,
      jr_cardinality = cj_cardinality j, jr_created_at = now, jr_updated_at = now\<rparr>"

definition update_join_row :: "join_row \<Rightarrow> join_row \<Rightarrow> join_row" where
  "update_join_row new r = new\<lparr>jr_source := jr_source r, jr_name := jr_name r, jr_created_at := jr_created_at r\<rparr>"

definition write_canonical_join :: "string \<Rightarrow> int \<Rightarrow> canonical_join \<Rightarrow> store \<Rightarrow> store_error + store" where
  "write_canonical_join src now j db =
     (if \<not> has_entity db (src, cj_source_entity j) \<or> \<not> has_entity db (src, cj_target_entity j) then Inl IntegrityError
      else Inr (db\<lparr>st_joins := upsert_row join_key (update_join_row (join_to_row src now j)) (join_to_row src now j) (st_joins db)\<rparr>))"

definition get_canonical_join :: "store \<Rightarrow> string \<Rightarrow> string \<Rightarrow> store_error + canonical_join option" where
  "get_canonical_join db src name =
     (case find_row join_key (src, name) (st_joins db) of
        None \<Rightarrow> Inr None
      | Some r \<Rightarrow> rbind (row_to_canonical_join r) (\<lambda>j. Inr (Some j)))"

definition list_canonical_joins :: "store \<Rightarrow> string option \<Rightarrow> store_error + canonical_join list" where
  "list_canonical_joins db src =
     rtraverse row_to_canonical_join (sort_key (\<lambda>r. (jr_name r, jr_source r)) (filter (\<lambda>r. src = None \<or> src = Some (jr_source r)) (st_joins db)))"

definition joins_from_to :: "store \<Rightarrow> string \<Rightarrow> string \<Rightarrow> string \<Rightarrow> join_row list" where
  "joins_from_to db src a b = filter (\<lambda>r. jr_source r = src \<and> jr_source_entity r = a \<and> jr_target_entity r = b) (st_joins db)"

definition resolve_canonical_joins :: "store \<Rightarrow> string \<Rightarrow> string \<Rightarrow> string \<Rightarrow> store_error + canonical_join list" where
  "resolve_canonical_joins db src a b =
     rtraverse row_to_canonical_join (sort_key jr_name (joins_from_to db src a b @ joins_from_to db src b a))"

subsection \<open>Metrics\<close>

definition grain_of_name :: "string \<Rightarrow> time_grain option" where
  "grain_of_name s = find (\<lambda>g. grain_name g = s) TIME_GRAIN_ORDER"

definition encode_grains :: "time_grain list \<Rightarrow> string" where
  "encode_grains gs = (if gs = [] then [] else join_str '','' (map grain_name gs))"

definition decode_grains :: "string \<Rightarrow> time_grain list option" where
  "decode_grains stored = (if stored = [] then Some [] else those (map grain_of_name (split_on CHR '','' stored)))"

definition row_to_metric :: "(string \<Rightarrow> string + py_expr) \<Rightarrow> metric_row \<Rightarrow> store_error + metric" where
  "row_to_metric ast_parse r =
     (case check_measure ast_parse \<lparr>mm_agg = mr_measure_agg r, mm_column = mr_measure_column r,
             mm_expression = mr_measure_expression r\<rparr> of
        Inl e \<Rightarrow> Inl (MalformedMetricRow (mr_name r))
      | Inr mm \<Rightarrow>
          (case decode_grains (mr_time_grains r) of
             None \<Rightarrow> Inl (MalformedMetricRow (mr_name r))
           | Some grains \<Rightarrow>
               (case check_metric \<lparr>mt_name = mr_name r, mt_description = mr_description r, mt_entity = mr_entity r,
                      mt_measure = mm, mt_time_dimension = mr_time_dimension r, mt_time_grains = grains,
                      mt_origin = mr_origin r, mt_inference_method = mr_inference_method r,
                      mt_validation_state = mr_validation_state r\<rparr> of
                  Inl e \<Rightarrow> Inl (MalformedMetricRow (mr_name r))
                | Inr m \<Rightarrow> Inr m)))"

definition metric_to_row :: "string \<Rightarrow> int \<Rightarrow> metric \<Rightarrow> metric_row" where
  "metric_to_row src now m =
     \<lparr>mr_source = src, mr_name = mt_name m, mr_description = mt_description m, mr_entity = mt_entity m,
      mr_measure_agg = mm_agg (mt_measure m), mr_measure_column = mm_column (mt_measure m),
      mr_measure_expression = mm_expression (mt_measure m), mr_time_dimension = mt_time_dimension m,
      mr_time_grains = encode_grains (mt_time_grains m), mr_origin = mt_origin m,
      mr_inference_method = mt_inference_method m, mr_validation_state = mt_validation_state m,
      mr_created_at = now, mr_updated_at = now\<rparr>"

text \<open>The anchor entity is not in the update list: an existing row keeps its own.\<close>

definition update_metric_row :: "metric_row \<Rightarrow> metric_row \<Rightarrow> metric_row" where
  "update_metric_row new r =
     new\<lparr>mr_source := mr_source r, mr_name := mr_name r, mr_entity := mr_entity r, mr_created_at := mr_created_at r\<rparr>"

definition write_metric :: "string \<Rightarrow> int \<Rightarrow> metric \<Rightarrow> store \<Rightarrow> store_error + store" where
  "write_metric src now m db =
     (let existing = find_row metric_key (src, mt_name m) (st_metrics db); new = metric_to_row src now m in
      if (case existing of Some r \<Rightarrow> mr_origin r = Dbt_Import \<and> mt_origin m \<noteq> Dbt_Import | None \<Rightarrow> False)
      then Inl (DbtOwnedMetric (mt_name m))
      else if (mr_measure_column new = None) = (mr_measure_expression new = None) then Inl IntegrityError
      else if existing = None \<and> \<not> has_entity db (src, mt_entity m) then Inl IntegrityError
      else Inr (db\<lparr>st_metrics := upsert_row metric_key (update_metric_row new) new (st_metrics db)\<rparr>))"

definition get_metric :: "(string \<Rightarrow> string + py_expr) \<Rightarrow> store \<Rightarrow> string \<Rightarrow> string \<Rightarrow> store_error + metric option" where
  "get_metric ast_parse db src name =
     (case find_row metric_key (src, name) (st_metrics db) of
        None \<Rightarrow> Inr None
      | Some r \<Rightarrow> rbind (row_to_metric ast_parse r) (\<lambda>m. Inr (Some m)))"

definition list_metrics :: "(string \<Rightarrow> string + py_expr) \<Rightarrow> store \<Rightarrow> string option \<Rightarrow> store_error + metric list" where
  "list_metrics ast_parse db src =
     rtraverse (row_to_metric ast_parse)
       (sort_key (\<lambda>r. (mr_name r, mr_source r)) (filter (\<lambda>r. src = None \<or> src = Some (mr_source r)) (st_metrics db)))"

definition delete_metric :: "string \<Rightarrow> string \<Rightarrow> store \<Rightarrow> store_error + (store \<times> bool)" where
  "delete_metric src name db =
     (case find_row metric_key (src, name) (st_metrics db) of
        None \<Rightarrow> Inr (db, False)
      | Some r \<Rightarrow>
          if mr_origin r = Dbt_Import then Inl (DbtOwnedMetric name)
          else Inr (db\<lparr>st_metrics := delete_rows (\<lambda>r. metric_key r = (src, name)) (st_metrics db)\<rparr>, True))"

subsection \<open>The graph projection\<close>

definition write_graph_projection :: "string \<Rightarrow> graph_node list \<Rightarrow> graph_edge list \<Rightarrow> store \<Rightarrow> store_error + store" where
  "write_graph_projection src nodes edges db =
     (let kept_edges = delete_rows (\<lambda>r. gr_source r = src) (st_edges db);
          kept_nodes = delete_rows (\<lambda>r. nr_source r = src) (st_nodes db);
          node_rows = map (\<lambda>n. \<lparr>nr_source = src, nr_node = n\<rparr>) nodes;
          edge_rows = map (\<lambda>e. \<lparr>gr_source = src, gr_edge = e\<rparr>) edges
      in case insert_rows node_key node_rows kept_nodes of
           None \<Rightarrow> Inl IntegrityError
         | Some ns \<Rightarrow>
             if \<not> list_all (\<lambda>n. has_entity db (node_key n)) node_rows then Inl IntegrityError
             else (case insert_rows edge_key edge_rows kept_edges of
                     None \<Rightarrow> Inl IntegrityError
                   | Some es \<Rightarrow>
                       if \<not> list_all (\<lambda>e. has_join db (edge_key e) \<and> has_entity db (src, gg_source_entity (gr_edge e))
                            \<and> has_entity db (src, gg_target_entity (gr_edge e))
                            \<and> MIN_PATH_RANK \<le> gg_canonical_path_rank (gr_edge e) \<and> gg_canonical_path_rank (gr_edge e) \<le> MAX_PATH_RANK) edge_rows
                       then Inl IntegrityError
                       else Inr (db\<lparr>st_nodes := ns, st_edges := es\<rparr>)))"

definition list_graph_nodes :: "store \<Rightarrow> string \<Rightarrow> graph_node list" where
  "list_graph_nodes db src = sort_key gn_entity_name (map nr_node (filter (\<lambda>r. nr_source r = src) (st_nodes db)))"

definition list_graph_edges :: "store \<Rightarrow> string \<Rightarrow> graph_error + graph_edge list" where
  "list_graph_edges db src =
     rtraverse check_graph_edge (sort_key gg_join_name (map gr_edge (filter (\<lambda>r. gr_source r = src) (st_edges db))))"

subsection \<open>The integrity invariant\<close>

text \<open>Every primary key is unique and every reference has its target.\<close>

definition keys_ok :: "store \<Rightarrow> bool" where
  "keys_ok db \<longleftrightarrow> keyed table_key (st_tables db) \<and> keyed column_key (st_columns db) \<and> keyed fk_key (st_foreign_keys db)
     \<and> keyed fp_key (st_fingerprints db) \<and> keyed entity_key (st_entities db) \<and> keyed join_key (st_joins db)
     \<and> keyed metric_key (st_metrics db) \<and> keyed node_key (st_nodes db) \<and> keyed edge_key (st_edges db)"

definition refs_ok :: "store \<Rightarrow> bool" where
  "refs_ok db \<longleftrightarrow>
     (\<forall>r \<in> set (st_columns db). has_table db (column_parent r)) \<and>
     (\<forall>r \<in> set (st_foreign_keys db). has_table db (fk_parent r)) \<and>
     (\<forall>r \<in> set (st_fingerprints db). has_table db (fp_parent r)) \<and>
     (\<forall>r \<in> set (st_entities db). has_table db (entity_parent r)) \<and>
     (\<forall>r \<in> set (st_joins db). has_entity db (jr_source r, jr_source_entity r) \<and> has_entity db (jr_source r, jr_target_entity r)) \<and>
     (\<forall>r \<in> set (st_metrics db). has_entity db (mr_source r, mr_entity r)) \<and>
     (\<forall>r \<in> set (st_nodes db). has_entity db (node_key r)) \<and>
     (\<forall>r \<in> set (st_edges db). has_join db (edge_key r) \<and> has_entity db (gr_source r, gg_source_entity (gr_edge r))
        \<and> has_entity db (gr_source r, gg_target_entity (gr_edge r)))"

text \<open>Every row reads back: what the constructors of the dataclasses check holds of it.\<close>

definition table_rows_ok :: "store \<Rightarrow> bool" where
  "table_rows_ok db \<longleftrightarrow> (\<forall>k. has_table db k \<longrightarrow> (\<exists>t. get_table db (snd (snd k)) (fst k) (fst (snd k)) = Inr (Some t)))"

definition rows_ok :: "(string \<Rightarrow> string + py_expr) \<Rightarrow> store \<Rightarrow> bool" where
  "rows_ok ast_parse db \<longleftrightarrow> table_rows_ok db \<and>
     (\<forall>r \<in> set (st_entities db). \<exists>e. row_to_entity r = Inr e) \<and>
     (\<forall>r \<in> set (st_joins db). \<exists>j. row_to_canonical_join r = Inr j) \<and>
     (\<forall>r \<in> set (st_metrics db). \<exists>m. row_to_metric ast_parse r = Inr m) \<and>
     (\<forall>r \<in> set (st_edges db). \<exists>e. check_graph_edge (gr_edge r) = Inr e)"

definition store_ok :: "(string \<Rightarrow> string + py_expr) \<Rightarrow> store \<Rightarrow> bool" where
  "store_ok ast_parse db \<longleftrightarrow> keys_ok db \<and> refs_ok db \<and> rows_ok ast_parse db"

subsection \<open>Reading back what was written\<close>

lemma split1_qualified:
  assumes "match_qualified q \<noteq> None" "split1 CHR ''.'' q = (s, t)"
  obtains n where "t = Some n" "q = s @ ''.'' @ n" "is_ident s" "is_ident n"
proof -
  obtain a b where ab: "match_qualified q = Some (a, b)" using assms(1) by auto
  then have "is_ident a" "is_ident b" "q = a @ ''.'' @ b" by (simp_all add: match_qualified_iff)
  then show ?thesis using assms(2) split1_append [OF is_ident_no_dot, of a b] that by auto
qed

lemma row_to_entity_new:
  assumes "entity_ok e" "split1 CHR ''.'' (en_qualified_table e) = (s, Some t)"
  shows "row_to_entity (entity_to_row src now e s t) = Inr e"
proof -
  have m: "match_qualified (en_qualified_table e) \<noteq> None" using assms(1) by (simp add: entity_ok_def)
  then have "en_qualified_table e = s @ ''.'' @ t" using split1_qualified [OF m assms(2)] by (metis option.inject)
  then show ?thesis using assms(1)
    by (simp add: row_to_entity_def entity_to_row_def make_binding_def check_entity_def entity_ok_def en_qualified_table_def)
qed

lemma row_to_entity_update: "er_name r = er_name new \<Longrightarrow> row_to_entity (update_entity_row new r) = row_to_entity new"
  by (simp add: row_to_entity_def update_entity_row_def cong: sum.case_cong)

lemma row_to_join_new: "join_ok j \<Longrightarrow> row_to_canonical_join (join_to_row src now j) = Inr j"
proof -
  assume j: "join_ok j"
  have "rtraverse (\<lambda>(s, t). make_join_column_pair s t) (map pair_of_columns ps) = Inr ps" if "list_all pair_ok ps" for ps
    using that by (induction ps) (auto simp: pair_of_columns_def make_join_column_pair_def pair_ok_def)
  then show ?thesis using j
    by (simp add: row_to_canonical_join_def join_to_row_def check_canonical_join_def join_ok_def)
qed

lemma row_to_join_update: "jr_name r = jr_name new \<Longrightarrow> row_to_canonical_join (update_join_row new r) = row_to_canonical_join new"
  by (simp add: row_to_canonical_join_def update_join_row_def cong: sum.case_cong)

lemma grain_of_name_name: "grain_of_name (grain_name g) = Some g"
  by (cases g) (simp_all add: grain_of_name_def TIME_GRAIN_ORDER_def)

lemma grain_name_plain: "CHR '','' \<notin> set (grain_name g)" "grain_name g \<noteq> []"
  by (cases g; simp)+

lemma decode_encode_grains: "decode_grains (encode_grains gs) = Some gs"
proof (cases "gs = []")
  case False
  then have "join_str '','' (map grain_name gs) \<noteq> []"
    using join_str_empty [of "'',''" "map grain_name gs"] grain_name_plain(2) by (metis imageE list.set_map map_is_Nil_conv)
  moreover have "split_on CHR '','' (join_str '','' (map grain_name gs)) = map grain_name gs"
    using False grain_name_plain(1) by (intro split_on_join) auto
  moreover have "those (map (grain_of_name \<circ> grain_name) gs) = Some gs"
    by (induction gs) (simp_all add: grain_of_name_name)
  ultimately show ?thesis using False by (simp add: decode_grains_def encode_grains_def)
qed (simp add: decode_grains_def encode_grains_def)

lemma row_to_metric_fields:
  assumes "check_measure ast_parse mm = Inr mm" "mm_agg mm = mr_measure_agg r" "mm_column mm = mr_measure_column r"
    "mm_expression mm = mr_measure_expression r" "decode_grains (mr_time_grains r) = Some gs"
    "m = \<lparr>mt_name = mr_name r, mt_description = mr_description r, mt_entity = mr_entity r, mt_measure = mm,
      mt_time_dimension = mr_time_dimension r, mt_time_grains = gs, mt_origin = mr_origin r,
      mt_inference_method = mr_inference_method r, mt_validation_state = mr_validation_state r\<rparr>"
    "check_metric m = Inr m"
  shows "row_to_metric ast_parse r = Inr m"
proof -
  have "\<lparr>mm_agg = mr_measure_agg r, mm_column = mr_measure_column r, mm_expression = mr_measure_expression r\<rparr> = mm"
    using assms(2-4) by (cases mm) simp
  then show ?thesis using assms(1,5-7) by (simp add: row_to_metric_def)
qed

lemma row_to_metric_new: "metric_ok ast_parse m \<Longrightarrow> row_to_metric ast_parse (metric_to_row src now m) = Inr m"
  by (rule row_to_metric_fields [of ast_parse "mt_measure m" _ "mt_time_grains m"])
    (simp_all add: metric_to_row_def metric_ok_def measure_ok_def decode_encode_grains)

lemma check_metric_anchor:
  "check_metric m = Inr m \<Longrightarrow> is_ident x \<Longrightarrow> check_metric (m\<lparr>mt_entity := x\<rparr>) = Inr (m\<lparr>mt_entity := x\<rparr>)"
  by (auto simp: check_metric_def split: if_splits option.splits)

lemma row_to_metric_entity: "row_to_metric ast_parse r = Inr m \<Longrightarrow> is_ident (mr_entity r)"
  by (auto simp: row_to_metric_def check_metric_def split: sum.splits option.splits if_splits)

lemma row_to_metric_update:
  assumes "metric_ok ast_parse m" "mr_name r = mt_name m" "is_ident (mr_entity r)"
  shows "row_to_metric ast_parse (update_metric_row (metric_to_row src now m) r) = Inr (m\<lparr>mt_entity := mr_entity r\<rparr>)"
proof -
  have "check_metric (m\<lparr>mt_entity := mr_entity r\<rparr>) = Inr (m\<lparr>mt_entity := mr_entity r\<rparr>)"
    using assms by (intro check_metric_anchor) (simp_all add: metric_ok_def)
  then show ?thesis using assms
    by (intro row_to_metric_fields [of ast_parse "mt_measure m" _ "mt_time_grains m"])
      (simp_all add: metric_to_row_def update_metric_row_def metric_ok_def measure_ok_def decode_encode_grains)
qed

lemma keeps_keys:
  "er_source new = fst k \<Longrightarrow> keeps_key entity_key (update_entity_row new)"
  "keeps_key entity_key (update_entity_row new)"
  "keeps_key join_key (update_join_row jnew)"
  "keeps_key metric_key (update_metric_row mnew)"
  by (simp_all add: keeps_key_def key_defs update_entity_row_def update_join_row_def update_metric_row_def)

end
