(* ===== verification/StoreInvariant.thy ===== *)
theory StoreInvariant
  imports SemanticStore
begin

section \<open>Integrity of the semantic store\<close>

text \<open>
  Each operation of the store as a step from state to state, the states reachable from an empty file,
  and the invariant they share: unique keys, no dangling reference, every row readable. What the
  compiler may rely on, what survives an import guard and what a re-index takes away follow from it.
\<close>

subsection \<open>Operations as steps\<close>

datatype store_op =
    Write_Table string int db_table "int option"
  | Delete_Table string string string
  | Write_Fingerprints string int string string "(string \<times> string \<times> string) list"
  | Write_Entity string int entity
  | Write_Join string int canonical_join
  | Write_Metric string int metric
  | Delete_Metric string string
  | Write_Projection string "graph_node list" "graph_edge list"

fun apply_op :: "store_op \<Rightarrow> store \<Rightarrow> store_error + store" where
  "apply_op (Write_Table src now t n) db = write_table src now t n db"
| "apply_op (Delete_Table src s n) db = Inr (delete_table src s n db)"
| "apply_op (Write_Fingerprints src now s n fps) db = write_table_fingerprints src now s n fps db"
| "apply_op (Write_Entity src now e) db = write_entity src now e db"
| "apply_op (Write_Join src now j) db = write_canonical_join src now j db"
| "apply_op (Write_Metric src now m) db = write_metric src now m db"
| "apply_op (Delete_Metric src n) db = rbind (delete_metric src n db) (\<lambda>(db', removed). Inr db')"
| "apply_op (Write_Projection src ns es) db = write_graph_projection src ns es db"

text \<open>The arguments are values their constructors accepted.\<close>

fun op_valid :: "(string \<Rightarrow> string + py_expr) \<Rightarrow> store_op \<Rightarrow> bool" where
  "op_valid ast_parse (Write_Table src now t n) = table_ok t"
| "op_valid ast_parse (Write_Entity src now e) = entity_ok e"
| "op_valid ast_parse (Write_Join src now j) = join_ok j"
| "op_valid ast_parse (Write_Metric src now m) = metric_ok ast_parse m"
| "op_valid ast_parse _ = True"

inductive store_reach :: "(string \<Rightarrow> string + py_expr) \<Rightarrow> store \<Rightarrow> bool" for ast_parse where
  fresh: "store_reach ast_parse empty_store"
| step: "store_reach ast_parse db \<Longrightarrow> op_valid ast_parse op \<Longrightarrow> apply_op op db = Inr db' \<Longrightarrow> store_reach ast_parse db'"

subsection \<open>Deletes keep integrity\<close>

lemma has_entity_cascade [sql_simps]:
  "has_entity (cascade_entities P db) k \<longleftrightarrow> (\<exists>r \<in> set (st_entities db). entity_key r = k \<and> \<not> P r)"
  by (auto simp: has_entity_def has_key_iff cascade_entities_def Let_def sql_simps)

lemma cascade_entities_tables [sql_simps]:
  "st_tables (cascade_entities P db) = st_tables db" "st_columns (cascade_entities P db) = st_columns db"
  "st_foreign_keys (cascade_entities P db) = st_foreign_keys db" "st_fingerprints (cascade_entities P db) = st_fingerprints db"
  by (simp_all add: cascade_entities_def Let_def)

lemma cascade_table_rows [sql_simps]:
  assumes "has_table db k"
  shows "st_tables (cascade_table k db) = delete_rows (\<lambda>r. table_key r = k) (st_tables db)"
    "st_columns (cascade_table k db) = delete_rows (\<lambda>r. column_parent r = k) (st_columns db)"
    "st_foreign_keys (cascade_table k db) = delete_rows (\<lambda>r. fk_parent r = k) (st_foreign_keys db)"
    "st_fingerprints (cascade_table k db) = delete_rows (\<lambda>r. fp_parent r = k) (st_fingerprints db)"
  using assms by (simp_all add: cascade_table_def sql_simps)

lemma keys_ok_cascade_entities: "keys_ok db \<Longrightarrow> keys_ok (cascade_entities P db)"
  by (simp add: keys_ok_def cascade_entities_def Let_def sql_intros)

lemma keys_ok_cascade_table: "keys_ok db \<Longrightarrow> keys_ok (cascade_table k db)"
  unfolding cascade_table_def
  by (simp add: keys_ok_cascade_entities) (intro impI keys_ok_cascade_entities, simp add: keys_ok_def sql_intros)

lemma has_table_cascade [sql_simps]: "has_table (cascade_table k db) k' \<longleftrightarrow> has_table db k' \<and> k' \<noteq> k"
proof (cases "has_table db k")
  case True
  then show ?thesis by (auto simp: has_table_def has_key_iff sql_simps)
next
  case False
  then show ?thesis by (auto simp: cascade_table_def)
qed

lemma cascade_entities_joins:
  assumes "r \<in> set (st_joins (cascade_entities P db))" "has_entity db (jr_source r, x)"
    "x = jr_source_entity r \<or> x = jr_target_entity r"
  shows "has_entity (cascade_entities P db) (jr_source r, x)"
  using assms by (auto simp: cascade_entities_def Let_def sql_simps has_entity_def has_key_iff)

lemma cascade_entities_edges:
  assumes "r \<in> set (st_edges (cascade_entities P db))" "has_join db (edge_key r)"
  shows "has_join (cascade_entities P db) (edge_key r)"
  using assms by (fastforce simp: cascade_entities_def Let_def sql_simps has_join_def has_key_iff)

lemma cascade_entities_sub:
  "set (st_joins (cascade_entities P db)) \<subseteq> set (st_joins db)" "set (st_metrics (cascade_entities P db)) \<subseteq> set (st_metrics db)"
  "set (st_nodes (cascade_entities P db)) \<subseteq> set (st_nodes db)" "set (st_edges (cascade_entities P db)) \<subseteq> set (st_edges db)"
  "set (st_entities (cascade_entities P db)) = {r \<in> set (st_entities db). \<not> P r}"
  by (auto simp: cascade_entities_def Let_def sql_simps)

lemma cascade_entities_rest:
  "r \<in> set (st_metrics (cascade_entities P db)) \<Longrightarrow> has_entity db (mr_source r, mr_entity r) \<Longrightarrow>
     has_entity (cascade_entities P db) (mr_source r, mr_entity r)"
  "n \<in> set (st_nodes (cascade_entities P db)) \<Longrightarrow> has_entity db (node_key n) \<Longrightarrow>
     has_entity (cascade_entities P db) (node_key n)"
  "e \<in> set (st_edges (cascade_entities P db)) \<Longrightarrow> has_entity db (gr_source e, gg_source_entity (gr_edge e)) \<Longrightarrow>
     has_entity (cascade_entities P db) (gr_source e, gg_source_entity (gr_edge e))"
  "e \<in> set (st_edges (cascade_entities P db)) \<Longrightarrow> has_entity db (gr_source e, gg_target_entity (gr_edge e)) \<Longrightarrow>
     has_entity (cascade_entities P db) (gr_source e, gg_target_entity (gr_edge e))"
  by (fastforce simp: cascade_entities_def Let_def sql_simps has_entity_def has_key_iff)+

definition semantic_refs_ok :: "store \<Rightarrow> bool" where
  "semantic_refs_ok db \<longleftrightarrow>
     (\<forall>r \<in> set (st_joins db). has_entity db (jr_source r, jr_source_entity r) \<and> has_entity db (jr_source r, jr_target_entity r)) \<and>
     (\<forall>r \<in> set (st_metrics db). has_entity db (mr_source r, mr_entity r)) \<and>
     (\<forall>r \<in> set (st_nodes db). has_entity db (node_key r)) \<and>
     (\<forall>r \<in> set (st_edges db). has_join db (edge_key r) \<and> has_entity db (gr_source r, gg_source_entity (gr_edge r))
        \<and> has_entity db (gr_source r, gg_target_entity (gr_edge r)))"

definition table_refs_ok :: "store \<Rightarrow> bool" where
  "table_refs_ok db \<longleftrightarrow>
     (\<forall>r \<in> set (st_columns db). has_table db (column_parent r)) \<and>
     (\<forall>r \<in> set (st_foreign_keys db). has_table db (fk_parent r)) \<and>
     (\<forall>r \<in> set (st_fingerprints db). has_table db (fp_parent r)) \<and>
     (\<forall>r \<in> set (st_entities db). has_table db (entity_parent r))"

lemma refs_ok_parts: "refs_ok db \<longleftrightarrow> table_refs_ok db \<and> semantic_refs_ok db"
  by (auto simp: refs_ok_def table_refs_ok_def semantic_refs_ok_def)

lemma semantic_refs_cascade: "semantic_refs_ok db \<Longrightarrow> semantic_refs_ok (cascade_entities P db)"
  unfolding semantic_refs_ok_def
  by (intro conjI ballI cascade_entities_joins cascade_entities_edges cascade_entities_rest)
    (use cascade_entities_sub in blast)+

lemma semantic_refs_cong:
  assumes "st_entities db' = st_entities db" "st_joins db' = st_joins db" "st_metrics db' = st_metrics db"
    "st_nodes db' = st_nodes db" "st_edges db' = st_edges db"
  shows "semantic_refs_ok db' = semantic_refs_ok db"
  using assms by (simp add: semantic_refs_ok_def has_entity_def has_join_def)

lemma refs_ok_cascade_table: "refs_ok db \<Longrightarrow> refs_ok (cascade_table k db)"
proof (cases "has_table db k")
  case True
  assume r: "refs_ok db"
  let ?d = "db\<lparr>st_tables := delete_rows (\<lambda>r. table_key r = k) (st_tables db),
      st_columns := delete_rows (\<lambda>r. column_parent r = k) (st_columns db),
      st_foreign_keys := delete_rows (\<lambda>r. fk_parent r = k) (st_foreign_keys db),
      st_fingerprints := delete_rows (\<lambda>r. fp_parent r = k) (st_fingerprints db)\<rparr>"
  have "semantic_refs_ok ?d" using r semantic_refs_cong [of ?d db] by (simp add: refs_ok_parts)
  then have "semantic_refs_ok (cascade_table k db)"
    unfolding cascade_table_def using True semantic_refs_cascade by simp
  moreover have "set (st_entities (cascade_table k db)) = {r \<in> set (st_entities db). entity_parent r \<noteq> k}"
    using True by (simp add: cascade_table_def cascade_entities_sub)
  ultimately show ?thesis using r True by (auto simp: refs_ok_parts table_refs_ok_def sql_simps)
qed (simp add: cascade_table_def)

subsection \<open>Reading tables\<close>

lemma get_table_cong:
  assumes "has_table db k = has_table db' k"
    "filter (\<lambda>r. column_parent r = k) (st_columns db) = filter (\<lambda>r. column_parent r = k) (st_columns db')"
    "filter (\<lambda>r. fk_parent r = k) (st_foreign_keys db) = filter (\<lambda>r. fk_parent r = k) (st_foreign_keys db')"
  shows "get_table db (snd (snd k)) (fst k) (fst (snd k)) = get_table db' (snd (snd k)) (fst k) (fst (snd k))"
  using assms by (simp add: get_table_def)

lemma filter_delete_other: "(\<And>r. P r \<Longrightarrow> \<not> Q r) \<Longrightarrow> filter P (delete_rows Q rows) = filter P rows"
  unfolding delete_rows_def by (induction rows) auto

lemma table_rows_cascade: "table_rows_ok db \<Longrightarrow> table_rows_ok (cascade_table k db)"
  unfolding table_rows_ok_def
proof (intro allI impI)
  fix k' assume t: "\<forall>k. has_table db k \<longrightarrow> (\<exists>t. get_table db (snd (snd k)) (fst k) (fst (snd k)) = Inr (Some t))"
    and k': "has_table (cascade_table k db) k'"
  then have h: "has_table db k'" "k' \<noteq> k" by (simp_all add: sql_simps)
  have "get_table (cascade_table k db) (snd (snd k')) (fst k') (fst (snd k')) = get_table db (snd (snd k')) (fst k') (fst (snd k'))"
  proof (cases "has_table db k")
    case True
    have "filter (\<lambda>r. column_parent r = k') (st_columns (cascade_table k db)) = filter (\<lambda>r. column_parent r = k') (st_columns db)"
      "filter (\<lambda>r. fk_parent r = k') (st_foreign_keys (cascade_table k db)) = filter (\<lambda>r. fk_parent r = k') (st_foreign_keys db)"
      unfolding cascade_table_rows [OF True] using h(2) by (simp_all add: filter_delete_other)
    moreover have "has_table (cascade_table k db) k' = has_table db k'" using h k' by simp
    ultimately show ?thesis by (intro get_table_cong)
  qed (simp add: cascade_table_def)
  then show "\<exists>t. get_table (cascade_table k db) (snd (snd k')) (fst k') (fst (snd k')) = Inr (Some t)" using t h by simp
qed

text \<open>What a written table reads back as: its columns by position, its foreign keys by name.\<close>

definition stored_form :: "db_table \<Rightarrow> db_table" where
  "stored_form t = t\<lparr>tb_columns := sort_key co_ordinal_position (tb_columns t), tb_foreign_keys := sort_key fk_name (tb_foreign_keys t)\<rparr>"

lemma stored_form_ok: "table_ok t \<Longrightarrow> table_ok (stored_form t)"
proof -
  have "distinct (map f (sort_key g xs)) = distinct (map f xs)" for f :: "column \<Rightarrow> 'a" and g :: "column \<Rightarrow> int" and xs
    by (simp add: distinct_map)
  then show "table_ok t \<Longrightarrow> table_ok (stored_form t)" by (simp add: table_ok_iff stored_form_def distinct_map)
qed

lemma column_rows_parent: "table_ok t \<Longrightarrow> r \<in> set (column_rows src t) \<Longrightarrow> column_parent r = (tb_schema_name t, tb_name t, src)"
  by (auto simp: column_rows_def column_parent_def table_ok_iff)

lemma fk_rows_parent: "r \<in> set (foreign_key_rows src t) \<Longrightarrow> fk_parent r = (tb_schema_name t, tb_name t, src)"
  by (auto simp: foreign_key_rows_def fk_parent_def)

lemma map_context: "table_ok t \<Longrightarrow> set cs \<subseteq> set (tb_columns t) \<Longrightarrow>
    map (\<lambda>c. c\<lparr>co_table_name := tb_name t, co_schema_name := tb_schema_name t\<rparr>) cs = cs"
  by (induction cs) (auto simp: table_ok_iff)

subsection \<open>Writing a table\<close>

abbreviation key_of :: "string \<Rightarrow> db_table \<Rightarrow> table_key" where
  "key_of src t \<equiv> (tb_schema_name t, tb_name t, src)"

definition with_table :: "string \<Rightarrow> int \<Rightarrow> db_table \<Rightarrow> int option \<Rightarrow> store \<Rightarrow> store" where
  "with_table src now t n db =
     (let db1 = cascade_table (key_of src t) db in
      db1\<lparr>st_tables := st_tables db1 @ [\<lparr>ta_schema = tb_schema_name t, ta_name = tb_name t, ta_source = src,
                                     ta_indexed_at = now, ta_row_count = n\<rparr>],
          st_columns := st_columns db1 @ column_rows src t, st_foreign_keys := st_foreign_keys db1 @ foreign_key_rows src t\<rparr>)"

lemma write_table_Inr:
  assumes "write_table src now t n db = Inr db'"
  shows "db' = with_table src now t n db"
    "keyed column_key (st_columns db')" "keyed fk_key (st_foreign_keys db')"
  using assms by (auto simp: write_table_def with_table_def Let_def insert_rows_def keyed_def split: if_splits)

lemma with_table_has [sql_simps]: "has_table (with_table src now t n db) k \<longleftrightarrow> has_table db k \<or> k = key_of src t"
proof -
  have "has_table (with_table src now t n db) k \<longleftrightarrow> has_table (cascade_table (key_of src t) db) k \<or> k = key_of src t"
    by (auto simp: with_table_def Let_def has_table_def has_key_def table_key_def)
  then show ?thesis by (auto simp: sql_simps)
qed

lemma with_table_rest:
  "st_entities (with_table src now t n db) = st_entities (cascade_table (key_of src t) db)"
  "st_joins (with_table src now t n db) = st_joins (cascade_table (key_of src t) db)"
  "st_metrics (with_table src now t n db) = st_metrics (cascade_table (key_of src t) db)"
  "st_nodes (with_table src now t n db) = st_nodes (cascade_table (key_of src t) db)"
  "st_edges (with_table src now t n db) = st_edges (cascade_table (key_of src t) db)"
  "st_fingerprints (with_table src now t n db) = st_fingerprints (cascade_table (key_of src t) db)"
  by (simp_all add: with_table_def Let_def)

lemma cascade_parents:
  assumes "refs_ok db"
  shows "r \<in> set (st_columns (cascade_table k db)) \<Longrightarrow> column_parent r \<noteq> k"
    "q \<in> set (st_foreign_keys (cascade_table k db)) \<Longrightarrow> fk_parent q \<noteq> k"
    "f \<in> set (st_fingerprints (cascade_table k db)) \<Longrightarrow> fp_parent f \<noteq> k"
    "e \<in> set (st_entities (cascade_table k db)) \<Longrightarrow> entity_parent e \<noteq> k"
  using refs_ok_cascade_table [OF assms, of k] by (auto simp: refs_ok_def sql_simps)

lemma cascade_table_sub:
  "set (st_entities (cascade_table k db)) \<subseteq> set (st_entities db)" "set (st_joins (cascade_table k db)) \<subseteq> set (st_joins db)"
  "set (st_metrics (cascade_table k db)) \<subseteq> set (st_metrics db)" "set (st_edges (cascade_table k db)) \<subseteq> set (st_edges db)"
  by (auto simp: cascade_table_def cascade_entities_def Let_def sql_simps)

lemma with_table_get_other:
  assumes "table_ok t" "k \<noteq> key_of src t"
  shows "get_table (with_table src now t n db) (snd (snd k)) (fst k) (fst (snd k)) =
    get_table (cascade_table (key_of src t) db) (snd (snd k)) (fst k) (fst (snd k))"
proof -
  have "filter (\<lambda>r. column_parent r = k) (column_rows src t) = []" "filter (\<lambda>r. fk_parent r = k) (foreign_key_rows src t) = []"
    using assms column_rows_parent [OF assms(1)] fk_rows_parent by (auto simp: filter_empty_conv)
  moreover have "has_table (with_table src now t n db) k = has_table (cascade_table (key_of src t) db) k"
    using assms(2) by (simp add: sql_simps)
  ultimately show ?thesis by (intro get_table_cong) (simp_all add: with_table_def Let_def)
qed

lemma with_table_get:
  assumes "refs_ok db" "table_ok t"
  shows "get_table (with_table src now t n db) src (tb_schema_name t) (tb_name t) = Inr (Some (stored_form t))"
proof -
  let ?k = "key_of src t" and ?db = "with_table src now t n db"
  have "filter (\<lambda>r. column_parent r = ?k) (st_columns ?db) = column_rows src t"
    using cascade_parents(1) [OF assms(1), of _ ?k] column_rows_parent [OF assms(2)]
    by (auto simp: with_table_def Let_def filter_empty_conv filter_id_conv)
  then have c: "map cl_column (filter (\<lambda>r. column_parent r = ?k) (st_columns ?db)) = tb_columns t"
    by (simp add: column_rows_def comp_def)
  have "filter (\<lambda>r. fk_parent r = ?k) (st_foreign_keys ?db) = foreign_key_rows src t"
    using cascade_parents(2) [OF assms(1), of _ ?k] fk_rows_parent
    by (auto simp: with_table_def Let_def filter_empty_conv filter_id_conv)
  then have f: "map fr_key (filter (\<lambda>r. fk_parent r = ?k) (st_foreign_keys ?db)) = tb_foreign_keys t"
    by (simp add: foreign_key_rows_def comp_def)
  have "map (\<lambda>c. c\<lparr>co_table_name := tb_name t, co_schema_name := tb_schema_name t\<rparr>) (sort_key co_ordinal_position (tb_columns t))
      = sort_key co_ordinal_position (tb_columns t)"
    using assms(2) by (intro map_context) simp_all
  then have "\<lparr>tb_name = tb_name t, tb_schema_name = tb_schema_name t,
      tb_columns = map (\<lambda>c. c\<lparr>co_table_name := tb_name t, co_schema_name := tb_schema_name t\<rparr>) (sort_key co_ordinal_position (tb_columns t)),
      tb_foreign_keys = sort_key fk_name (tb_foreign_keys t)\<rparr> = stored_form t"
    by (cases t) (simp add: stored_form_def)
  then show ?thesis using stored_form_ok [OF assms(2)] c f
    by (simp add: get_table_def sql_simps Let_def table_ok_def)
qed

lemma with_table_ok:
  assumes db: "store_ok ast_parse db" and t: "table_ok t"
    and keys: "keyed column_key (st_columns (with_table src now t n db))" "keyed fk_key (st_foreign_keys (with_table src now t n db))"
  shows "store_ok ast_parse (with_table src now t n db)"
proof -
  let ?k = "key_of src t" and ?db = "with_table src now t n db" and ?c = "cascade_table (key_of src t) db"
  have c: "keys_ok ?c" "refs_ok ?c" "table_rows_ok ?c"
    using db keys_ok_cascade_table refs_ok_cascade_table table_rows_cascade by (auto simp: store_ok_def rows_ok_def)
  have refs: "refs_ok db" using db by (simp add: store_ok_def)
  have "\<not> has_table ?c ?k" by (simp add: sql_simps)
  then have "keyed table_key (st_tables ?db)"
    using c(1) by (auto simp: keys_ok_def keyed_def with_table_def Let_def has_table_def has_key_def table_key_def)
  then have k: "keys_ok ?db" using c(1) keys by (simp add: keys_ok_def with_table_rest)
  have "semantic_refs_ok ?db"
    using c(2) semantic_refs_cong [of ?db ?c] by (simp add: refs_ok_parts with_table_rest)
  moreover have "table_refs_ok ?db"
  proof -
    have up: "has_table ?db x" if "has_table ?c x" for x using that by (auto simp: sql_simps)
    have k: "has_table ?db ?k" by (simp add: sql_simps)
    have "has_table ?db (column_parent r)" if "r \<in> set (st_columns ?c @ column_rows src t)" for r
      using that up [of "column_parent r"] c(2) k column_rows_parent [OF t, of r src] by (auto simp: refs_ok_def)
    moreover have "has_table ?db (fk_parent r)" if "r \<in> set (st_foreign_keys ?c @ foreign_key_rows src t)" for r
      using that up [of "fk_parent r"] c(2) k fk_rows_parent [of r src t] by (auto simp: refs_ok_def)
    moreover have "st_columns ?db = st_columns ?c @ column_rows src t"
      "st_foreign_keys ?db = st_foreign_keys ?c @ foreign_key_rows src t" by (simp_all add: with_table_def Let_def)
    ultimately show ?thesis using up c(2) by (simp add: table_refs_ok_def with_table_rest refs_ok_def)
  qed
  ultimately have r: "refs_ok ?db" by (simp add: refs_ok_parts)
  have "\<exists>u. get_table ?db (snd (snd x)) (fst x) (fst (snd x)) = Inr (Some u)" if "has_table ?db x" for x
  proof (cases "x = ?k")
    case True
    then show ?thesis using with_table_get [OF refs t] by simp
  next
    case False
    then have "has_table ?c x" using that by (simp add: sql_simps)
    then show ?thesis using with_table_get_other [OF t False] c(3) by (simp add: table_rows_ok_def)
  qed
  then have "table_rows_ok ?db" by (simp add: table_rows_ok_def)
  moreover have "set (st_entities ?c) \<subseteq> set (st_entities db)" "set (st_joins ?c) \<subseteq> set (st_joins db)"
    "set (st_metrics ?c) \<subseteq> set (st_metrics db)" "set (st_edges ?c) \<subseteq> set (st_edges db)"
    by (rule cascade_table_sub)+
  ultimately have "rows_ok ast_parse ?db"
    using db unfolding store_ok_def rows_ok_def with_table_rest by blast
  then show ?thesis using k r by (simp add: store_ok_def)
qed

subsection \<open>The other operations\<close>

lemma table_rows_cong:
  assumes "st_tables db' = st_tables db" "st_columns db' = st_columns db" "st_foreign_keys db' = st_foreign_keys db"
  shows "table_rows_ok db' = table_rows_ok db"
  using assms by (simp add: table_rows_ok_def has_table_def get_table_def)

lemma delete_table_ok: "store_ok ast_parse db \<Longrightarrow> store_ok ast_parse (delete_table src s n db)"
  unfolding delete_table_def store_ok_def rows_ok_def
  using keys_ok_cascade_table [of db "(s, n, src)"] refs_ok_cascade_table [of db "(s, n, src)"]
    table_rows_cascade [of db "(s, n, src)"] cascade_table_sub [of "(s, n, src)" db] by (meson subsetD)

lemma write_fingerprints_ok:
  assumes "store_ok ast_parse db" "write_table_fingerprints src now s n fps db = Inr db'"
  shows "store_ok ast_parse db'"
proof -
  let ?k = "(s, n, src)"
  let ?news = "map (\<lambda>(c, st, m). \<lparr>fp_schema = s, fp_table = n, fp_column = c, fp_source = src,
      fp_structural = st, fp_semantic = m, fp_at = now\<rparr>) fps"
  obtain rows where i: "insert_rows fp_key ?news (delete_rows (\<lambda>r. fp_parent r = ?k) (st_fingerprints db)) = Some rows"
    "?news = [] \<or> has_table db ?k" "db' = db\<lparr>st_fingerprints := rows\<rparr>"
    using assms(2) by (auto simp: write_table_fingerprints_def Let_def split: option.splits if_splits)
  have news: "fp_parent r = ?k" if "r \<in> set ?news" for r using that by (auto simp: fp_parent_def)
  have rows: "db' = db\<lparr>st_fingerprints := rows\<rparr>" "keyed fp_key rows"
    "\<forall>r \<in> set rows. r \<in> set (st_fingerprints db) \<or> (fp_parent r = ?k \<and> has_table db ?k)"
    using i news keyed_insert [OF i(1)] set_insert [OF i(1)] by (auto simp: set_delete simp del: set_map)
  have "keys_ok db'" using assms(1) rows by (simp add: store_ok_def keys_ok_def)
  moreover have "refs_ok db'"
    using assms(1) rows by (auto simp: store_ok_def refs_ok_def has_table_def has_entity_def has_join_def)
  moreover have "rows_ok ast_parse db'"
    using assms(1) rows table_rows_cong [of db' db] by (simp add: store_ok_def rows_ok_def)
  ultimately show ?thesis by (simp add: store_ok_def)
qed

lemma write_entity_Inr:
  assumes "write_entity src now e db = Inr db'"
  obtains s t where "split1 CHR ''.'' (en_qualified_table e) = (s, Some t)" "has_table db (s, t, src)"
    "db' = db\<lparr>st_entities := upsert_row entity_key (update_entity_row (entity_to_row src now e s t)) (entity_to_row src now e s t) (st_entities db)\<rparr>"
    "\<And>r. find_row entity_key (src, en_name e) (st_entities db) = Some r \<Longrightarrow> er_origin r = Dbt_Import \<Longrightarrow> en_origin e = Dbt_Import"
  using assms by (auto simp: write_entity_def Let_def split: prod.splits option.splits if_splits)

lemma has_entity_mono_refs:
  assumes "semantic_refs_ok db" "\<And>k. has_entity db k \<Longrightarrow> has_entity db' k" "st_joins db' = st_joins db" "st_metrics db' = st_metrics db"
    "st_nodes db' = st_nodes db" "st_edges db' = st_edges db"
  shows "semantic_refs_ok db'"
  using assms by (simp add: semantic_refs_ok_def has_join_def)

lemma write_entity_ok:
  assumes db: "store_ok ast_parse db" and e: "entity_ok e" and w: "write_entity src now e db = Inr db'"
  shows "store_ok ast_parse db'"
proof -
  obtain s t where st: "split1 CHR ''.'' (en_qualified_table e) = (s, Some t)" "has_table db (s, t, src)"
    "db' = db\<lparr>st_entities := upsert_row entity_key (update_entity_row (entity_to_row src now e s t)) (entity_to_row src now e s t) (st_entities db)\<rparr>"
    using write_entity_Inr [OF w] by metis
  let ?new = "entity_to_row src now e s t"
  have rows: "(r \<in> set (st_entities db)) \<or> (entity_parent r = (s, t, src) \<and> row_to_entity r = Inr e)"
    if "r \<in> set (st_entities db')" for r
  proof -
    have "r \<in> set (st_entities db) \<or> r = ?new \<or> (\<exists>r0. entity_key r0 = entity_key ?new \<and> r = update_entity_row ?new r0)"
      using that st(3) set_upsert [of r entity_key "update_entity_row ?new" ?new "st_entities db"] by auto
    then show ?thesis using row_to_entity_new [OF e st(1), of src now] row_to_entity_update [of _ ?new]
      by (auto simp: entity_key_def entity_parent_def update_entity_row_def entity_to_row_def)
  qed
  have up: "has_entity db' k" if "has_entity db k" for k
    using that st(3) by (simp add: has_entity_def has_key_upsert keeps_keys)
  have "keys_ok db'" using db st(3) by (simp add: store_ok_def keys_ok_def keyed_upsert keeps_keys)
  moreover have sem: "semantic_refs_ok db" using db by (simp add: store_ok_def refs_ok_parts)
  have "semantic_refs_ok db'" by (rule has_entity_mono_refs [OF sem up]) (simp_all add: st(3))
  moreover have "table_refs_ok db'"
  proof -
    have f: "st_columns db' = st_columns db" "st_foreign_keys db' = st_foreign_keys db"
      "st_fingerprints db' = st_fingerprints db" "has_table db' = has_table db"
      using st(3) by (simp_all add: has_table_def fun_eq_iff)
    have "has_table db (entity_parent r)" if "r \<in> set (st_entities db')" for r
      using rows [OF that]
    proof
      assume "r \<in> set (st_entities db)"
      then show ?thesis using db by (simp add: store_ok_def refs_ok_def)
    qed (simp add: st(2))
    then show ?thesis using db f by (simp add: store_ok_def refs_ok_parts table_refs_ok_def)
  qed
  moreover have "rows_ok ast_parse db'"
    using db rows st(3) table_rows_cong [of db' db] by (fastforce simp: store_ok_def rows_ok_def)
  ultimately show ?thesis by (simp add: store_ok_def refs_ok_parts)
qed

lemma write_join_ok:
  assumes db: "store_ok ast_parse db" and j: "join_ok j" and w: "write_canonical_join src now j db = Inr db'"
  shows "store_ok ast_parse db'"
proof -
  let ?new = "join_to_row src now j"
  have w': "has_entity db (src, cj_source_entity j)" "has_entity db (src, cj_target_entity j)"
    "db' = db\<lparr>st_joins := upsert_row join_key (update_join_row ?new) ?new (st_joins db)\<rparr>"
    using w by (auto simp: write_canonical_join_def split: if_splits)
  have rows: "r \<in> set (st_joins db) \<or> (row_to_canonical_join r = Inr j \<and> jr_source r = src
      \<and> jr_source_entity r = cj_source_entity j \<and> jr_target_entity r = cj_target_entity j)"
    if "r \<in> set (st_joins db')" for r
  proof -
    have "r \<in> set (st_joins db) \<or> r = ?new \<or> (\<exists>r0. join_key r0 = join_key ?new \<and> r = update_join_row ?new r0)"
      using that w'(3) set_upsert [of r join_key "update_join_row ?new" ?new "st_joins db"] by auto
    then show ?thesis using row_to_join_new [OF j, of src now] row_to_join_update [of _ ?new]
      by (auto simp: join_key_def update_join_row_def join_to_row_def)
  qed
  have up: "has_join db' k" if "has_join db k" for k
    using that w'(3) by (simp add: has_join_def has_key_upsert keeps_keys)
  have f: "has_entity db' = has_entity db" "has_table db' = has_table db" "st_columns db' = st_columns db"
    "st_foreign_keys db' = st_foreign_keys db" "st_fingerprints db' = st_fingerprints db" "st_entities db' = st_entities db"
    "st_metrics db' = st_metrics db" "st_nodes db' = st_nodes db" "st_edges db' = st_edges db"
    using w'(3) by (simp_all add: has_entity_def has_table_def fun_eq_iff)
  have "keys_ok db'" using db w'(3) by (simp add: store_ok_def keys_ok_def keyed_upsert keeps_keys)
  moreover have "refs_ok db'"
  proof -
    have "has_entity db (jr_source r, jr_source_entity r) \<and> has_entity db (jr_source r, jr_target_entity r)"
      if "r \<in> set (st_joins db')" for r
      using rows [OF that]
    proof
      assume "r \<in> set (st_joins db)"
      then show ?thesis using db by (simp add: store_ok_def refs_ok_def)
    qed (simp add: w')
    then show ?thesis using db up by (simp add: store_ok_def refs_ok_def f)
  qed
  moreover have "rows_ok ast_parse db'"
    using db rows w'(3) table_rows_cong [of db' db] by (fastforce simp: store_ok_def rows_ok_def)
  ultimately show ?thesis by (simp add: store_ok_def)
qed

lemma write_metric_Inr:
  assumes "write_metric src now m db = Inr db'"
  shows "db' = db\<lparr>st_metrics := upsert_row metric_key (update_metric_row (metric_to_row src now m)) (metric_to_row src now m) (st_metrics db)\<rparr>"
    "find_row metric_key (src, mt_name m) (st_metrics db) = None \<Longrightarrow> has_entity db (src, mt_entity m)"
    "find_row metric_key (src, mt_name m) (st_metrics db) = Some r \<Longrightarrow> mr_origin r = Dbt_Import \<Longrightarrow> mt_origin m = Dbt_Import"
  using assms by (auto simp: write_metric_def Let_def split: option.splits if_splits)

lemma write_metric_ok:
  assumes db: "store_ok ast_parse db" and m: "metric_ok ast_parse m" and w: "write_metric src now m db = Inr db'"
  shows "store_ok ast_parse db'"
proof -
  let ?new = "metric_to_row src now m"
  note w' = write_metric_Inr [OF w]
  have k: "metric_key ?new = (src, mt_name m)" by (simp add: metric_key_def metric_to_row_def)
  have rows: "r \<in> set (st_metrics db) \<or> ((\<exists>m. row_to_metric ast_parse r = Inr m) \<and> has_entity db (mr_source r, mr_entity r))"
    if r: "r \<in> set (st_metrics db')" for r
  proof -
    consider "r \<in> set (st_metrics db)" | "r = ?new" "\<not> has_key metric_key (src, mt_name m) (st_metrics db)"
      | r0 where "r0 \<in> set (st_metrics db)" "metric_key r0 = (src, mt_name m)" "r = update_metric_row ?new r0"
      using r w'(1) k set_upsert [of r metric_key "update_metric_row ?new" ?new "st_metrics db"] by auto
    then show ?thesis
    proof cases
      case 2
      then have "has_entity db (src, mt_entity m)" using w'(2) by (simp add: find_row_None)
      then show ?thesis using 2(1) row_to_metric_new [OF m, of src now] by (auto simp: metric_to_row_def)
    next
      case 3
      then have "is_ident (mr_entity r0)" "has_entity db (mr_source r0, mr_entity r0)"
        using db row_to_metric_entity by (auto simp: store_ok_def rows_ok_def refs_ok_def)
      then show ?thesis using 3 row_to_metric_update [OF m, of r0 src now] by (auto simp: metric_key_def update_metric_row_def)
    qed simp
  qed
  have f: "has_entity db' = has_entity db" "has_table db' = has_table db" "has_join db' = has_join db" "st_columns db' = st_columns db"
    "st_foreign_keys db' = st_foreign_keys db" "st_fingerprints db' = st_fingerprints db" "st_entities db' = st_entities db"
    "st_joins db' = st_joins db" "st_nodes db' = st_nodes db" "st_edges db' = st_edges db"
    using w'(1) by (simp_all add: has_entity_def has_table_def has_join_def fun_eq_iff)
  have "keys_ok db'" using db w'(1) by (simp add: store_ok_def keys_ok_def keyed_upsert keeps_keys)
  moreover have "refs_ok db'"
  proof -
    have "has_entity db (mr_source r, mr_entity r)" if "r \<in> set (st_metrics db')" for r
      using rows [OF that]
    proof
      assume "r \<in> set (st_metrics db)"
      then show ?thesis using db by (simp add: store_ok_def refs_ok_def)
    qed simp
    then show ?thesis using db by (simp add: store_ok_def refs_ok_def f)
  qed
  moreover have "rows_ok ast_parse db'"
    using db rows w'(1) table_rows_cong [of db' db] by (fastforce simp: store_ok_def rows_ok_def)
  ultimately show ?thesis by (simp add: store_ok_def)
qed

lemma delete_metric_ok:
  assumes db: "store_ok ast_parse db" and w: "delete_metric src n db = Inr (db', removed)"
  shows "store_ok ast_parse db'"
proof -
  obtain P where P: "db' = db\<lparr>st_metrics := delete_rows P (st_metrics db)\<rparr>"
  proof -
    have "db = db\<lparr>st_metrics := delete_rows (\<lambda>r. False) (st_metrics db)\<rparr>" by (simp add: delete_rows_def)
    then show ?thesis using w that by (auto simp: delete_metric_def split: option.splits if_splits)
  qed
  have "keys_ok db'" using db P by (simp add: store_ok_def keys_ok_def keyed_delete)
  moreover have "refs_ok db'" using db P by (simp add: store_ok_def refs_ok_def has_entity_def has_table_def has_join_def set_delete)
  moreover have "rows_ok ast_parse db'"
    using db P table_rows_cong [of db' db] by (simp add: store_ok_def rows_ok_def set_delete)
  ultimately show ?thesis by (simp add: store_ok_def)
qed

lemma write_projection_ok:
  assumes db: "store_ok ast_parse db" and w: "write_graph_projection src nodes edges db = Inr db'"
  shows "store_ok ast_parse db'"
proof -
  let ?ns = "map (\<lambda>n. \<lparr>nr_source = src, nr_node = n\<rparr>) nodes" and ?es = "map (\<lambda>e. \<lparr>gr_source = src, gr_edge = e\<rparr>) edges"
  obtain ns es where i: "insert_rows node_key ?ns (delete_rows (\<lambda>r. nr_source r = src) (st_nodes db)) = Some ns"
    "insert_rows edge_key ?es (delete_rows (\<lambda>r. gr_source r = src) (st_edges db)) = Some es"
    "db' = db\<lparr>st_nodes := ns, st_edges := es\<rparr>"
    and n: "\<forall>n \<in> set ?ns. has_entity db (node_key n)"
    and e: "\<forall>e \<in> set ?es. has_join db (edge_key e) \<and> has_entity db (gr_source e, gg_source_entity (gr_edge e))
        \<and> has_entity db (gr_source e, gg_target_entity (gr_edge e)) \<and> (\<exists>g. check_graph_edge (gr_edge e) = Inr g)"
    using w unfolding write_graph_projection_def Let_def
    by (auto simp: check_graph_edge_def list_all_iff split: option.splits if_splits)
  have f: "has_entity db' = has_entity db" "has_table db' = has_table db" "has_join db' = has_join db" "st_columns db' = st_columns db"
    "st_foreign_keys db' = st_foreign_keys db" "st_fingerprints db' = st_fingerprints db" "st_entities db' = st_entities db"
    "st_joins db' = st_joins db" "st_metrics db' = st_metrics db"
    using i(3) by (simp_all add: has_entity_def has_table_def has_join_def fun_eq_iff)
  have s: "set ns = {r \<in> set (st_nodes db). nr_source r \<noteq> src} \<union> set ?ns" "set es = {r \<in> set (st_edges db). gr_source r \<noteq> src} \<union> set ?es"
    using set_insert [OF i(1)] set_insert [OF i(2)] by (auto simp: set_delete)
  have "keys_ok db'" using db i keyed_insert [OF i(1)] keyed_insert [OF i(2)] by (simp add: store_ok_def keys_ok_def)
  moreover have "refs_ok db'"
  proof -
    have "has_entity db (node_key r)" if "r \<in> set ns" for r using that s(1) n db by (auto simp: store_ok_def refs_ok_def simp del: set_map)
    moreover have "has_join db (edge_key r) \<and> has_entity db (gr_source r, gg_source_entity (gr_edge r))
        \<and> has_entity db (gr_source r, gg_target_entity (gr_edge r))" if "r \<in> set es" for r
      using that s(2) e db unfolding store_ok_def refs_ok_def by blast
    moreover have "st_nodes db' = ns" "st_edges db' = es" using i(3) by simp_all
    ultimately show ?thesis using db by (simp add: store_ok_def refs_ok_def f)
  qed
  moreover have "rows_ok ast_parse db'"
  proof -
    have "\<exists>g. check_graph_edge (gr_edge r) = Inr g" if "r \<in> set es" for r
      using that s(2) e db unfolding store_ok_def rows_ok_def by blast
    then show ?thesis using db i(3) table_rows_cong [of db' db] by (simp add: store_ok_def rows_ok_def)
  qed
  ultimately show ?thesis by (simp add: store_ok_def)
qed

lemma empty_store_ok: "store_ok ast_parse empty_store"
  by (simp add: store_ok_def keys_ok_def refs_ok_def rows_ok_def table_rows_ok_def empty_store_def keyed_def has_table_def has_key_def)

lemma apply_op_ok:
  assumes "store_ok ast_parse db" "op_valid ast_parse op" "apply_op op db = Inr db'"
  shows "store_ok ast_parse db'"
proof (cases op)
  case (Write_Table src now t n)
  then show ?thesis using assms write_table_Inr [of src now t n db db'] with_table_ok [of ast_parse db t src now n] by simp
next
  case (Delete_Table src s n)
  then show ?thesis using assms delete_table_ok [of ast_parse db src s n] by simp
next
  case (Write_Fingerprints src now s n fps)
  then show ?thesis using assms write_fingerprints_ok [of ast_parse db src now s n fps db'] by simp
next
  case (Write_Entity src now e)
  then show ?thesis using assms write_entity_ok [of ast_parse db e src now db'] by simp
next
  case (Write_Join src now j)
  then show ?thesis using assms write_join_ok [of ast_parse db j src now db'] by simp
next
  case (Write_Metric src now m)
  then show ?thesis using assms write_metric_ok [of ast_parse db m src now db'] by simp
next
  case (Delete_Metric src n)
  then obtain removed where "delete_metric src n db = Inr (db', removed)"
    using assms(3) by (auto simp: result_simps)
  then show ?thesis by (rule delete_metric_ok [OF assms(1)])
next
  case (Write_Projection src ns es)
  then show ?thesis using assms write_projection_ok [of ast_parse db src ns es db'] by simp
qed

lemma store_reach_ok: "store_reach ast_parse db \<Longrightarrow> store_ok ast_parse db"
  by (induction rule: store_reach.induct) (auto intro: empty_store_ok apply_op_ok)

text \<open>C24: Whatever sequence of operations brings a store into being, its keys are unique, no row refers to a
  missing one, and every row passes the constructor it is read through: the reads cannot raise.\<close>

theorem store_integrity: "store_reach ast_parse db \<Longrightarrow> store_ok ast_parse db"
  by (rule store_reach_ok)

subsection \<open>A small store\<close>

definition demo_columns :: "column list" where
  "demo_columns = [\<lparr>co_name = ''total'', co_table_name = ''orders'', co_schema_name = ''public'', co_data_type = ''numeric'',
       co_nullable = False, co_ordinal_position = 2, co_default = None, co_is_primary_key = False\<rparr>,
     \<lparr>co_name = ''id'', co_table_name = ''orders'', co_schema_name = ''public'', co_data_type = ''integer'',
       co_nullable = False, co_ordinal_position = 1, co_default = None, co_is_primary_key = True\<rparr>]"

definition demo_orders :: db_table where
  "demo_orders = \<lparr>tb_name = ''orders'', tb_schema_name = ''public'', tb_columns = demo_columns, tb_foreign_keys = []\<rparr>"

definition demo_entity :: "origin \<Rightarrow> entity" where
  "demo_entity org = \<lparr>en_name = ''order'', en_description = [], en_binding = \<lparr>bd_qualified_table = ''public.orders''\<rparr>,
     en_identity = ''id'', en_origin = org, en_inference_method = Manually_Authored, en_validation_state = Applied,
     en_group = Billing, en_bind_confidence = None, en_rationale = []\<rparr>"

definition demo_metric :: "origin \<Rightarrow> string \<Rightarrow> metric" where
  "demo_metric org ent = \<lparr>mt_name = ''revenue'', mt_description = [], mt_entity = ent,
     mt_measure = \<lparr>mm_agg = Agg_Sum, mm_column = Some ''total'', mm_expression = None\<rparr>,
     mt_time_dimension = None, mt_time_grains = [], mt_origin = org, mt_inference_method = Manually_Authored,
     mt_validation_state = Applied\<rparr>"

definition no_parse :: "string \<Rightarrow> string + py_expr" where
  "no_parse s = Inl s"

fun run_ops :: "store_op list \<Rightarrow> store \<Rightarrow> store_error + store" where
  "run_ops [] db = Inr db"
| "run_ops (op # ops) db = rbind (apply_op op db) (run_ops ops)"

definition demo_ops :: "origin \<Rightarrow> store_op list" where
  "demo_ops org = [Write_Table ''s'' 1 demo_orders None, Write_Entity ''s'' 1 (demo_entity org), Write_Metric ''s'' 1 (demo_metric org ''order'')]"

definition demo_store :: "origin \<Rightarrow> store" where
  "demo_store org = (case run_ops (demo_ops org) empty_store of Inr db \<Rightarrow> db | Inl e \<Rightarrow> empty_store)"

lemma run_ops_reach:
  "store_reach ast_parse db \<Longrightarrow> list_all (op_valid ast_parse) ops \<Longrightarrow> run_ops ops db = Inr db' \<Longrightarrow> store_reach ast_parse db'"
  by (induction ops arbitrary: db) (auto simp: result_simps intro: store_reach.step)

lemma demo_ops_valid: "list_all (op_valid no_parse) (demo_ops org)"
  by (simp add: demo_ops_def table_ok_iff demo_orders_def demo_columns_def entity_ok_def demo_entity_def en_qualified_table_def
      metric_ok_def measure_ok_def check_measure_def check_metric_def demo_metric_def match_qualified_def split1_def char_class_defs)

lemma demo_store_run: "run_ops (demo_ops Manual) empty_store = Inr (demo_store Manual)"
  "run_ops (demo_ops Dbt_Import) empty_store = Inr (demo_store Dbt_Import)"
  by (code_simp, code_simp)

lemma demo_store_reach: "store_reach no_parse (demo_store Manual)" "store_reach no_parse (demo_store Dbt_Import)"
  using run_ops_reach [OF store_reach.fresh demo_ops_valid] demo_store_run by blast+

theorem store_integrity_witness:
  "store_ok no_parse (demo_store Manual) \<and> get_entity (demo_store Manual) ''s'' ''order'' = Inr (Some (demo_entity Manual))"
proof
  show "store_ok no_parse (demo_store Manual)" by (rule store_integrity [OF demo_store_reach(1)])
qed code_simp

subsection \<open>What a write leaves behind\<close>

lemma table_read:
  assumes "store_ok ast_parse db"
  shows "\<exists>r. get_table db src s t = Inr r"
proof (cases "has_table db (s, t, src)")
  case True
  moreover have "table_rows_ok db" using assms by (simp add: store_ok_def rows_ok_def)
  ultimately obtain tb where "get_table db src s t = Inr (Some tb)" by (fastforce simp: table_rows_ok_def)
  then show ?thesis by blast
next
  case False
  then show ?thesis by (simp add: get_table_def)
qed

lemma written_join_reads:
  assumes "join_ok j" "write_canonical_join src now j db = Inr db'"
  shows "get_canonical_join db' src (cj_name j) = Inr (Some j)"
    "n \<noteq> cj_name j \<Longrightarrow> get_canonical_join db' src n = get_canonical_join db src n"
    "st_entities db' = st_entities db"
proof -
  let ?new = "join_to_row src now j"
  have d: "db' = db\<lparr>st_joins := upsert_row join_key (update_join_row ?new) ?new (st_joins db)\<rparr>"
    using assms(2) by (auto simp: write_canonical_join_def split: if_splits)
  have k: "join_key ?new = (src, cj_name j)" "jr_name ?new = cj_name j" by (simp_all add: join_key_def join_to_row_def)
  have "row_to_canonical_join (case find_row join_key (src, cj_name j) (st_joins db) of None \<Rightarrow> ?new | Some r \<Rightarrow> update_join_row ?new r) = Inr j"
    using row_to_join_new [of j src now] assms(1) row_to_join_update [of _ ?new] k
    by (auto split: option.splits dest!: find_row_SomeD simp: join_key_def)
  then show "get_canonical_join db' src (cj_name j) = Inr (Some j)"
    using k by (simp add: get_canonical_join_def d find_upsert keeps_keys)
  show "n \<noteq> cj_name j \<Longrightarrow> get_canonical_join db' src n = get_canonical_join db src n"
    using k by (simp add: get_canonical_join_def d find_upsert keeps_keys)
  show "st_entities db' = st_entities db" by (simp add: d)
qed

lemma written_entity_reads:
  assumes "entity_ok e" "write_entity src now e db = Inr db'"
  shows "get_entity db' src (en_name e) = Inr (Some e)"
proof -
  obtain s t where st: "split1 CHR ''.'' (en_qualified_table e) = (s, Some t)"
    "db' = db\<lparr>st_entities := upsert_row entity_key (update_entity_row (entity_to_row src now e s t)) (entity_to_row src now e s t) (st_entities db)\<rparr>"
    using write_entity_Inr [OF assms(2)] by metis
  let ?new = "entity_to_row src now e s t"
  have k: "entity_key ?new = (src, en_name e)" "er_name ?new = en_name e" by (simp_all add: entity_key_def entity_to_row_def)
  have "row_to_entity (case find_row entity_key (src, en_name e) (st_entities db) of None \<Rightarrow> ?new | Some r \<Rightarrow> update_entity_row ?new r) = Inr e"
    using row_to_entity_new [of e s t src now] assms(1) st(1) row_to_entity_update [of _ ?new] k
    by (auto split: option.splits dest!: find_row_SomeD simp: entity_key_def)
  then show ?thesis using k by (simp add: get_entity_def st(2) find_upsert keeps_keys)
qed

text \<open>A table reads back as it was written, columns by position and foreign keys by name, and a written
  entity or canonical join reads back as itself, whether its name was new or not.\<close>

theorem write_then_read:
  assumes db: "store_ok ast_parse db"
  shows "(table_ok t \<and> write_table src now t n db = Inr db1 \<longrightarrow>
            get_table db1 src (tb_schema_name t) (tb_name t) = Inr (Some (stored_form t))) \<and>
    (entity_ok e \<and> write_entity src now e db = Inr db2 \<longrightarrow> get_entity db2 src (en_name e) = Inr (Some e)) \<and>
    (join_ok j \<and> write_canonical_join src now j db = Inr db3 \<longrightarrow> get_canonical_join db3 src (cj_name j) = Inr (Some j))"
proof (intro conjI impI)
  assume t: "table_ok t \<and> write_table src now t n db = Inr db1"
  have "refs_ok db" using db by (simp add: store_ok_def)
  then show "get_table db1 src (tb_schema_name t) (tb_name t) = Inr (Some (stored_form t))"
    using t with_table_get [of db t src now n] write_table_Inr(1) [of src now t n db db1] by simp
next
  assume e: "entity_ok e \<and> write_entity src now e db = Inr db2"
  show "get_entity db2 src (en_name e) = Inr (Some e)" by (rule written_entity_reads [OF conjunct1 [OF e] conjunct2 [OF e]])
next
  assume j: "join_ok j \<and> write_canonical_join src now j db = Inr db3"
  let ?new = "join_to_row src now j"
  have d: "db3 = db\<lparr>st_joins := upsert_row join_key (update_join_row ?new) ?new (st_joins db)\<rparr>"
    using j by (auto simp: write_canonical_join_def split: if_splits)
  have k: "join_key ?new = (src, cj_name j)" "jr_name ?new = cj_name j" by (simp_all add: join_key_def join_to_row_def)
  have "row_to_canonical_join (case find_row join_key (src, cj_name j) (st_joins db) of None \<Rightarrow> ?new | Some r \<Rightarrow> update_join_row ?new r) = Inr j"
    using row_to_join_new [of j src now] j row_to_join_update [of _ ?new] k
    by (auto split: option.splits dest!: find_row_SomeD simp: join_key_def)
  then show "get_canonical_join db3 src (cj_name j) = Inr (Some j)"
    using k by (simp add: get_canonical_join_def d find_upsert keeps_keys)
qed

theorem write_then_read_witness:
  "get_table (with_table ''s'' 2 demo_orders (Some 7) empty_store) ''s'' ''public'' ''orders'' = Inr (Some (stored_form demo_orders)) \<and>
   map co_name (tb_columns (stored_form demo_orders)) = [''id'', ''total'']"
proof -
  have "write_table ''s'' 2 demo_orders (Some 7) empty_store = Inr (with_table ''s'' 2 demo_orders (Some 7) empty_store)"
    by code_simp
  moreover have "table_ok demo_orders" using demo_ops_valid by (simp add: demo_ops_def)
  ultimately have "get_table (with_table ''s'' 2 demo_orders (Some 7) empty_store) ''s'' ''public'' ''orders'' = Inr (Some (stored_form demo_orders))"
    using write_then_read [OF empty_store_ok, of demo_orders "''s''" 2 "Some 7"] by (simp add: demo_orders_def)
  then show ?thesis by (simp add: stored_form_def demo_orders_def demo_columns_def)
qed

text \<open>A metric written over an existing one takes everything from the new definition except the anchor
  entity, which stays: no error, and the stored metric is a mixture of the two when the anchors differ.\<close>

theorem metric_write_keeps_anchor:
  assumes db: "store_ok ast_parse db" and m: "metric_ok ast_parse m" and w: "write_metric src now m db = Inr db'"
  shows "get_metric ast_parse db' src (mt_name m) =
    Inr (Some (case find_row metric_key (src, mt_name m) (st_metrics db) of None \<Rightarrow> m | Some r \<Rightarrow> m\<lparr>mt_entity := mr_entity r\<rparr>))"
proof -
  let ?new = "metric_to_row src now m"
  have k: "metric_key ?new = (src, mt_name m)" by (simp add: metric_key_def metric_to_row_def)
  have r: "is_ident (mr_entity r) \<and> mr_name r = mt_name m" if "find_row metric_key (src, mt_name m) (st_metrics db) = Some r" for r
    using find_row_SomeD [OF that] db row_to_metric_entity by (auto simp: store_ok_def rows_ok_def metric_key_def)
  have f: "find_row metric_key (src, mt_name m) (st_metrics db') = Some (case find_row metric_key (src, mt_name m) (st_metrics db)
      of None \<Rightarrow> ?new | Some r \<Rightarrow> update_metric_row ?new r)"
    using write_metric_Inr(1) [OF w] k by (simp add: find_upsert keeps_keys)
  show ?thesis
  proof (cases "find_row metric_key (src, mt_name m) (st_metrics db)")
    case None
    then show ?thesis using f row_to_metric_new [OF m] by (simp add: get_metric_def)
  next
    case (Some q)
    then show ?thesis using f r [OF Some] row_to_metric_update [OF m, of q src now] by (simp add: get_metric_def)
  qed
qed

theorem metric_write_keeps_anchor_witness:
  "\<exists>db'. write_metric ''s'' 2 ((demo_metric Manual ''customer'')\<lparr>mt_measure := \<lparr>mm_agg = Agg_Sum, mm_column = Some ''age'', mm_expression = None\<rparr>\<rparr>)
       (demo_store Manual) = Inr db' \<and>
     get_metric no_parse db' ''s'' ''revenue'' = Inr (Some ((demo_metric Manual ''order'')
       \<lparr>mt_measure := \<lparr>mm_agg = Agg_Sum, mm_column = Some ''age'', mm_expression = None\<rparr>\<rparr>))"
proof -
  let ?m = "(demo_metric Manual ''customer'')\<lparr>mt_measure := \<lparr>mm_agg = Agg_Sum, mm_column = Some ''age'', mm_expression = None\<rparr>\<rparr>"
  have ok: "metric_ok no_parse ?m"
    by (simp add: metric_ok_def measure_ok_def check_measure_def check_metric_def demo_metric_def char_class_defs)
  have f: "find_row metric_key (''s'', ''revenue'') (st_metrics (demo_store Manual)) = Some (metric_to_row ''s'' 1 (demo_metric Manual ''order''))"
    by code_simp
  have "\<not> (case write_metric ''s'' 2 ?m (demo_store Manual) of Inl e \<Rightarrow> True | Inr d \<Rightarrow> False)" by code_simp
  then obtain db' where w: "write_metric ''s'' 2 ?m (demo_store Manual) = Inr db'" by (auto split: sum.splits)
  show ?thesis using metric_write_keeps_anchor [OF store_reach_ok [OF demo_store_reach(1)] ok w] w f
    by (simp add: demo_metric_def metric_to_row_def)
qed

subsection \<open>What a re-index takes away\<close>

definition bound_entity :: "store \<Rightarrow> table_key \<Rightarrow> string \<times> string \<Rightarrow> bool" where
  "bound_entity db k ek \<longleftrightarrow> (\<exists>r \<in> set (st_entities db). entity_parent r = k \<and> entity_key r = ek)"

text \<open>C25: Writing a table that is already indexed deletes every entity bound to it together with the canonical
  joins and metrics on those entities, dbt-owned ones included, and nothing else of the semantic
  layer: the upsert is a delete with its cascades followed by an insert.\<close>

theorem write_table_drops_semantic_layer:
  assumes "store_ok ast_parse db" "write_table src now t n db = Inr db'"
  shows "st_entities db' = filter (\<lambda>r. entity_parent r \<noteq> key_of src t) (st_entities db) \<and>
    st_joins db' = filter (\<lambda>j. \<not> bound_entity db (key_of src t) (jr_source j, jr_source_entity j)
      \<and> \<not> bound_entity db (key_of src t) (jr_source j, jr_target_entity j)) (st_joins db) \<and>
    st_metrics db' = filter (\<lambda>m. \<not> bound_entity db (key_of src t) (mr_source m, mr_entity m)) (st_metrics db)"
proof -
  have d: "st_entities db' = st_entities (cascade_table (key_of src t) db)" "st_joins db' = st_joins (cascade_table (key_of src t) db)"
    "st_metrics db' = st_metrics (cascade_table (key_of src t) db)"
    using write_table_Inr(1) [OF assms(2)] by (simp_all add: with_table_rest)
  show ?thesis
  proof (cases "has_table db (key_of src t)")
    case True
    then show ?thesis unfolding d
      by (simp add: cascade_table_def cascade_entities_def Let_def delete_rows_def bound_entity_def)
  next
    case False
    have "entity_parent r \<noteq> key_of src t" if "r \<in> set (st_entities db)" for r
      using assms(1) that False by (auto simp: store_ok_def refs_ok_def)
    then have "filter (\<lambda>r. entity_parent r \<noteq> key_of src t) (st_entities db) = st_entities db"
      "bound_entity db (key_of src t) x = False" for x
      by (auto simp: filter_id_conv bound_entity_def)
    then show ?thesis unfolding d using False by (simp add: cascade_table_def)
  qed
qed

theorem write_table_drops_semantic_layer_witness:
  "st_entities (with_table ''s'' 2 demo_orders None (demo_store Dbt_Import)) = [] \<and>
   st_metrics (with_table ''s'' 2 demo_orders None (demo_store Dbt_Import)) = [] \<and>
   length (st_metrics (demo_store Dbt_Import)) = 1"
proof -
  have w: "write_table ''s'' 2 demo_orders None (demo_store Dbt_Import) = Inr (with_table ''s'' 2 demo_orders None (demo_store Dbt_Import))"
    by code_simp
  have e: "map entity_parent (st_entities (demo_store Dbt_Import)) = [key_of ''s'' demo_orders]"
    "map (\<lambda>m. (mr_source m, mr_entity m)) (st_metrics (demo_store Dbt_Import)) = [(''s'', ''order'')]"
    "map entity_key (st_entities (demo_store Dbt_Import)) = [(''s'', ''order'')]" by code_simp+
  then obtain r m where rm: "st_entities (demo_store Dbt_Import) = [r]" "entity_parent r = key_of ''s'' demo_orders"
    "entity_key r = (''s'', ''order'')" "st_metrics (demo_store Dbt_Import) = [m]" "(mr_source m, mr_entity m) = (''s'', ''order'')"
    by auto
  then show ?thesis
    using write_table_drops_semantic_layer [OF store_reach_ok [OF demo_store_reach(2)] w] by (simp add: bound_entity_def)
qed

subsection \<open>What an import owns\<close>

text \<open>Operations of a person or of the suggester on the semantic layer.\<close>

fun manual_op :: "store_op \<Rightarrow> bool" where
  "manual_op (Write_Entity src now e) = (en_origin e \<noteq> Dbt_Import)"
| "manual_op (Write_Metric src now m) = (mt_origin m \<noteq> Dbt_Import)"
| "manual_op (Write_Join src now j) = True"
| "manual_op (Delete_Metric src n) = True"
| "manual_op (Write_Projection src ns es) = True"
| "manual_op (Write_Fingerprints src now s n fps) = True"
| "manual_op _ = False"

definition dbt_entities :: "store \<Rightarrow> entity_row set" where
  "dbt_entities db = {r \<in> set (st_entities db). er_origin r = Dbt_Import}"

definition dbt_metrics :: "store \<Rightarrow> metric_row set" where
  "dbt_metrics db = {r \<in> set (st_metrics db). mr_origin r = Dbt_Import}"

lemma st_entities_set: "st_entities (db\<lparr>st_entities := rows\<rparr>) = rows"
  by simp

lemma st_metrics_set: "st_metrics (db\<lparr>st_metrics := rows\<rparr>) = rows"
  by simp

lemma upsert_keeps:
  "keyed key rows \<Longrightarrow> r \<in> set rows \<Longrightarrow> (\<And>r. find_row key (key new) rows = Some r \<Longrightarrow> \<not> P r) \<Longrightarrow> P r \<Longrightarrow> r \<in> set (upsert_row key upd new rows)"
  by (auto simp: upsert_row_def find_row_Some image_iff)

text \<open>A write of a canonical join under the key of a stored one; nothing guards who owns that.\<close>

fun writes_join :: "join_row \<Rightarrow> store_op \<Rightarrow> bool" where
  "writes_join r (Write_Join src now j) = (join_key r = (src, cj_name j))"
| "writes_join r _ = False"

lemma manual_op_joins:
  assumes ok: "store_ok ast_parse db" and op: "manual_op op" "\<not> writes_join r op" and a: "apply_op op db = Inr db'" and r: "r \<in> set (st_joins db)"
  shows "r \<in> set (st_joins db')"
proof (cases op)
  case (Write_Entity src now e)
  then have "write_entity src now e db = Inr db'" using a by simp
  then obtain s t where "db' = db\<lparr>st_entities := upsert_row entity_key (update_entity_row (entity_to_row src now e s t)) (entity_to_row src now e s t) (st_entities db)\<rparr>"
    using write_entity_Inr [of src now e db db'] by metis
  then show ?thesis using r by simp
next
  case (Write_Metric src now m)
  then have "write_metric src now m db = Inr db'" using a by simp
  then show ?thesis using r write_metric_Inr(1) [of src now m db db'] by simp
next
  case (Delete_Metric src n)
  then obtain removed where "delete_metric src n db = Inr (db', removed)" using a by (auto simp: result_simps)
  then show ?thesis using r by (auto simp: delete_metric_def split: option.splits if_splits)
next
  case (Write_Join src now j)
  have "keyed join_key (st_joins db)" using ok by (simp add: store_ok_def keys_ok_def)
  moreover have "join_key r \<noteq> join_key (join_to_row src now j)" using Write_Join op(2) by (simp add: join_key_def join_to_row_def)
  ultimately have "r \<in> set (upsert_row join_key (update_join_row (join_to_row src now j)) (join_to_row src now j) (st_joins db))"
    using r by (auto simp: upsert_row_def find_row_Some image_iff)
  then show ?thesis using Write_Join a by (auto simp: write_canonical_join_def split: if_splits)
next
  case (Write_Projection src ns es)
  then show ?thesis using a r by (auto simp: write_graph_projection_def Let_def split: option.splits if_splits)
next
  case (Write_Fingerprints src now s n fps)
  then show ?thesis using a r by (auto simp: write_table_fingerprints_def Let_def split: option.splits if_splits)
qed (use op in simp_all)

lemma manual_op_keeps:
  assumes ok: "store_ok ast_parse db" and op: "manual_op op" and a: "apply_op op db = Inr db'"
  shows "dbt_entities db \<subseteq> dbt_entities db' \<and> dbt_metrics db \<subseteq> dbt_metrics db'"
proof -
  have same: "dbt_entities db \<subseteq> dbt_entities db' \<and> dbt_metrics db \<subseteq> dbt_metrics db'"
    if "st_entities db' = st_entities db" "st_metrics db' = st_metrics db" using that by (simp add: dbt_entities_def dbt_metrics_def)
  have keyed: "keyed entity_key (st_entities db)" "keyed metric_key (st_metrics db)" using ok by (simp_all add: store_ok_def keys_ok_def)
  show ?thesis
  proof (cases op)
    case (Write_Entity src now e)
    then have w: "write_entity src now e db = Inr db'" "en_origin e \<noteq> Dbt_Import" using a op by simp_all
    obtain s t where d: "db' = db\<lparr>st_entities := upsert_row entity_key (update_entity_row (entity_to_row src now e s t)) (entity_to_row src now e s t) (st_entities db)\<rparr>"
      and g: "\<And>r. find_row entity_key (src, en_name e) (st_entities db) = Some r \<Longrightarrow> er_origin r = Dbt_Import \<Longrightarrow> en_origin e = Dbt_Import"
      using write_entity_Inr [OF w(1)] by metis
    have "r \<in> set (st_entities db')" if "r \<in> set (st_entities db)" "er_origin r = Dbt_Import" for r
      unfolding d st_entities_set
    proof (rule upsert_keeps [OF keyed(1) that(1), where P = "\<lambda>r. er_origin r = Dbt_Import"])
      show "er_origin q \<noteq> Dbt_Import" if "find_row entity_key (entity_key (entity_to_row src now e s t)) (st_entities db) = Some q" for q
        using g [of q] that w(2) by (auto simp: entity_key_def entity_to_row_def)
    qed (rule that(2))
    then show ?thesis using d by (auto simp: dbt_entities_def dbt_metrics_def)
  next
    case (Write_Metric src now m)
    then have w: "write_metric src now m db = Inr db'" "mt_origin m \<noteq> Dbt_Import" using a op by simp_all
    have "r \<in> set (st_metrics db')" if "r \<in> set (st_metrics db)" "mr_origin r = Dbt_Import" for r
      unfolding write_metric_Inr(1) [OF w(1)] st_metrics_set
    proof (rule upsert_keeps [OF keyed(2) that(1), where P = "\<lambda>r. mr_origin r = Dbt_Import"])
      show "mr_origin q \<noteq> Dbt_Import" if "find_row metric_key (metric_key (metric_to_row src now m)) (st_metrics db) = Some q" for q
        using write_metric_Inr(3) [OF w(1), of q] that w(2) by (auto simp: metric_key_def metric_to_row_def)
    qed (rule that(2))
    then show ?thesis using write_metric_Inr(1) [OF w(1)] by (auto simp: dbt_entities_def dbt_metrics_def)
  next
    case (Delete_Metric src n)
    then obtain removed where w: "delete_metric src n db = Inr (db', removed)" using a by (auto simp: result_simps)
    show ?thesis
    proof (cases "find_row metric_key (src, n) (st_metrics db)")
      case None
      then show ?thesis using w same by (simp add: delete_metric_def)
    next
      case (Some r)
      then have "mr_origin r \<noteq> Dbt_Import" "db' = db\<lparr>st_metrics := delete_rows (\<lambda>r. metric_key r = (src, n)) (st_metrics db)\<rparr>"
        using w by (auto simp: delete_metric_def split: if_splits)
      moreover have "q = r" if "q \<in> set (st_metrics db)" "metric_key q = (src, n)" for q
        using Some that find_row_Some [OF keyed(2), of "(src, n)" q] by simp
      ultimately show ?thesis by (auto simp: dbt_entities_def dbt_metrics_def set_delete)
    qed
  next
    case (Write_Join src now j)
    then show ?thesis using a same by (auto simp: write_canonical_join_def split: if_splits)
  next
    case (Write_Projection src ns es)
    then show ?thesis using a same by (auto simp: write_graph_projection_def Let_def split: option.splits if_splits)
  next
    case (Write_Fingerprints src now s n fps)
    then show ?thesis using a same by (auto simp: write_table_fingerprints_def Let_def split: option.splits if_splits)
  qed (use op in simp_all)
qed

text \<open>C26: However many operations of a person or of the suggester run, every entity and metric that a dbt import
  owns keeps its row unchanged. A canonical join has no such guard: its row, whoever owns it, stays unchanged unless
  an operation writes a join under its name (the witness overwrites one that an import owns).\<close>

theorem dbt_rows_protected:
  assumes "store_ok ast_parse db" "list_all (\<lambda>op. op_valid ast_parse op \<and> manual_op op) ops" "run_ops ops db = Inr db'"
  shows "dbt_entities db \<subseteq> dbt_entities db' \<and> dbt_metrics db \<subseteq> dbt_metrics db' \<and>
    (\<forall>r \<in> set (st_joins db). r \<in> set (st_joins db') \<or> list_ex (writes_join r) ops)"
  using assms
proof (induction ops arbitrary: db)
  case (Cons op ops)
  then obtain db1 where db1: "apply_op op db = Inr db1" "run_ops ops db1 = Inr db'" by (auto simp: result_simps)
  have ok: "store_ok ast_parse db1" using apply_op_ok [of ast_parse db op db1] Cons.prems db1 by simp
  have m: "manual_op op" "list_all (\<lambda>op. op_valid ast_parse op \<and> manual_op op) ops" using Cons.prems(2) by simp_all
  note rest = Cons.IH [OF ok m(2) db1(2)]
  have "r \<in> set (st_joins db') \<or> list_ex (writes_join r) (op # ops)" if "r \<in> set (st_joins db)" for r
    using manual_op_joins [OF Cons.prems(1) m(1) _ db1(1) that] rest by (cases "writes_join r op") auto
  then show ?case using rest manual_op_keeps [OF Cons.prems(1) m(1) db1(1)] by blast
qed simp

definition owned_join :: "origin \<Rightarrow> canonical_join" where
  "owned_join own = \<lparr>cj_name = ''placed'', cj_description = [], cj_source_entity = ''order'', cj_target_entity = ''order2'',
     cj_on = [\<lparr>jp_source_column = ''id'', jp_target_column = ''id''\<rparr>], cj_origin = own, cj_cardinality = None,
     cj_inference_method = Manually_Authored, cj_validation_state = Applied\<rparr>"

definition owned_ops :: "store_op list" where
  "owned_ops = demo_ops Dbt_Import @
     [Write_Entity ''s'' 1 ((demo_entity Dbt_Import)\<lparr>en_name := ''order2''\<rparr>), Write_Join ''s'' 1 (owned_join Dbt_Import)]"

definition owned_store :: store where
  "owned_store = (case run_ops owned_ops empty_store of Inr db \<Rightarrow> db | Inl e \<Rightarrow> empty_store)"

lemma owned_store_ok: "store_ok no_parse owned_store"
proof -
  have "list_all (op_valid no_parse) owned_ops" using demo_ops_valid [of Dbt_Import]
    by (simp add: owned_ops_def owned_join_def join_ok_def pair_ok_def entity_ok_def demo_entity_def en_qualified_table_def
        match_qualified_def split1_def char_class_defs)
  moreover have "run_ops owned_ops empty_store = Inr owned_store" by code_simp
  ultimately have "store_reach no_parse owned_store" using run_ops_reach [OF store_reach.fresh] by blast
  then show ?thesis by (rule store_reach_ok)
qed

theorem dbt_rows_protected_witness:
  "\<exists>db' r. run_ops [Write_Entity ''s'' 2 ((demo_entity Manual)\<lparr>en_name := ''order3''\<rparr>), Write_Join ''s'' 3 (owned_join Manual)] owned_store = Inr db' \<and>
     dbt_metrics owned_store \<subseteq> dbt_metrics db' \<and> write_entity ''s'' 2 (demo_entity Manual) owned_store = Inl (DbtOwnedEntity ''order'') \<and>
     st_joins owned_store = [r] \<and> jr_origin r = Dbt_Import \<and> map jr_origin (st_joins db') = [Manual]"
proof -
  let ?ops = "[Write_Entity ''s'' 2 ((demo_entity Manual)\<lparr>en_name := ''order3''\<rparr>), Write_Join ''s'' 3 (owned_join Manual)]"
  have "case run_ops ?ops owned_store of Inl e \<Rightarrow> False | Inr d \<Rightarrow> map jr_origin (st_joins d) = [Manual]" by code_simp
  then obtain db' where r: "run_ops ?ops owned_store = Inr db'" "map jr_origin (st_joins db') = [Manual]" by (auto split: sum.splits)
  have v: "list_all (\<lambda>op. op_valid no_parse op \<and> manual_op op) ?ops"
    by (simp add: entity_ok_def demo_entity_def en_qualified_table_def match_qualified_def split1_def char_class_defs owned_join_def join_ok_def pair_ok_def)
  have w: "write_entity ''s'' 2 (demo_entity Manual) owned_store = Inl (DbtOwnedEntity ''order'')" by code_simp
  have "map jr_origin (st_joins owned_store) = [Dbt_Import]" by code_simp
  then obtain j where j: "st_joins owned_store = [j]" "jr_origin j = Dbt_Import" by auto
  have "dbt_metrics owned_store \<subseteq> dbt_metrics db'" using dbt_rows_protected [OF owned_store_ok v r(1)] by blast
  then show ?thesis using r w j by (intro exI [of _ db'] exI [of _ j]) simp
qed

end
