(* ===== verification/EnrichmentStore.thy ===== *)
theory EnrichmentStore
  imports StoreInvariant PiiStore PiiConfidence
begin

section \<open>Descriptions and embeddings of columns (core/description.py, core/embedding.py, core/store.py)\<close>

text \<open>
  What enrichment adds to the cache: one description and one vector per column, in tables that
  reference the indexed table and are emptied with it. The cache is the semantic store together with
  these two tables and the PII tags. A Python float is the type parameter \<open>'f\<close>.
\<close>

record 'f column_description =
  cd_text :: string
  cd_model :: string
  cd_prompt_version :: string
  cd_input_tokens :: int
  cd_cached_input_tokens :: int
  cd_output_tokens :: int
  cd_cost_usd :: 'f

record 'f column_embedding =
  ce_vector :: "'f list"
  ce_model :: string
  ce_dimension :: int

datatype embedding_error = BadDimension int | VectorLength int nat | EmptyModel

definition check_embedding :: "'f column_embedding \<Rightarrow> embedding_error + 'f column_embedding" where
  "check_embedding e =
     (if ce_dimension e \<le> 0 then Inl (BadDimension (ce_dimension e))
      else if ce_dimension e \<noteq> int (length (ce_vector e)) then Inl (VectorLength (ce_dimension e) (length (ce_vector e)))
      else if ce_model e = [] then Inl EmptyModel
      else Inr e)"

record 'f description_row =
  dr_parent :: table_key
  dr_column :: string
  dr_description :: "'f column_description"
  dr_generated_at :: int

record 'f embedding_row =
  ev_parent :: table_key
  ev_column :: string
  ev_embedding :: "'f column_embedding"
  ev_embedded_at :: int

record 'f cache =
  ca_store :: store
  ca_descriptions :: "'f description_row list"
  ca_embeddings :: "'f embedding_row list"
  ca_tags :: "score tag_table"

datatype cache_error = StoreFailed store_error | NonFiniteVector string nat

definition dr_key :: "'f description_row \<Rightarrow> table_key \<times> string" where
  "dr_key r = (dr_parent r, dr_column r)"

definition ev_key :: "'f embedding_row \<Rightarrow> table_key \<times> string" where
  "ev_key r = (ev_parent r, ev_column r)"

text \<open>The rows that go with a table when it is deleted.\<close>

definition drop_enrichment :: "table_key \<Rightarrow> 'f cache \<Rightarrow> 'f cache" where
  "drop_enrichment k ca =
     (if has_table (ca_store ca) k
      then ca\<lparr>ca_descriptions := delete_rows (\<lambda>r. dr_parent r = k) (ca_descriptions ca),
              ca_embeddings := delete_rows (\<lambda>r. ev_parent r = k) (ca_embeddings ca)\<rparr>
      else ca)"

definition cache_write_table :: "string \<Rightarrow> int \<Rightarrow> db_table \<Rightarrow> int option \<Rightarrow> 'f cache \<Rightarrow> cache_error + 'f cache" where
  "cache_write_table src now t row_count ca =
     (case write_table src now t row_count (ca_store ca) of
        Inl e \<Rightarrow> Inl (StoreFailed e)
      | Inr db \<Rightarrow> Inr (drop_enrichment (tb_schema_name t, tb_name t, src) ca\<lparr>ca_store := db\<rparr>))"

definition cache_delete_table :: "string \<Rightarrow> string \<Rightarrow> string \<Rightarrow> 'f cache \<Rightarrow> 'f cache" where
  "cache_delete_table src schema name ca =
     drop_enrichment (schema, name, src) ca\<lparr>ca_store := delete_table src schema name (ca_store ca)\<rparr>"

definition cache_write_fingerprints ::
  "string \<Rightarrow> int \<Rightarrow> string \<Rightarrow> string \<Rightarrow> (string \<times> string \<times> string) list \<Rightarrow> 'f cache \<Rightarrow> cache_error + 'f cache" where
  "cache_write_fingerprints src now schema name fps ca =
     (case write_table_fingerprints src now schema name fps (ca_store ca) of
        Inl e \<Rightarrow> Inl (StoreFailed e)
      | Inr db \<Rightarrow> Inr (ca\<lparr>ca_store := db\<rparr>))"

definition get_table_descriptions :: "'f cache \<Rightarrow> string \<Rightarrow> string \<Rightarrow> string \<Rightarrow> (string \<times> 'f column_description) list" where
  "get_table_descriptions ca src schema name =
     map (\<lambda>r. (dr_column r, dr_description r)) (filter (\<lambda>r. dr_parent r = (schema, name, src)) (ca_descriptions ca))"

definition write_table_descriptions ::
  "string \<Rightarrow> int \<Rightarrow> string \<Rightarrow> string \<Rightarrow> (string \<times> 'f column_description) list \<Rightarrow> 'f cache \<Rightarrow> cache_error + 'f cache" where
  "write_table_descriptions src now schema name descs ca =
     (let k = (schema, name, src);
          news = map (\<lambda>(c, d). \<lparr>dr_parent = k, dr_column = c, dr_description = d, dr_generated_at = now\<rparr>) descs
      in case insert_rows dr_key news (delete_rows (\<lambda>r. dr_parent r = k) (ca_descriptions ca)) of
           None \<Rightarrow> Inl (StoreFailed IntegrityError)
         | Some rows \<Rightarrow>
             if news \<noteq> [] \<and> \<not> has_table (ca_store ca) k then Inl (StoreFailed IntegrityError)
             else Inr (ca\<lparr>ca_descriptions := rows\<rparr>))"

definition latest_enriched_at :: "'f cache \<Rightarrow> string \<Rightarrow> int option" where
  "latest_enriched_at ca src =
     (let stamps = map dr_generated_at (filter (\<lambda>r. snd (snd (dr_parent r)) = src) (ca_descriptions ca))
      in if stamps = [] then None else Some (Max (set stamps)))"

definition has_stale_prompt_version :: "'f cache \<Rightarrow> string \<Rightarrow> string \<Rightarrow> bool" where
  "has_stale_prompt_version ca src current =
     list_ex (\<lambda>r. snd (snd (dr_parent r)) = src \<and> cd_prompt_version (dr_description r) \<noteq> current) (ca_descriptions ca)"

text \<open>The vectors are checked before anything is written; \<open>isfinite\<close> is \<^verbatim>\<open>math.isfinite\<close>.\<close>

definition first_non_finite :: "('f \<Rightarrow> bool) \<Rightarrow> (string \<times> 'f column_embedding) list \<Rightarrow> (string \<times> nat) option" where
  "first_non_finite isfinite embs =
     (case find (\<lambda>(c, i, v). \<not> isfinite v)
             (concat (map (\<lambda>(c, e). map (\<lambda>(i, v). (c, i, v)) (zip [0..<length (ce_vector e)] (ce_vector e))) embs)) of
        None \<Rightarrow> None | Some (c, i, v) \<Rightarrow> Some (c, i))"

definition write_table_embeddings ::
  "('f \<Rightarrow> bool) \<Rightarrow> string \<Rightarrow> int \<Rightarrow> string \<Rightarrow> string \<Rightarrow> (string \<times> 'f column_embedding) list \<Rightarrow> 'f cache \<Rightarrow> cache_error + 'f cache" where
  "write_table_embeddings isfinite src now schema name embs ca =
     (case first_non_finite isfinite embs of
        Some (c, i) \<Rightarrow> Inl (NonFiniteVector c i)
      | None \<Rightarrow>
          (let k = (schema, name, src);
               news = map (\<lambda>(c, e). \<lparr>ev_parent = k, ev_column = c, ev_embedding = e, ev_embedded_at = now\<rparr>) embs
           in case insert_rows ev_key news (delete_rows (\<lambda>r. ev_parent r = k) (ca_embeddings ca)) of
                None \<Rightarrow> Inl (StoreFailed IntegrityError)
              | Some rows \<Rightarrow>
                  if news \<noteq> [] \<and> \<not> has_table (ca_store ca) k then Inl (StoreFailed IntegrityError)
                  else Inr (ca\<lparr>ca_embeddings := rows\<rparr>)))"

definition get_table_embeddings :: "'f cache \<Rightarrow> string \<Rightarrow> string \<Rightarrow> string \<Rightarrow> (string \<times> 'f column_embedding) list" where
  "get_table_embeddings ca src schema name =
     map (\<lambda>r. (ev_column r, ev_embedding r)) (filter (\<lambda>r. ev_parent r = (schema, name, src)) (ca_embeddings ca))"

definition cache_write_tags :: "string \<Rightarrow> int \<Rightarrow> string \<Rightarrow> (string \<rightharpoonup> column_pii_tag)
    \<Rightarrow> (string \<rightharpoonup> confidence_band option \<times> score option) \<Rightarrow> 'f cache \<Rightarrow> 'f cache" where
  "cache_write_tags src now tbl tags confidence ca =
     ca\<lparr>ca_tags := write_column_pii_tags (ca_tags ca) now src tbl tags confidence\<rparr>"

subsection \<open>What the writes leave alone\<close>

named_theorems cache_simps "effects of the cache writes on the semantic store"

lemma drop_enrichment_store [cache_simps]: "ca_store (drop_enrichment k ca) = ca_store ca"
  by (simp add: drop_enrichment_def)

lemma cache_write_table_store:
  "cache_write_table src now t n ca = Inr ca' \<Longrightarrow> write_table src now t n (ca_store ca) = Inr (ca_store ca')"
  by (auto simp: cache_write_table_def split: sum.splits)

lemma cache_delete_table_store [cache_simps]:
  "ca_store (cache_delete_table src s n ca) = delete_table src s n (ca_store ca)"
  by (simp add: cache_delete_table_def)

lemma cache_write_fingerprints_store:
  "cache_write_fingerprints src now s n fps ca = Inr ca' \<Longrightarrow>
     write_table_fingerprints src now s n fps (ca_store ca) = Inr (ca_store ca')"
  by (auto simp: cache_write_fingerprints_def split: sum.splits)

lemma write_table_descriptions_store:
  "write_table_descriptions src now s n ds ca = Inr ca' \<Longrightarrow> ca_store ca' = ca_store ca"
  by (auto simp: write_table_descriptions_def Let_def split: option.splits if_splits)

lemma write_table_embeddings_store:
  "write_table_embeddings fin src now s n es ca = Inr ca' \<Longrightarrow> ca_store ca' = ca_store ca"
  by (auto simp: write_table_embeddings_def Let_def split: option.splits if_splits)

lemma cache_write_tags_store [cache_simps]: "ca_store (cache_write_tags src now t tags conf ca) = ca_store ca"
  by (simp add: cache_write_tags_def)

subsection \<open>The fingerprints other tables keep\<close>

lemma write_fingerprints_get:
  assumes "write_table_fingerprints src now s n fps db = Inr db'"
  shows "get_table_fingerprints db' src s' n' =
    (if s' = s \<and> n' = n then fps else get_table_fingerprints db src s' n')"
proof -
  let ?news = "map (\<lambda>(c, st, m). \<lparr>fp_schema = s, fp_table = n, fp_column = c, fp_source = src,
                                     fp_structural = st, fp_semantic = m, fp_at = now\<rparr>) fps"
  have rows: "st_fingerprints db' = delete_rows (\<lambda>r. fp_parent r = (s, n, src)) (st_fingerprints db) @ ?news"
    using assms by (auto simp: write_table_fingerprints_def Let_def insert_rows_def split: option.splits if_splits)
  have par: "filter (\<lambda>r. fp_parent r = (s', n', src)) ?news = (if s' = s \<and> n' = n then ?news else [])"
    by (auto simp: filter_empty_conv filter_id_conv fp_parent_def)
  have rd: "map (\<lambda>r. (fp_column r, fp_structural r, fp_semantic r)) ?news = fps"
    by (induction fps) auto
  show ?thesis
    unfolding get_table_fingerprints_def rows filter_append par
    using rd by (auto simp: delete_rows_def filter_empty_conv intro!: arg_cong [where f = "map _"] filter_cong)
qed

lemma cascade_fingerprints:
  "(s', n', src') \<noteq> k \<Longrightarrow> get_table_fingerprints (cascade_table k db) src' s' n' = get_table_fingerprints db src' s' n'"
  by (auto simp: get_table_fingerprints_def cascade_table_def cascade_entities_def Let_def delete_rows_def
      intro!: arg_cong [where f = "map _"] filter_cong)

lemma write_table_fingerprints_other:
  assumes "write_table src now t n db = Inr db'" "(s', n', src') \<noteq> (tb_schema_name t, tb_name t, src)"
  shows "get_table_fingerprints db' src' s' n' = get_table_fingerprints db src' s' n'"
proof -
  have "st_fingerprints db' = st_fingerprints (cascade_table (tb_schema_name t, tb_name t, src) db)"
    using assms(1) by (auto simp: write_table_def Let_def split: option.splits if_splits)
  then show ?thesis using cascade_fingerprints [OF assms(2)] by (simp add: get_table_fingerprints_def)
qed

text \<open>The tables a source has: what deletes and writes make of them.\<close>

lemma has_table_delete: "has_table (delete_table src s n db) k \<longleftrightarrow> has_table db k \<and> k \<noteq> (s, n, src)"
  by (simp add: delete_table_def sql_simps)

lemma has_table_write:
  assumes "write_table src now t n db = Inr db'"
  shows "has_table db' k \<longleftrightarrow> has_table db k \<or> k = (tb_schema_name t, tb_name t, src)"
proof -
  have "st_tables db' = st_tables (delete_table src (tb_schema_name t) (tb_name t) db) @ [\<lparr>ta_schema = tb_schema_name t,
      ta_name = tb_name t, ta_source = src, ta_indexed_at = now, ta_row_count = n\<rparr>]"
    using assms by (auto simp: write_table_def delete_table_def Let_def split: option.splits if_splits)
  then show ?thesis using has_table_delete [of src "tb_schema_name t" "tb_name t" db k]
    by (auto simp: has_table_def has_key_def table_key_def)
qed

lemma has_table_fingerprints: "write_table_fingerprints src now s n fps db = Inr db' \<Longrightarrow> has_table db' k = has_table db k"
  by (auto simp: write_table_fingerprints_def Let_def has_table_def split: option.splits if_splits)

lemma list_tables_iff: "(s, n) \<in> set (list_tables db (Some src)) \<longleftrightarrow> has_table db (s, n, src)"
  by (auto simp: list_tables_def has_table_def has_key_def table_key_def image_iff)

end
