(* ===== verification/ProfilerStats.thy ===== *)
theory ProfilerStats
  imports Prelude "HOL-Library.Multiset" "HOL-Library.Product_Lexorder"
begin

section \<open>Column statistics and value shapes (profiler/stats.py)\<close>

text \<open>
  The per-column profile with its constructor's checks, the structural signature of a value, and the
  most common signatures of a sample. The redaction of sample values is not modelled here.
\<close>

record column_stats =
  cs_column_name :: string
  cs_total_rows :: int
  cs_null_count :: int
  cs_distinct_count :: int
  cs_sample_values :: "string list"
  cs_shape_patterns :: "string list"

datatype stats_error = EmptyColumnName | NegativeCount | NullsExceedTotal int int | DistinctExceedsNonNull int int

definition check_column_stats :: "column_stats \<Rightarrow> stats_error + column_stats" where
  "check_column_stats s =
     (if cs_column_name s = [] then Inl EmptyColumnName
      else if cs_total_rows s < 0 \<or> cs_null_count s < 0 \<or> cs_distinct_count s < 0 then Inl NegativeCount
      else if cs_null_count s > cs_total_rows s then Inl (NullsExceedTotal (cs_null_count s) (cs_total_rows s))
      else (let non_null = cs_total_rows s - cs_null_count s in
            if cs_distinct_count s > non_null then Inl (DistinctExceedsNonNull (cs_distinct_count s) non_null)
            else Inr s))"

definition SAMPLE_TRUNCATE_AT :: nat where
  "SAMPLE_TRUNCATE_AT = 50"

definition shape_char :: "char \<Rightarrow> char" where
  "shape_char c =
     (if CHR ''0'' \<le> c \<and> c \<le> CHR ''9'' then CHR ''9''
      else if CHR ''a'' \<le> c \<and> c \<le> CHR ''z'' then CHR ''a''
      else if CHR ''A'' \<le> c \<and> c \<le> CHR ''Z'' then CHR ''A''
      else c)"

definition shape_of :: "string \<Rightarrow> string" where
  "shape_of value = map shape_char (py_take SAMPLE_TRUNCATE_AT value)"

text \<open>\<^verbatim>\<open>sorted(counter.items(), key=lambda kv: (-kv[1], kv[0]))[:limit]\<close>.\<close>

definition top_shapes :: "string list \<Rightarrow> nat \<Rightarrow> string list" where
  "top_shapes values limit =
     (let shapes = map shape_of values
      in take limit (sort_key (\<lambda>s. (- int (count_list shapes s), s)) (remdups shapes)))"

lemma shape_char_cont: "is_cont (shape_char c) = is_cont c"
  by (auto simp: shape_char_def is_cont_def less_eq_char_def)

lemma py_take_shape: "py_take n (map shape_char s) = map shape_char (py_take n s)"
  by (induction n s rule: py_take.induct) (auto simp: shape_char_cont split: nat.split)

lemma py_take_idem: "py_take n (py_take n s) = py_take n s"
  by (induction n s rule: py_take.induct) (auto split: nat.split)

lemma shape_char_idem: "shape_char (shape_char c) = shape_char c"
  by (simp add: shape_char_def)

text \<open>A signature of a signature is itself, so a stored pattern can be compared with a fresh one.\<close>

lemma shape_of_idem: "shape_of (shape_of v) = shape_of v"
  by (simp add: shape_of_def py_take_shape py_take_idem comp_def shape_char_idem)

text \<open>The order of the sample does not matter: any two samples with the same values have the same top shapes.\<close>

lemma top_shapes_order:
  assumes "mset vs = mset ws"
  shows "top_shapes vs n = top_shapes ws n"
proof -
  have m: "mset (map shape_of vs) = mset (map shape_of ws)" using assms by simp
  then have c: "count_list (map shape_of vs) = count_list (map shape_of ws)" by (auto simp: count_mset [symmetric])
  have s: "set (map shape_of vs) = set (map shape_of ws)" using m by (metis set_mset_mset)
  let ?k = "\<lambda>s. (- int (count_list (map shape_of ws) s), s)"
  have "sort_key ?k (remdups (map shape_of vs)) = sort_key ?k (remdups (map shape_of ws))"
  proof (rule map_sorted_distinct_set_unique [where f = ?k])
    show "inj_on ?k (set (sort_key ?k (remdups (map shape_of vs))) \<union> set (sort_key ?k (remdups (map shape_of ws))))"
      by (auto intro: inj_onI)
    then show "distinct (map ?k (sort_key ?k (remdups (map shape_of vs))))" "distinct (map ?k (sort_key ?k (remdups (map shape_of ws))))"
      by (auto simp: distinct_map intro: inj_on_subset)
    show "set (sort_key ?k (remdups (map shape_of vs))) = set (sort_key ?k (remdups (map shape_of ws)))" using s by simp
  qed simp_all
  then show ?thesis using c by (simp add: top_shapes_def Let_def)
qed

end
