(* ===== verification/ColumnFingerprint.thy ===== *)
theory ColumnFingerprint
  imports Json Sha256 SchemaModels AuditDigest ProfilerStats
begin

section \<open>Content-addressable fingerprints of columns (core/fingerprint.py)\<close>

text \<open>
  The sha256 digests, in hex, that decide whether a table has changed since it was indexed. The
  payloads are the objects of the source, serialised by \<open>json_dumps False\<close> (sorted keys, no
  escaping above 0x7F). The lemma behind the property is \<open>json_object_inj\<close>: an object of scalars and
  string lists can be read off its text.
\<close>

definition hash_json :: "json \<Rightarrow> string" where
  "hash_json payload = hex_of (sha256 (json_dumps False payload))"

lemma hash_json_eq:
  "hash_json p = hash_json q \<Longrightarrow>
     json_dumps False p = json_dumps False q \<or> collision [json_dumps False p] [json_dumps False q]"
  by (auto simp: hash_json_def hex_of_inj collision_def)

text \<open>The foreign-key targets of one column, sorted and without repetition; \<^verbatim>\<open>zip(strict=True)\<close> pairs
  sides of equal length.\<close>

definition fk_pair_targets :: "string \<Rightarrow> foreign_key \<Rightarrow> string list" where
  "fk_pair_targets c k =
     map (\<lambda>(_, t). fk_target k @ ''.'' @ t)
       (filter (\<lambda>(s, _). s = c) (zip (fk_source_columns k) (fk_target_columns k)))"

definition fk_targets_for_column :: "db_table \<Rightarrow> string \<Rightarrow> string list" where
  "fk_targets_for_column t c = sorted_list_of_set (set (concat (map (fk_pair_targets c) (tb_foreign_keys t))))"

definition structural_payload :: "column \<Rightarrow> string list \<Rightarrow> (string \<times> json) list" where
  "structural_payload col targets =
     [(''data_type'', JStr (co_data_type col)),
      (''default'', json_opt (co_default col)),
      (''fk_targets'', JList (map JStr (sort targets))),
      (''is_pk'', JBool (co_is_primary_key col)),
      (''name'', JStr (co_name col)),
      (''nullable'', JBool (co_nullable col)),
      (''position'', JInt (co_ordinal_position col))]"

definition column_structural_fingerprint :: "column \<Rightarrow> string list \<Rightarrow> string" where
  "column_structural_fingerprint col targets = hash_json (JObj (structural_payload col targets))"

datatype fingerprint_error = EmptyPromptVersion

definition json_strings_opt :: "string list option \<Rightarrow> json" where
  "json_strings_opt x = (case x of None \<Rightarrow> JNull | Some ss \<Rightarrow> JList (map JStr ss))"

definition semantic_payload :: "column \<Rightarrow> string list \<Rightarrow> column_stats option \<Rightarrow> string \<Rightarrow> (string \<times> json) list" where
  "semantic_payload col targets stats prompt_version =
     [(''prompt_version'', JStr prompt_version),
      (''samples'', json_strings_opt (map_option (\<lambda>s. sort (cs_sample_values s)) stats)),
      (''shapes'', json_strings_opt (map_option (\<lambda>s. sort (cs_shape_patterns s)) stats)),
      (''structural'', JStr (column_structural_fingerprint col targets))]"

definition column_semantic_fingerprint ::
  "column \<Rightarrow> string list \<Rightarrow> column_stats option \<Rightarrow> string \<Rightarrow> fingerprint_error + string" where
  "column_semantic_fingerprint col targets stats prompt_version =
     (if prompt_version = [] then Inl EmptyPromptVersion
      else Inr (hash_json (JObj (semantic_payload col targets stats prompt_version))))"

definition table_payload :: "db_table \<Rightarrow> (string \<times> json) list" where
  "table_payload t =
     [(''columns'', JList (map (\<lambda>c. JStr (column_structural_fingerprint c (fk_targets_for_column t (co_name c))))
         (sort_key co_ordinal_position (tb_columns t)))),
      (''name'', JStr (tb_name t)),
      (''schema'', JStr (tb_schema_name t))]"

definition table_structural_fingerprint :: "db_table \<Rightarrow> string" where
  "table_structural_fingerprint t = hash_json (JObj (table_payload t))"

subsection \<open>What a fingerprint commits to\<close>

text \<open>The structural identity of a column inside its table.\<close>

definition structural_identity :: "column \<Rightarrow> string list \<Rightarrow> string \<times> string \<times> bool \<times> string option \<times> int \<times> bool \<times> string list" where
  "structural_identity col targets =
     (co_name col, co_data_type col, co_nullable col, co_default col, co_ordinal_position col, co_is_primary_key col, sort targets)"

lemma structural_payload_inj:
  "structural_payload c ts = structural_payload d us \<longleftrightarrow> structural_identity c ts = structural_identity d us"
  by (auto simp: structural_payload_def structural_identity_def json_opt_inj map_JStr_eq)

lemma structural_payload_keys:
  "sorted (map fst (structural_payload c ts))" "map fst (structural_payload c ts) = map fst (structural_payload d us)"
  "\<forall>v \<in> snd ` set (structural_payload c ts). json_flat v"
  by (simp_all add: structural_payload_def)

lemma json_strings_opt_flat [simp]: "json_flat (json_strings_opt x)"
  by (cases x) (simp_all add: json_strings_opt_def)

lemma structural_text_inj:
  "json_dumps False (JObj (structural_payload c ts)) = json_dumps False (JObj (structural_payload d us)) \<Longrightarrow>
     structural_identity c ts = structural_identity d us"
  using json_object_inj [OF structural_payload_keys(1,2,3) structural_payload_keys(3)] structural_payload_inj by blast

lemma structural_fingerprint_commits:
  assumes "column_structural_fingerprint c ts = column_structural_fingerprint d us"
  shows "structural_identity c ts = structural_identity d us
    \<or> collision [json_dumps False (JObj (structural_payload c ts))] [json_dumps False (JObj (structural_payload d us))]"
  using hash_json_eq [of "JObj (structural_payload c ts)" "JObj (structural_payload d us)"] assms structural_text_inj
  unfolding column_structural_fingerprint_def by blast

definition table_identity :: "db_table \<Rightarrow> string \<times> string \<times> (string \<times> string \<times> bool \<times> string option \<times> int \<times> bool \<times> string list) list" where
  "table_identity t = (tb_schema_name t, tb_name t,
     map (\<lambda>c. structural_identity c (fk_targets_for_column t (co_name c))) (sort_key co_ordinal_position (tb_columns t)))"

definition hashed_texts :: "db_table \<Rightarrow> string list" where
  "hashed_texts t = json_dumps False (JObj (table_payload t)) #
     map (\<lambda>c. json_dumps False (JObj (structural_payload c (fk_targets_for_column t (co_name c))))) (tb_columns t)"

lemma table_payload_keys:
  "sorted (map fst (table_payload t))" "map fst (table_payload t) = map fst (table_payload u)"
  "\<forall>v \<in> snd ` set (table_payload t). json_flat v"
  by (simp_all add: table_payload_def)
    (use json_flat_simps(6) [of "map (\<lambda>c. column_structural_fingerprint c (fk_targets_for_column t (co_name c))) (sort_key co_ordinal_position (tb_columns t))"]
      in \<open>simp add: comp_def\<close>)

lemma table_text_inj:
  assumes "json_dumps False (JObj (table_payload t)) = json_dumps False (JObj (table_payload u))"
  shows "tb_schema_name t = tb_schema_name u \<and> tb_name t = tb_name u \<and>
    map (\<lambda>c. column_structural_fingerprint c (fk_targets_for_column t (co_name c))) (sort_key co_ordinal_position (tb_columns t)) =
    map (\<lambda>c. column_structural_fingerprint c (fk_targets_for_column u (co_name c))) (sort_key co_ordinal_position (tb_columns u))"
proof -
  have "table_payload t = table_payload u"
    using json_object_inj [OF table_payload_keys(1,2,3) table_payload_keys(3) assms] .
  then have "map JStr (map (\<lambda>c. column_structural_fingerprint c (fk_targets_for_column t (co_name c))) (sort_key co_ordinal_position (tb_columns t))) =
      map JStr (map (\<lambda>c. column_structural_fingerprint c (fk_targets_for_column u (co_name c))) (sort_key co_ordinal_position (tb_columns u)))"
    "tb_schema_name t = tb_schema_name u" "tb_name t = tb_name u"
    by (simp_all add: table_payload_def comp_def)
  then show ?thesis unfolding map_JStr_eq by simp
qed

text \<open>Equal lists of column fingerprints: all identities agree, or one pair of texts collides.\<close>

lemma column_fingerprints_commit:
  assumes "map (\<lambda>c. column_structural_fingerprint c (f c)) cs = map (\<lambda>c. column_structural_fingerprint c (g c)) ds"
  shows "map (\<lambda>c. structural_identity c (f c)) cs = map (\<lambda>c. structural_identity c (g c)) ds
    \<or> collision (map (\<lambda>c. json_dumps False (JObj (structural_payload c (f c)))) cs)
        (map (\<lambda>c. json_dumps False (JObj (structural_payload c (g c)))) ds)"
  using assms
proof (induction cs arbitrary: ds)
  case (Cons c cs)
  then obtain d ds' where d: "ds = d # ds'" "column_structural_fingerprint c (f c) = column_structural_fingerprint d (g d)"
    "map (\<lambda>c. column_structural_fingerprint c (f c)) cs = map (\<lambda>c. column_structural_fingerprint c (g c)) ds'"
    by (cases ds) auto
  from structural_fingerprint_commits [OF d(2)] Cons.IH [OF d(3)] show ?case
    unfolding d(1) by (auto simp: collision_def)
qed simp

text \<open>The table fingerprint notices every structural change. When two tables have the same
  fingerprint, they agree on their schema and name and, in ordinal order, on every column's name, type,
  nullability, default, position, key membership and foreign-key targets; otherwise two of the texts
  that were hashed collide under sha256.\<close>

theorem table_fingerprint_commits:
  assumes "table_structural_fingerprint t = table_structural_fingerprint u"
  shows "table_identity t = table_identity u \<or> collision (hashed_texts t) (hashed_texts u)"
proof (cases "json_dumps False (JObj (table_payload t)) = json_dumps False (JObj (table_payload u))")
  case True
  from table_text_inj [OF this] column_fingerprints_commit [where f = "\<lambda>c. fk_targets_for_column t (co_name c)"
      and g = "\<lambda>c. fk_targets_for_column u (co_name c)" and cs = "sort_key co_ordinal_position (tb_columns t)"
      and ds = "sort_key co_ordinal_position (tb_columns u)"]
  show ?thesis unfolding table_identity_def by (auto simp: hashed_texts_def collision_def)
next
  case False
  then show ?thesis using hash_json_eq assms unfolding table_structural_fingerprint_def hashed_texts_def
    by (auto simp: collision_def simp del: json_dumps.simps)
qed

definition demo_users :: db_table where
  "demo_users = \<lparr>tb_name = ''users'', tb_schema_name = ''public'',
     tb_columns = [\<lparr>co_name = ''id'', co_table_name = ''users'', co_schema_name = ''public'', co_data_type = ''integer'',
         co_nullable = False, co_ordinal_position = 1, co_default = None, co_is_primary_key = True\<rparr>,
       \<lparr>co_name = ''email'', co_table_name = ''users'', co_schema_name = ''public'', co_data_type = ''text'',
         co_nullable = True, co_ordinal_position = 2, co_default = None, co_is_primary_key = False\<rparr>],
     tb_foreign_keys = []\<rparr>"

theorem table_fingerprint_commits_witness:
  "table_identity demo_users = table_identity (demo_users\<lparr>tb_columns := rev (tb_columns demo_users)\<rparr>)
   \<or> collision (hashed_texts demo_users) (hashed_texts (demo_users\<lparr>tb_columns := rev (tb_columns demo_users)\<rparr>))"
  by (rule table_fingerprint_commits)
    (simp add: table_structural_fingerprint_def table_payload_def demo_users_def fk_targets_for_column_def)

end
