(* ===== verification/Indexer.thy ===== *)
theory Indexer
  imports EnrichmentStore ColumnFingerprint PiiClassifier
begin

section \<open>Cache-aware indexing (indexer.py)\<close>

text \<open>
  One indexing pass over a source: tables that disappeared are deleted, a table whose columns'
  structural fingerprints all match the cached ones is skipped, every other table is profiled,
  enriched, embedded and written, in that order. The state is the cache and the log of the calls the
  pass made to the profiler, the enrichment pipeline and the embedder; an exception keeps the writes
  that were committed before it. The profiler, the pipeline and the embedder are parameters: they see
  the log, so each call may answer differently. The clock is read once for a run (the code reads it
  once per write; only timestamps depend on it). Reporter callbacks and the cost in dollars are left
  out.
\<close>

definition PROMPT_VERSION :: string where
  "PROMPT_VERSION = ''2026-06-08-1''"

datatype call = Profiled string string | Enriched string string | Embedded string string string

datatype index_error =
    SourceError string | ProfilerError string | PipelineError string | EmbedderError string | CacheError cache_error

record 'f index_state =
  ix_cache :: "'f cache"
  ix_log :: "call list"

record data_source =
  so_list_tables :: "(string \<times> string) list"
  so_get_table :: "string \<Rightarrow> string \<Rightarrow> string + db_table"
  so_row_count :: "string \<Rightarrow> string \<Rightarrow> string + int option"

record 'f index_config =
  ic_source :: data_source
  ic_profiler :: "call list \<Rightarrow> db_table \<Rightarrow> string + (string \<rightharpoonup> column_stats)"
  ic_pipeline :: "(call list \<Rightarrow> db_table \<Rightarrow> (string \<rightharpoonup> column_stats) \<Rightarrow> string + (string \<times> 'f column_description) list) option"
  ic_embedder :: "(call list \<Rightarrow> string \<Rightarrow> string + 'f column_embedding) option"
  ic_isfinite :: "'f \<Rightarrow> bool"
  ic_no_pii_classify :: bool
  ic_source_id :: string
  ic_now :: int

record index_result =
  ir_tables_seen :: nat
  ir_tables_changed :: nat
  ir_tables_unchanged :: nat
  ir_tables_removed :: nat
  ir_columns_added :: nat
  ir_columns_changed :: nat
  ir_columns_removed :: nat
  ir_descriptions_generated :: nat
  ir_embeddings_generated :: nat

subsection \<open>The structural diff of one table\<close>

definition new_structural :: "db_table \<Rightarrow> (string \<times> string) list" where
  "new_structural t = map (\<lambda>c. (co_name c, column_structural_fingerprint c (fk_targets_for_column t (co_name c)))) (tb_columns t)"

definition cached_structural :: "store \<Rightarrow> string \<Rightarrow> string \<Rightarrow> string \<Rightarrow> (string \<times> string) list" where
  "cached_structural db src schema name = map (\<lambda>(c, st, m). (c, st)) (get_table_fingerprints db src schema name)"

definition col_added :: "(string \<times> string) list \<Rightarrow> (string \<times> string) list \<Rightarrow> string set" where
  "col_added new cached = fst ` set new - fst ` set cached"

definition col_removed :: "(string \<times> string) list \<Rightarrow> (string \<times> string) list \<Rightarrow> string set" where
  "col_removed new cached = fst ` set cached - fst ` set new"

definition col_changed :: "(string \<times> string) list \<Rightarrow> (string \<times> string) list \<Rightarrow> string set" where
  "col_changed new cached = {c \<in> fst ` set new. c \<in> fst ` set cached \<and> map_of new c \<noteq> map_of cached c}"

definition table_unchanged :: "(string \<times> string) list \<Rightarrow> (string \<times> string) list \<Rightarrow> bool" where
  "table_unchanged new cached \<longleftrightarrow> col_added new cached = {} \<and> col_removed new cached = {} \<and> col_changed new cached = {}"

text \<open>What one table adds to the counters, in the order changed, added, changed columns, removed,
  descriptions, embeddings.\<close>

datatype table_outcome = Unchanged | Changed nat nat nat nat nat

subsection \<open>Computations that keep their effects when they raise\<close>

type_synonym ('s, 'a) step = "'s \<Rightarrow> 's \<times> (index_error + 'a)"

definition sbind :: "('s, 'a) step \<Rightarrow> ('a \<Rightarrow> ('s, 'b) step) \<Rightarrow> ('s, 'b) step" where
  "sbind m f s = (case m s of (s', Inl e) \<Rightarrow> (s', Inl e) | (s', Inr x) \<Rightarrow> f x s')"

definition sreturn :: "'a \<Rightarrow> ('s, 'a) step" where
  "sreturn x s = (s, Inr x)"

definition slift :: "index_error + 'a \<Rightarrow> ('s, 'a) step" where
  "slift r s = (s, r)"

fun to_error :: "('e \<Rightarrow> index_error) \<Rightarrow> 'e + 'a \<Rightarrow> index_error + 'a" where
  "to_error f (Inl e) = Inl (f e)"
| "to_error f (Inr x) = Inr x"

definition log_call :: "call \<Rightarrow> ('f index_state, call list) step" where
  "log_call c s = (s\<lparr>ix_log := ix_log s @ [c]\<rparr>, Inr (ix_log s))"

definition cache_step :: "('f cache \<Rightarrow> cache_error + 'f cache) \<Rightarrow> ('f index_state, unit) step" where
  "cache_step f s = (case f (ix_cache s) of Inl e \<Rightarrow> (s, Inl (CacheError e)) | Inr ca \<Rightarrow> (s\<lparr>ix_cache := ca\<rparr>, Inr ()))"

primrec smap :: "('a \<Rightarrow> ('s, 'b) step) \<Rightarrow> 'a list \<Rightarrow> ('s, 'b list) step" where
  "smap f [] = sreturn []"
| "smap f (x # xs) = sbind (f x) (\<lambda>y. sbind (smap f xs) (\<lambda>ys. sreturn (y # ys)))"

subsection \<open>One table\<close>

definition profile_step :: "'f index_config \<Rightarrow> db_table \<Rightarrow> ('f index_state, string \<rightharpoonup> column_stats) step" where
  "profile_step cfg t =
     sbind (log_call (Profiled (tb_schema_name t) (tb_name t))) (\<lambda>h. slift (to_error ProfilerError (ic_profiler cfg h t)))"

definition enrich_step ::
  "'f index_config \<Rightarrow> db_table \<Rightarrow> (string \<rightharpoonup> column_stats) \<Rightarrow> ('f index_state, (string \<times> 'f column_description) list) step" where
  "enrich_step cfg t stats =
     (case ic_pipeline cfg of
        None \<Rightarrow> sreturn []
      | Some pipeline \<Rightarrow>
          sbind (log_call (Enriched (tb_schema_name t) (tb_name t))) (\<lambda>h. slift (to_error PipelineError (pipeline h t stats))))"

definition embed_step ::
  "'f index_config \<Rightarrow> db_table \<Rightarrow> (string \<times> 'f column_description) list \<Rightarrow> ('f index_state, (string \<times> 'f column_embedding) list) step" where
  "embed_step cfg t descs =
     (case ic_embedder cfg of
        None \<Rightarrow> sreturn []
      | Some embedder \<Rightarrow>
          smap (\<lambda>(c, d). sbind (log_call (Embedded (tb_schema_name t) (tb_name t) c))
                  (\<lambda>h. sbind (slift (to_error EmbedderError (embedder h (cd_text d)))) (\<lambda>e. sreturn (c, e)))) descs)"

definition new_fingerprints :: "db_table \<Rightarrow> (string \<rightharpoonup> column_stats) \<Rightarrow> (string \<times> string \<times> string) list" where
  "new_fingerprints t stats =
     map (\<lambda>c. (co_name c, column_structural_fingerprint c (fk_targets_for_column t (co_name c)),
               case column_semantic_fingerprint c (fk_targets_for_column t (co_name c)) (stats (co_name c)) PROMPT_VERSION of
                 Inl _ \<Rightarrow> [] | Inr h \<Rightarrow> h)) (tb_columns t)"

definition column_shapes :: "(string \<rightharpoonup> column_stats) \<Rightarrow> string \<Rightarrow> string list" where
  "column_shapes stats c = (case stats c of Some s \<Rightarrow> cs_shape_patterns s | None \<Rightarrow> [])"

definition classified :: "db_table \<Rightarrow> (string \<rightharpoonup> column_pii_tag)" where
  "classified t = map_of (map (\<lambda>c. (co_name c,
     classify_column (co_name c) (Some (co_data_type c)) (co_is_primary_key c) (Some (tb_name t)))) (tb_columns t))"

definition confidences :: "db_table \<Rightarrow> (string \<rightharpoonup> column_stats) \<Rightarrow> (string \<rightharpoonup> confidence_band option \<times> score option)" where
  "confidences t stats c =
     map_option (\<lambda>tag. classify_pii_confidence (snd tag) (column_shapes stats c)) (classified t c)"

definition tags_step :: "'f index_config \<Rightarrow> string \<Rightarrow> string \<Rightarrow> db_table \<Rightarrow> (string \<rightharpoonup> column_stats) \<Rightarrow> 'f cache \<Rightarrow> 'f cache" where
  "tags_step cfg schema name t stats =
     (let tbl = schema @ ''.'' @ name in
      if ic_no_pii_classify cfg then cache_write_tags (ic_source_id cfg) (ic_now cfg) tbl Map.empty Map.empty
      else cache_write_tags (ic_source_id cfg) (ic_now cfg) tbl (classified t) (confidences t stats))"

definition persist_step ::
  "'f index_config \<Rightarrow> string \<Rightarrow> string \<Rightarrow> db_table \<Rightarrow> (string \<rightharpoonup> column_stats) \<Rightarrow> int option
   \<Rightarrow> (string \<times> 'f column_description) list \<Rightarrow> (string \<times> 'f column_embedding) list \<Rightarrow> ('f index_state, unit) step" where
  "persist_step cfg schema name t stats row_count descs embs =
     sbind (cache_step (cache_write_table (ic_source_id cfg) (ic_now cfg) t row_count)) (\<lambda>_.
     sbind (cache_step (cache_write_fingerprints (ic_source_id cfg) (ic_now cfg) schema name (new_fingerprints t stats))) (\<lambda>_.
     sbind (if descs = [] then sreturn () else
            cache_step (write_table_descriptions (ic_source_id cfg) (ic_now cfg) schema name descs)) (\<lambda>_.
     sbind (if embs = [] then sreturn () else
            cache_step (write_table_embeddings (ic_isfinite cfg) (ic_source_id cfg) (ic_now cfg) schema name embs)) (\<lambda>_.
     cache_step (\<lambda>ca. Inr (tags_step cfg schema name t stats ca))))))"

definition index_table :: "'f index_config \<Rightarrow> string \<times> string \<Rightarrow> ('f index_state, table_outcome) step" where
  "index_table cfg = (\<lambda>(schema, name).
     sbind (slift (to_error SourceError (so_get_table (ic_source cfg) name schema))) (\<lambda>t s.
       (let new = new_structural t; cached = cached_structural (ca_store (ix_cache s)) (ic_source_id cfg) schema name in
        if table_unchanged new cached then (s, Inr Unchanged)
        else
          sbind (profile_step cfg t) (\<lambda>stats.
          sbind (enrich_step cfg t stats) (\<lambda>descs.
          sbind (embed_step cfg t descs) (\<lambda>embs.
          sbind (slift (to_error SourceError (so_row_count (ic_source cfg) name schema))) (\<lambda>row_count.
          sbind (persist_step cfg schema name t stats row_count descs embs) (\<lambda>_.
          sreturn (Changed (card (col_added new cached)) (card (col_changed new cached)) (card (col_removed new cached))
                     (length descs) (length embs))))))) s)))"

subsection \<open>The pass\<close>

text \<open>The tables of the cache that the source no longer has; the code iterates a set, in any order.\<close>

definition removed_tables :: "data_source \<Rightarrow> store \<Rightarrow> string \<Rightarrow> (string \<times> string) list" where
  "removed_tables source db src = filter (\<lambda>k. k \<notin> set (so_list_tables source)) (list_tables db (Some src))"

definition remove_table :: "'f index_config \<Rightarrow> string \<times> string \<Rightarrow> 'f cache \<Rightarrow> 'f cache" where
  "remove_table cfg = (\<lambda>(schema, name) ca.
     cache_write_tags (ic_source_id cfg) (ic_now cfg) (schema @ ''.'' @ name) Map.empty Map.empty
       (cache_delete_table (ic_source_id cfg) schema name ca))"

fun changed_count :: "table_outcome \<Rightarrow> nat" where
  "changed_count Unchanged = 0"
| "changed_count (Changed a c r d e) = 1"

fun outcome_counts :: "table_outcome \<Rightarrow> nat list" where
  "outcome_counts Unchanged = [0, 0, 0, 0, 0]"
| "outcome_counts (Changed a c r d e) = [a, c, r, d, e]"

definition summarise :: "table_outcome list \<Rightarrow> nat \<Rightarrow> index_result" where
  "summarise os removed =
     \<lparr>ir_tables_seen = length os,
      ir_tables_changed = sum_list (map changed_count os),
      ir_tables_unchanged = length (filter (\<lambda>x. x = Unchanged) os),
      ir_tables_removed = removed,
      ir_columns_added = sum_list (map (\<lambda>x. outcome_counts x ! 0) os),
      ir_columns_changed = sum_list (map (\<lambda>x. outcome_counts x ! 1) os),
      ir_columns_removed = sum_list (map (\<lambda>x. outcome_counts x ! 2) os),
      ir_descriptions_generated = sum_list (map (\<lambda>x. outcome_counts x ! 3) os),
      ir_embeddings_generated = sum_list (map (\<lambda>x. outcome_counts x ! 4) os)\<rparr>"

definition index :: "'f index_config \<Rightarrow> ('f index_state, index_result) step" where
  "index cfg s =
     (let removed = removed_tables (ic_source cfg) (ca_store (ix_cache s)) (ic_source_id cfg);
          s1 = s\<lparr>ix_cache := fold (remove_table cfg) removed (ix_cache s)\<rparr>
      in sbind (smap (index_table cfg) (so_list_tables (ic_source cfg))) (\<lambda>os. sreturn (summarise os (length removed))) s1)"

text \<open>The dry run reads the same diff and writes nothing.\<close>

definition dry_run_table :: "data_source \<Rightarrow> string \<Rightarrow> bool \<Rightarrow> bool \<Rightarrow> store \<Rightarrow> string \<times> string \<Rightarrow> index_error + table_outcome" where
  "dry_run_table source src will_enrich will_embed db = (\<lambda>(schema, name).
     rbind (to_error SourceError (so_get_table source name schema)) (\<lambda>t.
       (let new = new_structural t; cached = cached_structural db src schema name in
        if table_unchanged new cached then Inr Unchanged
        else Inr (Changed (card (col_added new cached)) (card (col_changed new cached)) (card (col_removed new cached))
               (if will_enrich then length (tb_columns t) else 0)
               (if will_enrich \<and> will_embed then length (tb_columns t) else 0)))))"

definition dry_run_index :: "data_source \<Rightarrow> string \<Rightarrow> bool \<Rightarrow> bool \<Rightarrow> store \<Rightarrow> index_error + index_result" where
  "dry_run_index source src will_enrich will_embed db =
     rbind (rtraverse (dry_run_table source src will_enrich will_embed db) (so_list_tables source)) (\<lambda>os.
     Inr (summarise os (length (removed_tables source db src))))"

subsection \<open>Following a pass\<close>

named_theorems step_simps "runs of the effectful computations"

lemma sbind_Inr [step_simps]: "sbind m f s = (s', Inr y) \<longleftrightarrow> (\<exists>s1 x. m s = (s1, Inr x) \<and> f x s1 = (s', Inr y))"
  by (auto simp: sbind_def split: prod.splits sum.splits)

lemma sbind_Inl [step_simps]:
  "sbind m f s = (s', Inl e) \<longleftrightarrow> m s = (s', Inl e) \<or> (\<exists>s1 x. m s = (s1, Inr x) \<and> f x s1 = (s', Inl e))"
  by (auto simp: sbind_def split: prod.splits sum.splits)

lemma sreturn_iff [step_simps]: "sreturn x s = (s', r) \<longleftrightarrow> s' = s \<and> r = Inr x"
  by (auto simp: sreturn_def)

lemma slift_iff [step_simps]: "slift r s = (s', r') \<longleftrightarrow> s' = s \<and> r = r'"
  by (auto simp: slift_def)

lemma log_call_iff [step_simps]: "log_call c s = (s', r) \<longleftrightarrow> s' = s\<lparr>ix_log := ix_log s @ [c]\<rparr> \<and> r = Inr (ix_log s)"
  by (auto simp: log_call_def)

lemma to_error_iff [step_simps]:
  "to_error f r = Inr x \<longleftrightarrow> r = Inr x" "to_error f r = Inl e \<longleftrightarrow> (\<exists>e'. r = Inl e' \<and> e = f e')"
  by (cases r; auto)+

lemma cache_step_Inr [step_simps]:
  "cache_step f s = (s', Inr u) \<longleftrightarrow> (\<exists>ca. f (ix_cache s) = Inr ca \<and> s' = s\<lparr>ix_cache := ca\<rparr>)"
  by (auto simp: cache_step_def split: sum.splits)

lemma cache_step_Inl [step_simps]:
  "cache_step f s = (s', Inl e) \<longleftrightarrow> (\<exists>e'. f (ix_cache s) = Inl e' \<and> s' = s \<and> e = CacheError e')"
  by (auto simp: cache_step_def split: sum.splits)

lemma smap_length: "smap f xs s = (s', Inr ys) \<Longrightarrow> length ys = length xs"
  by (induction xs arbitrary: s ys) (auto simp: step_simps)

lemma smap_ran: "smap f xs s = (s', Inr ys) \<Longrightarrow> x \<in> set xs \<Longrightarrow> \<exists>u v y. f x u = (v, Inr y)"
  by (induction xs arbitrary: s ys) (auto simp: step_simps)

lemma smap_keeps:
  assumes "\<And>x s s' r. f x s = (s', r) \<Longrightarrow> P s' = P s" "smap f xs s = (s', r)"
  shows "P s' = P s"
  using assms(2)
proof (induction xs arbitrary: s s' r)
  case (Cons x xs)
  show ?case
  proof (cases "f x s")
    case (Pair s1 r1)
    have 1: "P s1 = P s" using assms(1) Pair by blast
    show ?thesis
    proof (cases "smap f xs s1")
      case (Pair s2 r2)
      then have "P s2 = P s1" using Cons.IH by blast
      then show ?thesis using Cons.prems Pair \<open>f x s = (s1, r1)\<close> 1
        by (auto simp: sbind_def sreturn_def split: sum.splits)
    qed
  qed
qed (simp add: sreturn_def)

text \<open>Nothing before the writes touches the cache.\<close>

lemma profile_keeps: "profile_step cfg t s = (s', r) \<Longrightarrow> ix_cache s' = ix_cache s"
  by (auto simp: profile_step_def sbind_def slift_def log_call_def)

lemma enrich_keeps: "enrich_step cfg t stats s = (s', r) \<Longrightarrow> ix_cache s' = ix_cache s"
  by (auto simp: enrich_step_def sbind_def slift_def sreturn_def log_call_def split: option.splits)

lemma embed_keeps:
  assumes "embed_step cfg t ds s = (s', r)"
  shows "ix_cache s' = ix_cache s"
proof (cases "ic_embedder cfg")
  case None
  then show ?thesis using assms by (simp add: embed_step_def sreturn_def)
next
  case (Some embedder)
  let ?f = "\<lambda>(c, d). sbind (log_call (Embedded (tb_schema_name t) (tb_name t) c))
      (\<lambda>h. sbind (slift (to_error EmbedderError (embedder h (cd_text d)))) (\<lambda>e. sreturn (c, e)))"
  have "ix_cache s' = ix_cache s" if "?f x s = (s', r)" for x s s' r
    using that by (auto simp: sbind_def slift_def sreturn_def log_call_def split: prod.splits sum.splits)
  moreover have "smap ?f ds s = (s', r)" using assms Some by (simp add: embed_step_def)
  ultimately show ?thesis by (rule smap_keeps)
qed

lemma embed_length:
  "embed_step cfg t ds s = (s', Inr es) \<Longrightarrow> length es = (if ic_embedder cfg = None then 0 else length ds)"
  by (auto simp: embed_step_def step_simps split: option.splits dest: smap_length)

lemma persist_effect:
  assumes "persist_step cfg schema name t stats n ds es s = (s', Inr u)"
  obtains db where "write_table (ic_source_id cfg) (ic_now cfg) t n (ca_store (ix_cache s)) = Inr db"
    "write_table_fingerprints (ic_source_id cfg) (ic_now cfg) schema name (new_fingerprints t stats) db = Inr (ca_store (ix_cache s'))"
    "ix_log s' = ix_log s"
proof -
  have "\<exists>c1 c2 c4. cache_write_table (ic_source_id cfg) (ic_now cfg) t n (ix_cache s) = Inr c1 \<and>
    cache_write_fingerprints (ic_source_id cfg) (ic_now cfg) schema name (new_fingerprints t stats) c1 = Inr c2 \<and>
    ca_store c4 = ca_store c2 \<and> ix_cache s' = tags_step cfg schema name t stats c4 \<and> ix_log s' = ix_log s"
    using assms unfolding persist_step_def
    by (cases "ds = []"; cases "es = []"; simp add: step_simps)
      (metis write_table_descriptions_store write_table_embeddings_store index_state.select_convs(1,2)
        index_state.surjective index_state.update_convs(1))+
  then obtain c1 c2 c4 where w:
    "cache_write_table (ic_source_id cfg) (ic_now cfg) t n (ix_cache s) = Inr c1"
    "cache_write_fingerprints (ic_source_id cfg) (ic_now cfg) schema name (new_fingerprints t stats) c1 = Inr c2"
    "ca_store c4 = ca_store c2" "ix_cache s' = tags_step cfg schema name t stats c4" "ix_log s' = ix_log s" by blast
  moreover have "ca_store (tags_step cfg schema name t stats c4) = ca_store c4"
    by (simp add: tags_step_def Let_def cache_simps)
  ultimately show ?thesis
    using that cache_write_table_store [OF w(1)] cache_write_fingerprints_store [OF w(2)] by simp
qed

text \<open>The two ways a table can go: skipped without any effect, or written.\<close>

definition table_written ::
  "'f index_config \<Rightarrow> string \<Rightarrow> string \<Rightarrow> db_table \<Rightarrow> 'f index_state \<Rightarrow> 'f index_state \<Rightarrow> table_outcome \<Rightarrow> bool" where
  "table_written cfg schema name t s s' outcome \<longleftrightarrow>
     (\<exists>stats n db ds m.
        write_table (ic_source_id cfg) (ic_now cfg) t n (ca_store (ix_cache s)) = Inr db \<and>
        write_table_fingerprints (ic_source_id cfg) (ic_now cfg) schema name (new_fingerprints t stats) db = Inr (ca_store (ix_cache s')) \<and>
        (case ic_pipeline cfg of None \<Rightarrow> ds = [] | Some p \<Rightarrow> (\<exists>h. p h t stats = Inr ds)) \<and>
        m = (if ic_embedder cfg = None then 0 else length ds) \<and>
        (let new = new_structural t; cached = cached_structural (ca_store (ix_cache s)) (ic_source_id cfg) schema name in
         outcome = Changed (card (col_added new cached)) (card (col_changed new cached)) (card (col_removed new cached)) (length ds) m))"

lemma index_table_Inr:
  assumes "index_table cfg (schema, name) s = (s', Inr outcome)"
  obtains t where "so_get_table (ic_source cfg) name schema = Inr t"
    "if table_unchanged (new_structural t) (cached_structural (ca_store (ix_cache s)) (ic_source_id cfg) schema name)
     then s' = s \<and> outcome = Unchanged else table_written cfg schema name t s s' outcome"
proof -
  let ?cached = "cached_structural (ca_store (ix_cache s)) (ic_source_id cfg) schema name"
  from assms obtain t where t: "so_get_table (ic_source cfg) name schema = Inr t"
    by (auto simp: index_table_def step_simps)
  show thesis
  proof (cases "table_unchanged (new_structural t) ?cached")
    case True
    then show thesis using assms t that by (auto simp: index_table_def step_simps Let_def)
  next
    case False
    with assms t obtain s1 s2 s3 stats ds es n where
      p: "profile_step cfg t s = (s1, Inr stats)" and e: "enrich_step cfg t stats s1 = (s2, Inr ds)"
      and m: "embed_step cfg t ds s2 = (s3, Inr es)" and w: "persist_step cfg schema name t stats n ds es s3 = (s', Inr ())"
      and o: "outcome = Changed (card (col_added (new_structural t) ?cached)) (card (col_changed (new_structural t) ?cached))
        (card (col_removed (new_structural t) ?cached)) (length ds) (length es)"
      by (auto simp: index_table_def step_simps Let_def)
    have c: "ix_cache s3 = ix_cache s" using profile_keeps [OF p] enrich_keeps [OF e] embed_keeps [OF m] by simp
    have "case ic_pipeline cfg of None \<Rightarrow> ds = [] | Some p \<Rightarrow> (\<exists>h. p h t stats = Inr ds)"
      using e by (auto simp: enrich_step_def step_simps split: option.splits)
    moreover obtain db where "write_table (ic_source_id cfg) (ic_now cfg) t n (ca_store (ix_cache s)) = Inr db"
      "write_table_fingerprints (ic_source_id cfg) (ic_now cfg) schema name (new_fingerprints t stats) db = Inr (ca_store (ix_cache s'))"
      using persist_effect [OF w] c by metis
    ultimately have "table_written cfg schema name t s s' outcome"
      unfolding table_written_def Let_def o embed_length [OF m] by blast
    then show thesis using False t that by auto
  qed
qed

subsection \<open>What the cache knows of the source\<close>

text \<open>A source lists each table once and answers with the table it was asked for.\<close>

definition source_ok :: "data_source \<Rightarrow> bool" where
  "source_ok source \<longleftrightarrow> distinct (so_list_tables source) \<and>
     (\<forall>(s, n) \<in> set (so_list_tables source). \<forall>t. so_get_table source n s = Inr t \<longrightarrow>
        table_ok t \<and> tb_schema_name t = s \<and> tb_name t = n)"

lemma structural_of_new: "map (\<lambda>(c, st, m). (c, st)) (new_fingerprints t stats) = new_structural t"
  by (simp add: new_fingerprints_def new_structural_def)

lemma fst_ran: "fst ` set xs = dom (map_of xs)"
  by (simp add: dom_map_of_conv_image_fst)

lemma table_unchanged_iff: "table_unchanged new cached \<longleftrightarrow> map_of new = map_of cached"
proof
  assume u: "table_unchanged new cached"
  then have d: "dom (map_of new) = dom (map_of cached)"
    by (auto simp: table_unchanged_def col_added_def col_removed_def fst_ran)
  show "map_of new = map_of cached"
  proof
    fix c
    show "map_of new c = map_of cached c"
      using u d by (cases "c \<in> dom (map_of new)") (auto simp: table_unchanged_def col_changed_def fst_ran)
  qed
next
  assume "map_of new = map_of cached"
  then show "table_unchanged new cached"
    by (simp add: table_unchanged_def col_added_def col_removed_def col_changed_def fst_ran)
qed

definition cached_view :: "store \<Rightarrow> string \<Rightarrow> string \<times> string \<Rightarrow> (string \<rightharpoonup> string)" where
  "cached_view db src = (\<lambda>(s, n). map_of (cached_structural db src s n))"

definition source_view :: "data_source \<Rightarrow> string \<times> string \<Rightarrow> (string \<rightharpoonup> string)" where
  "source_view source = (\<lambda>(s, n).
     if (s, n) \<in> set (so_list_tables source)
     then (case so_get_table source n s of Inr t \<Rightarrow> map_of (new_structural t) | Inl _ \<Rightarrow> Map.empty)
     else Map.empty)"

lemma index_table_view:
  assumes "index_table cfg k s = (s', Inr outcome)" "source_ok (ic_source cfg)" "k \<in> set (so_list_tables (ic_source cfg))"
  shows "cached_view (ca_store (ix_cache s')) (ic_source_id cfg) =
    (cached_view (ca_store (ix_cache s)) (ic_source_id cfg)) (k := source_view (ic_source cfg) k)"
    "has_table (ca_store (ix_cache s')) (a, b, ic_source_id cfg) \<Longrightarrow>
      has_table (ca_store (ix_cache s)) (a, b, ic_source_id cfg) \<or> (a, b) = k"
proof -
  obtain schema name where k: "k = (schema, name)" by force
  obtain t where t: "so_get_table (ic_source cfg) name schema = Inr t" and
    cases: "if table_unchanged (new_structural t) (cached_structural (ca_store (ix_cache s)) (ic_source_id cfg) schema name)
     then s' = s \<and> outcome = Unchanged else table_written cfg schema name t s s' outcome"
    using index_table_Inr assms(1) k by metis
  have names: "tb_schema_name t = schema" "tb_name t = name" using assms(2,3) t k by (auto simp: source_ok_def)
  have sv: "source_view (ic_source cfg) k = map_of (new_structural t)" using assms(3) t k by (simp add: source_view_def)
  have both: "cached_view (ca_store (ix_cache s')) (ic_source_id cfg) (a, b) =
      ((cached_view (ca_store (ix_cache s)) (ic_source_id cfg)) (k := source_view (ic_source cfg) k)) (a, b)
    \<and> (has_table (ca_store (ix_cache s')) (a, b, ic_source_id cfg) \<longrightarrow>
      has_table (ca_store (ix_cache s)) (a, b, ic_source_id cfg) \<or> (a, b) = k)" for a b
  proof (cases "table_unchanged (new_structural t) (cached_structural (ca_store (ix_cache s)) (ic_source_id cfg) schema name)")
    case True
    then show ?thesis using cases sv k by (auto simp: table_unchanged_iff cached_view_def)
  next
    case False
    then obtain stats n db where w: "write_table (ic_source_id cfg) (ic_now cfg) t n (ca_store (ix_cache s)) = Inr db"
      "write_table_fingerprints (ic_source_id cfg) (ic_now cfg) schema name (new_fingerprints t stats) db = Inr (ca_store (ix_cache s'))"
      using cases by (auto simp: table_written_def Let_def)
    show ?thesis
      using write_fingerprints_get [OF w(2), of a b] write_table_fingerprints_other [OF w(1), of a b "ic_source_id cfg"]
        has_table_write [OF w(1)] has_table_fingerprints [OF w(2)] sv k names
      by (auto simp: cached_view_def cached_structural_def structural_of_new)
  qed
  show "cached_view (ca_store (ix_cache s')) (ic_source_id cfg) =
    (cached_view (ca_store (ix_cache s)) (ic_source_id cfg)) (k := source_view (ic_source cfg) k)"
    by (rule ext) (use both in auto)
  show "has_table (ca_store (ix_cache s')) (a, b, ic_source_id cfg) \<Longrightarrow>
      has_table (ca_store (ix_cache s)) (a, b, ic_source_id cfg) \<or> (a, b) = k"
    using both by blast
qed

lemma index_tables_view:
  assumes "smap (index_table cfg) ks s = (s', Inr os)" "source_ok (ic_source cfg)" "set ks \<subseteq> set (so_list_tables (ic_source cfg))"
  shows "cached_view (ca_store (ix_cache s')) (ic_source_id cfg) =
    (\<lambda>k. if k \<in> set ks then source_view (ic_source cfg) k else cached_view (ca_store (ix_cache s)) (ic_source_id cfg) k)"
    "has_table (ca_store (ix_cache s')) (a, b, ic_source_id cfg) \<Longrightarrow>
      has_table (ca_store (ix_cache s)) (a, b, ic_source_id cfg) \<or> (a, b) \<in> set ks"
  using assms(1,3)
proof (induction ks arbitrary: s os)
  case (Cons k ks)
  {
    case 1
    then obtain s1 o1 os' where 2: "index_table cfg k s = (s1, Inr o1)" "smap (index_table cfg) ks s1 = (s', Inr os')"
      by (auto simp: step_simps)
    show ?case using Cons.IH(1) [OF 2(2)] 1(2) index_table_view(1) [OF 2(1) assms(2)] by (auto simp: fun_eq_iff)
  next
    case 2
    then obtain s1 o1 os' where 3: "index_table cfg k s = (s1, Inr o1)" "smap (index_table cfg) ks s1 = (s', Inr os')"
      by (auto simp: step_simps)
    show ?case using Cons.IH(2) [OF 2(1) 3(2)] 2(3) index_table_view(2) [OF 3(1) assms(2), of a b] by auto
  }
qed (auto simp: step_simps)

subsection \<open>Removing the tables that are gone\<close>

definition delete_keys :: "string \<Rightarrow> (string \<times> string) list \<Rightarrow> store \<Rightarrow> store" where
  "delete_keys src ks db = fold (\<lambda>(s, n). delete_table src s n) ks db"

lemma remove_tables_store:
  "ca_store (fold (remove_table cfg) ks ca) = delete_keys (ic_source_id cfg) ks (ca_store ca)"
  unfolding delete_keys_def by (induction ks arbitrary: ca) (auto simp: remove_table_def cache_simps)

lemma no_table_no_view: "refs_ok db \<Longrightarrow> \<not> has_table db (s, n, src) \<Longrightarrow> cached_view db src (s, n) = Map.empty"
  by (auto simp: refs_ok_def cached_view_def cached_structural_def get_table_fingerprints_def filter_empty_conv)

lemma delete_table_view:
  assumes "refs_ok db"
  shows "refs_ok (delete_table src s n db)"
    "cached_view (delete_table src s n db) src = (cached_view db src) ((s, n) := Map.empty)"
proof -
  show r: "refs_ok (delete_table src s n db)"
    using refs_ok_cascade_table [OF assms] by (simp add: delete_table_def)
  show "cached_view (delete_table src s n db) src = (cached_view db src) ((s, n) := Map.empty)"
  proof (rule ext)
    fix k :: "string \<times> string"
    obtain a b where k: "k = (a, b)" by force
    show "cached_view (delete_table src s n db) src k = ((cached_view db src) ((s, n) := Map.empty)) k"
    proof (cases "k = (s, n)")
      case True
      then show ?thesis using no_table_no_view [OF r, of s n src] k has_table_delete [of src s n db] by simp
    next
      case False
      then show ?thesis using cascade_fingerprints [of a b src "(s, n, src)" db] k
        by (auto simp: cached_view_def cached_structural_def delete_table_def)
    qed
  qed
qed

lemma delete_keys_view:
  assumes "refs_ok db"
  shows "refs_ok (delete_keys src ks db)"
    "cached_view (delete_keys src ks db) src = (\<lambda>k. if k \<in> set ks then Map.empty else cached_view db src k)"
    "has_table (delete_keys src ks db) (a, b, src) \<longleftrightarrow> has_table db (a, b, src) \<and> (a, b) \<notin> set ks"
  using assms
proof (induction ks arbitrary: db)
  case (Cons k ks)
  obtain s n where k: "k = (s, n)" by force
  have d: "delete_keys src (k # ks) db = delete_keys src ks (delete_table src s n db)" for db
    by (simp add: delete_keys_def k)
  {
    case 1
    show ?case unfolding d by (rule Cons.IH(1) [OF delete_table_view(1) [OF 1]])
  next
    case 2
    show ?case unfolding d Cons.IH(2) [OF delete_table_view(1) [OF 2]] delete_table_view(2) [OF 2] by (rule ext) (simp add: k)
  next
    case 3
    show ?case unfolding d Cons.IH(3) [OF delete_table_view(1) [OF 3]] has_table_delete using k by auto
  }
qed (auto simp: delete_keys_def)

lemma removed_tables_set:
  "(s, n) \<in> set (removed_tables source db src) \<longleftrightarrow> has_table db (s, n, src) \<and> (s, n) \<notin> set (so_list_tables source)"
  by (auto simp: removed_tables_def list_tables_iff)

text \<open>A successful pass, in its three phases.\<close>

lemma index_Inr:
  assumes "index cfg s = (s', Inr r)"
  obtains s1 os where "ca_store (ix_cache s1) = delete_keys (ic_source_id cfg)
      (removed_tables (ic_source cfg) (ca_store (ix_cache s)) (ic_source_id cfg)) (ca_store (ix_cache s))"
    "smap (index_table cfg) (so_list_tables (ic_source cfg)) s1 = (s', Inr os)"
    "r = summarise os (length (removed_tables (ic_source cfg) (ca_store (ix_cache s)) (ic_source_id cfg)))"
    "ix_log s1 = ix_log s"
  using assms that [of "s\<lparr>ix_cache := fold (remove_table cfg) (removed_tables (ic_source cfg) (ca_store (ix_cache s)) (ic_source_id cfg)) (ix_cache s)\<rparr>"]
  by (auto simp: index_def Let_def step_simps remove_tables_store)

lemma index_view:
  assumes "index cfg s = (s', Inr r)" "source_ok (ic_source cfg)" "refs_ok (ca_store (ix_cache s))"
  shows "cached_view (ca_store (ix_cache s')) (ic_source_id cfg) = source_view (ic_source cfg)"
    "removed_tables (ic_source cfg) (ca_store (ix_cache s')) (ic_source_id cfg) = []"
proof -
  let ?gone = "removed_tables (ic_source cfg) (ca_store (ix_cache s)) (ic_source_id cfg)"
  obtain s1 os where s1: "ca_store (ix_cache s1) = delete_keys (ic_source_id cfg) ?gone (ca_store (ix_cache s))"
    and t: "smap (index_table cfg) (so_list_tables (ic_source cfg)) s1 = (s', Inr os)"
    using index_Inr [OF assms(1)] by metis
  note tables = index_tables_view [OF t assms(2) subset_refl]
  note gone = delete_keys_view [OF assms(3), of "ic_source_id cfg" ?gone, folded s1]
  show "cached_view (ca_store (ix_cache s')) (ic_source_id cfg) = source_view (ic_source cfg)"
  proof (rule ext)
    fix k :: "string \<times> string"
    obtain a b where k: "k = (a, b)" by force
    show "cached_view (ca_store (ix_cache s')) (ic_source_id cfg) k = source_view (ic_source cfg) k"
    proof (cases "k \<in> set (so_list_tables (ic_source cfg))")
      case True
      then show ?thesis using tables(1) by simp
    next
      case False
      then have "\<not> has_table (ca_store (ix_cache s1)) (a, b, ic_source_id cfg)"
        using gone(3) removed_tables_set k by blast
      then show ?thesis
        using False k no_table_no_view [OF gone(1)] tables(1) by (simp add: source_view_def)
    qed
  qed
  have "\<not> (a, b) \<in> set (removed_tables (ic_source cfg) (ca_store (ix_cache s')) (ic_source_id cfg))" for a b
    using tables(2) [of a b] gone(3) removed_tables_set by blast
  then show "removed_tables (ic_source cfg) (ca_store (ix_cache s')) (ic_source_id cfg) = []"
    by (metis prod.exhaust list.set_intros(1) neq_Nil_conv)
qed

text \<open>C27: Indexing refines its specification. Seen as the map from each table to its columns'
  structural fingerprints, the cache after a successful pass is exactly that map of the source:
  every listed table with its current columns, and nothing of a table the source no longer has,
  whatever the cache held before and whatever the profiler, the pipeline and the embedder answered.\<close>

theorem index_refines_source:
  assumes "source_ok (ic_source cfg)" "store_ok ast_parse (ca_store (ix_cache s))" "index cfg s = (s', Inr r)"
  shows "cached_view (ca_store (ix_cache s')) (ic_source_id cfg) = source_view (ic_source cfg)"
  using index_view(1) [OF assms(3,1)] assms(2) by (simp add: store_ok_def)

lemma smap_all:
  assumes "\<And>x. x \<in> set xs \<Longrightarrow> f x s = (s, Inr y)"
  shows "smap f xs s = (s, Inr (replicate (length xs) y))"
  using assms by (induction xs) (auto simp: sreturn_def sbind_def)

lemma index_settled:
  assumes "source_ok (ic_source cfg)" "cached_view (ca_store (ix_cache s)) (ic_source_id cfg) = source_view (ic_source cfg)"
    "removed_tables (ic_source cfg) (ca_store (ix_cache s)) (ic_source_id cfg) = []"
    "\<forall>(a, b) \<in> set (so_list_tables (ic_source cfg)). \<exists>t. so_get_table (ic_source cfg) b a = Inr t"
  shows "index cfg s = (s, Inr (summarise (replicate (length (so_list_tables (ic_source cfg))) Unchanged) 0))"
proof -
  have "index_table cfg k s = (s, Inr Unchanged)" if k: "k \<in> set (so_list_tables (ic_source cfg))" for k
  proof -
    obtain a b t where t: "k = (a, b)" "so_get_table (ic_source cfg) b a = Inr t" using k assms(4) by (cases k) auto
    then have "map_of (cached_structural (ca_store (ix_cache s)) (ic_source_id cfg) a b) = map_of (new_structural t)"
      using fun_cong [OF assms(2), of k] k by (simp add: cached_view_def source_view_def)
    then show ?thesis using t by (simp add: index_table_def sbind_def slift_def table_unchanged_iff Let_def)
  qed
  then have "smap (index_table cfg) (so_list_tables (ic_source cfg)) s
      = (s, Inr (replicate (length (so_list_tables (ic_source cfg))) Unchanged))"
    by (rule smap_all)
  then show ?thesis using assms(3) by (simp add: index_def sbind_def sreturn_def)
qed

text \<open>C28: Re-indexing an unchanged source is free. After a successful pass, a second pass over the same
  source, with any profiler, pipeline and embedder, succeeds, calls none of them and leaves the cache
  exactly as it was; it reports every table as unchanged and nothing added, changed or removed.\<close>

theorem reindex_is_free:
  assumes "source_ok (ic_source cfg)" "store_ok ast_parse (ca_store (ix_cache s))" "index cfg s = (s', Inr r)"
    "ic_source cfg' = ic_source cfg" "ic_source_id cfg' = ic_source_id cfg"
  shows "index cfg' s' = (s', Inr \<lparr>ir_tables_seen = length (so_list_tables (ic_source cfg)), ir_tables_changed = 0,
    ir_tables_unchanged = length (so_list_tables (ic_source cfg)), ir_tables_removed = 0, ir_columns_added = 0,
    ir_columns_changed = 0, ir_columns_removed = 0, ir_descriptions_generated = 0, ir_embeddings_generated = 0\<rparr>)"
proof -
  have ok: "refs_ok (ca_store (ix_cache s))" using assms(2) by (simp add: store_ok_def)
  have "\<exists>t. so_get_table (ic_source cfg) b a = Inr t" if "(a, b) \<in> set (so_list_tables (ic_source cfg))" for a b
  proof -
    obtain s1 os where "smap (index_table cfg) (so_list_tables (ic_source cfg)) s1 = (s', Inr os)"
      using index_Inr [OF assms(3)] by metis
    from smap_ran [OF this that] obtain u v y where "index_table cfg (a, b) u = (v, Inr y)" by blast
    then show ?thesis using index_table_Inr by metis
  qed
  then have "index cfg' s' = (s', Inr (summarise (replicate (length (so_list_tables (ic_source cfg))) Unchanged) 0))"
    using index_settled [of cfg' s'] index_view [OF assms(3,1) ok] assms(1,4,5) by auto
  then show ?thesis by (simp add: summarise_def sum_list_replicate map_replicate_const)
qed

subsection \<open>The dry run\<close>

text \<open>The pipeline answers with one description per column.\<close>

definition describes_all :: "'f index_config \<Rightarrow> bool" where
  "describes_all cfg \<longleftrightarrow>
     (\<forall>p h t stats ds. ic_pipeline cfg = Some p \<longrightarrow> p h t stats = Inr ds \<longrightarrow> length ds = length (tb_columns t))"

lemma diff_cong:
  assumes "map_of cached = map_of cached'"
  shows "col_added new cached = col_added new cached'" "col_removed new cached = col_removed new cached'"
    "col_changed new cached = col_changed new cached'" "table_unchanged new cached = table_unchanged new cached'"
  using assms by (simp_all add: col_added_def col_removed_def col_changed_def fst_ran table_unchanged_iff)

lemma dry_run_one:
  assumes "index_table cfg k s = (s', Inr outcome)" "describes_all cfg"
    "cached_view (ca_store (ix_cache s)) (ic_source_id cfg) k = cached_view db (ic_source_id cfg) k"
  shows "dry_run_table (ic_source cfg) (ic_source_id cfg) (ic_pipeline cfg \<noteq> None) (ic_embedder cfg \<noteq> None) db k = Inr outcome"
proof -
  obtain a b where k: "k = (a, b)" by force
  obtain t where t: "so_get_table (ic_source cfg) b a = Inr t" and
    c: "if table_unchanged (new_structural t) (cached_structural (ca_store (ix_cache s)) (ic_source_id cfg) a b)
     then s' = s \<and> outcome = Unchanged else table_written cfg a b t s s' outcome"
    using index_table_Inr assms(1) k by metis
  have v: "map_of (cached_structural (ca_store (ix_cache s)) (ic_source_id cfg) a b) = map_of (cached_structural db (ic_source_id cfg) a b)"
    using assms(3) k by (simp add: cached_view_def)
  have "length ds = (if ic_pipeline cfg \<noteq> None then length (tb_columns t) else 0)"
    if "case ic_pipeline cfg of None \<Rightarrow> ds = [] | Some p \<Rightarrow> (\<exists>h. p h t stats = Inr ds)" for ds stats
    using that assms(2) by (auto simp: describes_all_def split: option.splits)
  then show ?thesis
    using c t k diff_cong [OF v] by (auto simp: dry_run_table_def table_written_def Let_def split: if_splits)
qed

lemma dry_run_all:
  assumes "smap (index_table cfg) ks s = (s', Inr os)" "describes_all cfg" "source_ok (ic_source cfg)"
    "set ks \<subseteq> set (so_list_tables (ic_source cfg))" "distinct ks"
    "\<forall>k \<in> set ks. cached_view (ca_store (ix_cache s)) (ic_source_id cfg) k = cached_view db (ic_source_id cfg) k"
  shows "rtraverse (dry_run_table (ic_source cfg) (ic_source_id cfg) (ic_pipeline cfg \<noteq> None) (ic_embedder cfg \<noteq> None) db) ks = Inr os"
  using assms(1,4-6)
proof (induction ks arbitrary: s os)
  case (Cons k ks)
  then obtain s1 o1 os' where s1: "index_table cfg k s = (s1, Inr o1)" "smap (index_table cfg) ks s1 = (s', Inr os')" "os = o1 # os'"
    by (auto simp: step_simps)
  have "\<forall>k' \<in> set ks. cached_view (ca_store (ix_cache s1)) (ic_source_id cfg) k' = cached_view db (ic_source_id cfg) k'"
    using index_table_view(1) [OF s1(1) assms(3)] Cons.prems(2-4) by auto
  then show ?case
    using Cons.IH [OF s1(2)] Cons.prems dry_run_one [OF s1(1) assms(2)] s1(3) by (simp add: result_simps)
qed (auto simp: step_simps)

text \<open>The dry run predicts the run. Before a pass that succeeds, the dry run with the same flags
  reports exactly the counts the pass will report: tables seen, changed, unchanged and removed, columns
  added, changed and removed, and, with a pipeline that describes every column, the descriptions and
  embeddings generated.\<close>

theorem dry_run_predicts:
  assumes "source_ok (ic_source cfg)" "store_ok ast_parse (ca_store (ix_cache s))" "describes_all cfg"
    "index cfg s = (s', Inr r)"
  shows "dry_run_index (ic_source cfg) (ic_source_id cfg) (ic_pipeline cfg \<noteq> None) (ic_embedder cfg \<noteq> None) (ca_store (ix_cache s)) = Inr r"
proof -
  let ?gone = "removed_tables (ic_source cfg) (ca_store (ix_cache s)) (ic_source_id cfg)"
  obtain s1 os where s1: "ca_store (ix_cache s1) = delete_keys (ic_source_id cfg) ?gone (ca_store (ix_cache s))"
    and t: "smap (index_table cfg) (so_list_tables (ic_source cfg)) s1 = (s', Inr os)" and r: "r = summarise os (length ?gone)"
    using index_Inr [OF assms(4)] by metis
  have "refs_ok (ca_store (ix_cache s))" using assms(2) by (simp add: store_ok_def)
  note gone = delete_keys_view(2) [OF this, of "ic_source_id cfg" ?gone, folded s1]
  have "k \<notin> set ?gone" if "k \<in> set (so_list_tables (ic_source cfg))" for k
    using that by (auto simp: removed_tables_def)
  then have "\<forall>k \<in> set (so_list_tables (ic_source cfg)). cached_view (ca_store (ix_cache s1)) (ic_source_id cfg) k
      = cached_view (ca_store (ix_cache s)) (ic_source_id cfg) k"
    using gone by simp
  then show ?thesis
    using dry_run_all [OF t assms(3,1) subset_refl] assms(1) r by (simp add: dry_run_index_def source_ok_def)
qed

subsection \<open>A pass that stops\<close>

lemma smap_Inl:
  assumes "smap f xs s = (s', Inl e)"
  shows "\<exists>ys x zs s1 os. xs = ys @ x # zs \<and> smap f ys s = (s1, Inr os) \<and> f x s1 = (s', Inl e)"
  using assms
proof (induction xs arbitrary: s)
  case (Cons x xs)
  then consider "f x s = (s', Inl e)" | s1 y where "f x s = (s1, Inr y)" "smap f xs s1 = (s', Inl e)"
    by (auto simp: step_simps)
  then show ?case
  proof cases
    case 1
    then show ?thesis by (intro exI [of _ "[]"] exI [of _ x] exI [of _ xs] exI [of _ s] exI [of _ "[]"]) (simp add: sreturn_def)
  next
    case 2
    from Cons.IH [OF 2(2)] obtain ys x' zs s2 os where "xs = ys @ x' # zs" "smap f ys s1 = (s2, Inr os)" "f x' s2 = (s', Inl e)"
      by blast
    then show ?thesis using 2(1)
      by (intro exI [of _ "x # ys"] exI [of _ x'] exI [of _ zs] exI [of _ s2] exI [of _ "y # os"]) (simp add: sbind_def sreturn_def)
  qed
qed (simp add: sreturn_def)

lemma index_table_Inl:
  assumes "index_table cfg (schema, name) s = (s', Inl e)" "\<And>c. e \<noteq> CacheError c"
  shows "ix_cache s' = ix_cache s \<and>
    (\<forall>t. so_get_table (ic_source cfg) name schema = Inr t \<longrightarrow>
      \<not> table_unchanged (new_structural t) (cached_structural (ca_store (ix_cache s)) (ic_source_id cfg) schema name))"
proof (cases "so_get_table (ic_source cfg) name schema")
  case (Inl m)
  then show ?thesis using assms(1) by (auto simp: index_table_def step_simps)
next
  case (Inr t)
  let ?cached = "cached_structural (ca_store (ix_cache s)) (ic_source_id cfg) schema name"
  have ch: "\<not> table_unchanged (new_structural t) ?cached"
    using assms(1) Inr by (auto simp: index_table_def step_simps Let_def)
  have p: "persist_step cfg schema name t stats n ds es u \<noteq> (s', Inl e)" for stats n ds es u
    using assms(2) by (auto simp: persist_step_def step_simps split: if_splits)
  have "\<exists>s1 s2 s3 r1 r2 r3 stats ds. profile_step cfg t s = (s1, r1) \<and> (s' = s1 \<or> (enrich_step cfg t stats s1 = (s2, r2) \<and>
      (s' = s2 \<or> (embed_step cfg t ds s2 = (s3, r3) \<and> s' = s3))))"
    using assms(1) Inr ch p by (auto simp: index_table_def step_simps Let_def)
  then show ?thesis using profile_keeps enrich_keeps embed_keeps ch Inr by (metis Inr_inject)
qed

text \<open>A failure before the writes costs nothing but the work. When the source, the profiler, the
  pipeline (its cost cap included) or the embedder raises, the pass has fully processed the tables
  before the one it stopped at, has persisted nothing of that one, and that one still counts as
  changed, so that the next run retries it.\<close>

theorem failed_pass_retries:
  assumes "index cfg s = (s', Inl e)" "\<And>c. e \<noteq> CacheError c"
  shows "\<exists>before k after s1 os. so_list_tables (ic_source cfg) = before @ k # after \<and>
    smap (index_table cfg) before (s\<lparr>ix_cache := fold (remove_table cfg)
      (removed_tables (ic_source cfg) (ca_store (ix_cache s)) (ic_source_id cfg)) (ix_cache s)\<rparr>) = (s1, Inr os) \<and>
    ix_cache s' = ix_cache s1 \<and>
    (\<forall>t. so_get_table (ic_source cfg) (snd k) (fst k) = Inr t \<longrightarrow> \<not> table_unchanged (new_structural t)
       (cached_structural (ca_store (ix_cache s')) (ic_source_id cfg) (fst k) (snd k)))"
proof -
  have "smap (index_table cfg) (so_list_tables (ic_source cfg)) (s\<lparr>ix_cache := fold (remove_table cfg)
      (removed_tables (ic_source cfg) (ca_store (ix_cache s)) (ic_source_id cfg)) (ix_cache s)\<rparr>) = (s', Inl e)" (is "smap _ _ ?s0 = _")
    using assms(1) by (auto simp: index_def Let_def step_simps)
  from smap_Inl [OF this] obtain ys k zs s1 os where k: "so_list_tables (ic_source cfg) = ys @ k # zs"
    "smap (index_table cfg) ys ?s0 = (s1, Inr os)" "index_table cfg (fst k, snd k) s1 = (s', Inl e)" by auto
  show ?thesis
    using index_table_Inl [OF k(3) assms(2)] k(1,2)
    by (intro exI [of _ ys] exI [of _ k] exI [of _ zs] exI [of _ s1] exI [of _ os]) simp
qed

subsection \<open>A concrete pass\<close>

definition demo_source :: data_source where
  "demo_source = \<lparr>so_list_tables = [(''public'', ''users'')], so_get_table = (\<lambda>n s. Inr demo_users), so_row_count = (\<lambda>n s. Inr (Some 7))\<rparr>"

definition demo_config :: "int index_config" where
  "demo_config = \<lparr>ic_source = demo_source, ic_profiler = (\<lambda>h t. Inr Map.empty),
     ic_pipeline = Some (\<lambda>h t stats. Inr (map (\<lambda>c. (co_name c, \<lparr>cd_text = ''a column'', cd_model = ''m'', cd_prompt_version = PROMPT_VERSION,
       cd_input_tokens = 1, cd_cached_input_tokens = 0, cd_output_tokens = 1, cd_cost_usd = 0\<rparr>)) (tb_columns t))),
     ic_embedder = Some (\<lambda>h s. Inr \<lparr>ce_vector = [1], ce_model = ''e'', ce_dimension = 1\<rparr>), ic_isfinite = (\<lambda>_. True),
     ic_no_pii_classify = False, ic_source_id = ''db'', ic_now = 0\<rparr>"

definition demo_index_state :: "int index_state" where
  "demo_index_state = \<lparr>ix_cache = \<lparr>ca_store = empty_store, ca_descriptions = [], ca_embeddings = [], ca_tags = Map.empty\<rparr>, ix_log = []\<rparr>"

lemma demo_source_ok: "source_ok (ic_source demo_config)"
  by (simp add: source_ok_def demo_config_def demo_source_def demo_users_def table_ok_iff)

lemma demo_store_start: "store_ok no_parse (ca_store (ix_cache demo_index_state))"
  using store_reach_ok [OF store_reach.fresh] by (simp add: demo_index_state_def)

lemma demo_pass: "\<exists>r. snd (index demo_config demo_index_state) = Inr r"
  by (simp add: index_def demo_config_def demo_source_def demo_index_state_def removed_tables_def list_tables_def empty_store_def
      index_table_def sbind_def slift_def sreturn_def cached_structural_def get_table_fingerprints_def table_unchanged_iff
      new_structural_def demo_users_def profile_step_def enrich_step_def embed_step_def log_call_def persist_step_def cache_step_def
      cache_write_table_def write_table_def cascade_table_def has_table_def has_key_def insert_rows_def column_rows_def
      foreign_key_rows_def column_key_def column_parent_def table_key_def Let_def
      cache_write_fingerprints_def write_table_fingerprints_def new_fingerprints_def fp_key_def fp_parent_def delete_rows_def
      write_table_descriptions_def write_table_embeddings_def first_non_finite_def dr_key_def ev_key_def drop_enrichment_def fun_eq_iff)

lemma demo_pass_pair:
  obtains r where "index demo_config demo_index_state = (fst (index demo_config demo_index_state), Inr r)"
  using demo_pass by (metis prod.collapse)

lemma demo_config_fields: "ic_source demo_config = demo_source" "ic_source_id demo_config = ''db''"
  "ca_store (ix_cache demo_index_state) = empty_store" "ic_pipeline demo_config \<noteq> None" "ic_embedder demo_config \<noteq> None"
  by (simp_all add: demo_config_def demo_index_state_def)

theorem index_refines_source_witness:
  "cached_view (ca_store (ix_cache (fst (index demo_config demo_index_state)))) ''db'' = source_view demo_source"
proof -
  obtain r where r: "index demo_config demo_index_state = (fst (index demo_config demo_index_state), Inr r)" by (rule demo_pass_pair)
  show ?thesis using index_refines_source [OF demo_source_ok demo_store_start r] by (simp add: demo_config_fields)
qed

theorem reindex_is_free_witness:
  "index demo_config (fst (index demo_config demo_index_state)) = (fst (index demo_config demo_index_state),
    Inr \<lparr>ir_tables_seen = 1, ir_tables_changed = 0, ir_tables_unchanged = 1, ir_tables_removed = 0, ir_columns_added = 0,
      ir_columns_changed = 0, ir_columns_removed = 0, ir_descriptions_generated = 0, ir_embeddings_generated = 0\<rparr>)"
proof -
  obtain r where r: "index demo_config demo_index_state = (fst (index demo_config demo_index_state), Inr r)" by (rule demo_pass_pair)
  show ?thesis using reindex_is_free [OF demo_source_ok demo_store_start r refl refl]
    by (simp add: demo_config_fields demo_source_def)
qed

theorem dry_run_predicts_witness:
  "dry_run_index demo_source ''db'' True True empty_store = snd (index demo_config demo_index_state)"
proof -
  obtain r where r: "index demo_config demo_index_state = (fst (index demo_config demo_index_state), Inr r)" by (rule demo_pass_pair)
  have "describes_all demo_config" by (auto simp: describes_all_def demo_config_def)
  from dry_run_predicts [OF demo_source_ok demo_store_start this r] show ?thesis
    unfolding arg_cong [OF r, of snd, simplified] by (simp add: demo_config_fields)
qed

theorem failed_pass_retries_witness:
  "let cfg = demo_config\<lparr>ic_pipeline := Some (\<lambda>h t stats. Inl ''cost cap'')\<rparr>
   in snd (index cfg demo_index_state) = Inl (PipelineError ''cost cap'') \<and>
      ca_store (ix_cache (fst (index cfg demo_index_state))) = empty_store"
proof -
  let ?cfg = "demo_config\<lparr>ic_pipeline := Some (\<lambda>h t stats. Inl ''cost cap'')\<rparr>"
  have e: "snd (index ?cfg demo_index_state) = Inl (PipelineError ''cost cap'')"
    by (simp add: index_def demo_config_def demo_source_def demo_index_state_def removed_tables_def list_tables_def empty_store_def
      index_table_def sbind_def slift_def sreturn_def cached_structural_def get_table_fingerprints_def table_unchanged_def
      col_added_def new_structural_def demo_users_def profile_step_def enrich_step_def log_call_def Let_def)
  then have "index ?cfg demo_index_state = (fst (index ?cfg demo_index_state), Inl (PipelineError ''cost cap''))"
    by (metis prod.collapse)
  from failed_pass_retries [OF this] obtain ys k zs s1 os where k: "so_list_tables demo_source = ys @ k # zs"
    "smap (index_table ?cfg) ys (demo_index_state\<lparr>ix_cache := fold (remove_table ?cfg)
      (removed_tables demo_source empty_store ''db'') (ix_cache demo_index_state)\<rparr>) = (s1, Inr os)"
    "ix_cache (fst (index ?cfg demo_index_state)) = ix_cache s1"
    by (simp add: demo_config_fields) (auto simp: demo_config_def demo_index_state_def)
  have "ys = []" using k(1) by (cases ys) (auto simp: demo_source_def)
  moreover have "removed_tables demo_source empty_store ''db'' = []"
    by (simp add: removed_tables_def list_tables_def empty_store_def)
  ultimately show ?thesis using e k(2,3) by (simp add: sreturn_def demo_config_fields)
qed

end
