(* ===== verification/MetricResolve.thy ===== *)
theory MetricResolve
  imports JoinGraph SchemaModels
begin

section \<open>The metric resolver (semantic/compiler/resolve.py)\<close>

text \<open>
  \<open>resolve_metric_plan\<close> turns a request into a plan. What it reads of the store is a record of four
  lookups, each of which may raise; \<open>None\<close> is a missing row. The state that the code's closures share is the
  dictionary of joins resolved so far, an association list in insertion order. The graph and the column
  sets are recomputed where the code caches them, and the set of consumed via names, which the code
  never reads, is left out.
\<close>

record catalog =
  cg_metric :: "string \<Rightarrow> compile_error + metric option"
  cg_entity :: "string \<Rightarrow> compile_error + entity option"
  cg_joins :: "compile_error + canonical_join list"
  cg_table :: "string \<Rightarrow> string \<Rightarrow> compile_error + db_table option"

record 'v metric_request =
  mq_metric_name :: string
  mq_group_by :: "string list"
  mq_filters :: "'v requested_filter list"
  mq_time_grain :: "time_grain option"
  mq_time_dimension :: "string option"
  mq_limit :: int
  mq_via :: "string list"
  mq_order_by :: "requested_order_by list"

type_synonym joins_so_far = "(string \<times> resolved_join) list"

subsection \<open>Lookups and checks\<close>

definition MAX_METRIC_NAME_ECHO :: nat where
  "MAX_METRIC_NAME_ECHO = 200"

definition echo_name :: "string \<Rightarrow> string" where
  "echo_name n = (if py_len n \<le> MAX_METRIC_NAME_ECHO then n else py_take MAX_METRIC_NAME_ECHO n @ ''...'')"

definition lookup_anchor_table :: "catalog \<Rightarrow> string \<Rightarrow> compile_error + string" where
  "lookup_anchor_table cat e =
     rbind (cg_entity cat e) (\<lambda>row. case row of None \<Rightarrow> Inl (StoreCorruption e) | Some en \<Rightarrow> Inr (en_qualified_table en))"

definition lookup_optional_table :: "catalog \<Rightarrow> string \<Rightarrow> compile_error + string option" where
  "lookup_optional_table cat e = rbind (cg_entity cat e) (\<lambda>row. Inr (map_option en_qualified_table row))"

definition columns_on :: "catalog \<Rightarrow> string \<Rightarrow> compile_error + string set" where
  "columns_on cat qualified =
     (case split1 CHR ''.'' qualified of
        (s, None) \<Rightarrow> Inl StoreRead
      | (s, Some t) \<Rightarrow>
          rbind (cg_table cat s t) (\<lambda>row. case row of
             None \<Rightarrow> Inl (StoreCorruption qualified)
           | Some tb \<Rightarrow> Inr (co_name ` set (tb_columns tb))))"

fun unknown_column :: "column_kind \<Rightarrow> string \<Rightarrow> string \<Rightarrow> string list \<Rightarrow> compile_error" where
  "unknown_column K_Group_By e c cs = UnknownGroupByColumn e c cs"
| "unknown_column K_Filter e c cs = UnknownFilterColumn e c cs"
| "unknown_column K_Measure e c cs = UnknownMeasureColumn e c cs"

definition validate_column :: "catalog \<Rightarrow> string \<Rightarrow> string \<Rightarrow> string \<Rightarrow> column_kind \<Rightarrow> compile_error + unit" where
  "validate_column cat e c qualified kind =
     rbind (columns_on cat qualified) (\<lambda>cols.
     rcheck (c \<in> cols) (unknown_column kind e c (sorted_list_of_set cols)))"

definition check_time_grain :: "metric \<Rightarrow> time_grain option \<Rightarrow> compile_error + unit" where
  "check_time_grain m grain =
     (case grain of
        None \<Rightarrow> Inr ()
      | Some g \<Rightarrow> if mt_time_grains m = [] then Inl (InvalidTimeGrain g [])
                  else if g \<notin> set (mt_time_grains m) then Inl (InvalidTimeGrain g (mt_time_grains m))
                  else Inr ())"

definition unary_op :: "operator \<Rightarrow> bool" where
  "unary_op p \<longleftrightarrow> p = Op_Is_Null \<or> p = Op_Not_Null"

definition list_op :: "operator \<Rightarrow> bool" where
  "list_op p \<longleftrightarrow> p = Op_In \<or> p = Op_Not_In"

definition check_operator_value :: "operator \<Rightarrow> 'v filter_value \<Rightarrow> nat \<Rightarrow> compile_error + unit" where
  "check_operator_value p v i =
     (if unary_op p then (if v \<noteq> V_None then Inl (MalformedColumn (Unary_With_Value i p)) else Inr ())
      else if list_op p then
        (case v of
           V_List xs \<Rightarrow> if xs = [] then Inl (MalformedColumn (Empty_List i p)) else Inr ()
         | _ \<Rightarrow> Inl (MalformedColumn (List_Expected i p)))
      else (case v of
              V_None \<Rightarrow> Inl (MalformedColumn (Null_Scalar i p))
            | V_List xs \<Rightarrow> Inl (MalformedColumn (List_For_Scalar i p))
            | V_Scalar x \<Rightarrow> Inr ()))"

definition filter_param :: "nat \<Rightarrow> string" where
  "filter_param i = ''p_filter_'' @ dec_of_nat i"

definition param_names_for :: "operator \<Rightarrow> nat \<Rightarrow> 'v filter_value \<Rightarrow> string list" where
  "param_names_for p i v =
     (if unary_op p then []
      else if list_op p then
        map (\<lambda>j. filter_param i @ ''_'' @ dec_of_nat j) [0..<(case v of V_List xs \<Rightarrow> length xs | _ \<Rightarrow> 0)]
      else [filter_param i])"

definition alias_for :: "string \<Rightarrow> string" where
  "alias_for e = e"

subsection \<open>Joins along a chain\<close>

definition effective_cardinality :: "chain_edge \<Rightarrow> cardinality option" where
  "effective_cardinality c =
     (if ce_reverse c then flip_cardinality (cj_cardinality (ce_join c)) else cj_cardinality (ce_join c))"

definition add_hop :: "catalog \<Rightarrow> string \<Rightarrow> string \<times> chain_edge \<Rightarrow> joins_so_far \<Rightarrow> compile_error + joins_so_far" where
  "add_hop cat anchor = (\<lambda>(predecessor, edge) js.
     (let target = ce_target_entity edge in
      if target \<in> set (map fst js) then Inr js
      else rbind (lookup_anchor_table cat target) (\<lambda>target_table.
           case (if predecessor = anchor then Some (alias_for anchor) else map_option rj_target_alias (map_of js predecessor)) of
             None \<Rightarrow> Inl CompilerInvariant
           | Some source_alias \<Rightarrow>
               Inr (js @ [(target, \<lparr>rj_canonical_name = cj_name (ce_join edge), rj_source_alias = source_alias,
                  rj_target_entity = target, rj_target_table = target_table, rj_target_alias = alias_for target,
                  rj_on_pairs = ce_on_pairs edge, rj_cardinality = effective_cardinality edge\<rparr>)]))))"

primrec add_hops :: "catalog \<Rightarrow> string \<Rightarrow> (string \<times> chain_edge) list \<Rightarrow> joins_so_far \<Rightarrow> compile_error + joins_so_far" where
  "add_hops cat anchor [] js = Inr js"
| "add_hops cat anchor (h # hs) js = rbind (add_hop cat anchor h js) (add_hops cat anchor hs)"

definition get_graph :: "catalog \<Rightarrow> compile_error + join_graph" where
  "get_graph cat = rbind (cg_joins cat) (\<lambda>js. Inr (build_join_graph js))"

definition joined_column :: "catalog \<Rightarrow> string \<Rightarrow> string \<Rightarrow> column_kind \<Rightarrow> joins_so_far \<Rightarrow> compile_error + resolved_column \<times> joins_so_far" where
  "joined_column cat e c kind js =
     (case map_of js e of
        None \<Rightarrow> Inl CompilerInvariant
      | Some j \<Rightarrow> rbind (validate_column cat e c (rj_target_table j) kind) (\<lambda>_.
           Inr (\<lparr>rc_entity = e, rc_column = c, rc_qualified_table = rj_target_table j, rc_alias = rj_target_alias j\<rparr>, js)))"

definition resolve_column ::
  "catalog \<Rightarrow> string \<Rightarrow> string \<Rightarrow> string set \<Rightarrow> string \<Rightarrow> column_kind \<Rightarrow> joins_so_far \<Rightarrow> compile_error + resolved_column \<times> joins_so_far" where
  "resolve_column cat anchor anchor_table via ref kind js =
     (case match_qualified ref of
        None \<Rightarrow> Inl (MalformedColumn (Bad_Shape kind ref))
      | Some (e, c) \<Rightarrow>
          if e = anchor then
            rbind (validate_column cat e c anchor_table kind) (\<lambda>_.
            Inr (\<lparr>rc_entity = e, rc_column = c, rc_qualified_table = anchor_table, rc_alias = alias_for anchor\<rparr>, js))
          else if e \<in> set (map fst js) then joined_column cat e c kind js
          else
            rbind (get_graph cat) (\<lambda>g.
            rbind (lookup_optional_table cat e) (\<lambda>known.
            if known = None then Inl (UnknownColumn kind ref e)
            else
              rbind (find_canonical_chain g anchor e via) (\<lambda>(chain, used).
              rbind (add_hops cat anchor chain js) (joined_column cat e c kind)))))"

subsection \<open>Group columns and filters\<close>

type_synonym group_columns = "((string \<times> string) \<times> resolved_column) list"

text \<open>\<^verbatim>\<open>dict.setdefault\<close>: the first occurrence stays.\<close>

definition setdefault :: "resolved_column \<Rightarrow> group_columns \<Rightarrow> group_columns" where
  "setdefault c gs = (if (rc_entity c, rc_column c) \<in> set (map fst gs) then gs else gs @ [((rc_entity c, rc_column c), c)])"

primrec resolve_group_by ::
  "catalog \<Rightarrow> string \<Rightarrow> string \<Rightarrow> string set \<Rightarrow> string list \<Rightarrow> group_columns \<Rightarrow> joins_so_far \<Rightarrow> compile_error + group_columns \<times> joins_so_far" where
  "resolve_group_by cat anchor tbl via [] gs js = Inr (gs, js)"
| "resolve_group_by cat anchor tbl via (ref # refs) gs js =
     rbind (resolve_column cat anchor tbl via ref K_Group_By js) (\<lambda>(c, js').
     resolve_group_by cat anchor tbl via refs (setdefault c gs) js')"

primrec resolve_filters ::
  "catalog \<Rightarrow> string \<Rightarrow> string \<Rightarrow> string set \<Rightarrow> nat \<Rightarrow> 'v requested_filter list \<Rightarrow> joins_so_far \<Rightarrow> compile_error + 'v resolved_predicate list \<times> joins_so_far" where
  "resolve_filters cat anchor tbl via i [] js = Inr ([], js)"
| "resolve_filters cat anchor tbl via i (f # fs) js =
     rbind (resolve_column cat anchor tbl via (rf_column f) K_Filter js) (\<lambda>(c, js').
     rbind (check_operator_value (rf_op f) (rf_value f) i) (\<lambda>_.
     rbind (resolve_filters cat anchor tbl via (Suc i) fs js') (\<lambda>(ps, js'').
     Inr (\<lparr>rp_column = c, rp_op = rf_op f, rp_param_names = param_names_for (rf_op f) i (rf_value f), rp_value = rf_value f\<rparr> # ps, js''))))"

subsection \<open>Order\<close>

definition group_alias :: "nat \<Rightarrow> string" where
  "group_alias i = ''group_col_'' @ dec_of_nat i"

definition column_request :: "resolved_column \<Rightarrow> string" where
  "column_request c = rc_entity c @ ''.'' @ rc_column c"

text \<open>The dictionary from what may be requested to its alias, as its assignments in order; a later
  assignment to the same key wins.\<close>

definition alias_by_request :: "metric \<Rightarrow> resolved_column list \<Rightarrow> (string \<times> string) list" where
  "alias_by_request m cols = (mt_name m, mt_name m) # zip (map column_request cols) (map group_alias [0..<length cols])"

definition alias_of :: "metric \<Rightarrow> resolved_column list \<Rightarrow> string \<Rightarrow> string option" where
  "alias_of m cols r = map_of (rev (alias_by_request m cols)) r"

primrec resolve_order ::
  "metric \<Rightarrow> resolved_column list \<Rightarrow> requested_order_by list \<Rightarrow> resolved_order_by list \<Rightarrow> compile_error + resolved_order_by list" where
  "resolve_order m cols [] acc = Inr acc"
| "resolve_order m cols (r # rs) acc =
     (case alias_of m cols (ro_column r) of
        None \<Rightarrow> Inl (UnknownOrderByColumn (ro_column r) (rev (remdups (rev (map fst (alias_by_request m cols))))))
      | Some a \<Rightarrow>
          if a \<in> set (map rb_expression acc) then resolve_order m cols rs acc
          else resolve_order m cols rs (acc @ [\<lparr>rb_expression = a, rb_direction = ro_direction r, rb_auto_tie_break = False\<rparr>]))"

definition default_order :: "resolved_column list \<Rightarrow> requested_order_by list \<Rightarrow> requested_order_by list" where
  "default_order cols order =
     (if order = [] \<and> cols \<noteq> [] then map (\<lambda>c. \<lparr>ro_column = column_request c, ro_direction = Asc\<rparr>) cols else order)"

definition add_tie_break :: "resolved_column list \<Rightarrow> resolved_order_by list \<Rightarrow> resolved_order_by list" where
  "add_tie_break cols os =
     (if os = [] then os
      else (case filter (\<lambda>a. a \<notin> set (map rb_expression os)) (map group_alias [0..<length cols]) of
              [] \<Rightarrow> os
            | a # as \<Rightarrow> os @ [\<lparr>rb_expression = a, rb_direction = Asc, rb_auto_tie_break = True\<rparr>]))"

definition order_clauses :: "metric \<Rightarrow> resolved_column list \<Rightarrow> requested_order_by list \<Rightarrow> compile_error + resolved_order_by list" where
  "order_clauses m cols order =
     rbind (resolve_order m cols (default_order cols order) []) (\<lambda>os. Inr (add_tie_break cols os))"

subsection \<open>The inherited time dimension\<close>

definition TIMESTAMP_DATA_TYPE_KEYWORDS :: "string list" where
  "TIMESTAMP_DATA_TYPE_KEYWORDS = [''timestamp'', ''datetime'', ''date'']"

definition is_timestamp_type :: "string \<Rightarrow> bool" where
  "is_timestamp_type ty = list_ex (\<lambda>w. has_substring w (lower_str ty)) TIMESTAMP_DATA_TYPE_KEYWORDS"

type_synonym candidate = "string \<times> string list"

definition keeps_row_count :: "cardinality option \<Rightarrow> bool" where
  "keeps_row_count c \<longleftrightarrow> c = Some Many_To_One \<or> c = Some One_To_One"

definition direction_cardinality :: "string \<Rightarrow> canonical_join \<Rightarrow> cardinality option" where
  "direction_cardinality current j =
     (if cj_source_entity j = current then cj_cardinality j else flip_cardinality (cj_cardinality j))"

text \<open>The timestamp columns of a reached entity; a missing row ends the inspection without an error.\<close>

definition timestamp_candidates :: "catalog \<Rightarrow> string \<Rightarrow> string list \<Rightarrow> compile_error + candidate list" where
  "timestamp_candidates cat neighbor path =
     rbind (cg_entity cat neighbor) (\<lambda>row. case row of
       None \<Rightarrow> Inr []
     | Some en \<Rightarrow>
         (case split1 CHR ''.'' (en_qualified_table en) of
            (s, None) \<Rightarrow> Inl StoreRead
          | (s, Some t) \<Rightarrow>
              rbind (cg_table cat s t) (\<lambda>trow. case trow of
                None \<Rightarrow> Inr []
              | Some tb \<Rightarrow> Inr (map (\<lambda>c. (neighbor @ ''.'' @ co_name c, path))
                             (filter (\<lambda>c. is_timestamp_type (co_data_type c)) (tb_columns tb))))))"

text \<open>The inner loop over the edges of one entity: what it adds to \<^verbatim>\<open>visited\<close> and the frontier, and the
  candidates it finds.\<close>

primrec scan_edges ::
  "catalog \<Rightarrow> string \<Rightarrow> string list \<Rightarrow> string set \<Rightarrow> graph_entry list \<Rightarrow> compile_error + (string \<times> string list) list \<times> candidate list" where
  "scan_edges cat current path visited [] = Inr ([], [])"
| "scan_edges cat current path visited (e # es) =
     (if ge_neighbor e \<in> visited \<or> \<not> keeps_row_count (direction_cardinality current (ge_join e))
      then scan_edges cat current path visited es
      else (let new_path = path @ [cj_name (ge_join e)] in
            rbind (timestamp_candidates cat (ge_neighbor e) new_path) (\<lambda>found.
            rbind (scan_edges cat current path (insert (ge_neighbor e) visited) es) (\<lambda>(new, cands).
            Inr ((ge_neighbor e, new_path) # new, found @ cands)))))"

lemma scan_edges_new:
  "scan_edges cat current path visited es = Inr (new, cands) \<Longrightarrow>
     distinct (map fst new) \<and> set (map fst new) \<subseteq> ge_neighbor ` set es - visited"
proof (induction es arbitrary: visited new cands)
  case (Cons e es)
  show ?case
  proof (cases "ge_neighbor e \<in> visited \<or> \<not> keeps_row_count (direction_cardinality current (ge_join e))")
    case True
    then show ?thesis using Cons.IH [of visited new cands] Cons.prems by auto
  next
    case False
    then obtain new' found cands' where n: "scan_edges cat current path (insert (ge_neighbor e) visited) es = Inr (new', cands')"
      "new = (ge_neighbor e, path @ [cj_name (ge_join e)]) # new'"
      using Cons.prems by (auto simp: result_simps Let_def)
    then show ?thesis using Cons.IH [OF n(1)] False by auto
  qed
qed simp

definition graph_nodes :: "join_graph \<Rightarrow> string set" where
  "graph_nodes g = (\<Union>(k, es) \<in> set g. ge_neighbor ` set es)"

lemma finite_graph_nodes: "finite (graph_nodes g)"
  by (auto simp: graph_nodes_def)

lemma graph_get_nodes: "ge_neighbor ` set (graph_get g k) \<subseteq> graph_nodes g"
proof (cases "map_of g k")
  case (Some es)
  then show ?thesis using map_of_SomeD [OF Some] by (auto simp: graph_get_def graph_nodes_def)
qed (simp add: graph_get_def)

text \<open>The queue holds each reached entity with the join names that led to it. Every entity enters it at
  most once, which is why the loop ends.\<close>

function inherit_loop ::
  "catalog \<Rightarrow> join_graph \<Rightarrow> string set \<Rightarrow> (string \<times> string list) list \<Rightarrow> candidate list \<Rightarrow> compile_error + candidate list" where
  "inherit_loop cat g visited [] cands = Inr cands"
| "inherit_loop cat g visited ((current, path) # frontier) cands =
     (case scan_edges cat current path visited (graph_get g current) of
        Inl e \<Rightarrow> Inl e
      | Inr (new, found) \<Rightarrow> inherit_loop cat g (visited \<union> set (map fst new)) (frontier @ new) (cands @ found))"
  by pat_completeness auto
termination
proof (relation "measure (\<lambda>(cat, g, visited, frontier, cands). 2 * card (graph_nodes g - visited) + length frontier)")
  fix cat g visited current path frontier cands x new found
  assume "scan_edges cat current path visited (graph_get g current) = Inr x" "(new, found) = x"
  then have n: "distinct (map fst new)" "set (map fst new) \<subseteq> graph_nodes g - visited"
    using scan_edges_new graph_get_nodes [of g current] by blast+
  let ?m = "set (map fst new)"
  have "card (graph_nodes g - (visited \<union> ?m)) = card (graph_nodes g - visited) - card ?m"
    using n(2) card_Diff_subset [of ?m "graph_nodes g - visited"] by (simp add: Diff_eq Int_assoc)
  moreover have "card ?m = length new" using n(1) by (metis distinct_card length_map)
  moreover have "card ?m \<le> card (graph_nodes g - visited)" using n(2) finite_graph_nodes by (intro card_mono) auto
  ultimately show "((cat, g, visited \<union> ?m, frontier @ new, cands @ found), (cat, g, visited, (current, path) # frontier, cands))
      \<in> measure (\<lambda>(cat, g, visited, frontier, cands). 2 * card (graph_nodes g - visited) + length frontier)"
    by simp
qed simp

definition find_inherited_time_dimension :: "catalog \<Rightarrow> join_graph \<Rightarrow> string \<Rightarrow> compile_error + candidate list" where
  "find_inherited_time_dimension cat g anchor = inherit_loop cat g {anchor} [(anchor, [])] []"

record time_choice =
  tc_resolution :: time_resolution
  tc_inherited :: "string option"
  tc_via :: "string list"
  tc_bucket :: "time_grain option"

definition narrow :: "string option \<Rightarrow> candidate list \<Rightarrow> candidate list" where
  "narrow wanted cands =
     (case wanted of
        None \<Rightarrow> cands
      | Some d \<Rightarrow> (case filter (\<lambda>c. fst c = d) cands of [c] \<Rightarrow> [c] | _ \<Rightarrow> cands))"

definition resolve_time ::
  "catalog \<Rightarrow> metric \<Rightarrow> string \<Rightarrow> string set \<Rightarrow> time_grain option \<Rightarrow> string option \<Rightarrow> joins_so_far \<Rightarrow> compile_error + time_choice \<times> joins_so_far" where
  "resolve_time cat m tbl via grain wanted js =
     (if mt_time_dimension m = None \<and> grain \<noteq> None then
        rbind (get_graph cat) (\<lambda>g.
        rbind (find_inherited_time_dimension cat g (mt_entity m)) (\<lambda>cands.
        case narrow wanted cands of
          [] \<Rightarrow> Inr (\<lparr>tc_resolution = T_Unavailable, tc_inherited = None, tc_via = [], tc_bucket = None\<rparr>, js)
        | [(d, path)] \<Rightarrow>
            rbind (resolve_column cat (mt_entity m) tbl via d K_Group_By js) (\<lambda>(c, js').
            Inr (\<lparr>tc_resolution = T_Inherited, tc_inherited = Some d, tc_via = path, tc_bucket = grain\<rparr>, js'))
        | c # d # ds \<Rightarrow> Inl (AmbiguousTimeDimension (mt_entity m) (c # d # ds))))
      else Inr (\<lparr>tc_resolution = T_Local, tc_inherited = None, tc_via = [], tc_bucket = grain\<rparr>, js))"

subsection \<open>The plan\<close>

definition validate_measure :: "(string \<Rightarrow> string + py_expr) \<Rightarrow> catalog \<Rightarrow> metric \<Rightarrow> string \<Rightarrow> compile_error + unit list" where
  "validate_measure ast_parse cat m tbl =
     (case measure_columns ast_parse (mt_measure m) of
        Inl e \<Rightarrow> Inl (MeasureError e)
      | Inr cols \<Rightarrow> rtraverse (\<lambda>c. validate_column cat (mt_entity m) c tbl K_Measure) (sorted_list_of_set cols))"

definition resolve_metric_plan :: "(string \<Rightarrow> string + py_expr) \<Rightarrow> catalog \<Rightarrow> 'v metric_request \<Rightarrow> compile_error + 'v metric_plan" where
  "resolve_metric_plan ast_parse cat q =
     rbind (cg_metric cat (mq_metric_name q)) (\<lambda>row. case row of
       None \<Rightarrow> Inl (UnknownMetric (echo_name (mq_metric_name q)))
     | Some m \<Rightarrow>
         rbind (if mt_time_dimension m = None then Inr () else check_time_grain m (mq_time_grain q)) (\<lambda>_.
         rbind (lookup_anchor_table cat (mt_entity m)) (\<lambda>tbl.
         rbind (validate_measure ast_parse cat m tbl) (\<lambda>_.
         rbind (resolve_group_by cat (mt_entity m) tbl (set (mq_via q)) (mq_group_by q) [] []) (\<lambda>(gs, js).
         rbind (resolve_filters cat (mt_entity m) tbl (set (mq_via q)) 0 (mq_filters q) js) (\<lambda>(ps, js).
         rbind (order_clauses m (map snd gs) (mq_order_by q)) (\<lambda>os.
         rbind (resolve_time cat m tbl (set (mq_via q)) (mq_time_grain q) (mq_time_dimension q) js) (\<lambda>(tc, js).
         Inr \<lparr>mp_metric = m, mp_anchor_table = tbl, mp_anchor_alias = alias_for (mt_entity m), mp_group_by = map snd gs,
              mp_time_bucket = tc_bucket tc, mp_predicates = ps, mp_limit = mq_limit q, mp_joins = map snd js, mp_order_by = os,
              mp_time_resolution = tc_resolution tc, mp_inherited_time_dimension = tc_inherited tc, mp_inherited_via = tc_via tc\<rparr>))))))))"

end
