(* ===== verification/PlanInvariant.thy ===== *)
theory PlanInvariant
  imports MetricResolve
begin

section \<open>What the resolver may rely on, and what it guarantees\<close>

text \<open>
  The contract between the compiler and its catalog is the locale \<open>metric_catalog\<close>: reads do not raise
  and references have their targets. Under it the resolver fails only with an error that blames the
  request, and a plan it returns is well formed: its joins are stored joins in topological order with
  fresh aliases, and every column it uses exists on the table that its alias stands for. The proofs
  follow the resolver with \<open>rspec\<close>, a postcondition on results.
\<close>

subsection \<open>Postconditions\<close>

fun request_error :: "compile_error \<Rightarrow> bool" where
  "request_error (StoreCorruption e) = False"
| "request_error StoreRead = False"
| "request_error CompilerInvariant = False"
| "request_error (MeasureError e) = False"
| "request_error (AmbiguousJoin a b names) = (names \<noteq> [])"
| "request_error _ = True"

definition rspec :: "('a \<Rightarrow> bool) \<Rightarrow> compile_error + 'a \<Rightarrow> bool" where
  "rspec P r \<longleftrightarrow> (case r of Inl e \<Rightarrow> request_error e | Inr x \<Rightarrow> P x)"

named_theorems rspec_intros "postconditions of the resolver's parts"

lemma rspec_Inr [simp]: "rspec P (Inr x) = P x"
  by (simp add: rspec_def)

lemma rspec_Inl [simp]: "rspec P (Inl e) = request_error e"
  by (simp add: rspec_def)

lemma rspec_bind: "rspec Q m \<Longrightarrow> (\<And>x. Q x \<Longrightarrow> rspec P (f x)) \<Longrightarrow> rspec P (rbind m f)"
  by (cases m) auto

lemma rspec_mono: "rspec Q m \<Longrightarrow> (\<And>x. Q x \<Longrightarrow> P x) \<Longrightarrow> rspec P m"
  by (cases m) auto

lemma rspec_known: "m = Inr x \<Longrightarrow> P x \<Longrightarrow> rspec P m"
  by simp

lemma rspec_check: "request_error e \<Longrightarrow> (ok \<Longrightarrow> P ()) \<Longrightarrow> rspec P (rcheck ok e)"
  by (simp add: rcheck_def)

subsection \<open>Topological order\<close>

primrec topo :: "string set \<Rightarrow> resolved_join list \<Rightarrow> bool" where
  "topo known [] = True"
| "topo known (j # js) =
     (rj_source_alias j \<in> known \<and> rj_target_alias j \<notin> known \<and> topo (insert (rj_target_alias j) known) js)"

lemma topo_snoc:
  "topo known (js @ [j]) \<longleftrightarrow> topo known js \<and> rj_source_alias j \<in> known \<union> rj_target_alias ` set js
     \<and> rj_target_alias j \<notin> known \<union> rj_target_alias ` set js"
  by (induction js arbitrary: known) auto

subsection \<open>The catalog's contract\<close>

definition joins_along :: "canonical_join \<Rightarrow> resolved_join \<Rightarrow> bool" where
  "joins_along c j \<longleftrightarrow> rj_canonical_name j = cj_name c \<and>
     ((rj_source_alias j = cj_source_entity c \<and> rj_target_entity j = cj_target_entity c
        \<and> rj_on_pairs j = cj_on c \<and> rj_cardinality j = cj_cardinality c)
    \<or> (rj_source_alias j = cj_target_entity c \<and> rj_target_entity j = cj_source_entity c
        \<and> rj_on_pairs j = map swap_pair (cj_on c) \<and> rj_cardinality j = flip_cardinality (cj_cardinality c)))"

definition table_of :: "catalog \<Rightarrow> string \<Rightarrow> string \<Rightarrow> bool" where
  "table_of cat e q \<longleftrightarrow> (\<exists>en. cg_entity cat e = Inr (Some en) \<and> en_qualified_table en = q)"

definition joins_inv :: "catalog \<Rightarrow> string \<Rightarrow> joins_so_far \<Rightarrow> bool" where
  "joins_inv cat anchor js \<longleftrightarrow> topo {anchor} (map snd js) \<and>
     (\<forall>(e, j) \<in> set js. rj_target_entity j = e \<and> rj_target_alias j = e \<and> table_of cat e (rj_target_table j)
        \<and> (\<exists>cs c. cg_joins cat = Inr cs \<and> c \<in> set cs \<and> joins_along c j))"

definition column_ok :: "catalog \<Rightarrow> string \<Rightarrow> joins_so_far \<Rightarrow> resolved_column \<Rightarrow> bool" where
  "column_ok cat anchor js c \<longleftrightarrow> rc_entity c \<in> insert anchor (fst ` set js) \<and> rc_alias c = rc_entity c
     \<and> table_of cat (rc_entity c) (rc_qualified_table c) \<and> is_ident (rc_column c)
     \<and> (\<exists>cols. columns_on cat (rc_qualified_table c) = Inr cols \<and> rc_column c \<in> cols)"

lemma column_ok_mono: "column_ok cat anchor js c \<Longrightarrow> fst ` set js \<subseteq> fst ` set js' \<Longrightarrow> column_ok cat anchor js' c"
  by (auto simp: column_ok_def)

lemma column_ok_scope: "column_ok cat anchor js c \<Longrightarrow> rc_entity c \<in> insert anchor (fst ` set js)"
  by (simp add: column_ok_def)

lemma joins_inv_aliases: "joins_inv cat anchor js \<Longrightarrow> rj_target_alias ` set (map snd js) = fst ` set js"
  unfolding joins_inv_def by (force simp: image_iff)

lemma joins_inv_snoc:
  assumes "joins_inv cat anchor js" "rj_source_alias j \<in> insert anchor (fst ` set js)" "e \<notin> insert anchor (fst ` set js)"
    "rj_target_entity j = e" "rj_target_alias j = e" "table_of cat e (rj_target_table j)"
    "cg_joins cat = Inr cs" "c \<in> set cs" "joins_along c j"
  shows "joins_inv cat anchor (js @ [(e, j)])"
  using assms joins_inv_aliases [OF assms(1)] by (auto simp: joins_inv_def topo_snoc)

primrec predicates_ok :: "catalog \<Rightarrow> string \<Rightarrow> joins_so_far \<Rightarrow> nat \<Rightarrow> 'v resolved_predicate list \<Rightarrow> bool" where
  "predicates_ok cat anchor js n [] = True"
| "predicates_ok cat anchor js n (p # ps) =
     (column_ok cat anchor js (rp_column p) \<and> rp_param_names p = param_names_for (rp_op p) n (rp_value p)
      \<and> check_operator_value (rp_op p) (rp_value p) n = Inr () \<and> predicates_ok cat anchor js (Suc n) ps)"

lemma predicates_ok_mono:
  "predicates_ok cat anchor js n ps \<Longrightarrow> fst ` set js \<subseteq> fst ` set js' \<Longrightarrow> predicates_ok cat anchor js' n ps"
  by (induction ps arbitrary: n) (auto intro: column_ok_mono)

text \<open>What an \<^verbatim>\<open>ORDER BY\<close> may name: the measure's alias and those of the group columns, each at most once.\<close>

definition order_ok :: "metric \<Rightarrow> resolved_column list \<Rightarrow> resolved_order_by list \<Rightarrow> bool" where
  "order_ok m cols os \<longleftrightarrow> distinct (map rb_expression os) \<and>
     rb_expression ` set os \<subseteq> insert (mt_name m) (group_alias ` {0..<length cols})"

definition time_ok :: "'v metric_plan \<Rightarrow> bool" where
  "time_ok p \<longleftrightarrow> (mp_time_bucket p = None \<or>
     (case mp_inherited_time_dimension p of
        Some d \<Rightarrow> (\<exists>e c. match_qualified d = Some (e, c) \<and> e \<in> insert (mp_anchor_alias p) (rj_target_alias ` set (mp_joins p)))
      | None \<Rightarrow> mt_time_dimension (mp_metric p) \<noteq> None))"

text \<open>A well-formed plan for a request.\<close>

definition plan_ok :: "(string \<Rightarrow> string + py_expr) \<Rightarrow> catalog \<Rightarrow> 'v metric_request \<Rightarrow> 'v metric_plan \<Rightarrow> bool" where
  "plan_ok ast_parse cat q p \<longleftrightarrow>
     cg_metric cat (mq_metric_name q) = Inr (Some (mp_metric p)) \<and> metric_ok ast_parse (mp_metric p) \<and>
     mp_anchor_alias p = mt_entity (mp_metric p) \<and> table_of cat (mt_entity (mp_metric p)) (mp_anchor_table p) \<and>
     (\<exists>js. joins_inv cat (mp_anchor_alias p) js \<and> mp_joins p = map snd js \<and>
        (\<forall>c \<in> set (mp_group_by p). column_ok cat (mp_anchor_alias p) js c) \<and>
        predicates_ok cat (mp_anchor_alias p) js 0 (mp_predicates p)) \<and>
     distinct (map (\<lambda>c. (rc_entity c, rc_column c)) (mp_group_by p)) \<and>
     Some ` (\<lambda>c. (rc_entity c, rc_column c)) ` set (mp_group_by p) = match_qualified ` set (mq_group_by q) \<and>
     list_all2 (\<lambda>f r. match_qualified (rf_column f) = Some (rc_entity (rp_column r), rc_column (rp_column r))
        \<and> rp_op r = rf_op f \<and> rp_value r = rf_value f) (mq_filters q) (mp_predicates p) \<and>
     order_ok (mp_metric p) (mp_group_by p) (mp_order_by p) \<and> time_ok p \<and> mp_limit p = mq_limit q"

subsection \<open>Order clauses\<close>

lemma alias_of_range: "alias_of m cols r = Some a \<Longrightarrow> a \<in> insert (mt_name m) (group_alias ` {0..<length cols})"
  unfolding alias_of_def
  by (drule map_of_SomeD) (auto simp: alias_by_request_def dest: set_zip_rightD)

lemma resolve_order_ok:
  "order_ok m cols acc \<Longrightarrow> rspec (order_ok m cols) (resolve_order m cols rs acc)"
proof (induction rs arbitrary: acc)
  case (Cons r rs)
  show ?case
  proof (cases "alias_of m cols (ro_column r)")
    case (Some a)
    then show ?thesis using Cons alias_of_range [OF Some] by (auto simp: order_ok_def)
  qed simp
qed simp

lemma add_tie_break_ok:
  assumes "order_ok m cols os"
  shows "order_ok m cols (add_tie_break cols os)"
proof (cases "filter (\<lambda>a. a \<notin> set (map rb_expression os)) (map group_alias [0..<length cols])")
  case Nil
  then show ?thesis using assms by (auto simp: add_tie_break_def)
next
  case (Cons a as)
  then have "a \<in> set (filter (\<lambda>a. a \<notin> set (map rb_expression os)) (map group_alias [0..<length cols]))" by simp
  then have "a \<in> group_alias ` {0..<length cols}" "a \<notin> rb_expression ` set os" by auto
  then show ?thesis using assms unfolding add_tie_break_def Cons by (simp add: order_ok_def)
qed

lemma order_clauses_ok: "rspec (order_ok m cols) (order_clauses m cols order)"
  unfolding order_clauses_def
  by (rule rspec_bind [OF resolve_order_ok]) (simp_all add: add_tie_break_ok, simp add: order_ok_def)

subsection \<open>The contract\<close>

locale metric_catalog =
  fixes good :: "'i \<Rightarrow> bool" and cat :: "'i \<Rightarrow> catalog" and ast_parse :: "string \<Rightarrow> string + py_expr"
  assumes metric_row: "good i \<Longrightarrow> \<exists>r. cg_metric (cat i) n = Inr r"
    and metric_valid: "good i \<Longrightarrow> cg_metric (cat i) n = Inr (Some m) \<Longrightarrow> metric_ok ast_parse m"
    and metric_anchor: "good i \<Longrightarrow> cg_metric (cat i) n = Inr (Some m) \<Longrightarrow> \<exists>en. cg_entity (cat i) (mt_entity m) = Inr (Some en)"
    and entity_row: "good i \<Longrightarrow> \<exists>r. cg_entity (cat i) e = Inr r"
    and entity_valid: "good i \<Longrightarrow> cg_entity (cat i) e = Inr (Some en) \<Longrightarrow> entity_ok en \<and> en_name en = e"
    and entity_table: "good i \<Longrightarrow> cg_entity (cat i) e = Inr (Some en) \<Longrightarrow> match_qualified (en_qualified_table en) = Some (s, t)
        \<Longrightarrow> \<exists>tb. cg_table (cat i) s t = Inr (Some tb)"
    and join_rows: "good i \<Longrightarrow> \<exists>js. cg_joins (cat i) = Inr js"
    and join_valid: "good i \<Longrightarrow> cg_joins (cat i) = Inr js \<Longrightarrow> j \<in> set js \<Longrightarrow> join_ok j"
    and join_ends: "good i \<Longrightarrow> cg_joins (cat i) = Inr js \<Longrightarrow> j \<in> set js \<Longrightarrow> e = cj_source_entity j \<or> e = cj_target_entity j
        \<Longrightarrow> \<exists>en. cg_entity (cat i) e = Inr (Some en)"
begin

lemma anchor_table [rspec_intros]:
  assumes "good i" "cg_entity (cat i) e = Inr (Some en)"
  shows "rspec (table_of (cat i) e) (lookup_anchor_table (cat i) e)"
  using assms by (simp add: lookup_anchor_table_def table_of_def)

lemma table_split:
  assumes "good i" "table_of (cat i) e q"
  obtains s t tb where "split1 CHR ''.'' q = (s, Some t)" "q = s @ ''.'' @ t" "is_ident s" "is_ident t" "cg_table (cat i) s t = Inr (Some tb)"
proof -
  obtain en where en: "cg_entity (cat i) e = Inr (Some en)" "en_qualified_table en = q"
    using assms(2) by (auto simp: table_of_def)
  then obtain s t where m: "match_qualified q = Some (s, t)"
    using entity_valid [OF assms(1) en(1)] by (auto simp: entity_ok_def)
  then have "q = s @ ''.'' @ t" "is_ident s" "is_ident t" by (simp_all add: match_qualified_iff)
  then show ?thesis using that entity_table [OF assms(1) en(1)] m en(2) split1_append [OF is_ident_no_dot, of s t] by auto
qed

lemma columns_known:
  assumes "good i" "table_of (cat i) e q"
  shows "\<exists>cols. columns_on (cat i) q = Inr cols"
  using table_split [OF assms] by (metis (no_types, lifting) columns_on_def option.simps(5) prod.simps(2) rbind.simps(2))

lemma validated:
  assumes "good i" "table_of (cat i) e q"
  shows "rspec (\<lambda>_. \<exists>cols. columns_on (cat i) q = Inr cols \<and> c \<in> cols) (validate_column (cat i) e c q kind)"
proof -
  have "request_error (unknown_column kind e c cs)" for cs by (cases kind) simp_all
  then show ?thesis using columns_known [OF assms] by (auto simp: validate_column_def rcheck_def)
qed

lemma add_hop_ok:
  assumes g: "good i" and inv: "joins_inv (cat i) anchor js" and cs: "cg_joins (cat i) = Inr cs" and e: "edge_ok cs p edge"
    and p: "p \<in> insert anchor (fst ` set js)" and t: "ce_target_entity edge \<noteq> anchor"
  shows "rspec (\<lambda>js'. joins_inv (cat i) anchor js' \<and> fst ` set js' = insert (ce_target_entity edge) (fst ` set js))
    (add_hop (cat i) anchor (p, edge) js)"
proof (cases "ce_target_entity edge \<in> set (map fst js)")
  case True
  then show ?thesis using inv by (auto simp: add_hop_def Let_def)
next
  case False
  have "ce_target_entity edge = cj_source_entity (ce_join edge) \<or> ce_target_entity edge = cj_target_entity (ce_join edge)"
    and c: "ce_join edge \<in> set cs" using e by (auto simp: edge_ok_def split: if_splits)
  then obtain en where en: "cg_entity (cat i) (ce_target_entity edge) = Inr (Some en)"
    using join_ends [OF g cs c] by blast
  then have tab: "lookup_anchor_table (cat i) (ce_target_entity edge) = Inr (en_qualified_table en)"
    "table_of (cat i) (ce_target_entity edge) (en_qualified_table en)"
    by (simp_all add: lookup_anchor_table_def table_of_def)
  have src: "(if p = anchor then Some (alias_for anchor) else map_option rj_target_alias (map_of js p)) = Some p"
  proof (cases "p = anchor")
    case False
    then obtain j where "map_of js p = Some j" using p by (metis (no_types) domIff dom_map_of_conv_image_fst insertE not_None_eq)
    moreover from this have "rj_target_alias j = p" using inv map_of_SomeD [of js p j] by (auto simp: joins_inv_def)
    ultimately show ?thesis using False by simp
  qed (simp add: alias_for_def)
  let ?j = "\<lparr>rj_canonical_name = cj_name (ce_join edge), rj_source_alias = p, rj_target_entity = ce_target_entity edge,
      rj_target_table = en_qualified_table en, rj_target_alias = alias_for (ce_target_entity edge),
      rj_on_pairs = ce_on_pairs edge, rj_cardinality = effective_cardinality edge\<rparr>"
  have "joins_along (ce_join edge) ?j"
    using e by (auto simp: joins_along_def edge_ok_def effective_cardinality_def split: if_splits)
  then have "joins_inv (cat i) anchor (js @ [(ce_target_entity edge, ?j)])"
    using joins_inv_snoc [OF inv, of ?j] p t False tab(2) cs c by (auto simp: alias_for_def)
  moreover have "add_hop (cat i) anchor (p, edge) js = Inr (js @ [(ce_target_entity edge, ?j)])"
    using False tab(1) src unfolding add_hop_def Let_def by simp
  ultimately show ?thesis by simp
qed

lemma add_hops_ok:
  assumes g: "good i" and cs: "cg_joins (cat i) = Inr cs"
  shows "joins_inv (cat i) anchor js \<Longrightarrow> chain_ok cs a chain t \<Longrightarrow> a \<in> insert anchor (fst ` set js) \<Longrightarrow>
    anchor \<notin> set (map (\<lambda>h. ce_target_entity (snd h)) chain) \<Longrightarrow>
    rspec (\<lambda>js'. joins_inv (cat i) anchor js' \<and> fst ` set js \<subseteq> fst ` set js' \<and> t \<in> insert anchor (fst ` set js'))
      (add_hops (cat i) anchor chain js)"
proof (induction chain arbitrary: js a)
  case (Cons h chain)
  obtain edge where h: "h = (a, edge)" "edge_ok cs a edge" "chain_ok cs (ce_target_entity edge) chain t"
    using Cons.prems(2) by (cases h) auto
  have t: "ce_target_entity edge \<noteq> anchor" using Cons.prems(4) h(1) by auto
  show ?case unfolding add_hops.simps h(1)
  proof (rule rspec_bind [OF add_hop_ok [OF g Cons.prems(1) cs h(2) Cons.prems(3) t]])
    fix js' assume "joins_inv (cat i) anchor js' \<and> fst ` set js' = insert (ce_target_entity edge) (fst ` set js)"
    then show "rspec (\<lambda>js'. joins_inv (cat i) anchor js' \<and> fst ` set js \<subseteq> fst ` set js' \<and> t \<in> insert anchor (fst ` set js'))
        (add_hops (cat i) anchor chain js')"
      using Cons.IH [of js' "ce_target_entity edge"] h(3) Cons.prems(4) by (auto elim!: rspec_mono)
  qed
qed simp

lemma chain_found:
  assumes "anchor \<noteq> e" "finite via"
  shows "rspec (\<lambda>(chain, used). chain_ok cs anchor chain e \<and> anchor \<notin> set (map (\<lambda>h. ce_target_entity (snd h)) chain))
    (find_canonical_chain (build_join_graph cs) anchor e via)"
proof (cases "find_canonical_chain (build_join_graph cs) anchor e via")
  case (Inl x)
  then have "chain_outcome cs anchor e via (Inl x)" using chain_outcome_holds [OF assms, of cs] by simp
  then show ?thesis using Inl by (cases x) (auto simp: chain_outcome_def Let_def dest: arg_cong [of _ _ length])
next
  case (Inr x)
  obtain chain used where x: "x = (chain, used)" by force
  have o: "chain_outcome cs anchor e via (Inr (chain, used))" using chain_outcome_holds [OF assms, of cs] Inr x by simp
  then have "shortest (build_join_graph cs) anchor (map hop_of chain) e" by (auto simp: chain_outcome_def Let_def feasible_def)
  then have "distinct (anchor # map snd (map hop_of chain))" by (rule shortest_distinct)
  moreover have "map snd (map hop_of chain) = map (\<lambda>h. ce_target_entity (snd h)) chain" by (simp add: hop_of_def)
  ultimately show ?thesis using o Inr x by (simp add: chain_outcome_def Let_def)
qed

definition resolved_ok :: "'i \<Rightarrow> string \<Rightarrow> joins_so_far \<Rightarrow> joins_so_far \<Rightarrow> bool" where
  "resolved_ok i anchor js js' \<longleftrightarrow> joins_inv (cat i) anchor js' \<and> fst ` set js \<subseteq> fst ` set js'"

lemma resolved_ok_trans: "resolved_ok i anchor js js' \<Longrightarrow> resolved_ok i anchor js' js'' \<Longrightarrow> resolved_ok i anchor js js''"
  unfolding resolved_ok_def by blast

lemma resolved_ok_column: "resolved_ok i anchor js js' \<Longrightarrow> column_ok (cat i) anchor js c \<Longrightarrow> column_ok (cat i) anchor js' c"
  unfolding resolved_ok_def by (blast intro: column_ok_mono)

lemma joined_column_ok:
  assumes "good i" "joins_inv (cat i) anchor js" "e \<in> fst ` set js" "is_ident c"
  shows "rspec (\<lambda>(col, js'). js' = js \<and> column_ok (cat i) anchor js col \<and> rc_entity col = e \<and> rc_column col = c)
    (joined_column (cat i) e c kind js)"
proof -
  obtain j where j: "map_of js e = Some j"
    using assms(3) by (metis domIff dom_map_of_conv_image_fst not_None_eq)
  then have "(e, j) \<in> set js" by (rule map_of_SomeD)
  then have t: "table_of (cat i) e (rj_target_table j)" "rj_target_alias j = e" using assms(2) by (auto simp: joins_inv_def)
  have "rspec (\<lambda>(col, js'). js' = js \<and> column_ok (cat i) anchor js col \<and> rc_entity col = e \<and> rc_column col = c)
      (rbind (validate_column (cat i) e c (rj_target_table j) kind) (\<lambda>_.
        Inr (\<lparr>rc_entity = e, rc_column = c, rc_qualified_table = rj_target_table j, rc_alias = rj_target_alias j\<rparr>, js)))"
    by (rule rspec_bind [OF validated [OF assms(1) t(1)]]) (use t assms(3,4) in \<open>auto simp: column_ok_def\<close>)
  then show ?thesis using j by (simp add: joined_column_def)
qed

lemma resolve_column_ok:
  assumes g: "good i" and inv: "joins_inv (cat i) anchor js" and tbl: "table_of (cat i) anchor tbl" and via: "finite via"
  shows "rspec (\<lambda>(col, js'). resolved_ok i anchor js js' \<and> column_ok (cat i) anchor js' col
      \<and> match_qualified ref = Some (rc_entity col, rc_column col))
    (resolve_column (cat i) anchor tbl via ref kind js)"
proof (cases "match_qualified ref")
  case None
  then show ?thesis by (simp add: resolve_column_def)
next
  case (Some ec)
  obtain e c where ec: "ec = (e, c)" by force
  have c: "is_ident c" using Some ec by (simp add: match_qualified_iff)
  obtain cs where cs: "cg_joins (cat i) = Inr cs" using join_rows [OF g] by blast
  let ?P = "\<lambda>(col, js'). resolved_ok i anchor js js' \<and> column_ok (cat i) anchor js' col
      \<and> match_qualified ref = Some (rc_entity col, rc_column col)"
  consider (anchor) "e = anchor" | (known) "e \<noteq> anchor" "e \<in> fst ` set js" | (new) "e \<noteq> anchor" "e \<notin> fst ` set js" by blast
  then show ?thesis
  proof cases
    case anchor
    have "rspec ?P (rbind (validate_column (cat i) e c tbl kind) (\<lambda>_.
        Inr (\<lparr>rc_entity = e, rc_column = c, rc_qualified_table = tbl, rc_alias = alias_for anchor\<rparr>, js)))"
      using tbl inv Some ec c anchor
      by (intro rspec_bind [OF validated [OF g]]) (auto simp: resolved_ok_def column_ok_def alias_for_def)
    then show ?thesis using Some ec anchor by (simp add: resolve_column_def)
  next
    case known
    have "rspec ?P (joined_column (cat i) e c kind js)"
      by (rule rspec_mono [OF joined_column_ok [OF g inv known(2) c]]) (use inv Some ec in \<open>auto simp: resolved_ok_def\<close>)
    then show ?thesis using Some ec known by (simp add: resolve_column_def)
  next
    case new
    obtain row where row: "cg_entity (cat i) e = Inr row" using entity_row [OF g] by blast
    have "rspec ?P (if map_option en_qualified_table row = None then Inl (UnknownColumn kind ref e)
      else rbind (find_canonical_chain (build_join_graph cs) anchor e via) (\<lambda>(chain, used).
           rbind (add_hops (cat i) anchor chain js) (joined_column (cat i) e c kind)))"
    proof (cases row)
      case (Some en)
      have "rspec ?P (rbind (add_hops (cat i) anchor chain js) (joined_column (cat i) e c kind))"
        if ch: "chain_ok cs anchor chain e \<and> anchor \<notin> set (map (\<lambda>h. ce_target_entity (snd h)) chain)" for chain
      proof (rule rspec_bind [OF add_hops_ok [OF g cs inv, of anchor chain e]])
        fix js' assume a: "joins_inv (cat i) anchor js' \<and> fst ` set js \<subseteq> fst ` set js' \<and> e \<in> insert anchor (fst ` set js')"
        then have e: "e \<in> fst ` set js'" using new(1) by simp
        show "rspec ?P (joined_column (cat i) e c kind js')"
          by (rule rspec_mono [OF joined_column_ok [OF g _ e c, of anchor]])
            (use a \<open>match_qualified ref = Some ec\<close> ec in \<open>auto simp: resolved_ok_def\<close>)
      qed (use ch in auto)
      then show ?thesis using new(1) Some via
        by (auto intro!: rspec_bind [OF chain_found])
    qed simp
    then show ?thesis using Some ec new row cs
      by (simp add: resolve_column_def get_graph_def lookup_optional_table_def)
  qed
qed

lemma setdefault_keys: "Some ` fst ` set (setdefault c gs) = insert (Some (rc_entity c, rc_column c)) (Some ` fst ` set gs)"
  by (auto simp: setdefault_def)

lemma group_by_ok:
  assumes g: "good i" and tbl: "table_of (cat i) anchor tbl" and via: "finite via"
  shows "joins_inv (cat i) anchor js \<Longrightarrow> distinct (map fst gs) \<Longrightarrow>
    \<forall>(k, c) \<in> set gs. k = (rc_entity c, rc_column c) \<and> column_ok (cat i) anchor js c \<Longrightarrow>
    rspec (\<lambda>(gs', js'). resolved_ok i anchor js js' \<and> distinct (map fst gs')
        \<and> (\<forall>(k, c) \<in> set gs'. k = (rc_entity c, rc_column c) \<and> column_ok (cat i) anchor js' c)
        \<and> Some ` fst ` set gs' = Some ` fst ` set gs \<union> match_qualified ` set refs)
      (resolve_group_by (cat i) anchor tbl via refs gs js)"
proof (induction refs arbitrary: gs js)
  case Nil
  then show ?case by (auto simp: resolved_ok_def)
next
  case (Cons ref refs)
  show ?case unfolding resolve_group_by.simps
  proof (rule rspec_bind [OF resolve_column_ok [OF g Cons.prems(1) tbl via]], clarify)
    fix c js1
    assume a: "resolved_ok i anchor js js1" "column_ok (cat i) anchor js1 c" "match_qualified ref = Some (rc_entity c, rc_column c)"
    then have "joins_inv (cat i) anchor js1" "distinct (map fst (setdefault c gs))"
      "\<forall>(k, c) \<in> set (setdefault c gs). k = (rc_entity c, rc_column c) \<and> column_ok (cat i) anchor js1 c"
      using Cons.prems(2,3) column_ok_mono [of "cat i" anchor js _ js1] by (auto simp: setdefault_def resolved_ok_def)
    then have "rspec (\<lambda>(gs', js'). resolved_ok i anchor js1 js' \<and> distinct (map fst gs')
        \<and> (\<forall>(k, c) \<in> set gs'. k = (rc_entity c, rc_column c) \<and> column_ok (cat i) anchor js' c)
        \<and> Some ` fst ` set gs' = Some ` fst ` set (setdefault c gs) \<union> match_qualified ` set refs)
      (resolve_group_by (cat i) anchor tbl via refs (setdefault c gs) js1)"
      by (rule Cons.IH)
    then show "rspec (\<lambda>(gs', js'). resolved_ok i anchor js js' \<and> distinct (map fst gs')
        \<and> (\<forall>(k, c) \<in> set gs'. k = (rc_entity c, rc_column c) \<and> column_ok (cat i) anchor js' c)
        \<and> Some ` fst ` set gs' = Some ` fst ` set gs \<union> match_qualified ` set (ref # refs))
      (resolve_group_by (cat i) anchor tbl via refs (setdefault c gs) js1)"
      by (rule rspec_mono) (use a(3) resolved_ok_trans [OF a(1)] in \<open>clarsimp simp: setdefault_keys\<close>)
  qed
qed

lemma filters_ok:
  assumes g: "good i" and tbl: "table_of (cat i) anchor tbl" and via: "finite via"
  shows "joins_inv (cat i) anchor js \<Longrightarrow>
    rspec (\<lambda>(ps, js'). resolved_ok i anchor js js' \<and> predicates_ok (cat i) anchor js' n ps
        \<and> list_all2 (\<lambda>f r. match_qualified (rf_column f) = Some (rc_entity (rp_column r), rc_column (rp_column r))
            \<and> rp_op r = rf_op f \<and> rp_value r = rf_value f) fs ps)
      (resolve_filters (cat i) anchor tbl via n fs js)"
proof (induction fs arbitrary: n js)
  case Nil
  then show ?case by (simp add: resolved_ok_def)
next
  case (Cons f fs)
  have checked: "rspec (\<lambda>_. check_operator_value (rf_op f) (rf_value f) n = Inr ()) (check_operator_value (rf_op f) (rf_value f) n)"
    by (auto simp: check_operator_value_def split: filter_value.splits)
  show ?case unfolding resolve_filters.simps
  proof (rule rspec_bind [OF resolve_column_ok [OF g Cons.prems tbl via]], clarify, rule rspec_bind [OF checked])
    fix c js1
    assume a: "resolved_ok i anchor js js1" "column_ok (cat i) anchor js1 c"
      "match_qualified (rf_column f) = Some (rc_entity c, rc_column c)" "check_operator_value (rf_op f) (rf_value f) n = Inr ()"
    then have j: "joins_inv (cat i) anchor js1" by (simp add: resolved_ok_def)
    show "rspec (\<lambda>(ps, js'). resolved_ok i anchor js js' \<and> predicates_ok (cat i) anchor js' n ps
        \<and> list_all2 (\<lambda>f r. match_qualified (rf_column f) = Some (rc_entity (rp_column r), rc_column (rp_column r))
            \<and> rp_op r = rf_op f \<and> rp_value r = rf_value f) (f # fs) ps)
      (rbind (resolve_filters (cat i) anchor tbl via (Suc n) fs js1) (\<lambda>(ps, js''). Inr (\<lparr>rp_column = c, rp_op = rf_op f,
         rp_param_names = param_names_for (rf_op f) n (rf_value f), rp_value = rf_value f\<rparr> # ps, js'')))"
      by (rule rspec_bind [OF Cons.IH [OF j]])
        (use a in \<open>auto intro: resolved_ok_trans resolved_ok_column\<close>)
  qed
qed

lemma graph_known:
  assumes "good i"
  obtains cs where "get_graph (cat i) = Inr (build_join_graph cs)" "cg_joins (cat i) = Inr cs"
  using join_rows [OF assms] by (auto simp: get_graph_def)

lemma candidates_read:
  assumes g: "good i"
  shows "rspec (\<lambda>_. True) (timestamp_candidates (cat i) e path)"
proof -
  obtain row where row: "cg_entity (cat i) e = Inr row" using entity_row [OF g] by blast
  show ?thesis
  proof (cases row)
    case (Some en)
    then have "table_of (cat i) e (en_qualified_table en)" using row by (simp add: table_of_def)
    then obtain s t tb where "split1 CHR ''.'' (en_qualified_table en) = (s, Some t)" "cg_table (cat i) s t = Inr (Some tb)"
      using table_split [OF g] by metis
    then show ?thesis using row Some by (simp add: timestamp_candidates_def)
  qed (use row in \<open>simp add: timestamp_candidates_def\<close>)
qed

lemma scan_read: "good i \<Longrightarrow> rspec (\<lambda>_. True) (scan_edges (cat i) current path visited es)"
proof (induction es arbitrary: visited)
  case (Cons e es)
  have "rspec (\<lambda>_. True) (rbind (timestamp_candidates (cat i) (ge_neighbor e) new_path) (\<lambda>found.
      rbind (scan_edges (cat i) current path (insert (ge_neighbor e) visited) es) (\<lambda>(new, cands).
      Inr ((ge_neighbor e, new_path) # new, found @ cands))))" for new_path
    by (rule rspec_bind [OF candidates_read [OF Cons.prems]], rule rspec_bind [OF Cons.IH [OF Cons.prems]]) auto
  then show ?case using Cons.IH [OF Cons.prems] by (simp add: Let_def)
qed simp

lemma inherit_read: "good i \<Longrightarrow> rspec (\<lambda>_. True) (inherit_loop (cat i) g visited frontier cands)"
proof (induction "cat i" g visited frontier cands rule: inherit_loop.induct)
  case (2 g visited current path frontier cands)
  then show ?case using scan_read [OF 2(2), of current path visited "graph_get g current"]
    by (cases "scan_edges (cat i) current path visited (graph_get g current)") auto
qed simp

lemma resolve_time_ok:
  assumes g: "good i" and inv: "joins_inv (cat i) (mt_entity m) js" and tbl: "table_of (cat i) (mt_entity m) tbl" and via: "finite via"
  shows "rspec (\<lambda>(tc, js'). resolved_ok i (mt_entity m) js js' \<and> (tc_bucket tc = None \<or>
      (case tc_inherited tc of
         Some d \<Rightarrow> (\<exists>e c. match_qualified d = Some (e, c) \<and> e \<in> insert (mt_entity m) (fst ` set js'))
       | None \<Rightarrow> mt_time_dimension m \<noteq> None)))
    (resolve_time (cat i) m tbl via grain wanted js)" (is "rspec ?P _")
proof (cases "mt_time_dimension m = None \<and> grain \<noteq> None")
  case False
  then show ?thesis using inv by (auto simp: resolve_time_def resolved_ok_def)
next
  case True
  obtain cs where gr: "get_graph (cat i) = Inr (build_join_graph cs)" by (rule graph_known [OF g])
  have "rspec ?P (case narrow wanted cands of
      [] \<Rightarrow> Inr (\<lparr>tc_resolution = T_Unavailable, tc_inherited = None, tc_via = [], tc_bucket = None\<rparr>, js)
    | [(d, path)] \<Rightarrow> rbind (resolve_column (cat i) (mt_entity m) tbl via d K_Group_By js) (\<lambda>(c, js').
        Inr (\<lparr>tc_resolution = T_Inherited, tc_inherited = Some d, tc_via = path, tc_bucket = grain\<rparr>, js'))
    | c # d # ds \<Rightarrow> Inl (AmbiguousTimeDimension (mt_entity m) (c # d # ds)))" for cands
  proof -
    have "rspec ?P (rbind (resolve_column (cat i) (mt_entity m) tbl via d K_Group_By js) (\<lambda>(c, js').
        Inr (\<lparr>tc_resolution = T_Inherited, tc_inherited = Some d, tc_via = path, tc_bucket = grain\<rparr>, js')))" for d path
      by (rule rspec_bind [OF resolve_column_ok [OF g inv tbl via]]) (auto dest: column_ok_scope)
    then show ?thesis using inv by (auto simp: resolved_ok_def split: list.split)
  qed
  then have "rspec ?P (rbind (find_inherited_time_dimension (cat i) (build_join_graph cs) (mt_entity m)) (\<lambda>cands.
      case narrow wanted cands of
        [] \<Rightarrow> Inr (\<lparr>tc_resolution = T_Unavailable, tc_inherited = None, tc_via = [], tc_bucket = None\<rparr>, js)
      | [(d, path)] \<Rightarrow> rbind (resolve_column (cat i) (mt_entity m) tbl via d K_Group_By js) (\<lambda>(c, js').
          Inr (\<lparr>tc_resolution = T_Inherited, tc_inherited = Some d, tc_via = path, tc_bucket = grain\<rparr>, js'))
      | c # d # ds \<Rightarrow> Inl (AmbiguousTimeDimension (mt_entity m) (c # d # ds))))"
    unfolding find_inherited_time_dimension_def by (rule rspec_bind [OF inherit_read [OF g]])
  then show ?thesis using True gr by (simp add: resolve_time_def)
qed

lemma measure_validated:
  assumes "good i" "table_of (cat i) (mt_entity m) tbl" "metric_ok ast_parse m"
  shows "rspec (\<lambda>_. True) (validate_measure ast_parse (cat i) m tbl)"
proof -
  obtain cs where cs: "measure_columns ast_parse (mt_measure m) = Inr cs"
    using measure_columns_ok [of ast_parse "mt_measure m"] assms(3) by (auto simp: metric_ok_def)
  have "rspec (\<lambda>_. True) (rtraverse (\<lambda>c. validate_column (cat i) (mt_entity m) c tbl K_Measure) xs)" for xs
    by (induction xs) (auto intro!: rspec_bind [where Q = "\<lambda>_. True"] rspec_mono [OF validated [OF assms(1,2)]])
  then show ?thesis using cs by (simp add: validate_measure_def)
qed

lemma plan_of_parts:
  assumes "cg_metric (cat i) (mq_metric_name q) = Inr (Some m)" "metric_ok ast_parse m" "table_of (cat i) (mt_entity m) tbl"
    and gr: "resolved_ok i (mt_entity m) [] js" "distinct (map fst gs)"
      "\<forall>(k, c) \<in> set gs. k = (rc_entity c, rc_column c) \<and> column_ok (cat i) (mt_entity m) js c"
      "Some ` fst ` set gs = Some ` fst ` set [] \<union> match_qualified ` set (mq_group_by q)"
    and fs: "resolved_ok i (mt_entity m) js js1" "predicates_ok (cat i) (mt_entity m) js1 0 ps"
      "list_all2 (\<lambda>f r. match_qualified (rf_column f) = Some (rc_entity (rp_column r), rc_column (rp_column r))
        \<and> rp_op r = rf_op f \<and> rp_value r = rf_value f) (mq_filters q) ps"
    and os: "order_ok m (map snd gs) os"
    and t: "resolved_ok i (mt_entity m) js1 js2" "tc_bucket tc = None \<or>
      (case tc_inherited tc of Some d \<Rightarrow> (\<exists>e c. match_qualified d = Some (e, c) \<and> e \<in> insert (mt_entity m) (fst ` set js2))
       | None \<Rightarrow> mt_time_dimension m \<noteq> None)"
  shows "plan_ok ast_parse (cat i) q \<lparr>mp_metric = m, mp_anchor_table = tbl, mp_anchor_alias = alias_for (mt_entity m),
      mp_group_by = map snd gs, mp_time_bucket = tc_bucket tc, mp_predicates = ps, mp_limit = mq_limit q, mp_joins = map snd js2,
      mp_order_by = os, mp_time_resolution = tc_resolution tc, mp_inherited_time_dimension = tc_inherited tc, mp_inherited_via = tc_via tc\<rparr>"
    (is "plan_ok _ _ _ ?p")
proof -
  have js2: "joins_inv (cat i) (mt_entity m) js2" "fst ` set js1 \<subseteq> fst ` set js2" "fst ` set js \<subseteq> fst ` set js2"
    using fs(1) t(1) by (auto simp: resolved_ok_def)
  have keys: "map (\<lambda>c. (rc_entity c, rc_column c)) (map snd gs) = map fst gs"
    using gr(3) by (auto simp: case_prod_beta)
  have cols: "\<forall>c \<in> set (map snd gs). column_ok (cat i) (mt_entity m) js2 c"
    using gr(3) column_ok_mono [OF _ js2(3)] by auto
  have group: "Some ` (\<lambda>c. (rc_entity c, rc_column c)) ` set (map snd gs) = match_qualified ` set (mq_group_by q)"
    using gr(4) arg_cong [OF keys, of set] by (simp add: image_image)
  show ?thesis
    unfolding plan_ok_def
  proof (intro conjI)
    show "\<exists>js. joins_inv (cat i) (mp_anchor_alias ?p) js \<and> mp_joins ?p = map snd js \<and>
        (\<forall>c \<in> set (mp_group_by ?p). column_ok (cat i) (mp_anchor_alias ?p) js c) \<and>
        predicates_ok (cat i) (mp_anchor_alias ?p) js 0 (mp_predicates ?p)"
      using js2(1) cols predicates_ok_mono [OF fs(2) js2(2)] by (intro exI [of _ js2]) (simp add: alias_for_def)
    show "distinct (map (\<lambda>c. (rc_entity c, rc_column c)) (mp_group_by ?p))" using gr(2) unfolding metric_plan.select_convs keys .
    show "time_ok ?p" using t(2) joins_inv_aliases [OF js2(1)] by (simp add: time_ok_def alias_for_def cong: option.case_cong)
  qed (use assms(1-3) fs(3) os group in \<open>simp_all add: alias_for_def\<close>)
qed

lemma resolved_plan_ok:
  assumes g: "good i"
  shows "rspec (plan_ok ast_parse (cat i) q) (resolve_metric_plan ast_parse (cat i) q)"
proof -
  obtain row where row: "cg_metric (cat i) (mq_metric_name q) = Inr row" using metric_row [OF g] by blast
  show ?thesis
  proof (cases row)
    case None
    then show ?thesis using row by (simp add: resolve_metric_plan_def)
  next
    case (Some m)
    have m: "metric_ok ast_parse m" using metric_valid [OF g] row Some by simp
    obtain en where en: "cg_entity (cat i) (mt_entity m) = Inr (Some en)" using metric_anchor [OF g] row Some by blast
    have via: "finite (set (mq_via q))" by simp
    have start: "joins_inv (cat i) (mt_entity m) []" by (simp add: joins_inv_def)
    have grain: "rspec (\<lambda>_. True) (if mt_time_dimension m = None then Inr () else check_time_grain m (mq_time_grain q))"
      by (auto simp: check_time_grain_def split: option.split)
    show ?thesis
      unfolding resolve_metric_plan_def row rbind.simps Some option.case
      apply (rule rspec_bind [OF grain])
      apply (rule rspec_bind [OF anchor_table [OF g en]])
      apply (rule rspec_bind [OF measure_validated [OF g _ m]], assumption)
      apply (rule rspec_bind [OF group_by_ok [OF g _ via start]], assumption, simp, simp, clarify)
      apply (rule rspec_bind [OF filters_ok [OF g _ via]], assumption, simp add: resolved_ok_def, clarify)
      apply (rule rspec_bind [OF order_clauses_ok])
      apply (rule rspec_bind [OF resolve_time_ok [OF g _ _ via]], simp add: resolved_ok_def, assumption, clarify)
      apply (simp only: rspec_Inr)
      by (rule plan_of_parts [OF row [unfolded Some] m]) assumption+
  qed
qed

end

end
