(* ===== verification/SqlEmit.thy ===== *)
theory SqlEmit
  imports PlanInvariant
begin

section \<open>The SQL emitter (semantic/compiler/emit.py)\<close>

text \<open>
  \<open>emit_sql\<close> turns a plan into one parameterised statement and the values bound to its placeholders.
  A broken invariant of the plan (a time bucket without a dimension, a join before its left side, a
  semicolon in the text) is an exception. The two facts that matter: for a plan of the resolver the
  emitter never raises, and the text does not depend on the filter values.
\<close>

definition newline :: char where
  "newline = CHR 0x0A"

fun op_to_sql :: "operator \<Rightarrow> string" where
  "op_to_sql Op_Eq = ''=''"
| "op_to_sql Op_Ne = ''<>''"
| "op_to_sql Op_Lt = ''<''"
| "op_to_sql Op_Lte = ''<=''"
| "op_to_sql Op_Gt = ''>''"
| "op_to_sql Op_Gte = ''>=''"
| "op_to_sql Op_In = ''IN''"
| "op_to_sql Op_Not_In = ''NOT IN''"
| "op_to_sql Op_Is_Null = ''IS NULL''"
| "op_to_sql Op_Not_Null = ''IS NOT NULL''"

datatype 'v bound_value = Bound "'v filter_value" | Bound_Limit int

type_synonym 'v sql_params = "string \<rightharpoonup> 'v bound_value"

definition quote_qualified_table :: "string \<Rightarrow> compile_error + string" where
  "quote_qualified_table q =
     (case split1 CHR ''.'' q of
        (s, None) \<Rightarrow> Inl CompilerInvariant
      | (s, Some t) \<Rightarrow> Inr (quoted s @ ''.'' @ quoted t))"

text \<open>One value per name for a list operator; \<^verbatim>\<open>predicate.value[idx]\<close> past the end raises.\<close>

definition list_params :: "string list \<Rightarrow> 'v list \<Rightarrow> (string \<times> 'v bound_value) list" where
  "list_params names xs = zip names (map (\<lambda>x. Bound (V_Scalar x)) xs)"

definition emit_predicate :: "'v resolved_predicate \<Rightarrow> compile_error + string \<times> (string \<times> 'v bound_value) list" where
  "emit_predicate p =
     (let col = column_ref (rp_column p) in
      if unary_op (rp_op p) then Inr (col @ '' '' @ op_to_sql (rp_op p), [])
      else if list_op (rp_op p) then
        (case rp_value p of
           V_List xs \<Rightarrow>
             if length xs < length (rp_param_names p) then Inl CompilerInvariant
             else Inr (col @ '' '' @ op_to_sql (rp_op p) @ '' ('' @ join_str '', '' (map (\<lambda>n. '':'' @ n) (rp_param_names p)) @ '')'',
                       list_params (rp_param_names p) xs)
         | _ \<Rightarrow> Inl CompilerInvariant)
      else (case rp_param_names p of
              [] \<Rightarrow> Inl CompilerInvariant
            | n # ns \<Rightarrow> Inr (col @ '' '' @ op_to_sql (rp_op p) @ '' :'' @ n, [(n, Bound (rp_value p))])))"

definition emit_time :: "'v metric_plan \<Rightarrow> compile_error + string list" where
  "emit_time p =
     (case mp_time_bucket p of
        None \<Rightarrow> Inr []
      | Some g \<Rightarrow>
          rbind (case mp_inherited_time_dimension p of
                   Some d \<Rightarrow> (case split1 CHR ''.'' d of (e, Some c) \<Rightarrow> Inr (e, c) | (e, None) \<Rightarrow> Inl CompilerInvariant)
                 | None \<Rightarrow>
                     (case mt_time_dimension (mp_metric p) of
                        None \<Rightarrow> Inl CompilerInvariant
                      | Some d \<Rightarrow> (case split1 CHR ''.'' d of (e, Some c) \<Rightarrow> Inr (mp_anchor_alias p, c) | (e, None) \<Rightarrow> Inl CompilerInvariant)))
            (\<lambda>(a, c). Inr [''date_trunc('' @ [CHR 0x27] @ grain_name g @ [CHR 0x27] @ '', '' @ quoted a @ ''.'' @ quoted c @ '') AS time_bucket'']))"

definition group_select :: "nat \<Rightarrow> resolved_column \<Rightarrow> string" where
  "group_select i c = column_ref c @ '' AS '' @ group_alias i"

definition measure_ref :: "(string \<Rightarrow> string + py_expr) \<Rightarrow> string \<Rightarrow> metric_measure \<Rightarrow> compile_error + string" where
  "measure_ref ast_parse alias m =
     (case mm_expression m of
        Some x \<Rightarrow>
          (case parse_measure_expression ast_parse x of
             Inl e \<Rightarrow> Inl (MeasureError e)
           | Inr p \<Rightarrow> (case render_measure_expression (quoted alias) (pm_ast_node p) of
                         Inl e \<Rightarrow> Inl CompilerInvariant | Inr s \<Rightarrow> Inr s))
      | None \<Rightarrow> Inr (quoted alias @ ''.'' @ quoted (case mm_column m of Some c \<Rightarrow> c | None \<Rightarrow> ''None'')))"

definition emit_measure :: "(string \<Rightarrow> string + py_expr) \<Rightarrow> 'v metric_plan \<Rightarrow> compile_error + string" where
  "emit_measure ast_parse p =
     rbind (measure_ref ast_parse (mp_anchor_alias p) (mt_measure (mp_metric p))) (\<lambda>r.
     Inr ((if mm_agg (mt_measure (mp_metric p)) = Agg_Count_Distinct then ''count(DISTINCT '' @ r @ '')''
           else agg_name (mm_agg (mt_measure (mp_metric p))) @ ''('' @ r @ '')'') @ '' AS '' @ quoted (mt_name (mp_metric p))))"

definition on_pair :: "string \<Rightarrow> string \<Rightarrow> join_column_pair \<Rightarrow> string" where
  "on_pair s t p = quoted s @ ''.'' @ quoted (jp_source_column p) @ '' = '' @ quoted t @ ''.'' @ quoted (jp_target_column p)"

primrec emit_joins :: "string set \<Rightarrow> resolved_join list \<Rightarrow> compile_error + string list" where
  "emit_joins known [] = Inr []"
| "emit_joins known (j # js) =
     (if rj_source_alias j \<notin> known then Inl CompilerInvariant
      else rbind (quote_qualified_table (rj_target_table j)) (\<lambda>t.
           rbind (emit_joins (insert (rj_target_alias j) known) js) (\<lambda>rest.
           Inr ((''JOIN '' @ t @ '' AS '' @ quoted (rj_target_alias j) @ '' ON ''
                 @ join_str '' AND '' (map (on_pair (rj_source_alias j) (rj_target_alias j)) (rj_on_pairs j))) # rest))))"

fun direction_sql :: "direction \<Rightarrow> string" where
  "direction_sql Asc = ''ASC''"
| "direction_sql Desc = ''DESC''"

definition order_part :: "resolved_order_by \<Rightarrow> string" where
  "order_part c = quoted (rb_expression c) @ '' '' @ direction_sql (rb_direction c)"

text \<open>A clause with its keyword, or nothing.\<close>

definition clause :: "string \<Rightarrow> string \<Rightarrow> string list \<Rightarrow> string list" where
  "clause keyword sep parts = (if parts = [] then [] else [keyword @ join_str sep parts])"

definition P_LIMIT :: string where
  "P_LIMIT = ''p_limit''"

definition collect_params :: "(string \<times> 'v bound_value) list \<Rightarrow> int \<Rightarrow> 'v sql_params" where
  "collect_params binds limit = (map_of (rev binds)) (P_LIMIT \<mapsto> Bound_Limit limit)"

definition sql_lines ::
  "'v metric_plan \<Rightarrow> string list \<Rightarrow> string \<Rightarrow> string \<Rightarrow> string list \<Rightarrow> string list \<Rightarrow> string list" where
  "sql_lines p bucket meas anchor joins wheres =
     (let groups = map (\<lambda>(i, c). group_select i c) (enumerate 0 (mp_group_by p));
          group_names = (if bucket = [] then [] else [''time_bucket'']) @ map group_alias [0..<length (mp_group_by p)]
      in [''SELECT '' @ join_str ('','' @ [newline] @ ''       '') (bucket @ groups @ [meas])]
         @ [''FROM '' @ anchor @ '' AS '' @ quoted (mp_anchor_alias p)] @ joins
         @ clause ''WHERE '' '' AND '' wheres @ clause ''GROUP BY '' '', '' group_names
         @ clause ''ORDER BY '' '', '' (map order_part (mp_order_by p)) @ [''LIMIT :p_limit''])"

definition emit_sql :: "(string \<Rightarrow> string + py_expr) \<Rightarrow> 'v metric_plan \<Rightarrow> compile_error + string \<times> 'v sql_params" where
  "emit_sql ast_parse p =
     (if mp_time_bucket p \<noteq> None \<and> mt_time_dimension (mp_metric p) = None \<and> mp_inherited_time_dimension p = None
      then Inl CompilerInvariant
      else
        rbind (emit_time p) (\<lambda>bucket.
        rbind (emit_measure ast_parse p) (\<lambda>meas.
        rbind (quote_qualified_table (mp_anchor_table p)) (\<lambda>anchor.
        rbind (emit_joins {mp_anchor_alias p} (mp_joins p)) (\<lambda>joins.
        rbind (rtraverse emit_predicate (mp_predicates p)) (\<lambda>preds.
        (let sql = join_str [newline] (sql_lines p bucket meas anchor joins (map fst preds)) in
         if CHR '';'' \<in> set sql then Inl CompilerInvariant
         else Inr (sql, collect_params (concat (map snd preds)) (mp_limit p)))))))))"

subsection \<open>Text without a semicolon\<close>

named_theorems plain_sql "texts without a semicolon"

definition no_semi :: "string \<Rightarrow> bool" where
  "no_semi s \<longleftrightarrow> CHR '';'' \<notin> set s"

lemma no_semi_append [plain_sql]: "no_semi (a @ b) \<longleftrightarrow> no_semi a \<and> no_semi b"
  by (auto simp: no_semi_def)

lemma no_semi_Cons [plain_sql]: "no_semi (c # b) \<longleftrightarrow> c \<noteq> CHR '';'' \<and> no_semi b" "no_semi []"
  by (auto simp: no_semi_def)

lemma no_semi_ident [plain_sql]: "is_ident s \<Longrightarrow> no_semi s"
  using is_ident_chars [of s] ident_char_neq by (auto simp: no_semi_def list_all_iff)

lemma no_semi_quoted [plain_sql]: "no_semi (quoted s) = no_semi s"
  by (simp add: quoted_def plain_sql dquote_def)

lemma no_semi_join [plain_sql]: "no_semi sep \<Longrightarrow> \<forall>x \<in> set xs. no_semi x \<Longrightarrow> no_semi (join_str sep xs)"
  by (induction sep xs rule: join_str.induct) (auto simp: plain_sql)

lemma no_semi_dec [plain_sql]: "no_semi (dec_of_nat n)"
  using dec_of_nat_digits [of n] by (auto simp: no_semi_def list_all_iff is_digit_def)

lemma no_semi_grain [plain_sql]: "no_semi (grain_name g)"
  by (cases g) (simp_all add: no_semi_def)

lemma no_semi_agg [plain_sql]: "no_semi (agg_name a)"
  by (cases a) (simp_all add: no_semi_def)

lemma no_semi_op [plain_sql]: "no_semi (op_to_sql x)"
  by (cases x) (simp_all add: no_semi_def)

lemma no_semi_direction [plain_sql]: "no_semi (direction_sql d)"
  by (cases d) (simp_all add: no_semi_def)

lemma no_semi_alias [plain_sql]: "no_semi (group_alias i)" "no_semi (filter_param i)"
  by (simp_all add: group_alias_def filter_param_def plain_sql)

subsection \<open>Emitting a plan of the resolver\<close>

lemma quote_qualified:
  assumes "match_qualified q \<noteq> None"
  obtains s where "quote_qualified_table q = Inr s" "no_semi s"
proof -
  obtain a b where ab: "match_qualified q = Some (a, b)" using assms by auto
  then have i: "is_ident a" "is_ident b" "q = a @ ''.'' @ b" by (simp_all add: match_qualified_iff)
  then have "quote_qualified_table q = Inr (quoted a @ ''.'' @ quoted b)"
    using split1_append [OF is_ident_no_dot, of a b] by (simp add: quote_qualified_table_def)
  then show ?thesis using that i by (simp add: plain_sql)
qed

lemma no_semi_column: "column_ok cat anchor js c \<Longrightarrow> is_ident (rc_alias c) \<Longrightarrow> no_semi (column_ref c)"
  by (simp add: column_ok_def column_ref_def plain_sql)

text \<open>The names a predicate binds, and the values they get.\<close>

definition predicate_binds :: "'v resolved_predicate \<Rightarrow> (string \<times> 'v bound_value) list" where
  "predicate_binds p =
     (if unary_op (rp_op p) then []
      else if list_op (rp_op p) then list_params (rp_param_names p) (case rp_value p of V_List xs \<Rightarrow> xs | _ \<Rightarrow> [])
      else [(hd (rp_param_names p), Bound (rp_value p))])"

lemma emit_predicate_ok:
  assumes "rp_param_names p = param_names_for (rp_op p) n (rp_value p)" "check_operator_value (rp_op p) (rp_value p) n = Inr ()"
    "no_semi (column_ref (rp_column p))"
  obtains s where "emit_predicate p = Inr (s, predicate_binds p)" "no_semi s"
proof -
  consider (unary) "unary_op (rp_op p)" | (lst) xs where "\<not> unary_op (rp_op p)" "list_op (rp_op p)" "rp_value p = V_List xs"
    | (scalar) x where "\<not> unary_op (rp_op p)" "\<not> list_op (rp_op p)" "rp_value p = V_Scalar x"
    using assms(2) by (cases "rp_value p") (auto simp: check_operator_value_def split: if_splits)
  then show ?thesis
  proof cases
    case unary
    then show ?thesis using that assms(3) by (simp add: emit_predicate_def predicate_binds_def plain_sql)
  next
    case (lst xs)
    have "no_semi (join_str '', '' (map (\<lambda>n. '':'' @ n) (rp_param_names p)))"
      using lst assms(1) by (intro no_semi_join) (auto simp: param_names_for_def plain_sql)
    then show ?thesis using that lst assms by (simp add: emit_predicate_def predicate_binds_def plain_sql Let_def param_names_for_def)
  next
    case (scalar x)
    then show ?thesis using that assms by (simp add: emit_predicate_def predicate_binds_def plain_sql Let_def param_names_for_def)
  qed
qed

lemma emit_predicates_ok:
  assumes "\<And>c. column_ok cat anchor js c \<Longrightarrow> no_semi (column_ref c)"
  shows "predicates_ok cat anchor js n ps \<Longrightarrow>
    \<exists>ss. rtraverse emit_predicate ps = Inr (zip ss (map predicate_binds ps)) \<and> length ss = length ps \<and> (\<forall>s \<in> set ss. no_semi s)"
proof (induction ps arbitrary: n)
  case (Cons p ps)
  obtain ss where ss: "rtraverse emit_predicate ps = Inr (zip ss (map predicate_binds ps))" "length ss = length ps" "\<forall>s \<in> set ss. no_semi s"
    using Cons.IH [of "Suc n"] Cons.prems by auto
  obtain s where "emit_predicate p = Inr (s, predicate_binds p)" "no_semi s"
    using emit_predicate_ok [of p n] Cons.prems assms by auto
  then show ?case using ss by (intro exI [of _ "s # ss"]) simp
qed simp

lemma emit_joins_ok:
  assumes "topo known js" "\<forall>j \<in> set js. match_qualified (rj_target_table j) \<noteq> None \<and> is_ident (rj_source_alias j)
      \<and> is_ident (rj_target_alias j) \<and> list_all pair_ok (rj_on_pairs j)"
  shows "\<exists>ss. emit_joins known js = Inr ss \<and> (\<forall>s \<in> set ss. no_semi s)"
  using assms
proof (induction js arbitrary: known)
  case (Cons j js)
  obtain s where s: "quote_qualified_table (rj_target_table j) = Inr s" "no_semi s"
    using quote_qualified [of "rj_target_table j"] Cons.prems(2) by auto
  obtain ss where ss: "emit_joins (insert (rj_target_alias j) known) js = Inr ss" "\<forall>s \<in> set ss. no_semi s"
    using Cons.IH [of "insert (rj_target_alias j) known"] Cons.prems by auto
  have "no_semi (join_str '' AND '' (map (on_pair (rj_source_alias j) (rj_target_alias j)) (rj_on_pairs j)))"
    using Cons.prems(2) by (intro no_semi_join) (auto simp: on_pair_def plain_sql list_all_iff pair_ok_def)
  then show ?case using s ss Cons.prems by (simp add: plain_sql)
qed simp

lemma emit_time_ok:
  assumes "time_ok p" "metric_ok ast_parse (mp_metric p)" "is_ident (mp_anchor_alias p)"
  shows "\<exists>ss. emit_time p = Inr ss \<and> (\<forall>s \<in> set ss. no_semi s)
    \<and> \<not> (mp_time_bucket p \<noteq> None \<and> mt_time_dimension (mp_metric p) = None \<and> mp_inherited_time_dimension p = None)"
proof (cases "mp_time_bucket p")
  case None
  then show ?thesis by (simp add: emit_time_def)
next
  case (Some g)
  have split_q: "\<exists>e c. split1 CHR ''.'' d = (e, Some c) \<and> is_ident e \<and> is_ident c" if "match_qualified d \<noteq> None" for d
  proof -
    obtain e c where "match_qualified d = Some (e, c)" using \<open>match_qualified d \<noteq> None\<close> by auto
    then show ?thesis using split1_append [OF is_ident_no_dot, of e c] by (auto simp: match_qualified_iff)
  qed
  have semi: "no_semi (''date_trunc('' @ [CHR 0x27] @ grain_name g @ [CHR 0x27] @ '', '' @ quoted a @ ''.'' @ quoted c @ '') AS time_bucket'')"
    if "is_ident a" "is_ident c" for a c using that by (simp add: plain_sql)
  show ?thesis
  proof (cases "mp_inherited_time_dimension p")
    case None
    then obtain d where d: "mt_time_dimension (mp_metric p) = Some d" using assms(1) Some by (auto simp: time_ok_def)
    then have "match_qualified d \<noteq> None" using assms(2) by (auto simp: metric_ok_def check_metric_def split: if_splits)
    then show ?thesis using split_q [of d] semi [OF assms(3)] Some None d by (auto simp: emit_time_def)
  next
    case (Some d)
    then have "match_qualified d \<noteq> None" using assms(1) \<open>mp_time_bucket p = Some g\<close> by (auto simp: time_ok_def)
    then show ?thesis using split_q [of d] semi \<open>mp_time_bucket p = Some g\<close> Some by (auto simp: emit_time_def)
  qed
qed

text \<open>Python's parser only builds numeric constants whose text it wrote itself.\<close>

definition python_parser :: "(string \<Rightarrow> string + py_expr) \<Rightarrow> bool" where
  "python_parser ast_parse \<longleftrightarrow> (\<forall>s t. ast_parse s = Inr t \<longrightarrow> python_tree t)"

lemma emit_measure_ok:
  assumes "metric_ok ast_parse (mp_metric p)" "python_parser ast_parse" "is_ident (mp_anchor_alias p)"
  shows "\<exists>s. emit_measure ast_parse p = Inr s \<and> no_semi s"
proof -
  have "measure_ok ast_parse (mt_measure (mp_metric p))" using assms(1) by (simp add: metric_ok_def)
  then have "\<exists>s. measure_ref ast_parse (mp_anchor_alias p) (mt_measure (mp_metric p)) = Inr s \<and> no_semi s"
  proof (cases rule: measure_ok_cases)
    case (column c)
    then show ?thesis using assms(3) by (simp add: measure_ref_def plain_sql)
  next
    case (expression x e)
    obtain t where t: "ast_parse x = Inr t" "pm_ast_node e = t" "allowed t"
      using expression(3) walk_Inr by (fastforce simp: parse_measure_expression_def result_simps split: if_splits sum.splits)
    have "harmless (text_of (quoted (mp_anchor_alias p)) t)"
      using harmless_text [OF assms(3) t(3)] assms(2) t(1) by (auto simp: python_parser_def)
    then have "no_semi (text_of (quoted (mp_anchor_alias p)) t)"
      by (auto simp: harmless_def no_semi_def list_all_iff sql_char_def char_class_defs dquote_def)
    then show ?thesis using expression t render_allowed [OF t(3)] by (simp add: measure_ref_def)
  qed
  moreover have "is_ident (mt_name (mp_metric p))" using assms(1) by (auto simp: metric_ok_def check_metric_def split: if_splits)
  ultimately show ?thesis by (auto simp: emit_measure_def plain_sql)
qed

text \<open>The identifiers a well-formed plan is made of.\<close>

definition catalog_idents :: "catalog \<Rightarrow> bool" where
  "catalog_idents cat \<longleftrightarrow>
     (\<forall>e q. table_of cat e q \<longrightarrow> is_ident e \<and> match_qualified q \<noteq> None) \<and>
     (\<forall>cs c. cg_joins cat = Inr cs \<longrightarrow> c \<in> set cs \<longrightarrow> join_ok c)"

lemma joins_along_idents:
  assumes "joins_along c j" "join_ok c"
  shows "is_ident (rj_source_alias j) \<and> list_all pair_ok (rj_on_pairs j)"
proof -
  have "list_all pair_ok (map swap_pair ps)" if "list_all pair_ok ps" for ps
    using that by (induction ps) (auto simp: pair_ok_def swap_pair_def)
  then show ?thesis using assms by (auto simp: joins_along_def join_ok_def)
qed

lemma no_semi_clause: "no_semi k \<Longrightarrow> no_semi sep \<Longrightarrow> list_all no_semi xs \<Longrightarrow> list_all no_semi (clause k sep xs)"
  using no_semi_join [of sep xs] by (simp add: clause_def plain_sql list_all_iff)

lemma sql_lines_plain:
  assumes "list_all no_semi bucket" "no_semi meas" "no_semi anchor" "list_all no_semi joins" "list_all no_semi wheres"
    "\<forall>c \<in> set (mp_group_by p). no_semi (column_ref c)" "is_ident (mp_anchor_alias p)" "\<forall>c \<in> set (mp_order_by p). no_semi (rb_expression c)"
  shows "no_semi (join_str [newline] (sql_lines p bucket meas anchor joins wheres))"
proof -
  let ?sel = "join_str ('','' @ [newline] @ ''       '') (bucket @ map (\<lambda>(i, c). group_select i c) (enumerate 0 (mp_group_by p)) @ [meas])"
  let ?groups = "(if bucket = [] then [] else [''time_bucket'']) @ map group_alias [0..<length (mp_group_by p)]"
  have words: "no_semi [newline]" "no_semi '' AND ''" "no_semi '', ''" "no_semi ''WHERE ''" "no_semi ''GROUP BY ''" "no_semi ''ORDER BY ''"
    by (simp_all add: plain_sql newline_def)
  have "no_semi (group_select i c)" if "(i, c) \<in> set (enumerate 0 (mp_group_by p))" for i c
    using that assms(6) by (auto simp: group_select_def plain_sql in_set_enumerate_eq)
  then have "no_semi ?sel" using assms(1,2) by (intro no_semi_join) (auto simp: plain_sql newline_def list_all_iff)
  then have select: "no_semi (''SELECT '' @ ?sel)" by (simp only: no_semi_append) (simp add: plain_sql)
  have from_part: "no_semi (''FROM '' @ anchor @ '' AS '' @ quoted (mp_anchor_alias p))" using assms(3,7) by (simp add: plain_sql)
  have order: "list_all no_semi (clause ''ORDER BY '' '', '' (map order_part (mp_order_by p)))"
    using assms(8) words by (intro no_semi_clause) (auto simp: order_part_def plain_sql list_all_iff)
  have groups: "list_all no_semi (clause ''GROUP BY '' '', '' ?groups)"
    using words by (intro no_semi_clause) (auto simp: plain_sql list_all_iff)
  have wheres: "list_all no_semi (clause ''WHERE '' '' AND '' wheres)" using assms(5) words by (intro no_semi_clause)
  have "no_semi ''LIMIT :p_limit''" by (simp add: plain_sql)
  then have "list_all no_semi (sql_lines p bucket meas anchor joins wheres)"
    unfolding sql_lines_def Let_def list_all_append list.pred_inject using select from_part order groups wheres assms(4)
    by (intro conjI list.pred_inject(1)) assumption+
  then show ?thesis using no_semi_join words(1) by (simp add: list_all_iff)
qed

lemma emit_plan_ok:
  assumes plan: "plan_ok ast_parse cat q p" and ids: "catalog_idents cat" and parser: "python_parser ast_parse"
  shows "\<exists>sql. emit_sql ast_parse p = Inr (sql, collect_params (concat (map predicate_binds (mp_predicates p))) (mp_limit p)) \<and> no_semi sql"
proof -
  have m: "metric_ok ast_parse (mp_metric p)" and time: "time_ok p" and order: "order_ok (mp_metric p) (mp_group_by p) (mp_order_by p)"
    and anchor: "table_of cat (mp_anchor_alias p) (mp_anchor_table p)" using plan by (auto simp: plan_ok_def)
  obtain js where js: "joins_inv cat (mp_anchor_alias p) js" "mp_joins p = map snd js"
    "\<forall>c \<in> set (mp_group_by p). column_ok cat (mp_anchor_alias p) js c" "predicates_ok cat (mp_anchor_alias p) js 0 (mp_predicates p)"
    using plan by (auto simp: plan_ok_def)
  have a: "is_ident (mp_anchor_alias p)" "match_qualified (mp_anchor_table p) \<noteq> None" using ids anchor by (auto simp: catalog_idents_def)
  have "is_ident (rc_alias c)" if "column_ok cat (mp_anchor_alias p) js c" for c
    using that ids by (auto simp: column_ok_def catalog_idents_def)
  then have col: "no_semi (column_ref c)" if "column_ok cat (mp_anchor_alias p) js c" for c
    using that no_semi_column by blast
  have joins: "\<forall>j \<in> set (mp_joins p). match_qualified (rj_target_table j) \<noteq> None \<and> is_ident (rj_source_alias j)
      \<and> is_ident (rj_target_alias j) \<and> list_all pair_ok (rj_on_pairs j)"
    using js(1,2) ids joins_along_idents unfolding joins_inv_def catalog_idents_def by fastforce
  have topo: "topo {mp_anchor_alias p} (mp_joins p)" using js(1,2) by (simp add: joins_inv_def)
  obtain ts where ts: "emit_time p = Inr ts" "\<forall>s \<in> set ts. no_semi s"
    "\<not> (mp_time_bucket p \<noteq> None \<and> mt_time_dimension (mp_metric p) = None \<and> mp_inherited_time_dimension p = None)"
    using emit_time_ok [OF time m a(1)] by blast
  obtain ms where ms: "emit_measure ast_parse p = Inr ms" "no_semi ms" using emit_measure_ok [OF m parser a(1)] by blast
  obtain as where as: "quote_qualified_table (mp_anchor_table p) = Inr as" "no_semi as" using quote_qualified [OF a(2)] by blast
  obtain jn where jn: "emit_joins {mp_anchor_alias p} (mp_joins p) = Inr jn" "\<forall>s \<in> set jn. no_semi s"
    using emit_joins_ok [OF topo joins] by blast
  obtain ss where ss: "rtraverse emit_predicate (mp_predicates p) = Inr (zip ss (map predicate_binds (mp_predicates p)))"
    "length ss = length (mp_predicates p)" "\<forall>s \<in> set ss. no_semi s"
    using emit_predicates_ok [OF col js(4)] by blast
  have "no_semi (mt_name (mp_metric p))" using m by (auto simp: metric_ok_def check_metric_def intro: no_semi_ident split: if_splits)
  then have "\<forall>c \<in> set (mp_order_by p). no_semi (rb_expression c)" using order by (auto simp: order_ok_def plain_sql)
  then have "no_semi (join_str [newline] (sql_lines p ts ms as jn ss))"
    using ts(2) ms(2) as(2) jn(2) ss(3) col js(3) a(1) by (intro sql_lines_plain) (auto simp: list_all_iff)
  then show ?thesis using ts ms as jn ss unfolding emit_sql_def by (simp add: Let_def no_semi_def)
qed

end
