(* ===== verification/RequestErrors.thy ===== *)
theory RequestErrors
  imports PlanInvariant
begin

section \<open>Which request an error of the resolver is about\<close>

text \<open>
  Every error value of the resolver, told from the request and the catalog alone: which metric, group,
  filter, order or grain of the request it is about and what is wrong with it. The one error that the caller
  did not ask for is that of an inherited timestamp column, which the resolver looks up on its own.
  The proofs follow the resolver with \<open>espec\<close>, the counterpart of \<open>rspec\<close> for the error side, and
  take what holds between its steps from the \<open>rspec\<close> lemmas.
\<close>

subsection \<open>What an error says\<close>

text \<open>A column that its entity's table does not have, with the columns it has.\<close>

definition column_missing :: "catalog \<Rightarrow> column_kind \<Rightarrow> string \<Rightarrow> string \<Rightarrow> compile_error \<Rightarrow> bool" where
  "column_missing cat kind n c e \<longleftrightarrow> (\<exists>en cols. cg_entity cat n = Inr (Some en) \<and> columns_on cat (en_qualified_table en) = Inr cols \<and>
     c \<notin> cols \<and> e = unknown_column kind n c (sorted_list_of_set cols))"

text \<open>A reference that is not of the form entity.column, or whose entity does not exist, or has no such column, or
  cannot be reached from the anchor in the one way the via names allow.\<close>

definition about_column :: "catalog \<Rightarrow> string \<Rightarrow> string set \<Rightarrow> column_kind \<Rightarrow> string \<Rightarrow> compile_error \<Rightarrow> bool" where
  "about_column cat anchor via kind ref e \<longleftrightarrow>
     match_qualified ref = None \<and> e = MalformedColumn (Bad_Shape kind ref) \<or>
     (\<exists>n c. match_qualified ref = Some (n, c) \<and>
        (cg_entity cat n = Inr None \<and> e = UnknownColumn kind ref n \<or> column_missing cat kind n c e \<or>
         (\<exists>js. n \<noteq> anchor \<and> cg_joins cat = Inr js \<and> chain_outcome js anchor n via (Inl e))))"

definition about_grain :: "metric \<Rightarrow> 'v metric_request \<Rightarrow> compile_error \<Rightarrow> bool" where
  "about_grain m q e \<longleftrightarrow> (\<exists>g. mq_time_grain q = Some g \<and> mt_time_dimension m \<noteq> None \<and> g \<notin> set (mt_time_grains m) \<and>
     e = InvalidTimeGrain g (mt_time_grains m))"

definition about_measure :: "(string \<Rightarrow> string + py_expr) \<Rightarrow> catalog \<Rightarrow> metric \<Rightarrow> compile_error \<Rightarrow> bool" where
  "about_measure ast_parse cat m e \<longleftrightarrow> (\<exists>cs. measure_columns ast_parse (mt_measure m) = Inr cs \<and>
     (\<exists>c \<in> cs. column_missing cat K_Measure (mt_entity m) c e))"

text \<open>An order that names neither the metric nor a group column of the request.\<close>

definition about_order :: "metric \<Rightarrow> 'v metric_request \<Rightarrow> compile_error \<Rightarrow> bool" where
  "about_order m q e \<longleftrightarrow> (\<exists>r \<in> set (mq_order_by q). \<exists>options. e = UnknownOrderByColumn (ro_column r) options \<and>
     ro_column r \<notin> set options \<and> set options = insert (mt_name m) (set (mq_group_by q)))"

text \<open>A metric without a time dimension, asked for by grain: several timestamp columns could be inherited, or the one that is
  cannot be used. This one need not occur in the request.\<close>

definition about_inherited :: "catalog \<Rightarrow> metric \<Rightarrow> 'v metric_request \<Rightarrow> compile_error \<Rightarrow> bool" where
  "about_inherited cat m q e \<longleftrightarrow> mt_time_dimension m = None \<and> mq_time_grain q \<noteq> None \<and>
     (\<exists>js cands. cg_joins cat = Inr js \<and> find_inherited_time_dimension cat (build_join_graph js) (mt_entity m) = Inr cands \<and>
       (case narrow (mq_time_dimension q) cands of
          [] \<Rightarrow> False
        | [(d, path)] \<Rightarrow> about_column cat (mt_entity m) (set (mq_via q)) K_Group_By d e
        | c # d # ds \<Rightarrow> e = AmbiguousTimeDimension (mt_entity m) (c # d # ds)))"

definition blames :: "(string \<Rightarrow> string + py_expr) \<Rightarrow> catalog \<Rightarrow> 'v metric_request \<Rightarrow> compile_error \<Rightarrow> bool" where
  "blames ast_parse cat q e \<longleftrightarrow>
     cg_metric cat (mq_metric_name q) = Inr None \<and> e = UnknownMetric (echo_name (mq_metric_name q)) \<or>
     (\<exists>m. cg_metric cat (mq_metric_name q) = Inr (Some m) \<and>
       (about_grain m q e \<or> about_measure ast_parse cat m e \<or>
        (\<exists>ref \<in> set (mq_group_by q). about_column cat (mt_entity m) (set (mq_via q)) K_Group_By ref e) \<or>
        (\<exists>f \<in> set (mq_filters q). about_column cat (mt_entity m) (set (mq_via q)) K_Filter (rf_column f) e) \<or>
        (\<exists>i < length (mq_filters q). check_operator_value (rf_op (mq_filters q ! i)) (rf_value (mq_filters q ! i)) i = Inl e) \<or>
        about_order m q e \<or> about_inherited cat m q e))"

subsection \<open>The error side of a result\<close>

definition espec :: "('e \<Rightarrow> bool) \<Rightarrow> 'e + 'a \<Rightarrow> bool" where
  "espec E r \<longleftrightarrow> (case r of Inl e \<Rightarrow> E e | Inr x \<Rightarrow> True)"

lemma espec_simps [simp]: "espec E (Inl e) = E e" "espec E (Inr x)"
  by (simp_all add: espec_def)

lemma espec_mono: "espec E r \<Longrightarrow> (\<And>e. E e \<Longrightarrow> F e) \<Longrightarrow> espec F r"
  by (cases r) auto

lemma espec_bind: "rspec Q m \<Longrightarrow> espec E m \<Longrightarrow> (\<And>x. Q x \<Longrightarrow> espec E (f x)) \<Longrightarrow> espec E (rbind m f)"
  by (cases m) auto

lemma espec_seq: "espec E m \<Longrightarrow> (\<And>x. m = Inr x \<Longrightarrow> espec E (f x)) \<Longrightarrow> espec E (rbind m f)"
  by (cases m) auto

lemma espec_never: "rspec Q m \<Longrightarrow> (\<And>e. m = Inl e \<Longrightarrow> \<not> request_error e) \<Longrightarrow> espec E m"
  by (cases m) auto

lemma espec_traverse: "(\<And>x. x \<in> set xs \<Longrightarrow> espec E (f x)) \<Longrightarrow> espec E (rtraverse f xs)"
  by (induction xs) (auto intro!: espec_seq)

subsection \<open>Order\<close>

lemma alias_keys: "fst ` set (alias_by_request m cols) = insert (mt_name m) (column_request ` set cols)"
proof -
  have "map fst (zip (map column_request cols) (map group_alias [0..<length cols])) = map column_request cols" by simp
  then have "fst ` set (zip (map column_request cols) (map group_alias [0..<length cols])) = column_request ` set cols"
    by (metis set_map)
  then show ?thesis by (simp only: alias_by_request_def list.set image_insert fst_conv)
qed

lemma alias_of_None: "alias_of m cols r = None \<longleftrightarrow> r \<notin> insert (mt_name m) (column_request ` set cols)"
  by (simp only: alias_of_def map_of_eq_None_iff set_rev alias_keys)

lemma order_blamed:
  "espec (\<lambda>e. \<exists>r \<in> set rs. \<exists>options. e = UnknownOrderByColumn (ro_column r) options \<and> ro_column r \<notin> set options \<and>
     set options = insert (mt_name m) (column_request ` set cols)) (resolve_order m cols rs acc)"
proof (induction rs arbitrary: acc)
  case (Cons r rs)
  show ?case
  proof (cases "alias_of m cols (ro_column r)")
    case None
    then show ?thesis using alias_of_None [of m cols "ro_column r"] alias_keys [of m cols] by simp
  next
    case (Some a)
    have "espec (\<lambda>e. \<exists>r \<in> set (r # rs). \<exists>options. e = UnknownOrderByColumn (ro_column r) options \<and> ro_column r \<notin> set options \<and>
        set options = insert (mt_name m) (column_request ` set cols)) (resolve_order m cols rs acc')" for acc'
      by (rule espec_mono [OF Cons.IH]) auto
    then show ?thesis using Some by simp
  qed
qed simp

lemma order_clauses_blamed:
  assumes "column_request ` set cols = set (mq_group_by q)"
  shows "espec (about_order m q) (order_clauses m cols (mq_order_by q))"
  unfolding order_clauses_def
proof (rule espec_seq)
  show "espec (about_order m q) (resolve_order m cols (default_order cols (mq_order_by q)) [])"
  proof (rule espec_mono [OF order_blamed])
    fix e assume "\<exists>r \<in> set (default_order cols (mq_order_by q)). \<exists>options. e = UnknownOrderByColumn (ro_column r) options \<and>
      ro_column r \<notin> set options \<and> set options = insert (mt_name m) (column_request ` set cols)"
    then obtain r options where r: "r \<in> set (default_order cols (mq_order_by q))" "e = UnknownOrderByColumn (ro_column r) options"
      "ro_column r \<notin> set options" "set options = insert (mt_name m) (column_request ` set cols)" by blast
    have "ro_column r \<notin> column_request ` set cols" using r(3,4) by blast
    then have "r \<in> set (mq_order_by q)" using r(1) by (auto simp: default_order_def split: if_splits)
    then show "about_order m q e" using r(2-4) assms unfolding about_order_def by metis
  qed
qed simp

subsection \<open>Columns\<close>

lemma check_value_blamed: "espec (\<lambda>e. check_operator_value p v n = Inl e) (check_operator_value p v n)"
  by (cases "check_operator_value p v n") auto

text \<open>The group columns of a plan, written as the request writes them.\<close>

lemma requested_columns:
  assumes "\<And>k c. (k, c) \<in> set gs \<Longrightarrow> k = (rc_entity c, rc_column c)" "Some ` fst ` set gs = match_qualified ` refs"
  shows "column_request ` set (map snd gs) = refs"
proof -
  have q: "match_qualified ref = Some (e, c) \<Longrightarrow> ref = e @ ''.'' @ c" for ref e c by (simp add: match_qualified_iff)
  have keys: "(\<lambda>(e, c). e @ ''.'' @ c) ` fst ` set gs = column_request ` set (map snd gs)"
    unfolding set_map image_image by (rule image_cong [OF refl]) (use assms(1) in \<open>force simp: column_request_def\<close>)
  have "(\<lambda>(e, c). e @ ''.'' @ c) ` fst ` set gs = refs"
  proof (intro set_eqI iffI)
    fix r assume "r \<in> (\<lambda>(e, c). e @ ''.'' @ c) ` fst ` set gs"
    then obtain e c where ec: "(e, c) \<in> fst ` set gs" "r = e @ ''.'' @ c" by auto
    then have "Some (e, c) \<in> match_qualified ` refs" using assms(2) by blast
    then obtain ref where "ref \<in> refs" "match_qualified ref = Some (e, c)" by (metis image_iff)
    then show "r \<in> refs" using q ec(2) by blast
  next
    fix r assume "r \<in> refs"
    then have "match_qualified r \<in> Some ` fst ` set gs" using assms(2) by blast
    then obtain e c where ec: "match_qualified r = Some (e, c)" "(e, c) \<in> fst ` set gs" by auto
    then show "r \<in> (\<lambda>(e, c). e @ ''.'' @ c) ` fst ` set gs" using q [OF ec(1)] by force
  qed
  then show ?thesis using keys by simp
qed

context metric_catalog begin

lemma validate_blamed:
  assumes "good i" "table_of (cat i) n tbl"
  shows "espec (column_missing (cat i) kind n c) (validate_column (cat i) n c tbl kind)"
proof -
  obtain cols where "columns_on (cat i) tbl = Inr cols" using columns_known [OF assms] by blast
  moreover obtain en where "cg_entity (cat i) n = Inr (Some en)" "en_qualified_table en = tbl" using assms(2) by (auto simp: table_of_def)
  ultimately show ?thesis by (auto simp: validate_column_def rcheck_def column_missing_def)
qed

lemma add_hops_total:
  assumes g: "good i" and inv: "joins_inv (cat i) anchor js" and cs: "cg_joins (cat i) = Inr cs" and ch: "chain_ok cs anchor chain t"
    "anchor \<notin> set (map (\<lambda>h. ce_target_entity (snd h)) chain)"
  shows "espec E (add_hops (cat i) anchor chain js)"
proof (rule espec_never [OF add_hops_ok [OF g cs inv ch(1) _ ch(2)]])
  have one: "add_hop (cat i) anchor h js = Inl e \<Longrightarrow> \<not> request_error e" for h js e
    using entity_row [OF g, of "ce_target_entity (snd h)"]
    by (auto simp: add_hop_def Let_def lookup_anchor_table_def rbind_Inl_iff split: prod.splits if_splits option.splits)
  show "add_hops (cat i) anchor chain js = Inl e \<Longrightarrow> \<not> request_error e" for e
    by (induction chain arbitrary: js) (auto simp: rbind_Inl_iff dest: one)
qed simp

lemma joined_blamed:
  assumes "good i" "joins_inv (cat i) anchor js" "e \<in> fst ` set js"
  shows "espec (column_missing (cat i) kind e c) (joined_column (cat i) e c kind js)"
proof -
  obtain j where j: "map_of js e = Some j" using assms(3) by (metis domIff dom_map_of_conv_image_fst not_None_eq)
  then have "table_of (cat i) e (rj_target_table j)" using assms(2) map_of_SomeD [OF j] by (auto simp: joins_inv_def)
  then show ?thesis using j validate_blamed [OF assms(1)] by (auto simp: joined_column_def intro!: espec_seq)
qed

lemma column_blamed:
  assumes g: "good i" and inv: "joins_inv (cat i) anchor js" and tbl: "table_of (cat i) anchor tbl" and via: "finite via"
  shows "espec (about_column (cat i) anchor via kind ref) (resolve_column (cat i) anchor tbl via ref kind js)"
proof (cases "match_qualified ref")
  case None
  then show ?thesis by (simp add: resolve_column_def about_column_def)
next
  case (Some nc)
  obtain n c where nc: "nc = (n, c)" by force
  let ?E = "about_column (cat i) anchor via kind ref"
  have miss: "espec ?E r" if "espec (column_missing (cat i) kind n c) r" for r :: "compile_error + 'z"
    by (rule espec_mono [OF that]) (use Some nc in \<open>auto simp: about_column_def\<close>)
  obtain cs where cs: "cg_joins (cat i) = Inr cs" using join_rows [OF g] by blast
  consider (anchor) "n = anchor" | (known) "n \<noteq> anchor" "n \<in> fst ` set js" | (new) "n \<noteq> anchor" "n \<notin> fst ` set js" by blast
  then show ?thesis
  proof cases
    case anchor
    have "espec ?E (validate_column (cat i) n c tbl kind)" using miss validate_blamed [OF g] tbl anchor by blast
    then show ?thesis using Some nc anchor by (auto simp: resolve_column_def intro!: espec_seq)
  next
    case known
    have "espec ?E (joined_column (cat i) n c kind js)" by (rule miss [OF joined_blamed [OF g inv known(2)]])
    then show ?thesis using Some nc known by (simp add: resolve_column_def)
  next
    case new
    obtain row where row: "cg_entity (cat i) n = Inr row" using entity_row [OF g] by blast
    have "espec ?E (if map_option en_qualified_table row = None then Inl (UnknownColumn kind ref n)
      else rbind (find_canonical_chain (build_join_graph cs) anchor n via) (\<lambda>(chain, used).
           rbind (add_hops (cat i) anchor chain js) (joined_column (cat i) n c kind)))"
    proof (cases row)
      case None
      then show ?thesis using row Some nc \<open>match_qualified ref = Some nc\<close> by (auto simp: about_column_def)
    next
      case (Some en)
      have "chain_outcome cs anchor n via (find_canonical_chain (build_join_graph cs) anchor n via)"
        by (rule chain_outcome_holds [OF new(1) [symmetric] via])
      then have search: "espec ?E (find_canonical_chain (build_join_graph cs) anchor n via)"
        using \<open>match_qualified ref = Some nc\<close> nc new(1) cs
        by (cases "find_canonical_chain (build_join_graph cs) anchor n via") (auto simp: about_column_def)
      have rest: "espec ?E (rbind (add_hops (cat i) anchor chain js) (joined_column (cat i) n c kind))"
        if ch: "chain_ok cs anchor chain n \<and> anchor \<notin> set (map (\<lambda>h. ce_target_entity (snd h)) chain)" for chain
      proof (rule espec_bind [OF add_hops_ok [OF g cs inv, of anchor chain n]])
        show "espec ?E (add_hops (cat i) anchor chain js)" using add_hops_total [OF g inv cs] ch by blast
        fix js' assume a: "joins_inv (cat i) anchor js' \<and> fst ` set js \<subseteq> fst ` set js' \<and> n \<in> insert anchor (fst ` set js')"
        then show "espec ?E (joined_column (cat i) n c kind js')" using miss joined_blamed [OF g] new(1) by blast
      qed (use ch in auto)
      show ?thesis using Some by (auto intro!: espec_bind [OF chain_found [OF _ via] search] rest new(1) [symmetric])
    qed
    then show ?thesis using Some nc new row cs
      by (simp add: resolve_column_def get_graph_def lookup_optional_table_def)
  qed
qed

lemma group_by_blamed:
  assumes g: "good i" and tbl: "table_of (cat i) anchor tbl" and via: "finite via"
  shows "joins_inv (cat i) anchor js \<Longrightarrow>
    espec (\<lambda>e. \<exists>ref \<in> set refs. about_column (cat i) anchor via K_Group_By ref e) (resolve_group_by (cat i) anchor tbl via refs gs js)"
proof (induction refs arbitrary: gs js)
  case (Cons ref refs)
  show ?case unfolding resolve_group_by.simps
  proof (rule espec_bind [OF resolve_column_ok [OF g Cons.prems tbl via]], rule espec_mono [OF column_blamed [OF g Cons.prems tbl via]])
    fix x assume "case x of (col, js') \<Rightarrow> resolved_ok i anchor js js' \<and> column_ok (cat i) anchor js' col
      \<and> match_qualified ref = Some (rc_entity col, rc_column col)"
    then obtain c js' where x: "x = (c, js')" "joins_inv (cat i) anchor js'" by (cases x) (auto simp: resolved_ok_def)
    show "espec (\<lambda>e. \<exists>ref \<in> set (ref # refs). about_column (cat i) anchor via K_Group_By ref e)
        (case x of (c, js') \<Rightarrow> resolve_group_by (cat i) anchor tbl via refs (setdefault c gs) js')"
      unfolding x(1) prod.case by (rule espec_mono [OF Cons.IH [OF x(2)]]) auto
  qed auto
qed simp

lemma filters_blamed:
  assumes g: "good i" and tbl: "table_of (cat i) anchor tbl" and via: "finite via"
  shows "joins_inv (cat i) anchor js \<Longrightarrow>
    espec (\<lambda>e. (\<exists>f \<in> set fs. about_column (cat i) anchor via K_Filter (rf_column f) e) \<or>
        (\<exists>k < length fs. check_operator_value (rf_op (fs ! k)) (rf_value (fs ! k)) (n + k) = Inl e))
      (resolve_filters (cat i) anchor tbl via n fs js)" (is "_ \<Longrightarrow> espec (?E n fs) _")
proof (induction fs arbitrary: n js)
  case (Cons f fs)
  have head: "?E n (f # fs) e" if "check_operator_value (rf_op f) (rf_value f) n = Inl e" for e
    using that by (intro disjI2 exI [of _ 0]) simp
  have tail: "?E n (f # fs) e" if "?E (Suc n) fs e" for e
  proof (rule disjE [OF that])
    assume "\<exists>k < length fs. check_operator_value (rf_op (fs ! k)) (rf_value (fs ! k)) (Suc n + k) = Inl e"
    then obtain k where "k < length fs" "check_operator_value (rf_op (fs ! k)) (rf_value (fs ! k)) (Suc n + k) = Inl e" by blast
    then show ?thesis by (intro disjI2 exI [of _ "Suc k"]) simp
  qed auto
  show ?case unfolding resolve_filters.simps
  proof (rule espec_bind [OF resolve_column_ok [OF g Cons.prems tbl via]], rule espec_mono [OF column_blamed [OF g Cons.prems tbl via]])
    fix x assume "case x of (col, js') \<Rightarrow> resolved_ok i anchor js js' \<and> column_ok (cat i) anchor js' col
      \<and> match_qualified (rf_column f) = Some (rc_entity col, rc_column col)"
    then obtain c js' where x: "x = (c, js')" "joins_inv (cat i) anchor js'" by (cases x) (auto simp: resolved_ok_def)
    have rest: "espec (?E n (f # fs)) (resolve_filters (cat i) anchor tbl via (Suc n) fs js')"
      by (rule espec_mono [OF Cons.IH [OF x(2)] tail])
    show "espec (?E n (f # fs)) (case x of (c, js') \<Rightarrow> rbind (check_operator_value (rf_op f) (rf_value f) n) (\<lambda>_.
        rbind (resolve_filters (cat i) anchor tbl via (Suc n) fs js') (\<lambda>(ps, js'').
        Inr (\<lparr>rp_column = c, rp_op = rf_op f, rp_param_names = param_names_for (rf_op f) n (rf_value f), rp_value = rf_value f\<rparr> # ps, js''))))"
      unfolding x(1) prod.case case_prod_beta fst_conv snd_conv
      by (rule espec_seq, rule espec_mono [OF check_value_blamed], erule head, rule espec_seq [OF rest], simp)
  qed auto
qed simp

subsection \<open>The whole request\<close>

lemma time_blamed:
  assumes g: "good i" and inv: "joins_inv (cat i) (mt_entity m) js" and tbl: "table_of (cat i) (mt_entity m) tbl"
  shows "espec (about_inherited (cat i) m q)
    (resolve_time (cat i) m tbl (set (mq_via q)) (mq_time_grain q) (mq_time_dimension q) js)"
proof (cases "mt_time_dimension m = None \<and> mq_time_grain q \<noteq> None")
  case True
  obtain cs where gr: "get_graph (cat i) = Inr (build_join_graph cs)" "cg_joins (cat i) = Inr cs" by (rule graph_known [OF g])
  show ?thesis
  proof (cases "find_inherited_time_dimension (cat i) (build_join_graph cs) (mt_entity m)")
    case (Inl e)
    have rows: "timestamp_candidates (cat i) n path \<noteq> Inl e'" for n path e'
    proof
      assume "timestamp_candidates (cat i) n path = Inl e'"
      moreover obtain row where row: "cg_entity (cat i) n = Inr row" using entity_row [OF g] by blast
      ultimately obtain en where en: "row = Some en" "table_of (cat i) n (en_qualified_table en)"
        by (cases row) (auto simp: timestamp_candidates_def table_of_def)
      obtain s t tb where "split1 CHR ''.'' (en_qualified_table en) = (s, Some t)" "cg_table (cat i) s t = Inr (Some tb)"
        using table_split [OF g en(2)] by metis
      then show False using \<open>timestamp_candidates (cat i) n path = Inl e'\<close> row en(1) by (simp add: timestamp_candidates_def)
    qed
    have scan: "scan_edges (cat i) c path v es \<noteq> Inl e'" for c path v es e'
      by (induction es arbitrary: v) (auto simp: Let_def rbind_Inl_iff rows split: prod.splits)
    have "inherit_loop (cat i) gg v fr cands \<noteq> Inl e'" for gg v fr cands e'
    proof (induction "cat i" gg v fr cands rule: inherit_loop.induct)
      case (2 gg v c path fr cands)
      then show ?case using scan [of c path v "graph_get gg c"] by (cases "scan_edges (cat i) c path v (graph_get gg c)") auto
    qed simp
    then show ?thesis using Inl unfolding find_inherited_time_dimension_def by blast
  next
    case (Inr cands)
    have col: "espec (about_column (cat i) (mt_entity m) (set (mq_via q)) K_Group_By d)
        (resolve_column (cat i) (mt_entity m) tbl (set (mq_via q)) d K_Group_By js)" for d
      by (rule column_blamed [OF g inv tbl]) simp
    have cases_of: "espec (about_inherited (cat i) m q) r"
      if "espec (\<lambda>e. case narrow (mq_time_dimension q) cands of [] \<Rightarrow> False
        | [(d, path)] \<Rightarrow> about_column (cat i) (mt_entity m) (set (mq_via q)) K_Group_By d e
        | c # d # ds \<Rightarrow> e = AmbiguousTimeDimension (mt_entity m) (c # d # ds)) r" for r :: "compile_error + 'z"
      by (rule espec_mono [OF that]) (use True gr(2) Inr in \<open>auto simp: about_inherited_def\<close>)
    show ?thesis
    proof (cases "narrow (mq_time_dimension q) cands" rule: remdups_adj.cases)
      case 1
      then show ?thesis using True gr Inr by (simp add: resolve_time_def)
    next
      case (2 c)
      obtain d path where c: "c = (d, path)" by force
      have "espec (about_inherited (cat i) m q) (rbind (resolve_column (cat i) (mt_entity m) tbl (set (mq_via q)) d K_Group_By js)
          (\<lambda>(x, js'). Inr (\<lparr>tc_resolution = T_Inherited, tc_inherited = Some d, tc_via = path, tc_bucket = mq_time_grain q\<rparr>, js')))"
        by (intro cases_of espec_seq) (use 2 c col in \<open>auto split: prod.splits\<close>)
      then show ?thesis using True gr Inr 2 c by (simp add: resolve_time_def)
    next
      case (3 c d ds)
      have "about_inherited (cat i) m q (AmbiguousTimeDimension (mt_entity m) (c # d # ds))"
        using True gr(2) Inr 3 by (simp add: about_inherited_def)
      then show ?thesis using True gr Inr 3 by (simp add: resolve_time_def)
    qed
  qed
qed (auto simp: resolve_time_def)

lemma measure_blamed:
  assumes "good i" "table_of (cat i) (mt_entity m) tbl" "metric_ok ast_parse m"
  shows "espec (about_measure ast_parse (cat i) m) (validate_measure ast_parse (cat i) m tbl)"
proof -
  obtain cs where cs: "measure_columns ast_parse (mt_measure m) = Inr cs"
    using measure_columns_ok [of ast_parse "mt_measure m"] assms(3) by (auto simp: metric_ok_def)
  have "espec (about_measure ast_parse (cat i) m) (rtraverse (\<lambda>c. validate_column (cat i) (mt_entity m) c tbl K_Measure) (sorted_list_of_set cs))"
  proof (rule espec_traverse)
    fix c assume "c \<in> set (sorted_list_of_set cs)"
    then have "c \<in> cs" by (cases "finite cs") auto
    then show "espec (about_measure ast_parse (cat i) m) (validate_column (cat i) (mt_entity m) c tbl K_Measure)"
      using cs by (intro espec_mono [OF validate_blamed [OF assms(1,2)]]) (auto simp: about_measure_def)
  qed
  then show ?thesis using cs by (simp add: validate_measure_def)
qed

lemma request_blamed:
  assumes g: "good i"
  shows "espec (blames ast_parse (cat i) q) (resolve_metric_plan ast_parse (cat i) q)"
proof -
  obtain row where row: "cg_metric (cat i) (mq_metric_name q) = Inr row" using metric_row [OF g] by blast
  show ?thesis
  proof (cases row)
    case None
    then show ?thesis using row by (simp add: resolve_metric_plan_def blames_def)
  next
    case (Some m)
    have m: "metric_ok ast_parse m" using metric_valid [OF g] row Some by simp
    obtain en where en: "cg_entity (cat i) (mt_entity m) = Inr (Some en)" using metric_anchor [OF g] row Some by blast
    have tab: "lookup_anchor_table (cat i) (mt_entity m) = Inr (en_qualified_table en)" "table_of (cat i) (mt_entity m) (en_qualified_table en)"
      using en by (simp_all add: lookup_anchor_table_def table_of_def)
    have via: "finite (set (mq_via q))" by simp
    have start: "joins_inv (cat i) (mt_entity m) []" by (simp add: joins_inv_def)
    have bl: "blames ast_parse (cat i) q e" if "about_grain m q e \<or> about_measure ast_parse (cat i) m e \<or>
        (\<exists>ref \<in> set (mq_group_by q). about_column (cat i) (mt_entity m) (set (mq_via q)) K_Group_By ref e) \<or>
        (\<exists>f \<in> set (mq_filters q). about_column (cat i) (mt_entity m) (set (mq_via q)) K_Filter (rf_column f) e) \<or>
        (\<exists>i < length (mq_filters q). check_operator_value (rf_op (mq_filters q ! i)) (rf_value (mq_filters q ! i)) i = Inl e) \<or>
        about_order m q e \<or> about_inherited (cat i) m q e" for e
      using that row Some by (simp add: blames_def)
    have grain: "espec (blames ast_parse (cat i) q) (if mt_time_dimension m = None then Inr () else check_time_grain m (mq_time_grain q))"
      by (rule espec_mono [of "about_grain m q"]) (use bl in \<open>auto simp: check_time_grain_def about_grain_def split: option.split\<close>)
    have late: "espec (blames ast_parse (cat i) q) (rbind (order_clauses m (map snd gs) (mq_order_by q)) (\<lambda>os.
        rbind (resolve_time (cat i) m tbl (set (mq_via q)) (mq_time_grain q) (mq_time_dimension q) js) (\<lambda>(tc, js'). Inr (h os tc js'))))"
      if "column_request ` set (map snd gs) = set (mq_group_by q)" "joins_inv (cat i) (mt_entity m) js" "tbl = en_qualified_table en" for gs js tbl h
      unfolding that(3)
      by (intro espec_seq espec_mono [OF order_clauses_blamed [OF that(1)]] espec_mono [OF time_blamed [OF g that(2) tab(2)]])
        (use bl in \<open>auto split: prod.splits\<close>)
    show ?thesis
      unfolding resolve_metric_plan_def row rbind.simps Some option.case tab(1)
    proof (intro espec_seq [OF grain] espec_seq [OF espec_mono [OF measure_blamed [OF g tab(2) m] bl]])
      show "espec (blames ast_parse (cat i) q) (rbind (resolve_group_by (cat i) (mt_entity m) (en_qualified_table en) (set (mq_via q)) (mq_group_by q) [] []) (\<lambda>(gs, js).
         rbind (resolve_filters (cat i) (mt_entity m) (en_qualified_table en) (set (mq_via q)) 0 (mq_filters q) js) (\<lambda>(ps, js).
         rbind (order_clauses m (map snd gs) (mq_order_by q)) (\<lambda>os.
         rbind (resolve_time (cat i) m (en_qualified_table en) (set (mq_via q)) (mq_time_grain q) (mq_time_dimension q) js) (\<lambda>(tc, js).
         Inr (h gs ps os tc js))))))" for h
      proof (rule espec_bind [OF group_by_ok [OF g tab(2) via start]])
        show "espec (blames ast_parse (cat i) q) (resolve_group_by (cat i) (mt_entity m) (en_qualified_table en) (set (mq_via q)) (mq_group_by q) [] [])"
          by (rule espec_mono [OF group_by_blamed [OF g tab(2) via start] bl]) blast
      next
        fix x assume x: "case x of (gs', js') \<Rightarrow> resolved_ok i (mt_entity m) [] js' \<and> distinct (map fst gs')
          \<and> (\<forall>(k, c) \<in> set gs'. k = (rc_entity c, rc_column c) \<and> column_ok (cat i) (mt_entity m) js' c)
          \<and> Some ` fst ` set gs' = Some ` fst ` set [] \<union> match_qualified ` set (mq_group_by q)"
        obtain gs js where gs: "x = (gs, js)" by force
        have j: "joins_inv (cat i) (mt_entity m) js" and k: "\<And>k c. (k, c) \<in> set gs \<Longrightarrow> k = (rc_entity c, rc_column c)"
          and same: "Some ` fst ` set gs = match_qualified ` set (mq_group_by q)"
          using x gs by (auto simp: resolved_ok_def)
        note groups = requested_columns [OF k same]
        show "espec (blames ast_parse (cat i) q) (case x of (gs, js) \<Rightarrow>
            rbind (resolve_filters (cat i) (mt_entity m) (en_qualified_table en) (set (mq_via q)) 0 (mq_filters q) js) (\<lambda>(ps, js).
            rbind (order_clauses m (map snd gs) (mq_order_by q)) (\<lambda>os.
            rbind (resolve_time (cat i) m (en_qualified_table en) (set (mq_via q)) (mq_time_grain q) (mq_time_dimension q) js) (\<lambda>(tc, js).
            Inr (h gs ps os tc js)))))"
          unfolding gs prod.case
        proof (rule espec_bind [OF filters_ok [OF g tab(2) via j]])
          show "espec (blames ast_parse (cat i) q) (resolve_filters (cat i) (mt_entity m) (en_qualified_table en) (set (mq_via q)) 0 (mq_filters q) js)"
            by (rule espec_mono [OF filters_blamed [OF g tab(2) via j]], rule bl, simp only: add_0, blast)
        qed (use late [OF groups] in \<open>auto simp: resolved_ok_def\<close>)
      qed simp_all
    qed (use bl in auto)
  qed
qed

end

end
