(* ===== verification/StoreCatalog.thy ===== *)
theory StoreCatalog
  imports StoreInvariant SqlEmit RequestErrors
begin

section \<open>Compiling a metric against the store\<close>

text \<open>
  The SQLite store as the compiler's catalog. The store's invariant gives the contract of
  \<open>metric_catalog\<close>, so what the resolver and the emitter guarantee under that contract holds on every
  store that the operations can reach.
\<close>

definition reading :: "store_error + 'a \<Rightarrow> compile_error + 'a" where
  "reading r = (case r of Inl e \<Rightarrow> Inl StoreRead | Inr x \<Rightarrow> Inr x)"

definition store_catalog :: "(string \<Rightarrow> string + py_expr) \<Rightarrow> string \<Rightarrow> store \<Rightarrow> catalog" where
  "store_catalog ast_parse src db =
     \<lparr>cg_metric = (\<lambda>n. reading (get_metric ast_parse db src n)),
      cg_entity = (\<lambda>n. reading (get_entity db src n)),
      cg_joins = reading (list_canonical_joins db (Some src)),
      cg_table = (\<lambda>s t. reading (get_table db src s t))\<rparr>"

lemma reading_Inr [simp]: "reading r = Inr x \<longleftrightarrow> r = Inr x"
  by (simp add: reading_def split: sum.splits)

lemma catalog_fields [simp]:
  "cg_metric (store_catalog ast_parse src db) n = reading (get_metric ast_parse db src n)"
  "cg_entity (store_catalog ast_parse src db) n = reading (get_entity db src n)"
  "cg_joins (store_catalog ast_parse src db) = reading (list_canonical_joins db (Some src))"
  "cg_table (store_catalog ast_parse src db) s t = reading (get_table db src s t)"
  by (simp_all add: store_catalog_def)

subsection \<open>What a stored row reads as\<close>

lemma row_to_entity_Inr:
  assumes "row_to_entity r = Inr e"
  shows "entity_ok e \<and> en_name e = er_name r \<and> en_qualified_table e = er_binding_schema r @ ''.'' @ er_binding_table r"
  using assms by (auto simp: row_to_entity_def make_binding_def check_entity_def entity_ok_def en_qualified_table_def
      split: if_splits sum.splits)

lemma row_to_join_Inr:
  assumes "row_to_canonical_join r = Inr j"
  shows "join_ok j \<and> cj_source_entity j = jr_source_entity r \<and> cj_target_entity j = jr_target_entity r"
proof -
  have "list_all pair_ok ps" if "rtraverse (\<lambda>(s, t). make_join_column_pair s t) cs = Inr ps" for cs ps
    using that by (induction cs arbitrary: ps) (auto simp: result_simps make_join_column_pair_def pair_ok_def split: if_splits)
  then show ?thesis using assms
    by (auto simp: row_to_canonical_join_def check_canonical_join_def join_ok_def result_simps split: if_splits sum.splits)
qed

lemma row_to_metric_Inr:
  assumes "row_to_metric ast_parse r = Inr m"
  shows "metric_ok ast_parse m \<and> mt_entity m = mr_entity r"
  using assms unfolding row_to_metric_def metric_ok_def measure_ok_def
  by (auto simp: check_measure_def check_metric_def split: sum.splits option.splits if_splits)

lemma qualified_parts:
  assumes "match_qualified (a @ ''.'' @ b) = Some (s, t)"
  shows "a = s \<and> b = t"
proof -
  have i: "is_ident s" "is_ident t" "a @ ''.'' @ b = s @ ''.'' @ t" using assms by (simp_all add: match_qualified_iff)
  have "CHR ''.'' \<notin> set a"
  proof
    assume "CHR ''.'' \<in> set a"
    then have "2 \<le> length (filter (\<lambda>c. c = CHR ''.'') (a @ ''.'' @ b))"
      by (induction a) auto
    moreover have "filter (\<lambda>c. c = CHR ''.'') (s @ ''.'' @ t) = ''.''"
    proof -
      have "filter (\<lambda>c. c = CHR ''.'') x = []" if "is_ident x" for x
        using is_ident_no_dot [OF that] by (auto simp: filter_empty_conv)
      then show ?thesis using i(1,2) by simp
    qed
    ultimately have "2 \<le> length ''.''" using i(3) by metis
    then show False by simp
  qed
  then have "split1 CHR ''.'' (a @ ''.'' @ b) = (a, Some b)" using split1_append [of "CHR ''.''" a b] by simp
  moreover have "split1 CHR ''.'' (s @ ''.'' @ t) = (s, Some t)"
    using split1_append [OF is_ident_no_dot [OF i(1)], of t] by simp
  ultimately show ?thesis unfolding i(3) by simp
qed

subsection \<open>The contract\<close>

lemma store_entity:
  assumes "store_ok ast_parse db" "has_entity db (src, e)"
  shows "\<exists>en. get_entity db src e = Inr (Some en)"
proof -
  obtain r where "find_row entity_key (src, e) (st_entities db) = Some r"
    using assms(2) find_row_None [of entity_key "(src, e)" "st_entities db"] by (auto simp: has_entity_def)
  moreover from this have "\<exists>en. row_to_entity r = Inr en" using assms(1) find_row_SomeD by (fastforce simp: store_ok_def rows_ok_def)
  ultimately show ?thesis by (auto simp: get_entity_def)
qed

lemma get_entity_Inr:
  assumes "get_entity db src e = Inr (Some en)"
  obtains r where "r \<in> set (st_entities db)" "er_source r = src" "er_name r = e" "row_to_entity r = Inr en"
  using assms find_row_SomeD [of entity_key "(src, e)" "st_entities db"]
  by (auto simp: get_entity_def result_simps entity_key_def split: option.splits)

lemma get_metric_Inr:
  assumes "get_metric ast_parse db src n = Inr (Some m)"
  obtains r where "r \<in> set (st_metrics db)" "mr_source r = src" "row_to_metric ast_parse r = Inr m"
  using assms find_row_SomeD [of metric_key "(src, n)" "st_metrics db"]
  by (auto simp: get_metric_def result_simps metric_key_def split: option.splits)

lemma listed_join:
  assumes "list_canonical_joins db (Some src) = Inr js" "j \<in> set js"
  obtains r where "r \<in> set (st_joins db)" "jr_source r = src" "row_to_canonical_join r = Inr j"
proof -
  obtain r where "r \<in> set (sort_key (\<lambda>r. (jr_name r, jr_source r)) (filter (\<lambda>r. Some src = None \<or> Some src = Some (jr_source r)) (st_joins db)))"
    "row_to_canonical_join r = Inr j"
    using rtraverse_Inr_set [OF assms(1) [unfolded list_canonical_joins_def] assms(2)] by blast
  then show ?thesis using that [of r] by auto
qed

lemma store_is_catalog: "metric_catalog (store_ok ast_parse) (store_catalog ast_parse src) ast_parse"
proof
  fix db n assume ok: "store_ok ast_parse db"
  show "\<exists>r. cg_metric (store_catalog ast_parse src db) n = Inr r"
    using ok find_row_SomeD [of metric_key "(src, n)" "st_metrics db"]
    by (fastforce simp: get_metric_def store_ok_def rows_ok_def split: option.splits)
next
  fix db n m assume "store_ok ast_parse db" "cg_metric (store_catalog ast_parse src db) n = Inr (Some m)"
  then show "metric_ok ast_parse m" using row_to_metric_Inr by (auto elim: get_metric_Inr)
next
  fix db n m assume ok: "store_ok ast_parse db" and m: "cg_metric (store_catalog ast_parse src db) n = Inr (Some m)"
  obtain r where r: "r \<in> set (st_metrics db)" "mr_source r = src" "row_to_metric ast_parse r = Inr m"
    using m by (auto elim: get_metric_Inr)
  then have "has_entity db (src, mt_entity m)" using ok row_to_metric_Inr by (force simp: store_ok_def refs_ok_def)
  then show "\<exists>en. cg_entity (store_catalog ast_parse src db) (mt_entity m) = Inr (Some en)"
    using store_entity [OF ok] by simp
next
  fix db e assume ok: "store_ok ast_parse db"
  show "\<exists>r. cg_entity (store_catalog ast_parse src db) e = Inr r"
    using ok find_row_SomeD [of entity_key "(src, e)" "st_entities db"]
    by (fastforce simp: get_entity_def store_ok_def rows_ok_def split: option.splits)
next
  fix db e en assume "store_ok ast_parse db" "cg_entity (store_catalog ast_parse src db) e = Inr (Some en)"
  then show "entity_ok en \<and> en_name en = e" using row_to_entity_Inr by (auto elim: get_entity_Inr)
next
  fix db e en s t assume ok: "store_ok ast_parse db" and en: "cg_entity (store_catalog ast_parse src db) e = Inr (Some en)"
    and q: "match_qualified (en_qualified_table en) = Some (s, t)"
  obtain r where r: "r \<in> set (st_entities db)" "er_source r = src" "row_to_entity r = Inr en"
    using en by (auto elim: get_entity_Inr)
  then have "er_binding_schema r = s" "er_binding_table r = t" using row_to_entity_Inr [OF r(3)] qualified_parts q by auto
  then have "has_table db (s, t, src)" using ok r(1,2) by (auto simp: store_ok_def refs_ok_def entity_parent_def)
  then show "\<exists>tb. cg_table (store_catalog ast_parse src db) s t = Inr (Some tb)"
    using ok by (auto simp: store_ok_def rows_ok_def table_rows_ok_def)
next
  fix db assume ok: "store_ok ast_parse db"
  have "\<exists>js. list_canonical_joins db (Some src) = Inr js"
    unfolding list_canonical_joins_def by (rule rtraverse_total) (use ok in \<open>auto simp: store_ok_def rows_ok_def\<close>)
  then show "\<exists>js. cg_joins (store_catalog ast_parse src db) = Inr js" by simp
next
  fix db js j assume "store_ok ast_parse db" "cg_joins (store_catalog ast_parse src db) = Inr js" "j \<in> set js"
  then show "join_ok j" using row_to_join_Inr by (auto elim: listed_join)
next
  fix db js j e assume ok: "store_ok ast_parse db" and js: "cg_joins (store_catalog ast_parse src db) = Inr js" "j \<in> set js"
    and e: "e = cj_source_entity j \<or> e = cj_target_entity j"
  obtain r where r: "r \<in> set (st_joins db)" "jr_source r = src" "row_to_canonical_join r = Inr j"
    using js by (auto elim: listed_join)
  then have "has_entity db (src, e)" using ok e row_to_join_Inr [OF r(3)] by (auto simp: store_ok_def refs_ok_def)
  then show "\<exists>en. cg_entity (store_catalog ast_parse src db) e = Inr (Some en)" using store_entity [OF ok] by simp
qed

interpretation sqlite: metric_catalog "store_ok ast_parse" "store_catalog ast_parse src" ast_parse for ast_parse src
  by (rule store_is_catalog)

lemma store_idents:
  assumes "store_ok ast_parse db"
  shows "catalog_idents (store_catalog ast_parse src db)"
  unfolding catalog_idents_def
proof (intro conjI allI impI)
  fix e q assume "table_of (store_catalog ast_parse src db) e q"
  then obtain en where en: "cg_entity (store_catalog ast_parse src db) e = Inr (Some en)" "en_qualified_table en = q"
    by (auto simp: table_of_def)
  then show "is_ident e" "match_qualified q \<noteq> None"
    using sqlite.entity_valid [OF assms en(1)] by (auto simp: entity_ok_def)
next
  fix cs c assume "cg_joins (store_catalog ast_parse src db) = Inr cs" "c \<in> set cs"
  then show "join_ok c" by (rule sqlite.join_valid [OF assms])
qed

subsection \<open>Compilation as a whole\<close>

definition compile :: "(string \<Rightarrow> string + py_expr) \<Rightarrow> catalog \<Rightarrow> 'v metric_request \<Rightarrow> compile_error + string \<times> 'v sql_params" where
  "compile ast_parse cat q = rbind (resolve_metric_plan ast_parse cat q) (emit_sql ast_parse)"

text \<open>C29: On every reachable store the compiler says what is wrong or answers. It never reports store
  corruption, a broken invariant of its own, or a read that raised. An error of a request is one of these, with
  exactly the fields that the request and the catalog determine: its metric has no row; its grain is not one of the
  metric's; a measure column is gone from the metric's table; one of its group or filter references is malformed, or
  names no entity, no column of one, or an entity that the join search does not reach in one way; the value of one of
  its filters does not fit its operator, by position; one of its orders names neither the metric nor a group column of
  it; or, when it asks for a grain of a metric without a time dimension, several timestamp columns could be inherited,
  or the one that is inherited, which the request need not name, is refused like a group column. Otherwise it yields a
  well-formed plan, in which the joins are stored
  canonical joins, each oriented the way it is walked and emitted after the alias on its left with a fresh
  alias, and every group and filter column exists on the table that its alias stands for, in one entry per
  requested column and in the order of the filters.\<close>

theorem resolver_blames_request:
  assumes "store_ok ast_parse db"
  shows "case resolve_metric_plan ast_parse (store_catalog ast_parse src db) q of
      Inl e \<Rightarrow> request_error e \<and> blames ast_parse (store_catalog ast_parse src db) q e
    | Inr p \<Rightarrow> plan_ok ast_parse (store_catalog ast_parse src db) q p"
  using sqlite.resolved_plan_ok [OF assms, of src q] sqlite.request_blamed [OF assms, of src q]
  by (simp add: rspec_def espec_def split: sum.splits)

text \<open>C30: The emitter is total on resolved plans, and its text has no semicolon. For a plan the resolver
  returned, emission does not raise: the join order, the time bucket, the parameter names and the final
  check for a second statement are all in order, and the bound values are those of the predicates and the limit.\<close>

theorem resolved_plans_emit:
  assumes "store_ok ast_parse db" "python_parser ast_parse"
    "resolve_metric_plan ast_parse (store_catalog ast_parse src db) q = Inr p"
  shows "\<exists>sql. emit_sql ast_parse p = Inr (sql, collect_params (concat (map predicate_binds (mp_predicates p))) (mq_limit q))
    \<and> CHR '';'' \<notin> set sql"
proof -
  have "plan_ok ast_parse (store_catalog ast_parse src db) q p"
    using sqlite.resolved_plan_ok [OF assms(1), of src q] assms(3) by simp
  moreover from this have "mp_limit p = mq_limit q" by (simp add: plan_ok_def)
  ultimately show ?thesis using emit_plan_ok [OF _ store_idents [OF assms(1)] assms(2), of src q p] by (auto simp: no_semi_def)
qed

subsection \<open>A compiled request\<close>

definition demo_request :: "nat metric_request" where
  "demo_request = \<lparr>mq_metric_name = ''revenue'', mq_group_by = [''order.id''],
     mq_filters = [\<lparr>rf_column = ''order.total'', rf_op = Op_Gt, rf_value = V_Scalar 5\<rparr>, \<lparr>rf_column = ''order.id'', rf_op = Op_In, rf_value = V_List [7, 8]\<rparr>],
     mq_time_grain = None, mq_time_dimension = None, mq_limit = 10, mq_via = [],
     mq_order_by = [\<lparr>ro_column = ''revenue'', ro_direction = Desc\<rparr>]\<rparr>"

lemma demo_store_good: "store_ok no_parse (demo_store Manual)"
  by (rule store_reach_ok [OF demo_store_reach(1)])

lemma demo_request_resolves:
  obtains p where "resolve_metric_plan no_parse (store_catalog no_parse ''s'' (demo_store Manual)) demo_request = Inr p"
    "concat (map predicate_binds (mp_predicates p)) =
      [(''p_filter_0'', Bound (V_Scalar 5)), (''p_filter_1_0'', Bound (V_Scalar 7)), (''p_filter_1_1'', Bound (V_Scalar 8))]"
proof -
  have "(case resolve_metric_plan no_parse (store_catalog no_parse ''s'' (demo_store Manual)) demo_request of
      Inr p \<Rightarrow> concat (map predicate_binds (mp_predicates p)) =
        [(''p_filter_0'', Bound (V_Scalar 5)), (''p_filter_1_0'', Bound (V_Scalar 7)), (''p_filter_1_1'', Bound (V_Scalar 8))]
    | Inl e \<Rightarrow> False)"
    by code_simp
  then show ?thesis using that by (auto split: sum.splits)
qed

lemma demo_request_refused:
  "resolve_metric_plan no_parse (store_catalog no_parse ''s'' (demo_store Manual)) (demo_request\<lparr>mq_group_by := [''order.gone'']\<rparr>) =
     Inl (UnknownGroupByColumn ''order'' ''gone'' [''id'', ''total''])"
  by code_simp

theorem resolver_blames_request_witness:
  "(case resolve_metric_plan no_parse (store_catalog no_parse ''s'' (demo_store Manual)) demo_request of
      Inl e \<Rightarrow> False
    | Inr p \<Rightarrow> plan_ok no_parse (store_catalog no_parse ''s'' (demo_store Manual)) demo_request p) \<and>
   blames no_parse (store_catalog no_parse ''s'' (demo_store Manual)) (demo_request\<lparr>mq_group_by := [''order.gone'']\<rparr>)
     (UnknownGroupByColumn ''order'' ''gone'' [''id'', ''total''])"
proof
  obtain p where p: "resolve_metric_plan no_parse (store_catalog no_parse ''s'' (demo_store Manual)) demo_request = Inr p"
    by (rule demo_request_resolves)
  then show "(case resolve_metric_plan no_parse (store_catalog no_parse ''s'' (demo_store Manual)) demo_request of
      Inl e \<Rightarrow> False
    | Inr p \<Rightarrow> plan_ok no_parse (store_catalog no_parse ''s'' (demo_store Manual)) demo_request p)"
    using resolver_blames_request [OF demo_store_good, of "''s''" demo_request] by simp
  show "blames no_parse (store_catalog no_parse ''s'' (demo_store Manual)) (demo_request\<lparr>mq_group_by := [''order.gone'']\<rparr>)
     (UnknownGroupByColumn ''order'' ''gone'' [''id'', ''total''])"
    using resolver_blames_request [OF demo_store_good, of "''s''" "demo_request\<lparr>mq_group_by := [''order.gone'']\<rparr>"]
    unfolding demo_request_refused by simp
qed

theorem resolved_plans_emit_witness:
  "\<exists>sql. compile no_parse (store_catalog no_parse ''s'' (demo_store Manual)) demo_request =
     Inr (sql, collect_params [(''p_filter_0'', Bound (V_Scalar 5)), (''p_filter_1_0'', Bound (V_Scalar 7)),
       (''p_filter_1_1'', Bound (V_Scalar 8))] 10) \<and> CHR '';'' \<notin> set sql"
proof -
  obtain p where p: "resolve_metric_plan no_parse (store_catalog no_parse ''s'' (demo_store Manual)) demo_request = Inr p"
    "concat (map predicate_binds (mp_predicates p)) =
      [(''p_filter_0'', Bound (V_Scalar 5)), (''p_filter_1_0'', Bound (V_Scalar 7)), (''p_filter_1_1'', Bound (V_Scalar 8))]"
    by (rule demo_request_resolves)
  have "python_parser no_parse" by (simp add: python_parser_def no_parse_def)
  from resolved_plans_emit [OF demo_store_good this p(1)] show ?thesis
    using p by (simp add: compile_def demo_request_def)
qed

end
