(* ===== verification/McpNames.thy ===== *)
theory McpNames
  imports Prelude
begin

section \<open>Names an agent sends (mcp/_helpers.py)\<close>

text \<open>
  The tools take dotted names of two or three segments, plain or in the double quotes of SQL. This
  theory holds the tokeniser, the checks of a segment, the two parsers with their bounded echo, and
  the writing of a name that the parsers read back: exactly the names the checks allow can be sent.
\<close>

datatype ident_role = R_Schema | R_Table | R_Column | R_Entity | R_Entity_A | R_Entity_B | R_Name

definition MAX_IDENT_LEN :: nat where
  "MAX_IDENT_LEN = 63"

definition MAX_ECHO_LEN :: nat where
  "MAX_ECHO_LEN = MAX_IDENT_LEN * 3 + 2"

definition MAX_QUALIFIED_NAME_LEN :: nat where
  "MAX_QUALIFIED_NAME_LEN = 512"

text \<open>What an error message may carry of its input, before \<^verbatim>\<open>repr\<close>.\<close>

definition bounded_echo :: "string \<Rightarrow> string" where
  "bounded_echo v = (if py_len v \<le> MAX_ECHO_LEN then v else py_take MAX_ECHO_LEN v @ ''...'')"

datatype name_error =
    EmptyPart ident_role
  | PartTooLong ident_role nat string
  | ControlCharacter ident_role string
  | BadPart ident_role string
  | EmptyName
  | NameTooLong nat string
  | TrailingDot string
  | UnterminatedQuote string
  | DotExpected nat string
  | SplitFailed string name_error
  | SegmentCount nat string
  | SegmentFailed string name_error

subsection \<open>The checks of one part\<close>

definition quote_char :: char where
  "quote_char = CHR 0x22"

definition line_feed :: char where
  "line_feed = CHR 0x0A"

text \<open>\<^verbatim>\<open>re.match\<close> with \<^verbatim>\<open>$\<close>: the end of the text, or just before a line feed that ends it.\<close>

definition ident_regex :: "string \<Rightarrow> bool" where
  "ident_regex s \<longleftrightarrow> is_ident s \<or> s \<noteq> [] \<and> last s = line_feed \<and> is_ident (butlast s)"

definition is_control :: "char \<Rightarrow> bool" where
  "is_control c \<longleftrightarrow> of_char c \<le> (31 :: nat) \<or> of_char c = (127 :: nat)"

definition validate_ident :: "string \<Rightarrow> ident_role \<Rightarrow> name_error + unit" where
  "validate_ident part role =
     (if part = [] then Inl (EmptyPart role)
      else if py_len part > MAX_IDENT_LEN then Inl (PartTooLong role (py_len part) (bounded_echo part))
      else if \<not> ident_regex part then Inl (BadPart role (bounded_echo part))
      else Inr ())"

definition validate_parsed_segment :: "string \<Rightarrow> bool \<Rightarrow> ident_role \<Rightarrow> name_error + unit" where
  "validate_parsed_segment v was_quoted role =
     (if v = [] then Inl (EmptyPart role)
      else if py_len v > MAX_IDENT_LEN then Inl (PartTooLong role (py_len v) (bounded_echo v))
      else if list_ex is_control v then Inl (ControlCharacter role (bounded_echo v))
      else if \<not> was_quoted \<and> \<not> ident_regex v then Inl (BadPart role (bounded_echo v))
      else Inr ())"

subsection \<open>The tokeniser\<close>

text \<open>From behind an opening quote: the value, in which a doubled quote stands for one, and what follows
  the closing quote; \<open>None\<close> when there is none.\<close>

fun scan_quoted :: "string \<Rightarrow> (string \<times> string) option" where
  "scan_quoted [] = None"
| "scan_quoted (c # s) =
     (if c \<noteq> quote_char then map_option (\<lambda>(v, r). (c # v, r)) (scan_quoted s)
      else (case s of
              d # t \<Rightarrow> if d = quote_char then map_option (\<lambda>(v, r). (quote_char # v, r)) (scan_quoted t) else Some ([], s)
            | [] \<Rightarrow> Some ([], [])))"

lemma scan_quoted_shorter: "scan_quoted s = Some (v, r) \<Longrightarrow> length r < length s"
  by (induction s arbitrary: v r rule: scan_quoted.induct)
     (fastforce split: if_splits list.splits)+

definition scan_segment :: "string \<Rightarrow> ((string \<times> bool) \<times> string) option" where
  "scan_segment s =
     (case s of
        [] \<Rightarrow> None
      | c # t \<Rightarrow>
          if c = quote_char then map_option (\<lambda>(v, r). ((v, True), r)) (scan_quoted t)
          else Some ((takeWhile (\<lambda>x. x \<noteq> CHR ''.'') s, False), dropWhile (\<lambda>x. x \<noteq> CHR ''.'') s))"

lemma scan_segment_shorter: "scan_segment s = Some (seg, r) \<Longrightarrow> length r \<le> length s"
  by (auto simp: scan_segment_def length_dropWhile_le le_SucI split: list.splits if_splits dest: scan_quoted_shorter)

function split_segments :: "string \<Rightarrow> string \<Rightarrow> name_error + (string \<times> bool) list" where
  "split_segments whole s =
     (if s = [] then Inl (TrailingDot (bounded_echo whole))
      else (case scan_segment s of
              None \<Rightarrow> Inl (UnterminatedQuote (bounded_echo whole))
            | Some (seg, r) \<Rightarrow>
                (case r of
                   [] \<Rightarrow> Inr [seg]
                 | d # t \<Rightarrow>
                     if d \<noteq> CHR ''.'' then Inl (DotExpected (py_len whole - py_len r) (bounded_echo whole))
                     else rbind (split_segments whole t) (\<lambda>segs. Inr (seg # segs)))))"
  by pat_completeness auto
termination
  by (relation "measure (length \<circ> snd)") (auto dest: scan_segment_shorter)

declare split_segments.simps [simp del]

definition split_qualified_segments :: "string \<Rightarrow> name_error + (string \<times> bool) list" where
  "split_qualified_segments q =
     (if q = [] then Inl EmptyName
      else if py_len q > MAX_QUALIFIED_NAME_LEN then Inl (NameTooLong (py_len q) (bounded_echo q))
      else split_segments q q)"

subsection \<open>The parsers\<close>

text \<open>The errors of the inner steps are wrapped with the echo of the whole input.\<close>

definition wrap_error :: "(name_error \<Rightarrow> name_error) \<Rightarrow> name_error + 'a \<Rightarrow> name_error + 'a" where
  "wrap_error f r = (case r of Inl e \<Rightarrow> Inl (f e) | Inr x \<Rightarrow> Inr x)"

definition parse_segments :: "ident_role list \<Rightarrow> string \<Rightarrow> name_error + string list" where
  "parse_segments roles q =
     rbind (wrap_error (SplitFailed (bounded_echo q)) (split_qualified_segments q)) (\<lambda>segs.
     if length segs \<noteq> length roles then Inl (SegmentCount (length segs) (bounded_echo q))
     else rbind (wrap_error (SegmentFailed (bounded_echo q))
                  (rtraverse (\<lambda>((v, quoted), role). validate_parsed_segment v quoted role) (zip segs roles))) (\<lambda>_.
          Inr (map fst segs)))"

definition parse_qualified_name :: "string \<Rightarrow> name_error + string \<times> string" where
  "parse_qualified_name q = rbind (parse_segments [R_Schema, R_Table] q) (\<lambda>ps. Inr (ps ! 0, ps ! 1))"

definition parse_column_qualified_name :: "string \<Rightarrow> name_error + string \<times> string \<times> string" where
  "parse_column_qualified_name q =
     rbind (parse_segments [R_Schema, R_Table, R_Column] q) (\<lambda>ps. Inr (ps ! 0, ps ! 1, ps ! 2))"

subsection \<open>Which names can be sent\<close>

definition name_ok :: "string \<Rightarrow> bool" where
  "name_ok v \<longleftrightarrow> v \<noteq> [] \<and> py_len v \<le> MAX_IDENT_LEN \<and> \<not> list_ex is_control v"

text \<open>A name in double quotes.\<close>

definition escape_quotes :: "string \<Rightarrow> string" where
  "escape_quotes v = concat (map (\<lambda>c. if c = quote_char then [c, c] else [c]) v)"

definition quote_name :: "string \<Rightarrow> string" where
  "quote_name v = quote_char # escape_quotes v @ [quote_char]"

lemma validate_segment_ok: "validate_parsed_segment v was_quoted role = Inr () \<Longrightarrow> name_ok v"
  by (auto simp: validate_parsed_segment_def name_ok_def split: if_splits)

lemma validate_segment_quoted: "name_ok v \<Longrightarrow> validate_parsed_segment v True role = Inr ()"
  by (auto simp: validate_parsed_segment_def name_ok_def)

lemma quote_char_len [simp]: "\<not> is_cont quote_char" "\<not> is_cont CHR ''.''"
  by (simp_all add: is_cont_def quote_char_def)

lemma py_len_escape: "py_len (escape_quotes v) \<le> 2 * py_len v"
  by (induction v) (auto simp: escape_quotes_def)

lemma py_len_quote: "py_len (quote_name v) \<le> 2 + 2 * py_len v"
  using py_len_escape [of v] by (simp add: quote_name_def)

lemma scan_escaped:
  "case r of [] \<Rightarrow> True | d # t \<Rightarrow> d \<noteq> quote_char \<Longrightarrow> scan_quoted (escape_quotes v @ quote_char # r) = Some (v, r)"
  by (induction v) (auto simp: escape_quotes_def split: list.splits)

lemma scan_quote_name:
  "case r of [] \<Rightarrow> True | d # t \<Rightarrow> d \<noteq> quote_char \<Longrightarrow> scan_segment (quote_name v @ r) = Some ((v, True), r)"
  using scan_escaped [of r v] by (simp add: scan_segment_def quote_name_def)

lemma dot_not_quote [simp]: "CHR ''.'' \<noteq> quote_char"
  by (simp add: quote_char_def)

lemma quote_name_nonempty [simp]: "quote_name v \<noteq> []"
  by (simp add: quote_name_def)

lemma split_quoted_last: "split_segments whole (quote_name v) = Inr [(v, True)]"
  using scan_quote_name [of "[]" v] by (simp add: split_segments.simps)

lemma split_quoted_more:
  "split_segments whole (quote_name v @ CHR ''.'' # t) = rbind (split_segments whole t) (\<lambda>segs. Inr ((v, True) # segs))"
  using scan_quote_name [of "CHR ''.'' # t" v] by (subst split_segments.simps) simp

text \<open>Plain names.\<close>

lemma ident_char_bytes: "ident_char c \<Longrightarrow> \<not> is_cont c \<and> \<not> is_control c \<and> c \<noteq> quote_char \<and> c \<noteq> CHR ''.''"
  by (auto simp: char_class_defs is_cont_def is_control_def quote_char_def less_eq_char_def)

lemma is_ident_bytes:
  assumes "is_ident v"
  shows "py_len v = length v" "\<not> list_ex is_control v" "CHR ''.'' \<notin> set v" "hd v \<noteq> quote_char"
proof -
  have c: "c \<in> set v \<Longrightarrow> \<not> is_cont c \<and> \<not> is_control c \<and> c \<noteq> quote_char \<and> c \<noteq> CHR ''.''" for c
    using is_ident_chars [OF assms] ident_char_bytes by (simp add: list_all_iff)
  show "py_len v = length v" using c by (simp add: py_len_def filter_id_conv)
  show "\<not> list_ex is_control v" using c by (auto simp: list_ex_iff)
  show "CHR ''.'' \<notin> set v" using c by blast
  show "hd v \<noteq> quote_char" using c is_ident_nonempty [OF assms] by (metis hd_in_set)
qed

lemma scan_plain:
  assumes "is_ident v" "r = [] \<or> (\<exists>t. r = CHR ''.'' # t)"
  shows "scan_segment (v @ r) = Some ((v, False), r)"
proof -
  obtain c t where v: "v = c # t" using is_ident_nonempty [OF assms(1)] by (cases v) auto
  have d: "\<forall>x \<in> set v. x \<noteq> CHR ''.''" using is_ident_bytes(3) [OF assms(1)] by blast
  have "takeWhile (\<lambda>x. x \<noteq> CHR ''.'') (v @ r) = v" "dropWhile (\<lambda>x. x \<noteq> CHR ''.'') (v @ r) = r"
    using d takeWhile_append2 [of v "\<lambda>x. x \<noteq> CHR ''.''" r] dropWhile_append2 [of v "\<lambda>x. x \<noteq> CHR ''.''" r]
    by (cases r; use assms(2) in auto)+
  then show ?thesis using v is_ident_bytes(4) [OF assms(1)] by (simp add: scan_segment_def)
qed

lemma validate_segment_plain: "is_ident v \<Longrightarrow> length v \<le> MAX_IDENT_LEN \<Longrightarrow> validate_parsed_segment v q role = Inr ()"
  using is_ident_bytes(1,2) is_ident_nonempty by (simp add: validate_parsed_segment_def ident_regex_def)

lemma parse_plain:
  assumes "is_ident a" "is_ident b" "length a \<le> MAX_IDENT_LEN" "length b \<le> MAX_IDENT_LEN"
  shows "parse_qualified_name (a @ ''.'' @ b) = Inr (a, b)"
proof -
  have e: "a @ ''.'' @ b \<noteq> []" "b \<noteq> []" using is_ident_nonempty assms(2) by auto
  have "split_segments w b = Inr [(b, False)]" for w
    using scan_plain [OF assms(2), of "[]"] e by (simp add: split_segments.simps)
  then have "split_segments w (a @ ''.'' @ b) = Inr [(a, False), (b, False)]" for w
    using scan_plain [OF assms(1), of "CHR ''.'' # b"] by (subst split_segments.simps) simp
  moreover have "py_len (a @ ''.'' @ b) \<le> MAX_QUALIFIED_NAME_LEN"
    using py_len_le [of "a @ ''.'' @ b"] assms(3,4) by (simp add: MAX_IDENT_LEN_def MAX_QUALIFIED_NAME_LEN_def)
  ultimately have "split_qualified_segments (a @ ''.'' @ b) = Inr [(a, False), (b, False)]"
    by (simp add: split_qualified_segments_def)
  then show ?thesis
    using validate_segment_plain [OF assms(1,3), of False R_Schema] validate_segment_plain [OF assms(2,4), of False R_Table]
    by (simp add: parse_qualified_name_def parse_segments_def wrap_error_def)
qed

lemma parse_segments_ok:
  assumes "parse_segments roles q = Inr vs"
  shows "length vs = length roles \<and> list_all name_ok vs"
proof -
  obtain segs us where s: "length segs = length roles" "vs = map fst segs"
    "rtraverse (\<lambda>((v, quoted), role). validate_parsed_segment v quoted role) (zip segs roles) = Inr us"
    using assms by (auto simp: parse_segments_def wrap_error_def result_simps split: sum.splits if_splits)
  have "name_ok (fst (segs ! i))" if i: "i < length segs" for i
  proof -
    have "validate_parsed_segment (fst (segs ! i)) (snd (segs ! i)) (roles ! i) = Inr (us ! i)"
      using rtraverse_Inr_nth [OF s(3), of i] i s(1) by (simp add: case_prod_unfold)
    then show ?thesis using validate_segment_ok by simp
  qed
  then show ?thesis using s(1,2) by (simp add: list_all_length)
qed

lemma len_quoted: "name_ok v \<Longrightarrow> py_len (quote_name v) \<le> 128"
  using py_len_quote [of v] by (simp add: name_ok_def MAX_IDENT_LEN_def)

lemma parse_quoted:
  assumes "name_ok a" "name_ok b"
  shows "parse_qualified_name (quote_name a @ ''.'' @ quote_name b) = Inr (a, b)"
proof -
  have "split_qualified_segments (quote_name a @ ''.'' @ quote_name b) = Inr [(a, True), (b, True)]"
    using len_quoted [OF assms(1)] len_quoted [OF assms(2)]
    by (simp add: split_qualified_segments_def split_quoted_more split_quoted_last MAX_QUALIFIED_NAME_LEN_def)
  then show ?thesis using assms by (simp add: parse_qualified_name_def parse_segments_def wrap_error_def validate_segment_quoted)
qed

text \<open>The names that can be sent are exactly the allowed ones. A pair of names is what some text parses
  to if and only if both are non-empty, at most 63 characters and free of control characters, and then the
  text with both in double quotes does; the same for the three parts of a column name. So no identifier of
  the database that passes the checks is out of reach, and nothing the checks refuse is ever echoed as a name.\<close>

theorem names_sent_exactly:
  "(\<exists>q. parse_qualified_name q = Inr (a, b)) = (name_ok a \<and> name_ok b)
   \<and> (parse_qualified_name (quote_name a @ ''.'' @ quote_name b) = Inr (a, b)) = (name_ok a \<and> name_ok b)
   \<and> (\<exists>q. parse_column_qualified_name q = Inr (a, b, c)) = (name_ok a \<and> name_ok b \<and> name_ok c)
   \<and> (parse_column_qualified_name (quote_name a @ ''.'' @ quote_name b @ ''.'' @ quote_name c) = Inr (a, b, c))
       = (name_ok a \<and> name_ok b \<and> name_ok c)"
proof -
  let ?q2 = "quote_name a @ ''.'' @ quote_name b"
  let ?q3 = "quote_name a @ ''.'' @ quote_name b @ ''.'' @ quote_name c"
  note len = len_quoted
  note two = parse_quoted
  have three: "parse_column_qualified_name ?q3 = Inr (a, b, c)" if ok: "name_ok a" "name_ok b" "name_ok c"
  proof -
    have "split_qualified_segments ?q3 = Inr [(a, True), (b, True), (c, True)]"
      using len [OF ok(1)] len [OF ok(2)] len [OF ok(3)]
      by (simp add: split_qualified_segments_def split_quoted_more split_quoted_last MAX_QUALIFIED_NAME_LEN_def)
    then show ?thesis using ok by (simp add: parse_column_qualified_name_def parse_segments_def wrap_error_def validate_segment_quoted)
  qed
  have two': "name_ok a \<and> name_ok b" if p: "parse_qualified_name q = Inr (a, b)" for q
  proof -
    obtain vs where "parse_segments [R_Schema, R_Table] q = Inr vs" "a = vs ! 0" "b = vs ! 1"
      using rbind_InrE [OF p [unfolded parse_qualified_name_def]] by (metis old.sum.inject(2) prod.inject)
    then show ?thesis using parse_segments_ok [of "[R_Schema, R_Table]" q vs] by (simp add: list_all_length)
  qed
  have three': "name_ok a \<and> name_ok b \<and> name_ok c" if p: "parse_column_qualified_name q = Inr (a, b, c)" for q
  proof -
    obtain vs where "parse_segments [R_Schema, R_Table, R_Column] q = Inr vs" "a = vs ! 0" "b = vs ! 1" "c = vs ! 2"
      using rbind_InrE [OF p [unfolded parse_column_qualified_name_def]] by (metis old.sum.inject(2) prod.inject)
    then show ?thesis using parse_segments_ok [of "[R_Schema, R_Table, R_Column]" q vs] by (simp add: list_all_length)
  qed
  show ?thesis using two three two' three' by blast
qed

end
