(* ===== verification/CloseMatch.thy ===== *)
theory CloseMatch
  imports Prelude
begin

section \<open>The closest name (difflib.get_close_matches with n=1 and cutoff=0.6)\<close>

text \<open>
  The similarity of two texts is twice the number of matched characters over the sum of their lengths,
  where the matches are the longest common block and, on either side of it, again the longest ones.
  Ratios are compared as fractions. The junk heuristic, which starts at 200 characters, is left out.
\<close>

function code_points :: "string \<Rightarrow> string list" where
  "code_points [] = []"
| "code_points (c # s) = (c # takeWhile is_cont s) # code_points (dropWhile is_cont s)"
  by pat_completeness auto
termination
  by (relation "measure length") (auto simp: le_imp_less_Suc length_dropWhile_le)

fun common_prefix :: "'a list \<Rightarrow> 'a list \<Rightarrow> nat" where
  "common_prefix (x # xs) (y # ys) = (if x = y then Suc (common_prefix xs ys) else 0)"
| "common_prefix xs ys = 0"

text \<open>The first longest block: at the least \<open>i\<close>, and there at the least \<open>j\<close>.\<close>

definition better_block :: "'a list \<Rightarrow> 'a list \<Rightarrow> nat \<times> nat \<times> nat \<Rightarrow> nat \<times> nat \<Rightarrow> nat \<times> nat \<times> nat" where
  "better_block a b best = (\<lambda>(i, j).
     (let k = common_prefix (drop i a) (drop j b) in if k > snd (snd best) then (i, j, k) else best))"

definition longest_match :: "'a list \<Rightarrow> 'a list \<Rightarrow> nat \<times> nat \<times> nat" where
  "longest_match a b = foldl (better_block a b) (0, 0, 0) (List.product [0..<length a] [0..<length b])"

lemma common_prefix_le: "common_prefix xs ys \<le> length xs"
  by (induction xs ys rule: common_prefix.induct) auto

lemma foldl_better:
  "(case best of (i, j, k) \<Rightarrow> 0 < k \<longrightarrow> i + k \<le> length a) \<Longrightarrow>
     (case foldl (better_block a b) best ps of (i, j, k) \<Rightarrow> 0 < k \<longrightarrow> i + k \<le> length a)"
proof (induction ps arbitrary: best)
  case (Cons p ps)
  have "common_prefix (drop (fst p) a) (drop (snd p) b) \<le> length a - fst p"
    using common_prefix_le [of "drop (fst p) a"] by simp
  then have "case better_block a b best p of (i, j, k) \<Rightarrow> 0 < k \<longrightarrow> i + k \<le> length a"
    using Cons.prems by (auto simp: better_block_def Let_def split: prod.splits)
  then show ?case using Cons.IH by simp
qed simp

lemma longest_match_le: "longest_match a b = (i, j, k) \<Longrightarrow> 0 < k \<Longrightarrow> i + k \<le> length a"
  using foldl_better [where best = "(0, 0, 0)" and a = a and b = b and ps = "List.product [0..<length a] [0..<length b]"] by (simp add: longest_match_def)

function matched :: "'a list \<Rightarrow> 'a list \<Rightarrow> nat" where
  "matched a b =
     (case longest_match a b of (i, j, k) \<Rightarrow>
        if k = 0 then 0 else k + matched (take i a) (take j b) + matched (drop (i + k) a) (drop (j + k) b))"
  by pat_completeness auto
termination
  by (relation "measure (length \<circ> fst)") (auto dest!: longest_match_le [OF sym])

declare matched.simps [simp del]

text \<open>The ratio as a fraction \<open>(numerator, denominator)\<close>; two empty texts are equal.\<close>

definition match_ratio :: "string \<Rightarrow> string \<Rightarrow> nat \<times> nat" where
  "match_ratio x word =
     (let a = code_points x; b = code_points word; t = length a + length b
      in if t = 0 then (1, 1) else (2 * matched a b, t))"

definition fraction_less :: "nat \<times> nat \<Rightarrow> nat \<times> nat \<Rightarrow> bool" where
  "fraction_less p q \<longleftrightarrow> fst p * snd q < fst q * snd p"

definition closer :: "(nat \<times> nat) \<times> string \<Rightarrow> (nat \<times> nat) \<times> string \<Rightarrow> bool" where
  "closer p q \<longleftrightarrow> fraction_less (fst p) (fst q) \<or> (\<not> fraction_less (fst q) (fst p) \<and> snd p < snd q)"

definition close_match :: "string \<Rightarrow> string list \<Rightarrow> string option" where
  "close_match word candidates =
     (let scored = filter (\<lambda>(r, x). \<not> fraction_less r (3, 5)) (map (\<lambda>x. (match_ratio x word, x)) candidates)
      in case scored of
           [] \<Rightarrow> None
         | s # ss \<Rightarrow> Some (snd (foldl (\<lambda>best p. if closer best p then p else best) s ss)))"

lemma foldl_choice: "foldl (\<lambda>best p. if Q best p then p else best) s ss \<in> set (s # ss)"
proof (induction ss arbitrary: s)
  case (Cons a ss)
  then show ?case using Cons [of s] Cons [of a] by auto
qed simp

lemma close_match_member:
  assumes "close_match word cs = Some m"
  shows "m \<in> set cs"
proof -
  obtain s ss where f: "filter (\<lambda>(r, x). \<not> fraction_less r (3, 5)) (map (\<lambda>x. (match_ratio x word, x)) cs) = s # ss"
    "m = snd (foldl (\<lambda>best p. if closer best p then p else best) s ss)"
    using assms by (auto simp: close_match_def Let_def split: list.splits)
  have "set (s # ss) \<subseteq> (\<lambda>x. (match_ratio x word, x)) ` set cs" unfolding f(1) [symmetric] by auto
  then show ?thesis using foldl_choice [of closer s ss] unfolding f(2) by auto
qed

lemma close_match_example: "close_match ''emial'' [''id'', ''email'', ''name''] = Some ''email''"
  by code_simp

end
