(* ===== verification/Firewall.thy ===== *)
theory Firewall
  imports EnrichmentStore McpNames CloseMatch "HOL-Library.Product_Lexorder"
begin

section \<open>The describe tools and their redaction (mcp/_redaction.py, mcp/describe_*.py)\<close>

text \<open>
  What an agent may read of a table, a column or an entity. Every tool looks up the PII tags of the
  columns it is about to show and hides those whose categories meet the effective block set, the
  operator's policy together with the catastrophic floor. The token estimate of a payload is left out.
\<close>

subsection \<open>Tags of a column and the block set\<close>

definition effective_block :: "pii_category set \<Rightarrow> string set" where
  "effective_block pii_block = category_names (pii_block \<union> CATASTROPHIC_LEAK_CATEGORIES)"

text \<open>\<^verbatim>\<open>tags.get(col, ("public", frozenset()))\<close>.\<close>

definition tag_of :: "(string \<times> sensitivity \<times> string set) list \<Rightarrow> string \<Rightarrow> sensitivity \<times> string set" where
  "tag_of tags c = (case map_of tags c of None \<Rightarrow> (Public, {}) | Some t \<Rightarrow> t)"

text \<open>What the store holds for a column, whether or not it is asked for.\<close>

definition stored_tag :: "score tag_table \<Rightarrow> string \<Rightarrow> string \<Rightarrow> string \<Rightarrow> sensitivity \<times> string set" where
  "stored_tag tags src tbl c =
     (case tags \<lparr>tk_source = src, tk_table = tbl, tk_column = c\<rparr> of
        None \<Rightarrow> (Public, {}) | Some r \<Rightarrow> (tr_sensitivity r, decode_pii_categories (tr_categories r)))"

definition is_blocked :: "score tag_table \<Rightarrow> string \<Rightarrow> string set \<Rightarrow> string \<Rightarrow> string \<Rightarrow> bool" where
  "is_blocked tags src block tbl c \<longleftrightarrow> snd (stored_tag tags src tbl c) \<inter> block \<noteq> {}"

lemma map_of_map_filter:
  "map_of (List.map_filter (\<lambda>c. map_option (\<lambda>r. (c, f r)) (m c)) cs) c = (if c \<in> set cs then map_option f (m c) else None)"
  by (induction cs) (auto simp: map_filter_simps split: option.splits)

lemma tag_of_stored:
  "c \<in> set cs \<Longrightarrow> tag_of (get_column_pii_tags tags src tbl cs) c = stored_tag tags src tbl c"
  unfolding tag_of_def get_column_pii_tags_def
    map_of_map_filter [of "\<lambda>r. (tr_sensitivity r, decode_pii_categories (tr_categories r))" "\<lambda>c. tags \<lparr>tk_source = src, tk_table = tbl, tk_column = c\<rparr>"]
  by (simp add: stored_tag_def split: option.split)

lemma finite_stored_tag [simp]: "finite (snd (stored_tag tags src tbl c))"
  by (simp add: stored_tag_def decode_pii_categories_def split: option.split)

subsection \<open>Masking of key columns\<close>

definition FK_REDACTED_PLACEHOLDER :: string where
  "FK_REDACTED_PLACEHOLDER = ''<redacted_column>''"

definition redact_blocked_fk_columns ::
  "score tag_table \<Rightarrow> string \<Rightarrow> string set \<Rightarrow> string \<Rightarrow> string list \<Rightarrow> string list" where
  "redact_blocked_fk_columns tags src block tbl cs =
     (if cs = [] then cs
      else (let found = get_column_pii_tags tags src tbl cs
            in map (\<lambda>c. if snd (tag_of found c) \<inter> block \<noteq> {} then FK_REDACTED_PLACEHOLDER else c) cs))"

lemma redact_fk_stored:
  "redact_blocked_fk_columns tags src block tbl cs = map (\<lambda>c. if is_blocked tags src block tbl c then FK_REDACTED_PLACEHOLDER else c) cs"
  by (auto simp: redact_blocked_fk_columns_def is_blocked_def tag_of_stored Let_def)

definition visible_allowed_columns ::
  "store \<Rightarrow> score tag_table \<Rightarrow> string \<Rightarrow> string set \<Rightarrow> string \<Rightarrow> string list \<Rightarrow> store_error + string list" where
  "visible_allowed_columns db tags src block entity_name cs =
     (if cs = [] then Inr cs
      else rbind (get_entity db src entity_name) (\<lambda>row. case row of
             None \<Rightarrow> Inr []
           | Some e \<Rightarrow>
               (let found = get_column_pii_tags tags src (en_qualified_table e) cs
                in Inr (filter (\<lambda>c. snd (tag_of found c) \<inter> block = {}) cs))))"

subsection \<open>Shapes of the answers\<close>

record column_info =
  ci_name :: string
  ci_data_type :: string
  ci_nullable :: bool
  ci_default :: "string option"
  ci_is_primary_key :: bool
  ci_description :: string
  ci_redacted :: bool

record foreign_key_info =
  fi_name :: string
  fi_source_columns :: "string list"
  fi_target_qualified_name :: string
  fi_target_columns :: "string list"

record incoming_foreign_key_info =
  ii_name :: string
  ii_source_qualified_name :: string
  ii_source_columns :: "string list"
  ii_target_columns :: "string list"

record table_description =
  td_qualified_name :: string
  td_schema_name :: string
  td_name :: string
  td_columns :: "column_info list"
  td_foreign_keys :: "foreign_key_info list"
  td_redacted_columns :: "string list"

record column_detail =
  cx_qualified_name :: string
  cx_schema_name :: string
  cx_table_name :: string
  cx_name :: string
  cx_data_type :: string
  cx_nullable :: bool
  cx_default :: "string option"
  cx_is_primary_key :: bool
  cx_description :: string
  cx_outgoing :: "foreign_key_info list"
  cx_incoming :: "incoming_foreign_key_info list"

record entity_column =
  ec_name :: string
  ec_data_type :: string
  ec_nullable :: bool
  ec_description :: string
  ec_pii_sensitivity :: sensitivity
  ec_pii_categories :: "string list"
  ec_redacted :: bool

record entity_detail =
  ed_name :: string
  ed_description :: string
  ed_qualified_table :: string
  ed_identity :: string
  ed_origin :: origin
  ed_columns :: "entity_column list"
  ed_inference_method :: inference_method
  ed_validation_state :: validation_state
  ed_redacted_columns :: "string list"

datatype describe_error =
    MalformedName name_error
  | TableNotFound string string
  | ColumnNotFound string "string option"
  | EntityNotFound string
  | ColumnBlocked "string list" "string list"
  | StoreRaised store_error
  | FkInvariant string

definition store_read :: "store_error + 'a \<Rightarrow> describe_error + 'a" where
  "store_read r = (case r of Inl e \<Rightarrow> Inl (StoreRaised e) | Inr x \<Rightarrow> Inr x)"

definition name_read :: "name_error + 'a \<Rightarrow> describe_error + 'a" where
  "name_read r = (case r of Inl e \<Rightarrow> Inl (MalformedName e) | Inr x \<Rightarrow> Inr x)"

lemma reads [simp]: "store_read r = Inr x \<longleftrightarrow> r = Inr x" "name_read s = Inr y \<longleftrightarrow> s = Inr y"
  by (simp_all add: store_read_def name_read_def split: sum.splits)

definition description_of :: "(string \<times> 'f column_description) list \<Rightarrow> string \<Rightarrow> string" where
  "description_of descs c = (case map_of descs c of None \<Rightarrow> [] | Some d \<Rightarrow> cd_text d)"

subsection \<open>Numbered placeholders\<close>

text \<open>The first blocked category by name and the running number of that category.\<close>

definition placeholder :: "string \<Rightarrow> nat \<Rightarrow> string" where
  "placeholder category n = ''<redacted_'' @ category @ ''_column_'' @ dec_of_nat n @ ''>''"

text \<open>The loop over the columns of a table: what is blocked of each, and its placeholder if anything is.\<close>

fun mask_columns :: "(string \<Rightarrow> string set) \<Rightarrow> (string \<Rightarrow> nat) \<Rightarrow> column list \<Rightarrow> (column \<times> string option) list" where
  "mask_columns blocked counters [] = []"
| "mask_columns blocked counters (c # cs) =
     (let b = blocked (co_name c) in
      if b = {} then (c, None) # mask_columns blocked counters cs
      else (let category = hd (sorted_list_of_set b); n = Suc (counters category)
            in (c, Some (placeholder category n)) # mask_columns blocked (counters(category := n)) cs))"

definition masked_columns :: "score tag_table \<Rightarrow> string \<Rightarrow> string set \<Rightarrow> string \<Rightarrow> column list \<Rightarrow> (column \<times> string option) list" where
  "masked_columns tt src block tbl cs =
     (let tags = get_column_pii_tags tt src tbl (map co_name cs)
      in mask_columns (\<lambda>c. snd (tag_of tags c) \<inter> block) (\<lambda>_. 0) cs)"

lemma mask_columns_fst: "map fst (mask_columns blocked counters cs) = cs"
  by (induction cs arbitrary: counters) (auto simp: Let_def)

lemma mask_columns_None: "(c, p) \<in> set (mask_columns blocked counters cs) \<Longrightarrow> p = None \<longleftrightarrow> blocked (co_name c) = {}"
  by (induction cs arbitrary: counters) (auto simp: Let_def split: if_splits)

subsection \<open>describe_table\<close>

definition table_column_info :: "(string \<times> 'f column_description) list \<Rightarrow> column \<times> string option \<Rightarrow> column_info" where
  "table_column_info descs = (\<lambda>(c, mask). case mask of
     Some p \<Rightarrow> \<lparr>ci_name = p, ci_data_type = co_data_type c, ci_nullable = co_nullable c, ci_default = None,
                ci_is_primary_key = False, ci_description = [], ci_redacted = True\<rparr>
   | None \<Rightarrow> \<lparr>ci_name = co_name c, ci_data_type = co_data_type c, ci_nullable = co_nullable c, ci_default = co_default c,
              ci_is_primary_key = co_is_primary_key c, ci_description = description_of descs (co_name c), ci_redacted = False\<rparr>)"

definition foreign_key_out :: "score tag_table \<Rightarrow> string \<Rightarrow> string set \<Rightarrow> string \<Rightarrow> foreign_key \<Rightarrow> foreign_key_info" where
  "foreign_key_out tags src block tbl k =
     \<lparr>fi_name = fk_name k,
      fi_source_columns = redact_blocked_fk_columns tags src block tbl (fk_source_columns k),
      fi_target_qualified_name = fk_target k,
      fi_target_columns = redact_blocked_fk_columns tags src block (fk_target k) (fk_target_columns k)\<rparr>"

text \<open>The tags are looked up under the text of the request, not under the parsed name.\<close>

definition describe_table :: "'f cache \<Rightarrow> string \<Rightarrow> pii_category set \<Rightarrow> string \<Rightarrow> describe_error + table_description" where
  "describe_table ca src pii_block q =
     rbind (name_read (parse_qualified_name q)) (\<lambda>(schema, name).
     rbind (store_read (get_table (ca_store ca) src schema name)) (\<lambda>row. case row of
       None \<Rightarrow> Inl (TableNotFound schema name)
     | Some t \<Rightarrow>
         (let descs = get_table_descriptions ca src schema name;
              block = effective_block pii_block;
              masked = masked_columns (ca_tags ca) src block q (tb_columns t)
          in Inr \<lparr>td_qualified_name = q, td_schema_name = schema, td_name = name,
               td_columns = map (table_column_info descs) masked,
               td_foreign_keys = map (foreign_key_out (ca_tags ca) src block q) (tb_foreign_keys t),
               td_redacted_columns = List.map_filter snd masked\<rparr>)))"

lemma table_column_type: "ci_data_type (table_column_info descs p) = co_data_type (fst p)"
  by (cases p) (simp add: table_column_info_def split: option.split)

subsection \<open>describe_column\<close>

definition get_foreign_keys_targeting :: "store \<Rightarrow> string \<Rightarrow> string \<Rightarrow> string \<Rightarrow> string \<Rightarrow> store_error + incoming_foreign_key list" where
  "get_foreign_keys_targeting db src schema tbl col =
     rtraverse (\<lambda>r. case check_incoming_foreign_key \<lparr>ik_name = fk_name (fr_key r),
           ik_source_qualified_name = fr_schema r @ ''.'' @ fr_table r,
           ik_source_columns = fk_source_columns (fr_key r), ik_target_columns = fk_target_columns (fr_key r)\<rparr> of
         Inl e \<Rightarrow> Inl (TableInvalid e) | Inr k \<Rightarrow> Inr k)
       (filter (\<lambda>r. col \<in> set (fk_target_columns (fr_key r)))
         (sort_key (\<lambda>r. (fr_schema r, fr_table r, fk_name (fr_key r)))
           (filter (\<lambda>r. fr_source r = src \<and> fk_target_schema (fr_key r) = schema \<and> fk_target_table (fr_key r) = tbl)
             (st_foreign_keys db))))"

definition foreign_key_in :: "score tag_table \<Rightarrow> string \<Rightarrow> string set \<Rightarrow> string \<Rightarrow> incoming_foreign_key \<Rightarrow> incoming_foreign_key_info" where
  "foreign_key_in tags src block tbl k =
     \<lparr>ii_name = ik_name k, ii_source_qualified_name = ik_source_qualified_name k,
      ii_source_columns = redact_blocked_fk_columns tags src block (ik_source_qualified_name k) (ik_source_columns k),
      ii_target_columns = redact_blocked_fk_columns tags src block tbl (ik_target_columns k)\<rparr>"

definition describe_column :: "'f cache \<Rightarrow> string \<Rightarrow> pii_category set \<Rightarrow> string \<Rightarrow> describe_error + column_detail" where
  "describe_column ca src pii_block q =
     rbind (name_read (parse_column_qualified_name q)) (\<lambda>(schema, tbl, col).
     rbind (store_read (get_table (ca_store ca) src schema tbl)) (\<lambda>row. case row of
       None \<Rightarrow> Inl (TableNotFound schema tbl)
     | Some t \<Rightarrow>
         (let qualified = schema @ ''.'' @ tbl; block = effective_block pii_block;
              tags = get_column_pii_tags (ca_tags ca) src qualified (map co_name (tb_columns t))
          in case get_column t col of
               None \<Rightarrow> Inl (ColumnNotFound q (close_match col
                 (filter (\<lambda>c. snd (tag_of tags c) \<inter> block = {}) (map co_name (tb_columns t)))))
             | Some c \<Rightarrow>
                 (let categories = snd (tag_of tags col) in
                  if categories \<inter> block \<noteq> {}
                  then Inl (ColumnBlocked (sorted_list_of_set categories) (sorted_list_of_set (categories \<inter> block)))
                  else rbind (store_read (get_foreign_keys_targeting (ca_store ca) src schema tbl col)) (\<lambda>incoming.
                       Inr \<lparr>cx_qualified_name = schema @ ''.'' @ tbl @ ''.'' @ col, cx_schema_name = schema, cx_table_name = tbl,
                         cx_name = col, cx_data_type = co_data_type c, cx_nullable = co_nullable c, cx_default = co_default c,
                         cx_is_primary_key = co_is_primary_key c,
                         cx_description = description_of (get_table_descriptions ca src schema tbl) col,
                         cx_outgoing = map (foreign_key_out (ca_tags ca) src block qualified)
                           (filter (\<lambda>k. col \<in> set (fk_source_columns k)) (tb_foreign_keys t)),
                         cx_incoming = map (foreign_key_in (ca_tags ca) src block qualified) incoming\<rparr>)))))"

subsection \<open>describe_entity\<close>

definition entity_column_info ::
  "(string \<times> 'f column_description) list \<Rightarrow> (string \<times> sensitivity \<times> string set) list \<Rightarrow> column \<times> string option \<Rightarrow> entity_column" where
  "entity_column_info descs tags = (\<lambda>(c, mask).
     \<lparr>ec_name = (case mask of Some p \<Rightarrow> p | None \<Rightarrow> co_name c), ec_data_type = co_data_type c, ec_nullable = co_nullable c,
      ec_description = (if mask = None then description_of descs (co_name c) else []),
      ec_pii_sensitivity = fst (tag_of tags (co_name c)),
      ec_pii_categories = (if mask = None then sorted_list_of_set (snd (tag_of tags (co_name c))) else []),
      ec_redacted = (mask \<noteq> None)\<rparr>)"

definition describe_entity :: "'f cache \<Rightarrow> string \<Rightarrow> pii_category set \<Rightarrow> string \<Rightarrow> describe_error + entity_detail" where
  "describe_entity ca src pii_block name =
     rbind (name_read (validate_ident name R_Entity)) (\<lambda>_.
     rbind (store_read (get_entity (ca_store ca) src name)) (\<lambda>row. case row of
       None \<Rightarrow> Inl (EntityNotFound name)
     | Some e \<Rightarrow>
         (case split1 CHR ''.'' (en_qualified_table e) of
            (schema, None) \<Rightarrow> Inl (StoreRaised (UnpackError (en_qualified_table e)))
          | (schema, Some tbl) \<Rightarrow>
              rbind (store_read (get_table (ca_store ca) src schema tbl)) (\<lambda>trow. case trow of
                None \<Rightarrow> Inl (FkInvariant name)
              | Some t \<Rightarrow>
                  (let descs = get_table_descriptions ca src schema tbl;
                       tags = get_column_pii_tags (ca_tags ca) src (en_qualified_table e) (map co_name (tb_columns t));
                       masked = masked_columns (ca_tags ca) src (effective_block pii_block) (en_qualified_table e) (tb_columns t)
                   in Inr \<lparr>ed_name = en_name e, ed_description = en_description e, ed_qualified_table = en_qualified_table e,
                        ed_identity = en_identity e, ed_origin = en_origin e, ed_columns = map (entity_column_info descs tags) masked,
                        ed_inference_method = en_inference_method e, ed_validation_state = en_validation_state e,
                        ed_redacted_columns = List.map_filter snd masked\<rparr>)))))"

subsection \<open>What the answers reveal\<close>

definition masked_key :: "score tag_table \<Rightarrow> string \<Rightarrow> string set \<Rightarrow> string \<Rightarrow> string list \<Rightarrow> bool" where
  "masked_key tags src block tbl cs \<longleftrightarrow> (\<forall>c \<in> set cs. c = FK_REDACTED_PLACEHOLDER \<or> \<not> is_blocked tags src block tbl c)"

lemma masked_redact: "masked_key tags src block tbl (redact_blocked_fk_columns tags src block tbl cs)"
  by (auto simp: masked_key_def redact_fk_stored)

definition masked_fk :: "score tag_table \<Rightarrow> string \<Rightarrow> string set \<Rightarrow> string \<Rightarrow> foreign_key_info \<Rightarrow> bool" where
  "masked_fk tags src block tbl k \<longleftrightarrow> masked_key tags src block tbl (fi_source_columns k)
     \<and> masked_key tags src block (fi_target_qualified_name k) (fi_target_columns k)"

lemma masked_foreign_key_out: "masked_fk tags src block tbl (foreign_key_out tags src block tbl k)"
  by (simp add: masked_fk_def foreign_key_out_def masked_redact)

text \<open>What the loop masks is what the tags under the looked-up text block.\<close>

lemma masked_columns_fst [simp]: "map fst (masked_columns tt src block tbl cs) = cs"
  by (simp add: masked_columns_def mask_columns_fst Let_def)

lemma masked_columns_stored:
  assumes "(c, m) \<in> set (masked_columns tt src block tbl cs)"
  shows "m = None \<longleftrightarrow> \<not> is_blocked tt src block tbl (co_name c)" "c \<in> set cs"
proof -
  have "c \<in> fst ` set (masked_columns tt src block tbl cs)" using assms by force
  then show c: "c \<in> set cs" unfolding set_map [symmetric] masked_columns_fst .
  then have "tag_of (get_column_pii_tags tt src tbl (map co_name cs)) (co_name c) = stored_tag tt src tbl (co_name c)"
    using tag_of_stored by simp
  then show "m = None \<longleftrightarrow> \<not> is_blocked tt src block tbl (co_name c)"
    using mask_columns_None [OF assms [unfolded masked_columns_def Let_def]] by (simp add: is_blocked_def)
qed

lemma describe_tableE:
  assumes "describe_table ca src pii_block q = Inr d"
  obtains t where "parse_qualified_name q = Inr (td_schema_name d, td_name d)"
    "get_table (ca_store ca) src (td_schema_name d) (td_name d) = Inr (Some t)"
    "td_columns d = map (table_column_info (get_table_descriptions ca src (td_schema_name d) (td_name d)))
       (masked_columns (ca_tags ca) src (effective_block pii_block) q (tb_columns t))"
    "td_foreign_keys d = map (foreign_key_out (ca_tags ca) src (effective_block pii_block) q) (tb_foreign_keys t)"
    "td_redacted_columns d = List.map_filter snd (masked_columns (ca_tags ca) src (effective_block pii_block) q (tb_columns t))"
proof -
  note h = assms [unfolded describe_table_def]
  obtain n where n: "parse_qualified_name q = Inr n" using h by (rule rbind_InrE) simp
  obtain schema name where p: "n = (schema, name)" by (cases n)
  obtain t where t: "get_table (ca_store ca) src schema name = Inr (Some t)"
    using h unfolding n p by (auto simp: store_read_def name_read_def split: sum.splits option.splits)
  show thesis using h that [of t] unfolding n p by (auto simp: t store_read_def name_read_def Let_def)
qed

text \<open>What describe_table has to show, without its loop. A blocked column is called after the least of its blocked categories
  and the number of columns up to it that are called after the same one; nothing but its type and nullability is shown of it.\<close>

definition mask_category :: "score tag_table \<Rightarrow> string \<Rightarrow> string set \<Rightarrow> string \<Rightarrow> string \<Rightarrow> string" where
  "mask_category tags src block tbl c = Min (snd (stored_tag tags src tbl c) \<inter> block)"

definition mask_number :: "score tag_table \<Rightarrow> string \<Rightarrow> string set \<Rightarrow> string \<Rightarrow> string list \<Rightarrow> nat \<Rightarrow> nat" where
  "mask_number tags src block tbl names i =
     length (filter (\<lambda>c. is_blocked tags src block tbl c \<and> mask_category tags src block tbl c = mask_category tags src block tbl (names ! i))
       (take (Suc i) names))"

definition shown_column ::
  "score tag_table \<Rightarrow> string \<Rightarrow> string set \<Rightarrow> string \<Rightarrow> (string \<times> 'f column_description) list \<Rightarrow> column list \<Rightarrow> nat \<Rightarrow> column_info" where
  "shown_column tags src block tbl descs cs i =
     (if is_blocked tags src block tbl (co_name (cs ! i))
      then \<lparr>ci_name = placeholder (mask_category tags src block tbl (co_name (cs ! i))) (mask_number tags src block tbl (map co_name cs) i),
        ci_data_type = co_data_type (cs ! i), ci_nullable = co_nullable (cs ! i), ci_default = None,
        ci_is_primary_key = False, ci_description = [], ci_redacted = True\<rparr>
      else \<lparr>ci_name = co_name (cs ! i), ci_data_type = co_data_type (cs ! i), ci_nullable = co_nullable (cs ! i),
        ci_default = co_default (cs ! i), ci_is_primary_key = co_is_primary_key (cs ! i),
        ci_description = description_of descs (co_name (cs ! i)), ci_redacted = False\<rparr>)"

definition shown_keys :: "score tag_table \<Rightarrow> string \<Rightarrow> string set \<Rightarrow> string \<Rightarrow> string list \<Rightarrow> string list" where
  "shown_keys tags src block tbl cs = map (\<lambda>c. if is_blocked tags src block tbl c then FK_REDACTED_PLACEHOLDER else c) cs"

lemma mask_columns_numbered:
  "mask_columns blocked counters cs = map (\<lambda>i. (cs ! i, if blocked (co_name (cs ! i)) = {} then None
     else (let g = (\<lambda>c. hd (sorted_list_of_set (blocked c))) in
       Some (placeholder (g (co_name (cs ! i))) (counters (g (co_name (cs ! i))) +
         length (filter (\<lambda>c. blocked c \<noteq> {} \<and> g c = g (co_name (cs ! i))) (take (Suc i) (map co_name cs))))))))
     [0..<length cs]"
proof (induction cs arbitrary: counters)
  case (Cons c cs)
  have "[0..<length (c # cs)] = 0 # map Suc [0..<length cs]" by (simp add: upt_conv_Cons map_Suc_upt del: upt_Suc)
  then show ?case unfolding mask_columns.simps Cons.IH by (simp add: Let_def)
qed simp

lemma masked_columns_shown:
  "masked_columns tags src block tbl cs = map (\<lambda>i. (cs ! i, if is_blocked tags src block tbl (co_name (cs ! i))
     then Some (placeholder (mask_category tags src block tbl (co_name (cs ! i))) (mask_number tags src block tbl (map co_name cs) i))
     else None)) [0..<length cs]"
proof -
  let ?b = "\<lambda>c. snd (tag_of (get_column_pii_tags tags src tbl (map co_name cs)) c) \<inter> block"
  have b: "?b c = snd (stored_tag tags src tbl c) \<inter> block" if "c \<in> set (map co_name cs)" for c
    using tag_of_stored [OF that] by simp
  have g: "hd (sorted_list_of_set (?b c)) = mask_category tags src block tbl c" if "c \<in> set (map co_name cs)" "is_blocked tags src block tbl c" for c
    using that b [OF that(1)] by (simp add: mask_category_def is_blocked_def sorted_list_of_set_nonempty)
  have "length (filter (\<lambda>c. ?b c \<noteq> {} \<and> hd (sorted_list_of_set (?b c)) = hd (sorted_list_of_set (?b (co_name (cs ! i))))) (take (Suc i) (map co_name cs)))
      = mask_number tags src block tbl (map co_name cs) i"
    if i: "i < length cs" "is_blocked tags src block tbl (co_name (cs ! i))" for i
  proof -
    have m: "co_name (cs ! i) \<in> set (map co_name cs)" using i(1) by auto
    have "filter (\<lambda>c. ?b c \<noteq> {} \<and> hd (sorted_list_of_set (?b c)) = hd (sorted_list_of_set (?b (co_name (cs ! i))))) (take (Suc i) (map co_name cs)) =
        filter (\<lambda>c. is_blocked tags src block tbl c \<and> mask_category tags src block tbl c = mask_category tags src block tbl (co_name (cs ! i)))
          (take (Suc i) (map co_name cs))"
    proof (rule filter_cong [OF refl])
      fix c assume "c \<in> set (take (Suc i) (map co_name cs))"
      then have c: "c \<in> set (map co_name cs)" by (rule in_set_takeD)
      show "(?b c \<noteq> {} \<and> hd (sorted_list_of_set (?b c)) = hd (sorted_list_of_set (?b (co_name (cs ! i))))) \<longleftrightarrow>
          is_blocked tags src block tbl c \<and> mask_category tags src block tbl c = mask_category tags src block tbl (co_name (cs ! i))"
      proof (cases "is_blocked tags src block tbl c")
        case True
        have "?b c \<noteq> {}" using True unfolding b [OF c] is_blocked_def .
        then show ?thesis unfolding g [OF c True] g [OF m i(2)] using True by blast
      next
        case False
        then show ?thesis using b [OF c] by (simp add: is_blocked_def)
      qed
    qed
    then show ?thesis using i(1) by (simp add: mask_number_def)
  qed
  moreover have "?b (co_name (cs ! i)) = {} \<longleftrightarrow> \<not> is_blocked tags src block tbl (co_name (cs ! i))" if "i < length cs" for i
    using b [of "co_name (cs ! i)"] that by (simp add: is_blocked_def)
  ultimately show ?thesis unfolding masked_columns_def Let_def mask_columns_numbered
    by (intro map_cong [OF refl]) (use g in auto)
qed

lemma shown_masks: "table_column_info descs (cs ! i, if is_blocked tags src block tbl (co_name (cs ! i))
     then Some (placeholder (mask_category tags src block tbl (co_name (cs ! i))) (mask_number tags src block tbl (map co_name cs) i))
     else None) = shown_column tags src block tbl descs cs i"
  by (simp add: table_column_info_def shown_column_def)

lemma map_filter_shown:
  "List.map_filter snd (map (\<lambda>i. (h i, if P i then Some (f i) else None)) is) = map f (filter P is)"
  by (induction "is") (simp_all add: map_filter_simps)

text \<open>C3: A plain request hides what is blocked. When describe_table is asked by the very text under which the
  indexer stored the tags, its answer is exactly this: one entry per column of the stored table, in order; a column
  with a category that the policy or the catastrophic floor blocks is shown with its type and nullability under a
  placeholder, made of the least of these categories and the running number of that category, without default,
  description or key flag, and every other column as it is stored, with its description; the list of redacted columns
  holds the placeholders and no other name; and the foreign keys are those of the table with each blocked column, of
  this table or of the one pointed to, replaced by the fixed placeholder.\<close>

theorem describe_table_masks:
  assumes "describe_table ca src pii_block q = Inr d" "q = td_schema_name d @ ''.'' @ td_name d"
  shows "(\<forall>ci \<in> set (td_columns d). if ci_redacted ci then ci_default ci = None \<and> ci_description ci = [] \<and> \<not> ci_is_primary_key ci
       else \<not> is_blocked (ca_tags ca) src (effective_block pii_block) (td_schema_name d @ ''.'' @ td_name d) (ci_name ci)) \<and>
     (\<forall>k \<in> set (td_foreign_keys d). masked_fk (ca_tags ca) src (effective_block pii_block) (td_schema_name d @ ''.'' @ td_name d) k) \<and>
     td_redacted_columns d = map ci_name (filter ci_redacted (td_columns d)) \<and>
     (\<exists>t. get_table (ca_store ca) src (td_schema_name d) (td_name d) = Inr (Some t) \<and>
        td_columns d = map (shown_column (ca_tags ca) src (effective_block pii_block) (td_schema_name d @ ''.'' @ td_name d)
          (get_table_descriptions ca src (td_schema_name d) (td_name d)) (tb_columns t)) [0..<length (tb_columns t)] \<and>
        td_foreign_keys d = map (\<lambda>k. \<lparr>fi_name = fk_name k,
          fi_source_columns = shown_keys (ca_tags ca) src (effective_block pii_block) (td_schema_name d @ ''.'' @ td_name d) (fk_source_columns k),
          fi_target_qualified_name = fk_target k,
          fi_target_columns = shown_keys (ca_tags ca) src (effective_block pii_block) (fk_target k) (fk_target_columns k)\<rparr>) (tb_foreign_keys t))"
proof -
  let ?b = "effective_block pii_block" and ?ds = "get_table_descriptions ca src (td_schema_name d) (td_name d)" and ?tags = "ca_tags ca"
  obtain t where t: "get_table (ca_store ca) src (td_schema_name d) (td_name d) = Inr (Some t)"
    and cols: "td_columns d = map (table_column_info ?ds) (masked_columns ?tags src ?b q (tb_columns t))"
    and fks: "td_foreign_keys d = map (foreign_key_out ?tags src ?b q) (tb_foreign_keys t)"
    and red: "td_redacted_columns d = List.map_filter snd (masked_columns ?tags src ?b q (tb_columns t))"
    using assms(1) by (rule describe_tableE)
  have shown: "td_columns d = map (shown_column ?tags src ?b q ?ds (tb_columns t)) [0..<length (tb_columns t)]"
    unfolding cols masked_columns_shown map_map by (rule map_cong [OF refl]) (simp only: comp_apply shown_masks)
  have each: "if ci_redacted ci then ci_default ci = None \<and> ci_description ci = [] \<and> \<not> ci_is_primary_key ci
       else \<not> is_blocked ?tags src ?b q (ci_name ci)" if "ci \<in> set (td_columns d)" for ci
    using that unfolding shown set_map by (auto simp: shown_column_def)
  have listed: "td_redacted_columns d = map ci_name (filter ci_redacted (td_columns d))"
    unfolding red masked_columns_shown map_filter_shown shown filter_map map_map
    by (rule map_cong) (auto simp: shown_column_def cong: filter_cong)
  have keys: "td_foreign_keys d = map (\<lambda>k. \<lparr>fi_name = fk_name k, fi_source_columns = shown_keys ?tags src ?b q (fk_source_columns k),
      fi_target_qualified_name = fk_target k, fi_target_columns = shown_keys ?tags src ?b (fk_target k) (fk_target_columns k)\<rparr>) (tb_foreign_keys t)"
    unfolding fks by (simp add: foreign_key_out_def redact_fk_stored shown_keys_def)
  have masked: "masked_fk ?tags src ?b q k" if "k \<in> set (td_foreign_keys d)" for k
    using that masked_foreign_key_out unfolding fks set_map by blast
  show ?thesis unfolding assms(2) [symmetric]
    by (intro conjI ballI each masked listed exI [of _ t] t shown keys)
qed

text \<open>C4: Quoting the name defeats the mask. The tags are looked up under the text of the request, so a request
  that writes the same table in double quotes finds none of them: every column name, default and description of
  the table comes back, nothing is marked redacted, whatever the operator's policy. All that is used
  of the tags is that none is stored under the quoted text, which is not how the indexer names a table.\<close>

theorem describe_table_quoted_bypass:
  assumes "get_table (ca_store ca) src schema name = Inr (Some t)" "name_ok schema" "name_ok name"
    "\<And>c. ca_tags ca \<lparr>tk_source = src, tk_table = quote_name schema @ ''.'' @ quote_name name, tk_column = c\<rparr> = None"
  shows "\<exists>d. describe_table ca src pii_block (quote_name schema @ ''.'' @ quote_name name) = Inr d \<and>
     map ci_name (td_columns d) = map co_name (tb_columns t) \<and> map ci_default (td_columns d) = map co_default (tb_columns t) \<and>
     map fi_source_columns (td_foreign_keys d) = map fk_source_columns (tb_foreign_keys t) \<and> td_redacted_columns d = []"
proof -
  define q where "q = quote_name schema @ ''.'' @ quote_name name"
  let ?b = "effective_block pii_block"
  have p: "parse_qualified_name q = Inr (schema, name)" unfolding q_def by (rule parse_quoted [OF assms(2,3)])
  have nb: "\<not> is_blocked (ca_tags ca) src ?b q c" for c using assms(4) [of c] unfolding q_def [symmetric] by (simp add: is_blocked_def stored_tag_def)
  have m: "masked_columns (ca_tags ca) src ?b q (tb_columns t) = map (\<lambda>c. (c, None)) (tb_columns t)" (is "?m = _")
  proof (rule nth_equalityI)
    have l: "length ?m = length (tb_columns t)" by (metis length_map masked_columns_fst)
    then show "length ?m = length (map (\<lambda>c. (c, None)) (tb_columns t))" by simp
    fix i assume i: "i < length ?m"
    then have "(fst (?m ! i), snd (?m ! i)) \<in> set ?m" by simp
    then have "snd (?m ! i) = None" using masked_columns_stored(1) nb by blast
    moreover have "fst (?m ! i) = tb_columns t ! i" using i by (metis masked_columns_fst nth_map)
    ultimately show "?m ! i = map (\<lambda>c. (c, None)) (tb_columns t) ! i" using i l by (simp add: prod_eq_iff)
  qed
  have r: "redact_blocked_fk_columns (ca_tags ca) src ?b q cs = cs" for cs using nb by (simp add: redact_fk_stored)
  have e: "List.map_filter snd (map (\<lambda>c. (c, None)) cs) = []" for cs by (induction cs) (simp_all add: map_filter_simps)
  show ?thesis unfolding q_def [symmetric] describe_table_def p
    by (simp add: store_read_def name_read_def assms(1) m table_column_info_def foreign_key_out_def r e comp_def Let_def)
qed

text \<open>A store with one table, one of its columns tagged as a credential.\<close>

definition demo_tags :: "string \<Rightarrow> score tag_table" where
  "demo_tags c = write_column_pii_tags Map.empty 1 ''s'' ''public.orders'' [c \<mapsto> (Pii, {Credential})] (\<lambda>_. None)"

definition demo_cache :: "string \<Rightarrow> nat cache" where
  "demo_cache c = \<lparr>ca_store = demo_store Manual, ca_descriptions = [], ca_embeddings = [], ca_tags = demo_tags c\<rparr>"

lemma demo_table: "get_table (ca_store (demo_cache c)) ''s'' ''public'' ''orders'' = Inr (Some (demo_orders\<lparr>tb_columns := rev demo_columns\<rparr>))"
  unfolding demo_cache_def cache.simps by code_simp

theorem describe_table_masks_witness:
  "\<exists>d t. describe_table (demo_cache ''total'') ''s'' {} ''public.orders'' = Inr d \<and>
     get_table (ca_store (demo_cache ''total'')) ''s'' ''public'' ''orders'' = Inr (Some t) \<and> length (td_columns d) = length (tb_columns t) \<and>
     map ci_name (td_columns d) = [''id'', ''<redacted_credential_column_1>''] \<and> td_redacted_columns d = [''<redacted_credential_column_1>'']"
proof -
  have "(case describe_table (demo_cache ''total'') ''s'' {} ''public.orders'' of
      Inr d \<Rightarrow> map (\<lambda>c. (ci_name c, ci_redacted c)) (td_columns d) = [(''id'', False), (''<redacted_credential_column_1>'', True)]
        \<and> td_schema_name d = ''public'' \<and> td_name d = ''orders''
    | Inl e \<Rightarrow> False)" by code_simp
  then obtain d where d: "describe_table (demo_cache ''total'') ''s'' {} ''public.orders'' = Inr d"
    "map (\<lambda>c. (ci_name c, ci_redacted c)) (td_columns d) = [(''id'', False), (''<redacted_credential_column_1>'', True)]"
    "td_schema_name d = ''public''" "td_name d = ''orders''"
    by (auto split: sum.splits)
  obtain a b where ab: "td_columns d = [a, b]" "ci_name a = ''id''" "\<not> ci_redacted a" "ci_name b = ''<redacted_credential_column_1>''" "ci_redacted b"
    using d(2) by auto
  have "td_redacted_columns d = map ci_name (filter ci_redacted (td_columns d)) \<and>
      (\<exists>t. get_table (ca_store (demo_cache ''total'')) ''s'' (td_schema_name d) (td_name d) = Inr (Some t) \<and> length (td_columns d) = length (tb_columns t))"
    using describe_table_masks [OF d(1)] d(3,4) by auto
  then show ?thesis using d(1,3,4) ab by auto
qed

theorem describe_table_quoted_bypass_witness:
  "\<exists>d. describe_table (demo_cache ''total'') ''s'' {Credential, Contact} (quote_name ''public'' @ ''.'' @ quote_name ''orders'') = Inr d \<and>
     map ci_name (td_columns d) = [''id'', ''total''] \<and> td_redacted_columns d = [] \<and>
     is_blocked (ca_tags (demo_cache ''total'')) ''s'' (effective_block {}) ''public.orders'' ''total''"
proof -
  have ok: "name_ok ''public''" "name_ok ''orders''" by code_simp+
  have no: "ca_tags (demo_cache ''total'') \<lparr>tk_source = ''s'', tk_table = quote_name ''public'' @ ''.'' @ quote_name ''orders'', tk_column = c\<rparr> = None" for c
    by (simp add: demo_cache_def demo_tags_def write_column_pii_tags_def drop_heuristic_def quote_name_def quote_char_def)
  have b: "is_blocked (ca_tags (demo_cache ''total'')) ''s'' (effective_block {}) ''public.orders'' ''total''" by code_simp
  have names: "map co_name (tb_columns (demo_orders\<lparr>tb_columns := rev demo_columns\<rparr>)) = [''id'', ''total'']" by code_simp
  show ?thesis using describe_table_quoted_bypass [OF demo_table ok no, of "{Credential, Contact}"] b names by auto
qed

text \<open>C5: A column's own page never shows what is blocked. Asked for any text, describe_column answers only for a
  column that is allowed in the table the text names, masks in every foreign key, outgoing or incoming, what
  is blocked in the table it belongs to, and when the column does not exist suggests only an allowed one.\<close>

theorem describe_column_masks:
  "case describe_column ca src pii_block q of
     Inr d \<Rightarrow>
       (let tbl = cx_schema_name d @ ''.'' @ cx_table_name d; block = effective_block pii_block in
        \<not> is_blocked (ca_tags ca) src block tbl (cx_name d) \<and>
        (\<forall>k \<in> set (cx_outgoing d). masked_fk (ca_tags ca) src block tbl k) \<and>
        (\<forall>k \<in> set (cx_incoming d). masked_key (ca_tags ca) src block (ii_source_qualified_name k) (ii_source_columns k) \<and>
           masked_key (ca_tags ca) src block tbl (ii_target_columns k)))
   | Inl (ColumnNotFound text (Some m)) \<Rightarrow>
       (\<exists>schema tbl col. parse_column_qualified_name q = Inr (schema, tbl, col) \<and>
          \<not> is_blocked (ca_tags ca) src (effective_block pii_block) (schema @ ''.'' @ tbl) m)
   | Inl e \<Rightarrow> True"
proof (cases "parse_column_qualified_name q")
  case (Inl e)
  then show ?thesis by (simp add: describe_column_def name_read_def)
next
  case (Inr n)
  obtain schema tbl col where n: "n = (schema, tbl, col)" by (cases n)
  show ?thesis
  proof (cases "get_table (ca_store ca) src schema tbl")
    case (Inl e)
    then show ?thesis using Inr n by (simp add: describe_column_def name_read_def store_read_def)
  next
    case row: (Inr row)
    show ?thesis
    proof (cases row)
      case None
      then show ?thesis using Inr n row by (simp add: describe_column_def name_read_def store_read_def)
    next
      case (Some t)
      let ?q = "schema @ ''.'' @ tbl" and ?b = "effective_block pii_block"
      let ?tags = "get_column_pii_tags (ca_tags ca) src ?q (map co_name (tb_columns t))"
      have allowed: "\<not> is_blocked (ca_tags ca) src ?b ?q c" if "c \<in> set (map co_name (tb_columns t))" "snd (tag_of ?tags c) \<inter> ?b = {}" for c
        using that(2) unfolding tag_of_stored [OF that(1)] is_blocked_def by simp
      show ?thesis
      proof (cases "get_column t col")
        case None
        have "\<not> is_blocked (ca_tags ca) src ?b ?q m"
          if "close_match col (filter (\<lambda>c. snd (tag_of ?tags c) \<inter> ?b = {}) (map co_name (tb_columns t))) = Some m" for m
          using close_match_member [OF that] allowed by auto
        then show ?thesis using Inr n row Some None
          by (auto simp: describe_column_def name_read_def store_read_def Let_def split: option.split)
      next
        case c: (Some c)
        then have "col \<in> set (map co_name (tb_columns t))" unfolding get_column_def by (auto simp: find_Some_iff)
        then have "snd (tag_of ?tags col) \<inter> ?b = {} \<Longrightarrow> \<not> is_blocked (ca_tags ca) src ?b ?q col" by (rule allowed)
        then show ?thesis using Inr n row Some c masked_foreign_key_out masked_redact
          by (auto simp: describe_column_def name_read_def store_read_def Let_def foreign_key_in_def split: sum.split)
      qed
    qed
  qed
qed

theorem describe_column_masks_witness:
  "\<exists>d. describe_column (demo_cache ''total'') ''s'' {} ''public.orders.id'' = Inr d \<and> cx_name d = ''id'' \<and>
     \<not> is_blocked (ca_tags (demo_cache ''total'')) ''s'' (effective_block {}) ''public.orders'' ''id'' \<and>
     is_blocked (ca_tags (demo_cache ''total'')) ''s'' (effective_block {}) ''public.orders'' ''total''"
proof -
  have "case describe_column (demo_cache ''total'') ''s'' {} ''public.orders.id'' of
      Inr d \<Rightarrow> cx_schema_name d = ''public'' \<and> cx_table_name d = ''orders'' \<and> cx_name d = ''id'' | Inl e \<Rightarrow> False" by code_simp
  then obtain d where d: "describe_column (demo_cache ''total'') ''s'' {} ''public.orders.id'' = Inr d"
    "cx_schema_name d = ''public''" "cx_table_name d = ''orders''" "cx_name d = ''id''" by (auto split: sum.splits)
  have "is_blocked (ca_tags (demo_cache ''total'')) ''s'' (effective_block {}) ''public.orders'' ''total''" by code_simp
  then show ?thesis using describe_column_masks [where ca = "demo_cache ''total''" and src = "''s''" and pii_block = "{}" and q = "''public.orders.id''"] d by (auto simp: Let_def)
qed

lemma entity_column_masked:
  assumes "cm \<in> set (masked_columns tt src block tbl cs)"
    "e = entity_column_info descs (get_column_pii_tags tt src tbl (map co_name cs)) cm"
  shows "if ec_redacted e then ec_pii_categories e = [] \<and> ec_description e = [] else \<not> is_blocked tt src block tbl (ec_name e)"
proof -
  obtain c m where p: "cm = (c, m)" by (cases cm)
  show ?thesis using masked_columns_stored(1) [OF assms(1) [unfolded p]] unfolding assms(2) p
    by (cases m) (simp_all add: entity_column_info_def)
qed

text \<open>An entity shows no blocked column in its list, but always the name of its identity column. For any name
  asked, the columns that describe_entity does not mask are allowed in the bound table and the masked ones lose
  description and categories; the identity column's name comes back as the entity has it, whether or not
  it is blocked.\<close>

theorem describe_entity_masks:
  "case describe_entity ca src pii_block name of
     Inr d \<Rightarrow>
       (\<forall>e \<in> set (ed_columns d). if ec_redacted e then ec_pii_categories e = [] \<and> ec_description e = []
          else \<not> is_blocked (ca_tags ca) src (effective_block pii_block) (ed_qualified_table d) (ec_name e)) \<and>
       (\<exists>en. get_entity (ca_store ca) src name = Inr (Some en) \<and> ed_identity d = en_identity en \<and> ed_qualified_table d = en_qualified_table en)
   | Inl e \<Rightarrow> True"
proof (cases "describe_entity ca src pii_block name")
  case (Inr d)
  note h = Inr [unfolded describe_entity_def]
  obtain en where en: "get_entity (ca_store ca) src name = Inr (Some en)"
    using h by (elim rbind_InrE) (auto split: option.splits)
  obtain schema tbl where sp: "split1 CHR ''.'' (en_qualified_table en) = (schema, Some tbl)"
    using h by (elim rbind_InrE) (auto simp: en split: option.splits prod.splits)
  obtain t where t: "get_table (ca_store ca) src schema tbl = Inr (Some t)"
    using h by (elim rbind_InrE) (auto simp: en sp result_simps split: option.splits)
  have d: "ed_identity d = en_identity en" "ed_qualified_table d = en_qualified_table en"
    "ed_columns d = map (entity_column_info (get_table_descriptions ca src schema tbl)
       (get_column_pii_tags (ca_tags ca) src (en_qualified_table en) (map co_name (tb_columns t))))
       (masked_columns (ca_tags ca) src (effective_block pii_block) (en_qualified_table en) (tb_columns t))"
    using h by (elim rbind_InrE; auto simp: en sp t store_read_def Let_def)+
  have "if ec_redacted e then ec_pii_categories e = [] \<and> ec_description e = []
      else \<not> is_blocked (ca_tags ca) src (effective_block pii_block) (ed_qualified_table d) (ec_name e)"
    if e: "e \<in> set (ed_columns d)" for e
    using e unfolding d(2,3) set_map by (elim imageE) (rule entity_column_masked)
  then show ?thesis unfolding Inr sum.case using en d(1,2) by blast
qed simp

text \<open>The identity column of an entity can be one of those it hides.\<close>

lemma identity_name_leaks:
  "case describe_entity (demo_cache ''id'') ''s'' {} ''order'' of
     Inr d \<Rightarrow> ed_identity d = ''id'' \<and> map ec_name (ed_columns d) = [''<redacted_credential_column_1>'', ''total'']
   | Inl e \<Rightarrow> False"
  by code_simp

theorem describe_entity_masks_witness:
  "\<exists>d en. describe_entity (demo_cache ''id'') ''s'' {} ''order'' = Inr d \<and> map ec_name (ed_columns d) = [''<redacted_credential_column_1>'', ''total''] \<and>
     get_entity (demo_store Manual) ''s'' ''order'' = Inr (Some en) \<and> ed_identity d = en_identity en \<and> en_identity en = ''id'' \<and>
     (\<exists>e \<in> set (ed_columns d). ec_redacted e \<and> ec_pii_categories e = [])"
proof -
  have "case describe_entity (demo_cache ''id'') ''s'' {} ''order'' of
      Inr d \<Rightarrow> ed_identity d = ''id'' \<and> map ec_name (ed_columns d) = [''<redacted_credential_column_1>'', ''total'']
        \<and> list_ex ec_redacted (ed_columns d)
    | Inl e \<Rightarrow> False" by code_simp
  then obtain d e where d: "describe_entity (demo_cache ''id'') ''s'' {} ''order'' = Inr d" "ed_identity d = ''id''"
    "map ec_name (ed_columns d) = [''<redacted_credential_column_1>'', ''total'']" "e \<in> set (ed_columns d)" "ec_redacted e"
    by (auto simp: list_ex_iff split: sum.splits)
  have s: "ca_store (demo_cache ''id'') = demo_store Manual" by (simp add: demo_cache_def)
  note f = describe_entity_masks [where ca = "demo_cache ''id''" and src = "''s''" and pii_block = "{}" and name = "''order''", unfolded d(1) sum.case s]
  from f obtain en where "get_entity (demo_store Manual) ''s'' ''order'' = Inr (Some en)" "ed_identity d = en_identity en" by blast
  moreover have "ec_pii_categories e = []" using f d(4,5) by auto
  ultimately show ?thesis using d by metis
qed

lemma visible_allowed:
  "visible_allowed_columns db tags src block e cs = Inr vs \<Longrightarrow> get_entity db src e = Inr (Some en) \<Longrightarrow>
     vs = filter (\<lambda>c. \<not> is_blocked tags src block (en_qualified_table en) c) cs"
  by (auto simp: visible_allowed_columns_def Let_def is_blocked_def tag_of_stored split: if_splits intro!: filter_cong)

end
