(* ===== verification/MetricFirewall.thy ===== *)
theory MetricFirewall
  imports StoreCatalog Firewall
begin

section \<open>The get_metric tool (mcp/get_metric.py, mcp/envelope.py)\<close>

text \<open>
  The request is resolved, the columns of the plan pass the PII gate, the SQL is emitted and executed,
  and the rows are packed with what the plan says of them. The executor is a parameter. Tags are looked
  up column by column where the code fetches them table by table; the warning on standard error that
  no tag was found, the fingerprint and the token estimate are left out.
\<close>

subsection \<open>Trust in a fact\<close>

datatype confidence = Conf_Low | Conf_Medium | Conf_High

datatype provenance_source = From_Schema | From_Llm | Inferred

definition strong_method :: "inference_method \<Rightarrow> bool" where
  "strong_method im \<longleftrightarrow> im = Manually_Authored \<or> im = Fk_Constraint \<or> im = Inferred_Dbt"

definition derive_confidence :: "inference_method \<Rightarrow> validation_state \<Rightarrow> confidence" where
  "derive_confidence im vs =
     (if vs = Confirmed then Conf_High
      else if vs = Applied then (if strong_method im then Conf_High else Conf_Medium)
      else if strong_method im then Conf_Medium else Conf_Low)"

definition derive_provenance_source :: "inference_method \<Rightarrow> provenance_source" where
  "derive_provenance_source im =
     (if im = Llm_Suggested then From_Llm else if im = Observed_In_Query_Log then Inferred else From_Schema)"

fun confidence_rank :: "confidence \<Rightarrow> nat" where
  "confidence_rank Conf_Low = 0"
| "confidence_rank Conf_Medium = 1"
| "confidence_rank Conf_High = 2"

lemma confidence_rank_inj: "confidence_rank a = confidence_rank b \<longleftrightarrow> a = b"
  by (cases a; cases b) simp_all

instantiation confidence :: linorder
begin

definition less_eq_confidence :: "confidence \<Rightarrow> confidence \<Rightarrow> bool" where
  "less_eq_confidence x y \<longleftrightarrow> confidence_rank x \<le> confidence_rank y"

definition less_confidence :: "confidence \<Rightarrow> confidence \<Rightarrow> bool" where
  "less_confidence x y \<longleftrightarrow> confidence_rank x < confidence_rank y"

instance
  by standard (auto simp: less_eq_confidence_def less_confidence_def confidence_rank_inj)

end

text \<open>The weakest of the metric and the joins its plan goes through; the first of equally weak ones.\<close>

primrec weakest_signal ::
  "store \<Rightarrow> string \<Rightarrow> inference_method \<times> validation_state \<Rightarrow> string list \<Rightarrow> store_error + inference_method \<times> validation_state" where
  "weakest_signal db src worst [] = Inr worst"
| "weakest_signal db src worst (n # ns) =
     rbind (get_canonical_join db src n) (\<lambda>row. case row of
       None \<Rightarrow> weakest_signal db src worst ns
     | Some j \<Rightarrow>
         (let s = (cj_inference_method j, cj_validation_state j) in
          weakest_signal db src
            (if confidence_rank (derive_confidence (fst s) (snd s)) < confidence_rank (derive_confidence (fst worst) (snd worst))
             then s else worst) ns))"

definition aggregate_metric_plan_signal ::
  "store \<Rightarrow> string \<Rightarrow> inference_method \<Rightarrow> validation_state \<Rightarrow> string list \<Rightarrow> store_error + inference_method \<times> validation_state" where
  "aggregate_metric_plan_signal db src im vs names = weakest_signal db src (im, vs) names"

subsection \<open>The PII gate\<close>

datatype metric_error =
    BadLimit int
  | BadGrain string
  | MalformedTimeDimension string
  | CompileFailed compile_error
  | PiiBlocked "string list" "string list" string
  | ReadFailed store_error
  | ExecutorFailed string
  | BadResult "string list"

definition compiled :: "compile_error + 'a \<Rightarrow> metric_error + 'a" where
  "compiled r = (case r of Inl e \<Rightarrow> Inl (CompileFailed e) | Inr x \<Rightarrow> Inr x)"

definition plan_measure_columns :: "(string \<Rightarrow> string + py_expr) \<Rightarrow> 'v metric_plan \<Rightarrow> metric_error + string list" where
  "plan_measure_columns ast_parse p =
     (case measure_columns ast_parse (mt_measure (mp_metric p)) of
        Inl e \<Rightarrow> Inl (CompileFailed (MeasureError e)) | Inr cs \<Rightarrow> Inr (sorted_list_of_set cs))"

text \<open>The first of the columns, in this order, that carries any category at all.\<close>

definition refuse_tagged :: "score tag_table \<Rightarrow> string \<Rightarrow> string \<Rightarrow> (string \<times> string) list \<Rightarrow> metric_error + unit" where
  "refuse_tagged tags src entity touched =
     (case find (\<lambda>(tbl, c). snd (stored_tag tags src tbl c) \<noteq> {}) touched of
        None \<Rightarrow> Inr ()
      | Some (tbl, c) \<Rightarrow>
          (let cats = sorted_list_of_set (snd (stored_tag tags src tbl c)) in Inl (PiiBlocked cats cats entity)))"

text \<open>Group columns table by table in the order the tables first occur, sorted within a table.\<close>

definition group_columns_by_table :: "resolved_column list \<Rightarrow> (string \<times> string) list" where
  "group_columns_by_table cols =
     concat (map (\<lambda>tbl. map (Pair tbl) (sorted_list_of_set (set (map rc_column (filter (\<lambda>c. rc_qualified_table c = tbl) cols)))))
       (rev (remdups (rev (map rc_qualified_table cols)))))"

primrec join_key_columns :: "(string \<rightharpoonup> string) \<Rightarrow> string \<Rightarrow> resolved_join list \<Rightarrow> (string \<times> string) list" where
  "join_key_columns alias_table anchor_table [] = []"
| "join_key_columns alias_table anchor_table (j # js) =
     (let source_table = (case alias_table (rj_source_alias j) of Some t \<Rightarrow> t | None \<Rightarrow> anchor_table)
      in concat (map (\<lambda>k. [(source_table, jp_source_column k), (rj_target_table j, jp_target_column k)]) (rj_on_pairs j))
         @ join_key_columns (alias_table(rj_target_alias j \<mapsto> rj_target_table j)) anchor_table js)"

definition declared_time_column :: "'v metric_plan \<Rightarrow> metric_error + string list" where
  "declared_time_column p =
     (case mt_time_dimension (mp_metric p) of
        None \<Rightarrow> Inr []
      | Some d \<Rightarrow> (case split1 CHR ''.'' d of (e, Some c) \<Rightarrow> Inr [c] | (e, None) \<Rightarrow> Inl (MalformedTimeDimension d)))"

definition touched_columns :: "'v metric_plan \<Rightarrow> string list \<Rightarrow> string list \<Rightarrow> (string \<times> string) list" where
  "touched_columns p meas time =
     remdups (map (Pair (mp_anchor_table p)) (meas @ time)
       @ map (\<lambda>c. (rc_qualified_table c, rc_column c)) (mp_group_by p)
       @ map (\<lambda>f. (rc_qualified_table (rp_column f), rc_column (rp_column f))) (mp_predicates p)
       @ join_key_columns [mp_anchor_alias p \<mapsto> mp_anchor_table p] (mp_anchor_table p) (mp_joins p))"

definition resolve_pii_categories ::
  "(string \<Rightarrow> string + py_expr) \<Rightarrow> score tag_table \<Rightarrow> string \<Rightarrow> pii_category set \<Rightarrow> 'v metric_plan \<Rightarrow> metric_error + string list" where
  "resolve_pii_categories ast_parse tags src pii_block p =
     (let entity = mt_entity (mp_metric p); agg = mm_agg (mt_measure (mp_metric p)) in
      rbind (plan_measure_columns ast_parse p) (\<lambda>meas.
      rbind (if agg = Agg_Min \<or> agg = Agg_Max then refuse_tagged tags src entity (map (Pair (mp_anchor_table p)) meas) else Inr ()) (\<lambda>_.
      rbind (refuse_tagged tags src entity (group_columns_by_table (mp_group_by p))) (\<lambda>_.
      rbind (declared_time_column p) (\<lambda>time.
      (let touched = touched_columns p meas time;
           hits = filter (\<lambda>(tbl, c). tags \<lparr>tk_source = src, tk_table = tbl, tk_column = c\<rparr> \<noteq> None) touched in
       if hits = [] \<and> pii_block \<noteq> {} then Inl (PiiBlocked [] (sorted_category_names pii_block) entity)
       else
         (let propagated = snd (propagate (map (\<lambda>(tbl, c). stored_tag tags src tbl c) touched));
              blocked = propagated \<inter> effective_block pii_block in
          if blocked \<noteq> {} then Inl (PiiBlocked (sorted_list_of_set propagated) (sorted_list_of_set blocked) entity)
          else Inr (sorted_list_of_set propagated))))))))"

subsection \<open>The tool\<close>

record ('v, 'r) executor =
  ex_run :: "string \<Rightarrow> 'v sql_params \<Rightarrow> string + 'r list"
  ex_max_rows :: "nat option"

text \<open>The engine-backed executor: an error of the database is one message, a result above the cap is cut.\<close>

definition engine_execute :: "('v, 'r) executor \<Rightarrow> string \<Rightarrow> 'v sql_params \<Rightarrow> metric_error + 'r list" where
  "engine_execute ex sql params =
     (case ex_run ex sql params of
        Inl msg \<Rightarrow> Inl (ExecutorFailed msg)
      | Inr rows \<Rightarrow> (case ex_max_rows ex of Some n \<Rightarrow> Inr (take n rows) | None \<Rightarrow> Inr rows))"

record ('v, 'r) metric_result =
  mz_rows :: "'r list"
  mz_row_count :: nat
  mz_truncated :: bool
  mz_sql_skeleton :: string
  mz_sql_params :: "'v sql_params"
  mz_required_joins :: "string list"
  mz_fan_out_join_names :: "string list"
  mz_pii_categories :: "string list"
  mz_metric_inference_method :: inference_method
  mz_metric_validation_state :: validation_state
  mz_aggregate_inference_method :: inference_method
  mz_aggregate_validation_state :: validation_state
  mz_time_dimension_resolution :: time_resolution
  mz_inherited_time_dimension :: "string option"
  mz_time_dimension_inherited_via :: "string list"

text \<open>The arguments of the tool are a request whose grain is still text.\<close>

definition narrow_grain :: "string option \<Rightarrow> metric_error + time_grain option" where
  "narrow_grain grain =
     (case grain of
        None \<Rightarrow> Inr None
      | Some s \<Rightarrow> (case grain_of_name s of None \<Rightarrow> Inl (BadGrain s) | Some g \<Rightarrow> Inr (Some g)))"

definition row_cap :: "int \<Rightarrow> nat option \<Rightarrow> int" where
  "row_cap limit max_rows = (case max_rows of None \<Rightarrow> limit | Some n \<Rightarrow> min limit (int n))"

definition get_metric_impl ::
  "(string \<Rightarrow> string + py_expr) \<Rightarrow> 'f cache \<Rightarrow> ('v, 'r) executor \<Rightarrow> string \<Rightarrow> pii_category set \<Rightarrow> string option
   \<Rightarrow> 'v metric_request \<Rightarrow> metric_error + ('v, 'r) metric_result" where
  "get_metric_impl ast_parse ca ex src pii_block grain q =
     (if \<not> (1 \<le> mq_limit q \<and> mq_limit q \<le> 10000) then Inl (BadLimit (mq_limit q))
      else
        rbind (narrow_grain grain) (\<lambda>g.
        rbind (compiled (resolve_metric_plan ast_parse (store_catalog ast_parse src (ca_store ca)) (q\<lparr>mq_time_grain := g\<rparr>))) (\<lambda>p.
        rbind (resolve_pii_categories ast_parse (ca_tags ca) src pii_block p) (\<lambda>categories.
        rbind (compiled (emit_sql ast_parse p)) (\<lambda>(sql, params).
        rbind (engine_execute ex sql params) (\<lambda>rows.
        (let m = mp_metric p; names = required_join_names p in
         case aggregate_metric_plan_signal (ca_store ca) src (mt_inference_method m) (mt_validation_state m) names of
           Inl e \<Rightarrow> Inl (ReadFailed e)
         | Inr (im, vs) \<Rightarrow>
             if list_ex (\<lambda>c. category_of_name c = None) categories then Inl (BadResult categories)
             else Inr \<lparr>mz_rows = rows, mz_row_count = length rows,
               mz_truncated = (row_cap (mq_limit q) (ex_max_rows ex) \<le> int (length rows)),
               mz_sql_skeleton = sql, mz_sql_params = params, mz_required_joins = names,
               mz_fan_out_join_names = fan_out_join_names p, mz_pii_categories = categories,
               mz_metric_inference_method = mt_inference_method m, mz_metric_validation_state = mt_validation_state m,
               mz_aggregate_inference_method = im, mz_aggregate_validation_state = vs,
               mz_time_dimension_resolution = mp_time_resolution p,
               mz_inherited_time_dimension = mp_inherited_time_dimension p,
               mz_time_dimension_inherited_via = mp_inherited_via p\<rparr>)))))))"

subsection \<open>The columns a plan reads\<close>

text \<open>Which table an alias of the plan stands for, and the columns named by the measure, the declared time
  dimension, the groups, the filters and the join keys, each with its table.\<close>

definition alias_table :: "'v metric_plan \<Rightarrow> string \<Rightarrow> string option" where
  "alias_table p = [mp_anchor_alias p \<mapsto> mp_anchor_table p] ++ map_of (map (\<lambda>j. (rj_target_alias j, rj_target_table j)) (mp_joins p))"

definition key_columns :: "(string \<rightharpoonup> string) \<Rightarrow> resolved_join \<Rightarrow> (string \<times> string) set" where
  "key_columns m j = (\<Union>k \<in> set (rj_on_pairs j). {(the (m (rj_source_alias j)), jp_source_column k), (rj_target_table j, jp_target_column k)})"

definition plan_reads :: "(string \<Rightarrow> string + py_expr) \<Rightarrow> 'v metric_plan \<Rightarrow> (string \<times> string) set" where
  "plan_reads ast_parse p =
     (case measure_columns ast_parse (mt_measure (mp_metric p)) of Inr cs \<Rightarrow> Pair (mp_anchor_table p) ` cs | Inl e \<Rightarrow> {}) \<union>
     (case mt_time_dimension (mp_metric p) of
        Some d \<Rightarrow> (case split1 CHR ''.'' d of (e, Some c) \<Rightarrow> {(mp_anchor_table p, c)} | (e, None) \<Rightarrow> {})
      | None \<Rightarrow> {}) \<union>
     (\<lambda>c. (rc_qualified_table c, rc_column c)) ` (set (mp_group_by p) \<union> rp_column ` set (mp_predicates p)) \<union>
     (\<Union>j \<in> set (mp_joins p). key_columns (alias_table p) j)"

lemma topo_fresh: "topo known js \<Longrightarrow> j \<in> set js \<Longrightarrow> rj_target_alias j \<notin> known"
  by (induction js arbitrary: known) auto

lemma join_key_columns_set:
  "topo (dom m) js \<Longrightarrow> set (join_key_columns m a js) =
     (\<Union>j \<in> set js. key_columns (m ++ map_of (map (\<lambda>j. (rj_target_alias j, rj_target_table j)) js)) j)"
proof (induction js arbitrary: m)
  case (Cons j js)
  let ?f = "\<lambda>j. (rj_target_alias j, rj_target_table j)"
  let ?m = "m(rj_target_alias j \<mapsto> rj_target_table j)"
  have t: "rj_source_alias j \<in> dom m" "rj_target_alias j \<notin> dom m" "topo (dom ?m) js" using Cons.prems by auto
  have late: "rj_target_alias i \<notin> dom ?m" if "i \<in> set js" for i using topo_fresh [OF t(3) that] .
  have D: "dom (map_of (map ?f js)) = rj_target_alias ` set js" by (simp add: dom_map_of_conv_image_fst image_image)
  have "rj_target_alias j \<noteq> rj_target_alias i" if "i \<in> set js" for i using late [OF that] by auto
  then have "rj_target_alias j \<notin> dom (map_of (map ?f js))" unfolding D by blast
  then have M: "m ++ map_of (map ?f (j # js)) = ?m ++ map_of (map ?f js)" by (auto simp: map_add_def fun_eq_iff split: option.splits)
  obtain st where st: "m (rj_source_alias j) = Some st" using t(1) by blast
  have "rj_source_alias j \<noteq> rj_target_alias i" if "i \<in> set js" for i using late [OF that] t(1) by auto
  then have "rj_source_alias j \<notin> dom (map_of (map ?f js))" unfolding D by blast
  then have "map_of (map ?f js) (rj_source_alias j) = None" by (simp only: domIff not_not)
  then have "(?m ++ map_of (map ?f js)) (rj_source_alias j) = Some st"
    using st t(1,2) by (cases "rj_source_alias j = rj_target_alias j") (auto simp: map_add_def)
  then have "set (concat (map (\<lambda>k. [(st, jp_source_column k), (rj_target_table j, jp_target_column k)]) (rj_on_pairs j))) =
      key_columns (?m ++ map_of (map ?f js)) j" by (auto simp: key_columns_def)
  then show ?case unfolding M join_key_columns.simps st option.case Let_def set_append Cons.IH [OF t(3)]
    by (simp del: fun_upd_apply)
qed simp

lemma finite_measure_columns: "measure_columns ast_parse m = Inr cs \<Longrightarrow> finite cs"
  by (auto simp: measure_columns_def parse_measure_expression_def result_simps split: option.splits if_splits sum.splits)

lemma touched_reads:
  assumes "topo {mp_anchor_alias p} (mp_joins p)" "plan_measure_columns ast_parse p = Inr meas" "declared_time_column p = Inr time"
  shows "set (touched_columns p meas time) = plan_reads ast_parse p"
proof -
  obtain cs where cs: "measure_columns ast_parse (mt_measure (mp_metric p)) = Inr cs" "set meas = cs"
  proof -
    obtain cs where c: "measure_columns ast_parse (mt_measure (mp_metric p)) = Inr cs" "meas = sorted_list_of_set cs"
      using assms(2) by (auto simp: plan_measure_columns_def split: sum.splits)
    then show thesis using that finite_measure_columns [OF c(1)] by simp
  qed
  have t: "Pair (mp_anchor_table p) ` set time =
      (case mt_time_dimension (mp_metric p) of
        Some d \<Rightarrow> (case split1 CHR ''.'' d of (e, Some c) \<Rightarrow> {(mp_anchor_table p, c)} | (e, None) \<Rightarrow> {})
      | None \<Rightarrow> {})"
    using assms(3) by (auto simp: declared_time_column_def split: option.splits prod.splits)
  have "dom [mp_anchor_alias p \<mapsto> mp_anchor_table p] = {mp_anchor_alias p}" by simp
  then have j: "set (join_key_columns [mp_anchor_alias p \<mapsto> mp_anchor_table p] (mp_anchor_table p) (mp_joins p)) =
      (\<Union>j \<in> set (mp_joins p). key_columns (alias_table p) j)"
    using join_key_columns_set [of "[mp_anchor_alias p \<mapsto> mp_anchor_table p]" "mp_joins p" "mp_anchor_table p"] assms(1)
    unfolding alias_table_def by metis
  show ?thesis unfolding touched_columns_def plan_reads_def cs(1) t [symmetric] j [symmetric] using cs(2)
    by (auto simp: image_Un)
qed

subsection \<open>What the gate lets through\<close>

lemma refuse_tagged_Inr: "refuse_tagged tags src entity cols = Inr u \<Longrightarrow> (t, c) \<in> set cols \<Longrightarrow> snd (stored_tag tags src t c) = {}"
  by (auto simp: refuse_tagged_def find_None_iff Let_def split: option.splits prod.splits)

lemma group_columns_set: "set (group_columns_by_table cols) = (\<lambda>c. (rc_qualified_table c, rc_column c)) ` set cols"
proof -
  have "(t, c) \<in> set (group_columns_by_table cols) \<longleftrightarrow> (\<exists>x \<in> set cols. rc_qualified_table x = t \<and> rc_column x = c)" for t c
    by (auto simp: group_columns_by_table_def)
  then show ?thesis by force
qed

lemma gate_passed:
  assumes "resolve_pii_categories ast_parse tags src pii_block p = Inr cats" "topo {mp_anchor_alias p} (mp_joins p)"
  shows "\<forall>(t, c) \<in> plan_reads ast_parse p. \<not> is_blocked tags src (effective_block pii_block) t c"
    "\<forall>g \<in> set (mp_group_by p). snd (stored_tag tags src (rc_qualified_table g) (rc_column g)) = {}"
    "mm_agg (mt_measure (mp_metric p)) \<in> {Agg_Min, Agg_Max} \<Longrightarrow> measure_columns ast_parse (mt_measure (mp_metric p)) = Inr cs \<Longrightarrow>
       \<forall>c \<in> cs. snd (stored_tag tags src (mp_anchor_table p) c) = {}"
    "pii_block \<noteq> {} \<Longrightarrow> \<exists>(t, c) \<in> plan_reads ast_parse p. tags \<lparr>tk_source = src, tk_table = t, tk_column = c\<rparr> \<noteq> None"
    "set cats = (\<Union>(t, c) \<in> plan_reads ast_parse p. snd (stored_tag tags src t c))"
proof -
  note h = assms(1) [unfolded resolve_pii_categories_def Let_def]
  obtain meas time where m: "plan_measure_columns ast_parse p = Inr meas" and time: "declared_time_column p = Inr time"
    and minmax: "(if mm_agg (mt_measure (mp_metric p)) = Agg_Min \<or> mm_agg (mt_measure (mp_metric p)) = Agg_Max
       then refuse_tagged tags src (mt_entity (mp_metric p)) (map (Pair (mp_anchor_table p)) meas) else Inr ()) = Inr ()"
    and groups: "refuse_tagged tags src (mt_entity (mp_metric p)) (group_columns_by_table (mp_group_by p)) = Inr ()"
    and rest: "(if filter (\<lambda>(tbl, c). tags \<lparr>tk_source = src, tk_table = tbl, tk_column = c\<rparr> \<noteq> None) (touched_columns p meas time) = [] \<and> pii_block \<noteq> {}
       then Inl (PiiBlocked [] (sorted_category_names pii_block) (mt_entity (mp_metric p)))
       else if snd (propagate (map (\<lambda>(tbl, c). stored_tag tags src tbl c) (touched_columns p meas time))) \<inter> effective_block pii_block \<noteq> {}
         then Inl (PiiBlocked (sorted_list_of_set (snd (propagate (map (\<lambda>(tbl, c). stored_tag tags src tbl c) (touched_columns p meas time)))))
           (sorted_list_of_set (snd (propagate (map (\<lambda>(tbl, c). stored_tag tags src tbl c) (touched_columns p meas time))) \<inter> effective_block pii_block))
           (mt_entity (mp_metric p)))
         else Inr (sorted_list_of_set (snd (propagate (map (\<lambda>(tbl, c). stored_tag tags src tbl c) (touched_columns p meas time)))))) = Inr cats"
    using h by (elim rbind_InrE) auto
  have reads: "set (touched_columns p meas time) = plan_reads ast_parse p" by (rule touched_reads [OF assms(2) m time])
  have pg: "snd (propagate (map (\<lambda>(tbl, c). stored_tag tags src tbl c) (touched_columns p meas time))) =
      (\<Union>(t, c) \<in> plan_reads ast_parse p. snd (stored_tag tags src t c))"
    unfolding propagate_union set_map reads by auto
  have free: "(\<Union>(t, c) \<in> plan_reads ast_parse p. snd (stored_tag tags src t c)) \<inter> effective_block pii_block = {}"
    and cats: "cats = sorted_list_of_set (\<Union>(t, c) \<in> plan_reads ast_parse p. snd (stored_tag tags src t c))"
    using rest unfolding pg by (auto split: if_splits)
  show "\<forall>(t, c) \<in> plan_reads ast_parse p. \<not> is_blocked tags src (effective_block pii_block) t c"
    using free by (auto simp: is_blocked_def)
  show "\<forall>g \<in> set (mp_group_by p). snd (stored_tag tags src (rc_qualified_table g) (rc_column g)) = {}"
    using refuse_tagged_Inr [OF groups] unfolding group_columns_set by blast
  show "set cats = (\<Union>(t, c) \<in> plan_reads ast_parse p. snd (stored_tag tags src t c))"
  proof -
    have "finite (plan_reads ast_parse p)" unfolding reads [symmetric] by simp
    then show ?thesis unfolding cats by (intro set_sorted_list_of_set) auto
  qed
  show "\<exists>(t, c) \<in> plan_reads ast_parse p. tags \<lparr>tk_source = src, tk_table = t, tk_column = c\<rparr> \<noteq> None" if "pii_block \<noteq> {}"
    using rest that unfolding reads [symmetric] by (auto simp: filter_empty_conv split: if_splits)
  show "\<forall>c \<in> cs. snd (stored_tag tags src (mp_anchor_table p) c) = {}"
    if agg: "mm_agg (mt_measure (mp_metric p)) \<in> {Agg_Min, Agg_Max}" and cs: "measure_columns ast_parse (mt_measure (mp_metric p)) = Inr cs"
  proof -
    have "meas = sorted_list_of_set cs" using m cs by (simp add: plan_measure_columns_def)
    then have "set meas = cs" using finite_measure_columns [OF cs] by simp
    moreover have "refuse_tagged tags src (mt_entity (mp_metric p)) (map (Pair (mp_anchor_table p)) meas) = Inr ()"
      using minmax agg by (auto split: if_splits)
    ultimately show ?thesis using refuse_tagged_Inr by fastforce
  qed
qed

lemma get_metric_implE:
  assumes "get_metric_impl ast_parse ca ex src pii_block grain q = Inr r"
  obtains p g params where "narrow_grain grain = Inr g"
    "resolve_metric_plan ast_parse (store_catalog ast_parse src (ca_store ca)) (q\<lparr>mq_time_grain := g\<rparr>) = Inr p"
    "resolve_pii_categories ast_parse (ca_tags ca) src pii_block p = Inr (mz_pii_categories r)"
    "emit_sql ast_parse p = Inr (mz_sql_skeleton r, params)"
    "aggregate_metric_plan_signal (ca_store ca) src (mt_inference_method (mp_metric p)) (mt_validation_state (mp_metric p))
       (required_join_names p) = Inr (mz_aggregate_inference_method r, mz_aggregate_validation_state r)"
    "mz_fan_out_join_names r = fan_out_join_names p" "mz_time_dimension_resolution r = mp_time_resolution p"
  using assms unfolding get_metric_impl_def compiled_def
  by (auto simp: Let_def split: if_splits sum.splits prod.splits elim!: rbind_InrE)

subsection \<open>The columns the SQL names\<close>

text \<open>Every column reference of the emitted text, with the alias it is written with: the measure at the anchor,
  the column the time bucket truncates, groups, filters and both sides of the join conditions.\<close>

definition time_columns :: "'v metric_plan \<Rightarrow> (string \<times> string) set" where
  "time_columns p =
     (if mp_time_bucket p = None then {}
      else case mp_inherited_time_dimension p of
        Some d \<Rightarrow> (case split1 CHR ''.'' d of (e, Some c) \<Rightarrow> {(e, c)} | (e, None) \<Rightarrow> {})
      | None \<Rightarrow> (case mt_time_dimension (mp_metric p) of
          Some d \<Rightarrow> (case split1 CHR ''.'' d of (e, Some c) \<Rightarrow> {(mp_anchor_alias p, c)} | (e, None) \<Rightarrow> {})
        | None \<Rightarrow> {}))"

definition named_columns :: "(string \<Rightarrow> string + py_expr) \<Rightarrow> 'v metric_plan \<Rightarrow> (string \<times> string) set" where
  "named_columns ast_parse p =
     (case measure_columns ast_parse (mt_measure (mp_metric p)) of Inr cs \<Rightarrow> Pair (mp_anchor_alias p) ` cs | Inl e \<Rightarrow> {}) \<union>
     time_columns p \<union>
     (\<lambda>c. (rc_alias c, rc_column c)) ` (set (mp_group_by p) \<union> rp_column ` set (mp_predicates p)) \<union>
     (\<Union>j \<in> set (mp_joins p). \<Union>k \<in> set (rj_on_pairs j).
        {(rj_source_alias j, jp_source_column k), (rj_target_alias j, jp_target_column k)})"

text \<open>The column of an inherited time dimension, under the alias the bucket names it with.\<close>

definition inherited_column :: "'v metric_plan \<Rightarrow> string \<Rightarrow> string \<Rightarrow> bool" where
  "inherited_column p a c \<longleftrightarrow> mp_time_bucket p \<noteq> None \<and> mp_inherited_time_dimension p = Some (a @ ''.'' @ c)"

lemma table_of_unique: "table_of cat e t \<Longrightarrow> table_of cat e t' \<Longrightarrow> t = t'"
  by (auto simp: table_of_def)

lemma predicate_columns: "predicates_ok cat anchor js n ps \<Longrightarrow> r \<in> set ps \<Longrightarrow> column_ok cat anchor js (rp_column r)"
  by (induction ps arbitrary: n) auto

lemma alias_table_anchor:
  assumes "topo {mp_anchor_alias p} (mp_joins p)"
  shows "alias_table p (mp_anchor_alias p) = Some (mp_anchor_table p)"
proof -
  have "rj_target_alias j \<noteq> mp_anchor_alias p" if "j \<in> set (mp_joins p)" for j using topo_fresh [OF assms that] by simp
  then have "mp_anchor_alias p \<notin> rj_target_alias ` set (mp_joins p)" by fastforce
  then have "map_of (map (\<lambda>j. (rj_target_alias j, rj_target_table j)) (mp_joins p)) (mp_anchor_alias p) = None"
    by (auto simp: map_of_eq_None_iff)
  then show ?thesis by (simp add: alias_table_def map_add_def)
qed

lemma alias_table_entity:
  assumes "joins_inv cat (mp_anchor_alias p) js" "mp_joins p = map snd js" "table_of cat (mp_anchor_alias p) (mp_anchor_table p)"
    "e \<in> insert (mp_anchor_alias p) (fst ` set js)"
  shows "\<exists>t. alias_table p e = Some t \<and> table_of cat e t"
proof (cases "e = mp_anchor_alias p")
  case True
  have "topo {mp_anchor_alias p} (mp_joins p)" using assms(1,2) by (simp add: joins_inv_def)
  then show ?thesis using alias_table_anchor True assms(3) by blast
next
  case False
  let ?m = "map_of (map (\<lambda>j. (rj_target_alias j, rj_target_table j)) (mp_joins p))"
  have "e \<in> rj_target_alias ` set (mp_joins p)" using False assms(4) joins_inv_aliases [OF assms(1)] assms(2) by simp
  then have "e \<in> dom ?m" by (auto simp: dom_map_of_conv_image_fst image_image)
  then obtain t where t: "?m e = Some t" by blast
  obtain j where j: "j \<in> set (mp_joins p)" "rj_target_alias j = e" "rj_target_table j = t" using map_of_SomeD [OF t] by auto
  obtain x where x: "(x, j) \<in> set js" using j(1) assms(2) by auto
  then have "rj_target_alias j = x" "table_of cat x (rj_target_table j)" using assms(1) by (auto simp: joins_inv_def)
  then show ?thesis using j t by (simp add: alias_table_def map_add_def)
qed

lemma topo_source: "topo known js \<Longrightarrow> j \<in> set js \<Longrightarrow> rj_source_alias j \<in> known \<union> rj_target_alias ` set js"
  by (induction js arbitrary: known) fastforce+

lemma named_columns_read:
  assumes ok: "plan_ok ast_parse cat q p" and named: "(a, c) \<in> named_columns ast_parse p"
  shows "\<exists>t. alias_table p a = Some t \<and> ((t, c) \<in> plan_reads ast_parse p \<or> inherited_column p a c)"
proof -
  obtain js where js: "joins_inv cat (mp_anchor_alias p) js" "mp_joins p = map snd js"
    "\<forall>c \<in> set (mp_group_by p). column_ok cat (mp_anchor_alias p) js c"
    "predicates_ok cat (mp_anchor_alias p) js 0 (mp_predicates p)"
    using ok by (auto simp: plan_ok_def)
  have anchor: "table_of cat (mp_anchor_alias p) (mp_anchor_table p)" using ok by (simp add: plan_ok_def)
  have topo: "topo {mp_anchor_alias p} (mp_joins p)" using js(1,2) by (simp add: joins_inv_def)
  note entity = alias_table_entity [OF js(1,2) anchor]
  have scope: "insert (mp_anchor_alias p) (rj_target_alias ` set (mp_joins p)) = insert (mp_anchor_alias p) (fst ` set js)"
    using joins_inv_aliases [OF js(1)] js(2) by simp
  consider (meas) cs where "measure_columns ast_parse (mt_measure (mp_metric p)) = Inr cs" "a = mp_anchor_alias p" "c \<in> cs"
    | (time) "(a, c) \<in> time_columns p"
    | (col) x where "x \<in> set (mp_group_by p) \<union> rp_column ` set (mp_predicates p)" "a = rc_alias x" "c = rc_column x"
    | (src) j k where "j \<in> set (mp_joins p)" "k \<in> set (rj_on_pairs j)" "a = rj_source_alias j" "c = jp_source_column k"
    | (tgt) j k where "j \<in> set (mp_joins p)" "k \<in> set (rj_on_pairs j)" "a = rj_target_alias j" "c = jp_target_column k"
    using named unfolding named_columns_def by (auto split: sum.splits)
  then show ?thesis
  proof cases
    case meas
    then show ?thesis using alias_table_anchor [OF topo] by (auto simp: plan_reads_def)
  next
    case time
    show ?thesis
    proof (cases "mp_inherited_time_dimension p")
      case None
      then show ?thesis using time alias_table_anchor [OF topo]
        by (auto simp: time_columns_def plan_reads_def split: if_splits option.splits prod.splits)
    next
      case (Some d)
      have b: "mp_time_bucket p \<noteq> None" and d: "split1 CHR ''.'' d = (a, Some c)"
        using time Some by (auto simp: time_columns_def split: if_splits option.splits prod.splits)
      obtain e x where m: "match_qualified d = Some (e, x)" "e \<in> insert (mp_anchor_alias p) (rj_target_alias ` set (mp_joins p))"
        using ok b Some by (auto simp: plan_ok_def time_ok_def)
      have "split1 CHR ''.'' d = (e, Some x)"
        using m(1) split1_append [OF is_ident_no_dot, of e x] by (simp add: match_qualified_iff)
      then have "a = e" using d by simp
      then obtain t where "alias_table p a = Some t" using entity m(2) scope by blast
      then show ?thesis using split1_Some [OF d] b Some by (simp add: inherited_column_def)
    qed
  next
    case col
    have ok: "column_ok cat (mp_anchor_alias p) js x" using col(1) js(3) predicate_columns [OF js(4)] by blast
    then have x: "a \<in> insert (mp_anchor_alias p) (fst ` set js)" "table_of cat a (rc_qualified_table x)"
      using col(2) by (simp_all add: column_ok_def)
    obtain t where t: "alias_table p a = Some t" "table_of cat a t" using entity [OF x(1)] by blast
    have "t = rc_qualified_table x" using table_of_unique [OF t(2) x(2)] .
    then show ?thesis using t(1) col by (auto simp: plan_reads_def)
  next
    case src
    then have "a \<in> insert (mp_anchor_alias p) (fst ` set js)" using topo_source [OF topo src(1)] scope by auto
    then obtain t where "alias_table p a = Some t" using entity by blast
    moreover from this have "(t, c) \<in> key_columns (alias_table p) j" using src by (force simp: key_columns_def)
    ultimately show ?thesis using src(1) by (auto simp: plan_reads_def)
  next
    case tgt
    obtain x where x: "(x, j) \<in> set js" using tgt(1) js(2) by auto
    then have tx: "rj_target_alias j = x" "table_of cat x (rj_target_table j)" using js(1) by (auto simp: joins_inv_def)
    have "x \<in> insert (mp_anchor_alias p) (fst ` set js)" using x by force
    then obtain t where t: "alias_table p a = Some t" "table_of cat a t" using entity tgt(3) tx(1) by blast
    have "t = rj_target_table j" using table_of_unique [OF t(2)] tx tgt(3) by blast
    then have "(t, c) \<in> key_columns (alias_table p) j" using tgt by (force simp: key_columns_def)
    then show ?thesis using t(1) tgt(1) by (auto simp: plan_reads_def)
  qed
qed

lemma resolved_store_plan:
  assumes "store_ok ast_parse db" "resolve_metric_plan ast_parse (store_catalog ast_parse src db) q = Inr p"
  shows "plan_ok ast_parse (store_catalog ast_parse src db) q p"
  using sqlite.resolved_plan_ok [OF assms(1), of src q] assms(2) by simp

lemma plan_topo:
  assumes "store_ok ast_parse db" "resolve_metric_plan ast_parse (store_catalog ast_parse src db) q = Inr p"
  shows "topo {mp_anchor_alias p} (mp_joins p)"
  using resolved_store_plan [OF assms] by (auto simp: plan_ok_def joins_inv_def)

text \<open>C1: No answer reads a blocked column, but for the column of an inherited time dimension. When get_metric
  returns rows, the SQL it ran is that of a resolved plan, and every column the SQL names is one that the measure,
  the declared time dimension, a group, a filter or a join key names, on the table its alias stands for, or it is
  the timestamp column that the plan inherits. None of the former carries a category that the policy or the
  catastrophic floor blocks; no group column carries any category; under an active policy at least one of them
  had been classified; and the reported categories are exactly theirs. The inherited column is not checked.\<close>

theorem metric_firewall:
  assumes "store_ok ast_parse (ca_store ca)" "get_metric_impl ast_parse ca ex src pii_block grain q = Inr r"
  shows "\<exists>p g params. narrow_grain grain = Inr g \<and>
    resolve_metric_plan ast_parse (store_catalog ast_parse src (ca_store ca)) (q\<lparr>mq_time_grain := g\<rparr>) = Inr p \<and>
    emit_sql ast_parse p = Inr (mz_sql_skeleton r, params) \<and>
    (\<forall>(a, c) \<in> named_columns ast_parse p. \<exists>t. alias_table p a = Some t \<and>
       ((t, c) \<in> plan_reads ast_parse p \<or> inherited_column p a c)) \<and>
    (\<forall>(t, c) \<in> plan_reads ast_parse p. \<not> is_blocked (ca_tags ca) src (effective_block pii_block) t c) \<and>
    (\<forall>g \<in> set (mp_group_by p). snd (stored_tag (ca_tags ca) src (rc_qualified_table g) (rc_column g)) = {}) \<and>
    (pii_block \<noteq> {} \<longrightarrow> (\<exists>(t, c) \<in> plan_reads ast_parse p. ca_tags ca \<lparr>tk_source = src, tk_table = t, tk_column = c\<rparr> \<noteq> None)) \<and>
    set (mz_pii_categories r) = (\<Union>(t, c) \<in> plan_reads ast_parse p. snd (stored_tag (ca_tags ca) src t c))"
proof -
  obtain p g params where p: "narrow_grain grain = Inr g"
    "resolve_metric_plan ast_parse (store_catalog ast_parse src (ca_store ca)) (q\<lparr>mq_time_grain := g\<rparr>) = Inr p"
    "resolve_pii_categories ast_parse (ca_tags ca) src pii_block p = Inr (mz_pii_categories r)"
    "emit_sql ast_parse p = Inr (mz_sql_skeleton r, params)"
    using assms(2) by (rule get_metric_implE)
  note gate = gate_passed [OF p(3) plan_topo [OF assms(1) p(2)]]
  have named: "\<forall>(a, c) \<in> named_columns ast_parse p. \<exists>t. alias_table p a = Some t \<and>
      ((t, c) \<in> plan_reads ast_parse p \<or> inherited_column p a c)"
    using named_columns_read [OF resolved_store_plan [OF assms(1) p(2)]] by blast
  show ?thesis using p(1,2,4) gate(1,2,4,5) named by blast
qed

text \<open>The gate sees no other column.\<close>

lemma stored_tag_cong:
  "tags \<lparr>tk_source = src, tk_table = t, tk_column = c\<rparr> = tags' \<lparr>tk_source = src, tk_table = t, tk_column = c\<rparr> \<Longrightarrow>
     stored_tag tags src t c = stored_tag tags' src t c"
  by (simp add: stored_tag_def)

lemma refuse_tagged_cong:
  assumes "\<And>t c. (t, c) \<in> set cols \<Longrightarrow> stored_tag tags src t c = stored_tag tags' src t c"
  shows "refuse_tagged tags src entity cols = refuse_tagged tags' src entity cols"
  using assms by (induction cols) (auto simp: refuse_tagged_def)

lemma gate_cong:
  assumes "topo {mp_anchor_alias p} (mp_joins p)"
    "\<And>t c. (t, c) \<in> plan_reads ast_parse p \<Longrightarrow>
       tags \<lparr>tk_source = src, tk_table = t, tk_column = c\<rparr> = tags' \<lparr>tk_source = src, tk_table = t, tk_column = c\<rparr>"
  shows "resolve_pii_categories ast_parse tags src pii_block p = resolve_pii_categories ast_parse tags' src pii_block p"
proof (cases "plan_measure_columns ast_parse p")
  case (Inl e)
  then show ?thesis by (simp add: resolve_pii_categories_def)
next
  case (Inr meas)
  have st: "stored_tag tags src t c = stored_tag tags' src t c" if "(t, c) \<in> plan_reads ast_parse p" for t c
    by (rule stored_tag_cong) (rule assms(2) [OF that])
  obtain cs where cs: "measure_columns ast_parse (mt_measure (mp_metric p)) = Inr cs" "set meas = cs"
    using Inr finite_measure_columns by (auto simp: plan_measure_columns_def split: sum.splits)
  then have "set (map (Pair (mp_anchor_table p)) meas) \<subseteq> plan_reads ast_parse p" by (auto simp: plan_reads_def)
  then have m: "refuse_tagged tags src e (map (Pair (mp_anchor_table p)) meas) = refuse_tagged tags' src e (map (Pair (mp_anchor_table p)) meas)" for e
    by (intro refuse_tagged_cong st) blast
  have "set (group_columns_by_table (mp_group_by p)) \<subseteq> plan_reads ast_parse p"
    unfolding group_columns_set by (auto simp: plan_reads_def)
  then have g: "refuse_tagged tags src e (group_columns_by_table (mp_group_by p)) = refuse_tagged tags' src e (group_columns_by_table (mp_group_by p))" for e
    by (intro refuse_tagged_cong st) blast
  show ?thesis
  proof (cases "declared_time_column p")
    case (Inl e)
    then show ?thesis by (simp add: resolve_pii_categories_def Let_def Inr m g)
  next
    case time: (Inr time)
    have reads: "set (touched_columns p meas time) = plan_reads ast_parse p" by (rule touched_reads [OF assms(1) Inr time])
    have hits: "filter (\<lambda>(t, c). tags \<lparr>tk_source = src, tk_table = t, tk_column = c\<rparr> \<noteq> None) (touched_columns p meas time) =
        filter (\<lambda>(t, c). tags' \<lparr>tk_source = src, tk_table = t, tk_column = c\<rparr> \<noteq> None) (touched_columns p meas time)"
      by (rule filter_cong [OF refl]) (use assms(2) reads in auto)
    have found: "map (\<lambda>(t, c). stored_tag tags src t c) (touched_columns p meas time) =
        map (\<lambda>(t, c). stored_tag tags' src t c) (touched_columns p meas time)"
      using st reads by auto
    show ?thesis unfolding resolve_pii_categories_def Let_def Inr m g time rbind.simps hits found ..
  qed
qed

text \<open>C7: The column of an inherited time dimension is not guarded. Two stores that differ in their tags only, and
  agree on the columns that measure, declared time dimension, groups, filters and join keys name, give the same
  answer to every request. The timestamp column that a plan inherits and the SQL groups by is not among these:
  tagging it, as a credential even, changes nothing (the witness).\<close>

theorem other_tags_ignored:
  assumes "store_ok ast_parse (ca_store ca)"
    "\<And>g p t c. narrow_grain grain = Inr g \<Longrightarrow>
       resolve_metric_plan ast_parse (store_catalog ast_parse src (ca_store ca)) (q\<lparr>mq_time_grain := g\<rparr>) = Inr p \<Longrightarrow>
       (t, c) \<in> plan_reads ast_parse p \<Longrightarrow>
       ca_tags ca \<lparr>tk_source = src, tk_table = t, tk_column = c\<rparr> = tags \<lparr>tk_source = src, tk_table = t, tk_column = c\<rparr>"
  shows "get_metric_impl ast_parse (ca\<lparr>ca_tags := tags\<rparr>) ex src pii_block grain q = get_metric_impl ast_parse ca ex src pii_block grain q"
proof (cases "narrow_grain grain")
  case (Inl e)
  then show ?thesis by (simp add: get_metric_impl_def)
next
  case (Inr g)
  show ?thesis
  proof (cases "resolve_metric_plan ast_parse (store_catalog ast_parse src (ca_store ca)) (q\<lparr>mq_time_grain := g\<rparr>)")
    case (Inl e)
    then show ?thesis using Inr by (simp add: get_metric_impl_def compiled_def)
  next
    case p: (Inr p)
    have "resolve_pii_categories ast_parse tags src pii_block p = resolve_pii_categories ast_parse (ca_tags ca) src pii_block p"
      by (rule gate_cong [OF plan_topo [OF assms(1) p]]) (rule assms(2) [OF Inr p, symmetric])
    then show ?thesis using Inr p by (simp add: get_metric_impl_def compiled_def)
  qed
qed

subsection \<open>A store with a date of birth\<close>

definition people_ops :: "store_op list" where
  "people_ops = demo_ops Manual @
     [Write_Table ''s'' 1 \<lparr>tb_name = ''people'', tb_schema_name = ''public'',
        tb_columns = [\<lparr>co_name = ''id'', co_table_name = ''people'', co_schema_name = ''public'', co_data_type = ''integer'',
            co_nullable = False, co_ordinal_position = 1, co_default = None, co_is_primary_key = True\<rparr>,
          \<lparr>co_name = ''born'', co_table_name = ''people'', co_schema_name = ''public'', co_data_type = ''date'',
            co_nullable = False, co_ordinal_position = 2, co_default = None, co_is_primary_key = False\<rparr>],
        tb_foreign_keys = []\<rparr> None,
      Write_Entity ''s'' 1 \<lparr>en_name = ''person'', en_description = [], en_binding = \<lparr>bd_qualified_table = ''public.people''\<rparr>,
        en_identity = ''id'', en_origin = Manual, en_inference_method = Manually_Authored, en_validation_state = Applied,
        en_group = Identity, en_bind_confidence = None, en_rationale = []\<rparr>,
      Write_Join ''s'' 1 \<lparr>cj_name = ''placed_by'', cj_description = [], cj_source_entity = ''order'', cj_target_entity = ''person'',
        cj_on = [\<lparr>jp_source_column = ''id'', jp_target_column = ''id''\<rparr>], cj_origin = Manual, cj_cardinality = Some Many_To_One,
        cj_inference_method = Llm_Suggested, cj_validation_state = Applied\<rparr>]"

definition people_store :: store where
  "people_store = (case run_ops people_ops empty_store of Inr db \<Rightarrow> db | Inl e \<Rightarrow> empty_store)"

lemma people_ops_valid: "list_all (op_valid no_parse) people_ops"
  using demo_ops_valid [of Manual]
  by (simp add: people_ops_def table_ok_iff entity_ok_def en_qualified_table_def join_ok_def pair_ok_def match_qualified_def split1_def char_class_defs)

lemma people_store_good: "store_ok no_parse people_store"
proof -
  note people_ops_valid
  moreover have "run_ops people_ops empty_store = Inr people_store" by code_simp
  ultimately have "store_reach no_parse people_store" using run_ops_reach [OF store_reach.fresh] by blast
  then show ?thesis by (rule store_reach_ok)
qed

definition people_cache :: "(string \<Rightarrow> column_pii_tag option) \<Rightarrow> nat cache" where
  "people_cache people = \<lparr>ca_store = people_store, ca_descriptions = [], ca_embeddings = [],
     ca_tags = write_column_pii_tags (write_column_pii_tags Map.empty 1 ''s'' ''public.orders'' [''total'' \<mapsto> (Confidential, {Behavioral})] (\<lambda>_. None))
       1 ''s'' ''public.people'' people (\<lambda>_. None)\<rparr>"

definition two_rows :: "(nat, nat) executor" where
  "two_rows = \<lparr>ex_run = (\<lambda>sql params. Inr [1, 2]), ex_max_rows = Some 100\<rparr>"

definition by_month :: "nat metric_request" where
  "by_month = \<lparr>mq_metric_name = ''revenue'', mq_group_by = [], mq_filters = [], mq_time_grain = None, mq_time_dimension = None,
     mq_limit = 10, mq_via = [], mq_order_by = []\<rparr>"

lemma by_month_runs:
  "case get_metric_impl no_parse (people_cache Map.empty) two_rows ''s'' {Contact} (Some ''month'') by_month of
     Inr r \<Rightarrow> mz_rows r = [1, 2] \<and> mz_pii_categories r = [''behavioral''] \<and> has_substring ''date_trunc'' (mz_sql_skeleton r)
       \<and> mz_inherited_time_dimension r = Some ''person.born'' \<and> \<not> mz_truncated r
   | Inl e \<Rightarrow> False"
  by code_simp

lemma by_month_result:
  obtains r where "get_metric_impl no_parse (people_cache Map.empty) two_rows ''s'' {Contact} (Some ''month'') by_month = Inr r"
    "mz_pii_categories r = [''behavioral'']" "has_substring ''date_trunc'' (mz_sql_skeleton r)"
    "mz_inherited_time_dimension r = Some ''person.born''"
  using by_month_runs that by (auto split: sum.splits)

theorem metric_firewall_witness:
  "\<exists>r p params. get_metric_impl no_parse (people_cache Map.empty) two_rows ''s'' {Contact} (Some ''month'') by_month = Inr r \<and>
     emit_sql no_parse (p :: nat metric_plan) = Inr (mz_sql_skeleton r, params) \<and>
     (\<Union>(t, c) \<in> plan_reads no_parse p. snd (stored_tag (ca_tags (people_cache Map.empty)) ''s'' t c)) = {''behavioral''}"
proof -
  obtain r where r: "get_metric_impl no_parse (people_cache Map.empty) two_rows ''s'' {Contact} (Some ''month'') by_month = Inr r"
    "mz_pii_categories r = [''behavioral'']" by (rule by_month_result)
  have "store_ok no_parse (ca_store (people_cache Map.empty))" using people_store_good by (simp add: people_cache_def)
  from metric_firewall [OF this r(1)] show ?thesis
  proof (elim exE conjE)
    fix p :: "nat metric_plan" and params
    assume e: "emit_sql no_parse p = Inr (mz_sql_skeleton r, params)"
      and c: "set (mz_pii_categories r) = (\<Union>(t, c) \<in> plan_reads no_parse p. snd (stored_tag (ca_tags (people_cache Map.empty)) ''s'' t c))"
    have "(\<Union>(t, c) \<in> plan_reads no_parse p. snd (stored_tag (ca_tags (people_cache Map.empty)) ''s'' t c)) = {''behavioral''}"
      unfolding c [symmetric] r(2) by simp
    then show ?thesis using r(1) e by (intro exI conjI)
  qed
qed

lemma people_tags_differ:
  "tk_table k \<noteq> ''public.people'' \<or> tk_column k \<noteq> ''born'' \<Longrightarrow> ca_tags (people_cache [''born'' \<mapsto> t]) k = ca_tags (people_cache Map.empty) k"
  by (auto simp: people_cache_def write_column_pii_tags_def Let_def)

theorem other_tags_ignored_witness:
  "\<exists>r. get_metric_impl no_parse (people_cache [''born'' \<mapsto> (Pii, {Government_Id})]) two_rows ''s'' {Contact} (Some ''month'') by_month = Inr r \<and>
     has_substring ''date_trunc'' (mz_sql_skeleton r) \<and> mz_inherited_time_dimension r = Some ''person.born'' \<and>
     is_blocked (ca_tags (people_cache [''born'' \<mapsto> (Pii, {Government_Id})])) ''s'' (effective_block {Contact}) ''public.people'' ''born''"
proof -
  let ?ca = "people_cache Map.empty" and ?tags = "ca_tags (people_cache [''born'' \<mapsto> (Pii, {Government_Id})])"
  obtain r where r: "get_metric_impl no_parse ?ca two_rows ''s'' {Contact} (Some ''month'') by_month = Inr r"
    "has_substring ''date_trunc'' (mz_sql_skeleton r)" "mz_inherited_time_dimension r = Some ''person.born''" by (rule by_month_result)
  have ok: "store_ok no_parse (ca_store ?ca)" using people_store_good by (simp add: people_cache_def)
  have reads: "case resolve_metric_plan no_parse (store_catalog no_parse ''s'' (ca_store ?ca)) (by_month\<lparr>mq_time_grain := Some Month\<rparr>) of
      Inr p \<Rightarrow> (''public.people'', ''born'') \<notin> plan_reads no_parse p | Inl e \<Rightarrow> False"
    unfolding people_cache_def cache.simps by code_simp
  have grain: "narrow_grain (Some ''month'') = Inr (Some Month)" by code_simp
  have "get_metric_impl no_parse (?ca\<lparr>ca_tags := ?tags\<rparr>) two_rows ''s'' {Contact} (Some ''month'') by_month =
      get_metric_impl no_parse ?ca two_rows ''s'' {Contact} (Some ''month'') by_month"
  proof (rule other_tags_ignored [OF ok])
    fix g p t c
    assume g: "narrow_grain (Some ''month'') = Inr g" and p: "resolve_metric_plan no_parse (store_catalog no_parse ''s'' (ca_store ?ca)) (by_month\<lparr>mq_time_grain := g\<rparr>) = Inr p"
      and tc: "(t, c) \<in> plan_reads no_parse p"
    have "g = Some Month" using g grain by simp
    then have "(''public.people'', ''born'') \<notin> plan_reads no_parse p" using reads p by simp
    then have "t \<noteq> ''public.people'' \<or> c \<noteq> ''born''" using tc by blast
    then show "ca_tags ?ca \<lparr>tk_source = ''s'', tk_table = t, tk_column = c\<rparr> = ?tags \<lparr>tk_source = ''s'', tk_table = t, tk_column = c\<rparr>"
      using people_tags_differ by simp
  qed
  moreover have "?ca\<lparr>ca_tags := ?tags\<rparr> = people_cache [''born'' \<mapsto> (Pii, {Government_Id})]" by (simp add: people_cache_def)
  moreover have "is_blocked ?tags ''s'' (effective_block {Contact}) ''public.people'' ''born''" by code_simp
  ultimately show ?thesis using r by simp
qed

end
