(* ===== verification/ToolEnvelope.thy ===== *)
theory ToolEnvelope
  imports MetricFirewall AuditWriter
begin

section \<open>Responses of the tools (mcp/envelope.py, mcp/server.py)\<close>

text \<open>
  The envelope with the validators of its classes, and the handlers that turn the outcome of a tool
  into one: every exception becomes an error of a kind with the next move for the agent. A handler's
  result is a sum because building an envelope may itself raise. Messages are left out, and so are the
  strict-argument check of the dispatcher and the decorator that writes the audit row and emits events;
  what the audit row is made of is read off the response.
\<close>

datatype error_kind =
    Unknown_Name | Malformed_Name | Missing_Credential | Index_Not_Ready | Kind_Schema_Drift | Kind_Cost_Cap_Exceeded
  | Internal_Error | Kind_Pii_Blocked | Policy_Blocked | Kind_Allowlist_Violation | No_Canonical_Join | Ambiguous_Join
  | Unknown_Join_Name | Join_Name_Mismatch | Unknown_Metric | Unreachable_Entity | Ambiguous_Path | Unknown_Via_Join
  | Unknown_Order_By_Column | Unknown_Group_By_Column | Unknown_Filter_Column | Unknown_Measure_Column
  | Invalid_Time_Grain | Grain_Mismatch | Ambiguous_Time_Dimension | Invalid_Argument

datatype degradation_reason = Fan_Out_Join | Missing_Order_By_With_Limit | Time_Dimension_Unavailable

definition REFUSAL_KINDS :: "error_kind set" where
  "REFUSAL_KINDS = {Kind_Pii_Blocked, Policy_Blocked, Kind_Allowlist_Violation}"

datatype hint_arg = Arg_Text string | Arg_List "string list"

text \<open>The two fields of a recovery that only a refusal may have are kept as flags.\<close>

record recovery =
  ry_suggested_tool :: "string option"
  ry_suggested_args :: "(string \<times> hint_arg) list option"
  ry_suggested_rewrite :: bool
  ry_widening_hint :: bool

record tool_error =
  te_kind :: error_kind
  te_recovery :: recovery
  te_pii_categories :: "string list"
  te_anchor_entity :: "string option"

record provenance =
  pv_source :: provenance_source
  pv_inference_method :: "inference_method option"
  pv_validation_state :: "validation_state option"

record 'd tool_response =
  tr_status :: audit_status
  tr_data :: "'d option"
  tr_error :: "tool_error option"
  tr_confidence :: "confidence option"
  tr_provenance :: "provenance option"
  tr_follow_up_hints :: "string list option"
  tr_degradation_reason :: "degradation_reason option"

datatype envelope_error =
    NotACategory "string list" | RecoveryNotForKind error_kind | ErrorMissing | DataForbidden | ErrorForbidden | DataMissing | ReasonForbidden
  | NoCandidate | HandlerRead store_error

definition check_tool_error :: "tool_error \<Rightarrow> envelope_error + tool_error" where
  "check_tool_error e =
     (if list_ex (\<lambda>c. category_of_name c = None) (te_pii_categories e) then Inl (NotACategory (te_pii_categories e))
      else if te_kind e \<notin> REFUSAL_KINDS \<and> (ry_suggested_rewrite (te_recovery e) \<or> ry_widening_hint (te_recovery e) \<or> te_pii_categories e \<noteq> [])
      then Inl (RecoveryNotForKind (te_kind e)) else Inr e)"

definition check_response :: "'d tool_response \<Rightarrow> envelope_error + 'd tool_response" where
  "check_response r =
     (if tr_status r = Error \<or> tr_status r = RefusedStatus
      then (if tr_error r = None then Inl ErrorMissing else if tr_data r \<noteq> None then Inl DataForbidden else Inr r)
      else if tr_error r \<noteq> None then Inl ErrorForbidden
      else if tr_status r = Success \<and> tr_data r = None then Inl DataMissing
      else if tr_status r \<noteq> Degraded \<and> tr_degradation_reason r \<noteq> None then Inl ReasonForbidden
      else Inr r)"

subsection \<open>Building responses\<close>

definition suggest :: "string option \<Rightarrow> (string \<times> hint_arg) list option \<Rightarrow> recovery" where
  "suggest tool args = \<lparr>ry_suggested_tool = tool, ry_suggested_args = args, ry_suggested_rewrite = False, ry_widening_hint = False\<rparr>"

definition failure :: "audit_status \<Rightarrow> error_kind \<Rightarrow> recovery \<Rightarrow> string list \<Rightarrow> string option \<Rightarrow> envelope_error + 'd tool_response" where
  "failure status kind r cats anchor =
     rbind (check_tool_error \<lparr>te_kind = kind, te_recovery = r, te_pii_categories = cats, te_anchor_entity = anchor\<rparr>) (\<lambda>e.
     check_response \<lparr>tr_status = status, tr_data = None, tr_error = Some e, tr_confidence = None, tr_provenance = None,
       tr_follow_up_hints = None, tr_degradation_reason = None\<rparr>)"

definition error_response :: "error_kind \<Rightarrow> string option \<Rightarrow> (string \<times> hint_arg) list option \<Rightarrow> envelope_error + 'd tool_response" where
  "error_response kind tool args = failure Error kind (suggest tool args) [] None"

definition malformed_name_response :: "string \<Rightarrow> envelope_error + 'd tool_response" where
  "malformed_name_response tool = error_response Malformed_Name (Some tool) None"

definition unknown_name_response :: "string \<Rightarrow> (string \<times> hint_arg) list option \<Rightarrow> envelope_error + 'd tool_response" where
  "unknown_name_response tool args = error_response Unknown_Name (Some tool) args"

definition wrap_internal_error :: "envelope_error + 'd tool_response" where
  "wrap_internal_error = error_response Internal_Error None None"

definition provenance_from_signal :: "inference_method \<Rightarrow> validation_state \<Rightarrow> provenance" where
  "provenance_from_signal im vs =
     \<lparr>pv_source = derive_provenance_source im, pv_inference_method = Some im, pv_validation_state = Some vs\<rparr>"

definition schema_provenance :: provenance where
  "schema_provenance = \<lparr>pv_source = From_Schema, pv_inference_method = None, pv_validation_state = None\<rparr>"

definition min_confidence :: "confidence \<Rightarrow> confidence \<Rightarrow> confidence" where
  "min_confidence a b = (if confidence_rank a \<le> confidence_rank b then a else b)"

definition answer :: "'d \<Rightarrow> confidence \<Rightarrow> provenance \<Rightarrow> string list \<Rightarrow> degradation_reason option \<Rightarrow> envelope_error + 'd tool_response" where
  "answer d conf prov hints reason =
     check_response \<lparr>tr_status = (if reason = None then Success else Degraded), tr_data = Some d, tr_error = None,
       tr_confidence = Some conf, tr_provenance = Some prov, tr_follow_up_hints = Some hints, tr_degradation_reason = reason\<rparr>"

text \<open>The table part of a dotted text, for a query hint, and the first two parts of three.\<close>

definition safe_table_part :: "string \<Rightarrow> string option" where
  "safe_table_part q =
     (let parts = split_on CHR ''.'' q in
      if (length parts = 2 \<or> length parts = 3) \<and> [] \<notin> set parts
      then (if py_len (parts ! 1) > MAX_IDENT_LEN then None else Some (parts ! 1)) else None)"

definition maybe_query_arg :: "string \<Rightarrow> (string \<times> hint_arg) list option" where
  "maybe_query_arg q = map_option (\<lambda>t. [(''query'', Arg_Text t)]) (safe_table_part q)"

definition parent_table_qualified_name :: "string \<Rightarrow> string option" where
  "parent_table_qualified_name q =
     (let parts = split_on CHR ''.'' q in
      if length parts \<noteq> 3 \<or> [] \<in> set parts then None else Some (parts ! 0 @ ''.'' @ parts ! 1))"

definition parent_arg :: "string \<Rightarrow> (string \<times> hint_arg) list option" where
  "parent_arg q = map_option (\<lambda>t. [(''qualified_name'', Arg_Text t)]) (parent_table_qualified_name q)"

subsection \<open>The describe tools\<close>

text \<open>Which errors of a store read are \<^verbatim>\<open>ValueError\<close>s: the validators of the row classes and the unpacking of a
  qualified name are, a corrupt join row and a violated constraint are not.\<close>

fun is_value_error :: "store_error \<Rightarrow> bool" where
  "is_value_error (CorruptJoinRow n) = False"
| "is_value_error store_error.IntegrityError = False"
| "is_value_error e = True"

definition describe_table_tool :: "'f cache \<Rightarrow> string \<Rightarrow> pii_category set \<Rightarrow> string \<Rightarrow> envelope_error + table_description tool_response" where
  "describe_table_tool ca src pii_block q =
     (case describe_table ca src pii_block q of
        Inr d \<Rightarrow> answer d Conf_High schema_provenance [''describe_column'', ''suggest_joins''] None
      | Inl (MalformedName e) \<Rightarrow> malformed_name_response ''find_relevant_tables''
      | Inl (StoreRaised e) \<Rightarrow> if is_value_error e then malformed_name_response ''find_relevant_tables'' else wrap_internal_error
      | Inl (TableNotFound s t) \<Rightarrow> unknown_name_response ''find_relevant_tables'' (maybe_query_arg q)
      | Inl e \<Rightarrow> wrap_internal_error)"

definition describe_column_tool :: "'f cache \<Rightarrow> string \<Rightarrow> pii_category set \<Rightarrow> string \<Rightarrow> envelope_error + column_detail tool_response" where
  "describe_column_tool ca src pii_block q =
     (case describe_column ca src pii_block q of
        Inr d \<Rightarrow> answer d Conf_High schema_provenance [''describe_table''] None
      | Inl (ColumnBlocked attempted blocked) \<Rightarrow>
          failure RefusedStatus Kind_Pii_Blocked (suggest (Some ''describe_table'') (parent_arg q)) blocked None
      | Inl (MalformedName e) \<Rightarrow> malformed_name_response ''find_relevant_tables''
      | Inl (StoreRaised e) \<Rightarrow> if is_value_error e then malformed_name_response ''find_relevant_tables'' else wrap_internal_error
      | Inl (ColumnNotFound c hint) \<Rightarrow> unknown_name_response ''describe_table'' (parent_arg q)
      | Inl (TableNotFound s t) \<Rightarrow> unknown_name_response ''find_relevant_tables'' (maybe_query_arg q)
      | Inl e \<Rightarrow> wrap_internal_error)"

definition describe_entity_tool :: "'f cache \<Rightarrow> string \<Rightarrow> pii_category set \<Rightarrow> string \<Rightarrow> envelope_error + entity_detail tool_response" where
  "describe_entity_tool ca src pii_block name =
     (case describe_entity ca src pii_block name of
        Inr d \<Rightarrow>
          (let conf = derive_confidence (ed_inference_method d) (ed_validation_state d)
           in answer d (if ed_redacted_columns d \<noteq> [] then min_confidence conf Conf_Medium else conf)
                (provenance_from_signal (ed_inference_method d) (ed_validation_state d)) [''describe_table'', ''describe_column''] None)
      | Inl (MalformedName e) \<Rightarrow> malformed_name_response ''list_entities''
      | Inl (StoreRaised e) \<Rightarrow> if is_value_error e then malformed_name_response ''list_entities'' else wrap_internal_error
      | Inl (EntityNotFound n) \<Rightarrow> unknown_name_response ''list_entities'' None
      | Inl e \<Rightarrow> wrap_internal_error)"

subsection \<open>get_metric\<close>

text \<open>The columns of an error that lists allowed ones are scrubbed of the blocked ones first.\<close>

definition unknown_column_failure ::
  "'f cache \<Rightarrow> string \<Rightarrow> pii_category set \<Rightarrow> error_kind \<Rightarrow> string \<Rightarrow> string list \<Rightarrow> envelope_error + 'd tool_response" where
  "unknown_column_failure ca src pii_block kind entity cols =
     (case visible_allowed_columns (ca_store ca) (ca_tags ca) src (effective_block pii_block) entity cols of
        Inl e \<Rightarrow> Inl (HandlerRead e)
      | Inr visible \<Rightarrow>
          error_response kind (Some ''describe_entity'') (Some [(''name'', Arg_Text entity), (''allowed_columns'', Arg_List visible)]))"

fun compile_failure :: "'f cache \<Rightarrow> string \<Rightarrow> pii_category set \<Rightarrow> compile_error \<Rightarrow> envelope_error + 'd tool_response" where
  "compile_failure ca src pii_block (UnknownMetric n) = error_response Unknown_Metric (Some ''list_entities'') None"
| "compile_failure ca src pii_block (MalformedColumn m) = error_response Malformed_Name (Some ''describe_entity'') None"
| "compile_failure ca src pii_block (UnknownColumn k c e) = error_response Unknown_Name (Some ''list_entities'') None"
| "compile_failure ca src pii_block (UnreachableEntity anchor target) =
     error_response Unreachable_Entity (Some ''resolve_join'') (Some [(''entity_a'', Arg_Text anchor), (''entity_b'', Arg_Text target)])"
| "compile_failure ca src pii_block (AmbiguousJoin a b names) =
     (case names of [] \<Rightarrow> Inl NoCandidate
      | n # ns \<Rightarrow> error_response Ambiguous_Join (Some ''get_metric'') (Some [(''via'', Arg_List [n])]))"
| "compile_failure ca src pii_block (AmbiguousPath a t paths) =
     error_response Ambiguous_Path (Some ''get_metric'') (Some [(''via'', Arg_List (case paths of [] \<Rightarrow> [] | p # ps \<Rightarrow> p))])"
| "compile_failure ca src pii_block (UnknownViaJoin a t vs ns) = error_response Unknown_Via_Join (Some ''list_joins'') None"
| "compile_failure ca src pii_block (UnknownOrderByColumn c cols) =
     error_response Unknown_Order_By_Column (Some ''get_metric'') (Some [(''allowed_columns'', Arg_List cols)])"
| "compile_failure ca src pii_block (UnknownGroupByColumn e c cols) =
     unknown_column_failure ca src pii_block Unknown_Group_By_Column e cols"
| "compile_failure ca src pii_block (UnknownFilterColumn e c cols) =
     unknown_column_failure ca src pii_block Unknown_Filter_Column e cols"
| "compile_failure ca src pii_block (UnknownMeasureColumn e c cols) =
     unknown_column_failure ca src pii_block Unknown_Measure_Column e cols"
| "compile_failure ca src pii_block (InvalidTimeGrain g gs) = error_response Invalid_Time_Grain (Some ''get_metric'') None"
| "compile_failure ca src pii_block (AmbiguousTimeDimension a candidates) =
     error_response Ambiguous_Time_Dimension (Some ''get_metric'')
       (case candidates of [] \<Rightarrow> None | (d, path) # cs \<Rightarrow> Some [(''time_dimension'', Arg_Text d)])"
| "compile_failure ca src pii_block e = wrap_internal_error"

fun metric_failure :: "'f cache \<Rightarrow> string \<Rightarrow> pii_category set \<Rightarrow> metric_error \<Rightarrow> envelope_error + 'd tool_response" where
  "metric_failure ca src pii_block (BadLimit n) = error_response Malformed_Name (Some ''describe_entity'') None"
| "metric_failure ca src pii_block (MalformedTimeDimension d) = error_response Malformed_Name (Some ''describe_entity'') None"
| "metric_failure ca src pii_block (BadGrain g) = error_response Invalid_Time_Grain (Some ''get_metric'') None"
| "metric_failure ca src pii_block (PiiBlocked attempted blocked anchor) =
     failure RefusedStatus Kind_Pii_Blocked (suggest (Some ''describe_entity'') (Some [(''name'', Arg_Text anchor)])) blocked (Some anchor)"
| "metric_failure ca src pii_block (CompileFailed e) = compile_failure ca src pii_block e"
| "metric_failure ca src pii_block e = wrap_internal_error"

definition degradation :: "('v, 'r) metric_result \<Rightarrow> degradation_reason option" where
  "degradation m =
     (if mz_fan_out_join_names m \<noteq> [] then Some Fan_Out_Join
      else if mz_time_dimension_resolution m = T_Unavailable then Some Time_Dimension_Unavailable else None)"

definition get_metric_tool ::
  "(string \<Rightarrow> string + py_expr) \<Rightarrow> 'f cache \<Rightarrow> ('v, 'r) executor option \<Rightarrow> string \<Rightarrow> pii_category set \<Rightarrow> string option
   \<Rightarrow> 'v metric_request \<Rightarrow> envelope_error + ('v, 'r) metric_result tool_response" where
  "get_metric_tool ast_parse ca executor src pii_block grain q =
     (case executor of
        None \<Rightarrow> error_response Internal_Error (Some ''list_entities'') None
      | Some ex \<Rightarrow>
          (case get_metric_impl ast_parse ca ex src pii_block grain q of
             Inl e \<Rightarrow> metric_failure ca src pii_block e
           | Inr m \<Rightarrow>
               (let signal = derive_confidence (mz_aggregate_inference_method m) (mz_aggregate_validation_state m) in
                answer m (if degradation m = None then signal else min_confidence signal Conf_Medium)
                  (provenance_from_signal (mz_aggregate_inference_method m) (mz_aggregate_validation_state m))
                  [''describe_entity''] (degradation m))))"

subsection \<open>Every outcome has its envelope\<close>

text \<open>A result that, if it is an error, is one of \<open>Q\<close>, and a value in \<open>P\<close> otherwise.\<close>

definition ends :: "('e \<Rightarrow> bool) \<Rightarrow> ('a \<Rightarrow> bool) \<Rightarrow> 'e + 'a \<Rightarrow> bool" where
  "ends Q P r = (case r of Inl e \<Rightarrow> Q e | Inr x \<Rightarrow> P x)"

lemma ends_simps [simp]: "ends Q P (Inl e) = Q e" "ends Q P (Inr x) = P x"
  by (simp_all add: ends_def)

lemma ends_bind: "ends Q R m \<Longrightarrow> (\<And>x. m = Inr x \<Longrightarrow> R x \<Longrightarrow> ends Q P (f x)) \<Longrightarrow> ends Q P (rbind m f)"
  by (cases m) simp_all

lemma ends_mono: "ends Q P m \<Longrightarrow> (\<And>x. P x \<Longrightarrow> P' x) \<Longrightarrow> ends Q P' m"
  by (cases m) simp_all

text \<open>Tags that name known categories only, as the classifier writes them.\<close>

definition tags_known :: "score tag_table \<Rightarrow> bool" where
  "tags_known tags \<longleftrightarrow> (\<forall>k r. tags k = Some r \<longrightarrow> (\<forall>c \<in> decode_pii_categories (tr_categories r). category_of_name c \<noteq> None))"

lemma stored_known: "tags_known tags \<Longrightarrow> c \<in> snd (stored_tag tags src t k) \<Longrightarrow> category_of_name c \<noteq> None"
  by (fastforce simp: tags_known_def stored_tag_def split: option.splits)

lemma sorted_names_known: "c \<in> set (sorted_category_names cs) \<Longrightarrow> category_of_name c \<noteq> None"
  by (auto simp: sorted_category_names_def category_of_name_name)

definition known_refusal :: "string \<Rightarrow> metric_error \<Rightarrow> bool" where
  "known_refusal entity e \<longleftrightarrow> (\<exists>att blk. e = PiiBlocked att blk entity \<and> (\<forall>c \<in> set blk. category_of_name c \<noteq> None))"

lemma refuse_tagged_ends:
  assumes "tags_known tags"
  shows "ends (known_refusal entity) (\<lambda>_. True) (refuse_tagged tags src entity cols)"
proof -
  have "known_refusal entity (PiiBlocked (sorted_list_of_set (snd (stored_tag tags src t c))) (sorted_list_of_set (snd (stored_tag tags src t c))) entity)" for t c
    using stored_known [OF assms] by (auto simp: known_refusal_def)
  then show ?thesis by (auto simp: refuse_tagged_def Let_def split: option.splits prod.splits)
qed

lemma propagated_known:
  assumes "tags_known tags" "c \<in> snd (propagate (map (\<lambda>(t, c). stored_tag tags src t c) cols))"
  shows "category_of_name c \<noteq> None"
  using assms(2) stored_known [OF assms(1)] unfolding propagate_union by auto

lemma gate_ends:
  assumes "tags_known tags" "metric_ok ast_parse (mp_metric p)"
  shows "ends (known_refusal (mt_entity (mp_metric p))) (\<lambda>cats. \<forall>c \<in> set cats. category_of_name c \<noteq> None)
    (resolve_pii_categories ast_parse tags src pii_block p)"
proof -
  obtain cs where "measure_columns ast_parse (mt_measure (mp_metric p)) = Inr cs"
    using measure_columns_ok [of ast_parse "mt_measure (mp_metric p)"] assms(2) by (auto simp: metric_ok_def)
  then have m: "plan_measure_columns ast_parse p = Inr (sorted_list_of_set cs)" by (simp add: plan_measure_columns_def)
  have time: "\<exists>time. declared_time_column p = Inr time"
  proof (cases "mt_time_dimension (mp_metric p)")
    case (Some d)
    then have "match_qualified d \<noteq> None" using assms(2) by (auto simp: metric_ok_def check_metric_def split: if_splits)
    then obtain e c where "split1 CHR ''.'' d = (e, Some c)" using split1_append [OF is_ident_no_dot] by (auto simp: match_qualified_iff)
    then show ?thesis using Some by (simp add: declared_time_column_def)
  qed (simp add: declared_time_column_def)
  then obtain time where time: "declared_time_column p = Inr time" by blast
  let ?cats = "snd (propagate (map (\<lambda>(t, c). stored_tag tags src t c) (touched_columns p (sorted_list_of_set cs) time)))"
  have known: "\<forall>c \<in> set (sorted_list_of_set (?cats \<inter> X)). category_of_name c \<noteq> None" for X
    using propagated_known [OF assms(1)] by (cases "finite (?cats \<inter> X)") auto
  have "\<forall>c \<in> set (sorted_list_of_set ?cats). category_of_name c \<noteq> None" using known [of UNIV] by simp
  then show ?thesis unfolding resolve_pii_categories_def Let_def m time rbind.simps
    using known sorted_names_known refuse_tagged_ends [OF assms(1)] unfolding known_refusal_def
    by (intro ends_bind [where R = "\<lambda>_. True"]) (auto simp: known_refusal_def)
qed

definition foreseen :: "metric_error \<Rightarrow> bool" where
  "foreseen e = (case e of
       BadLimit n \<Rightarrow> True | BadGrain g \<Rightarrow> True | ExecutorFailed msg \<Rightarrow> True
     | CompileFailed c \<Rightarrow> request_error c
     | PiiBlocked att blk entity \<Rightarrow> \<forall>c \<in> set blk. category_of_name c \<noteq> None
     | _ \<Rightarrow> False)"

lemma join_read:
  assumes "store_ok ast_parse db"
  shows "\<exists>row. get_canonical_join db src n = Inr row"
  using assms find_row_SomeD by (fastforce simp: get_canonical_join_def store_ok_def rows_ok_def split: option.splits)

lemma signal_read: "store_ok ast_parse db \<Longrightarrow> \<exists>s. weakest_signal db src worst names = Inr s"
proof (induction names arbitrary: worst)
  case (Cons n names)
  obtain row where "get_canonical_join db src n = Inr row" using join_read [OF Cons.prems] by blast
  then show ?case using Cons by (auto simp: Let_def split: option.split)
qed simp

lemma get_metric_ends:
  assumes "store_ok ast_parse (ca_store ca)" "python_parser ast_parse" "tags_known (ca_tags ca)"
  shows "ends foreseen (\<lambda>_. True) (get_metric_impl ast_parse ca ex src pii_block grain q)"
proof -
  have narrow: "ends foreseen (\<lambda>_. True) (narrow_grain grain)"
    by (auto simp: narrow_grain_def foreseen_def split: option.split)
  have plan: "ends foreseen (plan_ok ast_parse (store_catalog ast_parse src (ca_store ca)) q')
      (compiled (resolve_metric_plan ast_parse (store_catalog ast_parse src (ca_store ca)) q'))" for q'
    using sqlite.resolved_plan_ok [OF assms(1), of src q']
    by (auto simp: compiled_def rspec_def foreseen_def split: sum.splits)
  have gate: "ends foreseen (\<lambda>cats. \<forall>c \<in> set cats. category_of_name c \<noteq> None) (resolve_pii_categories ast_parse (ca_tags ca) src pii_block p)"
    if "metric_ok ast_parse (mp_metric p)" for p :: "'b metric_plan"
    using gate_ends [OF assms(3) that, of src pii_block]
    by (cases "resolve_pii_categories ast_parse (ca_tags ca) src pii_block p") (auto simp: known_refusal_def foreseen_def)
  have emit: "ends foreseen (\<lambda>_. True) (compiled (emit_sql ast_parse p))"
    if "plan_ok ast_parse (store_catalog ast_parse src (ca_store ca)) q' p" for p q'
    using emit_plan_ok [OF that store_idents [OF assms(1)] assms(2)] by (auto simp: compiled_def)
  have run: "ends foreseen (\<lambda>_. True) (engine_execute ex sql params)" for sql params
    by (auto simp: engine_execute_def foreseen_def split: sum.split option.split)
  show ?thesis
  proof (cases "1 \<le> mq_limit q \<and> mq_limit q \<le> 10000")
    case True
    have cats: "list_ex (\<lambda>c. category_of_name c = None) cats = False" if "\<forall>c \<in> set cats. category_of_name c \<noteq> None" for cats
      using that by (auto simp: list_ex_iff)
    have limit: "(\<not> (1 \<le> mq_limit q \<and> mq_limit q \<le> 10000)) = False" using True by simp
    show ?thesis unfolding get_metric_impl_def Let_def limit if_False
    proof (rule ends_bind [OF narrow], rule ends_bind [OF plan], rule ends_bind [OF gate], simp add: plan_ok_def,
        rule ends_bind [OF emit], assumption, clarify, rule ends_bind [OF run])
      fix p :: "'b metric_plan" and cats
      assume c: "\<forall>c \<in> set cats. category_of_name c \<noteq> None"
      obtain im vs where "aggregate_metric_plan_signal (ca_store ca) src (mt_inference_method (mp_metric p)) (mt_validation_state (mp_metric p))
          (required_join_names p) = Inr (im, vs)" using signal_read [OF assms(1)] by (fastforce simp: aggregate_metric_plan_signal_def)
      then show "ends foreseen (\<lambda>_. True) (case aggregate_metric_plan_signal (ca_store ca) src (mt_inference_method (mp_metric p))
          (mt_validation_state (mp_metric p)) (required_join_names p) of Inl e \<Rightarrow> Inl (ReadFailed e)
        | Inr (im, vs) \<Rightarrow> if list_ex (\<lambda>c. category_of_name c = None) cats then Inl (BadResult cats) else Inr (r im vs))"
        for r :: "inference_method \<Rightarrow> validation_state \<Rightarrow> ('b, 'c) metric_result" using cats [OF c] by simp
    qed
  qed (simp add: get_metric_impl_def foreseen_def)
qed

lemma error_response_Inr:
  "kind \<notin> REFUSAL_KINDS \<Longrightarrow> error_response kind tool args = Inr \<lparr>tr_status = Error, tr_data = None,
     tr_error = Some \<lparr>te_kind = kind, te_recovery = suggest tool args, te_pii_categories = [], te_anchor_entity = None\<rparr>,
     tr_confidence = None, tr_provenance = None, tr_follow_up_hints = None, tr_degradation_reason = None\<rparr>"
  by (simp add: error_response_def failure_def check_tool_error_def check_response_def suggest_def)

lemma refusal_Inr:
  "\<forall>c \<in> set cats. category_of_name c \<noteq> None \<Longrightarrow> failure RefusedStatus Kind_Pii_Blocked r cats anchor =
     Inr \<lparr>tr_status = RefusedStatus, tr_data = None,
       tr_error = Some \<lparr>te_kind = Kind_Pii_Blocked, te_recovery = r, te_pii_categories = cats, te_anchor_entity = anchor\<rparr>,
       tr_confidence = None, tr_provenance = None, tr_follow_up_hints = None, tr_degradation_reason = None\<rparr>"
  by (auto simp: failure_def check_tool_error_def check_response_def REFUSAL_KINDS_def list_ex_iff)

lemma answer_Inr:
  "answer d conf prov hints reason =
     Inr \<lparr>tr_status = (if reason = None then Success else Degraded), tr_data = Some d, tr_error = None, tr_confidence = Some conf,
       tr_provenance = Some prov, tr_follow_up_hints = Some hints, tr_degradation_reason = reason\<rparr>"
  by (simp add: answer_def check_response_def)

lemma scrubbed:
  assumes "store_ok ast_parse db"
  obtains vs where "visible_allowed_columns db tags src block e cs = Inr vs"
proof -
  obtain row where "get_entity db src e = Inr row" using sqlite.entity_row [OF assms, of src e] by auto
  then have "\<exists>vs. visible_allowed_columns db tags src block e cs = Inr vs"
    by (cases row) (simp_all add: visible_allowed_columns_def Let_def)
  then show thesis using that by blast
qed

text \<open>An error envelope the agent can act on: not internal, no refusal, and with a tool to call next.\<close>

definition actionable :: "'d tool_response \<Rightarrow> bool" where
  "actionable r \<longleftrightarrow> tr_status r = Error \<and> tr_data r = None \<and> (case tr_error r of None \<Rightarrow> False | Some e \<Rightarrow>
     te_kind e \<notin> insert Internal_Error REFUSAL_KINDS \<and> te_pii_categories e = [] \<and> ry_suggested_tool (te_recovery e) \<noteq> None)"

lemma error_response_actionable:
  "kind \<notin> insert Internal_Error REFUSAL_KINDS \<Longrightarrow> \<exists>r. error_response kind (Some tool) args = Inr r \<and> actionable r"
  by (simp add: error_response_Inr actionable_def suggest_def)

lemma compile_failure_actionable:
  assumes "store_ok ast_parse (ca_store ca)" "request_error e"
  shows "\<exists>r. compile_failure ca src pii_block e = Inr r \<and> actionable (r :: 'd tool_response)"
proof -
  have act: "\<exists>r. error_response kind (Some tool) args = Inr r \<and> actionable (r :: 'd tool_response)"
    if "kind \<notin> {Internal_Error, Kind_Pii_Blocked, Policy_Blocked, Kind_Allowlist_Violation}" for kind tool args
    using that by (intro error_response_actionable) (simp add: REFUSAL_KINDS_def)
  have "\<exists>r. unknown_column_failure ca src pii_block kind entity cols = Inr r \<and> actionable (r :: 'd tool_response)"
    if "kind \<in> {Unknown_Group_By_Column, Unknown_Filter_Column, Unknown_Measure_Column}" for kind entity cols
  proof -
    obtain vs where "visible_allowed_columns (ca_store ca) (ca_tags ca) src (effective_block pii_block) entity cols = Inr vs"
      by (rule scrubbed [OF assms(1)])
    then show ?thesis using that act by (auto simp: unknown_column_failure_def)
  qed
  then show ?thesis using assms(2) act by (cases e) (auto split: list.split)
qed

text \<open>C2: Every get_metric call ends in a valid envelope that says what happened. On a reachable store with known
  tags the handler itself never raises: rows come back with status success, or degraded exactly when a join
  fans out or no time column was reachable; a refusal of the PII gate becomes status refused with exactly the blocked
  categories and the anchor entity; only a failure of the executor is an internal error; and every other failure
  is an error envelope that carries no categories and names the tool to call next.\<close>

theorem get_metric_envelopes:
  assumes "store_ok ast_parse (ca_store ca)" "python_parser ast_parse" "tags_known (ca_tags ca)"
  shows "\<exists>r. get_metric_tool ast_parse ca (Some ex) src pii_block grain q = Inr r \<and>
    (case get_metric_impl ast_parse ca ex src pii_block grain q of
       Inr m \<Rightarrow> tr_data r = Some m \<and> tr_error r = None \<and> tr_status r =
         (if mz_fan_out_join_names m \<noteq> [] \<or> mz_time_dimension_resolution m = T_Unavailable then Degraded else Success)
     | Inl (PiiBlocked attempted blocked anchor) \<Rightarrow> tr_status r = RefusedStatus \<and> tr_data r = None \<and>
         map_option te_kind (tr_error r) = Some Kind_Pii_Blocked \<and> map_option te_pii_categories (tr_error r) = Some blocked \<and>
         map_option te_anchor_entity (tr_error r) = Some (Some anchor)
     | Inl (ExecutorFailed msg) \<Rightarrow> tr_status r = Error \<and> tr_data r = None \<and> map_option te_kind (tr_error r) = Some Internal_Error
     | Inl e \<Rightarrow> actionable r)"
proof (cases "get_metric_impl ast_parse ca ex src pii_block grain q")
  case (Inr m)
  then show ?thesis by (simp add: get_metric_tool_def answer_Inr Let_def degradation_def)
next
  case (Inl e)
  then have e: "foreseen e" using get_metric_ends [OF assms, of ex src pii_block grain q] by simp
  show ?thesis
  proof (cases e)
    case (CompileFailed c)
    then show ?thesis using Inl e compile_failure_actionable [OF assms(1)] by (simp add: get_metric_tool_def foreseen_def)
  next
    case (PiiBlocked att blk anchor)
    then show ?thesis using Inl e by (simp add: get_metric_tool_def foreseen_def refusal_Inr)
  next
    case (ExecutorFailed msg)
    then show ?thesis using Inl by (simp add: get_metric_tool_def wrap_internal_error_def error_response_Inr REFUSAL_KINDS_def)
  qed (use Inl e in \<open>simp_all add: get_metric_tool_def foreseen_def error_response_actionable REFUSAL_KINDS_def\<close>)
qed

lemma tags_known_empty: "tags_known Map.empty"
  by (simp add: tags_known_def)

lemma tags_known_write:
  assumes "tags_known db"
  shows "tags_known (write_column_pii_tags db now src tbl tags confidence)"
proof -
  have row: "category_of_name c \<noteq> None" if "c \<in> decode_pii_categories (tr_categories (heuristic_row now tag conf))" for c tag conf
  proof -
    have "decode_pii_categories (tr_categories (heuristic_row now tag conf)) = category_names (snd tag)"
      by (simp add: heuristic_row_def split: option.split prod.split)
    then show ?thesis using that by (auto simp: category_names_def category_of_name_name)
  qed
  have kept: "category_of_name c \<noteq> None" if "drop_heuristic src tbl db k = Some r" "c \<in> decode_pii_categories (tr_categories r)" for k r c
    using that assms by (fastforce simp: drop_heuristic_def tags_known_def split: option.splits if_splits)
  show ?thesis unfolding tags_known_def
    using row kept by (fastforce simp: write_column_pii_tags_def Let_def split: option.splits if_splits)
qed

subsection \<open>Trust, hints and audit of an answer\<close>

abbreviation trust :: "inference_method \<times> validation_state \<Rightarrow> confidence" where
  "trust s \<equiv> derive_confidence (fst s) (snd s)"

abbreviation join_signal :: "canonical_join \<Rightarrow> inference_method \<times> validation_state" where
  "join_signal j \<equiv> (cj_inference_method j, cj_validation_state j)"

lemma weakest_signal_le:
  assumes "weakest_signal db src worst names = Inr s"
  shows "trust s \<le> trust worst \<and> (\<forall>n \<in> set names. \<forall>j. get_canonical_join db src n = Inr (Some j) \<longrightarrow> trust s \<le> trust (join_signal j)) \<and>
    (trust s = trust worst \<or> (\<exists>n \<in> set names. \<exists>j. get_canonical_join db src n = Inr (Some j) \<and> trust s = trust (join_signal j)))"
  using assms
proof (induction names arbitrary: worst)
  case (Cons n names)
  obtain row where row: "get_canonical_join db src n = Inr row" using Cons.prems by (auto elim: rbind_InrE)
  show ?case
  proof (cases row)
    case None
    then show ?thesis using Cons row by auto
  next
    case (Some j)
    let ?w = "if trust (join_signal j) < trust worst then join_signal j else worst"
    have "weakest_signal db src ?w names = Inr s"
      using Cons.prems row Some by (simp add: Let_def less_confidence_def)
    from Cons.IH [OF this] show ?thesis using row Some by (auto split: if_splits)
  qed
qed simp

lemma min_confidence: "min_confidence a b = min a b"
  by (simp add: min_confidence_def min_def less_eq_confidence_def)

lemma tool_answer:
  assumes "get_metric_tool ast_parse ca (Some ex) src pii_block grain q = Inr r" "tr_data r = Some m"
  shows "get_metric_impl ast_parse ca ex src pii_block grain q = Inr m"
proof (cases "get_metric_impl ast_parse ca ex src pii_block grain q")
  case (Inl e)
  have none: "failure st kind rc cats anchor = Inr r \<Longrightarrow> tr_data r = None" for st kind rc cats anchor
    by (auto simp: failure_def check_response_def elim!: rbind_InrE split: if_splits)
  have "compile_failure ca src pii_block c = Inr r \<Longrightarrow> tr_data r = None" for c
    by (cases c) (auto simp: error_response_def wrap_internal_error_def unknown_column_failure_def dest: none split: list.splits sum.splits)
  then have "metric_failure ca src pii_block e = Inr r \<Longrightarrow> tr_data r = None"
    by (cases e) (auto simp: error_response_def wrap_internal_error_def dest: none)
  then show ?thesis using Inl assms by (simp add: get_metric_tool_def)
qed (use assms in \<open>auto simp: get_metric_tool_def Let_def answer_Inr\<close>)

lemma impl_signal:
  assumes "get_metric_impl ast_parse ca ex src pii_block grain q = Inr m"
  shows "weakest_signal (ca_store ca) src (mz_metric_inference_method m, mz_metric_validation_state m) (mz_required_joins m) =
    Inr (mz_aggregate_inference_method m, mz_aggregate_validation_state m)"
  using assms unfolding get_metric_impl_def compiled_def
  by (auto simp: Let_def aggregate_metric_plan_signal_def split: if_splits sum.splits prod.splits elim!: rbind_InrE)

text \<open>The confidence of an answer is that of its weakest part. It is at most that of the metric and of every
  canonical join the SQL goes through, at most medium for a degraded answer, and no lower than these demand.\<close>

theorem confidence_is_weakest:
  assumes "get_metric_tool ast_parse ca (Some ex) src pii_block grain q = Inr r" "tr_data r = Some m"
  shows "\<exists>c. tr_confidence r = Some c \<and>
    c \<le> trust (mz_metric_inference_method m, mz_metric_validation_state m) \<and>
    (\<forall>n \<in> set (mz_required_joins m). \<forall>j. get_canonical_join (ca_store ca) src n = Inr (Some j) \<longrightarrow> c \<le> trust (join_signal j)) \<and>
    (tr_status r = Degraded \<longrightarrow> c \<le> Conf_Medium) \<and>
    (c = trust (mz_metric_inference_method m, mz_metric_validation_state m) \<or> tr_status r = Degraded \<and> c = Conf_Medium \<or>
     (\<exists>n \<in> set (mz_required_joins m). \<exists>j. get_canonical_join (ca_store ca) src n = Inr (Some j) \<and> c = trust (join_signal j)))"
proof -
  have m: "get_metric_impl ast_parse ca ex src pii_block grain q = Inr m" by (rule tool_answer [OF assms])
  let ?s = "trust (mz_aggregate_inference_method m, mz_aggregate_validation_state m)"
  have r: "tr_confidence r = Some (if degradation m = None then ?s else min ?s Conf_Medium)"
    "tr_status r = Degraded \<longleftrightarrow> degradation m \<noteq> None"
    using assms(1) m by (auto simp: get_metric_tool_def Let_def answer_Inr min_confidence split: if_splits)
  define b where "b = (if degradation m = None then ?s else min ?s Conf_Medium)"
  have b: "b \<le> ?s" "tr_status r = Degraded \<Longrightarrow> b \<le> Conf_Medium" "b = ?s \<or> tr_status r = Degraded \<and> b = Conf_Medium"
    unfolding b_def r(2) by (auto simp: min_def)
  have w: "?s \<le> trust (mz_metric_inference_method m, mz_metric_validation_state m)"
    "\<forall>n \<in> set (mz_required_joins m). \<forall>j. get_canonical_join (ca_store ca) src n = Inr (Some j) \<longrightarrow> ?s \<le> trust (join_signal j)"
    using weakest_signal_le [OF impl_signal [OF m]] by auto
  have a: "?s = trust (mz_metric_inference_method m, mz_metric_validation_state m) \<or>
     (\<exists>n \<in> set (mz_required_joins m). \<exists>j. get_canonical_join (ca_store ca) src n = Inr (Some j) \<and> ?s = trust (join_signal j))"
    using weakest_signal_le [OF impl_signal [OF m]] by (elim conjE)
  show ?thesis
  proof (intro exI conjI)
    show "tr_confidence r = Some b" using r(1) by (simp add: b_def)
    show "b \<le> trust (mz_metric_inference_method m, mz_metric_validation_state m)" by (rule order_trans [OF b(1) w(1)])
    show "\<forall>n \<in> set (mz_required_joins m). \<forall>j. get_canonical_join (ca_store ca) src n = Inr (Some j) \<longrightarrow> b \<le> trust (join_signal j)"
      using order_trans [OF b(1)] w(2) by blast
    show "b = trust (mz_metric_inference_method m, mz_metric_validation_state m) \<or> tr_status r = Degraded \<and> b = Conf_Medium \<or>
       (\<exists>n \<in> set (mz_required_joins m). \<exists>j. get_canonical_join (ca_store ca) src n = Inr (Some j) \<and> b = trust (join_signal j))"
      using b(3) a by metis
  qed (use b(2) in blast)
qed

text \<open>A retry hint names no blocked column. When the answer is that a group, filter or measure column does not
  exist, the columns it offers instead are all columns of the named entity's table that policy and floor let through.\<close>

theorem column_hints_masked:
  assumes "get_metric_tool ast_parse ca (Some ex) src pii_block grain q = Inr r" "tr_error r = Some e"
    "te_kind e \<in> {Unknown_Group_By_Column, Unknown_Filter_Column, Unknown_Measure_Column}"
  shows "\<exists>entity cols. ry_suggested_args (te_recovery e) = Some [(''name'', Arg_Text entity), (''allowed_columns'', Arg_List cols)] \<and>
    (\<forall>en. get_entity (ca_store ca) src entity = Inr (Some en) \<longrightarrow>
      (\<forall>c \<in> set cols. \<not> is_blocked (ca_tags ca) src (effective_block pii_block) (en_qualified_table en) c))"
proof (cases "get_metric_impl ast_parse ca ex src pii_block grain q")
  case (Inr m)
  then show ?thesis using assms by (simp add: get_metric_tool_def Let_def answer_Inr) fastforce
next
  case (Inl er)
  have resp: "error_response k t a = Inr r \<Longrightarrow> te_kind e = k \<and> te_recovery e = suggest t a" for k t a
    using assms(2) by (auto simp: error_response_def failure_def check_tool_error_def check_response_def split: if_splits)
  have refused: "failure st Kind_Pii_Blocked rc cats anchor = Inr r \<Longrightarrow> te_kind e = Kind_Pii_Blocked" for st rc cats anchor
    using assms(2) by (auto simp: failure_def check_tool_error_def check_response_def split: if_splits)
  have f: "metric_failure ca src pii_block er = Inr r" using Inl assms(1) by (simp add: get_metric_tool_def)
  have hint: "?thesis" if u: "unknown_column_failure ca src pii_block k entity cols = Inr r" for k entity cols
  proof -
    obtain vs where v: "visible_allowed_columns (ca_store ca) (ca_tags ca) src (effective_block pii_block) entity cols = Inr vs"
      "error_response k (Some ''describe_entity'') (Some [(''name'', Arg_Text entity), (''allowed_columns'', Arg_List vs)]) = Inr r"
      using u by (auto simp: unknown_column_failure_def split: sum.splits)
    then have "te_recovery e = suggest (Some ''describe_entity'') (Some [(''name'', Arg_Text entity), (''allowed_columns'', Arg_List vs)])"
      using resp by blast
    then show ?thesis using visible_allowed [OF v(1)] by (auto simp: suggest_def)
  qed
  have "\<exists>c. er = CompileFailed c" using f assms(3) by (cases er) (auto simp: wrap_internal_error_def dest!: resp refused)
  then obtain c where "er = CompileFailed c" by blast
  then have "compile_failure ca src pii_block c = Inr r" using f by simp
  then show ?thesis using assms(3) hint by (cases c) (auto simp: wrap_internal_error_def dest!: resp split: list.splits)
qed

subsection \<open>What the audit row records\<close>

fun kind_name :: "error_kind \<Rightarrow> string" where
  "kind_name Unknown_Name = ''unknown_name''"
| "kind_name Malformed_Name = ''malformed_name''"
| "kind_name Missing_Credential = ''missing_credential''"
| "kind_name Index_Not_Ready = ''index_not_ready''"
| "kind_name Kind_Schema_Drift = ''schema_drift''"
| "kind_name Kind_Cost_Cap_Exceeded = ''cost_cap_exceeded''"
| "kind_name Internal_Error = ''internal_error''"
| "kind_name Kind_Pii_Blocked = ''pii_blocked''"
| "kind_name Policy_Blocked = ''policy_blocked''"
| "kind_name Kind_Allowlist_Violation = ''allowlist_violation''"
| "kind_name No_Canonical_Join = ''no_canonical_join''"
| "kind_name Ambiguous_Join = ''ambiguous_join''"
| "kind_name Unknown_Join_Name = ''unknown_join_name''"
| "kind_name Join_Name_Mismatch = ''join_name_mismatch''"
| "kind_name Unknown_Metric = ''unknown_metric''"
| "kind_name Unreachable_Entity = ''unreachable_entity''"
| "kind_name Ambiguous_Path = ''ambiguous_path''"
| "kind_name Unknown_Via_Join = ''unknown_via_join''"
| "kind_name Unknown_Order_By_Column = ''unknown_order_by_column''"
| "kind_name Unknown_Group_By_Column = ''unknown_group_by_column''"
| "kind_name Unknown_Filter_Column = ''unknown_filter_column''"
| "kind_name Unknown_Measure_Column = ''unknown_measure_column''"
| "kind_name Invalid_Time_Grain = ''invalid_time_grain''"
| "kind_name Grain_Mismatch = ''grain_mismatch''"
| "kind_name Ambiguous_Time_Dimension = ''ambiguous_time_dimension''"
| "kind_name Invalid_Argument = ''invalid_argument''"

text \<open>What the audit writer reads off the response of get_metric.\<close>

definition categories_named :: "string list \<Rightarrow> pii_category list" where
  "categories_named = List.map_filter category_of_name"

definition metric_audit_view :: "('v, 'r) metric_result tool_response \<Rightarrow> response" where
  "metric_audit_view r =
     \<lparr>rs_status = Some (status_name (tr_status r)),
      rs_data = map_option (\<lambda>m. categories_named (mz_pii_categories m)) (tr_data r),
      rs_error = map_option (\<lambda>e. \<lparr>re_kind = Some (kind_name (te_kind e)), re_pii_categories = categories_named (te_pii_categories e),
        re_anchor_entity = te_anchor_entity e\<rparr>) (tr_error r)\<rparr>"

lemma categories_named_set: "\<forall>c \<in> set cs. category_of_name c \<noteq> None \<Longrightarrow> category_name ` set (categories_named cs) = set cs"
proof (induction cs)
  case (Cons c cs)
  obtain k where "category_of_name c = Some k" using Cons.prems by auto
  moreover from this have "category_name k = c" by (auto simp: category_of_name_def find_Some_iff)
  ultimately show ?case using Cons by (simp add: categories_named_def map_filter_simps)
qed (simp add: categories_named_def map_filter_simps)

lemma impl_known:
  assumes "get_metric_impl ast_parse ca ex src pii_block grain q = Inr m"
  shows "\<forall>c \<in> set (mz_pii_categories m). category_of_name c \<noteq> None"
proof -
  have "\<not> list_ex (\<lambda>c. category_of_name c = None) (mz_pii_categories m)"
    using assms unfolding get_metric_impl_def by (auto simp: Let_def split: if_splits sum.splits prod.splits elim!: rbind_InrE)
  then show ?thesis by (auto simp: list_ex_iff)
qed

lemma failure_Inr:
  assumes "failure st kind rc cats anchor = Inr r"
  shows "tr_status r = st" "tr_data r = None" "\<forall>c \<in> set cats. category_of_name c \<noteq> None"
    "tr_error r = Some \<lparr>te_kind = kind, te_recovery = rc, te_pii_categories = cats, te_anchor_entity = anchor\<rparr>"
  using assms by (auto simp: failure_def check_tool_error_def check_response_def list_ex_iff split: if_splits)

lemma error_response_fields:
  assumes "error_response kind tool args = Inr r"
  shows "tr_status r = Error \<and> tr_data r = None \<and> map_option te_pii_categories (tr_error r) = Some []"
  using failure_Inr [OF assms [unfolded error_response_def]] by simp

lemma plain_failure_fields:
  assumes "metric_failure ca src pii_block e = Inr r" "\<nexists>att blk anchor. e = PiiBlocked att blk anchor"
  shows "tr_status r = Error \<and> tr_data r = None \<and> map_option te_pii_categories (tr_error r) = Some []"
proof -
  have "compile_failure ca src pii_block c = Inr r \<Longrightarrow> ?thesis" for c
    by (cases c) (auto simp: wrap_internal_error_def unknown_column_failure_def dest!: error_response_fields split: list.splits sum.splits)
  then show ?thesis using assms by (cases e) (auto simp: wrap_internal_error_def dest!: error_response_fields)
qed

lemma audited_status: "find (\<lambda>s. status_name s = status_name t) ALLOWED_STATUSES = Some t"
  by (cases t) (simp_all add: ALLOWED_STATUSES_def)

lemma pii_blocked_kind: "kind_name k = ''pii_blocked'' \<longleftrightarrow> k = Kind_Pii_Blocked"
  by (cases k) simp_all

lemma audit_row_fields:
  "dr_status (build_audit_row t src (metric_audit_view r)) = tr_status r"
  "dr_refusal_reason (build_audit_row t src (metric_audit_view r)) =
     (if tr_status r = RefusedStatus \<and> map_option te_kind (tr_error r) = Some Kind_Pii_Blocked then Some Pii_Blocked else None)"
  "dr_cost_class (build_audit_row t src (metric_audit_view r)) = (if tr_status r = RefusedStatus then Refused else Small)"
  "dr_anchor_entity (build_audit_row t src (metric_audit_view r)) = Option.bind (tr_error r) te_anchor_entity"
  "dr_pii_categories (build_audit_row t src (metric_audit_view r)) = extract_pii_categories (metric_audit_view r)"
  by (simp_all add: build_audit_row_def metric_audit_view_def extract_refusal_reason_def extract_anchor_entity_def
      audited_status pii_blocked_kind Let_def split: option.split)

text \<open>C6: A refused metric leaves the right audit row. Whatever get_metric refuses is recorded as refused for PII,
  at the cost class of refusals, with exactly the categories the gate named and the metric's anchor entity; and what
  it does not refuse is never recorded as a refusal.\<close>

theorem refusals_are_audited:
  assumes "get_metric_tool ast_parse ca (Some ex) src pii_block grain q = Inr r"
  defines "d \<equiv> build_audit_row ''get_metric'' src (metric_audit_view r)"
  shows "case get_metric_impl ast_parse ca ex src pii_block grain q of
      Inl (PiiBlocked attempted blocked anchor) \<Rightarrow> dr_status d = RefusedStatus \<and> dr_refusal_reason d = Some Pii_Blocked \<and>
        dr_cost_class d = Refused \<and> category_name ` dr_pii_categories d = set blocked \<and> dr_anchor_entity d = Some anchor
    | Inr m \<Rightarrow> dr_status d \<in> {Success, Degraded} \<and> dr_refusal_reason d = None \<and> dr_cost_class d = Small \<and>
        category_name ` dr_pii_categories d = set (mz_pii_categories m)
    | Inl e \<Rightarrow> dr_status d = Error \<and> dr_refusal_reason d = None \<and> dr_cost_class d = Small \<and> dr_pii_categories d = {}"
proof (cases "get_metric_impl ast_parse ca ex src pii_block grain q")
  case (Inr m)
  then have r: "tr_status r = (if degradation m = None then Success else Degraded)" "tr_data r = Some m" "tr_error r = None"
    using assms(1) by (auto simp: get_metric_tool_def Let_def answer_Inr)
  have "dr_pii_categories d = set (categories_named (mz_pii_categories m))"
    unfolding d_def audit_row_fields by (simp add: extract_pii_categories_def metric_audit_view_def r)
  then have "category_name ` dr_pii_categories d = set (mz_pii_categories m)" using categories_named_set [OF impl_known [OF Inr]] by simp
  then show ?thesis using Inr r by (simp add: d_def audit_row_fields)
next
  case (Inl e)
  then have f: "metric_failure ca src pii_block e = Inr r" using assms(1) by (simp add: get_metric_tool_def)
  show ?thesis
  proof (cases "\<exists>att blk anchor. e = PiiBlocked att blk anchor")
    case True
    then obtain att blk anchor where e: "e = PiiBlocked att blk anchor" by blast
    note r = failure_Inr [OF f [unfolded e metric_failure.simps]]
    have "dr_pii_categories d = set (categories_named blk)"
      unfolding d_def audit_row_fields by (simp add: extract_pii_categories_def metric_audit_view_def r)
    then have "category_name ` dr_pii_categories d = set blk" using categories_named_set [OF r(3)] by simp
    then show ?thesis using Inl e r by (simp add: d_def audit_row_fields)
  next
    case False
    then have r: "tr_status r = Error" "tr_data r = None" "map_option te_pii_categories (tr_error r) = Some []"
      using plain_failure_fields [OF f] by auto
    then have "dr_pii_categories d = {}"
      unfolding d_def audit_row_fields by (auto simp: extract_pii_categories_def metric_audit_view_def categories_named_def map_filter_simps)
    then have "dr_status d = Error \<and> dr_refusal_reason d = None \<and> dr_cost_class d = Small \<and> dr_pii_categories d = {}"
      using r(1) by (simp add: d_def audit_row_fields)
    then show ?thesis using Inl False by (simp split: metric_error.split)
  qed
qed

subsection \<open>Requests against the demo store\<close>

lemma people_tags_known: "tags_known (ca_tags (people_cache people))"
  unfolding people_cache_def cache.simps by (intro tags_known_write tags_known_empty)

lemma people_store_ok: "store_ok no_parse (ca_store (people_cache people))"
  using people_store_good by (simp add: people_cache_def)

definition by_nothing :: "nat metric_request" where
  "by_nothing = by_month\<lparr>mq_group_by := [''order.nothing'']\<rparr>"

lemma behavioral_refused:
  "get_metric_impl no_parse (people_cache Map.empty) two_rows ''s'' {Behavioral} (Some ''month'') by_month =
     Inl (PiiBlocked [''behavioral''] [''behavioral''] ''order'')"
proof -
  have "case get_metric_impl no_parse (people_cache Map.empty) two_rows ''s'' {Behavioral} (Some ''month'') by_month of
      Inl e \<Rightarrow> e = PiiBlocked [''behavioral''] [''behavioral''] ''order'' | Inr m \<Rightarrow> False"
    by code_simp
  then show ?thesis by (auto split: sum.splits)
qed

lemma behavioral_response:
  "case get_metric_tool no_parse (people_cache Map.empty) (Some two_rows) ''s'' {Behavioral} (Some ''month'') by_month of
     Inr r \<Rightarrow> tr_status r = RefusedStatus | Inl e \<Rightarrow> False"
  by code_simp

lemma by_month_response:
  "case get_metric_tool no_parse (people_cache Map.empty) (Some two_rows) ''s'' {Contact} (Some ''month'') by_month of
     Inr r \<Rightarrow> tr_status r = Success \<and> (case tr_data r of Some m \<Rightarrow> mz_required_joins m = [''placed_by''] | None \<Rightarrow> False)
       \<and> tr_confidence r = Some Conf_Medium
   | Inl e \<Rightarrow> False"
  by code_simp

lemma by_nothing_response:
  "case get_metric_tool no_parse (people_cache Map.empty) (Some two_rows) ''s'' {Behavioral} None by_nothing of
     Inr r \<Rightarrow> (case tr_error r of Some e \<Rightarrow> te_kind e = Unknown_Group_By_Column \<and>
         ry_suggested_args (te_recovery e) = Some [(''name'', Arg_Text ''order''), (''allowed_columns'', Arg_List [''id''])]
       | None \<Rightarrow> False)
   | Inl e \<Rightarrow> False"
  by code_simp

theorem get_metric_envelopes_witness:
  "\<exists>r. get_metric_tool no_parse (people_cache Map.empty) (Some two_rows) ''s'' {Behavioral} (Some ''month'') by_month = Inr r \<and>
     tr_status r = RefusedStatus \<and> map_option te_pii_categories (tr_error r) = Some [''behavioral'']"
proof -
  have "python_parser no_parse" by (simp add: python_parser_def no_parse_def)
  from get_metric_envelopes [OF people_store_ok this people_tags_known, of Map.empty two_rows "''s''" "{Behavioral}" "Some ''month''" by_month]
  show ?thesis unfolding behavioral_refused by auto
qed

theorem confidence_is_weakest_witness:
  "\<exists>r m. get_metric_tool no_parse (people_cache Map.empty) (Some two_rows) ''s'' {Contact} (Some ''month'') by_month = Inr r \<and>
     tr_data r = Some m \<and> mz_required_joins m = [''placed_by''] \<and> tr_confidence r = Some Conf_Medium \<and>
     (\<forall>j. get_canonical_join people_store ''s'' ''placed_by'' = Inr (Some j) \<longrightarrow> Conf_Medium \<le> trust (join_signal j))"
proof -
  obtain r m where r: "get_metric_tool no_parse (people_cache Map.empty) (Some two_rows) ''s'' {Contact} (Some ''month'') by_month = Inr r"
    "tr_data r = Some m" "mz_required_joins m = [''placed_by'']" "tr_confidence r = Some Conf_Medium"
    using by_month_response by (auto split: sum.splits option.splits)
  from confidence_is_weakest [OF r(1,2)] r show ?thesis by (auto simp: people_cache_def)
qed

theorem column_hints_masked_witness:
  "\<exists>r e. get_metric_tool no_parse (people_cache Map.empty) (Some two_rows) ''s'' {Behavioral} None by_nothing = Inr r \<and> tr_error r = Some e \<and>
     ry_suggested_args (te_recovery e) = Some [(''name'', Arg_Text ''order''), (''allowed_columns'', Arg_List [''id''])] \<and>
     \<not> is_blocked (ca_tags (people_cache Map.empty)) ''s'' (effective_block {Behavioral}) ''public.orders'' ''id''"
proof -
  obtain r e where r: "get_metric_tool no_parse (people_cache Map.empty) (Some two_rows) ''s'' {Behavioral} None by_nothing = Inr r"
    "tr_error r = Some e" "te_kind e = Unknown_Group_By_Column"
    "ry_suggested_args (te_recovery e) = Some [(''name'', Arg_Text ''order''), (''allowed_columns'', Arg_List [''id''])]"
    using by_nothing_response by (auto split: sum.splits option.splits)
  have en: "case get_entity people_store ''s'' ''order'' of Inr (Some en) \<Rightarrow> en_qualified_table en = ''public.orders'' | _ \<Rightarrow> False"
    by code_simp
  from column_hints_masked [OF r(1,2)] r en show ?thesis by (auto simp: people_cache_def split: sum.splits option.splits)
qed

theorem refusals_are_audited_witness:
  "\<exists>r. get_metric_tool no_parse (people_cache Map.empty) (Some two_rows) ''s'' {Behavioral} (Some ''month'') by_month = Inr r \<and>
     dr_refusal_reason (build_audit_row ''get_metric'' ''s'' (metric_audit_view r)) = Some Pii_Blocked \<and>
     category_name ` dr_pii_categories (build_audit_row ''get_metric'' ''s'' (metric_audit_view r)) = {''behavioral''}"
proof -
  obtain r where r: "get_metric_tool no_parse (people_cache Map.empty) (Some two_rows) ''s'' {Behavioral} (Some ''month'') by_month = Inr r"
    using behavioral_response by (auto split: sum.splits)
  from refusals_are_audited [OF r] show ?thesis using r unfolding behavioral_refused by auto
qed

end
