(* ===== verification/DriftCheck.thy ===== *)
theory DriftCheck
  imports MetricFirewall
begin

section \<open>Drift between the semantic layer and the live source (check/engine.py)\<close>

text \<open>
  Every entity, metric and canonical join of the store is compared with the live source: the columns it names
  must exist there, and where the index recorded them they must still have the recorded type and nullability.
  A table is looked up at most once in the source and once in the store; the two caches are the state of a run.
  A source that raises ends the run. Hints and the wording of a detail are left out, and so are the guards of the
  constructors of a drift and of a report; the second is shown never to fire.
\<close>

datatype def_kind = D_Entity | D_Metric | D_Canonical_Join

datatype drift_kind =
    Table_Missing | Identity_Column_Missing | Measure_Column_Missing | Time_Dimension_Column_Missing | Join_Column_Missing
  | Type_Mismatch | Nullability_Change

record drift =
  df_def_kind :: def_kind
  df_def_name :: string
  df_drift_kind :: drift_kind
  df_detail :: string

record check_report =
  rp_drifts :: "drift list"
  rp_entities_healthy :: nat
  rp_metrics_healthy :: nat
  rp_joins_healthy :: nat
  rp_total_entities :: nat
  rp_total_metrics :: nat
  rp_total_joins :: nat

definition exit_code :: "check_report \<Rightarrow> int" where
  "exit_code r = (if rp_drifts r \<noteq> [] then 1 else 0)"

definition report_ok :: "check_report \<Rightarrow> bool" where
  "report_ok r \<longleftrightarrow> rp_entities_healthy r \<le> rp_total_entities r \<and> rp_metrics_healthy r \<le> rp_total_metrics r
     \<and> rp_joins_healthy r \<le> rp_total_joins r"

datatype check_error = SourceRaised string | CheckRead store_error | Unpacked string | MeasureRaised expression_error | InvariantBroken string

type_synonym live_source = "string \<Rightarrow> string \<Rightarrow> string + db_table option"

type_synonym reader = "string \<Rightarrow> string \<Rightarrow> store_error + db_table option"

type_synonym table_memo = "((string \<times> string) \<times> db_table option) list"

record check_state =
  ck_live :: table_memo
  ck_stored :: table_memo
  ck_drifts :: "drift list"
  ck_drifted :: "string list"
  ck_entities :: nat
  ck_metrics :: nat
  ck_joins :: nat

subsection \<open>Lookups\<close>

definition live_table :: "live_source \<Rightarrow> string \<Rightarrow> string \<Rightarrow> check_state \<Rightarrow> check_error + db_table option \<times> check_state" where
  "live_table source s t st =
     (case map_of (ck_live st) (s, t) of
        Some r \<Rightarrow> Inr (r, st)
      | None \<Rightarrow> (case source s t of
            Inl e \<Rightarrow> Inl (SourceRaised e)
          | Inr r \<Rightarrow> Inr (r, st\<lparr>ck_live := ck_live st @ [((s, t), r)]\<rparr>)))"

definition stored_table :: "reader \<Rightarrow> string \<Rightarrow> string \<Rightarrow> check_state \<Rightarrow> check_error + db_table option \<times> check_state" where
  "stored_table read s t st =
     (case map_of (ck_stored st) (s, t) of
        Some r \<Rightarrow> Inr (r, st)
      | None \<Rightarrow> (case read s t of
            Inl e \<Rightarrow> Inl (CheckRead e)
          | Inr r \<Rightarrow> Inr (r, st\<lparr>ck_stored := ck_stored st @ [((s, t), r)]\<rparr>)))"

definition split_table :: "string \<Rightarrow> check_error + string \<times> string" where
  "split_table q = (case split1 CHR ''.'' q of (s, Some t) \<Rightarrow> Inr (s, t) | (s, None) \<Rightarrow> Inl (Unpacked q))"

definition add_drifts :: "drift list \<Rightarrow> check_state \<Rightarrow> check_state" where
  "add_drifts ds st = st\<lparr>ck_drifts := ck_drifts st @ ds\<rparr>"

subsection \<open>The shape of a column\<close>

definition norm_type :: "string \<Rightarrow> string" where
  "norm_type t = lower_str (rstrip (dropWhile is_space t))"

definition column_shape_drifts :: "def_kind \<Rightarrow> string \<Rightarrow> string \<Rightarrow> string \<Rightarrow> db_table option \<Rightarrow> column \<Rightarrow> drift list" where
  "column_shape_drifts kind name q c stored live_col =
     (case stored of None \<Rightarrow> [] | Some t \<Rightarrow> (case get_column t c of None \<Rightarrow> [] | Some stored_col \<Rightarrow>
        (let d = (\<lambda>k. \<lparr>df_def_kind = kind, df_def_name = name, df_drift_kind = k, df_detail = q @ ''.'' @ c\<rparr>)
         in (if norm_type (co_data_type stored_col) \<noteq> norm_type (co_data_type live_col) then [d Type_Mismatch] else [])
          @ (if co_nullable stored_col \<noteq> co_nullable live_col then [d Nullability_Change] else []))))"

definition column_drifts :: "def_kind \<Rightarrow> string \<Rightarrow> string \<Rightarrow> db_table option \<Rightarrow> db_table \<Rightarrow> string \<Rightarrow> drift list" where
  "column_drifts kind name q stored live c =
     (case get_column live c of None \<Rightarrow> [] | Some col \<Rightarrow> column_shape_drifts kind name q c stored col)"

subsection \<open>One entity\<close>

definition check_entity_drift :: "live_source \<Rightarrow> reader \<Rightarrow> entity \<Rightarrow> check_state \<Rightarrow> check_error + check_state" where
  "check_entity_drift source read e st =
     (let q = en_qualified_table e;
          broken = (\<lambda>k detail st. add_drifts [\<lparr>df_def_kind = D_Entity, df_def_name = en_name e, df_drift_kind = k, df_detail = detail\<rparr>]
            (st\<lparr>ck_drifted := en_name e # ck_drifted st\<rparr>))
      in rbind (split_table q) (\<lambda>(s, t).
         rbind (live_table source s t st) (\<lambda>(live, st). case live of
           None \<Rightarrow> Inr (broken Table_Missing q st)
         | Some lt \<Rightarrow> (case get_column lt (en_identity e) of
               None \<Rightarrow> Inr (broken Identity_Column_Missing (q @ ''.'' @ en_identity e) st)
             | Some col \<Rightarrow>
                 rbind (stored_table read s t st) (\<lambda>(stored, st).
                   (let ds = column_shape_drifts D_Entity (en_name e) q (en_identity e) stored col
                    in Inr (if ds \<noteq> [] then add_drifts ds st else st\<lparr>ck_entities := ck_entities st + 1\<rparr>)))))))"

subsection \<open>One metric\<close>

text \<open>Entities by name; of several of one name the last.\<close>

definition entity_by_name :: "entity list \<Rightarrow> string \<Rightarrow> entity option" where
  "entity_by_name es = map_of (rev (map (\<lambda>e. (en_name e, e)) es))"

definition check_time_dimension ::
  "metric \<Rightarrow> string \<Rightarrow> db_table option \<Rightarrow> db_table \<Rightarrow> bool \<Rightarrow> check_state \<Rightarrow> check_error + check_state" where
  "check_time_dimension m q stored lt shape_drift st =
     (let finish = (\<lambda>drifted st. Inr (if drifted then st else st\<lparr>ck_metrics := ck_metrics st + 1\<rparr>)) in
      case mt_time_dimension m of
        None \<Rightarrow> finish shape_drift st
      | Some d \<Rightarrow> (case split1 CHR ''.'' d of
            (e, None) \<Rightarrow> Inl (Unpacked d)
          | (e, Some c) \<Rightarrow>
              if e \<noteq> mt_entity m then Inl (InvariantBroken (mt_name m))
              else if get_column lt c = None
                   then Inr (add_drifts [\<lparr>df_def_kind = D_Metric, df_def_name = mt_name m,
                          df_drift_kind = Time_Dimension_Column_Missing, df_detail = q @ ''.'' @ c\<rparr>] st)
              else (let ds = column_drifts D_Metric (mt_name m) q stored lt c
                    in finish (shape_drift \<or> ds \<noteq> []) (add_drifts ds st))))"

definition check_metric_drift ::
  "(string \<Rightarrow> string + py_expr) \<Rightarrow> live_source \<Rightarrow> reader \<Rightarrow> entity list \<Rightarrow> metric \<Rightarrow> check_state \<Rightarrow> check_error + check_state" where
  "check_metric_drift ast_parse source read es m st =
     (case entity_by_name es (mt_entity m) of
        None \<Rightarrow> Inr st
      | Some anchor \<Rightarrow>
          if mt_entity m \<in> set (ck_drifted st) then Inr st
          else (let q = en_qualified_table anchor in
            rbind (split_table q) (\<lambda>(s, t).
            rbind (live_table source s t st) (\<lambda>(live, st). case live of
              None \<Rightarrow> Inl (InvariantBroken (mt_name m))
            | Some lt \<Rightarrow>
                (case measure_columns ast_parse (mt_measure m) of
                   Inl e \<Rightarrow> Inl (MeasureRaised e)
                 | Inr cs \<Rightarrow>
                     (case filter (\<lambda>c. get_column lt c = None) (sorted_list_of_set cs) of
                        c # _ \<Rightarrow> Inr (add_drifts [\<lparr>df_def_kind = D_Metric, df_def_name = mt_name m,
                            df_drift_kind = Measure_Column_Missing, df_detail = q @ ''.'' @ c\<rparr>] st)
                      | [] \<Rightarrow>
                          rbind (stored_table read s t st) (\<lambda>(stored, st).
                            (let ds = concat (map (column_drifts D_Metric (mt_name m) q stored lt) (sorted_list_of_set cs))
                             in check_time_dimension m q stored lt (ds \<noteq> []) (add_drifts ds st)))))))))"

subsection \<open>One join\<close>

text \<open>The first column of the pairs, in this order, that is gone.\<close>

fun first_missing :: "string \<Rightarrow> string \<Rightarrow> db_table \<Rightarrow> db_table \<Rightarrow> join_column_pair list \<Rightarrow> string option" where
  "first_missing qs qt ls lt [] = None"
| "first_missing qs qt ls lt (k # ks) =
     (if get_column ls (jp_source_column k) = None then Some (qs @ ''.'' @ jp_source_column k)
      else if get_column lt (jp_target_column k) = None then Some (qt @ ''.'' @ jp_target_column k)
      else first_missing qs qt ls lt ks)"

definition pair_drifts :: "string \<Rightarrow> string \<Rightarrow> string \<Rightarrow> db_table option \<Rightarrow> db_table option \<Rightarrow> db_table \<Rightarrow> db_table \<Rightarrow> join_column_pair \<Rightarrow> drift list" where
  "pair_drifts name qs qt ss ts ls lt k =
     column_drifts D_Canonical_Join name qs ss ls (jp_source_column k) @ column_drifts D_Canonical_Join name qt ts lt (jp_target_column k)"

definition check_join_drift ::
  "live_source \<Rightarrow> reader \<Rightarrow> entity list \<Rightarrow> canonical_join \<Rightarrow> check_state \<Rightarrow> check_error + check_state" where
  "check_join_drift source read es j st =
     (case (entity_by_name es (cj_source_entity j), entity_by_name es (cj_target_entity j)) of
        (Some a, Some b) \<Rightarrow>
          if cj_source_entity j \<in> set (ck_drifted st) \<or> cj_target_entity j \<in> set (ck_drifted st) then Inr st
          else (let qs = en_qualified_table a; qt = en_qualified_table b in
            rbind (split_table qs) (\<lambda>(s1, t1).
            rbind (split_table qt) (\<lambda>(s2, t2).
            rbind (live_table source s1 t1 st) (\<lambda>(live1, st).
            rbind (live_table source s2 t2 st) (\<lambda>(live2, st).
              case (live1, live2) of
                (Some ls, Some lt) \<Rightarrow>
                  (case first_missing qs qt ls lt (cj_on j) of
                     Some detail \<Rightarrow> Inr (add_drifts [\<lparr>df_def_kind = D_Canonical_Join, df_def_name = cj_name j,
                         df_drift_kind = Join_Column_Missing, df_detail = detail\<rparr>] st)
                   | None \<Rightarrow>
                       rbind (stored_table read s1 t1 st) (\<lambda>(ss, st).
                       rbind (stored_table read s2 t2 st) (\<lambda>(ts, st).
                         (let ds = concat (map (pair_drifts (cj_name j) qs qt ss ts ls lt) (cj_on j))
                          in Inr (if ds \<noteq> [] then add_drifts ds st else st\<lparr>ck_joins := ck_joins st + 1\<rparr>)))))
              | _ \<Rightarrow> Inl (InvariantBroken (cj_name j)))))))
      | _ \<Rightarrow> Inr st)"

subsection \<open>The check\<close>

primrec rfold :: "('a \<Rightarrow> 's \<Rightarrow> 'e + 's) \<Rightarrow> 'a list \<Rightarrow> 's \<Rightarrow> 'e + 's" where
  "rfold f [] st = Inr st"
| "rfold f (x # xs) st = rbind (f x st) (rfold f xs)"

definition check_read :: "store_error + 'a \<Rightarrow> check_error + 'a" where
  "check_read r = (case r of Inl e \<Rightarrow> Inl (CheckRead e) | Inr x \<Rightarrow> Inr x)"

definition fresh_check :: check_state where
  "fresh_check = \<lparr>ck_live = [], ck_stored = [], ck_drifts = [], ck_drifted = [], ck_entities = 0, ck_metrics = 0, ck_joins = 0\<rparr>"

text \<open>The report, and with it the tables that were looked up in the source, in order.\<close>

definition check_drift ::
  "(string \<Rightarrow> string + py_expr) \<Rightarrow> store \<Rightarrow> live_source \<Rightarrow> string \<Rightarrow> check_error + check_report \<times> (string \<times> string) list" where
  "check_drift ast_parse db source src =
     rbind (check_read (list_entities db (Some src))) (\<lambda>es.
     rbind (check_read (list_metrics ast_parse db (Some src))) (\<lambda>ms.
     rbind (check_read (list_canonical_joins db (Some src))) (\<lambda>js.
     rbind (rfold (check_entity_drift source (get_table db src)) es fresh_check) (\<lambda>st.
     rbind (rfold (check_metric_drift ast_parse source (get_table db src) es) ms st) (\<lambda>st.
     rbind (rfold (check_join_drift source (get_table db src) es) js st) (\<lambda>st.
       Inr (\<lparr>rp_drifts = ck_drifts st, rp_entities_healthy = ck_entities st, rp_metrics_healthy = ck_metrics st,
          rp_joins_healthy = ck_joins st, rp_total_entities = length es, rp_total_metrics = length ms, rp_total_joins = length js\<rparr>,
         map fst (ck_live st))))))))"

subsection \<open>Agreement with the live source\<close>

text \<open>A column of a table agrees if the live table has it and, where the index recorded it, with the recorded
  type and nullability. \<open>L\<close> and \<open>S\<close> are the live and the recorded tables.\<close>

type_synonym tables = "string \<times> string \<Rightarrow> db_table option"

definition same_shape :: "column \<Rightarrow> column \<Rightarrow> bool" where
  "same_shape a b \<longleftrightarrow> norm_type (co_data_type a) = norm_type (co_data_type b) \<and> co_nullable a = co_nullable b"

definition column_agrees :: "tables \<Rightarrow> tables \<Rightarrow> string \<times> string \<Rightarrow> string \<Rightarrow> bool" where
  "column_agrees L S k c \<longleftrightarrow>
     (case L k of None \<Rightarrow> False | Some lt \<Rightarrow> (case get_column lt c of None \<Rightarrow> False | Some col \<Rightarrow>
        (case S k of None \<Rightarrow> True | Some t \<Rightarrow> (case get_column t c of None \<Rightarrow> True | Some sc \<Rightarrow> same_shape sc col))))"

definition table_of_entity :: "entity \<Rightarrow> string \<times> string" where
  "table_of_entity e = (case split1 CHR ''.'' (en_qualified_table e) of (s, t) \<Rightarrow> (s, case t of Some n \<Rightarrow> n | None \<Rightarrow> []))"

definition entity_agrees :: "tables \<Rightarrow> tables \<Rightarrow> entity \<Rightarrow> bool" where
  "entity_agrees L S e \<longleftrightarrow> column_agrees L S (table_of_entity e) (en_identity e)"

text \<open>An entity is broken if its table or its identity column is gone; what depends on it is not checked.\<close>

definition entity_broken :: "tables \<Rightarrow> entity \<Rightarrow> bool" where
  "entity_broken L e \<longleftrightarrow> (case L (table_of_entity e) of None \<Rightarrow> True | Some lt \<Rightarrow> get_column lt (en_identity e) = None)"

definition metric_columns :: "(string \<Rightarrow> string + py_expr) \<Rightarrow> metric \<Rightarrow> string set" where
  "metric_columns ast_parse m =
     (case measure_columns ast_parse (mt_measure m) of Inr cs \<Rightarrow> cs | Inl e \<Rightarrow> {}) \<union>
     (case mt_time_dimension m of None \<Rightarrow> {} | Some d \<Rightarrow> (case split1 CHR ''.'' d of (e, Some c) \<Rightarrow> {c} | (e, None) \<Rightarrow> {}))"

definition metric_agrees :: "(string \<Rightarrow> string + py_expr) \<Rightarrow> tables \<Rightarrow> tables \<Rightarrow> entity list \<Rightarrow> metric \<Rightarrow> bool" where
  "metric_agrees ast_parse L S es m \<longleftrightarrow>
     (case entity_by_name es (mt_entity m) of None \<Rightarrow> False
      | Some a \<Rightarrow> \<forall>c \<in> metric_columns ast_parse m. column_agrees L S (table_of_entity a) c)"

definition join_agrees :: "tables \<Rightarrow> tables \<Rightarrow> entity list \<Rightarrow> canonical_join \<Rightarrow> bool" where
  "join_agrees L S es j \<longleftrightarrow>
     (case (entity_by_name es (cj_source_entity j), entity_by_name es (cj_target_entity j)) of
        (Some a, Some b) \<Rightarrow> \<forall>k \<in> set (cj_on j). column_agrees L S (table_of_entity a) (jp_source_column k)
          \<and> column_agrees L S (table_of_entity b) (jp_target_column k)
      | _ \<Rightarrow> False)"

definition suppressed :: "tables \<Rightarrow> entity list \<Rightarrow> string \<Rightarrow> bool" where
  "suppressed L es n \<longleftrightarrow> (\<exists>e \<in> set es. entity_broken L e \<and> en_name e = n)"

lemma entity_table:
  assumes "entity_ok e"
  obtains s t where "split1 CHR ''.'' (en_qualified_table e) = (s, Some t)" "table_of_entity e = (s, t)"
proof -
  obtain a b where "match_qualified (en_qualified_table e) = Some (a, b)" using assms by (auto simp: entity_ok_def)
  then have "is_ident a" "en_qualified_table e = a @ ''.'' @ b" by (simp_all add: match_qualified_iff)
  then have "split1 CHR ''.'' (en_qualified_table e) = (a, Some b)" using split1_append [OF is_ident_no_dot, of a b] by simp
  then show thesis using that by (simp add: table_of_entity_def)
qed

subsection \<open>The caches\<close>

definition memo_ok :: "tables \<Rightarrow> table_memo \<Rightarrow> bool" where
  "memo_ok L memo \<longleftrightarrow> distinct (map fst memo) \<and> (\<forall>k r. (k, r) \<in> set memo \<longrightarrow> L k = r)"

lemma memo_hit:
  assumes "memo_ok L memo" "map_of memo k = Some r"
  shows "L k = r" "k \<in> set (map fst memo)"
proof -
  have m: "(k, r) \<in> set memo" using assms(2) by (rule map_of_SomeD)
  then show "L k = r" using assms(1) unfolding memo_ok_def by blast
  show "k \<in> set (map fst memo)" using imageI [OF m, of fst] by simp
qed

lemma memo_miss: "memo_ok L memo \<Longrightarrow> map_of memo k = None \<Longrightarrow> memo_ok L (memo @ [(k, L k)])"
  by (auto simp: memo_ok_def map_of_eq_None_iff)

lemma finite_columns: "measure_columns ast_parse m = Inr cs \<Longrightarrow> finite cs"
  by (auto simp: measure_columns_def parse_measure_expression_def result_simps split: option.splits if_splits sum.splits)

lemma first_missing_None:
  "first_missing qs qt ls lt ks = None \<longleftrightarrow>
     (\<forall>k \<in> set ks. get_column ls (jp_source_column k) \<noteq> None \<and> get_column lt (jp_target_column k) \<noteq> None)"
  by (induction ks) auto

text \<open>A later state of a memo that looked up only tables some entity is bound to in between.\<close>

definition memo_grows :: "entity list \<Rightarrow> table_memo \<Rightarrow> table_memo \<Rightarrow> bool" where
  "memo_grows es old new \<longleftrightarrow> set (map fst old) \<subseteq> set (map fst new) \<and> set (map fst new) \<subseteq> set (map fst old) \<union> table_of_entity ` set es"

lemma memo_grows_refl [simp]: "memo_grows es memo memo"
  by (simp add: memo_grows_def)

lemma memo_grows_trans: "memo_grows es a b \<Longrightarrow> memo_grows es b c \<Longrightarrow> memo_grows es a c"
  unfolding memo_grows_def by blast

lemma memo_grows_lookup: "set (map fst new) = insert (table_of_entity a) (set (map fst old)) \<Longrightarrow> a \<in> set es \<Longrightarrow> memo_grows es old new"
  unfolding memo_grows_def by blast

locale lookups =
  fixes source :: live_source and read :: reader and L S :: tables
  assumes source_answers: "source s t = Inr (L (s, t))"
    and store_answers: "read s t = Inr (S (s, t))"
begin

lemma live_lookup:
  assumes "memo_ok L (ck_live st)"
  obtains live where "live_table source s t st = Inr (L (s, t), st\<lparr>ck_live := live\<rparr>)" "memo_ok L live"
    "set (map fst live) = insert (s, t) (set (map fst (ck_live st)))"
proof (cases "map_of (ck_live st) (s, t)")
  case None
  then show ?thesis using that memo_miss [OF assms None] by (simp add: live_table_def source_answers)
next
  case (Some r)
  then show ?thesis using that [of "ck_live st"] memo_hit [OF assms Some] assms by (simp add: live_table_def insert_absorb)
qed

lemma stored_lookup:
  assumes "memo_ok S (ck_stored st)"
  obtains stored where "stored_table read s t st = Inr (S (s, t), st\<lparr>ck_stored := stored\<rparr>)" "memo_ok S stored"
proof (cases "map_of (ck_stored st) (s, t)")
  case None
  then show ?thesis using that memo_miss [OF assms None] by (simp add: stored_table_def store_answers)
next
  case (Some r)
  then show ?thesis using that [of "ck_stored st"] memo_hit [OF assms Some] assms by (simp add: stored_table_def)
qed

lemma column_gone: "L k = Some lt \<Longrightarrow> get_column lt c = None \<Longrightarrow> \<not> column_agrees L S k c"
  by (simp add: column_agrees_def)

lemma shape_drifts_nil:
  "L k = Some lt \<Longrightarrow> get_column lt c = Some col \<Longrightarrow> column_shape_drifts kind name q c (S k) col = [] \<longleftrightarrow> column_agrees L S k c"
  by (auto simp: column_shape_drifts_def column_agrees_def same_shape_def Let_def split: option.split)

lemma column_drifts_nil:
  "L k = Some lt \<Longrightarrow> get_column lt c \<noteq> None \<Longrightarrow> column_drifts kind name q (S k) lt c = [] \<longleftrightarrow> column_agrees L S k c"
  by (cases "get_column lt c") (simp_all add: column_drifts_def shape_drifts_nil)

lemma entity_step:
  assumes "memo_ok L (ck_live st)" "memo_ok S (ck_stored st)" "entity_ok e"
  shows "\<exists>ds live stored. check_entity_drift source read e st = Inr (st\<lparr>ck_live := live, ck_stored := stored,
      ck_drifts := ck_drifts st @ ds, ck_drifted := (if entity_broken L e then [en_name e] else []) @ ck_drifted st,
      ck_entities := ck_entities st + (if ds = [] then 1 else 0)\<rparr>) \<and> memo_ok L live \<and> memo_ok S stored \<and>
      set (map fst live) = insert (table_of_entity e) (set (map fst (ck_live st))) \<and> (ds = [] \<longleftrightarrow> entity_agrees L S e)"
proof -
  obtain s t where q: "split1 CHR ''.'' (en_qualified_table e) = (s, Some t)" "table_of_entity e = (s, t)"
    by (rule entity_table [OF assms(3)])
  obtain live where live: "live_table source s t st = Inr (L (s, t), st\<lparr>ck_live := live\<rparr>)" "memo_ok L live"
    "set (map fst live) = insert (s, t) (set (map fst (ck_live st)))" by (rule live_lookup [OF assms(1)])
  show ?thesis
  proof (cases "L (s, t)")
    case None
    show ?thesis
      by (rule exI [of _ "[\<lparr>df_def_kind = D_Entity, df_def_name = en_name e, df_drift_kind = Table_Missing, df_detail = en_qualified_table e\<rparr>]"],
          rule exI [of _ live], rule exI [of _ "ck_stored st"])
        (use assms q live None in \<open>simp add: check_entity_drift_def split_table_def Let_def add_drifts_def entity_broken_def
          entity_agrees_def column_agrees_def\<close>)
  next
    case lt: (Some lt)
    show ?thesis
    proof (cases "get_column lt (en_identity e)")
      case None
      show ?thesis
        by (rule exI [of _ "[\<lparr>df_def_kind = D_Entity, df_def_name = en_name e, df_drift_kind = Identity_Column_Missing,
              df_detail = en_qualified_table e @ ''.'' @ en_identity e\<rparr>]"], rule exI [of _ live], rule exI [of _ "ck_stored st"])
          (use assms q live lt None in \<open>simp add: check_entity_drift_def split_table_def Let_def add_drifts_def entity_broken_def
            entity_agrees_def column_agrees_def\<close>)
    next
      case (Some col)
      have "memo_ok S (ck_stored (st\<lparr>ck_live := live\<rparr>))" using assms(2) by simp
      then obtain stored where stored: "stored_table read s t (st\<lparr>ck_live := live\<rparr>) = Inr (S (s, t), st\<lparr>ck_live := live, ck_stored := stored\<rparr>)"
        "memo_ok S stored" using stored_lookup [where s = s and t = t and st = "st\<lparr>ck_live := live\<rparr>"] by auto
      let ?ds = "column_shape_drifts D_Entity (en_name e) (en_qualified_table e) (en_identity e) (S (s, t)) col"
      show ?thesis
        by (rule exI [of _ ?ds], rule exI [of _ live], rule exI [of _ stored])
          (use assms q live stored lt Some shape_drifts_nil [OF lt Some] in \<open>simp add: check_entity_drift_def split_table_def Let_def
            add_drifts_def entity_broken_def entity_agrees_def\<close>)
    qed
  qed
qed

lemma time_step:
  assumes "L k = Some lt" "check_metric m = Inr m" "\<And>d. mt_time_dimension m = Some d \<Longrightarrow> fst (split1 CHR ''.'' d) = mt_entity m"
  shows "\<exists>ds. check_time_dimension m q (S k) lt shape st =
      Inr ((add_drifts ds st)\<lparr>ck_metrics := ck_metrics st + (if \<not> shape \<and> ds = [] then 1 else 0)\<rparr>) \<and>
    (ds = [] \<longleftrightarrow> (\<forall>d e c. mt_time_dimension m = Some d \<longrightarrow> split1 CHR ''.'' d = (e, Some c) \<longrightarrow> column_agrees L S k c))"
proof (cases "mt_time_dimension m")
  case None
  then show ?thesis by (intro exI [of _ "[]"]) (simp add: check_time_dimension_def Let_def add_drifts_def)
next
  case (Some d)
  then have "match_qualified d \<noteq> None" using assms(2) by (auto simp: check_metric_def split: if_splits)
  then obtain e c where sp: "split1 CHR ''.'' d = (e, Some c)" using split1_append [OF is_ident_no_dot] by (auto simp: match_qualified_iff)
  have e: "e = mt_entity m" using assms(3) [OF Some] sp by simp
  show ?thesis
  proof (cases "get_column lt c = None")
    case True
    then have "\<not> column_agrees L S k c" using assms(1) by (simp add: column_agrees_def)
    then show ?thesis using Some sp e True
      by (intro exI [of _ "[\<lparr>df_def_kind = D_Metric, df_def_name = mt_name m, df_drift_kind = Time_Dimension_Column_Missing, df_detail = q @ ''.'' @ c\<rparr>]"])
        (simp add: check_time_dimension_def Let_def add_drifts_def)
  next
    case False
    then obtain col where col: "get_column lt c = Some col" by blast
    show ?thesis using Some sp e col column_drifts_nil [OF assms(1) False]
      by (intro exI [of _ "column_drifts D_Metric (mt_name m) q (S k) lt c"]) (simp add: check_time_dimension_def Let_def add_drifts_def)
  qed
qed

lemma by_name:
  assumes "entity_by_name es n = Some a"
  shows "a \<in> set es \<and> en_name a = n"
  using map_of_SomeD [OF assms [unfolded entity_by_name_def]] by auto

lemma healthy_table:
  assumes "a \<in> set es" "\<not> suppressed L es (en_name a)"
  obtains lt where "L (table_of_entity a) = Some lt"
  using assms by (auto simp: suppressed_def entity_broken_def split: option.splits)

lemma metric_step:
  assumes st: "memo_ok L (ck_live st)" "memo_ok S (ck_stored st)" "\<And>n. n \<in> set (ck_drifted st) \<longleftrightarrow> suppressed L es n"
    and es: "list_all entity_ok es" "entity_by_name es (mt_entity m) = Some a"
    and m: "metric_ok ast_parse m" "\<And>d. mt_time_dimension m = Some d \<Longrightarrow> fst (split1 CHR ''.'' d) = mt_entity m"
  shows "\<exists>ds live stored. check_metric_drift ast_parse source read es m st = Inr (st\<lparr>ck_live := live, ck_stored := stored,
      ck_drifts := ck_drifts st @ ds,
      ck_metrics := ck_metrics st + (if \<not> suppressed L es (mt_entity m) \<and> metric_agrees ast_parse L S es m then 1 else 0)\<rparr>) \<and>
    memo_ok L live \<and> memo_ok S stored \<and> memo_grows es (ck_live st) live \<and>
    (ds = [] \<longleftrightarrow> suppressed L es (mt_entity m) \<or> metric_agrees ast_parse L S es m)"
proof (cases "suppressed L es (mt_entity m)")
  case True
  then have "check_metric_drift ast_parse source read es m st = Inr st" using st(3) es(2) by (simp add: check_metric_drift_def)
  then show ?thesis using True st by (intro exI [of _ "[]"] exI [of _ "ck_live st"] exI [of _ "ck_stored st"]) simp
next
  case False
  have a: "a \<in> set es" "en_name a = mt_entity m" using by_name [OF es(2)] by auto
  obtain s t where q: "split1 CHR ''.'' (en_qualified_table a) = (s, Some t)" "table_of_entity a = (s, t)"
    using entity_table es(1) a(1) by (metis list_all_iff)
  obtain lt where lt: "L (s, t) = Some lt" using healthy_table [OF a(1)] False a(2) q(2) by metis
  obtain live where live: "live_table source s t st = Inr (L (s, t), st\<lparr>ck_live := live\<rparr>)" "memo_ok L live"
    "set (map fst live) = insert (s, t) (set (map fst (ck_live st)))" by (rule live_lookup [OF st(1)])
  have keys: "memo_grows es (ck_live st) live" by (rule memo_grows_lookup [OF live(3) [folded q(2)] a(1)])
  obtain cs where c: "measure_columns ast_parse (mt_measure m) = Inr cs"
    using measure_columns_ok [of ast_parse "mt_measure m"] m(1) by (auto simp: metric_ok_def)
  note cs = c finite_columns [OF c]
  have agrees: "metric_agrees ast_parse L S es m \<longleftrightarrow> (\<forall>c \<in> cs. column_agrees L S (s, t) c) \<and>
      (\<forall>d e c. mt_time_dimension m = Some d \<longrightarrow> split1 CHR ''.'' d = (e, Some c) \<longrightarrow> column_agrees L S (s, t) c)"
  proof -
    have "metric_columns ast_parse m = cs \<union> {c. \<exists>d e. mt_time_dimension m = Some d \<and> split1 CHR ''.'' d = (e, Some c)}"
      using cs(1) by (auto simp: metric_columns_def split: option.split prod.split)
    then show ?thesis using es(2) q(2) by (simp add: metric_agrees_def) blast
  qed
  show ?thesis
  proof (cases "filter (\<lambda>c. get_column lt c = None) (sorted_list_of_set cs)")
    case (Cons c rest)
    then have "c \<in> set (filter (\<lambda>c. get_column lt c = None) (sorted_list_of_set cs))" by simp
    then have c: "c \<in> cs" "get_column lt c = None" using cs(2) by auto
    then have "\<not> column_agrees L S (s, t) c" using lt by (simp add: column_agrees_def)
    then have "\<not> metric_agrees ast_parse L S es m" using c(1) unfolding agrees by blast
    then show ?thesis using False st es(2) q live lt cs Cons keys
      by (intro exI [of _ "[\<lparr>df_def_kind = D_Metric, df_def_name = mt_name m, df_drift_kind = Measure_Column_Missing,
            df_detail = en_qualified_table a @ ''.'' @ c\<rparr>]"] exI [of _ live] exI [of _ "ck_stored st"])
        (simp add: check_metric_drift_def split_table_def Let_def add_drifts_def)
  next
    case Nil
    then have present: "get_column lt c \<noteq> None" if "c \<in> cs" for c using that cs(2) by (auto simp: filter_empty_conv)
    obtain stored where stored: "stored_table read s t (st\<lparr>ck_live := live\<rparr>) = Inr (S (s, t), st\<lparr>ck_live := live, ck_stored := stored\<rparr>)"
      "memo_ok S stored" using stored_lookup [where s = s and t = t and st = "st\<lparr>ck_live := live\<rparr>"] st(2) by auto
    define ds1 where "ds1 = concat (map (column_drifts D_Metric (mt_name m) (en_qualified_table a) (S (s, t)) lt) (sorted_list_of_set cs))"
    have ds1: "ds1 = [] \<longleftrightarrow> (\<forall>c \<in> cs. column_agrees L S (s, t) c)"
      using column_drifts_nil [OF lt present] cs(2) by (auto simp: ds1_def)
    let ?st = "st\<lparr>ck_live := live, ck_stored := stored\<rparr>"
    have "check_metric m = Inr m" using m(1) by (simp add: metric_ok_def)
    from time_step [OF lt this m(2), of "en_qualified_table a" "ds1 \<noteq> []" "add_drifts ds1 ?st"]
    obtain ds2 where ds2: "check_time_dimension m (en_qualified_table a) (S (s, t)) lt (ds1 \<noteq> []) (add_drifts ds1 ?st) =
        Inr ((add_drifts ds2 (add_drifts ds1 ?st))\<lparr>ck_metrics := ck_metrics (add_drifts ds1 ?st) + (if \<not> ds1 \<noteq> [] \<and> ds2 = [] then 1 else 0)\<rparr>)"
      "ds2 = [] \<longleftrightarrow> (\<forall>d e c. mt_time_dimension m = Some d \<longrightarrow> split1 CHR ''.'' d = (e, Some c) \<longrightarrow> column_agrees L S (s, t) c)"
      by blast
    have run: "check_metric_drift ast_parse source read es m st =
        check_time_dimension m (en_qualified_table a) (S (s, t)) lt (ds1 \<noteq> []) (add_drifts ds1 ?st)"
      using False st(3) es(2) q(1) live(1) lt cs(1) Nil stored(1) by (simp add: check_metric_drift_def split_table_def Let_def ds1_def)
    show ?thesis unfolding run ds2(1) using False live(2) stored(2) keys ds1 ds2(2) agrees
      by (intro exI [of _ "ds1 @ ds2"] exI [of _ live] exI [of _ stored]) (simp add: add_drifts_def)
  qed
qed

lemma join_step:
  assumes st: "memo_ok L (ck_live st)" "memo_ok S (ck_stored st)" "\<And>n. n \<in> set (ck_drifted st) \<longleftrightarrow> suppressed L es n"
    and es: "list_all entity_ok es" "entity_by_name es (cj_source_entity j) = Some a" "entity_by_name es (cj_target_entity j) = Some b"
  defines "skip \<equiv> suppressed L es (cj_source_entity j) \<or> suppressed L es (cj_target_entity j)"
  shows "\<exists>ds live stored. check_join_drift source read es j st = Inr (st\<lparr>ck_live := live, ck_stored := stored,
      ck_drifts := ck_drifts st @ ds, ck_joins := ck_joins st + (if \<not> skip \<and> join_agrees L S es j then 1 else 0)\<rparr>) \<and>
    memo_ok L live \<and> memo_ok S stored \<and> memo_grows es (ck_live st) live \<and>
    (ds = [] \<longleftrightarrow> skip \<or> join_agrees L S es j)"
proof (cases skip)
  case True
  then have "check_join_drift source read es j st = Inr st" using st(3) es(2,3) by (simp add: check_join_drift_def skip_def)
  then show ?thesis using True st by (intro exI [of _ "[]"] exI [of _ "ck_live st"] exI [of _ "ck_stored st"]) simp
next
  case False
  have a: "a \<in> set es" "en_name a = cj_source_entity j" "b \<in> set es" "en_name b = cj_target_entity j"
    using by_name es(2,3) by auto
  obtain s1 t1 where qa: "split1 CHR ''.'' (en_qualified_table a) = (s1, Some t1)" "table_of_entity a = (s1, t1)"
    using entity_table es(1) a(1) by (metis list_all_iff)
  obtain s2 t2 where qb: "split1 CHR ''.'' (en_qualified_table b) = (s2, Some t2)" "table_of_entity b = (s2, t2)"
    using entity_table es(1) a(3) by (metis list_all_iff)
  obtain ls lt where tabs: "L (s1, t1) = Some ls" "L (s2, t2) = Some lt"
    using healthy_table [OF a(1)] healthy_table [OF a(3)] False a(2,4) qa(2) qb(2) unfolding skip_def by metis
  obtain live1 where live1: "live_table source s1 t1 st = Inr (L (s1, t1), st\<lparr>ck_live := live1\<rparr>)" "memo_ok L live1"
    "set (map fst live1) = insert (s1, t1) (set (map fst (ck_live st)))" by (rule live_lookup [OF st(1)])
  have "memo_ok L (ck_live (st\<lparr>ck_live := live1\<rparr>))" using live1(2) by simp
  from live_lookup [OF this, of s2 t2]
  obtain live where live: "live_table source s2 t2 (st\<lparr>ck_live := live1\<rparr>) = Inr (L (s2, t2), st\<lparr>ck_live := live\<rparr>)" "memo_ok L live"
    "set (map fst live) = insert (s2, t2) (set (map fst live1))" by auto
  have keys: "memo_grows es (ck_live st) live"
    by (rule memo_grows_trans [OF memo_grows_lookup [OF live1(3) [folded qa(2)] a(1)] memo_grows_lookup [OF live(3) [folded qb(2)] a(3)]])
  have agrees: "join_agrees L S es j \<longleftrightarrow> (\<forall>k \<in> set (cj_on j). column_agrees L S (s1, t1) (jp_source_column k) \<and>
      column_agrees L S (s2, t2) (jp_target_column k))"
    using es(2,3) qa(2) qb(2) by (simp add: join_agrees_def)
  let ?qs = "en_qualified_table a" and ?qt = "en_qualified_table b"
  show ?thesis
  proof (cases "first_missing ?qs ?qt ls lt (cj_on j)")
    case (Some detail)
    then obtain k where "k \<in> set (cj_on j)" "get_column ls (jp_source_column k) = None \<or> get_column lt (jp_target_column k) = None"
      using first_missing_None [of ?qs ?qt ls lt "cj_on j"] by auto
    then have "\<not> join_agrees L S es j" unfolding agrees using column_gone [OF tabs(1)] column_gone [OF tabs(2)] by blast
    then show ?thesis using False st es(2,3) qa(1) qb(1) live1(1) live(1,2) tabs Some keys unfolding skip_def
      by (intro exI [of _ "[\<lparr>df_def_kind = D_Canonical_Join, df_def_name = cj_name j, df_drift_kind = Join_Column_Missing,
            df_detail = detail\<rparr>]"] exI [of _ live] exI [of _ "ck_stored st"])
        (simp add: check_join_drift_def split_table_def Let_def add_drifts_def)
  next
    case None
    then have present: "get_column ls (jp_source_column k) \<noteq> None" "get_column lt (jp_target_column k) \<noteq> None" if "k \<in> set (cj_on j)" for k
      using that first_missing_None by blast+
    let ?st = "st\<lparr>ck_live := live\<rparr>"
    obtain stored1 where s1: "stored_table read s1 t1 ?st = Inr (S (s1, t1), ?st\<lparr>ck_stored := stored1\<rparr>)" "memo_ok S stored1"
      using stored_lookup [where s = s1 and t = t1 and st = ?st] st(2) by auto
    obtain stored where s2: "stored_table read s2 t2 (?st\<lparr>ck_stored := stored1\<rparr>) = Inr (S (s2, t2), ?st\<lparr>ck_stored := stored\<rparr>)" "memo_ok S stored"
      using stored_lookup [where s = s2 and t = t2 and st = "?st\<lparr>ck_stored := stored1\<rparr>"] s1(2) by auto
    define ds where "ds = concat (map (pair_drifts (cj_name j) ?qs ?qt (S (s1, t1)) (S (s2, t2)) ls lt) (cj_on j))"
    have ds: "ds = [] \<longleftrightarrow> join_agrees L S es j" unfolding agrees ds_def
      using column_drifts_nil [OF tabs(1) present(1)] column_drifts_nil [OF tabs(2) present(2)] by (auto simp: pair_drifts_def)
    have "check_join_drift source read es j st =
        Inr (if ds \<noteq> [] then add_drifts ds (?st\<lparr>ck_stored := stored\<rparr>) else ?st\<lparr>ck_stored := stored, ck_joins := ck_joins st + 1\<rparr>)"
      using False st(3) es(2,3) qa(1) qb(1) live1(1) live(1) tabs None s1(1) s2(1) unfolding skip_def
      by (simp add: check_join_drift_def split_table_def Let_def ds_def)
    then show ?thesis using False live(2) s2(2) keys ds
      by (intro exI [of _ ds] exI [of _ live] exI [of _ stored]) (simp add: add_drifts_def)
  qed
qed

lemma entities_fold:
  "memo_ok L (ck_live st) \<Longrightarrow> memo_ok S (ck_stored st) \<Longrightarrow> list_all entity_ok es \<Longrightarrow>
   \<exists>ds live stored. rfold (check_entity_drift source read) es st = Inr (st\<lparr>ck_live := live, ck_stored := stored,
      ck_drifts := ck_drifts st @ ds, ck_drifted := rev (map en_name (filter (entity_broken L) es)) @ ck_drifted st,
      ck_entities := ck_entities st + length (filter (entity_agrees L S) es)\<rparr>) \<and> memo_ok L live \<and> memo_ok S stored \<and>
    set (map fst live) = table_of_entity ` set es \<union> set (map fst (ck_live st)) \<and> (ds = [] \<longleftrightarrow> list_all (entity_agrees L S) es)"
proof (induction es arbitrary: st)
  case Nil
  then show ?case by (intro exI [of _ "[]"] exI [of _ "ck_live st"] exI [of _ "ck_stored st"]) simp
next
  case (Cons e es)
  have e: "entity_ok e" "list_all entity_ok es" using Cons.prems(3) by simp_all
  from entity_step [OF Cons.prems(1,2) e(1)] obtain ds1 live1 stored1 where 1:
    "check_entity_drift source read e st = Inr (st\<lparr>ck_live := live1, ck_stored := stored1,
      ck_drifts := ck_drifts st @ ds1, ck_drifted := (if entity_broken L e then [en_name e] else []) @ ck_drifted st,
      ck_entities := ck_entities st + (if ds1 = [] then 1 else 0)\<rparr>)" "memo_ok L live1" "memo_ok S stored1"
    "set (map fst live1) = insert (table_of_entity e) (set (map fst (ck_live st)))" "ds1 = [] \<longleftrightarrow> entity_agrees L S e" by blast
  let ?st = "st\<lparr>ck_live := live1, ck_stored := stored1, ck_drifts := ck_drifts st @ ds1,
      ck_drifted := (if entity_broken L e then [en_name e] else []) @ ck_drifted st, ck_entities := ck_entities st + (if ds1 = [] then 1 else 0)\<rparr>"
  from Cons.IH [of ?st] 1(2,3) e(2) obtain ds live stored where 2: "rfold (check_entity_drift source read) es ?st =
      Inr (?st\<lparr>ck_live := live, ck_stored := stored, ck_drifts := ck_drifts ?st @ ds,
        ck_drifted := rev (map en_name (filter (entity_broken L) es)) @ ck_drifted ?st,
        ck_entities := ck_entities ?st + length (filter (entity_agrees L S) es)\<rparr>)" "memo_ok L live" "memo_ok S stored"
    "set (map fst live) = table_of_entity ` set es \<union> set (map fst (ck_live ?st))" "ds = [] \<longleftrightarrow> list_all (entity_agrees L S) es" by force
  show ?case
    by (rule exI [of _ "ds1 @ ds"], rule exI [of _ live], rule exI [of _ stored]) (use 1 2 in simp)
qed

lemma metrics_fold:
  assumes es: "list_all entity_ok es"
  shows "memo_ok L (ck_live st) \<Longrightarrow> memo_ok S (ck_stored st) \<Longrightarrow> (\<And>n. n \<in> set (ck_drifted st) \<longleftrightarrow> suppressed L es n) \<Longrightarrow>
    list_all (\<lambda>m. metric_ok ast_parse m \<and> entity_by_name es (mt_entity m) \<noteq> None \<and>
      (\<forall>d. mt_time_dimension m = Some d \<longrightarrow> fst (split1 CHR ''.'' d) = mt_entity m)) ms \<Longrightarrow>
    \<exists>ds live stored. rfold (check_metric_drift ast_parse source read es) ms st = Inr (st\<lparr>ck_live := live, ck_stored := stored,
      ck_drifts := ck_drifts st @ ds,
      ck_metrics := ck_metrics st + length (filter (\<lambda>m. \<not> suppressed L es (mt_entity m) \<and> metric_agrees ast_parse L S es m) ms)\<rparr>) \<and>
    memo_ok L live \<and> memo_ok S stored \<and> memo_grows es (ck_live st) live \<and>
    (ds = [] \<longleftrightarrow> list_all (\<lambda>m. suppressed L es (mt_entity m) \<or> metric_agrees ast_parse L S es m) ms)"
proof (induction ms arbitrary: st)
  case Nil
  then show ?case by (intro exI [of _ "[]"] exI [of _ "ck_live st"] exI [of _ "ck_stored st"]) simp
next
  case (Cons m ms)
  obtain a where a: "entity_by_name es (mt_entity m) = Some a" using Cons.prems(4) by auto
  have m: "metric_ok ast_parse m" "\<And>d. mt_time_dimension m = Some d \<Longrightarrow> fst (split1 CHR ''.'' d) = mt_entity m" using Cons.prems(4) by auto
  from metric_step [OF Cons.prems(1-3) es a m] obtain ds1 live1 stored1 where 1:
    "check_metric_drift ast_parse source read es m st = Inr (st\<lparr>ck_live := live1, ck_stored := stored1, ck_drifts := ck_drifts st @ ds1,
      ck_metrics := ck_metrics st + (if \<not> suppressed L es (mt_entity m) \<and> metric_agrees ast_parse L S es m then 1 else 0)\<rparr>)"
    "memo_ok L live1" "memo_ok S stored1" "memo_grows es (ck_live st) live1"
    "ds1 = [] \<longleftrightarrow> suppressed L es (mt_entity m) \<or> metric_agrees ast_parse L S es m" by blast
  let ?st = "st\<lparr>ck_live := live1, ck_stored := stored1, ck_drifts := ck_drifts st @ ds1,
      ck_metrics := ck_metrics st + (if \<not> suppressed L es (mt_entity m) \<and> metric_agrees ast_parse L S es m then 1 else 0)\<rparr>"
  have p: "memo_ok L (ck_live ?st)" "memo_ok S (ck_stored ?st)" "\<And>n. n \<in> set (ck_drifted ?st) \<longleftrightarrow> suppressed L es n"
    using 1(2,3) Cons.prems(3) by simp_all
  have "list_all (\<lambda>m. metric_ok ast_parse m \<and> entity_by_name es (mt_entity m) \<noteq> None \<and>
      (\<forall>d. mt_time_dimension m = Some d \<longrightarrow> fst (split1 CHR ''.'' d) = mt_entity m)) ms" using Cons.prems(4) by simp
  from Cons.IH [OF p this] obtain ds live stored where 2: "rfold (check_metric_drift ast_parse source read es) ms ?st =
      Inr (?st\<lparr>ck_live := live, ck_stored := stored, ck_drifts := ck_drifts ?st @ ds,
        ck_metrics := ck_metrics ?st + length (filter (\<lambda>m. \<not> suppressed L es (mt_entity m) \<and> metric_agrees ast_parse L S es m) ms)\<rparr>)"
    "memo_ok L live" "memo_ok S stored" "memo_grows es (ck_live ?st) live"
    "ds = [] \<longleftrightarrow> list_all (\<lambda>m. suppressed L es (mt_entity m) \<or> metric_agrees ast_parse L S es m) ms" by blast
  have keys: "memo_grows es (ck_live st) live" using memo_grows_trans [OF 1(4)] 2(4) by simp
  show ?case
    by (rule exI [of _ "ds1 @ ds"], rule exI [of _ live], rule exI [of _ stored]) (use 1 2 keys in simp)
qed

lemma joins_fold:
  assumes es: "list_all entity_ok es"
  defines "skip \<equiv> \<lambda>j. suppressed L es (cj_source_entity j) \<or> suppressed L es (cj_target_entity j)"
  shows "memo_ok L (ck_live st) \<Longrightarrow> memo_ok S (ck_stored st) \<Longrightarrow> (\<And>n. n \<in> set (ck_drifted st) \<longleftrightarrow> suppressed L es n) \<Longrightarrow>
    list_all (\<lambda>j. entity_by_name es (cj_source_entity j) \<noteq> None \<and> entity_by_name es (cj_target_entity j) \<noteq> None) js \<Longrightarrow>
    \<exists>ds live stored. rfold (check_join_drift source read es) js st = Inr (st\<lparr>ck_live := live, ck_stored := stored,
      ck_drifts := ck_drifts st @ ds, ck_joins := ck_joins st + length (filter (\<lambda>j. \<not> skip j \<and> join_agrees L S es j) js)\<rparr>) \<and>
    memo_ok L live \<and> memo_ok S stored \<and> memo_grows es (ck_live st) live \<and>
    (ds = [] \<longleftrightarrow> list_all (\<lambda>j. skip j \<or> join_agrees L S es j) js)"
proof (induction js arbitrary: st)
  case Nil
  then show ?case by (intro exI [of _ "[]"] exI [of _ "ck_live st"] exI [of _ "ck_stored st"]) simp
next
  case (Cons j js)
  obtain a b where ab: "entity_by_name es (cj_source_entity j) = Some a" "entity_by_name es (cj_target_entity j) = Some b"
    using Cons.prems(4) by auto
  from join_step [OF Cons.prems(1-3) es ab] obtain ds1 live1 stored1 where 1:
    "check_join_drift source read es j st = Inr (st\<lparr>ck_live := live1, ck_stored := stored1, ck_drifts := ck_drifts st @ ds1,
      ck_joins := ck_joins st + (if \<not> skip j \<and> join_agrees L S es j then 1 else 0)\<rparr>)"
    "memo_ok L live1" "memo_ok S stored1" "memo_grows es (ck_live st) live1"
    "ds1 = [] \<longleftrightarrow> skip j \<or> join_agrees L S es j" unfolding skip_def by blast
  let ?st = "st\<lparr>ck_live := live1, ck_stored := stored1, ck_drifts := ck_drifts st @ ds1,
      ck_joins := ck_joins st + (if \<not> skip j \<and> join_agrees L S es j then 1 else 0)\<rparr>"
  have p: "memo_ok L (ck_live ?st)" "memo_ok S (ck_stored ?st)" "\<And>n. n \<in> set (ck_drifted ?st) \<longleftrightarrow> suppressed L es n"
    using 1(2,3) Cons.prems(3) by simp_all
  have "list_all (\<lambda>j. entity_by_name es (cj_source_entity j) \<noteq> None \<and> entity_by_name es (cj_target_entity j) \<noteq> None) js"
    using Cons.prems(4) by simp
  from Cons.IH [OF p this] obtain ds live stored where 2: "rfold (check_join_drift source read es) js ?st =
      Inr (?st\<lparr>ck_live := live, ck_stored := stored, ck_drifts := ck_drifts ?st @ ds,
        ck_joins := ck_joins ?st + length (filter (\<lambda>j. \<not> skip j \<and> join_agrees L S es j) js)\<rparr>)"
    "memo_ok L live" "memo_ok S stored" "memo_grows es (ck_live ?st) live"
    "ds = [] \<longleftrightarrow> list_all (\<lambda>j. skip j \<or> join_agrees L S es j) js" by blast
  have keys: "memo_grows es (ck_live st) live" using memo_grows_trans [OF 1(4)] 2(4) by simp
  show ?case
    by (rule exI [of _ "ds1 @ ds"], rule exI [of _ live], rule exI [of _ stored]) (use 1 2 keys in simp)
qed

lemma live_table_Inr:
  assumes "memo_ok L (ck_live st)" "live_table source s t st = Inr (r, st')"
  shows "r = L (s, t) \<and> memo_ok L (ck_live st') \<and> ck_drifted st' = ck_drifted st"
proof -
  obtain live where "live_table source s t st = Inr (L (s, t), st\<lparr>ck_live := live\<rparr>)" "memo_ok L live"
    by (rule live_lookup [OF assms(1)])
  then show ?thesis using assms(2) by auto
qed

lemma stored_table_Inr:
  "\<exists>r stored. stored_table read s t st = Inr (r, st\<lparr>ck_stored := stored\<rparr>)"
proof (cases "map_of (ck_stored st) (s, t)")
  case (Some r)
  then show ?thesis by (intro exI [of _ r] exI [of _ "ck_stored st"]) (simp add: stored_table_def)
qed (auto simp: stored_table_def store_answers)

lemma time_keeps:
  "check_time_dimension m q stored lt shape st = Inr st' \<Longrightarrow> ck_live st' = ck_live st \<and> ck_drifted st' = ck_drifted st"
  by (auto simp: check_time_dimension_def Let_def add_drifts_def split: option.splits prod.splits if_splits)

lemma metric_keeps:
  assumes "memo_ok L (ck_live st)" "check_metric_drift ast_parse source read es m st = Inr st'"
  shows "memo_ok L (ck_live st') \<and> ck_drifted st' = ck_drifted st"
proof (cases "entity_by_name es (mt_entity m) = None \<or> mt_entity m \<in> set (ck_drifted st)")
  case True
  then show ?thesis using assms by (auto simp: check_metric_drift_def split: option.splits)
next
  case False
  then obtain a where a: "entity_by_name es (mt_entity m) = Some a" "mt_entity m \<notin> set (ck_drifted st)" by auto
  note run = assms(2) [unfolded check_metric_drift_def a(1) option.case if_not_P [OF a(2)] Let_def]
  from run obtain s t where q: "split_table (en_qualified_table a) = Inr (s, t)"
    by (cases "split_table (en_qualified_table a)") auto
  from run q obtain r st1 where live: "live_table source s t st = Inr (r, st1)" by (cases "live_table source s t st") auto
  note st1 = live_table_Inr [OF assms(1) live]
  from run q live obtain lt where lt: "r = Some lt" by (cases r) auto
  from run q live lt obtain cs where cs: "measure_columns ast_parse (mt_measure m) = Inr cs"
    by (cases "measure_columns ast_parse (mt_measure m)") auto
  show ?thesis
  proof (cases "filter (\<lambda>c. get_column lt c = None) (sorted_list_of_set cs)")
    case (Cons c rest)
    then show ?thesis using run q live lt cs st1 by (auto simp: add_drifts_def)
  next
    case Nil
    obtain stored st2 where s2: "stored_table read s t st1 = Inr (stored, st1\<lparr>ck_stored := st2\<rparr>)" using stored_table_Inr by blast
    define ds where "ds = concat (map (column_drifts D_Metric (mt_name m) (en_qualified_table a) stored lt) (sorted_list_of_set cs))"
    have "check_time_dimension m (en_qualified_table a) stored lt (ds \<noteq> []) (add_drifts ds (st1\<lparr>ck_stored := st2\<rparr>)) = Inr st'"
      using run q live lt cs Nil s2 by (simp add: ds_def)
    from time_keeps [OF this] show ?thesis using st1 by (simp add: add_drifts_def)
  qed
qed

lemma foreign_step:
  assumes st: "memo_ok L (ck_live st)" "mt_entity m \<notin> set (ck_drifted st)"
    and a: "entity_by_name es (mt_entity m) = Some a" "entity_ok a" "L (table_of_entity a) = Some lt"
    and cs: "measure_columns ast_parse (mt_measure m) = Inr cs" "\<And>c. c \<in> cs \<Longrightarrow> get_column lt c \<noteq> None"
    and d: "mt_time_dimension m = Some d" "fst (split1 CHR ''.'' d) \<noteq> mt_entity m"
  shows "\<exists>e. check_metric_drift ast_parse source read es m st = Inl e"
proof -
  obtain s t where q: "split1 CHR ''.'' (en_qualified_table a) = (s, Some t)" "table_of_entity a = (s, t)" by (rule entity_table [OF a(2)])
  obtain live where live: "live_table source s t st = Inr (L (s, t), st\<lparr>ck_live := live\<rparr>)" by (rule live_lookup [OF st(1)])
  obtain r stored where s2: "stored_table read s t (st\<lparr>ck_live := live\<rparr>) = Inr (r, st\<lparr>ck_live := live, ck_stored := stored\<rparr>)"
    using stored_table_Inr [of s t "st\<lparr>ck_live := live\<rparr>"] by auto
  have present: "filter (\<lambda>c. get_column lt c = None) (sorted_list_of_set cs) = []"
    using cs(2) finite_columns [OF cs(1)] by (auto simp: filter_empty_conv)
  have td: "\<exists>e. check_time_dimension m q' stored' lt shape st' = Inl e" for q' stored' shape st'
    using d by (auto simp: check_time_dimension_def Let_def split: prod.splits option.splits)
  show ?thesis using st(2) a(1,3) q live s2 cs(1) present td by (simp add: check_metric_drift_def split_table_def Let_def)
qed

lemma foreign_fold:
  assumes "m \<in> set ms" "\<And>st. memo_ok L (ck_live st) \<Longrightarrow> mt_entity m \<notin> set (ck_drifted st) \<Longrightarrow>
      \<exists>e. check_metric_drift ast_parse source read es m st = Inl e"
    "memo_ok L (ck_live st)" "mt_entity m \<notin> set (ck_drifted st)"
  shows "\<exists>e. rfold (check_metric_drift ast_parse source read es) ms st = Inl e"
  using assms(1,3,4)
proof (induction ms arbitrary: st)
  case (Cons x ms)
  show ?case
  proof (cases "check_metric_drift ast_parse source read es x st")
    case (Inr st1)
    then have "x \<noteq> m" using assms(2) [OF Cons.prems(2,3)] by auto
    then have "m \<in> set ms" using Cons.prems(1) by simp
    from Cons.IH [OF this] metric_keeps [OF Cons.prems(2) Inr] Cons.prems(3) show ?thesis by (simp add: Inr)
  qed simp
qed simp

end

interpretation engine: lookups "\<lambda>s t. Inr (L (s, t))" "\<lambda>s t. Inr (S (s, t))" L S for L S
  by unfold_locales simp_all

subsection \<open>What a store lists\<close>

lemma entity_by_name_listed: "e \<in> set es \<Longrightarrow> \<exists>a. entity_by_name es (en_name e) = Some a"
proof -
  assume "e \<in> set es"
  then have "en_name e \<in> fst ` set (rev (map (\<lambda>e. (en_name e, e)) es))" by force
  then have "map_of (rev (map (\<lambda>e. (en_name e, e)) es)) (en_name e) \<noteq> None" by (simp add: map_of_eq_None_iff)
  then show ?thesis by (auto simp: entity_by_name_def)
qed

lemma listed_entities:
  assumes "store_ok ast_parse db"
  obtains es where "list_entities db (Some src) = Inr es" "list_all entity_ok es"
    "\<And>n. has_entity db (src, n) \<Longrightarrow> \<exists>a. entity_by_name es n = Some a"
proof -
  let ?rows = "sort_key (\<lambda>r. (er_name r, er_source r)) (filter (\<lambda>r. Some src = None \<or> Some src = Some (er_source r)) (st_entities db))"
  have "\<exists>es. list_entities db (Some src) = Inr es"
    unfolding list_entities_def by (rule rtraverse_total) (use assms in \<open>auto simp: store_ok_def rows_ok_def\<close>)
  then obtain es where es: "rtraverse row_to_entity ?rows = Inr es" by (auto simp: list_entities_def)
  have ok: "entity_ok e" if "e \<in> set es" for e using rtraverse_Inr_set [OF es that] row_to_entity_Inr by auto
  have known: "\<exists>a. entity_by_name es n = Some a" if h: "has_entity db (src, n)" for n
  proof -
    obtain r where r: "r \<in> set (st_entities db)" "er_source r = src" "er_name r = n"
      using h unfolding has_entity_def has_key_iff entity_key_def by blast
    then have "r \<in> set ?rows" by simp
    then obtain e where "e \<in> set es" "row_to_entity r = Inr e" using rtraverse_Inr_ex [OF es] by blast
    moreover from this have "en_name e = n" using row_to_entity_Inr r(3) by auto
    ultimately show ?thesis using entity_by_name_listed by metis
  qed
  show thesis by (rule that) (use es ok known in \<open>auto simp: list_entities_def list_all_iff\<close>)
qed

lemma listed_metrics:
  assumes "store_ok ast_parse db"
  obtains ms where "list_metrics ast_parse db (Some src) = Inr ms"
    "\<And>m. m \<in> set ms \<Longrightarrow> metric_ok ast_parse m \<and> has_entity db (src, mt_entity m)"
proof -
  let ?rows = "sort_key (\<lambda>r. (mr_name r, mr_source r)) (filter (\<lambda>r. Some src = None \<or> Some src = Some (mr_source r)) (st_metrics db))"
  have "\<exists>ms. list_metrics ast_parse db (Some src) = Inr ms"
    unfolding list_metrics_def by (rule rtraverse_total) (use assms in \<open>auto simp: store_ok_def rows_ok_def\<close>)
  then obtain ms where ms: "rtraverse (row_to_metric ast_parse) ?rows = Inr ms" by (auto simp: list_metrics_def)
  have "metric_ok ast_parse m \<and> has_entity db (src, mt_entity m)" if m: "m \<in> set ms" for m
  proof -
    obtain r where r: "r \<in> set ?rows" "row_to_metric ast_parse r = Inr m" using rtraverse_Inr_set [OF ms m] by blast
    then have "r \<in> set (st_metrics db)" "mr_source r = src" by auto
    then show ?thesis using row_to_metric_Inr [OF r(2)] assms by (auto simp: store_ok_def refs_ok_def)
  qed
  then show thesis using that ms by (simp add: list_metrics_def)
qed

lemma listed_joins:
  assumes "store_ok ast_parse db"
  obtains js where "list_canonical_joins db (Some src) = Inr js"
    "\<And>j. j \<in> set js \<Longrightarrow> has_entity db (src, cj_source_entity j) \<and> has_entity db (src, cj_target_entity j)"
proof -
  obtain js where js: "list_canonical_joins db (Some src) = Inr js" using sqlite.join_rows [OF assms, of src] by auto
  have "has_entity db (src, cj_source_entity j) \<and> has_entity db (src, cj_target_entity j)" if j: "j \<in> set js" for j
  proof -
    obtain r where "r \<in> set (st_joins db)" "jr_source r = src" "row_to_canonical_join r = Inr j" by (rule listed_join [OF js j])
    then show ?thesis using row_to_join_Inr assms by (auto simp: store_ok_def refs_ok_def)
  qed
  then show thesis using that js by blast
qed

subsection \<open>What a report says\<close>

definition recorded :: "store \<Rightarrow> string \<Rightarrow> tables" where
  "recorded db src = (\<lambda>(s, t). case get_table db src s t of Inr r \<Rightarrow> r | Inl e \<Rightarrow> None)"

definition own_time_dimensions :: "metric list \<Rightarrow> bool" where
  "own_time_dimensions ms \<longleftrightarrow> list_all (\<lambda>m. case mt_time_dimension m of None \<Rightarrow> True | Some d \<Rightarrow> fst (split1 CHR ''.'' d) = mt_entity m) ms"

lemma agrees_not_broken: "entity_agrees L S e \<Longrightarrow> \<not> entity_broken L e"
  by (auto simp: entity_agrees_def entity_broken_def column_agrees_def split: option.splits)

lemma definition_passes:
  fixes L S :: tables
  defines "source \<equiv> \<lambda>s t. Inr (L (s, t))" and "read \<equiv> \<lambda>s t. Inr (S (s, t))"
  assumes es: "list_all entity_ok es"
    and ms: "list_all (\<lambda>m. metric_ok ast_parse m \<and> entity_by_name es (mt_entity m) \<noteq> None \<and>
      (\<forall>d. mt_time_dimension m = Some d \<longrightarrow> fst (split1 CHR ''.'' d) = mt_entity m)) ms"
    and js: "list_all (\<lambda>j. entity_by_name es (cj_source_entity j) \<noteq> None \<and> entity_by_name es (cj_target_entity j) \<noteq> None) js"
  obtains st1 st2 st3 ds1 ds2 ds3 where
    "rfold (check_entity_drift source read) es fresh_check = Inr st1"
    "rfold (check_metric_drift ast_parse source read es) ms st1 = Inr st2"
    "rfold (check_join_drift source read es) js st2 = Inr st3"
    "ck_drifts st3 = ds1 @ ds2 @ ds3" "memo_ok L (ck_live st3)" "set (map fst (ck_live st3)) = table_of_entity ` set es"
    "ck_entities st3 = length (filter (entity_agrees L S) es)"
    "ck_metrics st3 = length (filter (\<lambda>m. \<not> suppressed L es (mt_entity m) \<and> metric_agrees ast_parse L S es m) ms)"
    "ck_joins st3 = length (filter (\<lambda>j. \<not> (suppressed L es (cj_source_entity j) \<or> suppressed L es (cj_target_entity j))
       \<and> join_agrees L S es j) js)"
    "ds1 = [] \<longleftrightarrow> list_all (entity_agrees L S) es"
    "ds2 = [] \<longleftrightarrow> list_all (\<lambda>m. suppressed L es (mt_entity m) \<or> metric_agrees ast_parse L S es m) ms"
    "ds3 = [] \<longleftrightarrow> list_all (\<lambda>j. (suppressed L es (cj_source_entity j) \<or> suppressed L es (cj_target_entity j)) \<or> join_agrees L S es j) js"
proof -
  have empty: "memo_ok L (ck_live fresh_check)" "memo_ok S (ck_stored fresh_check)" by (simp_all add: fresh_check_def memo_ok_def)
  from engine.entities_fold [OF empty es, folded source_def read_def] obtain ds1 live1 stored1 where 1:
    "rfold (check_entity_drift source read) es fresh_check = Inr (fresh_check\<lparr>ck_live := live1, ck_stored := stored1,
      ck_drifts := ck_drifts fresh_check @ ds1, ck_drifted := rev (map en_name (filter (entity_broken L) es)) @ ck_drifted fresh_check,
      ck_entities := ck_entities fresh_check + length (filter (entity_agrees L S) es)\<rparr>)" (is "_ = Inr ?st1") "memo_ok L live1" "memo_ok S stored1"
    "set (map fst live1) = table_of_entity ` set es \<union> set (map fst (ck_live fresh_check))" "ds1 = [] \<longleftrightarrow> list_all (entity_agrees L S) es"
    by blast
  have p1: "memo_ok L (ck_live ?st1)" "memo_ok S (ck_stored ?st1)" "\<And>n. n \<in> set (ck_drifted ?st1) \<longleftrightarrow> suppressed L es n"
    using 1(2,3) by (auto simp: fresh_check_def suppressed_def)
  from engine.metrics_fold [OF es p1 ms, folded source_def read_def] obtain ds2 live2 stored2 where 2:
    "rfold (check_metric_drift ast_parse source read es) ms ?st1 = Inr (?st1\<lparr>ck_live := live2, ck_stored := stored2,
      ck_drifts := ck_drifts ?st1 @ ds2,
      ck_metrics := ck_metrics ?st1 + length (filter (\<lambda>m. \<not> suppressed L es (mt_entity m) \<and> metric_agrees ast_parse L S es m) ms)\<rparr>)"
    (is "_ = Inr ?st2")
    "memo_ok L live2" "memo_ok S stored2" "memo_grows es (ck_live ?st1) live2"
    "ds2 = [] \<longleftrightarrow> list_all (\<lambda>m. suppressed L es (mt_entity m) \<or> metric_agrees ast_parse L S es m) ms"
    by blast
  have p2: "memo_ok L (ck_live ?st2)" "memo_ok S (ck_stored ?st2)" "\<And>n. n \<in> set (ck_drifted ?st2) \<longleftrightarrow> suppressed L es n"
    using 2(2,3) p1(3) by simp_all
  from engine.joins_fold [OF es p2 js, folded source_def read_def] obtain ds3 live3 stored3 where 3:
    "rfold (check_join_drift source read es) js ?st2 = Inr (?st2\<lparr>ck_live := live3, ck_stored := stored3,
      ck_drifts := ck_drifts ?st2 @ ds3, ck_joins := ck_joins ?st2 + length (filter (\<lambda>j. \<not> (suppressed L es (cj_source_entity j)
        \<or> suppressed L es (cj_target_entity j)) \<and> join_agrees L S es j) js)\<rparr>)" (is "_ = Inr ?st3")
    "memo_ok L live3" "memo_ok S stored3" "memo_grows es (ck_live ?st2) live3"
    "ds3 = [] \<longleftrightarrow> list_all (\<lambda>j. (suppressed L es (cj_source_entity j) \<or> suppressed L es (cj_target_entity j)) \<or> join_agrees L S es j) js"
    by blast
  have "memo_grows es live1 live2" "memo_grows es live2 live3" using 2(4) 3(4) by simp_all
  moreover have "set (map fst live1) = table_of_entity ` set es" using 1(4) by (simp add: fresh_check_def)
  ultimately have keys: "set (map fst live3) = table_of_entity ` set es" unfolding memo_grows_def by blast
  show thesis by (rule that [OF 1(1) 2(1) 3(1) _ _ _ _ _ _ 1(5) 2(5) 3(5)]) (use 3(2) keys in \<open>simp_all add: fresh_check_def\<close>)
qed

text \<open>C8: A clean check means what it says, where every metric keeps its time dimension on its own entity. On a reachable
  store with only such metrics, and a source that answers, the check ends in a report. Its exit code is 0 exactly if every
  column that any entity, metric or join names exists live with the type and nullability that the index
  recorded; the healthy counts are the definitions whose columns all agree, not counting those
  below a broken entity; and each table that an entity is bound to is looked up in the source exactly once, and no other.\<close>

theorem clean_check_means_agreement:
  assumes "store_ok ast_parse db" "\<And>s t. source s t = Inr (L (s, t))"
    "\<And>ms. list_metrics ast_parse db (Some src) = Inr ms \<Longrightarrow> own_time_dimensions ms"
  shows "\<exists>es ms js r looked_up. list_entities db (Some src) = Inr es \<and> list_metrics ast_parse db (Some src) = Inr ms \<and>
    list_canonical_joins db (Some src) = Inr js \<and> check_drift ast_parse db source src = Inr (r, looked_up) \<and>
    (let S = recorded db src in
     (exit_code r = 0 \<longleftrightarrow> list_all (entity_agrees L S) es \<and> list_all (metric_agrees ast_parse L S es) ms \<and> list_all (join_agrees L S es) js) \<and>
     rp_entities_healthy r = length (filter (entity_agrees L S) es) \<and>
     rp_metrics_healthy r = length (filter (\<lambda>m. \<not> suppressed L es (mt_entity m) \<and> metric_agrees ast_parse L S es m) ms) \<and>
     rp_joins_healthy r = length (filter (\<lambda>j. \<not> (suppressed L es (cj_source_entity j) \<or> suppressed L es (cj_target_entity j))
       \<and> join_agrees L S es j) js)) \<and>
    report_ok r \<and> distinct looked_up \<and> set looked_up = table_of_entity ` set es"
proof -
  define S where "S = recorded db src"
  have source: "source = (\<lambda>s t. Inr (L (s, t)))" using assms(2) by (intro ext)
  have read: "get_table db src = (\<lambda>s t. Inr (S (s, t)))"
  proof (intro ext)
    fix s t
    obtain r where "get_table db src s t = Inr r" using table_read [OF assms(1)] by blast
    then show "get_table db src s t = Inr (S (s, t))" by (simp add: S_def recorded_def)
  qed
  obtain es where es: "list_entities db (Some src) = Inr es" "list_all entity_ok es"
    "\<And>n. has_entity db (src, n) \<Longrightarrow> \<exists>a. entity_by_name es n = Some a" by (rule listed_entities [OF assms(1)]) blast
  obtain ms where ms: "list_metrics ast_parse db (Some src) = Inr ms"
    "\<And>m. m \<in> set ms \<Longrightarrow> metric_ok ast_parse m \<and> has_entity db (src, mt_entity m)" by (rule listed_metrics [OF assms(1)]) blast
  obtain js where js: "list_canonical_joins db (Some src) = Inr js"
    "\<And>j. j \<in> set js \<Longrightarrow> has_entity db (src, cj_source_entity j) \<and> has_entity db (src, cj_target_entity j)"
    by (rule listed_joins [OF assms(1)]) blast
  have own: "list_all (\<lambda>m. metric_ok ast_parse m \<and> entity_by_name es (mt_entity m) \<noteq> None \<and>
      (\<forall>d. mt_time_dimension m = Some d \<longrightarrow> fst (split1 CHR ''.'' d) = mt_entity m)) ms"
    using ms(2) es(3) assms(3) [OF ms(1)] by (fastforce simp: list_all_iff own_time_dimensions_def split: option.splits)
  have ends: "list_all (\<lambda>j. entity_by_name es (cj_source_entity j) \<noteq> None \<and> entity_by_name es (cj_target_entity j) \<noteq> None) js"
    using js(2) es(3) by (fastforce simp: list_all_iff)
  obtain st1 st2 st3 ds1 ds2 ds3 where f: "rfold (check_entity_drift source (get_table db src)) es fresh_check = Inr st1"
    "rfold (check_metric_drift ast_parse source (get_table db src) es) ms st1 = Inr st2"
    "rfold (check_join_drift source (get_table db src) es) js st2 = Inr st3"
    and r: "ck_drifts st3 = ds1 @ ds2 @ ds3" "memo_ok L (ck_live st3)" "set (map fst (ck_live st3)) = table_of_entity ` set es"
    "ck_entities st3 = length (filter (entity_agrees L S) es)"
    "ck_metrics st3 = length (filter (\<lambda>m. \<not> suppressed L es (mt_entity m) \<and> metric_agrees ast_parse L S es m) ms)"
    "ck_joins st3 = length (filter (\<lambda>j. \<not> (suppressed L es (cj_source_entity j) \<or> suppressed L es (cj_target_entity j))
       \<and> join_agrees L S es j) js)"
    and d: "ds1 = [] \<longleftrightarrow> list_all (entity_agrees L S) es"
    "ds2 = [] \<longleftrightarrow> list_all (\<lambda>m. suppressed L es (mt_entity m) \<or> metric_agrees ast_parse L S es m) ms"
    "ds3 = [] \<longleftrightarrow> list_all (\<lambda>j. (suppressed L es (cj_source_entity j) \<or> suppressed L es (cj_target_entity j)) \<or> join_agrees L S es j) js"
    by (rule definition_passes [OF es(2) own ends, of L S, folded source read]) (rule that)
  define rep where "rep = \<lparr>rp_drifts = ck_drifts st3, rp_entities_healthy = ck_entities st3, rp_metrics_healthy = ck_metrics st3,
      rp_joins_healthy = ck_joins st3, rp_total_entities = length es, rp_total_metrics = length ms, rp_total_joins = length js\<rparr>"
  have run: "check_drift ast_parse db source src = Inr (rep, map fst (ck_live st3))"
    unfolding check_drift_def es(1) ms(1) js(1) check_read_def sum.case rbind.simps f rep_def by simp
  have calm: "list_all (entity_agrees L S) es \<Longrightarrow> \<not> suppressed L es n" for n
    by (auto simp: suppressed_def list_all_iff dest: agrees_not_broken)
  have "exit_code rep = 0 \<longleftrightarrow> ds1 = [] \<and> ds2 = [] \<and> ds3 = []" by (simp add: exit_code_def rep_def r(1))
  then have exit: "exit_code rep = 0 \<longleftrightarrow> list_all (entity_agrees L S) es \<and> list_all (metric_agrees ast_parse L S es) ms \<and> list_all (join_agrees L S es) js"
    unfolding d using calm by (cases "list_all (entity_agrees L S) es") simp_all
  have "report_ok rep" "distinct (map fst (ck_live st3))" using r(2) by (simp_all add: rep_def report_ok_def r(4-6) memo_ok_def)
  then show ?thesis unfolding S_def [symmetric] Let_def using es(1) ms(1) js(1) run exit r(3)
    by (intro exI [of _ es] exI [of _ ms] exI [of _ js] exI [of _ rep] exI [of _ "map fst (ck_live st3)"]) (simp add: rep_def r(4-6))
qed

text \<open>A source whose \<open>orders\<close> have no decimals.\<close>

definition retyped_orders :: live_source where
  "retyped_orders s t = Inr (if t = ''orders'' then Some (demo_orders\<lparr>tb_columns := map (\<lambda>c. if co_name c = ''total''
       then c\<lparr>co_data_type := '' INTEGER''\<rparr> else c) demo_columns\<rparr>) else recorded people_store ''s'' (s, t))"

theorem clean_check_means_agreement_witness:
  "\<exists>r looked_up. check_drift no_parse people_store retyped_orders ''s'' = Inr (r, looked_up) \<and> exit_code r = 1 \<and>
     rp_entities_healthy r = 2 \<and> rp_metrics_healthy r = 0 \<and> rp_joins_healthy r = 1 \<and> report_ok r \<and> distinct looked_up \<and>
     map df_drift_kind (rp_drifts r) = [Type_Mismatch]"
proof -
  have own: "own_time_dimensions ms" if m: "list_metrics no_parse people_store (Some ''s'') = Inr ms" for ms
  proof -
    have "case list_metrics no_parse people_store (Some ''s'') of Inr ms \<Rightarrow> own_time_dimensions ms | Inl e \<Rightarrow> False" by code_simp
    then show ?thesis by (simp add: m)
  qed
  define L where "L = (\<lambda>(s, t). projr (retyped_orders s t))"
  have src: "retyped_orders s t = Inr (L (s, t))" for s t by (simp add: L_def retyped_orders_def)
  obtain r l where r: "check_drift no_parse people_store retyped_orders ''s'' = Inr (r, l)" "report_ok r" "distinct l"
    using clean_check_means_agreement [where L = L, OF people_store_good src own] by blast
  have "case check_drift no_parse people_store retyped_orders ''s'' of Inr (r, l) \<Rightarrow> exit_code r = 1 \<and>
     rp_entities_healthy r = 2 \<and> rp_metrics_healthy r = 0 \<and> rp_joins_healthy r = 1 \<and> map df_drift_kind (rp_drifts r) = [Type_Mismatch] | Inl e \<Rightarrow> False"
    by code_simp
  then show ?thesis using r by simp
qed

text \<open>C9: The check does not survive what the store accepts. A metric may be written with a time dimension on another
  entity than its own; if its entity is in order and its measure columns are there, the check raises and
  nothing is reported at all.\<close>

theorem foreign_time_dimension_crashes:
  assumes "store_ok ast_parse db" "\<And>s t. source s t = Inr (L (s, t))"
    "list_entities db (Some src) = Inr es" "list_metrics ast_parse db (Some src) = Inr ms" "m \<in> set ms"
    "mt_time_dimension m = Some d" "fst (split1 CHR ''.'' d) \<noteq> mt_entity m"
    "entity_by_name es (mt_entity m) = Some a" "\<not> suppressed L es (mt_entity m)" "L (table_of_entity a) = Some lt"
    "measure_columns ast_parse (mt_measure m) = Inr cs" "\<And>c. c \<in> cs \<Longrightarrow> get_column lt c \<noteq> None"
  shows "\<exists>e. check_drift ast_parse db source src = Inl e"
proof -
  define S where "S = recorded db src"
  have source: "source = (\<lambda>s t. Inr (L (s, t)))" using assms(2) by (intro ext)
  have read: "get_table db src = (\<lambda>s t. Inr (S (s, t)))"
  proof (intro ext)
    fix s t
    obtain r where "get_table db src s t = Inr r" using table_read [OF assms(1)] by blast
    then show "get_table db src s t = Inr (S (s, t))" by (simp add: S_def recorded_def)
  qed
  obtain es' where "list_entities db (Some src) = Inr es'" "list_all entity_ok es'" by (rule listed_entities [OF assms(1)])
  then have es: "list_all entity_ok es" using assms(3) by simp
  have a: "entity_ok a" using es engine.by_name [OF assms(8)] by (simp add: list_all_iff)
  obtain js where js: "list_canonical_joins db (Some src) = Inr js" by (rule listed_joins [OF assms(1)])
  have empty: "memo_ok L (ck_live fresh_check)" "memo_ok S (ck_stored fresh_check)" by (simp_all add: fresh_check_def memo_ok_def)
  from engine.entities_fold [OF empty es] obtain ds live stored where 1:
    "rfold (check_entity_drift source (get_table db src)) es fresh_check = Inr (fresh_check\<lparr>ck_live := live, ck_stored := stored,
      ck_drifts := ck_drifts fresh_check @ ds, ck_drifted := rev (map en_name (filter (entity_broken L) es)) @ ck_drifted fresh_check,
      ck_entities := ck_entities fresh_check + length (filter (entity_agrees L S) es)\<rparr>)" "memo_ok L live"
    unfolding source read by blast
  define st where "st = fresh_check\<lparr>ck_live := live, ck_stored := stored,
      ck_drifts := ck_drifts fresh_check @ ds, ck_drifted := rev (map en_name (filter (entity_broken L) es)) @ ck_drifted fresh_check,
      ck_entities := ck_entities fresh_check + length (filter (entity_agrees L S) es)\<rparr>"
  have st: "memo_ok L (ck_live st)" "mt_entity m \<notin> set (ck_drifted st)"
    using 1(2) assms(9) by (auto simp: st_def suppressed_def fresh_check_def)
  have "\<exists>e. check_metric_drift ast_parse source (get_table db src) es m st' = Inl e"
    if "memo_ok L (ck_live st')" "mt_entity m \<notin> set (ck_drifted st')" for st'
    unfolding source read using that by (rule engine.foreign_step) (use assms(6-8,10-12) a in simp_all)
  then have "\<exists>e. rfold (check_metric_drift ast_parse source (get_table db src) es) ms st = Inl e"
    using assms(5) st unfolding source read by (intro engine.foreign_fold) simp_all
  then obtain e where "rfold (check_metric_drift ast_parse source (get_table db src) es) ms st = Inl e" by blast
  then have "check_drift ast_parse db source src = Inl e"
    using 1(1) unfolding check_drift_def assms(3,4) js check_read_def sum.case rbind.simps st_def [symmetric] by simp
  then show ?thesis by blast
qed

definition late_ops :: "store_op list" where
  "late_ops = people_ops @ [Write_Metric ''s'' 1 ((demo_metric Manual ''order'')\<lparr>mt_name := ''by_age'',
     mt_time_dimension := Some ''person.born'', mt_time_grains := [Year]\<rparr>)]"

definition late_store :: store where
  "late_store = (case run_ops late_ops empty_store of Inr db \<Rightarrow> db | Inl e \<Rightarrow> empty_store)"

lemma late_store_good: "store_ok no_parse late_store"
proof -
  have "op_valid no_parse (Write_Metric ''s'' 1 ((demo_metric Manual ''order'')\<lparr>mt_name := ''by_age'',
     mt_time_dimension := Some ''person.born'', mt_time_grains := [Year]\<rparr>))"
    by (simp add: metric_ok_def measure_ok_def check_measure_def check_metric_def demo_metric_def match_qualified_def split1_def char_class_defs)
  then have "list_all (op_valid no_parse) late_ops" using people_ops_valid by (simp add: late_ops_def)
  moreover have "run_ops late_ops empty_store = Inr late_store" by code_simp
  ultimately have "store_reach no_parse late_store" using run_ops_reach [OF store_reach.fresh] by blast
  then show ?thesis by (rule store_reach_ok)
qed

theorem foreign_time_dimension_crashes_witness:
  "\<exists>e. check_drift no_parse late_store (\<lambda>s t. Inr (recorded late_store ''s'' (s, t))) ''s'' = Inl e"
proof -
  let ?m = "(demo_metric Manual ''order'')\<lparr>mt_name := ''by_age'', mt_time_dimension := Some ''person.born'', mt_time_grains := [Year]\<rparr>"
  let ?L = "recorded late_store ''s''"
  have "case list_entities late_store (Some ''s'') of Inl e \<Rightarrow> False | Inr es \<Rightarrow> entity_by_name es ''order'' = Some (demo_entity Manual)
      \<and> list_all (\<lambda>e. \<not> entity_broken ?L e) es"
    by code_simp
  then obtain es where es: "list_entities late_store (Some ''s'') = Inr es" "entity_by_name es ''order'' = Some (demo_entity Manual)"
    "list_all (\<lambda>e. \<not> entity_broken ?L e) es" by (auto split: sum.splits)
  have "case list_metrics no_parse late_store (Some ''s'') of Inl e \<Rightarrow> False | Inr ms \<Rightarrow> list_ex (\<lambda>m. m = ?m) ms" by code_simp
  then obtain ms where ms: "list_metrics no_parse late_store (Some ''s'') = Inr ms" "?m \<in> set ms"
    by (auto simp: list_ex_iff split: sum.splits)
  have "case ?L (table_of_entity (demo_entity Manual)) of None \<Rightarrow> False | Some lt \<Rightarrow> get_column lt ''total'' \<noteq> None" by code_simp
  then obtain lt where lt: "?L (table_of_entity (demo_entity Manual)) = Some lt" "get_column lt ''total'' \<noteq> None"
    by (auto split: option.splits)
  show ?thesis
    by (rule foreign_time_dimension_crashes [where L = ?L and d = "''person.born''" and a = "demo_entity Manual"
        and lt = lt and cs = "{''total''}", OF late_store_good refl es(1) ms])
      (use es lt in \<open>simp_all add: demo_metric_def split1_def suppressed_def list_all_iff measure_columns_def\<close>)
qed

end
