(* ===== verification/SuggestJoins.thy ===== *)
theory SuggestJoins
  imports Firewall JoinGraph "HOL-Library.Multiset"
begin

section \<open>Join paths over foreign keys (mcp/suggest_joins.py)\<close>

text \<open>
  The tool that joins physical tables. The foreign keys of a source are the edges of an undirected multigraph, an
  adjacency dictionary in insertion order; a queue-based breadth-first search with a visited set and a parent map
  finds one shortest path per pair of tables, which is walked back from its end; the columns of every
  edge are masked. The walk back follows the parent map until it meets the start: nothing in it bounds the number of
  steps, so it is a partial function, and what can call it is a value of an option, \<open>None\<close> for a run that does not
  return. The confidence and the origin of an edge are constants and left out, and so is the token estimate.
\<close>

subsection \<open>Runs\<close>

text \<open>A run that does not return, raises, or returns.\<close>

type_synonym ('e, 'a) run = "('e + 'a) option"

fun run_bind :: "('e, 'a) run \<Rightarrow> ('a \<Rightarrow> ('e, 'b) run) \<Rightarrow> ('e, 'b) run" where
  "run_bind None f = None"
| "run_bind (Some (Inl e)) f = Some (Inl e)"
| "run_bind (Some (Inr x)) f = f x"

fun run_traverse :: "('a \<Rightarrow> ('e, 'b) run) \<Rightarrow> 'a list \<Rightarrow> ('e, 'b list) run" where
  "run_traverse f [] = Some (Inr [])"
| "run_traverse f (x # xs) = run_bind (f x) (\<lambda>y. run_bind (run_traverse f xs) (\<lambda>ys. Some (Inr (y # ys))))"

lemma run_traverse_Inr:
  "(\<And>x. x \<in> set xs \<Longrightarrow> f x = Some (Inr (g x))) \<Longrightarrow> run_traverse f xs = Some (Inr (map g xs))"
  by (induction xs) simp_all

subsection \<open>The foreign keys as a graph\<close>

definition list_all_foreign_keys :: "store \<Rightarrow> string \<Rightarrow> store_error + (string \<times> string \<times> foreign_key) list" where
  "list_all_foreign_keys db src =
     rtraverse (\<lambda>r. case check_foreign_key (fr_key r) of Inl e \<Rightarrow> Inl (TableInvalid e) | Inr k \<Rightarrow> Inr (fr_schema r, fr_table r, k))
       (sort_key (\<lambda>r. (fr_schema r, fr_table r, fk_name (fr_key r))) (filter (\<lambda>r. fr_source r = src) (st_foreign_keys db)))"

record edge_seed =
  es_fk_name :: string
  es_owner :: string
  es_owner_columns :: "string list"
  es_referenced :: string
  es_referenced_columns :: "string list"

record join_edge =
  je_fk_name :: string
  je_left :: string
  je_left_columns :: "string list"
  je_right :: string
  je_right_columns :: "string list"

type_synonym fk_adjacency = "(string \<times> (string \<times> string \<times> edge_seed) list) list"

definition seed_of :: "string \<times> string \<times> foreign_key \<Rightarrow> edge_seed" where
  "seed_of = (\<lambda>(schema, tbl, k).
     \<lparr>es_fk_name = fk_name k, es_owner = schema @ ''.'' @ tbl, es_owner_columns = fk_source_columns k,
      es_referenced = fk_target k, es_referenced_columns = fk_target_columns k\<rparr>)"

definition add_seed :: "fk_adjacency \<Rightarrow> edge_seed \<Rightarrow> fk_adjacency" where
  "add_seed g s = add_entry (es_referenced s) (es_owner s, es_fk_name s, s) (add_entry (es_owner s) (es_referenced s, es_fk_name s, s) g)"

definition build_fk_adjacency :: "(string \<times> string \<times> foreign_key) list \<Rightarrow> fk_adjacency" where
  "build_fk_adjacency rows = map (\<lambda>(n, es). (n, sort_key (\<lambda>(nb, k, s). (nb, k)) es)) (foldl add_seed [] (map seed_of rows))"

definition edge_from_seed :: "edge_seed \<Rightarrow> string \<Rightarrow> join_edge" where
  "edge_from_seed s left =
     (if left = es_owner s
      then \<lparr>je_fk_name = es_fk_name s, je_left = es_owner s, je_left_columns = es_owner_columns s,
            je_right = es_referenced s, je_right_columns = es_referenced_columns s\<rparr>
      else \<lparr>je_fk_name = es_fk_name s, je_left = es_referenced s, je_left_columns = es_referenced_columns s,
            je_right = es_owner s, je_right_columns = es_owner_columns s\<rparr>)"

subsection \<open>The search\<close>

record bfs_state =
  bs_visited :: "string set"
  bs_parent :: "string \<Rightarrow> (string \<times> edge_seed) option"
  bs_frontier :: "(string \<times> nat) list"

text \<open>The inner loop, over the neighbours of the node at the front; it stops as soon as the end is seen.\<close>

fun scan_neighbors ::
  "string \<Rightarrow> string \<Rightarrow> nat \<Rightarrow> (string \<times> string \<times> edge_seed) list \<Rightarrow> bfs_state \<Rightarrow> bool \<times> bfs_state" where
  "scan_neighbors target node depth [] st = (False, st)"
| "scan_neighbors target node depth ((nb, k, s) # ns) st =
     (if nb \<in> bs_visited st then scan_neighbors target node depth ns st
      else (let st = st\<lparr>bs_visited := insert nb (bs_visited st), bs_parent := (bs_parent st)(nb \<mapsto> (node, s))\<rparr>
            in if nb = target then (True, st)
               else scan_neighbors target node depth ns (st\<lparr>bs_frontier := bs_frontier st @ [(nb, depth + 1)]\<rparr>)))"

definition graph_nodes :: "fk_adjacency \<Rightarrow> string set" where
  "graph_nodes g = (\<Union>(n, es) \<in> set g. fst ` set es)"

lemma finite_fk_nodes: "finite (graph_nodes g)"
  by (auto simp: graph_nodes_def)

lemma get_nodes: "fst ` set (graph_get g n) \<subseteq> graph_nodes g"
proof (cases "map_of g n")
  case (Some es)
  then have "(n, es) \<in> set g" by (rule map_of_SomeD)
  then show ?thesis using Some by (auto simp: graph_get_def graph_nodes_def)
qed (simp add: graph_get_def)

lemma scan_measure:
  assumes "finite N"
  shows "fst ` set ns \<subseteq> N \<Longrightarrow> scan_neighbors target node d ns st = (found, st') \<Longrightarrow>
    card (N - bs_visited st') + length (bs_frontier st') \<le> card (N - bs_visited st) + length (bs_frontier st)"
proof (induction ns arbitrary: st)
  case (Cons n ns)
  obtain nb k s where n: "n = (nb, k, s)" by (cases n)
  have sub: "fst ` set ns \<subseteq> N" "nb \<in> N" using Cons.prems(1) unfolding n by simp_all
  show ?case
  proof (cases "nb \<in> bs_visited st")
    case True
    have "scan_neighbors target node d ns st = (found, st')" using Cons.prems(2) True unfolding n by simp
    then show ?thesis by (rule Cons.IH [OF sub(1)])
  next
    case False
    have "nb \<in> N - bs_visited st" by (rule DiffI [OF sub(2) False])
    from card.remove [OF finite_Diff [OF assms] this] have "card (N - bs_visited st) = Suc (card (N - bs_visited st - {nb}))" .
    then have c: "Suc (card (N - insert nb (bs_visited st))) = card (N - bs_visited st)" by (simp only: Diff_insert [of N nb "bs_visited st"])
    show ?thesis
    proof (cases "nb = target")
      case True
      have "st' = st\<lparr>bs_visited := insert nb (bs_visited st), bs_parent := (bs_parent st)(nb \<mapsto> (node, s))\<rparr>"
        using Cons.prems(2) False True unfolding n by (simp add: Let_def)
      then show ?thesis using c by simp
    next
      case neq: False
      let ?st = "st\<lparr>bs_visited := insert nb (bs_visited st), bs_parent := (bs_parent st)(nb \<mapsto> (node, s)),
        bs_frontier := bs_frontier st @ [(nb, d + 1)]\<rparr>"
      have "scan_neighbors target node d ns ?st = (found, st')" using Cons.prems(2) False neq unfolding n by (simp add: Let_def)
      from Cons.IH [OF sub(1) this] show ?thesis using c by simp
    qed
  qed
qed simp

function bfs_loop :: "fk_adjacency \<Rightarrow> string \<Rightarrow> int \<Rightarrow> bfs_state \<Rightarrow> (string \<Rightarrow> (string \<times> edge_seed) option) option" where
  "bfs_loop g target max_hops st =
     (case bs_frontier st of
        [] \<Rightarrow> None
      | (node, depth) # rest \<Rightarrow>
          if max_hops \<le> int depth then bfs_loop g target max_hops (st\<lparr>bs_frontier := rest\<rparr>)
          else (case scan_neighbors target node depth (graph_get g node) (st\<lparr>bs_frontier := rest\<rparr>) of
                  (True, st') \<Rightarrow> Some (bs_parent st')
                | (False, st') \<Rightarrow> bfs_loop g target max_hops st'))"
  by pat_completeness auto
termination
proof (relation "measure (\<lambda>(g, target, max_hops, st). card (graph_nodes g - bs_visited st) + length (bs_frontier st))", goal_cases)
  case (3 g target max_hops st p rest node depth found st')
  have "scan_neighbors node_target nd dp (graph_get g nd) st1 = (f, st2) \<Longrightarrow>
    card (graph_nodes g - bs_visited st2) + length (bs_frontier st2) \<le> card (graph_nodes g - bs_visited st1) + length (bs_frontier st1)"
    for node_target nd dp st1 f st2 by (rule scan_measure [OF finite_fk_nodes get_nodes])
  from this [OF 3(4) [symmetric]] show ?case using 3 by simp
qed simp_all

declare bfs_loop.simps [simp del]

datatype suggest_error =
    BadHops int
  | TooFewTables nat
  | SuggestName name_error
  | SuggestUnknown string
  | SuggestRead store_error
  | NoParent string

partial_function (option) walk_back ::
  "string \<Rightarrow> (string \<Rightarrow> (string \<times> edge_seed) option) \<Rightarrow> string \<Rightarrow> join_edge list \<Rightarrow> (suggest_error, join_edge list) run" where
  "walk_back start parent cursor edges =
     (if cursor = start then Some (Inr (rev edges))
      else (case parent cursor of
              None \<Rightarrow> Some (Inl (NoParent cursor))
            | Some (prev, s) \<Rightarrow> walk_back start parent prev (edges @ [edge_from_seed s prev])))"

definition bfs_shortest_path :: "fk_adjacency \<Rightarrow> string \<Rightarrow> string \<Rightarrow> int \<Rightarrow> (suggest_error, join_edge list option) run" where
  "bfs_shortest_path g start target max_hops =
     (case bfs_loop g target max_hops \<lparr>bs_visited = {start}, bs_parent = Map.empty, bs_frontier = [(start, 0)]\<rparr> of
        None \<Rightarrow> Some (Inr None)
      | Some parent \<Rightarrow> run_bind (walk_back start parent target []) (\<lambda>es. Some (Inr (Some es))))"

subsection \<open>The tool\<close>

definition redact_edge :: "score tag_table \<Rightarrow> string \<Rightarrow> string set \<Rightarrow> join_edge \<Rightarrow> join_edge" where
  "redact_edge tags src block e =
     e\<lparr>je_left_columns := redact_blocked_fk_columns tags src block (je_left e) (je_left_columns e),
       je_right_columns := redact_blocked_fk_columns tags src block (je_right e) (je_right_columns e)\<rparr>"

record join_path =
  pa_start :: string
  pa_end :: string
  pa_hops :: nat
  pa_edges :: "join_edge list"

record suggest_result =
  su_paths :: "join_path list"
  su_unreachable :: "(string \<times> string) list"

text \<open>First occurrences, in order.\<close>

definition first_seen :: "'a list \<Rightarrow> 'a list" where
  "first_seen xs = rev (remdups (rev xs))"

fun pairs_of :: "'a list \<Rightarrow> ('a \<times> 'a) list" where
  "pairs_of [] = []"
| "pairs_of (x # xs) = map (Pair x) xs @ pairs_of xs"

definition known_table :: "store \<Rightarrow> string \<Rightarrow> string \<Rightarrow> bool" where
  "known_table db src q \<longleftrightarrow> q \<in> set (map (\<lambda>(s, n). s @ ''.'' @ n) (list_tables db (Some src)))"

definition check_requested :: "store \<Rightarrow> string \<Rightarrow> string \<Rightarrow> suggest_error + unit" where
  "check_requested db src q =
     (case parse_qualified_name q of Inl e \<Rightarrow> Inl (SuggestName e) | Inr p \<Rightarrow> rcheck (known_table db src q) (SuggestUnknown q))"

text \<open>One pair: its path, or the pair in alphabetical order.\<close>

definition suggest_pair ::
  "'f cache \<Rightarrow> string \<Rightarrow> string set \<Rightarrow> fk_adjacency \<Rightarrow> int \<Rightarrow> string \<times> string \<Rightarrow> (suggest_error, join_path + string \<times> string) run" where
  "suggest_pair ca src block g max_hops = (\<lambda>(a, b).
     run_bind (bfs_shortest_path g a b max_hops) (\<lambda>r. Some (Inr (case r of
       None \<Rightarrow> Inr (if a \<le> b then (a, b) else (b, a))
     | Some es \<Rightarrow> Inl \<lparr>pa_start = a, pa_end = b, pa_hops = length es, pa_edges = map (redact_edge (ca_tags ca) src block) es\<rparr>))))"

definition suggest_joins :: "'f cache \<Rightarrow> string \<Rightarrow> string list \<Rightarrow> int \<Rightarrow> pii_category set \<Rightarrow> (suggest_error, suggest_result) run" where
  "suggest_joins ca src tables max_hops pii_block =
     (if max_hops \<le> 0 then Some (Inl (BadHops max_hops))
      else (let block = effective_block pii_block; unique = first_seen tables in
        if length unique < 2 then Some (Inl (TooFewTables (length unique)))
        else run_bind (Some (rtraverse (check_requested (ca_store ca) src) unique)) (\<lambda>_.
          case list_all_foreign_keys (ca_store ca) src of
            Inl e \<Rightarrow> Some (Inl (SuggestRead e))
          | Inr rows \<Rightarrow>
              run_bind (run_traverse (suggest_pair ca src block (build_fk_adjacency rows) max_hops) (pairs_of unique)) (\<lambda>rs.
                Some (Inr \<lparr>su_paths = sort_key (\<lambda>p. (pa_hops p, pa_start p, pa_end p)) (List.map_filter (\<lambda>r. case r of Inl p \<Rightarrow> Some p | Inr u \<Rightarrow> None) rs),
                  su_unreachable = sort (List.map_filter (\<lambda>r. case r of Inl p \<Rightarrow> None | Inr u \<Rightarrow> Some u) rs)\<rparr>)))))"

subsection \<open>Walks\<close>

text \<open>The joins that the rows allow: every foreign key in either direction. A path is a sequence of them that fits together.\<close>

definition fk_edges :: "(string \<times> string \<times> foreign_key) list \<Rightarrow> join_edge set" where
  "fk_edges rows = (\<Union>s \<in> seed_of ` set rows. {edge_from_seed s (es_owner s), edge_from_seed s (es_referenced s)})"

inductive fk_path :: "join_edge set \<Rightarrow> string \<Rightarrow> join_edge list \<Rightarrow> string \<Rightarrow> bool" for E a where
  nil: "fk_path E a [] a"
| snoc: "fk_path E a es b \<Longrightarrow> e \<in> E \<Longrightarrow> je_left e = b \<Longrightarrow> fk_path E a (es @ [e]) (je_right e)"

definition fk_shortest :: "join_edge set \<Rightarrow> string \<Rightarrow> join_edge list \<Rightarrow> string \<Rightarrow> bool" where
  "fk_shortest E a es b \<longleftrightarrow> fk_path E a es b \<and> (\<forall>es'. fk_path E a es' b \<longrightarrow> length es \<le> length es')"

lemma seed_sides:
  "edge_from_seed s (es_owner s) = \<lparr>je_fk_name = es_fk_name s, je_left = es_owner s, je_left_columns = es_owner_columns s,
     je_right = es_referenced s, je_right_columns = es_referenced_columns s\<rparr>"
  "je_left (edge_from_seed s (es_referenced s)) = es_referenced s" "je_right (edge_from_seed s (es_referenced s)) = es_owner s"
  by (auto simp: edge_from_seed_def)

definition touches :: "edge_seed \<Rightarrow> string \<Rightarrow> string \<Rightarrow> bool" where
  "touches s a b \<longleftrightarrow> (a = es_owner s \<and> b = es_referenced s) \<or> (a = es_referenced s \<and> b = es_owner s)"

lemma touches_edge: "touches s a b \<Longrightarrow> je_left (edge_from_seed s a) = a \<and> je_right (edge_from_seed s a) = b"
  by (auto simp: touches_def edge_from_seed_def)

lemma get_add_seed:
  "(nb, k, s) \<in> set (graph_get (add_seed g t) a) \<longleftrightarrow> (nb, k, s) \<in> set (graph_get g a) \<or> (s = t \<and> k = es_fk_name t \<and> touches t a nb)"
  by (cases "a = es_owner t"; cases "a = es_referenced t") (auto simp only: add_seed_def get_add_entry touches_def if_True if_False set_append list.set
      Un_iff insert_iff empty_iff prod.inject simp_thms)

lemma get_add_seeds:
  "(nb, k, s) \<in> set (graph_get (foldl add_seed g ss) a) \<longleftrightarrow>
     (nb, k, s) \<in> set (graph_get g a) \<or> (s \<in> set ss \<and> k = es_fk_name s \<and> touches s a nb)"
proof (induction ss arbitrary: g)
  case (Cons t ss)
  show ?case unfolding foldl_Cons Cons.IH get_add_seed by auto
qed simp

lemma set_build_get: "set (graph_get (build_fk_adjacency rows) a) = set (graph_get (foldl add_seed [] (map seed_of rows)) a)"
  unfolding graph_get_def build_fk_adjacency_def map_of_map by (cases "map_of (foldl add_seed [] (map seed_of rows)) a") simp_all

lemma get_adjacency:
  "(nb, k, s) \<in> set (graph_get (build_fk_adjacency rows) a) \<longleftrightarrow> s \<in> seed_of ` set rows \<and> k = es_fk_name s \<and> touches s a nb"
  unfolding set_build_get get_add_seeds by (simp add: graph_get_def)

lemma adjacency_edge:
  assumes "(nb, k, s) \<in> set (graph_get (build_fk_adjacency rows) a)"
  shows "edge_from_seed s a \<in> fk_edges rows \<and> je_left (edge_from_seed s a) = a \<and> je_right (edge_from_seed s a) = nb"
proof -
  have s: "s \<in> seed_of ` set rows" "touches s a nb" using assms by (simp_all add: get_adjacency)
  then have "a = es_owner s \<or> a = es_referenced s" by (auto simp: touches_def)
  then have "edge_from_seed s a \<in> fk_edges rows" using s(1) unfolding fk_edges_def by blast
  then show ?thesis using touches_edge [OF s(2)] by blast
qed

lemma edge_adjacency:
  assumes "e \<in> fk_edges rows"
  shows "\<exists>k s. (je_right e, k, s) \<in> set (graph_get (build_fk_adjacency rows) (je_left e))"
proof -
  obtain s where s: "s \<in> seed_of ` set rows" "e = edge_from_seed s (es_owner s) \<or> e = edge_from_seed s (es_referenced s)"
    using assms unfolding fk_edges_def by blast
  have "touches s (je_left e) (je_right e)" using s(2)
  proof
    assume e: "e = edge_from_seed s (es_owner s)"
    show ?thesis unfolding e seed_sides(1) by (simp add: touches_def)
  next
    assume e: "e = edge_from_seed s (es_referenced s)"
    show ?thesis unfolding e seed_sides(2,3) by (simp add: touches_def)
  qed
  then have "(je_right e, es_fk_name s, s) \<in> set (graph_get (build_fk_adjacency rows) (je_left e))"
    using s(1) unfolding get_adjacency by blast
  then show ?thesis by blast
qed

subsection \<open>The search is a shortest-path search\<close>

text \<open>\<open>dist\<close> is the depth at which a node was seen. Parents are one step nearer, the frontier is sorted
  by depth and spans two depths at most, and what left the frontier below the bound has all its neighbours seen.\<close>

definition parents_ok :: "fk_adjacency \<Rightarrow> string \<Rightarrow> (string \<Rightarrow> nat) \<Rightarrow> bfs_state \<Rightarrow> bool" where
  "parents_ok g start dist st \<longleftrightarrow> (\<forall>n \<in> bs_visited st. n \<noteq> start \<longrightarrow> (\<exists>p s k. bs_parent st n = Some (p, s) \<and>
     p \<in> bs_visited st \<and> (n, k, s) \<in> set (graph_get g p) \<and> dist n = Suc (dist p)))"

definition bfs_inv :: "fk_adjacency \<Rightarrow> string \<Rightarrow> string \<Rightarrow> int \<Rightarrow> (string \<Rightarrow> nat) \<Rightarrow> bfs_state \<Rightarrow> bool" where
  "bfs_inv g start target h dist st \<longleftrightarrow>
     start \<in> bs_visited st \<and> dist start = 0 \<and> target \<notin> bs_visited st \<and>
     parents_ok g start dist st \<and> (\<forall>(n, d) \<in> set (bs_frontier st). n \<in> bs_visited st \<and> d = dist n) \<and> sorted (map snd (bs_frontier st)) \<and>
     (\<forall>n \<in> bs_visited st. int (dist n) \<le> h) \<and>
     (\<forall>n \<in> bs_visited st. \<forall>d \<in> snd ` set (bs_frontier st). dist n \<le> Suc d) \<and>
     (\<forall>n \<in> bs_visited st. n \<notin> fst ` set (bs_frontier st) \<longrightarrow> int (dist n) < h \<longrightarrow>
        (\<forall>m \<in> fst ` set (graph_get g n). m \<in> bs_visited st \<and> dist m \<le> Suc (dist n)))"

lemma inv_start: "start \<noteq> target \<Longrightarrow> 0 < h \<Longrightarrow>
  bfs_inv g start target h (\<lambda>_. 0) \<lparr>bs_visited = {start}, bs_parent = Map.empty, bs_frontier = [(start, 0)]\<rparr>"
  by (auto simp: bfs_inv_def parents_ok_def)

text \<open>A node within reach is seen at no greater depth, or the frontier is nearer than it.\<close>

lemma inv_reach:
  assumes "bfs_inv (build_fk_adjacency rows) start target h dist st" "fk_path (fk_edges rows) start es n" "int (length es) \<le> h"
  shows "n \<in> bs_visited st \<and> dist n \<le> length es \<or> (\<exists>d \<in> snd ` set (bs_frontier st). d < length es)"
  using assms(2,3)
proof (induction rule: fk_path.induct)
  case (snoc es b e)
  obtain k s where e: "(je_right e, k, s) \<in> set (graph_get (build_fk_adjacency rows) b)"
    using edge_adjacency [OF snoc.hyps(2)] snoc.hyps(3) by blast
  consider "b \<in> bs_visited st" "dist b \<le> length es" "b \<notin> fst ` set (bs_frontier st)"
    | d where "(b, d) \<in> set (bs_frontier st)" "dist b \<le> length es" "b \<in> bs_visited st"
    | d where "d \<in> snd ` set (bs_frontier st)" "d < length es" using snoc by force
  then show ?case
  proof cases
    case 1
    have "\<forall>m \<in> fst ` set (graph_get (build_fk_adjacency rows) b). m \<in> bs_visited st \<and> dist m \<le> Suc (dist b)"
      using assms(1) 1 snoc.prems unfolding bfs_inv_def by simp
    then have "je_right e \<in> bs_visited st" "dist (je_right e) \<le> Suc (dist b)" using e by force+
    then show ?thesis using 1(2) by simp
  next
    case 2
    have "d = dist b" using assms(1) 2(1) unfolding bfs_inv_def by blast
    then show ?thesis using 2(1,2) by force
  next
    case 3
    then show ?thesis by force
  qed
qed (use assms(1) in \<open>simp add: bfs_inv_def\<close>)

text \<open>What the inner loop does: it sees the new neighbours, in the frontier one deeper, or it stops at the end.\<close>

lemma scan_spec:
  assumes "scan_neighbors target node d ns st = (found, st')" "target \<notin> bs_visited st"
  shows "bs_visited st \<subseteq> bs_visited st' \<and> bs_visited st' \<subseteq> bs_visited st \<union> fst ` set ns \<and>
    (\<forall>n \<in> bs_visited st. bs_parent st' n = bs_parent st n) \<and>
    (\<forall>n \<in> bs_visited st' - bs_visited st. \<exists>s k. bs_parent st' n = Some (node, s) \<and> (n, k, s) \<in> set ns) \<and>
    (if found then target \<in> bs_visited st'
     else fst ` set ns \<subseteq> bs_visited st' \<and> target \<notin> bs_visited st' \<and>
       (\<exists>new. bs_frontier st' = bs_frontier st @ map (\<lambda>n. (n, Suc d)) new \<and> set new = bs_visited st' - bs_visited st))"
  using assms
proof (induction ns arbitrary: st)
  case (Cons n ns)
  obtain nb k s where n: "n = (nb, k, s)" by (cases n)
  show ?case
  proof (cases "nb \<in> bs_visited st")
    case True
    have "scan_neighbors target node d ns st = (found, st')" using Cons.prems(1) True unfolding n by simp
    note IH = Cons.IH [OF this Cons.prems(2)]
    have set: "fst ` set (n # ns) = insert nb (fst ` set ns)" by (simp add: n)
    show ?thesis unfolding set
    proof (intro conjI)
      show "bs_visited st \<subseteq> bs_visited st'" "bs_visited st' \<subseteq> bs_visited st \<union> insert nb (fst ` set ns)" using IH by blast+
      show "\<forall>n \<in> bs_visited st. bs_parent st' n = bs_parent st n" using IH by blast
      show "\<forall>x \<in> bs_visited st' - bs_visited st. \<exists>s k. bs_parent st' x = Some (node, s) \<and> (x, k, s) \<in> set (n # ns)"
        using IH by (meson list.set_intros(2))
      show "if found then target \<in> bs_visited st' else insert nb (fst ` set ns) \<subseteq> bs_visited st' \<and> target \<notin> bs_visited st' \<and>
          (\<exists>new. bs_frontier st' = bs_frontier st @ map (\<lambda>n. (n, Suc d)) new \<and> set new = bs_visited st' - bs_visited st)"
        using IH True by (cases found) (simp_all only: if_True if_False, blast)
    qed
  next
    case False
    let ?v = "st\<lparr>bs_visited := insert nb (bs_visited st), bs_parent := (bs_parent st)(nb \<mapsto> (node, s))\<rparr>"
    show ?thesis
    proof (cases "nb = target")
      case True
      have "found" "st' = ?v" using Cons.prems(1) False True unfolding n by (simp_all add: Let_def)
      then show ?thesis using False True unfolding n by auto
    next
      case neq: False
      let ?st = "?v\<lparr>bs_frontier := bs_frontier st @ [(nb, d + 1)]\<rparr>"
      have run: "scan_neighbors target node d ns ?st = (found, st')" using Cons.prems(1) False neq unfolding n by (simp add: Let_def)
      have "target \<notin> bs_visited ?st" using Cons.prems(2) neq by simp
      note IH = Cons.IH [OF run this]
      have sub: "insert nb (bs_visited st) \<subseteq> bs_visited st'" "bs_visited st' \<subseteq> insert nb (bs_visited st) \<union> fst ` set ns" using IH by simp_all
      have old: "\<forall>n \<in> bs_visited st. bs_parent st' n = bs_parent st n" using IH False by auto
      have nb: "bs_parent st' nb = Some (node, s)" using IH by simp
      have new: "\<exists>s k. bs_parent st' x = Some (node, s) \<and> (x, k, s) \<in> set (n # ns)" if x: "x \<in> bs_visited st' - bs_visited st" for x
      proof (cases "x = nb")
        case True
        then show ?thesis using nb unfolding n by auto
      next
        case False
        then have "x \<in> bs_visited st' - bs_visited ?st" using x by simp
        then obtain s' k' where "bs_parent st' x = Some (node, s')" "(x, k', s') \<in> set ns" using IH by blast
        then show ?thesis by auto
      qed
      have rest: "\<exists>new. bs_frontier st' = bs_frontier st @ map (\<lambda>n. (n, Suc d)) new \<and> set new = bs_visited st' - bs_visited st"
        if nf: "\<not> found"
      proof -
        obtain new where new: "bs_frontier st' = bs_frontier st @ [(nb, d + 1)] @ map (\<lambda>n. (n, Suc d)) new" "set new = bs_visited st' - insert nb (bs_visited st)"
          using IH nf by auto
        have "set (nb # new) = bs_visited st' - bs_visited st" using new(2) sub(1) False by auto
        then show ?thesis using new(1) by (intro exI [of _ "nb # new"]) simp
      qed
      have ends: "if found then target \<in> bs_visited st' else fst ` set ns \<subseteq> bs_visited st' \<and> target \<notin> bs_visited st'"
        using IH by (cases found) simp_all
      show ?thesis
      proof (intro conjI)
        show "bs_visited st \<subseteq> bs_visited st'" "bs_visited st' \<subseteq> bs_visited st \<union> fst ` set (n # ns)" using sub unfolding n by auto
        show "if found then target \<in> bs_visited st' else fst ` set (n # ns) \<subseteq> bs_visited st' \<and> target \<notin> bs_visited st' \<and>
          (\<exists>new. bs_frontier st' = bs_frontier st @ map (\<lambda>n. (n, Suc d)) new \<and> set new = bs_visited st' - bs_visited st)"
          using ends rest sub(1) unfolding n by (cases found) auto
      qed (use old new in blast)+
    qed
  qed
qed auto

text \<open>The node at the front, and the nodes it may add.\<close>

lemma inv_front:
  assumes "bfs_inv g start target h dist st" "bs_frontier st = (node, d) # rest"
  shows "node \<in> bs_visited st" "dist node = d" "\<And>n. n \<in> bs_visited st \<Longrightarrow> dist n \<le> Suc d" "\<And>m e. (m, e) \<in> set rest \<Longrightarrow> d \<le> e \<and> e \<le> Suc d"
proof -
  show n: "node \<in> bs_visited st" "dist node = d" using assms unfolding bfs_inv_def by auto
  show near: "dist n \<le> Suc d" if "n \<in> bs_visited st" for n
  proof -
    have "\<forall>n \<in> bs_visited st. \<forall>d \<in> snd ` set (bs_frontier st). dist n \<le> Suc d" using assms(1) unfolding bfs_inv_def by blast
    then show ?thesis using assms(2) that by simp
  qed
  show "d \<le> e \<and> e \<le> Suc d" if m: "(m, e) \<in> set rest" for m e
  proof -
    have "m \<in> bs_visited st" "e = dist m" using assms m unfolding bfs_inv_def by auto
    moreover have "d \<le> e" using assms m unfolding bfs_inv_def by force
    ultimately show ?thesis using near by simp
  qed
qed

lemma inv_pop:
  assumes "bfs_inv g start target h dist st" "bs_frontier st = (node, d) # rest" "h \<le> int d"
  shows "bfs_inv g start target h dist (st\<lparr>bs_frontier := rest\<rparr>)"
proof -
  have d: "dist node = d" by (rule inv_front [OF assms(1,2)])
  have "\<forall>m \<in> fst ` set (graph_get g n). m \<in> bs_visited st \<and> dist m \<le> Suc (dist n)"
    if "n \<in> bs_visited st" "n \<notin> fst ` set rest" "int (dist n) < h" for n
  proof -
    have "n \<noteq> node" using d assms(3) that(3) by auto
    then show ?thesis using assms(1,2) that unfolding bfs_inv_def by simp
  qed
  then show ?thesis using assms(1,2) unfolding bfs_inv_def parents_ok_def by simp
qed

definition deeper :: "bfs_state \<Rightarrow> nat \<Rightarrow> (string \<Rightarrow> nat) \<Rightarrow> string \<Rightarrow> nat" where
  "deeper st d dist n = (if n \<in> bs_visited st then dist n else Suc d)"

lemma scan_parents:
  assumes "bfs_inv g start target h dist st" "bs_frontier st = (node, d) # rest"
    "scan_neighbors target node d (graph_get g node) (st\<lparr>bs_frontier := rest\<rparr>) = (found, st')"
  shows "parents_ok g start (deeper st d dist) st'"
  unfolding parents_ok_def
proof (intro ballI impI)
  have t: "target \<notin> bs_visited (st\<lparr>bs_frontier := rest\<rparr>)" and ok: "parents_ok g start dist st" using assms(1) unfolding bfs_inv_def by simp_all
  note sp = scan_spec [OF assms(3) t]
  note f = inv_front [OF assms(1,2)]
  fix n assume n: "n \<in> bs_visited st'" "n \<noteq> start"
  show "\<exists>p s k. bs_parent st' n = Some (p, s) \<and> p \<in> bs_visited st' \<and> (n, k, s) \<in> set (graph_get g p) \<and>
      deeper st d dist n = Suc (deeper st d dist p)"
  proof (cases "n \<in> bs_visited st")
    case True
    then obtain p s k where p: "bs_parent st n = Some (p, s)" "p \<in> bs_visited st" "(n, k, s) \<in> set (graph_get g p)" "dist n = Suc (dist p)"
      using ok n(2) unfolding parents_ok_def by blast
    have "bs_parent st' n = bs_parent st n" "p \<in> bs_visited st'" using sp True p(2) by auto
    then show ?thesis using p True by (intro exI [of _ p] exI [of _ s] exI [of _ k]) (simp add: deeper_def)
  next
    case False
    then obtain s k where "bs_parent st' n = Some (node, s)" "(n, k, s) \<in> set (graph_get g node)" using sp n(1) by fastforce
    moreover have "node \<in> bs_visited st'" using sp f(1) by auto
    ultimately show ?thesis using False f(1,2) by (intro exI [of _ node] exI [of _ s] exI [of _ k]) (simp add: deeper_def)
  qed
qed

lemma inv_scan:
  assumes "bfs_inv g start target h dist st" "bs_frontier st = (node, d) # rest" "int d < h"
    "scan_neighbors target node d (graph_get g node) (st\<lparr>bs_frontier := rest\<rparr>) = (False, st')"
  shows "bfs_inv g start target h (deeper st d dist) st'"
proof -
  let ?d = "deeper st d dist" and ?V = "bs_visited st" and ?V' = "bs_visited st'"
  have t: "target \<notin> bs_visited (st\<lparr>bs_frontier := rest\<rparr>)" using assms(1) unfolding bfs_inv_def by simp
  note sp = scan_spec [OF assms(4) t] and f = inv_front [OF assms(1,2)]
  obtain new where new: "bs_frontier st' = rest @ map (\<lambda>n. (n, Suc d)) new" "set new = ?V' - ?V" using sp by auto
  have V: "?V \<subseteq> ?V'" "fst ` set (graph_get g node) \<subseteq> ?V'" "target \<notin> ?V'" using sp by auto
  have old: "?d n = dist n" if "n \<in> ?V" for n using that by (simp add: deeper_def)
  have fresh: "?d n = Suc d" if "n \<notin> ?V" for n using that by (simp add: deeper_def)
  have le: "?d n \<le> Suc d" for n using f(3) by (simp add: deeper_def)
  have start: "start \<in> ?V" "dist start = 0" using assms(1) unfolding bfs_inv_def by simp_all
  have queue: "n \<in> ?V' \<and> e = ?d n \<and> d \<le> e" if q: "(n, e) \<in> set (bs_frontier st')" for n e
  proof (cases "(n, e) \<in> set rest")
    case True
    then have "n \<in> ?V" "e = dist n" using assms(1,2) unfolding bfs_inv_def by auto
    then show ?thesis using V(1) old f(4) [OF True] by auto
  next
    case False
    then have "n \<in> ?V' - ?V" "e = Suc d" using q new by auto
    then show ?thesis using fresh by simp
  qed
  have sorted: "sorted (map snd (bs_frontier st'))"
  proof -
    have "sorted (map snd rest)" using assms(1,2) unfolding bfs_inv_def by simp
    moreover have "\<forall>e \<in> snd ` set rest. e \<le> Suc d" using f(4) by auto
    ultimately show ?thesis unfolding new(1) by (auto simp: sorted_append sorted_map)
  qed
  have closed: "m \<in> ?V' \<and> ?d m \<le> Suc (?d n)"
    if n: "n \<in> ?V'" "n \<notin> fst ` set (bs_frontier st')" "int (?d n) < h" and m: "m \<in> fst ` set (graph_get g n)" for n m
  proof (cases "n = node")
    case True
    then show ?thesis using m V(2) le old [OF f(1)] f(2) by auto
  next
    case False
    have "n \<in> ?V" using n(1,2) new by force
    moreover have "n \<notin> fst ` set (bs_frontier st)" using n(2) False assms(2) new(1) by auto
    ultimately have "m \<in> ?V \<and> dist m \<le> Suc (dist n)" using assms(1) n(3) m old unfolding bfs_inv_def by auto
    then show ?thesis using V(1) old \<open>n \<in> ?V\<close> by auto
  qed
  have bound: "int (?d n) \<le> h" if "n \<in> ?V'" for n
    using assms(1,3) old fresh unfolding bfs_inv_def by (cases "n \<in> ?V") simp_all
  have near: "?d n \<le> Suc e" if "e \<in> snd ` set (bs_frontier st')" for n e using that queue le [of n] by force
  show ?thesis unfolding bfs_inv_def
    using scan_parents [OF assms(1,2,4)] start V old queue sorted closed bound near by auto
qed

text \<open>Walking back from a node gives a path to it, as long as its depth.\<close>

lemma walk_back_path:
  assumes "parents_ok (build_fk_adjacency rows) start dist st" "dist start = 0"
  shows "n \<in> bs_visited st \<Longrightarrow> \<exists>es. (\<forall>acc. walk_back start (bs_parent st) n acc = Some (Inr (es @ rev acc))) \<and>
     fk_path (fk_edges rows) start es n \<and> length es = dist n"
proof (induction "dist n" arbitrary: n rule: less_induct)
  case less
  show ?case
  proof (cases "n = start")
    case True
    then show ?thesis using assms(2) by (intro exI [of _ "[]"]) (simp add: walk_back.simps fk_path.nil)
  next
    case False
    then obtain p s k where p: "bs_parent st n = Some (p, s)" "p \<in> bs_visited st" "(n, k, s) \<in> set (graph_get (build_fk_adjacency rows) p)"
      "dist n = Suc (dist p)" using assms(1) less.prems unfolding parents_ok_def by blast
    obtain es where es: "\<And>acc. walk_back start (bs_parent st) p acc = Some (Inr (es @ rev acc))" "fk_path (fk_edges rows) start es p" "length es = dist p"
      using less.hyps [of p] p(2,4) by auto
    note e = adjacency_edge [OF p(3)]
    have "fk_path (fk_edges rows) start (es @ [edge_from_seed s p]) n" using fk_path.snoc [OF es(2), of "edge_from_seed s p"] e by simp
    then show ?thesis using es(1,3) p(1,4) False
      by (intro exI [of _ "es @ [edge_from_seed s p]"]) (simp add: walk_back.simps [of start "bs_parent st" n])
  qed
qed

lemma bfs_loop_spec:
  assumes "bfs_inv (build_fk_adjacency rows) start target h dist st"
  shows "case bfs_loop (build_fk_adjacency rows) target h st of
      None \<Rightarrow> \<not> (\<exists>es. fk_path (fk_edges rows) start es target \<and> int (length es) \<le> h)
    | Some parent \<Rightarrow> \<exists>es. walk_back start parent target [] = Some (Inr es) \<and> fk_shortest (fk_edges rows) start es target \<and> int (length es) \<le> h"
  using assms
proof (induction "build_fk_adjacency rows" target h st arbitrary: dist rule: bfs_loop.induct)
  case (1 target h st)
  note inv = "1.prems"
  let ?g = "build_fk_adjacency rows"
  show ?case
  proof (cases "bs_frontier st")
    case Nil
    have "target \<notin> bs_visited st" using inv unfolding bfs_inv_def by simp
    then have "\<not> (\<exists>es. fk_path (fk_edges rows) start es target \<and> int (length es) \<le> h)"
      using inv_reach [OF inv] Nil by fastforce
    then show ?thesis using Nil by (simp add: bfs_loop.simps [of ?g target h st])
  next
    case (Cons nd rest)
    then obtain node d where q: "bs_frontier st = (node, d) # rest" by (cases nd) simp
    show ?thesis
    proof (cases "h \<le> int d")
      case True
      then show ?thesis using "1.hyps"(1) [OF q refl True inv_pop [OF inv q True]] q by (simp add: bfs_loop.simps [of ?g target h st])
    next
      case False
      obtain found st' where sc: "scan_neighbors target node d (graph_get ?g node) (st\<lparr>bs_frontier := rest\<rparr>) = (found, st')" by fastforce
      show ?thesis
      proof (cases found)
        case True
        have t: "target \<notin> bs_visited st" and dz: "start \<in> bs_visited st" "dist start = 0" using inv unfolding bfs_inv_def by simp_all
        then have tv: "target \<in> bs_visited st'" using scan_spec [OF sc] True by simp
        have z: "deeper st d dist start = 0" "deeper st d dist target = Suc d" using t dz by (simp_all add: deeper_def)
        obtain es where es: "walk_back start (bs_parent st') target [] = Some (Inr es)" "fk_path (fk_edges rows) start es target" "length es = Suc d"
          using walk_back_path [OF scan_parents [OF inv q sc] z(1) tv] z(2) by auto
        have "Suc d \<le> length es'" if p: "fk_path (fk_edges rows) start es' target" for es'
        proof (cases "int (length es') \<le> h")
          case True
          then obtain e where "e \<in> snd ` set (bs_frontier st)" "e < length es'" using inv_reach [OF inv p] t by blast
          moreover have "d \<le> e" if "e \<in> snd ` set (bs_frontier st)" for e using that inv_front(4) [OF inv q] q by auto
          ultimately show ?thesis by fastforce
        next
          case f: False
          then show ?thesis using False by simp
        qed
        then show ?thesis using es False True q sc by (simp add: bfs_loop.simps [of ?g target h st] fk_shortest_def)
      next
        case nf: False
        then show ?thesis using "1.hyps"(2) [OF q refl False _ _ inv_scan [OF inv q]] False q sc
          by (simp add: bfs_loop.simps [of ?g target h st])
      qed
    qed
  qed
qed

lemma bfs_path_spec:
  assumes "start \<noteq> target" "0 < h"
  obtains r where "bfs_shortest_path (build_fk_adjacency rows) start target h = Some (Inr r)"
    "case r of None \<Rightarrow> \<not> (\<exists>es. fk_path (fk_edges rows) start es target \<and> int (length es) \<le> h)
     | Some es \<Rightarrow> fk_shortest (fk_edges rows) start es target \<and> int (length es) \<le> h"
proof -
  note sp = bfs_loop_spec [OF inv_start [OF assms], of rows]
  show thesis
  proof (cases "bfs_loop (build_fk_adjacency rows) target h \<lparr>bs_visited = {start}, bs_parent = Map.empty, bs_frontier = [(start, 0)]\<rparr>")
    case None
    then show ?thesis using sp that [of None] by (simp add: bfs_shortest_path_def)
  next
    case (Some parent)
    then obtain es where "walk_back start parent target [] = Some (Inr es)" "fk_shortest (fk_edges rows) start es target" "int (length es) \<le> h"
      using sp by auto
    then show ?thesis using Some that [of "Some es"] by (simp add: bfs_shortest_path_def)
  qed
qed

subsection \<open>The answers\<close>

lemma set_first_seen [simp]: "set (first_seen xs) = set xs" "distinct (first_seen xs)" "length (first_seen xs) = card (set xs)"
  by (simp_all add: first_seen_def length_remdups_card_conv)

lemma pairs_distinct: "distinct xs \<Longrightarrow> (a, b) \<in> set (pairs_of xs) \<Longrightarrow> a \<noteq> b"
  by (induction xs) auto

text \<open>What the tool says of one pair.\<close>

definition pair_answered ::
  "score tag_table \<Rightarrow> string \<Rightarrow> string set \<Rightarrow> join_edge set \<Rightarrow> int \<Rightarrow> string \<times> string \<Rightarrow> join_path + string \<times> string \<Rightarrow> bool" where
  "pair_answered tags src block E h = (\<lambda>(a, b) r. case r of
     Inl p \<Rightarrow> pa_start p = a \<and> pa_end p = b \<and> (\<exists>es. fk_shortest E a es b \<and> int (length es) \<le> h \<and> pa_hops p = length es \<and>
        pa_edges p = map (redact_edge tags src block) es)
   | Inr u \<Rightarrow> u = (min a b, max a b) \<and> \<not> (\<exists>es. fk_path E a es b \<and> int (length es) \<le> h))"

lemma suggest_pair_answered:
  assumes "fst ab \<noteq> snd ab" "0 < h"
  shows "\<exists>r. suggest_pair ca src block (build_fk_adjacency rows) h ab = Some (Inr r) \<and> pair_answered (ca_tags ca) src block (fk_edges rows) h ab r"
proof -
  obtain a b where ab: "ab = (a, b)" by (cases ab)
  obtain r where r: "bfs_shortest_path (build_fk_adjacency rows) a b h = Some (Inr r)"
    "case r of None \<Rightarrow> \<not> (\<exists>es. fk_path (fk_edges rows) a es b \<and> int (length es) \<le> h)
     | Some es \<Rightarrow> fk_shortest (fk_edges rows) a es b \<and> int (length es) \<le> h"
    using bfs_path_spec [of a b h rows] assms ab by auto
  show ?thesis
  proof (cases r)
    case None
    then show ?thesis using r unfolding ab by (simp add: suggest_pair_def pair_answered_def min_def max_def)
  next
    case (Some es)
    then show ?thesis using r unfolding ab
      by (intro exI [of _ "Inl \<lparr>pa_start = a, pa_end = b, pa_hops = length es, pa_edges = map (redact_edge (ca_tags ca) src block) es\<rparr>"])
        (auto simp: suggest_pair_def pair_answered_def)
  qed
qed

lemma run_traverse_all:
  "(\<And>x. x \<in> set xs \<Longrightarrow> \<exists>y. f x = Some (Inr y) \<and> P x y) \<Longrightarrow> \<exists>ys. run_traverse f xs = Some (Inr ys) \<and> list_all2 P xs ys"
proof (induction xs)
  case (Cons x xs)
  obtain y where "f x = Some (Inr y)" "P x y" using Cons.prems [of x] by auto
  moreover obtain ys where "run_traverse f xs = Some (Inr ys)" "list_all2 P xs ys" using Cons by auto
  ultimately show ?case by (intro exI [of _ "y # ys"]) simp
qed simp

definition request_ok :: "'f cache \<Rightarrow> string \<Rightarrow> string list \<Rightarrow> int \<Rightarrow> bool" where
  "request_ok ca src tables h \<longleftrightarrow> 0 < h \<and> 2 \<le> card (set tables) \<and>
     list_all (\<lambda>q. (\<exists>p. parse_qualified_name q = Inr p) \<and> known_table (ca_store ca) src q) tables"

lemma check_requested_ok: "(\<exists>u. check_requested db src q = Inr u) \<longleftrightarrow> (\<exists>p. parse_qualified_name q = Inr p) \<and> known_table db src q"
  by (cases "parse_qualified_name q") (simp_all add: check_requested_def result_simps)

lemma check_requested_error: "check_requested db src q = Inl e \<Longrightarrow> e \<noteq> NoParent c"
  by (cases "parse_qualified_name q") (auto simp: check_requested_def result_simps)

lemma suggest_joins_runs:
  assumes "request_ok ca src tables h" "list_all_foreign_keys (ca_store ca) src = Inr rows"
  shows "\<exists>rs. suggest_joins ca src tables h pii_block = Some (Inr
       \<lparr>su_paths = sort_key (\<lambda>p. (pa_hops p, pa_start p, pa_end p)) (List.map_filter (\<lambda>r. case r of Inl p \<Rightarrow> Some p | Inr u \<Rightarrow> None) rs),
        su_unreachable = sort (List.map_filter (\<lambda>r. case r of Inl p \<Rightarrow> None | Inr u \<Rightarrow> Some u) rs)\<rparr>) \<and>
     list_all2 (pair_answered (ca_tags ca) src (effective_block pii_block) (fk_edges rows) h) (pairs_of (first_seen tables)) rs"
proof -
  let ?f = "suggest_pair ca src (effective_block pii_block) (build_fk_adjacency rows) h"
  have h: "0 < h" "\<not> card (set tables) < 2" using assms(1) by (simp_all add: request_ok_def)
  have "\<exists>us. rtraverse (check_requested (ca_store ca) src) (first_seen tables) = Inr us"
    unfolding rtraverse_unit_Inr check_requested_ok using assms(1) by (auto simp: request_ok_def list_all_iff)
  then obtain us where us: "rtraverse (check_requested (ca_store ca) src) (first_seen tables) = Inr us" by blast
  have "\<exists>rs. run_traverse ?f (pairs_of (first_seen tables)) = Some (Inr rs) \<and>
      list_all2 (pair_answered (ca_tags ca) src (effective_block pii_block) (fk_edges rows) h) (pairs_of (first_seen tables)) rs"
  proof (rule run_traverse_all)
    fix ab assume "ab \<in> set (pairs_of (first_seen tables))"
    then have "fst ab \<noteq> snd ab" using pairs_distinct [of "first_seen tables" "fst ab" "snd ab"] by simp
    then show "\<exists>r. ?f ab = Some (Inr r) \<and> pair_answered (ca_tags ca) src (effective_block pii_block) (fk_edges rows) h ab r"
      by (rule suggest_pair_answered [OF _ h(1)])
  qed
  then obtain rs where rs: "run_traverse ?f (pairs_of (first_seen tables)) = Some (Inr rs)"
    "list_all2 (pair_answered (ca_tags ca) src (effective_block pii_block) (fk_edges rows) h) (pairs_of (first_seen tables)) rs" by blast
  show ?thesis
    by (rule exI [of _ rs]) (use h us rs assms(2) in \<open>simp add: suggest_joins_def Let_def\<close>)
qed

lemma suggest_joins_refuses:
  assumes "\<not> (request_ok ca src tables h \<and> (\<exists>rows. list_all_foreign_keys (ca_store ca) src = Inr rows))"
  shows "\<exists>e. suggest_joins ca src tables h pii_block = Some (Inl e) \<and> (\<forall>c. e \<noteq> NoParent c)"
proof (cases "0 < h \<and> 2 \<le> card (set tables)")
  case True
  show ?thesis
  proof (cases "rtraverse (check_requested (ca_store ca) src) (first_seen tables)")
    case (Inl e)
    then obtain q where "check_requested (ca_store ca) src q = Inl e" using rtraverse_Inl_ex [OF Inl] by blast
    then show ?thesis using True Inl check_requested_error by (simp add: suggest_joins_def Let_def)
  next
    case (Inr us)
    then have "\<forall>q \<in> set tables. \<exists>u. check_requested (ca_store ca) src q = Inr u" using rtraverse_unit_Inr [of "check_requested (ca_store ca) src" "first_seen tables"] by auto
    then have "request_ok ca src tables h" using True unfolding check_requested_ok request_ok_def list_all_iff by blast
    then obtain e where "list_all_foreign_keys (ca_store ca) src = Inl e" using assms by (cases "list_all_foreign_keys (ca_store ca) src") auto
    then show ?thesis using True Inr by (simp add: suggest_joins_def Let_def)
  qed
qed (auto simp: suggest_joins_def Let_def)

text \<open>C11: The search for join paths always ends. Whatever the tables, the bound, the tags and the stored keys,
  the queue empties and the walk back reaches its start, without a missing parent: a request is answered exactly if its bound
  is positive, it names two distinct tables at least, each well-formed and indexed, and the stored foreign keys are
  readable; otherwise it raises.\<close>

theorem suggest_joins_returns:
  "\<exists>r. suggest_joins ca src tables max_hops pii_block = Some r \<and> (\<forall>c. r \<noteq> Inl (NoParent c)) \<and>
     ((\<exists>x. r = Inr x) \<longleftrightarrow> request_ok ca src tables max_hops \<and> (\<exists>rows. list_all_foreign_keys (ca_store ca) src = Inr rows))"
proof (cases "request_ok ca src tables max_hops \<and> (\<exists>rows. list_all_foreign_keys (ca_store ca) src = Inr rows)")
  case True
  then show ?thesis using suggest_joins_runs by blast
next
  case False
  then show ?thesis using suggest_joins_refuses [OF False] by fastforce
qed

lemma masked_redacted_edge:
  assumes "e' = redact_edge tags src block e"
  shows "masked_key tags src block (je_left e') (je_left_columns e')" "masked_key tags src block (je_right e') (je_right_columns e')"
  unfolding assms redact_edge_def using masked_redact by simp_all

lemma mset_sides:
  "mset (map Inl (List.map_filter (\<lambda>r. case r of Inl p \<Rightarrow> Some p | Inr u \<Rightarrow> None) xs) @
    map Inr (List.map_filter (\<lambda>r. case r of Inl p \<Rightarrow> None | Inr u \<Rightarrow> Some u) xs)) = mset xs"
  by (induction xs) (auto simp: map_filter_simps split: sum.split)

text \<open>C10: An answer holds one shortest path per pair of tables, or says that there is none. Each pair of requested
  tables has a path in the answer or is listed as unreachable, not both, and nothing else is there; a path is a chain of foreign keys
  from the first table to the second, as they are or reversed, none of fewer keys connects the two, and it has at most as many as
  the bound; an unreachable pair has no chain within the bound. Every column shown is the placeholder or a column
  that is not blocked in its own table; the paths come by length.\<close>

theorem suggested_paths_shortest:
  assumes "suggest_joins ca src tables max_hops pii_block = Some (Inr r)" "list_all_foreign_keys (ca_store ca) src = Inr rows"
  shows "(\<exists>rs. list_all2 (pair_answered (ca_tags ca) src (effective_block pii_block) (fk_edges rows) max_hops) (pairs_of (first_seen tables)) rs \<and>
      mset (map Inl (su_paths r) @ map Inr (su_unreachable r)) = mset rs) \<and>
    (\<forall>p \<in> set (su_paths r). \<forall>e \<in> set (pa_edges p).
       masked_key (ca_tags ca) src (effective_block pii_block) (je_left e) (je_left_columns e) \<and>
       masked_key (ca_tags ca) src (effective_block pii_block) (je_right e) (je_right_columns e)) \<and>
    sorted (map pa_hops (su_paths r))"
proof -
  let ?b = "effective_block pii_block"
  have "request_ok ca src tables max_hops" using suggest_joins_returns [of ca src tables max_hops pii_block] assms(1) by auto
  from suggest_joins_runs [OF this assms(2), of pii_block] obtain rs where
    r: "r = \<lparr>su_paths = sort_key (\<lambda>p. (pa_hops p, pa_start p, pa_end p)) (List.map_filter (\<lambda>r. case r of Inl p \<Rightarrow> Some p | Inr u \<Rightarrow> None) rs),
      su_unreachable = sort (List.map_filter (\<lambda>r. case r of Inl p \<Rightarrow> None | Inr u \<Rightarrow> Some u) rs)\<rparr>" and
    rs: "list_all2 (pair_answered (ca_tags ca) src ?b (fk_edges rows) max_hops) (pairs_of (first_seen tables)) rs" using assms(1) by auto
  have parts: "mset (map Inl (su_paths r) @ map Inr (su_unreachable r)) = mset rs" unfolding r using mset_sides [of rs] by simp
  have masked: "masked_key (ca_tags ca) src ?b (je_left e) (je_left_columns e) \<and> masked_key (ca_tags ca) src ?b (je_right e) (je_right_columns e)"
    if p: "p \<in> set (su_paths r)" "e \<in> set (pa_edges p)" for p e
  proof -
    have "Inl p \<in> set rs" using p(1) unfolding r by (auto simp: List.map_filter_def split: sum.splits)
    then obtain ab where "pair_answered (ca_tags ca) src ?b (fk_edges rows) max_hops ab (Inl p)"
      using rs by (metis list_all2_conv_all_nth in_set_conv_nth)
    then obtain es where "pa_edges p = map (redact_edge (ca_tags ca) src ?b) es" by (cases ab) (auto simp: pair_answered_def)
    then show ?thesis using p(2) masked_redacted_edge by auto
  qed
  have "sorted (map pa_hops (su_paths r))"
  proof -
    have "sorted (map (\<lambda>p. (pa_hops p, pa_start p, pa_end p)) (su_paths r))" unfolding r by simp
    then show ?thesis unfolding sorted_map by (rule sorted_wrt_mono_rel [rotated]) (auto simp: less_eq_prod_def)
  qed
  then show ?thesis using rs parts masked by blast
qed

text \<open>Items of orders of users, with the e-mail of a user as part of a key.\<close>

definition key_table :: "string \<Rightarrow> string list \<Rightarrow> foreign_key list \<Rightarrow> store_op" where
  "key_table n cs ks = Write_Table ''s'' 1 \<lparr>tb_name = n, tb_schema_name = ''public'',
     tb_columns = map (\<lambda>(i, c). \<lparr>co_name = c, co_table_name = n, co_schema_name = ''public'', co_data_type = ''text'', co_nullable = False,
       co_ordinal_position = i, co_default = None, co_is_primary_key = False\<rparr>) (zip [1, 2, 3] cs), tb_foreign_keys = ks\<rparr> None"

definition shop_ops :: "store_op list" where
  "shop_ops = [key_table ''users'' [''id'', ''email''] [],
     key_table ''orders'' [''id'', ''user'', ''email''] [\<lparr>fk_name = ''placed'', fk_source_columns = [''user'', ''email''],
       fk_target_schema = ''public'', fk_target_table = ''users'', fk_target_columns = [''id'', ''email'']\<rparr>],
     key_table ''items'' [''order''] [\<lparr>fk_name = ''part'', fk_source_columns = [''order''],
       fk_target_schema = ''public'', fk_target_table = ''orders'', fk_target_columns = [''id'']\<rparr>],
     key_table ''logs'' [''line''] []]"

definition shop_cache :: "nat cache" where
  "shop_cache = \<lparr>ca_store = (case run_ops shop_ops empty_store of Inr db \<Rightarrow> db | Inl e \<Rightarrow> empty_store), ca_descriptions = [], ca_embeddings = [],
     ca_tags = write_column_pii_tags Map.empty 1 ''s'' ''public.users'' [''email'' \<mapsto> (Pii, {Contact})] (\<lambda>_. None)\<rparr>"

declare walk_back.simps [code]

lemma shop_answer:
  "case suggest_joins shop_cache ''s'' [''public.users'', ''public.logs'', ''public.items'', ''public.users''] 6 {Contact} of
     Some (Inr r) \<Rightarrow> map (\<lambda>p. (pa_start p, pa_end p, pa_hops p)) (su_paths r) = [(''public.users'', ''public.items'', 2)] \<and>
       map (map je_left_columns) (map pa_edges (su_paths r)) = [[[''id'', ''<redacted_column>''], [''id'']]] \<and>
       su_unreachable r = [(''public.items'', ''public.logs''), (''public.logs'', ''public.users'')]
   | _ \<Rightarrow> False"
  by code_simp

theorem suggested_paths_shortest_witness:
  "\<exists>r p. suggest_joins shop_cache ''s'' [''public.users'', ''public.logs'', ''public.items'', ''public.users''] 6 {Contact} = Some (Inr r) \<and>
     su_paths r = [p] \<and> pa_hops p = 2 \<and> sorted (map pa_hops (su_paths r))"
proof -
  obtain r where r: "suggest_joins shop_cache ''s'' [''public.users'', ''public.logs'', ''public.items'', ''public.users''] 6 {Contact} = Some (Inr r)"
    "map (\<lambda>p. (pa_start p, pa_end p, pa_hops p)) (su_paths r) = [(''public.users'', ''public.items'', 2)]"
    using shop_answer by (auto split: option.splits sum.splits)
  have "case list_all_foreign_keys (ca_store shop_cache) ''s'' of Inr rows \<Rightarrow> True | Inl e \<Rightarrow> False" by code_simp
  then obtain rows where "list_all_foreign_keys (ca_store shop_cache) ''s'' = Inr rows" by (auto split: sum.splits)
  from suggested_paths_shortest [OF r(1) this] show ?thesis using r by (cases "su_paths r") auto
qed

end
