(* ===== verification/ResolveJoin.thy ===== *)
theory ResolveJoin
  imports ToolEnvelope SuggestJoins
begin

section \<open>Joins of entities for an agent (mcp/resolve_join.py, mcp/list_*.py, joins/bridges.py)\<close>

text \<open>
  The tools that join entities: \<open>resolve_join\<close> picks the canonical join between two entities and renders it as SQL with
  blocked columns masked; \<open>list_entities\<close>, \<open>list_metrics\<close> and \<open>list_joins\<close> summarise the semantic layer, the
  last with the bridges that association tables imply; each with its handler of mcp/server.py, and the handler
  of \<open>suggest_joins\<close>. The locale \<open>join_lookup\<close> states what picking a join needs of the store.
\<close>

subsection \<open>Picking one join\<close>

datatype resolve_error =
    ResolveName name_error
  | ResolveRead store_error
  | ResolveEntity string
  | NoCanonicalJoin
  | AmbiguousName "string list"
  | NameMismatch string
  | UnknownName "string list"
  | BrokenReference string
  | EmptyAnswer

definition select_join :: "canonical_join list \<Rightarrow> string option \<Rightarrow> resolve_error + canonical_join" where
  "select_join ms name =
     (case ms of
        [] \<Rightarrow> Inl NoCanonicalJoin
      | [only] \<Rightarrow> if name = None \<or> name = Some (cj_name only) then Inr only else Inl (NameMismatch (cj_name only))
      | _ \<Rightarrow>
          (case name of
             None \<Rightarrow> Inl (AmbiguousName (map cj_name ms))
           | Some n \<Rightarrow> (case find (\<lambda>j. cj_name j = n) ms of None \<Rightarrow> Inl (UnknownName (map cj_name ms)) | Some j \<Rightarrow> Inr j)))"

record canonical_join_info =
  ji_name :: string
  ji_description :: string
  ji_source_entity :: string
  ji_target_entity :: string
  ji_on :: "join_column_pair list"
  ji_sql_skeleton :: string
  ji_inference_method :: inference_method
  ji_validation_state :: validation_state

definition safe_alias :: "string \<Rightarrow> string" where
  "safe_alias n = (if is_ident n then n else ''t'')"

definition join_predicate :: "string \<Rightarrow> string \<Rightarrow> join_column_pair \<Rightarrow> string" where
  "join_predicate s t p = quoted s @ ''.'' @ quoted (jp_source_column p) @ '' = '' @ quoted t @ ''.'' @ quoted (jp_target_column p)"

definition redacted_pairs :: "score tag_table \<Rightarrow> string \<Rightarrow> string set \<Rightarrow> entity \<Rightarrow> entity \<Rightarrow> canonical_join \<Rightarrow> join_column_pair list" where
  "redacted_pairs tags src block s t j =
     map (\<lambda>(a, b). \<lparr>jp_source_column = a, jp_target_column = b\<rparr>)
       (zip (redact_blocked_fk_columns tags src block (en_qualified_table s) (map jp_source_column (cj_on j)))
            (redact_blocked_fk_columns tags src block (en_qualified_table t) (map jp_target_column (cj_on j))))"

definition render_join_info :: "score tag_table \<Rightarrow> string \<Rightarrow> pii_category set \<Rightarrow> entity \<Rightarrow> entity \<Rightarrow> canonical_join \<Rightarrow> resolve_error + canonical_join_info" where
  "render_join_info tags src pii_block s t j =
     (let pairs = redacted_pairs tags src (effective_block pii_block) s t j;
          sa = safe_alias (en_name s); ta = safe_alias (en_name t);
          predicates = join_str '' AND '' (map (join_predicate sa ta) pairs)
      in case split1 CHR ''.'' (en_qualified_table t) of
           (schema, None) \<Rightarrow> Inl (ResolveRead (UnpackError (en_qualified_table t)))
         | (schema, Some tbl) \<Rightarrow>
             if pairs = [] then Inl EmptyAnswer
             else Inr \<lparr>ji_name = cj_name j, ji_description = cj_description j, ji_source_entity = cj_source_entity j,
               ji_target_entity = cj_target_entity j, ji_on = pairs,
               ji_sql_skeleton = ''JOIN '' @ quoted schema @ ''.'' @ quoted tbl @ '' AS '' @ quoted ta @ '' ON '' @ predicates,
               ji_inference_method = cj_inference_method j, ji_validation_state = cj_validation_state j\<rparr>)"

definition named :: "name_error + 'a \<Rightarrow> resolve_error + 'a" where
  "named r = (case r of Inl e \<Rightarrow> Inl (ResolveName e) | Inr x \<Rightarrow> Inr x)"

definition resolve_read :: "store_error + 'a \<Rightarrow> resolve_error + 'a" where
  "resolve_read r = (case r of Inl e \<Rightarrow> Inl (ResolveRead e) | Inr x \<Rightarrow> Inr x)"

definition known_entity :: "store \<Rightarrow> string \<Rightarrow> resolve_error \<Rightarrow> string \<Rightarrow> resolve_error + entity" where
  "known_entity db src e n =
     rbind (resolve_read (get_entity db src n)) (\<lambda>row. case row of None \<Rightarrow> Inl e | Some en \<Rightarrow> Inr en)"

definition resolve_join :: "'f cache \<Rightarrow> string \<Rightarrow> pii_category set \<Rightarrow> string \<Rightarrow> string \<Rightarrow> string option \<Rightarrow> resolve_error + canonical_join_info" where
  "resolve_join ca src pii_block a b name =
     (let db = ca_store ca in
      rbind (named (validate_ident a R_Entity_A)) (\<lambda>_.
      rbind (named (validate_ident b R_Entity_B)) (\<lambda>_.
      rbind (case name of None \<Rightarrow> Inr () | Some n \<Rightarrow> named (validate_ident n R_Name)) (\<lambda>_.
      rbind (known_entity db src (ResolveEntity a) a) (\<lambda>_.
      rbind (known_entity db src (ResolveEntity b) b) (\<lambda>_.
      rbind (resolve_read (resolve_canonical_joins db src a b)) (\<lambda>ms.
      rbind (select_join ms name) (\<lambda>j.
      rbind (known_entity db src (BrokenReference (cj_source_entity j)) (cj_source_entity j)) (\<lambda>s.
      rbind (known_entity db src (BrokenReference (cj_target_entity j)) (cj_target_entity j)) (\<lambda>t.
        render_join_info (ca_tags ca) src pii_block s t j))))))))))"

definition retry_args :: "string \<Rightarrow> string \<Rightarrow> string \<Rightarrow> (string \<times> hint_arg) list" where
  "retry_args a b n = [(''entity_a'', Arg_Text a), (''entity_b'', Arg_Text b), (''name'', Arg_Text n)]"

fun resolve_failure :: "string \<Rightarrow> string \<Rightarrow> resolve_error \<Rightarrow> envelope_error + 'd tool_response" where
  "resolve_failure a b (ResolveName e) = malformed_name_response ''list_entities''"
| "resolve_failure a b (ResolveRead e) = (if is_value_error e then malformed_name_response ''list_entities'' else wrap_internal_error)"
| "resolve_failure a b EmptyAnswer = malformed_name_response ''list_entities''"
| "resolve_failure a b (ResolveEntity n) = unknown_name_response ''list_entities'' None"
| "resolve_failure a b NoCanonicalJoin = error_response No_Canonical_Join (Some ''suggest_joins'') None"
| "resolve_failure a b (AmbiguousName ns) =
     (case ns of [] \<Rightarrow> Inl NoCandidate | n # _ \<Rightarrow> error_response Ambiguous_Join (Some ''resolve_join'') (Some (retry_args a b n)))"
| "resolve_failure a b (NameMismatch n) = error_response Join_Name_Mismatch (Some ''resolve_join'') (Some (retry_args a b n))"
| "resolve_failure a b (UnknownName ns) =
     (case ns of [] \<Rightarrow> Inl NoCandidate | n # _ \<Rightarrow> error_response Unknown_Join_Name (Some ''resolve_join'') (Some (retry_args a b n)))"
| "resolve_failure a b (BrokenReference n) = wrap_internal_error"

definition resolve_join_tool ::
  "'f cache \<Rightarrow> string \<Rightarrow> pii_category set \<Rightarrow> string \<Rightarrow> string \<Rightarrow> string option \<Rightarrow> envelope_error + canonical_join_info tool_response" where
  "resolve_join_tool ca src pii_block a b name =
     (case resolve_join ca src pii_block a b name of
        Inl e \<Rightarrow> resolve_failure a b e
      | Inr i \<Rightarrow> answer i (derive_confidence (ji_inference_method i) (ji_validation_state i))
          (provenance_from_signal (ji_inference_method i) (ji_validation_state i)) [''describe_entity''] None)"

text \<open>The handler of \<open>suggest_joins\<close>: malformed input is a \<^verbatim>\<open>ValueError\<close>, and so is the text of a bad hop count.\<close>

fun suggest_failure :: "suggest_error \<Rightarrow> envelope_error + 'd tool_response" where
  "suggest_failure (SuggestUnknown q) = unknown_name_response ''find_relevant_tables'' None"
| "suggest_failure (SuggestRead e) = (if is_value_error e then malformed_name_response ''find_relevant_tables'' else wrap_internal_error)"
| "suggest_failure (NoParent c) = wrap_internal_error"
| "suggest_failure e = malformed_name_response ''find_relevant_tables''"

definition suggest_joins_tool ::
  "'f cache \<Rightarrow> string \<Rightarrow> pii_category set \<Rightarrow> string list \<Rightarrow> int \<Rightarrow> (envelope_error, suggest_result tool_response) run" where
  "suggest_joins_tool ca src pii_block tables max_hops =
     map_option (\<lambda>r. case r of Inl e \<Rightarrow> suggest_failure e
       | Inr x \<Rightarrow> answer x Conf_High (provenance_from_signal Fk_Constraint Applied) [''describe_table''] None)
       (suggest_joins ca src tables max_hops pii_block)"

subsection \<open>Bridges over association tables\<close>

record bridge_join =
  br_name :: string
  br_source_entity :: string
  br_target_entity :: string
  br_via_junction :: string
  br_via_joins :: "string \<times> string"
  br_inference_method :: inference_method
  br_validation_state :: validation_state

fun method_rank :: "inference_method \<Rightarrow> nat" where
  "method_rank Fk_Constraint = 0"
| "method_rank Inferred_Dbt = 1"
| "method_rank Manually_Authored = 2"
| "method_rank Observed_In_Query_Log = 3"
| "method_rank Llm_Suggested = 4"

fun validation_rank :: "validation_state \<Rightarrow> nat" where
  "validation_rank Confirmed = 0"
| "validation_rank Applied = 1"
| "validation_rank Draft = 2"

definition worst_inference :: "inference_method \<Rightarrow> inference_method \<Rightarrow> inference_method" where
  "worst_inference a b = (if method_rank a \<ge> method_rank b then a else b)"

definition worst_validation :: "validation_state \<Rightarrow> validation_state \<Rightarrow> validation_state" where
  "worst_validation a b = (if validation_rank a \<ge> validation_rank b then a else b)"

definition legs_touching :: "string \<Rightarrow> canonical_join list \<Rightarrow> (canonical_join \<times> string) list" where
  "legs_touching junction js =
     sort_key (\<lambda>(j, other). (other, cj_name j))
       (List.map_filter (\<lambda>j. if cj_source_entity j = junction then Some (j, cj_target_entity j)
          else if cj_target_entity j = junction then Some (j, cj_source_entity j) else None) js)"

text \<open>One pair of legs, with the names seen so far.\<close>

definition add_bridge ::
  "string \<Rightarrow> (canonical_join \<times> string) \<times> (canonical_join \<times> string) \<Rightarrow> string set \<times> bridge_join list \<Rightarrow> string set \<times> bridge_join list" where
  "add_bridge junction = (\<lambda>((la, ea), (lb, eb)) (seen, bs).
     if ea = eb then (seen, bs)
     else (let lo = min ea eb; hi = max ea eb;
               leg_lo = (if lo = ea then la else lb); leg_hi = (if lo = ea then lb else la);
               name = lo @ ''_'' @ hi @ ''_via_'' @ junction
           in if name \<in> seen then (seen, bs)
              else (insert name seen, bs @ [\<lparr>br_name = name, br_source_entity = lo, br_target_entity = hi, br_via_junction = junction,
                 br_via_joins = (cj_name leg_lo, cj_name leg_hi),
                 br_inference_method = worst_inference (cj_inference_method leg_lo) (cj_inference_method leg_hi),
                 br_validation_state = worst_validation (cj_validation_state leg_lo) (cj_validation_state leg_hi)\<rparr>])))"

definition is_junction_entity :: "store \<Rightarrow> string \<Rightarrow> entity \<Rightarrow> store_error + bool" where
  "is_junction_entity db src e =
     (case split1 CHR ''.'' (en_qualified_table e) of
        (s, None) \<Rightarrow> Inl (UnpackError (en_qualified_table e))
      | (s, Some t) \<Rightarrow> rbind (get_table db src s t) (\<lambda>row. Inr (case row of None \<Rightarrow> False | Some tb \<Rightarrow> is_junction_table tb)))"

definition find_junction_entities :: "store \<Rightarrow> string \<Rightarrow> store_error + entity list" where
  "find_junction_entities db src =
     rbind (list_entities db (Some src)) (\<lambda>es.
     rbind (rtraverse (is_junction_entity db src) es) (\<lambda>bs. Inr (map fst (filter snd (zip es bs)))))"

definition bridges_over :: "canonical_join list \<Rightarrow> string list \<Rightarrow> bridge_join list" where
  "bridges_over js junctions =
     snd (fold (\<lambda>n. fold (add_bridge n) (pairs_of (legs_touching n js))) junctions ({}, []))"

definition synthesize_bridges :: "store \<Rightarrow> string \<Rightarrow> store_error + bridge_join list" where
  "synthesize_bridges db src =
     rbind (find_junction_entities db src) (\<lambda>junctions.
       if junctions = [] then Inr []
       else rbind (list_canonical_joins db (Some src)) (\<lambda>js. Inr (sort_key br_name (bridges_over js (map en_name junctions)))))"

definition synthesize_bridges_for_entity :: "store \<Rightarrow> string \<Rightarrow> string \<Rightarrow> store_error + bridge_join list" where
  "synthesize_bridges_for_entity db src n =
     rbind (synthesize_bridges db src) (\<lambda>bs. Inr (filter (\<lambda>b. n = br_source_entity b \<or> n = br_target_entity b) bs))"

text \<open>The column pairs of a leg, read from one entity to the other.\<close>

definition orient_pairs :: "string \<Rightarrow> string \<Rightarrow> canonical_join \<Rightarrow> string + join_column_pair list" where
  "orient_pairs a b j =
     (if cj_source_entity j = a \<and> cj_target_entity j = b then Inr (cj_on j)
      else if cj_source_entity j = b \<and> cj_target_entity j = a then Inr (map swap_pair (cj_on j))
      else Inl (cj_name j))"

definition composed_on_pairs :: "bridge_join \<Rightarrow> canonical_join \<Rightarrow> canonical_join \<Rightarrow> string + join_column_pair list \<times> join_column_pair list" where
  "composed_on_pairs b lo hi =
     rbind (orient_pairs (br_source_entity b) (br_via_junction b) lo) (\<lambda>x.
     rbind (orient_pairs (br_via_junction b) (br_target_entity b) hi) (\<lambda>y. Inr (x, y)))"

subsection \<open>The list tools\<close>

record entity_summary =
  sy_name :: string
  sy_description :: string
  sy_qualified_table :: string
  sy_identity :: string
  sy_origin :: origin
  sy_signal :: "inference_method \<times> validation_state"

record metric_summary =
  sm_name :: string
  sm_description :: string
  sm_entity :: string
  sm_aggregation :: agg_function
  sm_measure_column :: "string option"
  sm_measure_expression :: "string option"
  sm_time_dimension :: "string option"
  sm_time_grains :: "time_grain list"
  sm_origin :: origin
  sm_signal :: "inference_method \<times> validation_state"

record join_summary =
  sj_name :: string
  sj_source_entity :: string
  sj_target_entity :: string
  sj_origin :: origin
  sj_signal :: "inference_method \<times> validation_state"
  sj_via_junction :: "string option"
  sj_via_joins :: "string list"

definition summarize_entity :: "entity \<Rightarrow> entity_summary" where
  "summarize_entity e = \<lparr>sy_name = en_name e, sy_description = en_description e, sy_qualified_table = en_qualified_table e,
     sy_identity = en_identity e, sy_origin = en_origin e, sy_signal = (en_inference_method e, en_validation_state e)\<rparr>"

definition summarize_metric :: "metric \<Rightarrow> metric_summary" where
  "summarize_metric m = \<lparr>sm_name = mt_name m, sm_description = mt_description m, sm_entity = mt_entity m,
     sm_aggregation = mm_agg (mt_measure m), sm_measure_column = mm_column (mt_measure m), sm_measure_expression = mm_expression (mt_measure m),
     sm_time_dimension = mt_time_dimension m, sm_time_grains = mt_time_grains m, sm_origin = mt_origin m,
     sm_signal = (mt_inference_method m, mt_validation_state m)\<rparr>"

definition summarize_join :: "canonical_join \<Rightarrow> join_summary" where
  "summarize_join j = \<lparr>sj_name = cj_name j, sj_source_entity = cj_source_entity j, sj_target_entity = cj_target_entity j,
     sj_origin = cj_origin j, sj_signal = (cj_inference_method j, cj_validation_state j), sj_via_junction = None, sj_via_joins = []\<rparr>"

definition summarize_bridge :: "bridge_join \<Rightarrow> join_summary" where
  "summarize_bridge b = \<lparr>sj_name = br_name b, sj_source_entity = br_source_entity b, sj_target_entity = br_target_entity b,
     sj_origin = Suggested, sj_signal = (br_inference_method b, br_validation_state b), sj_via_junction = Some (br_via_junction b),
     sj_via_joins = [fst (br_via_joins b), snd (br_via_joins b)]\<rparr>"

definition list_joins_impl :: "store \<Rightarrow> string \<Rightarrow> store_error + join_summary list" where
  "list_joins_impl db src =
     rbind (list_canonical_joins db (Some src)) (\<lambda>js.
     rbind (synthesize_bridges db src) (\<lambda>bs. Inr (sort_key sj_name (map summarize_join js @ map summarize_bridge bs))))"

text \<open>The first item of the lowest confidence.\<close>

fun aggregate_from :: "(inference_method \<times> validation_state) option \<Rightarrow> (inference_method \<times> validation_state) list \<Rightarrow> inference_method \<times> validation_state" where
  "aggregate_from worst [] = (case worst of None \<Rightarrow> (Manually_Authored, Applied) | Some s \<Rightarrow> s)"
| "aggregate_from worst (s # ss) =
     aggregate_from (case worst of None \<Rightarrow> Some s
       | Some w \<Rightarrow> if derive_confidence (fst s) (snd s) < derive_confidence (fst w) (snd w) then Some s else worst) ss"

definition aggregate_signal :: "(inference_method \<times> validation_state) list \<Rightarrow> inference_method \<times> validation_state" where
  "aggregate_signal ss = aggregate_from None ss"

definition list_answer ::
  "('s \<Rightarrow> inference_method \<times> validation_state) \<Rightarrow> string list \<Rightarrow> string list \<Rightarrow> store_error + 's list \<Rightarrow> envelope_error + 's list tool_response" where
  "list_answer sig bare hints r =
     (case r of
        Inl e \<Rightarrow> wrap_internal_error
      | Inr [] \<Rightarrow> check_response \<lparr>tr_status = Empty, tr_data = Some [], tr_error = None, tr_confidence = None, tr_provenance = None,
           tr_follow_up_hints = Some bare, tr_degradation_reason = None\<rparr>
      | Inr ss \<Rightarrow> (let (im, vs) = aggregate_signal (map sig ss) in answer ss (derive_confidence im vs) (provenance_from_signal im vs) hints None))"

definition list_entities_tool :: "store \<Rightarrow> string \<Rightarrow> envelope_error + entity_summary list tool_response" where
  "list_entities_tool db src = list_answer sy_signal [''find_relevant_tables''] [''describe_entity'']
     (rbind (list_entities db (Some src)) (\<lambda>es. Inr (map summarize_entity es)))"

definition list_metrics_tool :: "(string \<Rightarrow> string + py_expr) \<Rightarrow> store \<Rightarrow> string \<Rightarrow> envelope_error + metric_summary list tool_response" where
  "list_metrics_tool ast_parse db src = list_answer sm_signal [''list_entities''] [''get_metric'', ''describe_entity'']
     (rbind (list_metrics ast_parse db (Some src)) (\<lambda>ms. Inr (map summarize_metric ms)))"

definition list_joins_tool :: "store \<Rightarrow> string \<Rightarrow> envelope_error + join_summary list tool_response" where
  "list_joins_tool db src = list_answer sj_signal [''find_relevant_tables''] [''resolve_join''] (list_joins_impl db src)"

subsection \<open>What picking a join needs\<close>

locale join_lookup =
  fixes good :: "'i \<Rightarrow> bool" and joins :: "'i \<Rightarrow> string \<Rightarrow> string \<Rightarrow> store_error + canonical_join list"
  assumes lookup_total: "good i \<Longrightarrow> \<exists>ms. joins i a b = Inr ms"
    and lookup_names: "good i \<Longrightarrow> joins i a b = Inr ms \<Longrightarrow> distinct (map cj_name ms)"
    and lookup_ends: "good i \<Longrightarrow> joins i a b = Inr ms \<Longrightarrow> j \<in> set ms \<Longrightarrow> join_ok j \<and> {cj_source_entity j, cj_target_entity j} = {a, b}"
    and lookup_direction: "good i \<Longrightarrow> joins i a b = joins i b a"
begin

lemma pick_member:
  assumes "good i" "joins i a b = Inr ms" "select_join ms name = Inr j"
  shows "j \<in> set ms \<and> join_ok j \<and> {cj_source_entity j, cj_target_entity j} = {a, b} \<and> (\<forall>n. name = Some n \<longrightarrow> cj_name j = n)"
proof -
  have "j \<in> set ms \<and> (\<forall>n. name = Some n \<longrightarrow> cj_name j = n)" using assms(3)
    by (auto simp: select_join_def find_Some_iff split: list.splits option.splits if_splits)
  then show ?thesis using lookup_ends [OF assms(1,2)] by blast
qed

lemma pick_named:
  assumes "good i" "joins i a b = Inr ms" "j \<in> set ms"
  shows "select_join ms (Some (cj_name j)) = Inr j"
proof -
  have "keyed cj_name ms" using lookup_names [OF assms(1,2)] by (simp add: keyed_def)
  then have f: "find (\<lambda>k. cj_name k = cj_name j) ms = Some j" using find_row_Some [of cj_name ms "cj_name j" j] assms(3) unfolding find_row_def by simp
  obtain x xs where ms: "ms = x # xs" using assms(3) by (cases ms) auto
  show ?thesis
  proof (cases xs)
    case Nil
    then show ?thesis using assms(3) ms by (simp add: select_join_def)
  next
    case (Cons y ys)
    then show ?thesis using f unfolding ms select_join_def by simp
  qed
qed

text \<open>A name that an error offers is one of a join that is there.\<close>

definition offered :: "resolve_error \<Rightarrow> string \<Rightarrow> bool" where
  "offered e n \<longleftrightarrow> e = NameMismatch n \<or> (\<exists>ns. e = AmbiguousName (n # ns) \<or> e = UnknownName (n # ns))"

lemma pick_hint:
  assumes "good i" "joins i a b = Inr ms" "select_join ms name = Inl e" "offered e n"
  shows "\<exists>j \<in> set ms. cj_name j = n \<and> select_join ms (Some n) = Inr j"
proof -
  have "n \<in> cj_name ` set ms" using assms(3,4)
    by (auto simp: select_join_def offered_def split: list.splits option.splits if_splits)
  then show ?thesis using pick_named [OF assms(1,2)] by auto
qed

end

lemma sort_unique:
  assumes "mset xs = mset ys" "distinct (map f xs)"
  shows "sort_key f xs = sort_key f ys"
proof (rule sort_key_inj_key_eq)
  show "mset xs = mset (sort_key f ys)" using assms(1) by simp
  show "inj_on f (set xs)" using assms(2) by (simp add: distinct_map)
qed simp

lemma store_is_lookup: "join_lookup (store_ok ast_parse) (\<lambda>db. resolve_canonical_joins db src)"
proof
  fix db a b assume ok: "store_ok ast_parse db"
  have rows: "\<exists>j. row_to_canonical_join r = Inr j" if "r \<in> set (st_joins db)" for r
    using ok that by (auto simp: store_ok_def rows_ok_def)
  have name: "cj_name j = jr_name r" if "row_to_canonical_join r = Inr j" for r j
    using that by (auto simp: row_to_canonical_join_def check_canonical_join_def result_simps split: if_splits sum.splits)
  have ends: "cj_source_entity j = jr_source_entity r \<and> cj_target_entity j = jr_target_entity r \<and> join_ok j"
    if "row_to_canonical_join r = Inr j" for r j using row_to_join_Inr [OF that] by simp
  let ?rows = "\<lambda>a b. joins_from_to db src a b @ joins_from_to db src b a"
  have sub: "set (?rows a b) \<subseteq> set (st_joins db)" for a b by (auto simp: joins_from_to_def)
  show total: "\<exists>ms. resolve_canonical_joins db src a b = Inr ms"
    unfolding resolve_canonical_joins_def by (rule rtraverse_total) (use rows sub [of a b] in auto)
  have neq: "joins_from_to db src a a = []" for a
    using rows ends by (fastforce simp: joins_from_to_def filter_empty_conv join_ok_def)
  have distinct_rows: "distinct (map jr_name (?rows a b))" for a b
  proof (cases "a = b")
    case True
    then show ?thesis using neq by simp
  next
    case False
    have "distinct (map join_key (st_joins db))" using ok by (simp add: store_ok_def keys_ok_def keyed_def)
    then have k: "distinct (map join_key (filter P (st_joins db)))" for P by (rule distinct_map_filter)
    have u: "distinct (map jr_name (joins_from_to db src x y))" for x y
    proof -
      have "map join_key (joins_from_to db src x y) = map (Pair src) (map jr_name (joins_from_to db src x y))"
        by (auto simp: joins_from_to_def join_key_def)
      moreover have "distinct (map join_key (joins_from_to db src x y))" unfolding joins_from_to_def by (rule k)
      ultimately have "distinct (map (Pair src) (map jr_name (joins_from_to db src x y)))" by (simp only:)
      then show ?thesis unfolding distinct_map [of "Pair src"] by (rule conjunct1)
    qed
    have "inj_on join_key (set (st_joins db))" using \<open>distinct (map join_key (st_joins db))\<close> by (simp add: distinct_map)
    have "jr_name r \<noteq> jr_name r'" if rr: "r \<in> set (joins_from_to db src a b)" "r' \<in> set (joins_from_to db src b a)" for r r'
    proof
      assume n: "jr_name r = jr_name r'"
      have r: "r \<in> set (st_joins db)" "r' \<in> set (st_joins db)" "jr_source r = src" "jr_source r' = src"
        "jr_source_entity r = a" "jr_source_entity r' = b" using rr by (simp_all add: joins_from_to_def)
      then have "r = r'" using inj_onD [OF \<open>inj_on join_key (set (st_joins db))\<close>, of r r'] n by (simp add: join_key_def)
      then show False using r(5,6) False by simp
    qed
    then have "jr_name ` set (joins_from_to db src a b) \<inter> jr_name ` set (joins_from_to db src b a) = {}" by blast
    then show ?thesis using u [of a b] u [of b a] by simp
  qed
  show "resolve_canonical_joins db src a b = resolve_canonical_joins db src b a"
    unfolding resolve_canonical_joins_def using sort_unique [OF _ distinct_rows [of a b], of "?rows b a"] by simp
  fix ms assume ms: "resolve_canonical_joins db src a b = Inr ms"
  have read: "rtraverse row_to_canonical_join (sort_key jr_name (?rows a b)) = Inr ms" using ms unfolding resolve_canonical_joins_def .
  have "map cj_name ms = map jr_name (sort_key jr_name (?rows a b))"
    using read unfolding rtraverse_Inr_iff by (induction rule: list_all2_induct) (simp_all add: name)
  moreover have "distinct (map jr_name (sort_key jr_name (?rows a b)))"
  proof -
    have "mset (map jr_name (sort_key jr_name (?rows a b))) = mset (map jr_name (?rows a b))" by (simp only: mset_map mset_sort)
    then show ?thesis using distinct_rows [of a b] mset_eq_imp_distinct_iff by blast
  qed
  ultimately show "distinct (map cj_name ms)" by simp
  fix j assume j: "j \<in> set ms"
  obtain r where r: "r \<in> set (sort_key jr_name (?rows a b))" "row_to_canonical_join r = Inr j" using rtraverse_Inr_set [OF read j] by blast
  then have "{jr_source_entity r, jr_target_entity r} = {a, b}" by (auto simp: joins_from_to_def)
  then show "join_ok j \<and> {cj_source_entity j, cj_target_entity j} = {a, b}" using ends [OF r(2)] by simp
qed

interpretation sqlite_joins: join_lookup "store_ok ast_parse" "\<lambda>db. resolve_canonical_joins db src" for ast_parse src
  by (rule store_is_lookup)

subsection \<open>Resolving on a reachable store\<close>

lemma reads_Inr [simp]: "named r = Inr x \<longleftrightarrow> r = Inr x" "resolve_read q = Inr y \<longleftrightarrow> q = Inr y"
  by (simp_all add: named_def resolve_read_def split: sum.splits)

lemma known_entity_Inr: "known_entity db src e n = Inr en \<longleftrightarrow> get_entity db src n = Inr (Some en)"
  by (auto simp: known_entity_def result_simps split: option.splits)

text \<open>What a successful call went through.\<close>

lemma resolve_joinE:
  assumes "resolve_join ca src pii_block a b name = Inr i"
  obtains ea eb ms j s t where "validate_ident a R_Entity_A = Inr ()" "validate_ident b R_Entity_B = Inr ()"
    "get_entity (ca_store ca) src a = Inr (Some ea)" "get_entity (ca_store ca) src b = Inr (Some eb)"
    "resolve_canonical_joins (ca_store ca) src a b = Inr ms" "select_join ms name = Inr j"
    "get_entity (ca_store ca) src (cj_source_entity j) = Inr (Some s)" "get_entity (ca_store ca) src (cj_target_entity j) = Inr (Some t)"
    "render_join_info (ca_tags ca) src pii_block s t j = Inr i"
  using assms unfolding resolve_join_def Let_def rbind_Inr_iff reads_Inr known_entity_Inr by (elim exE conjE) (rule that, auto)

lemma redacted_pairs_map:
  "redacted_pairs tags src block s t j = map (\<lambda>p.
     \<lparr>jp_source_column = (if is_blocked tags src block (en_qualified_table s) (jp_source_column p) then FK_REDACTED_PLACEHOLDER else jp_source_column p),
      jp_target_column = (if is_blocked tags src block (en_qualified_table t) (jp_target_column p) then FK_REDACTED_PLACEHOLDER else jp_target_column p)\<rparr>) (cj_on j)"
  by (simp add: redacted_pairs_def redact_fk_stored map2_map_map)

lemma entity_split: "entity_ok e \<Longrightarrow> \<exists>s t. split1 CHR ''.'' (en_qualified_table e) = (s, Some t) \<and> is_ident s \<and> is_ident t"
  using split1_append [OF is_ident_no_dot] by (fastforce simp: entity_ok_def match_qualified_iff)

definition info_of :: "canonical_join \<Rightarrow> canonical_join_info \<Rightarrow> bool" where
  "info_of j i \<longleftrightarrow> ji_name i = cj_name j \<and> ji_inference_method i = cj_inference_method j \<and> ji_validation_state i = cj_validation_state j"

lemma render_offer_total:
  assumes "join_ok j" "entity_ok t"
  shows "\<exists>i. render_join_info tags src pii_block s t j = Inr i \<and> info_of j i"
proof -
  obtain sc tb where "split1 CHR ''.'' (en_qualified_table t) = (sc, Some tb)" using entity_split [OF assms(2)] by blast
  moreover have "redacted_pairs tags src (effective_block pii_block) s t j \<noteq> []" using assms(1) by (simp add: redacted_pairs_map join_ok_def)
  ultimately show ?thesis by (simp add: render_join_info_def Let_def info_of_def)
qed

lemma resolve_join_finds:
  assumes ok: "store_ok ast_parse (ca_store ca)" and ab: "validate_ident a R_Entity_A = Inr ()" "validate_ident b R_Entity_B = Inr ()"
    and n: "\<And>n. name = Some n \<Longrightarrow> validate_ident n R_Name = Inr ()"
    and en: "get_entity (ca_store ca) src a = Inr (Some ea)" "get_entity (ca_store ca) src b = Inr (Some eb)"
    and ms: "resolve_canonical_joins (ca_store ca) src a b = Inr ms" "select_join ms name = Inr j"
  shows "\<exists>i. resolve_join ca src pii_block a b name = Inr i \<and> info_of j i"
proof -
  note j = sqlite_joins.pick_member [OF ok ms]
  have "\<exists>s. get_entity (ca_store ca) src x = Inr (Some s)" if "x \<in> {cj_source_entity j, cj_target_entity j}" for x
  proof -
    have "{cj_source_entity j, cj_target_entity j} = {a, b}" using j by (elim conjE)
    then have "x = a \<or> x = b" using that by blast
    then show ?thesis using en by auto
  qed
  then obtain s t where st: "get_entity (ca_store ca) src (cj_source_entity j) = Inr (Some s)" "get_entity (ca_store ca) src (cj_target_entity j) = Inr (Some t)"
    by blast
  have "entity_ok t" using sqlite.entity_valid [OF ok, of src "cj_target_entity j" t] st(2) by simp
  then obtain i where i: "render_join_info (ca_tags ca) src pii_block s t j = Inr i" "info_of j i"
    using render_offer_total [OF conjunct1 [OF conjunct2 [OF j]], of t "ca_tags ca" src pii_block s] by blast
  have "(case name of None \<Rightarrow> Inr () | Some n \<Rightarrow> named (validate_ident n R_Name)) = Inr ()"
    using n by (cases name) (simp_all add: named_def)
  then have "resolve_join ca src pii_block a b name = render_join_info (ca_tags ca) src pii_block s t j"
    using ab en ms st by (simp add: resolve_join_def Let_def named_def resolve_read_def known_entity_def)
  then show ?thesis using i by simp
qed

text \<open>A call whose entities are known ends in what picking the join ends in.\<close>

lemma resolve_join_offered:
  assumes "resolve_join ca src pii_block a b name = Inl e" "sqlite_joins.offered e n"
  obtains ea eb ms where "validate_ident a R_Entity_A = Inr ()" "validate_ident b R_Entity_B = Inr ()"
    "get_entity (ca_store ca) src a = Inr (Some ea)" "get_entity (ca_store ca) src b = Inr (Some eb)"
    "resolve_canonical_joins (ca_store ca) src a b = Inr ms" "select_join ms name = Inl e"
proof -
  have no: "named r \<noteq> Inl e" "resolve_read q \<noteq> Inl e" for r :: "name_error + 'b" and q :: "store_error + 'c"
    using assms(2) by (auto simp: named_def resolve_read_def sqlite_joins.offered_def split: sum.splits)
  have ent: "known_entity db src x m \<noteq> Inl e" if "x = ResolveEntity m \<or> x = BrokenReference m" for db x m
    using that assms(2) by (auto simp: known_entity_def resolve_read_def sqlite_joins.offered_def result_simps split: sum.splits option.splits)
  have ren: "render_join_info tags src pii_block s t j \<noteq> Inl e" for tags s t j
    using assms(2) by (auto simp: render_join_info_def Let_def sqlite_joins.offered_def split: prod.splits option.splits if_splits)
  show thesis
    using assms(1) that unfolding resolve_join_def Let_def rbind_Inl_iff
    by (auto simp: no ent ren known_entity_Inr split: option.splits)
qed

lemma valid_name: "is_ident n \<Longrightarrow> length n \<le> MAX_IDENT_LEN \<Longrightarrow> validate_ident n role = Inr ()"
  using is_ident_bytes(1) [of n] is_ident_nonempty [of n] by (simp add: validate_ident_def ident_regex_def)

lemma long_name:
  "is_ident n \<Longrightarrow> \<not> length n \<le> MAX_IDENT_LEN \<Longrightarrow> validate_ident n role = Inl (PartTooLong role (length n) (bounded_echo n))"
  using is_ident_bytes(1) [of n] is_ident_nonempty [of n] by (simp add: validate_ident_def)

text \<open>Three well-formed names one of which is longer than the tool accepts.\<close>

lemma resolve_join_long:
  assumes "is_ident a" "is_ident b" "is_ident n" "\<not> list_all (\<lambda>n. length n \<le> MAX_IDENT_LEN) [a, b, n]"
  shows "\<exists>e. resolve_join ca src pii_block a b (Some n) = Inl (ResolveName e)"
proof (cases "length a \<le> MAX_IDENT_LEN")
  case a: True
  show ?thesis
  proof (cases "length b \<le> MAX_IDENT_LEN")
    case b: True
    then have "\<not> length n \<le> MAX_IDENT_LEN" using a assms(4) by simp
    then show ?thesis using valid_name [OF assms(1) a] valid_name [OF assms(2) b] long_name [OF assms(3)]
      by (simp add: resolve_join_def Let_def named_def)
  next
    case False
    then show ?thesis using valid_name [OF assms(1) a] long_name [OF assms(2)] by (simp add: resolve_join_def Let_def named_def)
  qed
next
  case False
  then show ?thesis using long_name [OF assms(1)] by (simp add: resolve_join_def Let_def named_def)
qed

text \<open>C12: An agent that follows the hint gets its join when the name can be sent at all. Whenever the tool refuses for the name,
  because several joins connect the entities and none was named or the named one is not among them, its error suggests to call the
  same tool again with the name of a stored join between the two; that call succeeds and returns the join of that name when the name
  has at most 63 characters, and answers a malformed-name error when it is longer.\<close>

theorem resolve_hint_resolves:
  assumes "store_ok ast_parse (ca_store ca)" "resolve_join_tool ca src pii_block a b name = Inr r" "tr_error r = Some e"
    "te_kind e \<in> {Ambiguous_Join, Join_Name_Mismatch, Unknown_Join_Name}"
  shows "\<exists>n ms r'. te_recovery e = suggest (Some ''resolve_join'') (Some (retry_args a b n)) \<and>
    resolve_canonical_joins (ca_store ca) src a b = Inr ms \<and> n \<in> cj_name ` set ms \<and>
    resolve_join_tool ca src pii_block a b (Some n) = Inr r' \<and>
    (if length n \<le> MAX_IDENT_LEN then tr_status r' = Success \<and> (\<exists>i. tr_data r' = Some i \<and> ji_name i = n)
     else tr_status r' = Error \<and> (\<exists>e'. tr_error r' = Some e' \<and> te_kind e' = Malformed_Name))"
proof (cases "resolve_join ca src pii_block a b name")
  case (Inr i)
  then show ?thesis using assms(2,3) by (auto simp: resolve_join_tool_def answer_Inr)
next
  case (Inl x)
  have fail: "resolve_failure a b x = Inr r" using assms(2) Inl by (simp add: resolve_join_tool_def)
  have "\<exists>n. sqlite_joins.offered x n \<and> te_recovery e = suggest (Some ''resolve_join'') (Some (retry_args a b n))"
    using fail assms(3,4)
    by (cases x) (auto simp: sqlite_joins.offered_def error_response_Inr REFUSAL_KINDS_def malformed_name_response_def unknown_name_response_def
      wrap_internal_error_def split: if_splits list.splits)
  then obtain n where n: "sqlite_joins.offered x n" "te_recovery e = suggest (Some ''resolve_join'') (Some (retry_args a b n))" by blast
  obtain ea eb ms where c: "validate_ident a R_Entity_A = Inr ()" "validate_ident b R_Entity_B = Inr ()"
    "get_entity (ca_store ca) src a = Inr (Some ea)" "get_entity (ca_store ca) src b = Inr (Some eb)"
    "resolve_canonical_joins (ca_store ca) src a b = Inr ms" "select_join ms name = Inl x" by (rule resolve_join_offered [OF Inl n(1)])
  obtain j where j: "j \<in> set ms" "cj_name j = n" "select_join ms (Some n) = Inr j"
    using sqlite_joins.pick_hint [OF assms(1) c(5,6) n(1)] by blast
  have id: "is_ident n" using sqlite_joins.lookup_ends [OF assms(1) c(5) j(1)] j(2) by (simp add: join_ok_def)
  have "\<exists>r'. resolve_join_tool ca src pii_block a b (Some n) = Inr r' \<and>
    (if length n \<le> MAX_IDENT_LEN then tr_status r' = Success \<and> (\<exists>i. tr_data r' = Some i \<and> ji_name i = n)
     else tr_status r' = Error \<and> (\<exists>e'. tr_error r' = Some e' \<and> te_kind e' = Malformed_Name))"
  proof (cases "length n \<le> MAX_IDENT_LEN")
    case True
    have v: "validate_ident m R_Name = Inr ()" if "Some n = Some m" for m using valid_name [OF id True] that by simp
    obtain i where "resolve_join ca src pii_block a b (Some n) = Inr i" "ji_name i = n"
      using resolve_join_finds [OF assms(1) c(1,2) v c(3,4,5) j(3)] j(2) unfolding info_of_def by blast
    then show ?thesis using True by (simp add: resolve_join_tool_def answer_Inr)
  next
    case False
    obtain x where "resolve_join ca src pii_block a b (Some n) = Inl (ResolveName x)"
      using c(1,2) long_name [OF id False, of R_Name] by (simp add: resolve_join_def Let_def named_def)
    then have "resolve_join_tool ca src pii_block a b (Some n) = malformed_name_response ''list_entities''" by (simp add: resolve_join_tool_def)
    then show ?thesis using False by (simp add: malformed_name_response_def error_response_Inr REFUSAL_KINDS_def)
  qed
  then show ?thesis using n(2) c(5) j(1,2) by blast
qed

subsection \<open>What the SQL names\<close>

text \<open>The parts of a text between double quotes, in order.\<close>

fun every_other :: "'a list \<Rightarrow> 'a list" where
  "every_other (x # y # zs) = y # every_other zs"
| "every_other xs = []"

definition quoted_names :: "string \<Rightarrow> string list" where
  "quoted_names s = every_other (split_on dquote s)"

lemma quoted_names_step: "dquote \<notin> set a \<Longrightarrow> dquote \<notin> set n \<Longrightarrow> quoted_names (a @ quoted n @ s) = n # quoted_names s"
  unfolding quoted_names_def quoted_def by (simp add: split_on_append)

lemma quoted_names_end: "dquote \<notin> set s \<Longrightarrow> quoted_names s = []"
  by (simp add: quoted_names_def split_on_single)

definition plain :: "string \<Rightarrow> bool" where
  "plain n \<longleftrightarrow> dquote \<notin> set n"

definition pair_names :: "string \<Rightarrow> string \<Rightarrow> join_column_pair \<Rightarrow> string list" where
  "pair_names s t p = [s, jp_source_column p, t, jp_target_column p]"

lemma quoted_predicate:
  assumes "plain s" "plain t" "plain (jp_source_column p)" "plain (jp_target_column p)" "dquote \<notin> set a"
  shows "quoted_names (a @ join_predicate s t p @ r) = pair_names s t p @ quoted_names r"
  using assms quoted_names_step [of a s] quoted_names_step [of "''.''"] quoted_names_step [of "'' = ''"]
  by (simp add: join_predicate_def pair_names_def plain_def dquote_def)

lemma quoted_predicates:
  assumes "plain s" "plain t" "list_all (\<lambda>p. plain (jp_source_column p) \<and> plain (jp_target_column p)) ps" "dquote \<notin> set a"
  shows "quoted_names (a @ join_str '' AND '' (map (join_predicate s t) ps)) = concat (map (pair_names s t) ps)"
  using assms(3,4)
proof (induction ps arbitrary: a rule: induct_list012)
  case 1
  then show ?case by (simp add: quoted_names_end)
next
  case (2 p)
  then show ?case using quoted_predicate [OF assms(1,2), of p a "[]"] by (simp add: quoted_names_end)
next
  case (3 p q ps)
  have "dquote \<notin> set '' AND ''" by (simp add: dquote_def)
  from "3.IH"(2) [OF _ this] "3.prems"(1)
  have "quoted_names ('' AND '' @ join_str '' AND '' (map (join_predicate s t) (q # ps))) = concat (map (pair_names s t) (q # ps))" by simp
  then show ?case using quoted_predicate [OF assms(1,2), of p a "'' AND '' @ join_str '' AND '' (map (join_predicate s t) (q # ps))"] 3 by simp
qed

lemma is_ident_plain: "is_ident n \<Longrightarrow> plain n"
  unfolding plain_def using is_ident_chars [of n] ident_char_bytes by (fastforce simp: list_all_iff dquote_def quote_char_def)

text \<open>The SQL of a join names what it may and nothing else. On a reachable store the text between the double quotes of the skeleton is, in order,
  the schema and table of the target, its alias, and for each column pair the two aliases with their columns; a name cannot end its quotes.
  Each column that is named, here and in the list of pairs, is the placeholder or a column that is not blocked in the table of its side,
  and the pairs are those of the stored join in its stored direction.\<close>

theorem resolve_join_masks:
  assumes "store_ok ast_parse (ca_store ca)" "resolve_join ca src pii_block a b name = Inr i"
  shows "\<exists>s t ts tn. get_entity (ca_store ca) src (ji_source_entity i) = Inr (Some s) \<and> get_entity (ca_store ca) src (ji_target_entity i) = Inr (Some t) \<and>
    {ji_source_entity i, ji_target_entity i} = {a, b} \<and> en_qualified_table t = ts @ ''.'' @ tn \<and>
    quoted_names (ji_sql_skeleton i) = [ts, tn, ji_target_entity i] @ concat (map (pair_names (ji_source_entity i) (ji_target_entity i)) (ji_on i)) \<and>
    masked_key (ca_tags ca) src (effective_block pii_block) (en_qualified_table s) (map jp_source_column (ji_on i)) \<and>
    masked_key (ca_tags ca) src (effective_block pii_block) (en_qualified_table t) (map jp_target_column (ji_on i))"
  using assms(2)
proof (rule resolve_joinE)
  fix ea eb ms j s t
  assume ms: "resolve_canonical_joins (ca_store ca) src a b = Inr ms" "select_join ms name = Inr j"
    and st: "get_entity (ca_store ca) src (cj_source_entity j) = Inr (Some s)" "get_entity (ca_store ca) src (cj_target_entity j) = Inr (Some t)"
    and ren: "render_join_info (ca_tags ca) src pii_block s t j = Inr i"
  let ?b = "effective_block pii_block"
  note j = sqlite_joins.pick_member [OF assms(1) ms]
  have es: "entity_ok s" "en_name s = cj_source_entity j" using sqlite.entity_valid [OF assms(1), of src "cj_source_entity j" s] st(1) by simp_all
  have et: "entity_ok t" "en_name t = cj_target_entity j" using sqlite.entity_valid [OF assms(1), of src "cj_target_entity j" t] st(2) by simp_all
  obtain ts tn where q: "split1 CHR ''.'' (en_qualified_table t) = (ts, Some tn)" "is_ident ts" "is_ident tn" using entity_split [OF et(1)] by blast
  have q2: "en_qualified_table t = ts @ ''.'' @ tn" using split1_Some [OF q(1)] by simp
  let ?pairs = "redacted_pairs (ca_tags ca) src ?b s t j"
  have al: "safe_alias (en_name s) = cj_source_entity j" "safe_alias (en_name t) = cj_target_entity j" using es et by (simp_all add: safe_alias_def entity_ok_def)
  have i: "ji_on i = ?pairs" "ji_source_entity i = cj_source_entity j" "ji_target_entity i = cj_target_entity j"
    "ji_sql_skeleton i = ''JOIN '' @ quoted ts @ ''.'' @ quoted tn @ '' AS '' @ quoted (cj_target_entity j) @ '' ON '' @
      join_str '' AND '' (map (join_predicate (cj_source_entity j) (cj_target_entity j)) ?pairs)"
    using ren q(1) al by (auto simp: render_join_info_def Let_def split: if_splits)
  have plain: "plain (cj_source_entity j)" "plain (cj_target_entity j)" "plain ts" "plain tn" "plain FK_REDACTED_PLACEHOLDER"
    using j q is_ident_plain by (auto simp: join_ok_def FK_REDACTED_PLACEHOLDER_def plain_def dquote_def)
  have pairs: "list_all (\<lambda>p. plain (jp_source_column p) \<and> plain (jp_target_column p)) ?pairs"
    using j is_ident_plain plain(5) by (auto simp: redacted_pairs_map join_ok_def pair_ok_def list_all_iff)
  have lits: "dquote \<notin> set ''JOIN ''" "dquote \<notin> set ''.''" "dquote \<notin> set '' AS ''" "dquote \<notin> set '' ON ''" by (simp_all add: dquote_def)
  have "quoted_names (ji_sql_skeleton i) = [ts, tn, ji_target_entity i] @ concat (map (pair_names (ji_source_entity i) (ji_target_entity i)) (ji_on i))"
    unfolding i(4) quoted_names_step [OF lits(1) plain(3) [unfolded plain_def]] quoted_names_step [OF lits(2) plain(4) [unfolded plain_def]]
      quoted_names_step [OF lits(3) plain(2) [unfolded plain_def]] quoted_predicates [OF plain(1,2) pairs lits(4)] i(1,2,3) by simp
  moreover have "masked_key (ca_tags ca) src ?b (en_qualified_table s) (map jp_source_column (ji_on i))"
    "masked_key (ca_tags ca) src ?b (en_qualified_table t) (map jp_target_column (ji_on i))"
    unfolding i(1) redacted_pairs_map by (auto simp: masked_key_def)
  ultimately show ?thesis using st j q2 unfolding i(2,3) by blast
qed

subsection \<open>Bridges\<close>

text \<open>A bridge of a junction: two stored joins that each connect it to one of two different entities, in
  alphabetical order, and the weaker of their signals.\<close>

definition bridge_of :: "canonical_join list \<Rightarrow> string \<Rightarrow> bridge_join \<Rightarrow> bool" where
  "bridge_of js junction b \<longleftrightarrow> br_via_junction b = junction \<and> br_source_entity b < br_target_entity b \<and>
     br_name b = br_source_entity b @ ''_'' @ br_target_entity b @ ''_via_'' @ junction \<and>
     (\<exists>lo \<in> set js. \<exists>hi \<in> set js. br_via_joins b = (cj_name lo, cj_name hi) \<and>
        {cj_source_entity lo, cj_target_entity lo} = {br_source_entity b, junction} \<and>
        {cj_source_entity hi, cj_target_entity hi} = {br_target_entity b, junction} \<and>
        br_inference_method b = worst_inference (cj_inference_method lo) (cj_inference_method hi) \<and>
        br_validation_state b = worst_validation (cj_validation_state lo) (cj_validation_state hi))"

lemma pairs_of_set: "ab \<in> set (pairs_of xs) \<Longrightarrow> fst ab \<in> set xs \<and> snd ab \<in> set xs"
  by (induction xs) auto

lemma legs_set:
  "(j, other) \<in> set (legs_touching n js) \<Longrightarrow> j \<in> set js \<and> {cj_source_entity j, cj_target_entity j} = {other, n}"
  by (auto simp: legs_touching_def List.map_filter_def split: if_splits)

definition bridges_inv :: "canonical_join list \<Rightarrow> string set \<Rightarrow> string set \<times> bridge_join list \<Rightarrow> bool" where
  "bridges_inv js ns = (\<lambda>(seen, bs). seen = set (map br_name bs) \<and> distinct (map br_name bs) \<and> (\<forall>b \<in> set bs. \<exists>n \<in> ns. bridge_of js n b))"

lemma add_bridge_inv:
  assumes "bridges_inv js ns st" "n \<in> ns" "fst p \<in> set (legs_touching n js)" "snd p \<in> set (legs_touching n js)"
  shows "bridges_inv js ns (add_bridge n p st)"
proof -
  obtain seen bs where st: "st = (seen, bs)" by (cases st)
  obtain la ea lb eb where p: "p = ((la, ea), (lb, eb))" by (cases p) (metis prod.collapse)
  have l: "la \<in> set js" "{cj_source_entity la, cj_target_entity la} = {ea, n}" "lb \<in> set js" "{cj_source_entity lb, cj_target_entity lb} = {eb, n}"
    using legs_set assms(3,4) unfolding p by simp_all
  show ?thesis
  proof (cases "ea = eb")
    case True
    then show ?thesis using assms(1) unfolding p st by (simp add: add_bridge_def)
  next
    case False
    define lo hi where "lo = (if ea < eb then la else lb)" and "hi = (if ea < eb then lb else la)"
    define b where "b = \<lparr>br_name = min ea eb @ ''_'' @ max ea eb @ ''_via_'' @ n, br_source_entity = min ea eb, br_target_entity = max ea eb,
      br_via_junction = n, br_via_joins = (cj_name lo, cj_name hi),
      br_inference_method = worst_inference (cj_inference_method lo) (cj_inference_method hi),
      br_validation_state = worst_validation (cj_validation_state lo) (cj_validation_state hi)\<rparr>"
    have sides: "lo \<in> set js" "hi \<in> set js" "{cj_source_entity lo, cj_target_entity lo} = {min ea eb, n}"
      "{cj_source_entity hi, cj_target_entity hi} = {max ea eb, n}"
    proof -
      consider "ea < eb" | "eb < ea" using False by fastforce
      then have all: "lo \<in> set js \<and> hi \<in> set js \<and> {cj_source_entity lo, cj_target_entity lo} = {min ea eb, n} \<and>
        {cj_source_entity hi, cj_target_entity hi} = {max ea eb, n}"
      proof cases
        case 1
        then have "lo = la" "hi = lb" "min ea eb = ea" "max ea eb = eb" by (simp_all add: lo_def hi_def)
        then show ?thesis using l by (simp only:)
      next
        case 2
        then have "lo = lb" "hi = la" "min ea eb = eb" "max ea eb = ea" by (simp_all add: lo_def hi_def)
        then show ?thesis using l by (simp only:)
      qed
      show "lo \<in> set js" by (rule conjunct1 [OF all])
      show "hi \<in> set js" by (rule conjunct1 [OF conjunct2 [OF all]])
      show "{cj_source_entity lo, cj_target_entity lo} = {min ea eb, n}" by (rule conjunct1 [OF conjunct2 [OF conjunct2 [OF all]]])
      show "{cj_source_entity hi, cj_target_entity hi} = {max ea eb, n}" by (rule conjunct2 [OF conjunct2 [OF conjunct2 [OF all]]])
    qed
    have "min ea eb < max ea eb" using False by (cases ea eb rule: linorder_cases) (auto simp: min_def max_def dest: leD less_imp_le)
    then have "bridge_of js n b" unfolding bridge_of_def b_def bridge_join.simps using sides by blast
    moreover have "add_bridge n p st = (if br_name b \<in> seen then (seen, bs) else (insert (br_name b) seen, bs @ [b]))"
    proof -
      have "(if min ea eb = ea then la else lb) = lo" "(if min ea eb = ea then lb else la) = hi"
        using False by (auto simp: lo_def hi_def min_def)
      then show ?thesis using False unfolding p st by (simp add: add_bridge_def Let_def b_def)
    qed
    ultimately show ?thesis using assms(1,2) unfolding st by (auto simp: bridges_inv_def)
  qed
qed

lemma bridges_over_inv:
  assumes "set junctions \<subseteq> ns"
  shows "bridges_inv js ns (fold (\<lambda>n. fold (add_bridge n) (pairs_of (legs_touching n js))) junctions ({}, []))"
proof -
  have inner: "bridges_inv js ns (fold (add_bridge n) ps st)"
    if "bridges_inv js ns st" "n \<in> ns" "set ps \<subseteq> set (pairs_of (legs_touching n js))" for n ps st
    using that
  proof (induction ps arbitrary: st)
    case (Cons p ps)
    have "bridges_inv js ns (add_bridge n p st)"
      using add_bridge_inv [OF Cons.prems(1,2), of p] pairs_of_set [of p] Cons.prems(3) by simp
    then show ?case using Cons by simp
  qed simp
  have "bridges_inv js ns (fold (\<lambda>n. fold (add_bridge n) (pairs_of (legs_touching n js))) xs st)"
    if "bridges_inv js ns st" "set xs \<subseteq> ns" for xs st
    using that by (induction xs arbitrary: st) (simp_all add: inner)
  then show ?thesis using assms by (simp add: bridges_inv_def)
qed

lemma worst_no_better:
  "derive_confidence (worst_inference a b) (worst_validation u v) \<le> min (derive_confidence a u) (derive_confidence b v)"
  by (cases a; cases b; cases u; cases v) (simp_all add: worst_inference_def worst_validation_def derive_confidence_def strong_method_def less_eq_confidence_def min_def)

lemma listed_resolved:
  assumes "store_ok ast_parse db" "list_canonical_joins db (Some src) = Inr js" "j \<in> set js"
    "{cj_source_entity j, cj_target_entity j} = {a, b}" "resolve_canonical_joins db src a b = Inr ms"
  shows "j \<in> set ms"
proof -
  obtain r where r: "r \<in> set (st_joins db)" "jr_source r = src" "row_to_canonical_join r = Inr j" by (rule listed_join [OF assms(2,3)])
  have "cj_source_entity j = jr_source_entity r" "cj_target_entity j = jr_target_entity r" using row_to_join_Inr [OF r(3)] by simp_all
  then have "(jr_source_entity r = a \<and> jr_target_entity r = b) \<or> (jr_source_entity r = b \<and> jr_target_entity r = a)"
    using assms(4) by (auto simp: doubleton_eq_iff)
  then have "r \<in> set (sort_key jr_name (joins_from_to db src a b @ joins_from_to db src b a))" using r(1,2) by (auto simp: joins_from_to_def)
  then obtain x where "x \<in> set ms" "row_to_canonical_join r = Inr x"
    using rtraverse_Inr_ex [OF assms(5) [unfolded resolve_canonical_joins_def]] by blast
  then show ?thesis using r(3) by simp
qed

lemma junction_read:
  assumes "store_ok ast_parse db" "entity_ok e"
  shows "\<exists>b. is_junction_entity db src e = Inr b"
proof -
  obtain s t where q: "split1 CHR ''.'' (en_qualified_table e) = (s, Some t)" using entity_split [OF assms(2)] by blast
  have "\<exists>row. get_table db src s t = Inr row"
  proof (cases "has_table db (s, t, src)")
    case True
    then show ?thesis using assms(1) by (fastforce simp: store_ok_def rows_ok_def table_rows_ok_def)
  qed (simp add: get_table_def)
  then show ?thesis using q by (auto simp: is_junction_entity_def)
qed

lemma listed_entity:
  assumes "store_ok ast_parse db" "list_entities db (Some src) = Inr es" "e \<in> set es"
  shows "entity_ok e" "get_entity db src (en_name e) = Inr (Some e)"
proof -
  obtain r where r: "r \<in> set (st_entities db)" "er_source r = src" "row_to_entity r = Inr e"
    using rtraverse_Inr_set [OF assms(2) [unfolded list_entities_def] assms(3)] by auto
  show "entity_ok e" using row_to_entity_Inr [OF r(3)] by simp
  have "entity_key r = (src, en_name e)" using row_to_entity_Inr [OF r(3)] r(2) by (simp add: entity_key_def)
  then have "find_row entity_key (src, en_name e) (st_entities db) = Some r"
    using r(1) assms(1) find_row_Some [of entity_key "st_entities db"] by (simp add: store_ok_def keys_ok_def)
  then show "get_entity db src (en_name e) = Inr (Some e)" using r(3) by (simp add: get_entity_def)
qed

lemma junctions_found:
  assumes "store_ok ast_parse db"
  obtains js where "find_junction_entities db src = Inr js"
    "\<And>e. e \<in> set js \<Longrightarrow> get_entity db src (en_name e) = Inr (Some e) \<and> is_junction_entity db src e = Inr True"
proof -
  have "\<exists>es. list_entities db (Some src) = Inr es"
    unfolding list_entities_def by (rule rtraverse_total) (use assms in \<open>auto simp: store_ok_def rows_ok_def\<close>)
  then obtain es where es: "list_entities db (Some src) = Inr es" by blast
  have "\<exists>bs. rtraverse (is_junction_entity db src) es = Inr bs"
    by (rule rtraverse_total) (use junction_read [OF assms] listed_entity [OF assms es] in blast)
  then obtain bs where bs: "rtraverse (is_junction_entity db src) es = Inr bs" by blast
  have "e \<in> set es \<and> is_junction_entity db src e = Inr True" if e: "e \<in> set (map fst (filter snd (zip es bs)))" for e
  proof -
    have "(e, True) \<in> set (zip es bs)" using e by auto
    then show ?thesis using bs [unfolded rtraverse_Inr_iff] by (auto simp: list_all2_iff dest: in_set_zipE)
  qed
  then show thesis using that [of "map fst (filter snd (zip es bs))"] listed_entity(2) [OF assms es] es bs by (simp add: find_junction_entities_def)
qed

lemma leg_resolves:
  assumes ok: "store_ok ast_parse (ca_store ca)" and js: "list_canonical_joins (ca_store ca) (Some src) = Inr js" "j \<in> set js"
    and ab: "{cj_source_entity j, cj_target_entity j} = {a, b}"
    and short: "length a \<le> MAX_IDENT_LEN" "length b \<le> MAX_IDENT_LEN" "length (cj_name j) \<le> MAX_IDENT_LEN"
  shows "\<exists>i. resolve_join ca src pii_block a b (Some (cj_name j)) = Inr i \<and> info_of j i"
proof -
  have jo: "join_ok j" using sqlite.join_valid [OF ok, of src js j] js by simp
  have ends: "a = cj_source_entity j \<or> a = cj_target_entity j" "b = cj_source_entity j \<or> b = cj_target_entity j"
    using ab by blast+
  have id: "is_ident a" "is_ident b" "is_ident (cj_name j)" using jo ends by (auto simp: join_ok_def)
  obtain ea eb where en: "get_entity (ca_store ca) src a = Inr (Some ea)" "get_entity (ca_store ca) src b = Inr (Some eb)"
    using sqlite.join_ends [OF ok, of src js j] js ends by force
  obtain ms where ms: "resolve_canonical_joins (ca_store ca) src a b = Inr ms" using sqlite_joins.lookup_total [OF ok] by blast
  have "j \<in> set ms" by (rule listed_resolved [OF ok js ab ms])
  then have pick: "select_join ms (Some (cj_name j)) = Inr j" by (rule sqlite_joins.pick_named [OF ok ms])
  show ?thesis
    by (rule resolve_join_finds [OF ok valid_name valid_name _ en ms pick]) (use id short valid_name in auto)
qed

text \<open>One leg of a bridge, looked up: a stored join between its end and the junction that is trusted at least as much as the bridge;
  the tool returns it under its name with its signal when the three names can be sent, and refuses a name otherwise.\<close>

definition leg_delivered ::
  "'f cache \<Rightarrow> string \<Rightarrow> pii_category set \<Rightarrow> canonical_join list \<Rightarrow> bridge_join \<Rightarrow> string \<Rightarrow> string \<Rightarrow> bool" where
  "leg_delivered ca src pii_block js b x n \<longleftrightarrow> (\<exists>j \<in> set js. cj_name j = n \<and>
     {cj_source_entity j, cj_target_entity j} = {x, br_via_junction b} \<and>
     derive_confidence (br_inference_method b) (br_validation_state b) \<le> derive_confidence (cj_inference_method j) (cj_validation_state j) \<and>
     (if list_all (\<lambda>m. length m \<le> MAX_IDENT_LEN) [x, br_via_junction b, n]
      then \<exists>i. resolve_join ca src pii_block x (br_via_junction b) (Some n) = Inr i \<and> ji_name i = n \<and>
        ji_inference_method i = cj_inference_method j \<and> ji_validation_state i = cj_validation_state j
      else \<exists>e. resolve_join ca src pii_block x (br_via_junction b) (Some n) = Inl (ResolveName e)))"

lemma leg_delivers:
  assumes ok: "store_ok ast_parse (ca_store ca)" and js: "list_canonical_joins (ca_store ca) (Some src) = Inr js" "j \<in> set js"
    and ab: "{cj_source_entity j, cj_target_entity j} = {x, br_via_junction b}"
    and c: "derive_confidence (br_inference_method b) (br_validation_state b) \<le> derive_confidence (cj_inference_method j) (cj_validation_state j)"
  shows "leg_delivered ca src pii_block js b x (cj_name j)"
proof -
  have jo: "join_ok j" using sqlite.join_valid [OF ok, of src js j] js by simp
  have "x \<in> {cj_source_entity j, cj_target_entity j}" "br_via_junction b \<in> {cj_source_entity j, cj_target_entity j}" unfolding ab by simp_all
  then have id: "is_ident x" "is_ident (br_via_junction b)" "is_ident (cj_name j)" using jo by (auto simp: join_ok_def)
  show ?thesis
  proof (cases "list_all (\<lambda>m. length m \<le> MAX_IDENT_LEN) [x, br_via_junction b, cj_name j]")
    case True
    then show ?thesis using leg_resolves [OF ok js ab, of pii_block] js(2) ab c unfolding leg_delivered_def info_of_def by auto
  next
    case False
    then show ?thesis using resolve_join_long [OF id False, of ca src pii_block] js(2) ab c unfolding leg_delivered_def by auto
  qed
qed

text \<open>C13: What list_joins offers, resolve_join delivers when the names can be sent. On a reachable store the synthesis of bridges does not
  raise; a bridge connects two different entities in alphabetical order over a third whose bound table is an association table, each under
  its own name. Each of its two legs is a stored join between that end and the junction, and the bridge is trusted no more than it. Asked
  for that end and the junction under the name that the bridge gives for the leg, the tool returns that join with its signal when the three
  names have at most 63 characters, and refuses a name when one is longer.\<close>

theorem bridge_legs_resolve:
  assumes "store_ok ast_parse (ca_store ca)"
  shows "\<exists>bs js. synthesize_bridges (ca_store ca) src = Inr bs \<and> list_canonical_joins (ca_store ca) (Some src) = Inr js \<and>
    distinct (map br_name bs) \<and> (\<forall>b \<in> set bs.
    br_source_entity b < br_target_entity b \<and>
    (\<exists>e. get_entity (ca_store ca) src (br_via_junction b) = Inr (Some e) \<and> is_junction_entity (ca_store ca) src e = Inr True) \<and>
    leg_delivered ca src pii_block js b (br_source_entity b) (fst (br_via_joins b)) \<and>
    leg_delivered ca src pii_block js b (br_target_entity b) (snd (br_via_joins b)))"
proof -
  let ?db = "ca_store ca"
  obtain junctions where jn: "find_junction_entities ?db src = Inr junctions"
    "\<And>e. e \<in> set junctions \<Longrightarrow> get_entity ?db src (en_name e) = Inr (Some e) \<and> is_junction_entity ?db src e = Inr True"
    by (rule junctions_found [OF assms]) blast
  obtain js where js: "list_canonical_joins ?db (Some src) = Inr js" using sqlite.join_rows [OF assms, of src] by auto
  obtain bs where bs: "synthesize_bridges ?db src = Inr bs" "distinct (map br_name bs)" "\<And>b. b \<in> set bs \<Longrightarrow> \<exists>e \<in> set junctions. bridge_of js (en_name e) b"
  proof (cases "junctions = []")
    case True
    then show thesis using that [of "[]"] jn(1) by (simp add: synthesize_bridges_def)
  next
    case False
    let ?bs = "bridges_over js (map en_name junctions)"
    have inv: "distinct (map br_name ?bs)" "\<forall>b \<in> set ?bs. \<exists>n \<in> en_name ` set junctions. bridge_of js n b"
      using bridges_over_inv [of "map en_name junctions" "en_name ` set junctions" js] by (auto simp: bridges_inv_def bridges_over_def)
    have "mset (map br_name (sort_key br_name ?bs)) = mset (map br_name ?bs)" by (simp only: mset_map mset_sort)
    then have "distinct (map br_name (sort_key br_name ?bs))" using inv(1) mset_eq_imp_distinct_iff by blast
    then show thesis using that [of "sort_key br_name ?bs"] inv(2) False jn(1) js by (auto simp: synthesize_bridges_def)
  qed
  have good: "br_source_entity b < br_target_entity b \<and>
    (\<exists>e. get_entity ?db src (br_via_junction b) = Inr (Some e) \<and> is_junction_entity ?db src e = Inr True) \<and>
    leg_delivered ca src pii_block js b (br_source_entity b) (fst (br_via_joins b)) \<and>
    leg_delivered ca src pii_block js b (br_target_entity b) (snd (br_via_joins b))"
    if b: "b \<in> set bs" for b
  proof -
    obtain e where e: "e \<in> set junctions" "bridge_of js (en_name e) b" using bs(3) [OF b] by blast
    have via: "br_via_junction b = en_name e" "br_source_entity b < br_target_entity b" using e(2) by (simp_all add: bridge_of_def)
    obtain lo hi where l: "lo \<in> set js" "hi \<in> set js" "br_via_joins b = (cj_name lo, cj_name hi)"
      "{cj_source_entity lo, cj_target_entity lo} = {br_source_entity b, br_via_junction b}"
      "{cj_source_entity hi, cj_target_entity hi} = {br_target_entity b, br_via_junction b}"
      "br_inference_method b = worst_inference (cj_inference_method lo) (cj_inference_method hi)"
      "br_validation_state b = worst_validation (cj_validation_state lo) (cj_validation_state hi)" 
      using e(2) unfolding bridge_of_def via(1) by blast
    have c: "derive_confidence (br_inference_method b) (br_validation_state b) \<le> derive_confidence (cj_inference_method lo) (cj_validation_state lo)"
      "derive_confidence (br_inference_method b) (br_validation_state b) \<le> derive_confidence (cj_inference_method hi) (cj_validation_state hi)"
      using worst_no_better unfolding l(6,7) by (metis min.bounded_iff)+
    have "leg_delivered ca src pii_block js b (br_source_entity b) (fst (br_via_joins b))"
      unfolding l(3) fst_conv by (rule leg_delivers [OF assms js l(1,4) c(1)])
    moreover have "leg_delivered ca src pii_block js b (br_target_entity b) (snd (br_via_joins b))"
      unfolding l(3) snd_conv by (rule leg_delivers [OF assms js l(2,5) c(2)])
    ultimately show ?thesis using jn(2) [OF e(1)] via by metis
  qed
  show ?thesis using bs(1,2) js good by blast
qed

text \<open>The columns of both legs can always be read through the junction.\<close>

lemma composed_pairs_total:
  assumes "{cj_source_entity lo, cj_target_entity lo} = {br_source_entity b, br_via_junction b}"
    "{cj_source_entity hi, cj_target_entity hi} = {br_target_entity b, br_via_junction b}"
  shows "\<exists>x y. composed_on_pairs b lo hi = Inr (x, y) \<and> length x = length (cj_on lo) \<and> length y = length (cj_on hi)"
proof -
  have "\<exists>ps. orient_pairs x y j = Inr ps \<and> length ps = length (cj_on j)" if "{cj_source_entity j, cj_target_entity j} = {x, y}" for x y j
    using that by (auto simp: orient_pairs_def doubleton_eq_iff)
  from this [OF assms(1)] this [of hi "br_via_junction b" "br_target_entity b"] assms(2) show ?thesis
    by (auto simp: composed_on_pairs_def insert_commute)
qed

subsection \<open>Products, categories and the table between them\<close>

definition shelf_table :: "string \<Rightarrow> string list \<Rightarrow> bool \<Rightarrow> foreign_key list \<Rightarrow> store_op" where
  "shelf_table n cs pk ks = Write_Table ''s'' 1 \<lparr>tb_name = n, tb_schema_name = ''public'',
     tb_columns = map (\<lambda>(i, c). \<lparr>co_name = c, co_table_name = n, co_schema_name = ''public'', co_data_type = ''text'', co_nullable = False,
       co_ordinal_position = i, co_default = None, co_is_primary_key = pk\<rparr>) (zip [1, 2] cs), tb_foreign_keys = ks\<rparr> None"

definition shelf_entity :: "string \<Rightarrow> string \<Rightarrow> string \<Rightarrow> store_op" where
  "shelf_entity n t i = Write_Entity ''s'' 1 \<lparr>en_name = n, en_description = [], en_binding = \<lparr>bd_qualified_table = t\<rparr>,
     en_identity = i, en_origin = Manual, en_inference_method = Manually_Authored, en_validation_state = Applied,
     en_group = Billing, en_bind_confidence = None, en_rationale = []\<rparr>"

definition shelf_join :: "string \<Rightarrow> string \<Rightarrow> string \<Rightarrow> inference_method \<Rightarrow> store_op" where
  "shelf_join n t c im = Write_Join ''s'' 1 \<lparr>cj_name = n, cj_description = [], cj_source_entity = ''listing'', cj_target_entity = t,
     cj_on = [\<lparr>jp_source_column = c, jp_target_column = ''id''\<rparr>], cj_origin = Manual, cj_cardinality = Some Many_To_One,
     cj_inference_method = im, cj_validation_state = Applied\<rparr>"

definition shelf_ops :: "store_op list" where
  "shelf_ops = [shelf_table ''products'' [''id''] False [], shelf_table ''categories'' [''id''] False [],
     shelf_table ''listings'' [''product'', ''category''] True
       [\<lparr>fk_name = ''a'', fk_source_columns = [''product''], fk_target_schema = ''public'', fk_target_table = ''products'', fk_target_columns = [''id'']\<rparr>,
        \<lparr>fk_name = ''b'', fk_source_columns = [''category''], fk_target_schema = ''public'', fk_target_table = ''categories'', fk_target_columns = [''id'']\<rparr>],
     shelf_entity ''product'' ''public.products'' ''id'', shelf_entity ''category'' ''public.categories'' ''id'',
     shelf_entity ''listing'' ''public.listings'' ''product'',
     shelf_join ''listed'' ''product'' ''product'' Fk_Constraint, shelf_join ''placed'' ''category'' ''category'' Llm_Suggested,
     shelf_join ''featured'' ''product'' ''product'' Manually_Authored]"

definition shelf_store :: store where
  "shelf_store = (case run_ops shelf_ops empty_store of Inr db \<Rightarrow> db | Inl e \<Rightarrow> empty_store)"

lemma shelf_store_good: "store_ok no_parse shelf_store"
proof -
  have "list_all (op_valid no_parse) shelf_ops"
    by (simp add: shelf_ops_def shelf_table_def shelf_entity_def shelf_join_def table_ok_iff entity_ok_def en_qualified_table_def
        join_ok_def pair_ok_def match_qualified_def split1_def char_class_defs)
  moreover have "run_ops shelf_ops empty_store = Inr shelf_store" by code_simp
  ultimately have "store_reach no_parse shelf_store" using run_ops_reach [OF store_reach.fresh] by blast
  then show ?thesis by (rule store_reach_ok)
qed

definition shelf_cache :: "nat cache" where
  "shelf_cache = \<lparr>ca_store = shelf_store, ca_descriptions = [], ca_embeddings = [],
     ca_tags = write_column_pii_tags Map.empty 1 ''s'' ''public.products'' [''id'' \<mapsto> (Pii, {Government_Id})] (\<lambda>_. None)\<rparr>"

lemma shelf_ok: "store_ok no_parse (ca_store shelf_cache)"
  using shelf_store_good by (simp add: shelf_cache_def)

lemma shelf_ambiguous:
  "case resolve_join_tool shelf_cache ''s'' {} ''product'' ''listing'' None of
     Inr r \<Rightarrow> (case tr_error r of Some e \<Rightarrow> te_kind e = Ambiguous_Join \<and>
        te_recovery e = suggest (Some ''resolve_join'') (Some (retry_args ''product'' ''listing'' ''featured'')) | None \<Rightarrow> False) | Inl e \<Rightarrow> False"
  by code_simp

theorem resolve_hint_resolves_witness:
  "\<exists>r e r' i. resolve_join_tool shelf_cache ''s'' {} ''product'' ''listing'' None = Inr r \<and> tr_error r = Some e \<and> te_kind e = Ambiguous_Join \<and>
     resolve_join_tool shelf_cache ''s'' {} ''product'' ''listing'' (Some ''featured'') = Inr r' \<and> tr_data r' = Some i \<and> ji_name i = ''featured''"
proof -
  obtain r e where r: "resolve_join_tool shelf_cache ''s'' {} ''product'' ''listing'' None = Inr r" "tr_error r = Some e" "te_kind e = Ambiguous_Join"
    "te_recovery e = suggest (Some ''resolve_join'') (Some (retry_args ''product'' ''listing'' ''featured''))"
    using shelf_ambiguous by (auto split: sum.splits option.splits)
  obtain n r' where n: "te_recovery e = suggest (Some ''resolve_join'') (Some (retry_args ''product'' ''listing'' n))"
    "resolve_join_tool shelf_cache ''s'' {} ''product'' ''listing'' (Some n) = Inr r'"
    "if length n \<le> MAX_IDENT_LEN then tr_status r' = Success \<and> (\<exists>i. tr_data r' = Some i \<and> ji_name i = n)
     else tr_status r' = Error \<and> (\<exists>e'. tr_error r' = Some e' \<and> te_kind e' = Malformed_Name)"
    using resolve_hint_resolves [OF shelf_ok r(1,2)] r(3) by blast
  have f: "n = ''featured''" using n(1) r(4) by (simp add: suggest_def retry_args_def)
  obtain i where "tr_data r' = Some i" "ji_name i = n" using n(3) unfolding f by (auto simp: MAX_IDENT_LEN_def)
  then show ?thesis using n(2) r(1-3) unfolding f by blast
qed

lemma shelf_listed:
  "case resolve_join shelf_cache ''s'' {} ''product'' ''listing'' (Some ''listed'') of Inl e \<Rightarrow> False
   | Inr i \<Rightarrow> ji_sql_skeleton i = ''JOIN '' @ quoted ''public'' @ ''.'' @ quoted ''products'' @ '' AS '' @ quoted ''product'' @ '' ON '' @
        quoted ''listing'' @ ''.'' @ quoted ''product'' @ '' = '' @ quoted ''product'' @ ''.'' @ quoted ''<redacted_column>''"
  by code_simp

theorem resolve_join_masks_witness:
  "\<exists>i. resolve_join shelf_cache ''s'' {} ''product'' ''listing'' (Some ''listed'') = Inr i \<and>
     quoted_names (ji_sql_skeleton i) = [''public'', ''products'', ''product'', ''listing'', ''product'', ''product'', ''<redacted_column>''] \<and>
     {ji_source_entity i, ji_target_entity i} = {''product'', ''listing''}"
proof -
  obtain i where i: "resolve_join shelf_cache ''s'' {} ''product'' ''listing'' (Some ''listed'') = Inr i"
    "ji_sql_skeleton i = ''JOIN '' @ quoted ''public'' @ ''.'' @ quoted ''products'' @ '' AS '' @ quoted ''product'' @ '' ON '' @
        quoted ''listing'' @ ''.'' @ quoted ''product'' @ '' = '' @ quoted ''product'' @ ''.'' @ quoted ''<redacted_column>''"
    using shelf_listed by (auto split: sum.splits)
  have "quoted_names (ji_sql_skeleton i) = [''public'', ''products'', ''product'', ''listing'', ''product'', ''product'', ''<redacted_column>'']"
    unfolding i(2) by code_simp
  then show ?thesis using resolve_join_masks [OF shelf_ok i(1)] i(1) by blast
qed

lemma shelf_bridges:
  "case synthesize_bridges (ca_store shelf_cache) ''s'' of Inl e \<Rightarrow> False
   | Inr bs \<Rightarrow> map (\<lambda>b. (br_name b, br_via_joins b, br_via_junction b, br_source_entity b)) bs =
       [(''category_product_via_listing'', (''placed'', ''featured''), ''listing'', ''category'')]"
  by code_simp

theorem bridge_legs_resolve_witness:
  "\<exists>b i. synthesize_bridges (ca_store shelf_cache) ''s'' = Inr [b] \<and> br_name b = ''category_product_via_listing'' \<and>
     resolve_join shelf_cache ''s'' {} ''category'' ''listing'' (Some ''placed'') = Inr i \<and> ji_name i = ''placed''"
proof -
  obtain b where b: "synthesize_bridges (ca_store shelf_cache) ''s'' = Inr [b]" "br_name b = ''category_product_via_listing''"
    "br_via_joins b = (''placed'', ''featured'')" "br_via_junction b = ''listing''" "br_source_entity b = ''category''"
    using shelf_bridges by (auto split: sum.splits)
  obtain bs js where bs: "synthesize_bridges (ca_store shelf_cache) ''s'' = Inr bs"
    "\<forall>b \<in> set bs. leg_delivered shelf_cache ''s'' {} js b (br_source_entity b) (fst (br_via_joins b))"
    using bridge_legs_resolve [OF shelf_ok, of "''s''" "{}"] by blast
  have "b \<in> set bs" using bs(1) b(1) by auto
  then have "leg_delivered shelf_cache ''s'' {} js b ''category'' ''placed''" using bs(2) b(3-5) by force
  then obtain i where "resolve_join shelf_cache ''s'' {} ''category'' ''listing'' (Some ''placed'') = Inr i" "ji_name i = ''placed''"
    unfolding leg_delivered_def b(4) by (auto simp: MAX_IDENT_LEN_def)
  then show ?thesis using b(1,2) by blast
qed

end
