(* ===== verification/SemanticYaml.thy ===== *)
theory SemanticYaml
  imports PiiPolicy CoreModel
begin

section \<open>The YAML grammars of entities, joins and metrics (entities/, joins/ and metrics/yaml_grammar.py)\<close>

text \<open>
  Three parsers of operator files with their emitters. PyYAML is not part of the repository: the loader and
  the dumper are parameters between text and the plain data of a document (\<open>yval\<close> of PiiPolicy), and so is the
  parser of Python expressions behind a measure. The field validators that the three files repeat word for word
  (\<^verbatim>\<open>_check_keys\<close>, \<^verbatim>\<open>_check_version\<close>, \<^verbatim>\<open>_require_str\<close>, \<^verbatim>\<open>_optional_str\<close>) are one definition
  each. The main facts: what is accepted is a valid definition, authored by hand; what is emitted reads back
  with its trust fields reset, except for the values the grammar of joins and metrics cannot carry.
\<close>

subsection \<open>Errors\<close>

text \<open>What loading a text can raise: an error of the YAML library, which the grammars handle, or another exception, which
  they do not, as the \<^verbatim>\<open>ValueError\<close> of PyYAML for a date that does not exist.\<close>

datatype load_error = Yaml_Error string | Other_Exception string

type_synonym yaml_loader = "string \<Rightarrow> load_error + yval"

text \<open>\<open>Keys_Unorderable\<close> is the \<^verbatim>\<open>TypeError\<close> that sorting unknown keys of different kinds for the message raises; it
  is no parse error and passes the callers' handlers, and so does \<open>Load_Raised\<close>. The last five are what reading the
  file can raise; \<open>Os_Failed\<close> is an \<^verbatim>\<open>OSError\<close> other than the three that have their own.\<close>

datatype grammar_error =
    Bad_Yaml string | Empty_Yaml | Top_Not_Mapping yval
  | Missing_Keys string "string list" | Unknown_Keys string "yval list" | Keys_Unorderable string
  | Version_Not_One yval | Field_Not_String string yval | Field_Empty string | Not_A_Member string string
  | Binding_Not_Mapping yval | Binding_Empty | Unknown_Shapes "yval list" | Binding_Two_Shapes | Binding_Deferred
  | On_Not_List yval | On_Empty | On_Item_Not_Mapping nat yval | On_Field_Bad nat string yval | Origin_Reserved
  | Measure_Not_Mapping yval | Measure_Both | Measure_Neither
  | Grains_Missing | Dimension_Missing | Grains_Not_List yval | Grains_Empty
  | Refused model_error | Not_Utf8 string | Permission_Denied string
  | File_Not_Found | Is_A_Directory | Os_Failed string | Load_Raised string

subsection \<open>Vocabularies\<close>

fun origin_name :: "origin \<Rightarrow> string" where
  "origin_name Manual = ''manual''"
| "origin_name Suggested = ''suggested''"
| "origin_name Dbt_Import = ''dbt_import''"

fun group_name :: "entity_group \<Rightarrow> string" where
  "group_name Identity = ''identity''"
| "group_name Billing = ''billing''"
| "group_name Activity = ''activity''"
| "group_name Other_Group = ''other''"

fun cardinality_name :: "cardinality \<Rightarrow> string" where
  "cardinality_name One_To_One = ''one_to_one''"
| "cardinality_name One_To_Many = ''one_to_many''"
| "cardinality_name Many_To_One = ''many_to_one''"
| "cardinality_name Many_To_Many = ''many_to_many''"

definition VALID_ORIGINS :: "origin list" where
  "VALID_ORIGINS = [Manual, Suggested, Dbt_Import]"

definition VALID_GROUPS :: "entity_group list" where
  "VALID_GROUPS = [Identity, Billing, Activity, Other_Group]"

definition VALID_CARDINALITIES :: "cardinality list" where
  "VALID_CARDINALITIES = [One_To_One, One_To_Many, Many_To_One, Many_To_Many]"

definition VALID_AGGS :: "agg_function list" where
  "VALID_AGGS = [Agg_Sum, Agg_Count, Agg_Count_Distinct, Agg_Avg, Agg_Min, Agg_Max]"

lemmas vocabulary_defs = VALID_ORIGINS_def VALID_GROUPS_def VALID_CARDINALITIES_def VALID_AGGS_def TIME_GRAIN_ORDER_def

subsection \<open>Field validators\<close>

definition load_mapping :: "yaml_loader \<Rightarrow> string \<Rightarrow> grammar_error + (yval \<times> yval) list" where
  "load_mapping load text =
     (case load text of
        Inl (Yaml_Error msg) \<Rightarrow> Inl (Bad_Yaml msg)
      | Inl (Other_Exception msg) \<Rightarrow> Inl (Load_Raised msg)
      | Inr YNone \<Rightarrow> Inl Empty_Yaml
      | Inr (YMap m) \<Rightarrow> Inr m
      | Inr v \<Rightarrow> Inl (Top_Not_Mapping v))"

definition check_field_keys :: "(yval \<times> yval) list \<Rightarrow> string list \<Rightarrow> string list \<Rightarrow> string \<Rightarrow> grammar_error + unit" where
  "check_field_keys m known required scope =
     (let keys = map fst m;
          missing = sort (filter (\<lambda>f. YStr f \<notin> set keys) required);
          unknown = filter (\<lambda>k. k \<notin> YStr ` set known) keys
      in if missing \<noteq> [] then Inl (Missing_Keys scope missing)
         else if unknown \<noteq> []
              then (if comparable_keys unknown then Inl (Unknown_Keys scope unknown) else Inl (Keys_Unorderable scope))
              else Inr ())"

definition check_file_version :: "yval \<Rightarrow> grammar_error + unit" where
  "check_file_version v = (case v of YInt i \<Rightarrow> rcheck (i = 1) (Version_Not_One v) | _ \<Rightarrow> Inl (Version_Not_One v))"

definition require_str :: "(yval \<times> yval) list \<Rightarrow> string \<Rightarrow> grammar_error + string" where
  "require_str m field =
     (case the (lookup m field) of
        YStr s \<Rightarrow> if s = [] then Inl (Field_Empty field) else Inr s
      | v \<Rightarrow> Inl (Field_Not_String field v))"

definition default_str :: "(yval \<times> yval) list \<Rightarrow> string \<Rightarrow> string \<Rightarrow> grammar_error + string" where
  "default_str m field dflt =
     (case lookup m field of None \<Rightarrow> Inr dflt | Some (YStr s) \<Rightarrow> Inr s | Some v \<Rightarrow> Inl (Field_Not_String field v))"

text \<open>A string that must be in a closed set of names.\<close>

definition parse_member :: "string \<Rightarrow> ('a \<Rightarrow> string) \<Rightarrow> 'a list \<Rightarrow> yval \<Rightarrow> grammar_error + 'a" where
  "parse_member field name members raw =
     (case raw of
        YStr s \<Rightarrow> (case find (\<lambda>x. name x = s) members of None \<Rightarrow> Inl (Not_A_Member field s) | Some x \<Rightarrow> Inr x)
      | v \<Rightarrow> Inl (Field_Not_String field v))"

definition get_default :: "(yval \<times> yval) list \<Rightarrow> string \<Rightarrow> yval \<Rightarrow> yval" where
  "get_default m k d = (case lookup m k of None \<Rightarrow> d | Some v \<Rightarrow> v)"

text \<open>A \<^verbatim>\<open>ValueError\<close> of a constructor, wrapped as a parse error.\<close>

definition constructed :: "model_error + 'a \<Rightarrow> grammar_error + 'a" where
  "constructed r = (case r of Inl e \<Rightarrow> Inl (Refused e) | Inr x \<Rightarrow> Inr x)"

subsection \<open>Entities\<close>

definition parse_binding :: "yval \<Rightarrow> grammar_error + single_table_binding" where
  "parse_binding raw =
     (case raw of
        YMap m \<Rightarrow>
          (let keys = map fst m; unknown = filter (\<lambda>k. k \<notin> {YStr ''single_table'', YStr ''multi_table''}) keys in
           if m = [] then Inl Binding_Empty
           else if unknown \<noteq> []
                then (if comparable_keys unknown then Inl (Unknown_Shapes unknown) else Inl (Keys_Unorderable ''binding''))
           else if YStr ''multi_table'' \<in> set keys \<and> YStr ''single_table'' \<in> set keys then Inl Binding_Two_Shapes
           else if YStr ''multi_table'' \<in> set keys then Inl Binding_Deferred
           else (case the (lookup m ''single_table'') of
                   YStr q \<Rightarrow> constructed (make_binding q)
                 | v \<Rightarrow> Inl (Field_Not_String ''binding.single_table'' v)))
      | v \<Rightarrow> Inl (Binding_Not_Mapping v))"

definition parse_origin :: "yval \<Rightarrow> grammar_error + origin" where
  "parse_origin raw = parse_member ''origin'' origin_name VALID_ORIGINS raw"

definition parse_group :: "yval \<Rightarrow> grammar_error + entity_group" where
  "parse_group raw = parse_member ''group'' group_name VALID_GROUPS raw"

definition parse_entity_map :: "(yval \<times> yval) list \<Rightarrow> grammar_error + entity" where
  "parse_entity_map m =
     rbind (check_field_keys m [''version'', ''name'', ''description'', ''binding'', ''identity'', ''origin'', ''group'']
              [''version'', ''name'', ''binding'', ''identity''] ''top-level'') (\<lambda>_.
     rbind (check_file_version (the (lookup m ''version''))) (\<lambda>_.
     rbind (require_str m ''name'') (\<lambda>name.
     rbind (default_str m ''description'' []) (\<lambda>description.
     rbind (parse_binding (the (lookup m ''binding''))) (\<lambda>binding.
     rbind (require_str m ''identity'') (\<lambda>identity.
     rbind (parse_origin (get_default m ''origin'' (YStr ''manual''))) (\<lambda>org.
     rbind (parse_group (get_default m ''group'' (YStr ''other''))) (\<lambda>grp.
       constructed (check_entity
         \<lparr>en_name = name, en_description = description, en_binding = binding, en_identity = identity, en_origin = org,
          en_inference_method = Manually_Authored, en_validation_state = Applied, en_group = grp,
          en_bind_confidence = None, en_rationale = []\<rparr>)))))))))"

definition parse_entity_yaml :: "yaml_loader \<Rightarrow> string \<Rightarrow> grammar_error + entity" where
  "parse_entity_yaml safe_load text = rbind (load_mapping safe_load text) parse_entity_map"

definition entity_body :: "entity \<Rightarrow> yval" where
  "entity_body e = YMap
     ([(YStr ''version'', YInt 1), (YStr ''name'', YStr (en_name e))]
      @ (if en_description e \<noteq> [] then [(YStr ''description'', YStr (en_description e))] else [])
      @ [(YStr ''binding'', YMap [(YStr ''single_table'', YStr (en_qualified_table e))]),
         (YStr ''identity'', YStr (en_identity e)), (YStr ''origin'', YStr (origin_name (en_origin e)))]
      @ (if en_group e \<noteq> Other_Group then [(YStr ''group'', YStr (group_name (en_group e)))] else []))"

definition entity_to_yaml :: "(yval \<Rightarrow> string) \<Rightarrow> entity \<Rightarrow> string" where
  "entity_to_yaml safe_dump e = rstrip (safe_dump (entity_body e))"

subsection \<open>Joins\<close>

definition parse_on_item :: "nat \<Rightarrow> yval \<Rightarrow> grammar_error + join_column_pair" where
  "parse_on_item index item =
     (case item of
        YMap m \<Rightarrow>
          rbind (check_field_keys m [''source'', ''target''] [''source'', ''target''] ''on'') (\<lambda>_.
            case the (lookup m ''source'') of
              YStr s \<Rightarrow>
                if s = [] then Inl (On_Field_Bad index ''source'' (YStr s))
                else (case the (lookup m ''target'') of
                        YStr t \<Rightarrow>
                          if t = [] then Inl (On_Field_Bad index ''target'' (YStr t))
                          else constructed (make_join_column_pair s t)
                      | v \<Rightarrow> Inl (On_Field_Bad index ''target'' v))
            | v \<Rightarrow> Inl (On_Field_Bad index ''source'' v))
      | v \<Rightarrow> Inl (On_Item_Not_Mapping index v))"

definition parse_on_list :: "yval \<Rightarrow> grammar_error + join_column_pair list" where
  "parse_on_list raw =
     (case raw of
        YList items \<Rightarrow> if items = [] then Inl On_Empty else rtraverse (\<lambda>(i, item). parse_on_item i item) (enumerate 0 items)
      | v \<Rightarrow> Inl (On_Not_List v))"

definition parse_join_origin :: "yval \<Rightarrow> grammar_error + origin" where
  "parse_join_origin raw =
     rbind (parse_member ''origin'' origin_name VALID_ORIGINS raw) (\<lambda>org.
       if org = Dbt_Import then Inl Origin_Reserved else Inr org)"

definition parse_cardinality :: "yval \<Rightarrow> grammar_error + cardinality option" where
  "parse_cardinality raw =
     (if raw = YNone then Inr None
      else rbind (parse_member ''cardinality'' cardinality_name VALID_CARDINALITIES raw) (\<lambda>c. Inr (Some c)))"

definition parse_join_map :: "(yval \<times> yval) list \<Rightarrow> grammar_error + canonical_join" where
  "parse_join_map m =
     rbind (check_field_keys m [''version'', ''name'', ''description'', ''source_entity'', ''target_entity'', ''on'', ''origin'', ''cardinality'']
              [''version'', ''name'', ''source_entity'', ''target_entity'', ''on''] ''top-level'') (\<lambda>_.
     rbind (check_file_version (the (lookup m ''version''))) (\<lambda>_.
     rbind (require_str m ''name'') (\<lambda>name.
     rbind (default_str m ''description'' []) (\<lambda>description.
     rbind (require_str m ''source_entity'') (\<lambda>source_entity.
     rbind (require_str m ''target_entity'') (\<lambda>target_entity.
     rbind (parse_on_list (the (lookup m ''on''))) (\<lambda>on.
     rbind (parse_join_origin (get_default m ''origin'' (YStr ''manual''))) (\<lambda>org.
     rbind (parse_cardinality (get_default m ''cardinality'' YNone)) (\<lambda>card.
       constructed (check_canonical_join
         \<lparr>cj_name = name, cj_description = description, cj_source_entity = source_entity, cj_target_entity = target_entity,
          cj_on = on, cj_origin = org, cj_cardinality = card, cj_inference_method = Manually_Authored,
          cj_validation_state = Applied\<rparr>))))))))))"

definition parse_canonical_join_yaml :: "yaml_loader \<Rightarrow> string \<Rightarrow> grammar_error + canonical_join" where
  "parse_canonical_join_yaml load12 text = rbind (load_mapping load12 text) parse_join_map"

definition join_head :: "canonical_join \<Rightarrow> (yval \<times> yval) list" where
  "join_head j =
     [(YStr ''version'', YInt 1), (YStr ''name'', YStr (cj_name j))]
     @ (if cj_description j \<noteq> [] then [(YStr ''description'', YStr (cj_description j))] else [])
     @ [(YStr ''source_entity'', YStr (cj_source_entity j)), (YStr ''target_entity'', YStr (cj_target_entity j))]"

definition join_tail :: "canonical_join \<Rightarrow> (yval \<times> yval) list" where
  "join_tail j =
     (YStr ''origin'', YStr (origin_name (cj_origin j)))
     # (case cj_cardinality j of None \<Rightarrow> [] | Some c \<Rightarrow> [(YStr ''cardinality'', YStr (cardinality_name c))])"

text \<open>The head and the tail go through the dumper; the lines of \<^verbatim>\<open>on\<close> are put together by hand, columns unquoted.\<close>

definition on_lines :: "canonical_join \<Rightarrow> string list" where
  "on_lines j =
     ''\"on\":'' # concat (map (\<lambda>p. [''  - source: '' @ jp_source_column p, ''    target: '' @ jp_target_column p]) (cj_on j))"

definition canonical_join_to_yaml :: "(yval \<Rightarrow> string) \<Rightarrow> canonical_join \<Rightarrow> string" where
  "canonical_join_to_yaml safe_dump j =
     join_str [CHR 0x0A] ([rstrip (safe_dump (YMap (join_head j)))] @ on_lines j @ [rstrip (safe_dump (YMap (join_tail j)))])"

subsection \<open>Metrics\<close>

definition parse_measure :: "(string \<Rightarrow> string + py_expr) \<Rightarrow> yval \<Rightarrow> grammar_error + metric_measure" where
  "parse_measure ast_parse raw =
     (case raw of
        YMap m \<Rightarrow>
          rbind (check_field_keys m [''agg'', ''column'', ''expression''] [''agg''] ''measure'') (\<lambda>_.
          rbind (parse_member ''measure.agg'' agg_name VALID_AGGS (the (lookup m ''agg''))) (\<lambda>agg.
            case (lookup m ''column'', lookup m ''expression'') of
              (Some c, Some x) \<Rightarrow> Inl Measure_Both
            | (None, None) \<Rightarrow> Inl Measure_Neither
            | (Some (YStr c), None) \<Rightarrow>
                constructed (check_measure ast_parse \<lparr>mm_agg = agg, mm_column = Some c, mm_expression = None\<rparr>)
            | (Some v, None) \<Rightarrow> Inl (Field_Not_String ''measure.column'' v)
            | (None, Some (YStr x)) \<Rightarrow>
                constructed (check_measure ast_parse \<lparr>mm_agg = agg, mm_column = None, mm_expression = Some x\<rparr>)
            | (None, Some v) \<Rightarrow> Inl (Field_Not_String ''measure.expression'' v)))
      | v \<Rightarrow> Inl (Measure_Not_Mapping v))"

definition parse_time :: "yval option \<Rightarrow> yval option \<Rightarrow> grammar_error + string option \<times> time_grain list" where
  "parse_time dim grains =
     (case (dim, grains) of
        (Some d, None) \<Rightarrow> Inl Grains_Missing
      | (None, Some g) \<Rightarrow> Inl Dimension_Missing
      | (None, None) \<Rightarrow> Inr (None, [])
      | (Some (YStr d), Some (YList gs)) \<Rightarrow>
          if gs = [] then Inl Grains_Empty
          else rbind (rtraverse (parse_member ''time_grains'' grain_name TIME_GRAIN_ORDER) gs) (\<lambda>typed. Inr (Some d, typed))
      | (Some (YStr d), Some g) \<Rightarrow> Inl (Grains_Not_List g)
      | (Some v, Some g) \<Rightarrow> Inl (Field_Not_String ''time_dimension'' v))"

definition parse_metric_origin :: "yval \<Rightarrow> grammar_error + origin" where
  "parse_metric_origin raw =
     (if raw = YStr ''dbt_import'' then Inl Origin_Reserved else parse_member ''origin'' origin_name VALID_ORIGINS raw)"

definition parse_metric_map :: "(string \<Rightarrow> string + py_expr) \<Rightarrow> (yval \<times> yval) list \<Rightarrow> grammar_error + metric" where
  "parse_metric_map ast_parse m =
     rbind (check_field_keys m [''version'', ''name'', ''description'', ''entity'', ''measure'', ''time_dimension'', ''time_grains'', ''origin'']
              [''version'', ''name'', ''entity'', ''measure''] ''top-level'') (\<lambda>_.
     rbind (check_file_version (the (lookup m ''version''))) (\<lambda>_.
     rbind (require_str m ''name'') (\<lambda>name.
     rbind (default_str m ''description'' []) (\<lambda>description.
     rbind (require_str m ''entity'') (\<lambda>anchor.
     rbind (parse_measure ast_parse (the (lookup m ''measure''))) (\<lambda>mm.
     rbind (parse_time (lookup m ''time_dimension'') (lookup m ''time_grains'')) (\<lambda>(dim, grains).
     rbind (parse_metric_origin (get_default m ''origin'' (YStr ''manual''))) (\<lambda>org.
       constructed (check_metric
         \<lparr>mt_name = name, mt_description = description, mt_entity = anchor, mt_measure = mm, mt_time_dimension = dim,
          mt_time_grains = grains, mt_origin = org, mt_inference_method = Manually_Authored,
          mt_validation_state = Applied\<rparr>)))))))))"

definition parse_metric_yaml ::
  "(string \<Rightarrow> string + py_expr) \<Rightarrow> yaml_loader \<Rightarrow> string \<Rightarrow> grammar_error + metric" where
  "parse_metric_yaml ast_parse safe_load text = rbind (load_mapping safe_load text) (parse_metric_map ast_parse)"

definition measure_body :: "metric_measure \<Rightarrow> yval" where
  "measure_body mm = YMap
     [(YStr ''agg'', YStr (agg_name (mm_agg mm))),
      (case mm_column mm of
         Some c \<Rightarrow> (YStr ''column'', YStr c)
       | None \<Rightarrow> (YStr ''expression'', case mm_expression mm of Some x \<Rightarrow> YStr x | None \<Rightarrow> YNone))]"

definition metric_body :: "metric \<Rightarrow> yval" where
  "metric_body m = YMap
     ([(YStr ''version'', YInt 1), (YStr ''name'', YStr (mt_name m))]
      @ (if mt_description m \<noteq> [] then [(YStr ''description'', YStr (mt_description m))] else [])
      @ [(YStr ''entity'', YStr (mt_entity m)), (YStr ''measure'', measure_body (mt_measure m))]
      @ (case mt_time_dimension m of
           None \<Rightarrow> []
         | Some d \<Rightarrow> [(YStr ''time_dimension'', YStr d),
                      (YStr ''time_grains'', YList (map (\<lambda>g. YStr (grain_name g)) (mt_time_grains m)))])
      @ [(YStr ''origin'', YStr (origin_name (mt_origin m)))])"

definition metric_to_yaml :: "(yval \<Rightarrow> string) \<Rightarrow> metric \<Rightarrow> string" where
  "metric_to_yaml safe_dump m = rstrip (safe_dump (metric_body m))"

subsection \<open>Files\<close>

text \<open>What \<^verbatim>\<open>path.read_text\<close> can end in.\<close>

datatype file_read = Read_Text string | Read_Missing | Read_Directory | Read_Denied string | Read_Not_Utf8 string | Read_Failed string

definition file_text :: "file_read \<Rightarrow> grammar_error + string" where
  "file_text r =
     (case r of
        Read_Text t \<Rightarrow> Inr t
      | Read_Missing \<Rightarrow> Inl File_Not_Found
      | Read_Directory \<Rightarrow> Inl Is_A_Directory
      | Read_Denied e \<Rightarrow> Inl (Permission_Denied e)
      | Read_Not_Utf8 e \<Rightarrow> Inl (Not_Utf8 e)
      | Read_Failed e \<Rightarrow> Inl (Os_Failed e))"

definition parse_entity_yaml_file :: "yaml_loader \<Rightarrow> file_read \<Rightarrow> grammar_error + entity" where
  "parse_entity_yaml_file safe_load r = rbind (file_text r) (parse_entity_yaml safe_load)"

definition parse_canonical_join_yaml_file :: "yaml_loader \<Rightarrow> file_read \<Rightarrow> grammar_error + canonical_join" where
  "parse_canonical_join_yaml_file load12 r = rbind (file_text r) (parse_canonical_join_yaml load12)"

definition parse_metric_yaml_file ::
  "(string \<Rightarrow> string + py_expr) \<Rightarrow> yaml_loader \<Rightarrow> file_read \<Rightarrow> grammar_error + metric" where
  "parse_metric_yaml_file ast_parse safe_load r = rbind (file_text r) (parse_metric_yaml ast_parse safe_load)"

subsection \<open>What is accepted\<close>

lemma constructed_Inr: "constructed r = Inr x \<longleftrightarrow> r = Inr x"
  by (simp add: constructed_def split: sum.splits)

lemma parse_member_Inr: "parse_member field name xs raw = Inr x \<Longrightarrow> x \<in> set xs \<and> raw = YStr (name x)"
  by (auto simp: parse_member_def find_Some_iff split: yval.splits option.splits)

lemma check_entity_Inr: "check_entity e = Inr e' \<longleftrightarrow> e' = e \<and> is_ident (en_name e) \<and> is_ident (en_identity e)"
  by (auto simp: check_entity_def)

lemma make_binding_Inr: "make_binding q = Inr b \<longleftrightarrow> bd_qualified_table b = q \<and> match_qualified q \<noteq> None"
  by (cases b) (auto simp: make_binding_def)

lemma parse_binding_ok: "parse_binding raw = Inr b \<Longrightarrow> match_qualified (bd_qualified_table b) \<noteq> None"
  by (auto simp: parse_binding_def Let_def constructed_Inr make_binding_Inr split: yval.splits if_splits)

definition by_hand :: "inference_method \<Rightarrow> validation_state \<Rightarrow> bool" where
  "by_hand im vs \<longleftrightarrow> im = Manually_Authored \<and> vs = Applied"

lemma parse_entity_map_ok:
  assumes "parse_entity_map m = Inr e"
  shows "entity_ok e \<and> by_hand (en_inference_method e) (en_validation_state e)"
  using assms
  by (auto simp: parse_entity_map_def result_simps constructed_Inr check_entity_Inr entity_ok_def by_hand_def
      en_qualified_table_def dest: parse_binding_ok)

lemma parse_on_item_ok: "parse_on_item i item = Inr p \<Longrightarrow> pair_ok p"
  by (auto simp: parse_on_item_def make_join_column_pair_def constructed_Inr result_simps pair_ok_def
      split: yval.splits if_splits)

lemma parse_on_list_ok: "parse_on_list raw = Inr on \<Longrightarrow> list_all pair_ok on"
  unfolding list_all_iff
  by (auto simp: parse_on_list_def split: yval.splits if_splits dest!: rtraverse_Inr_set parse_on_item_ok)

lemma parse_join_map_ok:
  assumes "parse_join_map m = Inr j"
  shows "join_ok j \<and> cj_origin j \<noteq> Dbt_Import \<and> by_hand (cj_inference_method j) (cj_validation_state j)"
proof -
  obtain n d s t on org c where on: "parse_on_list (the (lookup m ''on'')) = Inr on"
    and org: "parse_join_origin (get_default m ''origin'' (YStr ''manual'')) = Inr org"
    and j: "check_canonical_join \<lparr>cj_name = n, cj_description = d, cj_source_entity = s, cj_target_entity = t, cj_on = on,
      cj_origin = org, cj_cardinality = c, cj_inference_method = Manually_Authored, cj_validation_state = Applied\<rparr> = Inr j"
    using assms by (auto simp: parse_join_map_def result_simps constructed_Inr)
  have "org \<noteq> Dbt_Import" using org by (auto simp: parse_join_origin_def result_simps split: if_splits)
  moreover have "list_all pair_ok on" using on by (rule parse_on_list_ok)
  ultimately show ?thesis using j
    by (auto simp: check_canonical_join_def join_ok_def by_hand_def split: if_splits)
qed

lemma check_measure_same: "check_measure ast_parse mm = Inr mm' \<Longrightarrow> mm' = mm"
  by (auto simp: check_measure_def split: if_splits option.splits sum.splits)

lemma check_measure_ok: "check_measure ast_parse mm = Inr mm' \<Longrightarrow> measure_ok ast_parse mm'"
  using check_measure_same [of ast_parse mm mm'] by (simp add: measure_ok_def)

lemma parse_measure_ok:
  assumes "parse_measure ast_parse raw = Inr mm"
  shows "measure_ok ast_parse mm"
proof -
  obtain m where m: "raw = YMap m" using assms by (cases raw) (simp_all add: parse_measure_def)
  have constr: "check_measure ast_parse mm' = Inr mm \<Longrightarrow> measure_ok ast_parse mm" for mm' by (rule check_measure_ok)
  obtain agg where k: "(case (lookup m ''column'', lookup m ''expression'') of
              (Some c, Some x) \<Rightarrow> Inl Measure_Both
            | (None, None) \<Rightarrow> Inl Measure_Neither
            | (Some (YStr c), None) \<Rightarrow>
                constructed (check_measure ast_parse \<lparr>mm_agg = agg, mm_column = Some c, mm_expression = None\<rparr>)
            | (Some v, None) \<Rightarrow> Inl (Field_Not_String ''measure.column'' v)
            | (None, Some (YStr x)) \<Rightarrow>
                constructed (check_measure ast_parse \<lparr>mm_agg = agg, mm_column = None, mm_expression = Some x\<rparr>)
            | (None, Some v) \<Rightarrow> Inl (Field_Not_String ''measure.expression'' v)) = Inr mm"
    using assms unfolding parse_measure_def m yval.case by (elim rbind_InrE)
  show ?thesis
  proof (cases "lookup m ''column''")
    case None
    then show ?thesis using k constr by (simp add: constructed_Inr split: option.splits yval.splits)
  next
    case (Some v)
    then show ?thesis using k constr by (cases v) (simp_all add: constructed_Inr split: option.splits)
  qed
qed

lemma check_metric_same: "check_metric m = Inr m' \<Longrightarrow> m' = m"
  by (auto simp: check_metric_def split: if_splits option.splits)

lemma parse_metric_map_ok:
  assumes "parse_metric_map ast_parse m = Inr mt"
  shows "metric_ok ast_parse mt \<and> mt_origin mt \<noteq> Dbt_Import \<and> by_hand (mt_inference_method mt) (mt_validation_state mt)"
proof -
  obtain n d anchor mm dim gs org where mm: "parse_measure ast_parse (the (lookup m ''measure'')) = Inr mm"
    and org: "parse_metric_origin (get_default m ''origin'' (YStr ''manual'')) = Inr org"
    and mt: "check_metric \<lparr>mt_name = n, mt_description = d, mt_entity = anchor, mt_measure = mm, mt_time_dimension = dim,
      mt_time_grains = gs, mt_origin = org, mt_inference_method = Manually_Authored, mt_validation_state = Applied\<rparr> = Inr mt"
    using assms by (auto simp: parse_metric_map_def result_simps constructed_Inr)
  have "org \<noteq> Dbt_Import" using org by (auto simp: parse_metric_origin_def dest: parse_member_Inr split: if_splits)
  moreover have "measure_ok ast_parse mm" using mm by (rule parse_measure_ok)
  ultimately show ?thesis using mt check_metric_same [OF mt] by (auto simp: metric_ok_def by_hand_def)
qed

lemma load_mapping_Inr: "load_mapping load text = Inr m \<longleftrightarrow> load text = Inr (YMap m)"
  by (auto simp: load_mapping_def split: sum.splits yval.splits load_error.splits)

text \<open>Whatever the loader makes of the text, a definition that one of the three parsers accepts satisfies the
  constructor's invariant and carries the trust of a hand-written one; a join or a metric from a file is never marked
  as owned by dbt (an entity may be).\<close>

theorem accepted_files_valid:
  "(parse_entity_yaml load text = Inr e \<longrightarrow>
      entity_ok e \<and> by_hand (en_inference_method e) (en_validation_state e)) \<and>
   (parse_canonical_join_yaml load text = Inr j \<longrightarrow>
      join_ok j \<and> cj_origin j \<noteq> Dbt_Import \<and> by_hand (cj_inference_method j) (cj_validation_state j)) \<and>
   (parse_metric_yaml ast_parse load text = Inr m \<longrightarrow>
      metric_ok ast_parse m \<and> mt_origin m \<noteq> Dbt_Import \<and> by_hand (mt_inference_method m) (mt_validation_state m))"
proof (intro conjI impI)
  assume "parse_entity_yaml load text = Inr e"
  then obtain k where "parse_entity_map k = Inr e" unfolding parse_entity_yaml_def by (elim rbind_InrE)
  note v = parse_entity_map_ok [OF this]
  show "entity_ok e" "by_hand (en_inference_method e) (en_validation_state e)" using v by simp_all
next
  assume "parse_canonical_join_yaml load text = Inr j"
  then obtain k where "parse_join_map k = Inr j" unfolding parse_canonical_join_yaml_def by (elim rbind_InrE)
  note v = parse_join_map_ok [OF this]
  show "join_ok j" "cj_origin j \<noteq> Dbt_Import" "by_hand (cj_inference_method j) (cj_validation_state j)"
    using v by simp_all
next
  assume "parse_metric_yaml ast_parse load text = Inr m"
  then obtain k where "parse_metric_map ast_parse k = Inr m" unfolding parse_metric_yaml_def by (elim rbind_InrE)
  note v = parse_metric_map_ok [OF this]
  show "metric_ok ast_parse m" "mt_origin m \<noteq> Dbt_Import" "by_hand (mt_inference_method m) (mt_validation_state m)"
    using v by simp_all
qed

subsection \<open>Round trips\<close>

lemma parse_member_names:
  "parse_member f origin_name VALID_ORIGINS (YStr (origin_name x)) = Inr x"
  "parse_member f group_name VALID_GROUPS (YStr (group_name g)) = Inr g"
  "parse_member f cardinality_name VALID_CARDINALITIES (YStr (cardinality_name c)) = Inr c"
  "parse_member f agg_name VALID_AGGS (YStr (agg_name a)) = Inr a"
  "parse_member f grain_name TIME_GRAIN_ORDER (YStr (grain_name t)) = Inr t"
  by (cases x, simp_all add: parse_member_def vocabulary_defs)
    (cases g, simp_all add: parse_member_def vocabulary_defs,
     cases c, simp_all add: parse_member_def vocabulary_defs,
     cases a, simp_all add: parse_member_def vocabulary_defs,
     cases t, simp_all add: parse_member_def vocabulary_defs)

lemma origin_name_dbt: "origin_name x = ''dbt_import'' \<longleftrightarrow> x = Dbt_Import"
  by (cases x) simp_all

lemmas document_defs = check_field_keys_def Let_def lookup_def check_file_version_def rcheck_def require_str_def
  default_str_def get_default_def

definition hand_entity :: "entity \<Rightarrow> entity" where
  "hand_entity e = e\<lparr>en_inference_method := Manually_Authored, en_validation_state := Applied,
     en_bind_confidence := None, en_rationale := []\<rparr>"

definition hand_join :: "canonical_join \<Rightarrow> canonical_join" where
  "hand_join j = j\<lparr>cj_inference_method := Manually_Authored, cj_validation_state := Applied\<rparr>"

definition hand_metric :: "metric \<Rightarrow> metric" where
  "hand_metric m = m\<lparr>mt_inference_method := Manually_Authored, mt_validation_state := Applied\<rparr>"

lemma parse_binding_body:
  "match_qualified q \<noteq> None \<Longrightarrow> parse_binding (YMap [(YStr ''single_table'', YStr q)]) = Inr \<lparr>bd_qualified_table = q\<rparr>"
  by (simp add: parse_binding_def lookup_def make_binding_def constructed_def)

lemma ident_nonempty: "is_ident s \<Longrightarrow> s \<noteq> []"
  by auto

lemma parse_entity_body:
  assumes "entity_ok e" "load text = Inr (entity_body e)"
  shows "parse_entity_yaml load text = Inr (hand_entity e)"
proof -
  have b: "parse_binding (YMap [(YStr ''single_table'', YStr (en_qualified_table e))]) = Inr (en_binding e)"
    using assms(1) by (simp add: parse_binding_body entity_ok_def en_qualified_table_def)
  have n: "en_name e \<noteq> []" "en_identity e \<noteq> []" using assms(1) by (auto simp: entity_ok_def)
  have o: "parse_origin (YStr (origin_name (en_origin e))) = Inr (en_origin e)"
    "parse_group (YStr (group_name (en_group e))) = Inr (en_group e)" "parse_group (YStr ''other'') = Inr Other_Group"
    by (simp_all add: parse_origin_def parse_group_def parse_member_names)
      (simp add: parse_member_def vocabulary_defs)
  have c: "check_entity x = Inr x" if "en_name x = en_name e" "en_identity x = en_identity e" for x
    using assms(1) that by (simp add: check_entity_def entity_ok_def)
  show ?thesis
    using n by (cases "en_description e = []"; cases "en_group e = Other_Group")
      (simp_all add: parse_entity_yaml_def load_mapping_def assms(2) entity_body_def parse_entity_map_def document_defs
        b o c constructed_def hand_entity_def)
qed

text \<open>An identifier written without quotes: the words that YAML 1.2 resolves to something else are read as that.\<close>

definition plain_scalar :: "string \<Rightarrow> yval" where
  "plain_scalar w =
     (if w \<in> {''null'', ''Null'', ''NULL''} then YNone
      else if w \<in> {''true'', ''True'', ''TRUE''} then YBool True
      else if w \<in> {''false'', ''False'', ''FALSE''} then YBool False
      else YStr w)"

definition yaml_word :: "string \<Rightarrow> bool" where
  "yaml_word w \<longleftrightarrow> plain_scalar w \<noteq> YStr w"

definition pair_node :: "join_column_pair \<Rightarrow> yval" where
  "pair_node p = YMap [(YStr ''source'', plain_scalar (jp_source_column p)), (YStr ''target'', plain_scalar (jp_target_column p))]"

definition on_document :: "canonical_join \<Rightarrow> yval" where
  "on_document j = YMap (join_head j @ (YStr ''on'', YList (map pair_node (cj_on j))) # join_tail j)"

text \<open>What YAML makes of a text put together of blocks, each a dumped mapping or a list of flow-free items under a quoted key
  whose values are written as they are: one mapping with all their entries, the values read as plain scalars.\<close>

datatype yaml_block = Dumped "(yval \<times> yval) list" | Items string "(string \<times> string) list list"

fun item_lines :: "(string \<times> string) list \<Rightarrow> string list" where
  "item_lines [] = []"
| "item_lines ((k, v) # kvs) = (''  - '' @ k @ '': '' @ v) # map (\<lambda>(k, v). ''    '' @ k @ '': '' @ v) kvs"

fun block_lines :: "(yval \<Rightarrow> string) \<Rightarrow> yaml_block \<Rightarrow> string list" where
  "block_lines dump (Dumped m) = [rstrip (dump (YMap m))]"
| "block_lines dump (Items key items) = (CHR 0x22 # key @ [CHR 0x22, CHR '':'']) # concat (map item_lines items)"

fun block_entries :: "yaml_block \<Rightarrow> (yval \<times> yval) list" where
  "block_entries (Dumped m) = m"
| "block_entries (Items key items) = [(YStr key, YList (map (\<lambda>kvs. YMap (map (\<lambda>(k, v). (YStr k, plain_scalar v)) kvs)) items))]"

definition block_text :: "(yval \<Rightarrow> string) \<Rightarrow> yaml_block list \<Rightarrow> string" where
  "block_text dump bs = join_str [CHR 0x0A] (concat (map (block_lines dump) bs))"

definition loads_blocks :: "yaml_loader \<Rightarrow> (yval \<Rightarrow> string) \<Rightarrow> yaml_block list \<Rightarrow> bool" where
  "loads_blocks load dump bs \<longleftrightarrow> load (block_text dump bs) = Inr (YMap (concat (map block_entries bs)))"

text \<open>The file of a join in blocks: what has to be in it, whoever prints it.\<close>

definition join_blocks :: "canonical_join \<Rightarrow> yaml_block list" where
  "join_blocks j =
     [Dumped ([(YStr ''version'', YInt 1), (YStr ''name'', YStr (cj_name j))]
        @ (if cj_description j = [] then [] else [(YStr ''description'', YStr (cj_description j))])
        @ [(YStr ''source_entity'', YStr (cj_source_entity j)), (YStr ''target_entity'', YStr (cj_target_entity j))]),
      Items ''on'' (map (\<lambda>p. [(''source'', jp_source_column p), (''target'', jp_target_column p)]) (cj_on j)),
      Dumped ((YStr ''origin'', YStr (origin_name (cj_origin j)))
        # (case cj_cardinality j of None \<Rightarrow> [] | Some c \<Rightarrow> [(YStr ''cardinality'', YStr (cardinality_name c))]))]"

lemma join_blocks_parts:
  "join_blocks j = [Dumped (join_head j),
     Items ''on'' (map (\<lambda>p. [(''source'', jp_source_column p), (''target'', jp_target_column p)]) (cj_on j)), Dumped (join_tail j)]"
  by (simp add: join_blocks_def join_head_def join_tail_def)

lemma join_printed: "canonical_join_to_yaml dump j = block_text dump (join_blocks j)"
  by (simp add: canonical_join_to_yaml_def block_text_def join_blocks_parts on_lines_def comp_def)

lemma join_loaded: "concat (map block_entries (join_blocks j)) = join_head j @ (YStr ''on'', YList (map pair_node (cj_on j))) # join_tail j"
  by (simp add: join_blocks_parts pair_node_def comp_def)

definition pair_plain :: "join_column_pair \<Rightarrow> bool" where
  "pair_plain p \<longleftrightarrow> \<not> yaml_word (jp_source_column p) \<and> \<not> yaml_word (jp_target_column p)"

lemma plain_scalar_cases: "plain_scalar w \<in> {YStr w, YNone, YBool True, YBool False}"
  by (simp add: plain_scalar_def)

lemma parse_on_item_plain: "pair_ok p \<Longrightarrow> pair_plain p \<Longrightarrow> parse_on_item i (pair_node p) = Inr p"
  by (auto simp: parse_on_item_def pair_node_def pair_plain_def yaml_word_def document_defs pair_ok_def
      make_join_column_pair_def constructed_def)

lemma parse_on_item_word:
  assumes "pair_ok p" "\<not> pair_plain p"
  shows "\<exists>f v. parse_on_item i (pair_node p) = Inl (On_Field_Bad i f v)"
proof (cases "yaml_word (jp_source_column p)")
  case True
  then show ?thesis using plain_scalar_cases [of "jp_source_column p"]
    by (auto simp: parse_on_item_def pair_node_def yaml_word_def document_defs)
next
  case False
  then have "yaml_word (jp_target_column p)" using assms(2) by (simp add: pair_plain_def)
  then show ?thesis using False assms(1) plain_scalar_cases [of "jp_target_column p"]
    by (auto simp: parse_on_item_def pair_node_def yaml_word_def document_defs pair_ok_def)
qed

lemma traverse_pairs_plain:
  "list_all pair_ok ps \<Longrightarrow> list_all pair_plain ps \<Longrightarrow>
     rtraverse (\<lambda>(i, item). parse_on_item i item) (enumerate n (map pair_node ps)) = Inr ps"
  by (induction ps arbitrary: n) (simp_all add: parse_on_item_plain)

lemma traverse_pairs_word:
  "list_all pair_ok ps \<Longrightarrow> \<not> list_all pair_plain ps \<Longrightarrow>
     \<exists>i f v. rtraverse (\<lambda>(i, item). parse_on_item i item) (enumerate n (map pair_node ps)) = Inl (On_Field_Bad i f v)"
proof (induction ps arbitrary: n)
  case (Cons p ps)
  show ?case
  proof (cases "pair_plain p")
    case True
    then obtain i f v where "rtraverse (\<lambda>(i, item). parse_on_item i item) (enumerate (Suc n) (map pair_node ps))
        = Inl (On_Field_Bad i f v)" using Cons.IH [of "Suc n"] Cons.prems by auto
    then show ?thesis using True Cons.prems by (simp add: parse_on_item_plain)
  next
    case False
    then obtain f v where "parse_on_item n (pair_node p) = Inl (On_Field_Bad n f v)"
      using parse_on_item_word [of p n] Cons.prems(1) by auto
    then show ?thesis by simp
  qed
qed simp

lemma parse_join_document:
  assumes "join_ok j" "load text = Inr (on_document j)"
  shows "parse_canonical_join_yaml load text =
    rbind (parse_on_list (YList (map pair_node (cj_on j)))) (\<lambda>on.
      if cj_origin j = Dbt_Import then Inl Origin_Reserved
      else constructed (check_canonical_join ((hand_join j)\<lparr>cj_on := on\<rparr>)))"
proof -
  have n: "cj_name j \<noteq> []" "cj_source_entity j \<noteq> []" "cj_target_entity j \<noteq> []" using assms(1) by (auto simp: join_ok_def)
  have o: "parse_join_origin (YStr ''dbt_import'') = Inl Origin_Reserved"
    "cj_origin j \<noteq> Dbt_Import \<Longrightarrow> parse_join_origin (YStr (origin_name (cj_origin j))) = Inr (cj_origin j)"
    using parse_member_names(1) [of "''origin''" Dbt_Import]
    by (simp_all add: parse_join_origin_def parse_member_names)
  have h: "(hand_join j)\<lparr>cj_on := on\<rparr> = \<lparr>cj_name = cj_name j, cj_description = cj_description j,
      cj_source_entity = cj_source_entity j, cj_target_entity = cj_target_entity j, cj_on = on, cj_origin = cj_origin j,
      cj_cardinality = cj_cardinality j, cj_inference_method = Manually_Authored, cj_validation_state = Applied\<rparr>" for on
    by (cases j) (simp add: hand_join_def)
  have c: "parse_cardinality (YStr (cardinality_name k)) = Inr (Some k)" "parse_cardinality YNone = Inr None" for k
    by (simp_all add: parse_cardinality_def parse_member_names)
  show ?thesis
    using n by (cases "cj_description j = []"; cases "cj_cardinality j"; cases "cj_origin j = Dbt_Import")
      (simp_all add: parse_canonical_join_yaml_def load_mapping_def assms(2) on_document_def join_head_def join_tail_def
        parse_join_map_def document_defs o c h)
qed

lemma parse_time_body:
  "gs \<noteq> [] \<Longrightarrow> parse_time (Some (YStr d)) (Some (YList (map (\<lambda>g. YStr (grain_name g)) gs))) = Inr (Some d, gs)"
proof -
  have "rtraverse (parse_member ''time_grains'' grain_name TIME_GRAIN_ORDER) (map (\<lambda>g. YStr (grain_name g)) gs) = Inr gs"
    by (rule rtraverse_map_id) (simp add: parse_member_names)
  then show "gs \<noteq> [] \<Longrightarrow> ?thesis" by (simp add: parse_time_def)
qed

lemma parse_measure_body: "measure_ok ast_parse mm \<Longrightarrow> parse_measure ast_parse (measure_body mm) = Inr mm"
proof -
  assume ok: "measure_ok ast_parse mm"
  have c_eq: "check_measure ast_parse \<lparr>mm_agg = mm_agg mm, mm_column = mm_column mm, mm_expression = mm_expression mm\<rparr> = Inr mm"
    using ok by (cases mm) (simp add: measure_ok_def)
  show ?thesis using ok
  proof (cases rule: measure_ok_cases)
    case (column c)
    then show ?thesis using c_eq
      by (simp add: parse_measure_def measure_body_def document_defs parse_member_names constructed_def)
  next
    case (expression x p)
    then show ?thesis using c_eq
      by (simp add: parse_measure_def measure_body_def document_defs parse_member_names constructed_def)
  qed
qed

lemma parse_metric_body:
  assumes "metric_ok ast_parse m" "load text = Inr (metric_body m)"
  shows "parse_metric_yaml ast_parse load text =
    (if mt_origin m = Dbt_Import then Inl Origin_Reserved else Inr (hand_metric m))"
proof -
  have ck: "check_metric m = Inr m" and mm: "measure_ok ast_parse (mt_measure m)" using assms(1) by (simp_all add: metric_ok_def)
  have n: "mt_name m \<noteq> []" "mt_entity m \<noteq> []" and g: "mt_time_dimension m = None \<longleftrightarrow> mt_time_grains m = []"
    using ck by (auto simp: check_metric_def split: if_splits)
  have o: "parse_metric_origin (YStr ''dbt_import'') = Inl Origin_Reserved"
    "mt_origin m \<noteq> Dbt_Import \<Longrightarrow> parse_metric_origin (YStr (origin_name (mt_origin m))) = Inr (mt_origin m)"
    by (simp_all add: parse_metric_origin_def parse_member_names origin_name_dbt)
  have h: "hand_metric m = \<lparr>mt_name = mt_name m, mt_description = mt_description m, mt_entity = mt_entity m,
      mt_measure = mt_measure m, mt_time_dimension = mt_time_dimension m, mt_time_grains = mt_time_grains m,
      mt_origin = mt_origin m, mt_inference_method = Manually_Authored, mt_validation_state = Applied\<rparr>"
    by (cases m) (simp add: hand_metric_def)
  have c: "constructed (check_metric (hand_metric m)) = Inr (hand_metric m)"
    using ck by (auto simp: check_metric_def hand_metric_def constructed_def split: if_splits)
  note rules = parse_metric_yaml_def load_mapping_def assms(2) metric_body_def parse_metric_map_def document_defs o
    parse_measure_body [OF mm]
  show ?thesis
  proof (cases "mt_time_dimension m")
    case None
    then have "parse_time None None = Inr (mt_time_dimension m, mt_time_grains m)" using g by (simp add: parse_time_def)
    then show ?thesis using n c None unfolding h
      by (cases "mt_description m = []"; cases "mt_origin m = Dbt_Import") (simp_all add: rules)
  next
    case (Some d)
    then have "parse_time (Some (YStr d)) (Some (YList (map (\<lambda>g. YStr (grain_name g)) (mt_time_grains m))))
        = Inr (mt_time_dimension m, mt_time_grains m)" using g by (simp add: parse_time_body)
    then show ?thesis using n c Some unfolding h
      by (cases "mt_description m = []"; cases "mt_origin m = Dbt_Import") (simp_all add: rules)
  qed
qed

text \<open>Exporting an entity and reading the file back gives the entity with its trust reset to that of a hand-written
  one: besides the two fields the emitter names, the confidence and the rationale of a suggestion are gone; the origin
  survives, also that of dbt.\<close>

theorem entity_yaml_roundtrip:
  assumes "entity_ok e" "safe_load (rstrip (safe_dump (entity_body e))) = Inr (entity_body e)"
  shows "parse_entity_yaml safe_load (entity_to_yaml safe_dump e) = Inr (hand_entity e)"
  using assms by (simp add: entity_to_yaml_def parse_entity_body)

text \<open>C32: Exporting a metric and reading the file back gives the metric with its trust reset, except that a metric
  imported from dbt is exported as a file its own parser refuses.\<close>

theorem metric_yaml_roundtrip:
  assumes "metric_ok ast_parse m" "safe_load (rstrip (safe_dump (metric_body m))) = Inr (metric_body m)"
  shows "parse_metric_yaml ast_parse safe_load (metric_to_yaml safe_dump m) =
    (if mt_origin m = Dbt_Import then Inl Origin_Reserved else Inr (hand_metric m))"
  using assms by (simp add: metric_to_yaml_def parse_metric_body)

text \<open>C33: What the emitter of joins prints is a file from which the join reads back with
  its trust reset, if no column of it is a word of YAML (\<^verbatim>\<open>null\<close>, \<^verbatim>\<open>true\<close>, \<^verbatim>\<open>false\<close>) and it is not owned by dbt; with such a
  column, which the emitter leaves unquoted, the exported file is refused. Of the loader and the dumper it is used that a text of three blocks, a
  dumped mapping, the items of \<^verbatim>\<open>on\<close> and a dumped mapping, with the fields of the join written out, loads as one mapping; that the
  emitter prints this text is part of what is proved.\<close>

theorem join_yaml_roundtrip:
  assumes "join_ok j" "loads_blocks load12 safe_dump (join_blocks j)"
  shows "if list_all pair_plain (cj_on j)
    then parse_canonical_join_yaml load12 (canonical_join_to_yaml safe_dump j) =
      (if cj_origin j = Dbt_Import then Inl Origin_Reserved else Inr (hand_join j))
    else \<exists>i f v. parse_canonical_join_yaml load12 (canonical_join_to_yaml safe_dump j) = Inl (On_Field_Bad i f v)"
proof -
  have ps: "list_all pair_ok (cj_on j)" "cj_on j \<noteq> []" using assms(1) by (simp_all add: join_ok_def)
  have l: "parse_on_list (YList (map pair_node (cj_on j))) =
      rtraverse (\<lambda>(i, item). parse_on_item i item) (enumerate 0 (map pair_node (cj_on j)))"
    using ps(2) by (simp add: parse_on_list_def)
  have c: "constructed (check_canonical_join ((hand_join j)\<lparr>cj_on := cj_on j\<rparr>)) = Inr (hand_join j)"
    using assms(1) by (cases j) (simp add: check_canonical_join_def join_ok_def hand_join_def constructed_def)
  have "load12 (canonical_join_to_yaml safe_dump j) = Inr (on_document j)"
    using assms(2) by (simp add: loads_blocks_def join_printed join_loaded on_document_def)
  note reads = parse_join_document [OF assms(1), of load12 "canonical_join_to_yaml safe_dump j", OF this]
  show ?thesis
  proof (cases "list_all pair_plain (cj_on j)")
    case True
    have "parse_on_list (YList (map pair_node (cj_on j))) = Inr (cj_on j)"
      unfolding l by (rule traverse_pairs_plain [OF ps(1) True])
    then show ?thesis using True c by (simp add: reads)
  next
    case False
    then obtain i f v where "parse_on_list (YList (map pair_node (cj_on j))) = Inl (On_Field_Bad i f v)"
      unfolding l using traverse_pairs_word [OF ps(1) False, of 0] by blast
    then show ?thesis using False by (simp add: reads)
  qed
qed

subsection \<open>Concrete files\<close>

definition mined_entity :: entity where
  "mined_entity = \<lparr>en_name = ''order'', en_description = [], en_binding = \<lparr>bd_qualified_table = ''public.orders''\<rparr>,
     en_identity = ''id'', en_origin = Dbt_Import, en_inference_method = Llm_Suggested, en_validation_state = Draft,
     en_group = Billing, en_bind_confidence = Some Bind_High, en_rationale = ''name''\<rparr>"

definition revenue_metric :: "origin \<Rightarrow> metric" where
  "revenue_metric org = \<lparr>mt_name = ''revenue'', mt_description = ''sum'', mt_entity = ''order'',
     mt_measure = \<lparr>mm_agg = Agg_Sum, mm_column = Some ''total'', mm_expression = None\<rparr>,
     mt_time_dimension = Some ''order.created_at'', mt_time_grains = [Day, Month], mt_origin = org,
     mt_inference_method = Inferred_Dbt, mt_validation_state = Draft\<rparr>"

definition flag_join :: "string \<Rightarrow> canonical_join" where
  "flag_join col = \<lparr>cj_name = ''order_customer'', cj_description = [], cj_source_entity = ''order'',
     cj_target_entity = ''customer'', cj_on = [\<lparr>jp_source_column = col, jp_target_column = ''id''\<rparr>],
     cj_origin = Suggested, cj_cardinality = Some Many_To_One, cj_inference_method = Fk_Constraint,
     cj_validation_state = Confirmed\<rparr>"

lemma concrete_ok:
  "entity_ok mined_entity" "metric_ok p (revenue_metric org)"
  "join_ok (flag_join ''customer_id'')" "join_ok (flag_join ''null'')"
  by (simp_all add: entity_ok_def mined_entity_def en_qualified_table_def match_qualified_def split1_def metric_ok_def measure_ok_def
      check_metric_def check_measure_def revenue_metric_def join_ok_def flag_join_def pair_ok_def char_class_defs)

theorem entity_yaml_roundtrip_witness:
  "parse_entity_yaml (\<lambda>t. Inr (entity_body mined_entity)) (entity_to_yaml (\<lambda>v. []) mined_entity) =
     Inr (mined_entity\<lparr>en_inference_method := Manually_Authored, en_validation_state := Applied,
       en_bind_confidence := None, en_rationale := []\<rparr>)"
  by (subst entity_yaml_roundtrip [OF concrete_ok(1)]) (simp_all add: hand_entity_def)

theorem metric_yaml_roundtrip_witness:
  "parse_metric_yaml Inl (\<lambda>t. Inr (metric_body (revenue_metric Dbt_Import))) (metric_to_yaml (\<lambda>v. []) (revenue_metric Dbt_Import)) =
     Inl Origin_Reserved \<and>
   parse_metric_yaml Inl (\<lambda>t. Inr (metric_body (revenue_metric Manual))) (metric_to_yaml (\<lambda>v. []) (revenue_metric Manual)) =
     Inr (hand_metric (revenue_metric Manual))"
  using metric_yaml_roundtrip [OF concrete_ok(2), of "\<lambda>t. Inr (metric_body (revenue_metric Dbt_Import))" "\<lambda>v. []" Dbt_Import Inl]
    metric_yaml_roundtrip [OF concrete_ok(2), of "\<lambda>t. Inr (metric_body (revenue_metric Manual))" "\<lambda>v. []" Manual Inl]
  by (simp add: revenue_metric_def)

text \<open>A dumper of flat mappings and a loader of texts in blocks, line by line.\<close>

definition line_dump :: "yval \<Rightarrow> string" where
  "line_dump v = (case v of
     YMap m \<Rightarrow> concat (map (\<lambda>(k, x). (case k of YStr s \<Rightarrow> s | _ \<Rightarrow> []) @ '': '' @
       (case x of YStr s \<Rightarrow> s | YInt i \<Rightarrow> (if i = 1 then ''1'' else ''0'') | _ \<Rightarrow> []) @ [CHR 0x0A]) m)
   | _ \<Rightarrow> [])"

definition line_field :: "string \<Rightarrow> yval \<times> yval" where
  "line_field l = (case split1 CHR '':'' l of (k, r) \<Rightarrow>
     (YStr k, case r of None \<Rightarrow> YNone | Some v \<Rightarrow> if drop 1 v = ''1'' then YInt 1 else plain_scalar (drop 1 v)))"

text \<open>One line more, read from the end of the text: the items and the fields of the item still open, and the entries below.\<close>

definition line_step :: "string \<Rightarrow> (yval \<times> yval) list \<times> yval list \<times> (yval \<times> yval) list \<Rightarrow> (yval \<times> yval) list \<times> yval list \<times> (yval \<times> yval) list" where
  "line_step l = (\<lambda>(open, items, entries).
     if take 4 l = ''    '' then (line_field (drop 4 l) # open, items, entries)
     else if take 4 l = ''  - '' then ([], YMap (line_field (drop 4 l) # open) # items, entries)
     else if take 1 l = [CHR 0x22] then ([], [], (YStr (takeWhile (\<lambda>c. c \<noteq> CHR 0x22) (drop 1 l)), YList items) # entries)
     else (open, items, line_field l # entries))"

definition line_load :: yaml_loader where
  "line_load t = Inr (YMap (snd (snd (foldr line_step (split_on (CHR 0x0A) t) ([], [], [])))))"

lemma line_load_blocks:
  "loads_blocks line_load line_dump (join_blocks (flag_join ''customer_id''))" "loads_blocks line_load line_dump (join_blocks (flag_join ''null''))"
  unfolding loads_blocks_def by code_simp+

theorem join_yaml_roundtrip_witness:
  "parse_canonical_join_yaml line_load (canonical_join_to_yaml line_dump (flag_join ''customer_id'')) = Inr (hand_join (flag_join ''customer_id'')) \<and>
   (\<exists>i f v. parse_canonical_join_yaml line_load (canonical_join_to_yaml line_dump (flag_join ''null'')) = Inl (On_Field_Bad i f v))"
proof (rule conjI)
  have "list_all pair_plain (cj_on (flag_join ''customer_id''))" "cj_origin (flag_join ''customer_id'') \<noteq> Dbt_Import"
    by (simp_all add: flag_join_def pair_plain_def yaml_word_def plain_scalar_def)
  then show "parse_canonical_join_yaml line_load (canonical_join_to_yaml line_dump (flag_join ''customer_id'')) = Inr (hand_join (flag_join ''customer_id''))"
    using join_yaml_roundtrip [OF concrete_ok(3) line_load_blocks(1)] by simp
  have "\<not> list_all pair_plain (cj_on (flag_join ''null''))"
    by (simp add: flag_join_def pair_plain_def yaml_word_def plain_scalar_def)
  then show "\<exists>i f v. parse_canonical_join_yaml line_load (canonical_join_to_yaml line_dump (flag_join ''null'')) = Inl (On_Field_Bad i f v)"
    using join_yaml_roundtrip [OF concrete_ok(4) line_load_blocks(2)] by simp
qed

theorem accepted_files_valid_witness:
  "entity_ok (hand_entity mined_entity) \<and> join_ok (hand_join (flag_join ''customer_id''))
    \<and> metric_ok Inl (hand_metric (revenue_metric Manual))"
proof -
  have e: "parse_entity_yaml (\<lambda>t. Inr (entity_body mined_entity)) [] = Inr (hand_entity mined_entity)"
    using parse_entity_body [OF concrete_ok(1)] by simp
  have l: "parse_on_list (YList (map pair_node (cj_on (flag_join ''customer_id'')))) = Inr (cj_on (flag_join ''customer_id''))"
    by (simp add: parse_on_list_def flag_join_def parse_on_item_plain pair_ok_def pair_plain_def yaml_word_def
        plain_scalar_def char_class_defs)
  have j: "parse_canonical_join_yaml (\<lambda>t. Inr (on_document (flag_join ''customer_id''))) [] =
      Inr (hand_join (flag_join ''customer_id''))"
    by (subst parse_join_document [where j = "flag_join ''customer_id''"])
      (use concrete_ok(3) l in \<open>simp_all add: flag_join_def hand_join_def check_canonical_join_def join_ok_def constructed_def\<close>)
  have m: "parse_metric_yaml Inl (\<lambda>t. Inr (metric_body (revenue_metric Manual))) [] = Inr (hand_metric (revenue_metric Manual))"
    using parse_metric_body [of Inl "revenue_metric Manual" "\<lambda>t. Inr (metric_body (revenue_metric Manual))" "[]"] concrete_ok(2)
    by (simp add: revenue_metric_def)
  show ?thesis
    using accepted_files_valid [of "\<lambda>t. Inr (entity_body mined_entity)" "[]" "hand_entity mined_entity"] e
      accepted_files_valid [of "\<lambda>t. Inr (on_document (flag_join ''customer_id''))" "[]" _ "hand_join (flag_join ''customer_id'')"] j
      accepted_files_valid [of "\<lambda>t. Inr (metric_body (revenue_metric Manual))" "[]" _ _ Inl "hand_metric (revenue_metric Manual)"] m
    by blast
qed

end
