(* ===== verification/GraphProjection.thy ===== *)
theory GraphProjection
  imports PiiStore StoreCatalog
begin

section \<open>The graph projection of the semantic layer (semantic/graph_projection.py)\<close>

text \<open>
  The read model behind the dashboard's graph: one node per entity, one edge per canonical join, rebuilt from the store
  and the table of personal-data tags and swapped in whole. The abstract specification is a pair of functions from an
  entity and a join to the row that is to be served (\<open>node_spec\<close>, \<open>edge_spec\<close>); the main lemma is that a rebuild of a
  store with the integrity invariant succeeds, serves exactly that and changes nothing else.
\<close>

subsection \<open>The builder\<close>

datatype projection_error = Store_Failed store_error | Path_Failed compile_error | Edge_Invalid graph_error

definition PRIMARY_PATH_RANK :: int where
  "PRIMARY_PATH_RANK = 1"

definition entity_is_catastrophic :: "'score tag_table \<Rightarrow> string \<Rightarrow> store \<Rightarrow> entity \<Rightarrow> store_error + bool" where
  "entity_is_catastrophic tags src db e =
     (case split1 CHR ''.'' (en_qualified_table e) of
        (schema, None) \<Rightarrow> Inl (UnpackError (en_qualified_table e))
      | (schema, Some name) \<Rightarrow>
          rbind (get_table db src schema name) (\<lambda>found.
            case found of
              None \<Rightarrow> Inr False
            | Some t \<Rightarrow>
                Inr (\<exists>(c, sens, categories) \<in> set (get_column_pii_tags tags src (en_qualified_table e) (map co_name (tb_columns t))).
                       CATASTROPHIC_NAMES \<inter> categories \<noteq> {})))"

definition graph_edge_from_join :: "string set \<Rightarrow> canonical_join \<Rightarrow> graph_error + graph_edge" where
  "graph_edge_from_join spine_edges j =
     (let org = edge_origin_from_inference_method (cj_inference_method j) in
      check_graph_edge
        \<lparr>gg_join_name = cj_name j, gg_source_entity = cj_source_entity j, gg_target_entity = cj_target_entity j,
         gg_edge_origin = org,
         gg_canonical_path_rank = (if cj_name j \<in> spine_edges then PRIMARY_PATH_RANK else MIN_PATH_RANK),
         gg_cardinality = (if org = Declared then cj_cardinality j else None)\<rparr>)"

definition rebuild_graph_projection :: "'score tag_table \<Rightarrow> string \<Rightarrow> store \<Rightarrow> projection_error + store" where
  "rebuild_graph_projection tags src db =
     rbind (map_sum Store_Failed id (list_entities db (Some src))) (\<lambda>entities.
     rbind (map_sum Store_Failed id (list_canonical_joins db (Some src))) (\<lambda>joins.
     rbind (map_sum Store_Failed id (rtraverse (\<lambda>e.
         rbind (entity_is_catastrophic tags src db e) (\<lambda>catastrophic.
           Inr \<lparr>gn_entity_name = en_name e, gn_group = en_group e, gn_is_catastrophic = catastrophic,
                gn_row_count = (case estimated_row_counts db src (en_qualified_table e) of None \<Rightarrow> None | Some n \<Rightarrow> n)\<rparr>)) entities)) (\<lambda>nodes.
     rbind (map_sum Path_Failed id (longest_canonical_path joins)) (\<lambda>spine.
     rbind (map_sum Edge_Invalid id (rtraverse (graph_edge_from_join (set (cp_edges spine))) joins)) (\<lambda>edges.
       map_sum Store_Failed id (write_graph_projection src nodes edges db))))))"

subsection \<open>What is to be served\<close>

definition columns_of_entity :: "store \<Rightarrow> string \<Rightarrow> entity \<Rightarrow> string set" where
  "columns_of_entity db src e =
     {co_name (cl_column r) |r. r \<in> set (st_columns db) \<and> cl_source r = src \<and>
        co_schema_name (cl_column r) @ ''.'' @ co_table_name (cl_column r) = en_qualified_table e}"

definition node_spec :: "'score tag_table \<Rightarrow> string \<Rightarrow> store \<Rightarrow> entity \<Rightarrow> graph_node" where
  "node_spec tags src db e =
     \<lparr>gn_entity_name = en_name e, gn_group = en_group e,
      gn_is_catastrophic = (\<exists>c \<in> columns_of_entity db src e.
        floor_tagged tags \<lparr>tk_source = src, tk_table = en_qualified_table e, tk_column = c\<rparr>),
      gn_row_count = (case estimated_row_counts db src (en_qualified_table e) of None \<Rightarrow> None | Some n \<Rightarrow> n)\<rparr>"

definition edge_spec :: "canonical_path \<Rightarrow> canonical_join \<Rightarrow> graph_edge" where
  "edge_spec spine j =
     \<lparr>gg_join_name = cj_name j, gg_source_entity = cj_source_entity j, gg_target_entity = cj_target_entity j,
      gg_edge_origin = edge_origin_from_inference_method (cj_inference_method j),
      gg_canonical_path_rank = (if cj_name j \<in> set (cp_edges spine) then 1 else 0),
      gg_cardinality = (if cj_inference_method j = Fk_Constraint then cj_cardinality j else None)\<rparr>"

subsection \<open>Nodes and edges\<close>

lemma edge_from_join: "graph_edge_from_join (set (cp_edges spine)) j = Inr (edge_spec spine j)"
  by (simp add: graph_edge_from_join_def Let_def edge_spec_def check_graph_edge_def PRIMARY_PATH_RANK_def MIN_PATH_RANK_def
      MAX_PATH_RANK_def edge_origin_from_inference_method_def)

lemma check_edge_spec: "check_graph_edge (edge_spec spine j) = Inr (edge_spec spine j)"
  by (simp add: check_graph_edge_def edge_spec_def MIN_PATH_RANK_def MAX_PATH_RANK_def)

lemma longest_path_total: "\<exists>p. longest_canonical_path js = Inr p"
  using keep_best_result [of "ordered_pairs (sort (map fst (build_join_graph js)))" "build_join_graph js" EMPTY_PATH] build_total [of js]
  by (auto simp: longest_canonical_path_def Let_def build_canonical_path_def)

lemma floor_in_tags:
  "(\<exists>(c, sens, categories) \<in> set (get_column_pii_tags tags src tbl cs). CATASTROPHIC_NAMES \<inter> categories \<noteq> {}) \<longleftrightarrow>
     (\<exists>c \<in> set cs. floor_tagged tags \<lparr>tk_source = src, tk_table = tbl, tk_column = c\<rparr>)"
  (is "?l = ?r")
proof
  assume ?l
  then obtain c r where "c \<in> set cs" "tags \<lparr>tk_source = src, tk_table = tbl, tk_column = c\<rparr> = Some r"
    "CATASTROPHIC_NAMES \<inter> decode_pii_categories (tr_categories r) \<noteq> {}"
    by (auto simp: get_column_pii_tags_def List.map_filter_def) blast
  then show ?r by (intro bexI [of _ c]) (simp_all add: floor_tagged_def)
next
  assume ?r
  then obtain c r where "c \<in> set cs" "tags \<lparr>tk_source = src, tk_table = tbl, tk_column = c\<rparr> = Some r"
    "CATASTROPHIC_NAMES \<inter> decode_pii_categories (tr_categories r) \<noteq> {}"
    by (auto simp: floor_tagged_def split: option.splits)
  then have "(c, tr_sensitivity r, decode_pii_categories (tr_categories r)) \<in> set (get_column_pii_tags tags src tbl cs)"
    by (force simp: get_column_pii_tags_def List.map_filter_def)
  then show ?l using \<open>CATASTROPHIC_NAMES \<inter> decode_pii_categories (tr_categories r) \<noteq> {}\<close> by blast
qed

lemma qualified_same_parts:
  assumes "is_ident s" "is_ident t" "a @ ''.'' @ b = s @ ''.'' @ t"
  shows "a = s \<and> b = t"
  using assms by (intro qualified_parts) (simp add: match_qualified_iff)

lemma check_table_same: "check_table t = Inr u \<Longrightarrow> u = t"
  by (auto simp: check_table_def Let_def result_simps split: if_splits)

lemma entity_catastrophic_spec:
  assumes db: "store_ok ast_parse db"
    and bound: "\<exists>s t. en_qualified_table e = s @ ''.'' @ t \<and> is_ident s \<and> is_ident t \<and> has_table db (s, t, src)"
  shows "entity_is_catastrophic tags src db e = Inr (gn_is_catastrophic (node_spec tags src db e))"
proof -
  obtain s t where q: "en_qualified_table e = s @ ''.'' @ t" "is_ident s" "is_ident t" "has_table db (s, t, src)"
    using bound by blast
  have sp: "split1 CHR ''.'' (en_qualified_table e) = (s, Some t)"
    using split1_append [OF is_ident_no_dot [OF q(2)], of t] q(1) by simp
  obtain tb where tb: "get_table db src s t = Inr (Some tb)"
    using db q(4) unfolding store_ok_def rows_ok_def table_rows_ok_def by fastforce
  have "set (map co_name (tb_columns tb)) = co_name ` cl_column ` {r \<in> set (st_columns db). column_parent r = (s, t, src)}"
  proof -
    have "tb_columns tb = map (\<lambda>c. c\<lparr>co_table_name := t, co_schema_name := s\<rparr>)
        (sort_key co_ordinal_position (map cl_column (filter (\<lambda>r. column_parent r = (s, t, src)) (st_columns db))))"
      using tb q(4) check_table_same by (fastforce simp: get_table_def Let_def split: sum.splits if_splits)
    then show ?thesis by (simp add: image_image)
  qed
  also have "\<dots> = columns_of_entity db src e"
  proof -
    have "column_parent r = (s, t, src) \<longleftrightarrow> cl_source r = src \<and>
        co_schema_name (cl_column r) @ ''.'' @ co_table_name (cl_column r) = en_qualified_table e" for r
      using qualified_same_parts [OF q(2,3)] by (auto simp: column_parent_def q(1))
    then show ?thesis by (auto simp: columns_of_entity_def)
  qed
  finally have cols: "set (map co_name (tb_columns tb)) = columns_of_entity db src e" .
  show ?thesis by (simp add: entity_is_catastrophic_def sp tb floor_in_tags node_spec_def cols del: set_map)
qed

lemma traverse_fields: "rtraverse f rs = Inr es \<Longrightarrow> (\<And>r e. f r = Inr e \<Longrightarrow> g r = h e) \<Longrightarrow> map g rs = map h es"
  by (induction rs arbitrary: es) (auto simp: result_simps)

lemma listed_order:
  fixes name_of src_of :: "'r \<Rightarrow> string" and src :: string
  assumes "keyed (\<lambda>r. (src_of r, name_of r)) rows"
  defines "rs \<equiv> sort_key (\<lambda>r. (name_of r, src_of r)) (filter (\<lambda>r. Some src = None \<or> Some src = Some (src_of r)) rows)"
  shows "sorted (map name_of rs)" "distinct (map name_of rs)" "set rs = {r \<in> set rows. src_of r = src}"
proof -
  have "sorted (map (\<lambda>r. (name_of r, src_of r)) rs)" by (simp add: rs_def)
  then have "sorted (map fst (map (\<lambda>r. (name_of r, src_of r)) rs))"
    unfolding sorted_map sorted_wrt_map by (rule sorted_wrt_mono_rel [rotated]) (auto simp: less_eq_prod_def less_le)
  then show "sorted (map name_of rs)" by (simp add: comp_def)
  show s: "set rs = {r \<in> set rows. src_of r = src}" by (auto simp: rs_def)
  have "distinct rows" "inj_on (\<lambda>r. (src_of r, name_of r)) (set rows)"
    using assms(1) by (auto simp: keyed_def distinct_map)
  then have "distinct rs" "inj_on name_of (set rs)"
    by (simp_all add: rs_def inj_on_def)
  then show "distinct (map name_of rs)" by (simp add: distinct_map)
qed

lemma projected_entities:
  assumes db: "store_ok ast_parse db"
  obtains es where "list_entities db (Some src) = Inr es" "sorted (map en_name es)" "distinct (map en_name es)"
    "\<forall>e \<in> set es. has_entity db (src, en_name e)"
    "\<forall>e \<in> set es. entity_is_catastrophic tags src db e = Inr (gn_is_catastrophic (node_spec tags src db e))"
proof -
  let ?rows = "sort_key (\<lambda>r. (er_name r, er_source r)) (filter (\<lambda>r. Some src = None \<or> Some src = Some (er_source r)) (st_entities db))"
  have k: "keyed (\<lambda>r. (er_source r, er_name r)) (st_entities db)"
    using db by (simp add: store_ok_def keys_ok_def entity_key_def [abs_def])
  have "\<exists>es. rtraverse row_to_entity ?rows = Inr es"
    by (rule rtraverse_total) (use db in \<open>auto simp: store_ok_def rows_ok_def\<close>)
  then obtain es where es: "rtraverse row_to_entity ?rows = Inr es" by blast
  have "map er_name ?rows = map en_name es"
    by (rule traverse_fields [OF es]) (simp add: row_to_entity_Inr)
  then have order: "sorted (map en_name es)" "distinct (map en_name es)"
    using listed_order(1,2) [OF k, of src] by simp_all
  have row: "\<exists>r \<in> set (st_entities db). er_source r = src \<and> row_to_entity r = Inr e" if "e \<in> set es" for e
    using rtraverse_Inr_set [OF es that] by auto
  have has: "has_entity db (src, en_name e)" if "e \<in> set es" for e
    using row [OF that] row_to_entity_Inr by (force simp: has_entity_def has_key_iff entity_key_def)
  have flag: "entity_is_catastrophic tags src db e = Inr (gn_is_catastrophic (node_spec tags src db e))" if e: "e \<in> set es" for e
  proof (rule entity_catastrophic_spec [OF db])
    obtain r where r: "r \<in> set (st_entities db)" "er_source r = src" "row_to_entity r = Inr e" using row [OF e] by blast
    obtain s t where st: "match_qualified (er_binding_schema r @ ''.'' @ er_binding_table r) = Some (s, t)"
      using row_to_entity_Inr [OF r(3)] by (auto simp: entity_ok_def)
    have "er_binding_schema r = s \<and> er_binding_table r = t" by (rule qualified_parts [OF st])
    moreover have "has_table db (entity_parent r)" using db r(1) by (simp add: store_ok_def refs_ok_def)
    ultimately show "\<exists>s t. en_qualified_table e = s @ ''.'' @ t \<and> is_ident s \<and> is_ident t \<and> has_table db (s, t, src)"
      using st r(2) row_to_entity_Inr [OF r(3)] by (auto simp: match_qualified_iff entity_parent_def)
  qed
  show ?thesis by (rule that [OF _ order])  (use es has flag in \<open>auto simp: list_entities_def\<close>)
qed

lemma projected_joins:
  assumes db: "store_ok ast_parse db"
  obtains js where "list_canonical_joins db (Some src) = Inr js" "sorted (map cj_name js)" "distinct (map cj_name js)"
    "\<forall>j \<in> set js. has_join db (src, cj_name j) \<and> has_entity db (src, cj_source_entity j) \<and> has_entity db (src, cj_target_entity j)"
proof -
  let ?rows = "sort_key (\<lambda>r. (jr_name r, jr_source r)) (filter (\<lambda>r. Some src = None \<or> Some src = Some (jr_source r)) (st_joins db))"
  have k: "keyed (\<lambda>r. (jr_source r, jr_name r)) (st_joins db)"
    using db by (simp add: store_ok_def keys_ok_def join_key_def [abs_def])
  have "\<exists>js. rtraverse row_to_canonical_join ?rows = Inr js"
    by (rule rtraverse_total) (use db in \<open>auto simp: store_ok_def rows_ok_def\<close>)
  then obtain js where js: "rtraverse row_to_canonical_join ?rows = Inr js" by blast
  have name: "cj_name j = jr_name r" if "row_to_canonical_join r = Inr j" for r j
    using that by (auto simp: row_to_canonical_join_def check_canonical_join_def split: sum.splits if_splits)
  have "map jr_name ?rows = map cj_name js"
    by (rule traverse_fields [OF js]) (simp add: name)
  then have order: "sorted (map cj_name js)" "distinct (map cj_name js)"
    using listed_order(1,2) [OF k, of src] by simp_all
  have has: "has_join db (src, cj_name j) \<and> has_entity db (src, cj_source_entity j) \<and> has_entity db (src, cj_target_entity j)"
    if j: "j \<in> set js" for j
  proof -
    obtain r where r: "r \<in> set (st_joins db)" "jr_source r = src" "row_to_canonical_join r = Inr j"
      using rtraverse_Inr_set [OF js j] by auto
    have "has_join db (src, cj_name j)" using r name [OF r(3)] by (auto simp: has_join_def has_key_iff join_key_def)
    then show ?thesis using r row_to_join_Inr [OF r(3)] db by (auto simp: store_ok_def refs_ok_def)
  qed
  show ?thesis by (rule that [OF _ order]) (use js has in \<open>auto simp: list_canonical_joins_def\<close>)
qed

subsection \<open>A rebuild\<close>

lemma projection_written:
  assumes db: "store_ok ast_parse db"
    and ns: "distinct (map gn_entity_name ns)" "\<And>n. n \<in> set ns \<Longrightarrow> has_entity db (src, gn_entity_name n)"
    and es: "distinct (map gg_join_name es)" "\<And>e. e \<in> set es \<Longrightarrow> has_join db (src, gg_join_name e)
      \<and> has_entity db (src, gg_source_entity e) \<and> has_entity db (src, gg_target_entity e) \<and> check_graph_edge e = Inr e"
  shows "write_graph_projection src ns es db = Inr (db
    \<lparr>st_nodes := delete_rows (\<lambda>r. nr_source r = src) (st_nodes db) @ map (\<lambda>n. \<lparr>nr_source = src, nr_node = n\<rparr>) ns,
     st_edges := delete_rows (\<lambda>r. gr_source r = src) (st_edges db) @ map (\<lambda>e. \<lparr>gr_source = src, gr_edge = e\<rparr>) es\<rparr>)"
proof -
  have k: "distinct (map node_key (delete_rows (\<lambda>r. nr_source r = src) (st_nodes db)))"
    "distinct (map edge_key (delete_rows (\<lambda>r. gr_source r = src) (st_edges db)))"
    using db keyed_delete by (simp_all add: store_ok_def keys_ok_def keyed_def del: distinct_map) (auto simp: keyed_def [symmetric])
  have n: "distinct (map node_key (delete_rows (\<lambda>r. nr_source r = src) (st_nodes db) @ map (\<lambda>n. \<lparr>nr_source = src, nr_node = n\<rparr>) ns))"
    using k(1) ns(1) by (auto simp: node_key_def delete_rows_def distinct_map inj_on_def comp_def)
  have e: "distinct (map edge_key (delete_rows (\<lambda>r. gr_source r = src) (st_edges db) @ map (\<lambda>e. \<lparr>gr_source = src, gr_edge = e\<rparr>) es))"
    using k(2) es(1) by (auto simp: edge_key_def delete_rows_def distinct_map inj_on_def comp_def)
  have ranks: "MIN_PATH_RANK \<le> gg_canonical_path_rank x \<and> gg_canonical_path_rank x \<le> MAX_PATH_RANK" if "x \<in> set es" for x
    using es(2) [OF that] by (auto simp: check_graph_edge_def split: if_splits)
  have ok: "list_all (\<lambda>n. has_entity db (node_key n)) (map (\<lambda>n. \<lparr>nr_source = src, nr_node = n\<rparr>) ns)"
    "list_all (\<lambda>e. has_join db (edge_key e) \<and> has_entity db (src, gg_source_entity (gr_edge e))
        \<and> has_entity db (src, gg_target_entity (gr_edge e))
        \<and> MIN_PATH_RANK \<le> gg_canonical_path_rank (gr_edge e) \<and> gg_canonical_path_rank (gr_edge e) \<le> MAX_PATH_RANK)
      (map (\<lambda>e. \<lparr>gr_source = src, gr_edge = e\<rparr>) es)"
    using ns(2) es(2) ranks by (auto simp: list_all_iff node_key_def edge_key_def)
  show ?thesis
    by (simp only: write_graph_projection_def Let_def insert_rows_def n e ok if_True option.case not_True_eq_False if_False)
qed

definition projected :: "'score tag_table \<Rightarrow> string \<Rightarrow> store \<Rightarrow> entity list \<Rightarrow> canonical_join list \<Rightarrow> canonical_path \<Rightarrow> store" where
  "projected tags src db es js spine = db
    \<lparr>st_nodes := delete_rows (\<lambda>r. nr_source r = src) (st_nodes db)
       @ map (\<lambda>n. \<lparr>nr_source = src, nr_node = n\<rparr>) (map (node_spec tags src db) es),
     st_edges := delete_rows (\<lambda>r. gr_source r = src) (st_edges db)
       @ map (\<lambda>e. \<lparr>gr_source = src, gr_edge = e\<rparr>) (map (edge_spec spine) js)\<rparr>"

lemma rebuild_runs:
  assumes db: "store_ok ast_parse db"
  obtains es js spine where "list_entities db (Some src) = Inr es" "list_canonical_joins db (Some src) = Inr js"
    "longest_canonical_path js = Inr spine" "sorted (map en_name es)" "sorted (map cj_name js)"
    "rebuild_graph_projection tags src db = Inr (projected tags src db es js spine)"
    "write_graph_projection src (map (node_spec tags src db) es) (map (edge_spec spine) js) db = Inr (projected tags src db es js spine)"
proof -
  obtain es where es: "list_entities db (Some src) = Inr es" "sorted (map en_name es)" "distinct (map en_name es)"
    "\<forall>e \<in> set es. has_entity db (src, en_name e)"
    "\<forall>e \<in> set es. entity_is_catastrophic tags src db e = Inr (gn_is_catastrophic (node_spec tags src db e))"
    by (rule projected_entities [OF db, where src = src and tags = tags])
  obtain js where js: "list_canonical_joins db (Some src) = Inr js" "sorted (map cj_name js)" "distinct (map cj_name js)"
    "\<forall>j \<in> set js. has_join db (src, cj_name j) \<and> has_entity db (src, cj_source_entity j) \<and> has_entity db (src, cj_target_entity j)"
    by (rule projected_joins [OF db, where src = src])
  obtain spine where spine: "longest_canonical_path js = Inr spine" using longest_path_total by blast
  let ?build = "\<lambda>e. rbind (entity_is_catastrophic tags src db e) (\<lambda>catastrophic.
      Inr \<lparr>gn_entity_name = en_name e, gn_group = en_group e, gn_is_catastrophic = catastrophic,
           gn_row_count = (case estimated_row_counts db src (en_qualified_table e) of None \<Rightarrow> None | Some n \<Rightarrow> n)\<rparr>)"
  have nodes: "rtraverse ?build es = Inr (map (node_spec tags src db) es)"
    by (rule rtraverse_map) (simp add: es(5), simp add: node_spec_def)
  have edges: "rtraverse (graph_edge_from_join (set (cp_edges spine))) js = Inr (map (edge_spec spine) js)"
    by (rule rtraverse_map) (rule edge_from_join)
  have w: "write_graph_projection src (map (node_spec tags src db) es) (map (edge_spec spine) js) db =
      Inr (projected tags src db es js spine)"
    unfolding projected_def
  proof (rule projection_written [OF db])
    show "distinct (map gn_entity_name (map (node_spec tags src db) es))" "distinct (map gg_join_name (map (edge_spec spine) js))"
      using es(3) js(3) by (simp_all add: comp_def node_spec_def edge_spec_def)
    show "has_entity db (src, gn_entity_name n)" if "n \<in> set (map (node_spec tags src db) es)" for n
      using that es(4) by (auto simp: node_spec_def)
    show "has_join db (src, gg_join_name e) \<and> has_entity db (src, gg_source_entity e) \<and> has_entity db (src, gg_target_entity e)
        \<and> check_graph_edge e = Inr e" if "e \<in> set (map (edge_spec spine) js)" for e
      using that js(4) check_edge_spec by (auto simp: edge_spec_def)
  qed
  then have "rebuild_graph_projection tags src db = Inr (projected tags src db es js spine)"
    by (simp add: rebuild_graph_projection_def es(1) js(1) nodes spine edges)
  then show ?thesis by (rule that [OF es(1) js(1) spine es(2) js(2) _ w])
qed

lemma rebuild_again:
  assumes "store_ok ast_parse db"
  shows "\<exists>db'. rebuild_graph_projection tags src db = Inr db' \<and> rebuild_graph_projection tags src db' = Inr db'"
proof -
  obtain es js spine where r: "list_entities db (Some src) = Inr es" "list_canonical_joins db (Some src) = Inr js"
    "longest_canonical_path js = Inr spine" "sorted (map en_name es)" "sorted (map cj_name js)"
    "rebuild_graph_projection tags src db = Inr (projected tags src db es js spine)"
    "write_graph_projection src (map (node_spec tags src db) es) (map (edge_spec spine) js) db = Inr (projected tags src db es js spine)"
    by (rule rebuild_runs [OF assms, where src = src and tags = tags])
  let ?p = "projected tags src db es js spine"
  have again: "rebuild_graph_projection tags src ?p = Inr ?p"
  proof -
    have "store_ok ast_parse ?p" by (rule write_projection_ok [OF assms r(7)])
    then obtain es' js' spine' where r': "list_entities ?p (Some src) = Inr es'" "list_canonical_joins ?p (Some src) = Inr js'"
      "longest_canonical_path js' = Inr spine'" "rebuild_graph_projection tags src ?p = Inr (projected tags src ?p es' js' spine')"
      by (rule rebuild_runs [where src = src and tags = tags])
    have "list_entities ?p (Some src) = list_entities db (Some src)"
      "list_canonical_joins ?p (Some src) = list_canonical_joins db (Some src)"
      by (simp_all add: projected_def list_entities_def list_canonical_joins_def)
    then have same: "es' = es" "js' = js" "spine' = spine" using r(1-3) r' by simp_all
    have "node_spec tags src ?p = node_spec tags src db"
      by (simp add: fun_eq_iff node_spec_def columns_of_entity_def estimated_row_counts_def projected_def)
    then have "projected tags src ?p es js spine = ?p"
      by (simp add: projected_def [of _ _ ?p]) (simp add: projected_def delete_rows_def)
    then show ?thesis using r'(4) same by simp
  qed
  show ?thesis using r(6) again by blast
qed

text \<open>C34: On a store with the integrity invariant a rebuild of the projection of a source cannot fail. It then serves, in
  order of names, exactly one node per entity and one edge per join of that source, each as the specification has it:
  a node is catastrophic when some column of its table has a stored tag of the always-on floor, an edge carries its
  cardinality only when a foreign key backs it, and the spine is the longest canonical path. The tables, the
  definitions and the projections of other sources stay as they are, and rebuilding again changes nothing.\<close>

theorem projection_refines_layer:
  assumes "store_ok ast_parse db"
  shows "\<exists>db' es js spine. rebuild_graph_projection tags src db = Inr db' \<and>
    list_entities db (Some src) = Inr es \<and> list_canonical_joins db (Some src) = Inr js \<and>
    longest_canonical_path js = Inr spine \<and>
    list_graph_nodes db' src = map (node_spec tags src db) es \<and>
    list_graph_edges db' src = Inr (map (edge_spec spine) js) \<and>
    (\<forall>other. other \<noteq> src \<longrightarrow> list_graph_nodes db' other = list_graph_nodes db other \<and>
       list_graph_edges db' other = list_graph_edges db other) \<and>
    db' = db\<lparr>st_nodes := st_nodes db', st_edges := st_edges db'\<rparr> \<and>
    rebuild_graph_projection tags src db' = Inr db'"
proof -
  obtain es js spine where r: "list_entities db (Some src) = Inr es" "list_canonical_joins db (Some src) = Inr js"
    "longest_canonical_path js = Inr spine" "sorted (map en_name es)" "sorted (map cj_name js)"
    "rebuild_graph_projection tags src db = Inr (projected tags src db es js spine)"
    "write_graph_projection src (map (node_spec tags src db) es) (map (edge_spec spine) js) db = Inr (projected tags src db es js spine)"
    by (rule rebuild_runs [OF assms, where src = src and tags = tags])
  let ?p = "projected tags src db es js spine"
  have n: "list_graph_nodes ?p src = map (node_spec tags src db) es"
    using r(4) by (simp add: list_graph_nodes_def projected_def delete_rows_def comp_def node_spec_def sort_key_sorted)
  have e: "list_graph_edges ?p src = Inr (map (edge_spec spine) js)"
  proof -
    have "sort_key gg_join_name (map (edge_spec spine) js) = map (edge_spec spine) js"
      using r(5) by (intro sort_key_sorted) (simp add: comp_def edge_spec_def)
    moreover have "rtraverse check_graph_edge (map (edge_spec spine) js) = Inr (map (edge_spec spine) js)"
      using check_edge_spec by (intro rtraverse_map [where g = id, simplified]) auto
    ultimately show ?thesis by (simp add: list_graph_edges_def projected_def delete_rows_def comp_def)
  qed
  have o: "list_graph_nodes ?p other = list_graph_nodes db other \<and> list_graph_edges ?p other = list_graph_edges db other"
    if "other \<noteq> src" for other
    using that by (simp add: list_graph_nodes_def list_graph_edges_def projected_def delete_rows_def comp_def conj_commute
        cong: conj_cong)
  have again: "rebuild_graph_projection tags src ?p = Inr ?p" using rebuild_again [OF assms, of tags src] r(6) by simp
  show ?thesis
    by (intro exI [of _ ?p] exI [of _ es] exI [of _ js] exI [of _ spine] conjI allI impI)
      (simp_all add: r n e o again, simp add: projected_def)
qed

lemma rebuild_ok:
  assumes "store_ok ast_parse db"
  obtains db' where "rebuild_graph_projection tags src db = Inr db'" "store_ok ast_parse db'"
    "db' = db\<lparr>st_nodes := st_nodes db', st_edges := st_edges db'\<rparr>" "rebuild_graph_projection tags src db' = Inr db'"
proof -
  obtain es js spine where r: "rebuild_graph_projection tags src db = Inr (projected tags src db es js spine)"
    "write_graph_projection src (map (node_spec tags src db) es) (map (edge_spec spine) js) db = Inr (projected tags src db es js spine)"
    by (rule rebuild_runs [OF assms, where src = src and tags = tags])
  obtain db' where "rebuild_graph_projection tags src db = Inr db'" "rebuild_graph_projection tags src db' = Inr db'"
    using rebuild_again [OF assms, of tags src] by blast
  moreover have "projected tags src db es js spine = db\<lparr>st_nodes := st_nodes (projected tags src db es js spine),
      st_edges := st_edges (projected tags src db es js spine)\<rparr>" by (simp add: projected_def)
  ultimately show ?thesis using r(1) write_projection_ok [OF assms r(2)] that by simp
qed

subsection \<open>A tagged column\<close>

definition order_tags :: "nat tag_table" where
  "order_tags = write_column_pii_tags Map.empty 0 ''s'' ''public.orders'' [''id'' \<mapsto> (Pii, {Credential})] (\<lambda>c. None)"

lemma order_tags_floor: "floor_tagged order_tags \<lparr>tk_source = ''s'', tk_table = ''public.orders'', tk_column = ''id''\<rparr>"
proof -
  have "CATASTROPHIC_NAMES \<inter> category_names {Credential} \<noteq> {}"
    unfolding catastrophic_names_inter by (simp add: CATASTROPHIC_LEAK_CATEGORIES_def)
  then show ?thesis
    by (simp add: order_tags_def write_column_pii_tags_def Let_def drop_heuristic_def overridden_def floor_tagged_def heuristic_row_def)
qed

theorem projection_refines_layer_witness:
  "\<exists>db'. rebuild_graph_projection order_tags ''s'' (demo_store Manual) = Inr db' \<and>
    list_graph_nodes db' ''s'' = [\<lparr>gn_entity_name = ''order'', gn_group = Billing, gn_is_catastrophic = True, gn_row_count = None\<rparr>]"
proof -
  have ok: "store_ok no_parse (demo_store Manual)" by (rule store_reach_ok [OF demo_store_reach(1)])
  have l: "list_entities (demo_store Manual) (Some ''s'') = Inr [demo_entity Manual]" by code_simp
  have "list_ex (\<lambda>r. cl_source r = ''s'' \<and> co_schema_name (cl_column r) = ''public'' \<and> co_table_name (cl_column r) = ''orders''
      \<and> co_name (cl_column r) = ''id'') (st_columns (demo_store Manual))" by code_simp
  then obtain r where "r \<in> set (st_columns (demo_store Manual))" "cl_source r = ''s''" "co_schema_name (cl_column r) = ''public''"
    "co_table_name (cl_column r) = ''orders''" "co_name (cl_column r) = ''id''"
    by (auto simp: list_ex_iff)
  then have "''id'' \<in> columns_of_entity (demo_store Manual) ''s'' (demo_entity Manual)"
    unfolding columns_of_entity_def by (intro CollectI exI [of _ r]) (simp add: demo_entity_def en_qualified_table_def)
  then have n: "gn_is_catastrophic (node_spec order_tags ''s'' (demo_store Manual) (demo_entity Manual))"
    using order_tags_floor by (auto simp: node_spec_def demo_entity_def en_qualified_table_def)
  have c: "estimated_row_counts (demo_store Manual) ''s'' ''public.orders'' = Some None" by code_simp
  show ?thesis
    using projection_refines_layer [OF ok, of order_tags "''s''"] l n c
    by (fastforce simp: node_spec_def demo_entity_def en_qualified_table_def)
qed

end
