(* ===== verification/SemanticApply.thy ===== *)
theory SemanticApply
  imports SemanticYaml GraphProjection
begin

section \<open>Applying and exporting definition files (the apply and export commands of cli.py)\<close>

text \<open>
  What \<^verbatim>\<open>entities apply\<close>, \<^verbatim>\<open>joins apply\<close> and \<^verbatim>\<open>metrics apply\<close> do once their arguments are parsed: expand the paths, read and
  parse each file, write it to the store, go on after a failure, rebuild the graph projection and choose an exit code.
  The file system is a parameter; an \<^verbatim>\<open>OSError\<close> that reading a file raises beyond the handled ones ends the command with 2
  (its failures are then not printed), and an exception that no handler of the command takes is the exit \<open>Uncaught\<close>, each with
  what was committed before it. The locale \<open>definition_files\<close> is the contract of a parser and a store write
  under which the loop is sound; it is interpreted for the three kinds. Printed texts, a source argument that cannot be
  resolved into an id, a store file that cannot be opened and errors of the database beyond constraints are left out.
\<close>

subsection \<open>The file system\<close>

text \<open>Paths are the text of a \<^verbatim>\<open>Path\<close>. A directory that cannot be listed has no children to give.\<close>

record file_system =
  fs_is_dir :: "string \<Rightarrow> bool"
  fs_is_file :: "string \<Rightarrow> bool"
  fs_iterdir :: "string \<Rightarrow> string list option"
  fs_resolve :: "string \<Rightarrow> string"
  fs_read :: "string \<Rightarrow> file_read"

definition final_component :: "string \<Rightarrow> string" where
  "final_component p = rev (takeWhile (\<lambda>c. c \<noteq> CHR ''/'') (rev p))"

text \<open>\<^verbatim>\<open>path.suffix.lower() in (".yaml", ".yml")\<close>: the stem must not be empty.\<close>

definition is_yaml_name :: "string \<Rightarrow> bool" where
  "is_yaml_name p =
     (let n = map lower_char (final_component p) in
      list_ex (\<lambda>suffix. length suffix < length n \<and> drop (length n - length suffix) n = suffix) [''.yaml'', ''.yml''])"

datatype path_problem = Listing_Failed | No_Yaml_Files | Not_Yaml | No_Such_Path

fun take_new :: "(string \<Rightarrow> string) \<Rightarrow> string set \<Rightarrow> string list \<Rightarrow> string set \<times> string list" where
  "take_new resolve seen [] = (seen, [])"
| "take_new resolve seen (f # fs) =
     (if resolve f \<in> seen then take_new resolve seen fs
      else (let (seen', new) = take_new resolve (insert (resolve f) seen) fs in (seen', f # new)))"

fun expand_paths :: "file_system \<Rightarrow> string set \<Rightarrow> string list \<Rightarrow> string list \<times> (string \<times> path_problem) list" where
  "expand_paths fs seen [] = ([], [])"
| "expand_paths fs seen (raw # raws) =
     (if fs_is_dir fs raw then
        (case fs_iterdir fs raw of
           None \<Rightarrow> (let (files, failures) = expand_paths fs seen raws in (files, (raw, Listing_Failed) # failures))
         | Some children \<Rightarrow>
             (let dir_files = sort (filter (\<lambda>p. fs_is_file fs p \<and> is_yaml_name p) children) in
              if dir_files = []
              then (let (files, failures) = expand_paths fs seen raws in (files, (raw, No_Yaml_Files) # failures))
              else (let (seen', new) = take_new (fs_resolve fs) seen dir_files;
                        (files, failures) = expand_paths fs seen' raws
                    in (new @ files, failures))))
      else if fs_is_file fs raw then
        (if \<not> is_yaml_name raw
         then (let (files, failures) = expand_paths fs seen raws in (files, (raw, Not_Yaml) # failures))
         else (let (seen', new) = take_new (fs_resolve fs) seen [raw];
                   (files, failures) = expand_paths fs seen' raws
               in (new @ files, failures)))
      else (let (files, failures) = expand_paths fs seen raws in (files, (raw, No_Such_Path) # failures)))"

definition expand_yaml_paths :: "file_system \<Rightarrow> string list \<Rightarrow> string list \<times> (string \<times> path_problem) list" where
  "expand_yaml_paths fs raws = expand_paths fs {} raws"

subsection \<open>The loop over the files\<close>

datatype apply_failure = Bad_Path path_problem | Unreadable grammar_error | Refused_Write store_error | Refresh_Failed projection_error

record apply_run =
  ar_store :: store
  ar_applied :: "string list"
  ar_failures :: "(string \<times> apply_failure) list"
  ar_crash :: "apply_failure option"

datatype command_exit = Exit nat | Uncaught apply_failure

record apply_outcome =
  ao_store :: store
  ao_applied :: "string list"
  ao_failures :: "(string \<times> apply_failure) list"
  ao_exit :: command_exit

text \<open>The errors of a file that no handler inside the loop takes: the \<^verbatim>\<open>TypeError\<close> of unknown keys of different kinds, what the loader
  raises beyond the errors of the YAML library, and an \<^verbatim>\<open>OSError\<close> of its own, for which there is a handler outside.\<close>

definition stops :: "grammar_error \<Rightarrow> bool" where
  "stops e \<longleftrightarrow> (case e of Keys_Unorderable s \<Rightarrow> True | Load_Raised s \<Rightarrow> True | Os_Failed s \<Rightarrow> True | _ \<Rightarrow> False)"

definition crash_exit :: "apply_failure \<Rightarrow> command_exit" where
  "crash_exit c = (case c of Unreadable (Os_Failed s) \<Rightarrow> Exit 2 | _ \<Rightarrow> Uncaught c)"

text \<open>One pass of the loop, which the three commands share but for the parser, the write and the exceptions they
  handle (\<open>handled\<close>). The clock gives the time of a write when so many files are left.\<close>

fun apply_files ::
  "(file_read \<Rightarrow> grammar_error + 'd) \<Rightarrow> (int \<Rightarrow> 'd \<Rightarrow> store \<Rightarrow> store_error + store) \<Rightarrow> ('d \<Rightarrow> string) \<Rightarrow> (store_error \<Rightarrow> bool)
    \<Rightarrow> (nat \<Rightarrow> int) \<Rightarrow> (string \<Rightarrow> file_read) \<Rightarrow> string list \<Rightarrow> apply_run \<Rightarrow> apply_run" where
  "apply_files parse write name_of handled clock read [] run = run"
| "apply_files parse write name_of handled clock read (f # fs) run =
     (case parse (read f) of
        Inl e \<Rightarrow>
          if stops e then run\<lparr>ar_crash := Some (Unreadable e)\<rparr>
          else apply_files parse write name_of handled clock read fs
                 (run\<lparr>ar_failures := ar_failures run @ [(f, Unreadable e)]\<rparr>)
      | Inr d \<Rightarrow>
          (case write (clock (length fs)) d (ar_store run) of
             Inl e \<Rightarrow>
               if handled e
               then apply_files parse write name_of handled clock read fs
                      (run\<lparr>ar_failures := ar_failures run @ [(f, Refused_Write e)]\<rparr>)
               else run\<lparr>ar_crash := Some (Refused_Write e)\<rparr>
           | Inr db' \<Rightarrow>
               apply_files parse write name_of handled clock read fs
                 (run\<lparr>ar_store := db', ar_applied := ar_applied run @ [name_of d]\<rparr>)))"

definition no_paths :: "store \<Rightarrow> apply_outcome" where
  "no_paths db = \<lparr>ao_store = db, ao_applied = [], ao_failures = [], ao_exit = Exit 2\<rparr>"

definition start_run :: "store \<Rightarrow> (string \<times> path_problem) list \<Rightarrow> apply_run" where
  "start_run db failures = \<lparr>ar_store = db, ar_applied = [], ar_failures = map (map_prod id Bad_Path) failures, ar_crash = None\<rparr>"

text \<open>After the loop: the refresh when something was applied, and the exit code.\<close>

definition finish_run :: "(store \<Rightarrow> projection_error + store) \<Rightarrow> apply_run \<Rightarrow> apply_outcome" where
  "finish_run refresh run =
     (let ended = (\<lambda>db x. \<lparr>ao_store = db, ao_applied = ar_applied run, ao_failures = ar_failures run, ao_exit = x\<rparr>) in
      case ar_crash run of
        Some c \<Rightarrow> ended (ar_store run) (crash_exit c)
      | None \<Rightarrow>
          (case (if ar_applied run \<noteq> [] then refresh (ar_store run) else Inr (ar_store run)) of
             Inl e \<Rightarrow> ended (ar_store run) (Uncaught (Refresh_Failed e))
           | Inr db' \<Rightarrow> ended db' (Exit (if ar_failures run \<noteq> [] then 1 else 0))))"

subsection \<open>The three commands\<close>

definition entity_handled :: "store_error \<Rightarrow> bool" where
  "entity_handled e \<longleftrightarrow> (case e of DbtOwnedEntity n \<Rightarrow> True | IntegrityError \<Rightarrow> True | _ \<Rightarrow> False)"

definition join_handled :: "store_error \<Rightarrow> bool" where
  "join_handled e \<longleftrightarrow> e = IntegrityError"

definition metric_handled :: "store_error \<Rightarrow> bool" where
  "metric_handled e \<longleftrightarrow> (case e of DbtOwnedMetric n \<Rightarrow> True | IntegrityError \<Rightarrow> True | _ \<Rightarrow> False)"

definition apply_entities ::
  "'score tag_table \<Rightarrow> yaml_loader \<Rightarrow> (nat \<Rightarrow> int) \<Rightarrow> file_system \<Rightarrow> string \<Rightarrow> string list \<Rightarrow> store \<Rightarrow> apply_outcome" where
  "apply_entities tags safe_load clock fs src raws db =
     (let (files, failures) = expand_yaml_paths fs raws in
      if files = [] \<and> failures = [] then no_paths db else
      finish_run (rebuild_graph_projection tags src)
        (apply_files (parse_entity_yaml_file safe_load) (write_entity src) en_name entity_handled clock (fs_read fs) files
          (start_run db failures)))"

text \<open>Joins and metrics are written under the origin \<^verbatim>\<open>manual\<close> whatever the file says; entities are not.\<close>

definition apply_joins ::
  "'score tag_table \<Rightarrow> yaml_loader \<Rightarrow> (nat \<Rightarrow> int) \<Rightarrow> file_system \<Rightarrow> string \<Rightarrow> string list \<Rightarrow> store \<Rightarrow> apply_outcome" where
  "apply_joins tags load12 clock fs src raws db =
     (let (files, failures) = expand_yaml_paths fs raws in
      if files = [] \<and> failures = [] then no_paths db else
      finish_run (rebuild_graph_projection tags src)
        (apply_files (parse_canonical_join_yaml_file load12) (\<lambda>now j. write_canonical_join src now (j\<lparr>cj_origin := Manual\<rparr>))
          cj_name join_handled clock (fs_read fs) files (start_run db failures)))"

definition apply_metrics ::
  "(string \<Rightarrow> string + py_expr) \<Rightarrow> yaml_loader \<Rightarrow> (nat \<Rightarrow> int) \<Rightarrow> file_system \<Rightarrow> string \<Rightarrow> string list \<Rightarrow> store \<Rightarrow> apply_outcome" where
  "apply_metrics ast_parse safe_load clock fs src raws db =
     (let (files, failures) = expand_yaml_paths fs raws in
      if files = [] \<and> failures = [] then no_paths db else
      finish_run Inr
        (apply_files (parse_metric_yaml_file ast_parse safe_load) (\<lambda>now m. write_metric src now (m\<lparr>mt_origin := Manual\<rparr>))
          mt_name metric_handled clock (fs_read fs) files (start_run db failures)))"

subsection \<open>Exporting\<close>

text \<open>The body of the three \<^verbatim>\<open>export-all\<close> commands: the exit code and the files written, in the order written.\<close>

definition bulk_export ::
  "('d \<Rightarrow> string) \<Rightarrow> ('d \<Rightarrow> string) \<Rightarrow> bool \<Rightarrow> (string \<Rightarrow> bool) \<Rightarrow> 'd list \<Rightarrow> nat \<times> (string \<times> string) list" where
  "bulk_export name_of serializer scope_has_source exists items =
     (let file_of = (\<lambda>item. name_of item @ ''.yaml'') in
      if items = [] then (0, [])
      else if \<not> scope_has_source \<and> \<not> distinct (map name_of items) then (2, [])
      else if list_ex (\<lambda>item. exists (file_of item)) items then (2, [])
      else (0, map (\<lambda>item. (file_of item, serializer item @ [CHR 0x0A])) items))"

subsection \<open>The contract of a kind of definition\<close>

text \<open>What one file comes to in a store: what went wrong with it, or the name and the store after its write.\<close>

definition file_result ::
  "(file_read \<Rightarrow> grammar_error + 'd) \<Rightarrow> (int \<Rightarrow> 'd \<Rightarrow> store \<Rightarrow> store_error + store) \<Rightarrow> ('d \<Rightarrow> string) \<Rightarrow> int \<Rightarrow> file_read \<Rightarrow> store
    \<Rightarrow> apply_failure + string \<times> store" where
  "file_result parse write name_of now r db =
     (case parse r of
        Inl e \<Rightarrow> Inl (Unreadable e)
      | Inr d \<Rightarrow> (case write now d db of Inl e \<Rightarrow> Inl (Refused_Write e) | Inr db' \<Rightarrow> Inr (name_of d, db')))"

text \<open>The store before the file of an index, each file before it having been written or having left it alone; and that file's result.\<close>

primrec store_before ::
  "(file_read \<Rightarrow> grammar_error + 'd) \<Rightarrow> (int \<Rightarrow> 'd \<Rightarrow> store \<Rightarrow> store_error + store) \<Rightarrow> ('d \<Rightarrow> string) \<Rightarrow> (nat \<Rightarrow> int) \<Rightarrow> file_read list \<Rightarrow> store
    \<Rightarrow> nat \<Rightarrow> store" where
  "store_before parse write name_of clock rs db 0 = db"
| "store_before parse write name_of clock rs db (Suc i) =
     (let before = store_before parse write name_of clock rs db i in
      case file_result parse write name_of (clock (length rs - Suc i)) (rs ! i) before of Inl e \<Rightarrow> before | Inr (n, after) \<Rightarrow> after)"

definition result_at ::
  "(file_read \<Rightarrow> grammar_error + 'd) \<Rightarrow> (int \<Rightarrow> 'd \<Rightarrow> store \<Rightarrow> store_error + store) \<Rightarrow> ('d \<Rightarrow> string) \<Rightarrow> (nat \<Rightarrow> int) \<Rightarrow> file_read list \<Rightarrow> store
    \<Rightarrow> nat \<Rightarrow> apply_failure + string \<times> store" where
  "result_at parse write name_of clock rs db i =
     file_result parse write name_of (clock (length rs - Suc i)) (rs ! i) (store_before parse write name_of clock rs db i)"

definition stopped :: "apply_failure + string \<times> store \<Rightarrow> bool" where
  "stopped r \<longleftrightarrow> (\<exists>e. r = Inl (Unreadable e) \<and> stops e)"

text \<open>The failures and the names written among the first files.\<close>

definition failed_among :: "(nat \<Rightarrow> apply_failure + string \<times> store) \<Rightarrow> string list \<Rightarrow> nat \<Rightarrow> (string \<times> apply_failure) list" where
  "failed_among res files n = List.map_filter (\<lambda>i. case res i of Inl e \<Rightarrow> Some (files ! i, e) | Inr x \<Rightarrow> None) [0..<n]"

definition written_among :: "(nat \<Rightarrow> apply_failure + string \<times> store) \<Rightarrow> nat \<Rightarrow> string list" where
  "written_among res n = List.map_filter (\<lambda>i. case res i of Inl e \<Rightarrow> None | Inr (name, after) \<Rightarrow> Some name) [0..<n]"

text \<open>What a command has to do with its files and the paths it could not expand. It takes the files in order up to the first one that
  stops it; reports the bad paths and then each file before that one that failed, with what went wrong; names those written; and
  ends as that file says, or else with the store refreshed when something was written and an exit of 0 or 1.\<close>

definition command_meets ::
  "(file_read \<Rightarrow> grammar_error + 'd) \<Rightarrow> (int \<Rightarrow> 'd \<Rightarrow> store \<Rightarrow> store_error + store) \<Rightarrow> ('d \<Rightarrow> string) \<Rightarrow> (store \<Rightarrow> projection_error + store)
    \<Rightarrow> (nat \<Rightarrow> int) \<Rightarrow> (string \<Rightarrow> file_read) \<Rightarrow> string list \<times> (string \<times> path_problem) list \<Rightarrow> store \<Rightarrow> apply_outcome \<Rightarrow> bool" where
  "command_meets parse write name_of refresh clock read expanded db out \<longleftrightarrow>
     (let files = fst expanded; bad = snd expanded;
          res = result_at parse write name_of clock (map read files) db;
          before = store_before parse write name_of clock (map read files) db in
      if files = [] \<and> bad = [] then out = no_paths db
      else \<exists>n \<le> length files. (\<forall>i < n. \<not> stopped (res i)) \<and>
        ao_failures out = map (\<lambda>(p, problem). (p, Bad_Path problem)) bad @ failed_among res files n \<and>
        ao_applied out = written_among res n \<and>
        (if n < length files
         then stopped (res n) \<and> ao_store out = before n \<and> ao_exit out = crash_exit (projl (res n))
         else (if ao_applied out = [] then ao_store out = before n else refresh (before n) = Inr (ao_store out)) \<and>
           ao_exit out = Exit (if ao_failures out = [] then 0 else 1)))"

lemma map_filter_map: "List.map_filter f (map g xs) = List.map_filter (\<lambda>x. f (g x)) xs"
  by (induction xs) (auto simp: map_filter_simps split: option.split)

locale definition_files =
  fixes ast_parse :: "string \<Rightarrow> string + py_expr"
    and parse :: "file_read \<Rightarrow> grammar_error + 'd"
    and put :: "int \<Rightarrow> 'd \<Rightarrow> store \<Rightarrow> store_error + store"
    and handled :: "store_error \<Rightarrow> bool"
  assumes write_keeps: "parse r = Inr d \<Longrightarrow> store_ok ast_parse db \<Longrightarrow> put now d db = Inr db' \<Longrightarrow> store_ok ast_parse db'"
    and refusal_handled: "parse r = Inr d \<Longrightarrow> store_ok ast_parse db \<Longrightarrow> put now d db = Inl e \<Longrightarrow> handled e"
begin

lemma files_invariant:
  assumes "P (ar_store run)" "\<And>r d now db db'. parse r = Inr d \<Longrightarrow> P db \<Longrightarrow> put now d db = Inr db' \<Longrightarrow> P db'"
  shows "P (ar_store (apply_files parse put name_of handled clock read files run))"
  using assms(1)
proof (induction files arbitrary: run)
  case (Cons f files)
  then show ?case using assms(2) by (auto split: sum.splits)
qed simp

lemma files_store_ok:
  "store_ok ast_parse (ar_store run) \<Longrightarrow> store_ok ast_parse (ar_store (apply_files parse put name_of handled clock read files run))"
  by (rule files_invariant) (auto intro: write_keeps)

lemma step_result:
  assumes "store_ok ast_parse (ar_store run)" "\<not> stopped (file_result parse put name_of (clock (length files)) (read f) (ar_store run))"
  shows "apply_files parse put name_of handled clock read (f # files) run = apply_files parse put name_of handled clock read files
    (case file_result parse put name_of (clock (length files)) (read f) (ar_store run) of
       Inl e \<Rightarrow> run\<lparr>ar_failures := ar_failures run @ [(f, e)]\<rparr>
     | Inr (n, db') \<Rightarrow> run\<lparr>ar_store := db', ar_applied := ar_applied run @ [n]\<rparr>)"
proof (cases "parse (read f)")
  case (Inl e)
  then show ?thesis using assms(2) by (simp add: file_result_def stopped_def)
next
  case (Inr d)
  then show ?thesis using refusal_handled [OF Inr assms(1)]
    by (cases "put (clock (length files)) d (ar_store run)") (auto simp: file_result_def)
qed

lemma files_meet:
  fixes run :: apply_run and name_of :: "'d \<Rightarrow> string" and clock :: "nat \<Rightarrow> int" and read :: "string \<Rightarrow> file_read"
  assumes "store_ok ast_parse (ar_store run)" "ar_crash run = None"
  defines "res fs db \<equiv> result_at parse put name_of clock (map read fs) db"
    and "before fs db \<equiv> store_before parse put name_of clock (map read fs) db"
  shows "\<exists>n \<le> length files. (\<forall>i < n. \<not> stopped (res files (ar_store run) i)) \<and>
    (let run' = apply_files parse put name_of handled clock read files run in
     ar_failures run' = ar_failures run @ failed_among (res files (ar_store run)) files n \<and>
     ar_applied run' = ar_applied run @ written_among (res files (ar_store run)) n \<and>
     ar_store run' = before files (ar_store run) n \<and>
     (if n < length files then stopped (res files (ar_store run) n) \<and> ar_crash run' = Some (projl (res files (ar_store run) n)) else ar_crash run' = None))"
  using assms(1,2)
proof (induction files arbitrary: run)
  case Nil
  then show ?case by (simp add: failed_among_def written_among_def before_def map_filter_simps)
next
  case (Cons f files)
  let ?r = "file_result parse put name_of (clock (length files)) (read f) (ar_store run)"
  have head: "res (f # files) (ar_store run) 0 = ?r" by (simp add: res_def result_at_def)
  show ?case
  proof (cases "stopped ?r")
    case True
    then obtain e where e: "?r = Inl (Unreadable e)" "stops e" by (auto simp: stopped_def)
    then have "parse (read f) = Inl e" by (auto simp: file_result_def split: sum.splits)
    then show ?thesis using True e head
      by (intro exI [of _ 0]) (simp add: failed_among_def written_among_def before_def map_filter_simps)
  next
    case False
    let ?run = "case ?r of Inl e \<Rightarrow> run\<lparr>ar_failures := ar_failures run @ [(f, e)]\<rparr>
      | Inr (n, db') \<Rightarrow> run\<lparr>ar_store := db', ar_applied := ar_applied run @ [n]\<rparr>"
    have ok: "store_ok ast_parse (ar_store ?run)" "ar_crash ?run = None"
      using Cons.prems write_keeps by (auto simp: file_result_def split: sum.splits)
    have before: "before (f # files) (ar_store run) (Suc i) = before files (ar_store ?run) i" for i
      unfolding before_def by (induction i) (auto simp: Let_def split: sum.splits)
    have tail: "res (f # files) (ar_store run) (Suc i) = res files (ar_store ?run) i" for i
      using before [of i] by (simp add: res_def result_at_def before_def)
    obtain n where n: "n \<le> length files" "\<forall>i < n. \<not> stopped (res files (ar_store ?run) i)"
      "ar_failures (apply_files parse put name_of handled clock read files ?run) = ar_failures ?run @ failed_among (res files (ar_store ?run)) files n"
      "ar_applied (apply_files parse put name_of handled clock read files ?run) = ar_applied ?run @ written_among (res files (ar_store ?run)) n"
      "ar_store (apply_files parse put name_of handled clock read files ?run) = before files (ar_store ?run) n"
      "if n < length files then stopped (res files (ar_store ?run) n)
          \<and> ar_crash (apply_files parse put name_of handled clock read files ?run) = Some (projl (res files (ar_store ?run) n))
       else ar_crash (apply_files parse put name_of handled clock read files ?run) = None"
      using Cons.IH [OF ok] unfolding Let_def by blast
    have up: "[0..<Suc n] = 0 # map Suc [0..<n]" by (simp add: upt_conv_Cons map_Suc_upt del: upt_Suc)
    have fails: "failed_among (res (f # files) (ar_store run)) (f # files) (Suc n) =
        (case ?r of Inl e \<Rightarrow> [(f, e)] | Inr x \<Rightarrow> []) @ failed_among (res files (ar_store ?run)) files n"
      unfolding failed_among_def up map_filter_simps map_filter_map nth_Cons_Suc by (simp add: comp_def tail head split: sum.split)
    have names: "written_among (res (f # files) (ar_store run)) (Suc n) =
        (case ?r of Inl e \<Rightarrow> [] | Inr (name, after) \<Rightarrow> [name]) @ written_among (res files (ar_store ?run)) n"
      unfolding written_among_def up map_filter_simps map_filter_map by (simp add: comp_def tail head split: sum.split prod.split)
    have calm: "\<forall>i < Suc n. \<not> stopped (res (f # files) (ar_store run) i)"
      using n(2) False head tail by (auto simp: less_Suc_eq_0_disj)
    show ?thesis unfolding step_result [where run = run and clock = clock and read = read and f = f and files = files, OF Cons.prems(1) False]
    proof (intro exI [of _ "Suc n"] conjI, unfold Let_def, goal_cases)
      case 3
      show ?case unfolding n(3-5) fails names before
        using n(6) tail [of n] by (auto split: sum.splits)
    qed (use n(1) calm in auto)
  qed
qed

text \<open>A command built on the loop and on a refresh that keeps the invariant and does not fail.\<close>

lemma command_sound:
  fixes name_of :: "'d \<Rightarrow> string" and clock :: "nat \<Rightarrow> int" and read :: "string \<Rightarrow> file_read"
    and files :: "string list" and bad :: "(string \<times> path_problem) list"
    and refresh :: "store \<Rightarrow> projection_error + store"
  assumes db: "store_ok ast_parse db"
    and refresh: "\<And>d. store_ok ast_parse d \<Longrightarrow> \<exists>d'. refresh d = Inr d' \<and> store_ok ast_parse d'"
  defines "out \<equiv> (if files = [] \<and> bad = [] then no_paths db
    else finish_run refresh (apply_files parse put name_of handled clock read files (start_run db bad)))"
  shows "store_ok ast_parse (ao_store out)" "command_meets parse put name_of refresh clock read (files, bad) db out"
proof -
  let ?run = "apply_files parse put name_of handled clock read files (start_run db bad)"
  have ok: "store_ok ast_parse (ar_store ?run)" by (rule files_store_ok) (simp add: start_run_def db)
  obtain d' where d': "refresh (ar_store ?run) = Inr d'" "store_ok ast_parse d'" using refresh [OF ok] by blast
  show "store_ok ast_parse (ao_store out)"
    using ok d' db by (simp add: out_def finish_run_def Let_def no_paths_def split: option.splits)
  show "command_meets parse put name_of refresh clock read (files, bad) db out"
  proof (cases "files = [] \<and> bad = []")
    case True
    then show ?thesis by (simp add: command_meets_def out_def)
  next
    case False
    have start: "ar_store (start_run db bad) = db" "ar_crash (start_run db bad) = None" "ar_applied (start_run db bad) = []"
      "ar_failures (start_run db bad) = map (\<lambda>(p, problem). (p, Bad_Path problem)) bad" by (auto simp: start_run_def map_prod_def)
    let ?res = "result_at parse put name_of clock (map read files) db"
    let ?before = "store_before parse put name_of clock (map read files) db"
    obtain n where n: "n \<le> length files" "\<forall>i < n. \<not> stopped (?res i)"
      "ar_failures ?run = map (\<lambda>(p, problem). (p, Bad_Path problem)) bad @ failed_among ?res files n"
      "ar_applied ?run = written_among ?res n" "ar_store ?run = ?before n"
      "if n < length files then stopped (?res n) \<and> ar_crash ?run = Some (projl (?res n)) else ar_crash ?run = None"
      using files_meet [of "start_run db bad" files name_of clock read] db unfolding start Let_def by auto
    have out: "out = finish_run refresh ?run" using False by (simp only: out_def if_False)
    show ?thesis
    proof (cases "n < length files")
      case True
      then have o: "ao_store out = ar_store ?run" "ao_applied out = ar_applied ?run" "ao_failures out = ar_failures ?run"
        "ao_exit out = crash_exit (projl (?res n))" using n(6) by (simp_all add: out finish_run_def Let_def)
      show ?thesis unfolding command_meets_def fst_conv snd_conv Let_def if_not_P [OF False] o n(3-5)
        by (rule exI [of _ n]) (use n(1,2,6) True in simp)
    next
      case late: False
      then have c: "ar_crash ?run = None" using n(6) by simp
      have o: "ao_applied out = ar_applied ?run" "ao_failures out = ar_failures ?run"
        "ao_store out = (if ar_applied ?run = [] then ar_store ?run else d')" "ao_exit out = Exit (if ar_failures ?run = [] then 0 else 1)"
        using c d'(1) by (simp_all add: out finish_run_def Let_def)
      show ?thesis unfolding command_meets_def fst_conv snd_conv Let_def if_not_P [OF False] o
        by (rule exI [of _ n]) (use n(1-5) late d'(1) in simp)
    qed
  qed
qed

end

subsection \<open>The three kinds\<close>

lemma file_parsed:
  "parse_entity_yaml_file load r = Inr e \<Longrightarrow> entity_ok e"
  "parse_canonical_join_yaml_file load r = Inr j \<Longrightarrow> join_ok j"
  "parse_metric_yaml_file ast_parse load r = Inr m \<Longrightarrow> metric_ok ast_parse m"
  unfolding parse_entity_yaml_file_def parse_entity_yaml_def parse_canonical_join_yaml_file_def parse_canonical_join_yaml_def
    parse_metric_yaml_file_def parse_metric_yaml_def
  by (elim rbind_InrE; simp add: parse_entity_map_ok parse_join_map_ok parse_metric_map_ok)+

lemma with_origin_ok:
  "join_ok j \<Longrightarrow> join_ok (j\<lparr>cj_origin := org\<rparr>)" "metric_ok ast_parse m \<Longrightarrow> metric_ok ast_parse (m\<lparr>mt_origin := org\<rparr>)"
  by (auto simp: join_ok_def metric_ok_def check_metric_def split: if_splits option.splits)

interpretation entity_files: definition_files ast_parse "parse_entity_yaml_file safe_load" "write_entity src" entity_handled
  for ast_parse safe_load src
proof
  show "store_ok ast_parse db'" if "parse_entity_yaml_file safe_load r = Inr d" "store_ok ast_parse db" "write_entity src now d db = Inr db'"
    for r d db now db' using that(2) file_parsed(1) [OF that(1)] that(3) by (rule write_entity_ok)
  show "entity_handled e" if d: "parse_entity_yaml_file safe_load r = Inr d" and "store_ok ast_parse db"
    and refused: "write_entity src now d db = Inl e" for r d db now e
  proof -
    obtain s t where "split1 CHR ''.'' (en_qualified_table d) = (s, Some t)"
      using file_parsed(1) [OF d] split1_qualified [of "en_qualified_table d"] unfolding entity_ok_def by (metis surj_pair)
    then show ?thesis using refused by (auto simp: write_entity_def Let_def entity_handled_def split: if_splits)
  qed
qed

interpretation join_files: definition_files ast_parse "parse_canonical_join_yaml_file loader"
    "\<lambda>now j. write_canonical_join src now (j\<lparr>cj_origin := Manual\<rparr>)" join_handled
  for ast_parse loader src
proof
  show "store_ok ast_parse db'" if "parse_canonical_join_yaml_file loader r = Inr d" "store_ok ast_parse db"
    "write_canonical_join src now (d\<lparr>cj_origin := Manual\<rparr>) db = Inr db'" for r d db now db'
    using that(2) with_origin_ok(1) [OF file_parsed(2) [OF that(1)]] that(3) by (rule write_join_ok)
  show "join_handled e" if "parse_canonical_join_yaml_file loader r = Inr d" "store_ok ast_parse db"
    "write_canonical_join src now (d\<lparr>cj_origin := Manual\<rparr>) db = Inl e" for r d db now e
    using that(3) by (auto simp: write_canonical_join_def join_handled_def split: if_splits)
qed

interpretation metric_files: definition_files ast_parse "parse_metric_yaml_file ast_parse safe_load"
    "\<lambda>now m. write_metric src now (m\<lparr>mt_origin := Manual\<rparr>)" metric_handled
  for ast_parse safe_load src
proof
  show "store_ok ast_parse db'" if "parse_metric_yaml_file ast_parse safe_load r = Inr d" "store_ok ast_parse db"
    "write_metric src now (d\<lparr>mt_origin := Manual\<rparr>) db = Inr db'" for r d db now db'
    using that(2) with_origin_ok(2) [OF file_parsed(3) [OF that(1)]] that(3) by (rule write_metric_ok)
  show "metric_handled e" if "parse_metric_yaml_file ast_parse safe_load r = Inr d" "store_ok ast_parse db"
    "write_metric src now (d\<lparr>mt_origin := Manual\<rparr>) db = Inl e" for r d db now e
    using that(3) by (auto simp: write_metric_def Let_def metric_handled_def split: if_splits)
qed

lemma refresh_sound: "store_ok ast_parse d \<Longrightarrow> \<exists>d'. rebuild_graph_projection tags src d = Inr d' \<and> store_ok ast_parse d'"
  using rebuild_ok by metis

text \<open>C35: Whatever the arguments, the file system and the texts of the files, each of the three apply commands leaves a store
  with the integrity invariant and does file by file what it has to: in order, up to the first file whose reading raises what no handler
  in the loop takes, each file is written under its name or reported with exactly what went wrong with it, after the paths that could not be
  expanded, and a failed file leaves the store alone. No refused write gets past the handlers, and the refresh, which runs when something was written,
  does not fail: the exit is 0 when nothing was reported and 1 otherwise. When a file stops the command (unknown keys of different
  kinds, an exception of the loader that is not one of the YAML library, an unhandled error of the operating system), the store is the one before
  that file, without a refresh, and the exit is 2 for the operating system and the exception itself for the others.\<close>

theorem apply_commands_sound:
  assumes db: "store_ok ast_parse db"
  shows "store_ok ast_parse (ao_store (apply_entities tags safe_load clock fs src raws db)) \<and>
    store_ok ast_parse (ao_store (apply_joins tags load12 clock fs src raws db)) \<and>
    store_ok ast_parse (ao_store (apply_metrics ast_parse safe_load clock fs src raws db)) \<and>
    command_meets (parse_entity_yaml_file safe_load) (write_entity src) en_name (rebuild_graph_projection tags src) clock (fs_read fs)
      (expand_yaml_paths fs raws) db (apply_entities tags safe_load clock fs src raws db) \<and>
    command_meets (parse_canonical_join_yaml_file load12) (\<lambda>now j. write_canonical_join src now (j\<lparr>cj_origin := Manual\<rparr>)) cj_name
      (rebuild_graph_projection tags src) clock (fs_read fs)
      (expand_yaml_paths fs raws) db (apply_joins tags load12 clock fs src raws db) \<and>
    command_meets (parse_metric_yaml_file ast_parse safe_load) (\<lambda>now m. write_metric src now (m\<lparr>mt_origin := Manual\<rparr>)) mt_name Inr clock (fs_read fs)
      (expand_yaml_paths fs raws) db (apply_metrics ast_parse safe_load clock fs src raws db)"
proof -
  obtain files failures where x: "expand_yaml_paths fs raws = (files, failures)" by fastforce
  note e = entity_files.command_sound [OF db, where refresh = "rebuild_graph_projection tags src" and src = src
      and safe_load = safe_load and name_of = en_name and clock = clock and read = "fs_read fs" and files = files
      and bad = failures, OF refresh_sound]
  note j = join_files.command_sound [OF db, where refresh = "rebuild_graph_projection tags src" and src = src
      and loader = load12 and name_of = cj_name and clock = clock and read = "fs_read fs" and files = files
      and bad = failures, OF refresh_sound]
  have keep: "store_ok ast_parse d \<Longrightarrow> \<exists>d'. Inr d = (Inr d' :: projection_error + store) \<and> store_ok ast_parse d'" for d by simp
  note m = metric_files.command_sound [OF db, where refresh = Inr and src = src
      and safe_load = safe_load and name_of = mt_name and clock = clock and read = "fs_read fs" and files = files
      and bad = failures, OF keep]
  show ?thesis unfolding apply_entities_def apply_joins_def apply_metrics_def x Let_def prod.case
    using e j m by blast
qed

lemma finish_run_dbt:
  assumes "store_ok ast_parse (ar_store run)"
    "\<And>d d'. store_ok ast_parse d \<Longrightarrow> refresh d = Inr d' \<Longrightarrow> st_entities d' = st_entities d \<and> st_metrics d' = st_metrics d"
  shows "dbt_entities (ao_store (finish_run refresh run)) = dbt_entities (ar_store run) \<and>
    dbt_metrics (ao_store (finish_run refresh run)) = dbt_metrics (ar_store run)"
proof -
  have "st_entities (ao_store (finish_run refresh run)) = st_entities (ar_store run) \<and>
      st_metrics (ao_store (finish_run refresh run)) = st_metrics (ar_store run)"
    using assms by (auto simp: finish_run_def Let_def split: option.splits sum.splits)
  then show ?thesis by (simp add: dbt_entities_def dbt_metrics_def)
qed

lemma refresh_rows:
  assumes "store_ok ast_parse d" "rebuild_graph_projection tags src d = Inr d'"
  shows "st_entities d' = st_entities d \<and> st_metrics d' = st_metrics d"
proof -
  obtain x where x: "rebuild_graph_projection tags src d = Inr x" "x = d\<lparr>st_nodes := st_nodes x, st_edges := st_edges x\<rparr>"
    by (rule rebuild_ok [OF assms(1), where tags = tags and src = src])
  have "st_entities x = st_entities d" "st_metrics x = st_metrics d" by (subst x(2), simp)+
  then show ?thesis using x(1) assms(2) by simp
qed

lemma finish_refresh:
  "store_ok ast_parse (ar_store run) \<Longrightarrow>
     dbt_entities (ao_store (finish_run (rebuild_graph_projection tags src) run)) = dbt_entities (ar_store run) \<and>
     dbt_metrics (ao_store (finish_run (rebuild_graph_projection tags src) run)) = dbt_metrics (ar_store run)"
  by (rule finish_run_dbt [where ast_parse = ast_parse]) (simp_all add: refresh_rows)

lemma finish_metrics: "dbt_entities (ao_store (finish_run Inr run)) = dbt_entities (ar_store run) \<and>
    dbt_metrics (ao_store (finish_run Inr run)) = dbt_metrics (ar_store run)"
  by (simp add: finish_run_def Let_def dbt_entities_def dbt_metrics_def split: option.splits)

text \<open>No join file and no metric file, whatever it says, changes an entity or a metric that a dbt import owns.\<close>

theorem apply_spares_dbt:
  assumes db: "store_ok ast_parse db"
  shows "dbt_entities db \<subseteq> dbt_entities (ao_store (apply_joins tags load12 clock fs src raws db)) \<and>
    dbt_metrics db \<subseteq> dbt_metrics (ao_store (apply_joins tags load12 clock fs src raws db)) \<and>
    dbt_entities db \<subseteq> dbt_entities (ao_store (apply_metrics ast_parse safe_load clock fs src raws db)) \<and>
    dbt_metrics db \<subseteq> dbt_metrics (ao_store (apply_metrics ast_parse safe_load clock fs src raws db))"
proof -
  obtain files failures where x: "expand_yaml_paths fs raws = (files, failures)" by fastforce
  let ?P = "\<lambda>d. store_ok ast_parse d \<and> dbt_entities db \<subseteq> dbt_entities d \<and> dbt_metrics db \<subseteq> dbt_metrics d"
  have s: "?P (ar_store (start_run db failures))" using db by (simp add: start_run_def)
  have j: "?P (ar_store (apply_files (parse_canonical_join_yaml_file load12) (\<lambda>now j. write_canonical_join src now (j\<lparr>cj_origin := Manual\<rparr>))
      cj_name join_handled clock (fs_read fs) files (start_run db failures)))"
  proof (rule join_files.files_invariant [where P = ?P, OF s])
    show "?P d'" if "parse_canonical_join_yaml_file load12 r = Inr j" and d: "?P d"
      and w: "write_canonical_join src now (j\<lparr>cj_origin := Manual\<rparr>) d = Inr d'" for r j now d d'
      using d manual_op_keeps [of ast_parse d "Write_Join src now (j\<lparr>cj_origin := Manual\<rparr>)" d'] w
        join_files.write_keeps [OF that(1) _ w] by auto
  qed
  have m: "?P (ar_store (apply_files (parse_metric_yaml_file ast_parse safe_load) (\<lambda>now m. write_metric src now (m\<lparr>mt_origin := Manual\<rparr>))
      mt_name metric_handled clock (fs_read fs) files (start_run db failures)))"
  proof (rule metric_files.files_invariant [where P = ?P, OF s])
    show "?P d'" if "parse_metric_yaml_file ast_parse safe_load r = Inr m" and d: "?P d"
      and w: "write_metric src now (m\<lparr>mt_origin := Manual\<rparr>) d = Inr d'" for r m now d d'
      using d manual_op_keeps [of ast_parse d "Write_Metric src now (m\<lparr>mt_origin := Manual\<rparr>)" d'] w
        metric_files.write_keeps [OF that(1) _ w] by auto
  qed
  show ?thesis
    using j m finish_refresh [of ast_parse _ tags src, OF conjunct1 [OF j]] finish_metrics
    by (simp add: apply_joins_def apply_metrics_def x no_paths_def)
qed

text \<open>C36: One entity file that parses, whose table is indexed: if a dbt import owns the entity and the file does not claim that
  origin, the write is refused, the store stays and the exit is 1. Otherwise the store then reads back exactly what the file
  says, the projection is up to date and the exit is 0: also when a dbt import owns the entity and the file claims to be one.\<close>

theorem apply_writes_entity:
  assumes db: "store_ok ast_parse db"
    and given: "\<not> fs_is_dir fs p" "fs_is_file fs p" "is_yaml_name p" "parse_entity_yaml_file safe_load (fs_read fs p) = Inr e"
    and bound: "match_qualified (en_qualified_table e) = Some (s, t)" "has_table db (s, t, src)"
  shows "if en_origin e \<noteq> Dbt_Import \<and> (\<exists>r \<in> dbt_entities db. entity_key r = (src, en_name e))
    then apply_entities tags safe_load clock fs src [p] db =
      \<lparr>ao_store = db, ao_applied = [], ao_failures = [(p, Refused_Write (DbtOwnedEntity (en_name e)))], ao_exit = Exit 1\<rparr>
    else ao_exit (apply_entities tags safe_load clock fs src [p] db) = Exit 0 \<and>
      get_entity (ao_store (apply_entities tags safe_load clock fs src [p] db)) src (en_name e) = Inr (Some e) \<and>
      rebuild_graph_projection tags src (ao_store (apply_entities tags safe_load clock fs src [p] db)) =
        Inr (ao_store (apply_entities tags safe_load clock fs src [p] db))"
proof -
  let ?guard = "en_origin e \<noteq> Dbt_Import \<and> (\<exists>r \<in> dbt_entities db. entity_key r = (src, en_name e))"
  have x: "expand_yaml_paths fs [p] = ([p], [])" using given(1-3) by (simp add: expand_yaml_paths_def)
  have k: "keyed entity_key (st_entities db)" using db by (simp add: store_ok_def keys_ok_def)
  have st: "split1 CHR ''.'' (en_qualified_table e) = (s, Some t)"
    using bound(1) split1_append [OF is_ident_no_dot, of s t] by (simp add: match_qualified_iff)
  have owned: "?guard \<longleftrightarrow> en_origin e \<noteq> Dbt_Import \<and> (case find_row entity_key (src, en_name e) (st_entities db) of
      Some r \<Rightarrow> er_origin r = Dbt_Import | None \<Rightarrow> False)"
  proof (cases "find_row entity_key (src, en_name e) (st_entities db)")
    case None
    then show ?thesis using find_row_None [of entity_key "(src, en_name e)" "st_entities db"] by (auto simp: dbt_entities_def has_key_iff)
  next
    case (Some q)
    have "r \<in> set (st_entities db) \<and> entity_key r = (src, en_name e) \<longleftrightarrow> r = q" for r
      using find_row_Some [OF k, of "(src, en_name e)" r] Some by auto
    then have "(\<exists>r \<in> dbt_entities db. entity_key r = (src, en_name e)) \<longleftrightarrow> er_origin q = Dbt_Import"
      unfolding dbt_entities_def by (metis (mono_tags, lifting) mem_Collect_eq)
    then show ?thesis using Some by simp
  qed
  show ?thesis
  proof (cases ?guard)
    case True
    then have "write_entity src (clock 0) e db = Inl (DbtOwnedEntity (en_name e))"
      using owned st by (auto simp: write_entity_def Let_def split: option.splits)
    then have "apply_entities tags safe_load clock fs src [p] db =
        \<lparr>ao_store = db, ao_applied = [], ao_failures = [(p, Refused_Write (DbtOwnedEntity (en_name e)))], ao_exit = Exit 1\<rparr>"
      using given(4) by (simp add: apply_entities_def x start_run_def finish_run_def entity_handled_def Let_def)
    then show ?thesis using True by simp
  next
    case False
    then obtain d where d: "write_entity src (clock 0) e db = Inr d"
      using owned st bound(2) by (auto simp: write_entity_def Let_def split: option.splits)
    have ok: "store_ok ast_parse d" by (rule write_entity_ok [OF db file_parsed(1) [OF given(4)] d])
    obtain d' where d': "rebuild_graph_projection tags src d = Inr d'" "rebuild_graph_projection tags src d' = Inr d'"
      by (rule rebuild_ok [OF ok, where tags = tags and src = src])
    have out: "apply_entities tags safe_load clock fs src [p] db =
        \<lparr>ao_store = d', ao_applied = [en_name e], ao_failures = [], ao_exit = Exit 0\<rparr>"
      using given(4) d d' by (simp add: apply_entities_def x start_run_def finish_run_def Let_def)
    have "get_entity d src (en_name e) = Inr (Some e)" by (rule written_entity_reads [OF file_parsed(1) [OF given(4)] d])
    then have "get_entity d' src (en_name e) = Inr (Some e)"
      using refresh_rows [OF ok d'(1)] by (simp add: get_entity_def)
    then show ?thesis using False by (simp only: out d' if_False apply_outcome.simps)
  qed
qed

subsection \<open>A directory of two files\<close>

definition claimed_entity :: entity where
  "claimed_entity = (demo_entity Dbt_Import)\<lparr>en_description := ''edited''\<rparr>"

definition demo_files :: file_system where
  "demo_files = \<lparr>fs_is_dir = (\<lambda>p. p = ''defs''), fs_is_file = (\<lambda>p. p \<noteq> ''defs''),
     fs_iterdir = (\<lambda>p. Some [''defs/order.yaml'', ''defs/notes.txt'']), fs_resolve = id, fs_read = (\<lambda>p. Read_Text p)\<rparr>"

definition demo_load :: yaml_loader where
  "demo_load t = (if t = ''defs/order.yaml'' then Inr (entity_body claimed_entity)
     else if t = ''m.yml'' then Inr (metric_body (demo_metric Manual ''order'')) else Inl (Yaml_Error t))"

lemma claimed_entity_parses: "parse_entity_yaml_file demo_load (fs_read demo_files ''defs/order.yaml'') = Inr claimed_entity"
proof -
  have "entity_ok claimed_entity"
    by (simp add: entity_ok_def claimed_entity_def demo_entity_def en_qualified_table_def match_qualified_def split1_def char_class_defs)
  then have "parse_entity_yaml demo_load ''defs/order.yaml'' = Inr (hand_entity claimed_entity)"
    by (rule parse_entity_body) (simp add: demo_load_def)
  moreover have "hand_entity claimed_entity = claimed_entity" by (simp add: hand_entity_def claimed_entity_def demo_entity_def)
  ultimately show ?thesis by (simp add: parse_entity_yaml_file_def file_text_def demo_files_def)
qed

theorem apply_writes_entity_witness:
  "dbt_entities (demo_store Dbt_Import) \<noteq> {} \<and>
   get_entity (ao_store (apply_entities order_tags demo_load (\<lambda>n. 9) demo_files ''s'' [''defs/order.yaml''] (demo_store Dbt_Import)))
     ''s'' ''order'' = Inr (Some claimed_entity)"
proof
  have "list_ex (\<lambda>r. er_origin r = Dbt_Import) (st_entities (demo_store Dbt_Import))" by code_simp
  then show "dbt_entities (demo_store Dbt_Import) \<noteq> {}" by (auto simp: dbt_entities_def list_ex_iff)
  have h: "has_table (demo_store Dbt_Import) (''public'', ''orders'', ''s'')" by code_simp
  have q: "match_qualified (en_qualified_table claimed_entity) = Some (''public'', ''orders'')"
    by (simp add: claimed_entity_def demo_entity_def en_qualified_table_def match_qualified_def split1_def char_class_defs)
  have f: "\<not> fs_is_dir demo_files ''defs/order.yaml''" "fs_is_file demo_files ''defs/order.yaml''" "is_yaml_name ''defs/order.yaml''"
    by (simp_all add: demo_files_def) code_simp
  have n: "en_origin claimed_entity = Dbt_Import" "en_name claimed_entity = ''order''"
    by (simp_all add: claimed_entity_def demo_entity_def)
  show "get_entity (ao_store (apply_entities order_tags demo_load (\<lambda>n. 9) demo_files ''s'' [''defs/order.yaml''] (demo_store Dbt_Import)))
     ''s'' ''order'' = Inr (Some claimed_entity)"
    using apply_writes_entity [OF store_reach_ok [OF demo_store_reach(2)] f claimed_entity_parses q h, of order_tags "\<lambda>n. 9"] n
    by simp
qed

theorem apply_commands_sound_witness:
  "(let out = apply_entities order_tags demo_load (\<lambda>n. 9) demo_files ''s'' [''defs'', ''gone.txt''] (demo_store Dbt_Import) in
    store_ok no_parse (ao_store out) \<and>
    command_meets (parse_entity_yaml_file demo_load) (write_entity ''s'') en_name (rebuild_graph_projection order_tags ''s'') (\<lambda>n. 9)
      (fs_read demo_files) (expand_yaml_paths demo_files [''defs'', ''gone.txt'']) (demo_store Dbt_Import) out \<and>
    ao_applied out = [''order''] \<and> ao_failures out = [(''gone.txt'', Bad_Path Not_Yaml)] \<and> ao_exit out = Exit 1)"
proof -
  let ?out = "apply_entities order_tags demo_load (\<lambda>n. 9) demo_files ''s'' [''defs'', ''gone.txt''] (demo_store Dbt_Import)"
  note t = apply_commands_sound [OF store_reach_ok [OF demo_store_reach(2)], where tags = order_tags and safe_load = demo_load
    and clock = "\<lambda>n. 9" and fs = demo_files and src = "''s''" and raws = "[''defs'', ''gone.txt'']"]
  have "ao_applied ?out = [''order''] \<and> ao_failures ?out = [(''gone.txt'', Bad_Path Not_Yaml)] \<and> ao_exit ?out = Exit 1" by code_simp
  then show ?thesis unfolding Let_def using t by blast
qed

theorem apply_spares_dbt_witness:
  "dbt_metrics (demo_store Dbt_Import) \<noteq> {} \<and>
   dbt_metrics (demo_store Dbt_Import) \<subseteq> dbt_metrics (ao_store (apply_metrics no_parse demo_load (\<lambda>n. 9) demo_files ''s'' [''m.yml''] (demo_store Dbt_Import)))"
proof
  have "list_ex (\<lambda>r. mr_origin r = Dbt_Import) (st_metrics (demo_store Dbt_Import))" by code_simp
  then show "dbt_metrics (demo_store Dbt_Import) \<noteq> {}" by (auto simp: dbt_metrics_def list_ex_iff)
  show "dbt_metrics (demo_store Dbt_Import) \<subseteq> dbt_metrics (ao_store (apply_metrics no_parse demo_load (\<lambda>n. 9) demo_files ''s'' [''m.yml''] (demo_store Dbt_Import)))"
    using apply_spares_dbt [OF store_reach_ok [OF demo_store_reach(2)]] by blast
qed

end
