(* ===== verification/DbtImport.thy ===== *)
theory DbtImport
  imports GraphProjection
begin

section \<open>Importing a dbt project (imports/dbt.py)\<close>

text \<open>
  From the parsed manifest on: the identity column of a model, the entity a model maps to, the joins its relationship
  tests declare, the comparison with the live source, the plan of an import and its application to the store. The JSON of
  \<^verbatim>\<open>manifest.json\<close> and its reading are left out: the model starts at \<open>dbt_manifest\<close>. The live source is a
  parameter that gives a table or none. The lemmas show that a plan sorts every model into one bucket, what an applied
  plan leaves in the store, and that a second import of the same project only updates.
\<close>

subsection \<open>The parsed manifest\<close>

record dbt_constraint =
  dc_type :: string
  dc_name :: "string option"

record dbt_column_tests =
  dt_is_unique :: bool
  dt_is_not_null :: bool

record dbt_column =
  dk_name :: string
  dk_data_type :: "string option"
  dk_description :: string
  dk_constraints :: "dbt_constraint list"
  dk_tests :: dbt_column_tests

record dbt_model =
  dm_unique_id :: string
  dm_name :: string
  dm_database :: string
  dm_schema_name :: string
  dm_identifier :: string
  dm_description :: string
  dm_columns :: "dbt_column list"
  dm_depends_on_sources :: "string list"

record dbt_source =
  ds_unique_id :: string
  ds_source_name :: string
  ds_name :: string
  ds_database :: string
  ds_schema_name :: string
  ds_identifier :: string

record dbt_relationship =
  rl_from_model_unique_id :: string
  rl_from_column :: string
  rl_to_model_name :: string
  rl_to_column :: string

record dbt_skip_counts =
  sc_metrics :: int
  sc_snapshots :: int
  sc_seeds :: int
  sc_analyses :: int
  sc_operations :: int
  sc_exposures :: int
  sc_other :: int

record dbt_manifest =
  mf_manifest_version :: int
  mf_dbt_project_name :: string
  mf_models :: "dbt_model list"
  mf_sources_by_id :: "string \<rightharpoonup> dbt_source"
  mf_skipped :: dbt_skip_counts
  mf_relationships :: "dbt_relationship list"

subsection \<open>The identity of a model\<close>

datatype identity_method = Primary_Key_Constraint | Unique_Not_Null_Constraints | Unique_Not_Null_Tests

record dbt_identity =
  di_column_name :: string
  di_method :: identity_method

datatype drift_point =
  Table_Missing string | Columns_Missing "string list" | Identity_Missing string | Identity_Nullable string

datatype dbt_error =
    Identity_Ambiguous identity_method "string list" | Identity_Unresolved "string list"
  | Mapping_Failed string model_error
  | Schema_Drifted string "drift_point list"

definition columns_with_constraint :: "dbt_model \<Rightarrow> string \<Rightarrow> dbt_column list" where
  "columns_with_constraint m ty = filter (\<lambda>c. list_ex (\<lambda>k. dc_type k = ty) (dk_constraints c)) (dm_columns m)"

definition columns_with_constraint_pair :: "dbt_model \<Rightarrow> string \<Rightarrow> string \<Rightarrow> dbt_column list" where
  "columns_with_constraint_pair m type_a type_b =
     filter (\<lambda>c. list_ex (\<lambda>k. dc_type k = type_a) (dk_constraints c) \<and> list_ex (\<lambda>k. dc_type k = type_b) (dk_constraints c))
       (dm_columns m)"

definition columns_with_unique_not_null_tests :: "dbt_model \<Rightarrow> dbt_column list" where
  "columns_with_unique_not_null_tests m = filter (\<lambda>c. dt_is_unique (dk_tests c) \<and> dt_is_not_null (dk_tests c)) (dm_columns m)"

definition resolve_dbt_identity :: "dbt_model \<Rightarrow> dbt_error + dbt_identity" where
  "resolve_dbt_identity m =
     (case columns_with_constraint m ''primary_key'' of
        [c] \<Rightarrow> Inr \<lparr>di_column_name = dk_name c, di_method = Primary_Key_Constraint\<rparr>
      | c # d # cs \<Rightarrow> Inl (Identity_Ambiguous Primary_Key_Constraint (map dk_name (c # d # cs)))
      | [] \<Rightarrow>
          (case columns_with_constraint_pair m ''unique'' ''not_null'' of
             [c] \<Rightarrow> Inr \<lparr>di_column_name = dk_name c, di_method = Unique_Not_Null_Constraints\<rparr>
           | c # d # cs \<Rightarrow> Inl (Identity_Ambiguous Unique_Not_Null_Constraints (map dk_name (c # d # cs)))
           | [] \<Rightarrow>
               (case columns_with_unique_not_null_tests m of
                  [c] \<Rightarrow> Inr \<lparr>di_column_name = dk_name c, di_method = Unique_Not_Null_Tests\<rparr>
                | c # d # cs \<Rightarrow> Inl (Identity_Ambiguous Unique_Not_Null_Tests (map dk_name (c # d # cs)))
                | [] \<Rightarrow> Inl (Identity_Unresolved (map dk_name (dm_columns m))))))"

subsection \<open>Models as entities\<close>

record dbt_imported_entity =
  ie_entity :: entity
  ie_dbt_unique_id :: string
  ie_identity_resolution_method :: identity_method
  ie_upstream_sources :: "string list"

definition resolve_upstream_sources :: "dbt_model \<Rightarrow> dbt_manifest \<Rightarrow> string list" where
  "resolve_upstream_sources m manifest =
     List.map_filter (\<lambda>i. map_option (\<lambda>s. ds_schema_name s @ ''.'' @ ds_identifier s) (mf_sources_by_id manifest i))
       (dm_depends_on_sources m)"

definition dbt_model_to_entity :: "dbt_model \<Rightarrow> dbt_manifest \<Rightarrow> dbt_error + dbt_imported_entity" where
  "dbt_model_to_entity m manifest =
     rbind (resolve_dbt_identity m) (\<lambda>resolution.
       case rbind (make_binding (dm_schema_name m @ ''.'' @ dm_identifier m)) (\<lambda>binding.
              check_entity
                \<lparr>en_name = dm_name m, en_description = dm_description m, en_binding = binding,
                 en_identity = di_column_name resolution, en_origin = Dbt_Import, en_inference_method = Manually_Authored,
                 en_validation_state = Applied, en_group = Other_Group, en_bind_confidence = None, en_rationale = []\<rparr>) of
         Inl e \<Rightarrow> Inl (Mapping_Failed (dm_unique_id m) e)
       | Inr e \<Rightarrow>
           Inr \<lparr>ie_entity = e, ie_dbt_unique_id = dm_unique_id m, ie_identity_resolution_method = di_method resolution,
                ie_upstream_sources = resolve_upstream_sources m manifest\<rparr>)"

subsection \<open>Relationship tests as joins\<close>

datatype join_skip_reason = Endpoint_Not_Imported | Self_Join_Skip | Invalid_Shape

text \<open>The breadcrumb of a skip names the side it starts from and the column.\<close>

record dbt_join_skip =
  jk_from :: "string \<times> string"
  jk_reason :: join_skip_reason

definition name_by_unique_id :: "dbt_manifest \<Rightarrow> (string \<rightharpoonup> string)" where
  "name_by_unique_id manifest = map_of (rev (map (\<lambda>m. (dm_unique_id m, dm_name m)) (mf_models manifest)))"

definition model_names :: "dbt_manifest \<Rightarrow> string set" where
  "model_names manifest = (\<lambda>m. the (name_by_unique_id manifest (dm_unique_id m))) ` set (mf_models manifest)"

definition relationship_to_join :: "dbt_manifest \<Rightarrow> dbt_relationship \<Rightarrow> dbt_join_skip + canonical_join" where
  "relationship_to_join manifest rel =
     (case name_by_unique_id manifest (rl_from_model_unique_id rel) of
        None \<Rightarrow> Inl \<lparr>jk_from = (rl_from_model_unique_id rel, rl_from_column rel), jk_reason = Endpoint_Not_Imported\<rparr>
      | Some from_entity \<Rightarrow>
          (let skip = (\<lambda>r. Inl \<lparr>jk_from = (from_entity, rl_from_column rel), jk_reason = r\<rparr>) in
           if rl_to_model_name rel \<notin> model_names manifest then skip Endpoint_Not_Imported
           else if from_entity = rl_to_model_name rel then skip Self_Join_Skip
           else (case rbind (make_join_column_pair (rl_from_column rel) (rl_to_column rel)) (\<lambda>p.
                        check_canonical_join
                          \<lparr>cj_name = from_entity @ ''_'' @ rl_from_column rel,
                           cj_description = ''Imported from a dbt relationships test on '' @ from_entity @ ''.'' @ rl_from_column rel @ ''.'',
                           cj_source_entity = from_entity, cj_target_entity = rl_to_model_name rel, cj_on = [p],
                           cj_origin = Dbt_Import, cj_cardinality = None, cj_inference_method = Manually_Authored,
                           cj_validation_state = Applied\<rparr>) of
                   Inl e \<Rightarrow> skip Invalid_Shape
                 | Inr j \<Rightarrow> Inr j)))"

definition dbt_relationships_to_joins :: "dbt_manifest \<Rightarrow> canonical_join list \<times> dbt_join_skip list" where
  "dbt_relationships_to_joins manifest =
     (let outcomes = map (relationship_to_join manifest) (mf_relationships manifest) in
      (sort_key cj_name (List.map_filter (\<lambda>x. case x of Inr j \<Rightarrow> Some j | Inl k \<Rightarrow> None) outcomes),
       List.map_filter (\<lambda>x. case x of Inl k \<Rightarrow> Some k | Inr j \<Rightarrow> None) outcomes))"

subsection \<open>The live source\<close>

type_synonym live_source = "string \<Rightarrow> string \<Rightarrow> db_table option"

definition verify_against_live_schema :: "dbt_imported_entity \<Rightarrow> dbt_model \<Rightarrow> live_source \<Rightarrow> dbt_error + unit" where
  "verify_against_live_schema imported m live_table =
     (case live_table (dm_identifier m) (dm_schema_name m) of
        None \<Rightarrow> Inl (Schema_Drifted (dm_unique_id m) [Table_Missing (dm_schema_name m @ ''.'' @ dm_identifier m)])
      | Some live \<Rightarrow>
          (let by_name = map_of (rev (map (\<lambda>c. (co_name c, c)) (tb_columns live)));
               missing = filter (\<lambda>n. by_name n = None) (map dk_name (dm_columns m));
               identity = en_identity (ie_entity imported);
               drift = (if missing \<noteq> [] then [Columns_Missing missing] else [])
                 @ (case by_name identity of
                      None \<Rightarrow> [Identity_Missing identity]
                    | Some c \<Rightarrow> if co_nullable c then [Identity_Nullable identity] else [])
           in if drift \<noteq> [] then Inl (Schema_Drifted (dm_unique_id m) drift) else Inr ()))"

subsection \<open>The plan\<close>

datatype skip_reason = Identity_Resolution | Mapping_Skip | Schema_Drift_Skip

record dbt_import_skip =
  ks_dbt_unique_id :: string
  ks_reason :: skip_reason

datatype model_verdict =
    Skip_Model dbt_import_skip | Add_Entity dbt_imported_entity | Update_Entity dbt_imported_entity
  | Take_Entity dbt_imported_entity origin

record dbt_import_plan =
  pn_dbt_project_name :: string
  pn_to_add :: "dbt_imported_entity list"
  pn_to_update :: "dbt_imported_entity list"
  pn_to_take_ownership :: "(dbt_imported_entity \<times> origin) list"
  pn_orphans :: "string list"
  pn_skipped :: "dbt_import_skip list"
  pn_skip_counts :: dbt_skip_counts
  pn_joins_to_write :: "canonical_join list"
  pn_joins_skipped :: "dbt_join_skip list"

text \<open>The body of the loop over the models.\<close>

definition judge_model :: "dbt_manifest \<Rightarrow> live_source \<Rightarrow> (string \<rightharpoonup> entity) \<Rightarrow> dbt_model \<Rightarrow> model_verdict" where
  "judge_model manifest live_table existing m =
     (case dbt_model_to_entity m manifest of
        Inl (Mapping_Failed i e) \<Rightarrow> Skip_Model \<lparr>ks_dbt_unique_id = dm_unique_id m, ks_reason = Mapping_Skip\<rparr>
      | Inl e \<Rightarrow> Skip_Model \<lparr>ks_dbt_unique_id = dm_unique_id m, ks_reason = Identity_Resolution\<rparr>
      | Inr imported \<Rightarrow>
          (case verify_against_live_schema imported m live_table of
             Inl e \<Rightarrow> Skip_Model \<lparr>ks_dbt_unique_id = dm_unique_id m, ks_reason = Schema_Drift_Skip\<rparr>
           | Inr _ \<Rightarrow>
               (case existing (en_name (ie_entity imported)) of
                  None \<Rightarrow> Add_Entity imported
                | Some e \<Rightarrow> if en_origin e = Dbt_Import then Update_Entity imported else Take_Entity imported (en_origin e))))"

definition imported_name :: "dbt_imported_entity \<Rightarrow> string" where
  "imported_name i = en_name (ie_entity i)"

definition added :: "model_verdict \<Rightarrow> dbt_imported_entity option" where
  "added v = (case v of Add_Entity i \<Rightarrow> Some i | _ \<Rightarrow> None)"

definition updated :: "model_verdict \<Rightarrow> dbt_imported_entity option" where
  "updated v = (case v of Update_Entity i \<Rightarrow> Some i | _ \<Rightarrow> None)"

definition taken :: "model_verdict \<Rightarrow> (dbt_imported_entity \<times> origin) option" where
  "taken v = (case v of Take_Entity i org \<Rightarrow> Some (i, org) | _ \<Rightarrow> None)"

definition skipped :: "model_verdict \<Rightarrow> dbt_import_skip option" where
  "skipped v = (case v of Skip_Model k \<Rightarrow> Some k | _ \<Rightarrow> None)"

text \<open>The names of a source's entities are unique, so the dict by name lists them once each.\<close>

definition plan_dbt_import :: "dbt_manifest \<Rightarrow> live_source \<Rightarrow> string \<Rightarrow> store \<Rightarrow> store_error + dbt_import_plan" where
  "plan_dbt_import manifest live_table src db =
     rbind (list_entities db (Some src)) (\<lambda>es.
       let existing = map_of (rev (map (\<lambda>e. (en_name e, e)) es));
           verdicts = map (judge_model manifest live_table existing) (mf_models manifest);
           to_add = List.map_filter added verdicts;
           to_update = List.map_filter updated verdicts;
           to_take = List.map_filter taken verdicts;
           model_names = dm_name ` set (mf_models manifest);
           orphans = map en_name (filter (\<lambda>e. en_origin e = Dbt_Import \<and> en_name e \<notin> model_names) es);
           will_exist = en_name ` set es \<union> imported_name ` set to_add \<union> imported_name ` set to_update \<union> (imported_name \<circ> fst) ` set to_take;
           (candidates, join_skips) = dbt_relationships_to_joins manifest;
           writable = (\<lambda>j. cj_source_entity j \<in> will_exist \<and> cj_target_entity j \<in> will_exist);
           extra = map (\<lambda>j. \<lparr>jk_from = (cj_source_entity j, jp_source_column (hd (cj_on j))), jk_reason = Endpoint_Not_Imported\<rparr>)
                     (filter (\<lambda>j. \<not> writable j) candidates)
       in Inr \<lparr>pn_dbt_project_name = mf_dbt_project_name manifest,
               pn_to_add = sort_key imported_name to_add, pn_to_update = sort_key imported_name to_update,
               pn_to_take_ownership = sort_key (imported_name \<circ> fst) to_take, pn_orphans = sort orphans,
               pn_skipped = sort_key ks_dbt_unique_id (List.map_filter skipped verdicts),
               pn_skip_counts = mf_skipped manifest, pn_joins_to_write = sort_key cj_name (filter writable candidates),
               pn_joins_skipped = join_skips @ extra\<rparr>)"

subsection \<open>Applying a plan\<close>

record import_run =
  ir_store :: store
  ir_write_failures :: "(string \<times> store_error) list"
  ir_crash :: "store_error option"

text \<open>One write, with the exceptions it handles; the clock gives the time of the write with so many still to come.\<close>

definition write_one :: "string \<Rightarrow> int \<Rightarrow> dbt_imported_entity \<Rightarrow> import_run \<Rightarrow> import_run" where
  "write_one src now i run =
     (if ir_crash run \<noteq> None then run
      else case write_entity src now (ie_entity i) (ir_store run) of
        Inr db' \<Rightarrow> run\<lparr>ir_store := db'\<rparr>
      | Inl IntegrityError \<Rightarrow> run\<lparr>ir_write_failures := ir_write_failures run @ [(imported_name i, IntegrityError)]\<rparr>
      | Inl (DbtOwnedEntity n) \<Rightarrow> run\<lparr>ir_write_failures := ir_write_failures run @ [(imported_name i, DbtOwnedEntity n)]\<rparr>
      | Inl e \<Rightarrow> run\<lparr>ir_crash := Some e\<rparr>)"

definition write_one_join :: "string \<Rightarrow> int \<Rightarrow> canonical_join \<Rightarrow> import_run \<Rightarrow> import_run" where
  "write_one_join src now j run =
     (if ir_crash run \<noteq> None then run
      else case write_canonical_join src now j (ir_store run) of
        Inr db' \<Rightarrow> run\<lparr>ir_store := db'\<rparr>
      | Inl IntegrityError \<Rightarrow> run\<lparr>ir_write_failures := ir_write_failures run @ [(cj_name j, IntegrityError)]\<rparr>
      | Inl e \<Rightarrow> run\<lparr>ir_crash := Some e\<rparr>)"

definition planned_entities :: "dbt_import_plan \<Rightarrow> dbt_imported_entity list" where
  "planned_entities p = pn_to_add p @ pn_to_update p @ map fst (pn_to_take_ownership p)"

definition apply_dbt_import_plan :: "dbt_import_plan \<Rightarrow> string \<Rightarrow> (nat \<Rightarrow> int) \<Rightarrow> store \<Rightarrow> import_run" where
  "apply_dbt_import_plan p src clock db =
     (let run0 = \<lparr>ir_store = db, ir_write_failures = [], ir_crash = None\<rparr>;
          run1 = foldl (\<lambda>run (n, i). write_one src (clock n) i run) run0 (enumerate 0 (planned_entities p))
      in foldl (\<lambda>run (n, j). write_one_join src (clock n) j run) run1
           (enumerate (length (planned_entities p)) (pn_joins_to_write p)))"

subsection \<open>What is planned\<close>

lemma model_to_entity_Inr:
  assumes "dbt_model_to_entity m manifest = Inr i"
  shows "entity_ok (ie_entity i)" "en_name (ie_entity i) = dm_name m" "en_origin (ie_entity i) = Dbt_Import"
    "en_qualified_table (ie_entity i) = dm_schema_name m @ ''.'' @ dm_identifier m"
    "\<exists>r. resolve_dbt_identity m = Inr r \<and> en_identity (ie_entity i) = di_column_name r"
  using assms
  by (auto simp: dbt_model_to_entity_def result_simps make_binding_def check_entity_def entity_ok_def en_qualified_table_def
      split: sum.splits if_splits)

lemma model_to_entity_Inl:
  "dbt_model_to_entity m manifest = Inl e \<Longrightarrow> (\<exists>r. resolve_dbt_identity m = Inl r) \<or> (\<exists>i x. e = Mapping_Failed i x)"
  by (cases "resolve_dbt_identity m") (auto simp: dbt_model_to_entity_def split: sum.splits)

lemma name_by_id: "name_by_unique_id manifest i = Some n \<Longrightarrow> n \<in> dm_name ` set (mf_models manifest)"
  using map_of_SomeD by (fastforce simp: name_by_unique_id_def)

lemma names_of_models: "model_names manifest \<subseteq> dm_name ` set (mf_models manifest)"
proof
  fix n assume "n \<in> model_names manifest"
  then obtain m where m: "m \<in> set (mf_models manifest)" "n = the (name_by_unique_id manifest (dm_unique_id m))"
    by (auto simp: model_names_def)
  have "name_by_unique_id manifest (dm_unique_id m) \<noteq> None"
    using m(1) by (auto simp: name_by_unique_id_def map_of_eq_None_iff image_image)
  then show "n \<in> dm_name ` set (mf_models manifest)" using m(2) name_by_id by auto
qed

lemma relationship_Inr:
  assumes "relationship_to_join manifest rel = Inr j"
  shows "join_ok j \<and> cj_origin j = Dbt_Import \<and> cj_source_entity j \<in> dm_name ` set (mf_models manifest)
    \<and> cj_target_entity j \<in> dm_name ` set (mf_models manifest)"
proof -
  obtain a where a: "name_by_unique_id manifest (rl_from_model_unique_id rel) = Some a"
    using assms by (auto simp: relationship_to_join_def split: option.splits)
  have t: "rl_to_model_name rel \<in> model_names manifest"
    using assms by (auto simp: relationship_to_join_def a Let_def split: if_splits)
  have "join_ok j \<and> cj_origin j = Dbt_Import \<and> cj_source_entity j = a \<and> cj_target_entity j = rl_to_model_name rel"
    using assms by (auto simp: relationship_to_join_def a Let_def result_simps make_join_column_pair_def check_canonical_join_def
        join_ok_def pair_ok_def split: if_splits sum.splits)
  moreover have "a \<in> dm_name ` set (mf_models manifest)" "rl_to_model_name rel \<in> dm_name ` set (mf_models manifest)"
    using name_by_id [OF a] t names_of_models by blast+
  ultimately show ?thesis by simp
qed

lemma set_map_filter: "y \<in> set (List.map_filter f xs) \<longleftrightarrow> (\<exists>x \<in> set xs. f x = Some y)"
  by (force simp: List.map_filter_def)

lemma right_iff: "(case x of Inl k \<Rightarrow> None | Inr j \<Rightarrow> Some j) = Some y \<longleftrightarrow> x = Inr y"
  by (cases x) auto

lemma candidate_joins: "j \<in> set (fst (dbt_relationships_to_joins manifest)) \<Longrightarrow> join_ok j"
proof -
  assume "j \<in> set (fst (dbt_relationships_to_joins manifest))"
  then obtain rel where "relationship_to_join manifest rel = Inr j"
    by (auto simp: dbt_relationships_to_joins_def Let_def set_map_filter right_iff)
  then show "join_ok j" using relationship_Inr by blast
qed

lemma written_entity_others:
  assumes "write_entity src now e db = Inr db'" "n \<noteq> en_name e"
  shows "get_entity db' src n = get_entity db src n"
proof -
  obtain s t where d: "db' = db\<lparr>st_entities := upsert_row entity_key (update_entity_row (entity_to_row src now e s t)) (entity_to_row src now e s t) (st_entities db)\<rparr>"
    using write_entity_Inr [OF assms(1)] by metis
  have "entity_key (entity_to_row src now e s t) = (src, en_name e)" by (simp add: entity_key_def entity_to_row_def)
  then show ?thesis using assms(2) by (simp add: get_entity_def d find_upsert keeps_keys)
qed

lemma entity_listed:
  assumes db: "store_ok ast_parse db" and es: "list_entities db (Some src) = Inr es"
  shows "e \<in> set es \<Longrightarrow> get_entity db src (en_name e) = Inr (Some e)"
    "get_entity db src n = Inr (Some e) \<Longrightarrow> e \<in> set es \<and> en_name e = n"
proof -
  let ?rows = "sort_key (\<lambda>r. (er_name r, er_source r)) (filter (\<lambda>r. Some src = None \<or> Some src = Some (er_source r)) (st_entities db))"
  have k: "keyed entity_key (st_entities db)" using db by (simp add: store_ok_def keys_ok_def)
  have rows: "rtraverse row_to_entity ?rows = Inr es" using es by (simp add: list_entities_def)
  have of_list: "get_entity db src (en_name e) = Inr (Some e)" if e: "e \<in> set es" for e
  proof -
    obtain r where r: "r \<in> set (st_entities db)" "er_source r = src" "row_to_entity r = Inr e"
      using rtraverse_Inr_set [OF rows e] by auto
    then have "find_row entity_key (src, en_name e) (st_entities db) = Some r"
      using find_row_Some [OF k, of "(src, en_name e)" r] row_to_entity_Inr [OF r(3)] by (simp add: entity_key_def)
    then show ?thesis using r(3) by (simp add: get_entity_def)
  qed
  have to_list: "e \<in> set es \<and> en_name e = m" if g: "get_entity db src m = Inr (Some e)" for m e
  proof -
    obtain r where r: "find_row entity_key (src, m) (st_entities db) = Some r" "row_to_entity r = Inr e"
      using g by (auto simp: get_entity_def result_simps split: option.splits)
    have "r \<in> set (st_entities db) \<and> entity_key r = (src, m)" using find_row_Some [OF k] r(1) by blast
    then have m: "r \<in> set ?rows" "er_name r = m" by (simp_all add: entity_key_def)
    obtain y where "y \<in> set es" "row_to_entity r = Inr y" using rtraverse_Inr_ex [OF rows m(1)] by blast
    then show ?thesis using r(2) row_to_entity_Inr [OF r(2)] m(2) by simp
  qed
  show "e \<in> set es \<Longrightarrow> get_entity db src (en_name e) = Inr (Some e)" by (rule of_list)
  show "get_entity db src n = Inr (Some e) \<Longrightarrow> e \<in> set es \<and> en_name e = n" by (rule to_list)
qed

lemma listed_distinct:
  assumes "store_ok ast_parse db" "list_entities db (Some src) = Inr es"
  shows "distinct (map en_name es)"
proof -
  obtain ys where "list_entities db (Some src) = Inr ys" "distinct (map en_name ys)"
    by (rule projected_entities [OF assms(1), where src = src and tags = "\<lambda>k. None"])
  then show ?thesis using assms(2) by simp
qed

lemma listed_lookup:
  assumes db: "store_ok ast_parse db" and es: "list_entities db (Some src) = Inr es"
  shows "map_of (rev (map (\<lambda>e. (en_name e, e)) es)) n = (case get_entity db src n of Inr x \<Rightarrow> x | Inl e \<Rightarrow> None)"
    "n \<in> en_name ` set es \<longleftrightarrow> (\<exists>e. get_entity db src n = Inr (Some e))"
proof -
  note of_list = entity_listed(1) [OF db es] and to_list = entity_listed(2) [OF db es]
  have dist: "distinct (map en_name es)" by (rule listed_distinct [OF db es])
  show mem: "n \<in> en_name ` set es \<longleftrightarrow> (\<exists>e. get_entity db src n = Inr (Some e))"
    using of_list to_list by blast
  show "map_of (rev (map (\<lambda>e. (en_name e, e)) es)) n = (case get_entity db src n of Inr x \<Rightarrow> x | Inl e \<Rightarrow> None)"
  proof (cases "\<exists>e. get_entity db src n = Inr (Some e)")
    case True
    then obtain e where e: "get_entity db src n = Inr (Some e)" by blast
    have "map_of (rev (map (\<lambda>e. (en_name e, e)) es)) n = Some e"
      using to_list [OF e] dist by (intro map_of_is_SomeI) (auto simp: comp_def rev_map [symmetric])
    then show ?thesis using e by simp
  next
    case False
    then have "n \<notin> fst ` set (rev (map (\<lambda>e. (en_name e, e)) es))" using mem by auto
    then have "map_of (rev (map (\<lambda>e. (en_name e, e)) es)) n = None" unfolding map_of_eq_None_iff .
    moreover have "(case get_entity db src n of Inr x \<Rightarrow> x | Inl e \<Rightarrow> None) = None"
      using False by (auto split: sum.splits)
    ultimately show ?thesis by simp
  qed
qed

text \<open>The plan of a store with the integrity invariant, field by field.\<close>

definition existing_entity :: "store \<Rightarrow> string \<Rightarrow> (string \<rightharpoonup> entity)" where
  "existing_entity db src n = (case get_entity db src n of Inr x \<Rightarrow> x | Inl e \<Rightarrow> None)"

definition verdicts :: "dbt_manifest \<Rightarrow> live_source \<Rightarrow> string \<Rightarrow> store \<Rightarrow> model_verdict list" where
  "verdicts manifest live_table src db = map (judge_model manifest live_table (existing_entity db src)) (mf_models manifest)"

definition importable :: "dbt_manifest \<Rightarrow> live_source \<Rightarrow> dbt_model \<Rightarrow> dbt_imported_entity option" where
  "importable manifest live_table m =
     (case dbt_model_to_entity m manifest of
        Inl e \<Rightarrow> None
      | Inr i \<Rightarrow> (case verify_against_live_schema i m live_table of Inl e \<Rightarrow> None | Inr u \<Rightarrow> Some i))"

definition will_exist :: "dbt_manifest \<Rightarrow> live_source \<Rightarrow> string \<Rightarrow> store \<Rightarrow> string \<Rightarrow> bool" where
  "will_exist manifest live_table src db n \<longleftrightarrow> (\<exists>e. get_entity db src n = Inr (Some e))
     \<or> (\<exists>m \<in> set (mf_models manifest). \<exists>i. importable manifest live_table m = Some i \<and> imported_name i = n)"

lemma judge_cases:
  "added (judge_model manifest live_table ex m) = Some i \<longleftrightarrow> importable manifest live_table m = Some i \<and> ex (imported_name i) = None"
  "updated (judge_model manifest live_table ex m) = Some i \<longleftrightarrow> importable manifest live_table m = Some i
     \<and> (\<exists>e. ex (imported_name i) = Some e \<and> en_origin e = Dbt_Import)"
  "taken (judge_model manifest live_table ex m) = Some (i, org) \<longleftrightarrow> importable manifest live_table m = Some i
     \<and> (\<exists>e. ex (imported_name i) = Some e \<and> en_origin e = org \<and> org \<noteq> Dbt_Import)"
  "(\<exists>k. skipped (judge_model manifest live_table ex m) = Some k) \<longleftrightarrow> importable manifest live_table m = None"
  by (auto simp: judge_model_def importable_def imported_name_def added_def updated_def taken_def skipped_def
      split: sum.splits option.splits dbt_error.splits)

lemma skipped_cong:
  "skipped (judge_model manifest live_table ex m) = skipped (judge_model manifest live_table ex' m)"
  by (auto simp: judge_model_def skipped_def split: sum.splits option.splits dbt_error.splits)

lemma planned_names:
  "imported_name ` set (List.map_filter added (verdicts manifest live_table src db)) \<union>
   imported_name ` set (List.map_filter updated (verdicts manifest live_table src db)) \<union>
   (imported_name \<circ> fst) ` set (List.map_filter taken (verdicts manifest live_table src db)) =
     {n. \<exists>m \<in> set (mf_models manifest). \<exists>i. importable manifest live_table m = Some i \<and> imported_name i = n}" (is "?l = ?r")
proof (intro equalityI subsetI)
  fix n assume "n \<in> ?l"
  then show "n \<in> ?r" by (auto simp: set_map_filter verdicts_def judge_cases; blast)
next
  fix n assume "n \<in> ?r"
  then obtain m i where m: "m \<in> set (mf_models manifest)" "importable manifest live_table m = Some i" "imported_name i = n" by blast
  let ?v = "judge_model manifest live_table (existing_entity db src) m"
  have v: "?v \<in> set (verdicts manifest live_table src db)" using m(1) by (simp add: verdicts_def)
  consider "added ?v = Some i" | "updated ?v = Some i" | org where "taken ?v = Some (i, org)"
    using m(2) judge_cases(1-3) [of manifest live_table "existing_entity db src" m]
    by (cases "existing_entity db src (imported_name i)") auto
  then show "n \<in> ?l"
  proof cases
    case 1
    then have "i \<in> set (List.map_filter added (verdicts manifest live_table src db))" using v by (auto simp: set_map_filter)
    then show ?thesis using m(3) by blast
  next
    case 2
    then have "i \<in> set (List.map_filter updated (verdicts manifest live_table src db))" using v by (auto simp: set_map_filter)
    then show ?thesis using m(3) by blast
  next
    case 3
    then have "(i, org) \<in> set (List.map_filter taken (verdicts manifest live_table src db))" using v by (auto simp: set_map_filter)
    then show ?thesis using m(3) by force
  qed
qed

definition writable_join :: "dbt_manifest \<Rightarrow> live_source \<Rightarrow> string \<Rightarrow> store \<Rightarrow> canonical_join \<Rightarrow> bool" where
  "writable_join manifest live_table src db j \<longleftrightarrow>
     will_exist manifest live_table src db (cj_source_entity j) \<and> will_exist manifest live_table src db (cj_target_entity j)"

definition orphaned :: "dbt_manifest \<Rightarrow> entity list \<Rightarrow> string list" where
  "orphaned manifest es =
     sort (map en_name (filter (\<lambda>e. en_origin e = Dbt_Import \<and> en_name e \<notin> dm_name ` set (mf_models manifest)) es))"

lemma plan_fields:
  assumes db: "store_ok ast_parse db" and es: "list_entities db (Some src) = Inr es"
  shows "plan_dbt_import manifest live_table src db = Inr
    \<lparr>pn_dbt_project_name = mf_dbt_project_name manifest,
     pn_to_add = sort_key imported_name (List.map_filter added (verdicts manifest live_table src db)),
     pn_to_update = sort_key imported_name (List.map_filter updated (verdicts manifest live_table src db)),
     pn_to_take_ownership = sort_key (imported_name \<circ> fst) (List.map_filter taken (verdicts manifest live_table src db)),
     pn_orphans = orphaned manifest es,
     pn_skipped = sort_key ks_dbt_unique_id (List.map_filter skipped (verdicts manifest live_table src db)),
     pn_skip_counts = mf_skipped manifest,
     pn_joins_to_write = sort_key cj_name (filter (writable_join manifest live_table src db) (fst (dbt_relationships_to_joins manifest))),
     pn_joins_skipped = snd (dbt_relationships_to_joins manifest) @
       map (\<lambda>j. \<lparr>jk_from = (cj_source_entity j, jp_source_column (hd (cj_on j))), jk_reason = Endpoint_Not_Imported\<rparr>)
         (filter (\<lambda>j. \<not> writable_join manifest live_table src db j) (fst (dbt_relationships_to_joins manifest)))\<rparr>"
proof -
  let ?ex = "map_of (rev (map (\<lambda>e. (en_name e, e)) es))" and ?vs = "verdicts manifest live_table src db"
  have ex: "?ex = existing_entity db src"
    using listed_lookup(1) [OF db es] by (simp add: fun_eq_iff existing_entity_def)
  have w: "en_name ` set es \<union> imported_name ` set (List.map_filter added ?vs) \<union> imported_name ` set (List.map_filter updated ?vs)
      \<union> (imported_name \<circ> fst) ` set (List.map_filter taken ?vs) = {n. will_exist manifest live_table src db n}"
    using planned_names [of manifest live_table src db] listed_lookup(2) [OF db es] unfolding will_exist_def by blast
  show ?thesis
    unfolding plan_dbt_import_def es rbind.simps Let_def ex verdicts_def [symmetric] orphaned_def w
    by (simp add: case_prod_unfold writable_join_def [abs_def])
qed

subsection \<open>The writes\<close>

definition entity_bound :: "store \<Rightarrow> string \<Rightarrow> dbt_imported_entity \<Rightarrow> bool" where
  "entity_bound db src i \<longleftrightarrow>
     (\<exists>s t. match_qualified (en_qualified_table (ie_entity i)) = Some (s, t) \<and> has_table db (s, t, src))"

definition from_dbt :: "dbt_imported_entity \<Rightarrow> bool" where
  "from_dbt i \<longleftrightarrow> entity_ok (ie_entity i) \<and> en_origin (ie_entity i) = Dbt_Import"

lemma write_dbt_entity:
  assumes "from_dbt i"
  shows "entity_bound db src i \<Longrightarrow> \<exists>db'. write_entity src now (ie_entity i) db = Inr db'"
    "\<not> entity_bound db src i \<Longrightarrow> write_entity src now (ie_entity i) db = Inl IntegrityError"
proof -
  obtain s t where m: "match_qualified (en_qualified_table (ie_entity i)) = Some (s, t)"
    using assms by (auto simp: from_dbt_def entity_ok_def)
  then have "split1 CHR ''.'' (en_qualified_table (ie_entity i)) = (s, Some t)"
    using split1_append [OF is_ident_no_dot, of s t] by (simp add: match_qualified_iff)
  then show "entity_bound db src i \<Longrightarrow> \<exists>db'. write_entity src now (ie_entity i) db = Inr db'"
    "\<not> entity_bound db src i \<Longrightarrow> write_entity src now (ie_entity i) db = Inl IntegrityError"
    using assms m by (auto simp: write_entity_def Let_def entity_bound_def from_dbt_def split: option.splits)
qed

definition run_entities :: "string \<Rightarrow> (nat \<Rightarrow> int) \<Rightarrow> nat \<Rightarrow> dbt_imported_entity list \<Rightarrow> import_run \<Rightarrow> import_run" where
  "run_entities src clock k is run = foldl (\<lambda>run (n, i). write_one src (clock n) i run) run (enumerate k is)"

definition run_joins :: "string \<Rightarrow> (nat \<Rightarrow> int) \<Rightarrow> nat \<Rightarrow> canonical_join list \<Rightarrow> import_run \<Rightarrow> import_run" where
  "run_joins src clock k js run = foldl (\<lambda>run (n, j). write_one_join src (clock n) j run) run (enumerate k js)"

lemma run_steps:
  "run_entities src clock k [] run = run"
  "run_entities src clock k (i # is) run = run_entities src clock (Suc k) is (write_one src (clock k) i run)"
  "run_joins src clock k [] run = run"
  "run_joins src clock k (j # js) run = run_joins src clock (Suc k) js (write_one_join src (clock k) j run)"
  by (simp_all add: run_entities_def run_joins_def)

lemma write_entity_tables: "write_entity src now e db = Inr db' \<Longrightarrow> has_table db' = has_table db"
  by (elim write_entity_Inr) (simp add: has_table_def fun_eq_iff)

definition healthy :: "(string \<Rightarrow> string + py_expr) \<Rightarrow> import_run \<Rightarrow> bool" where
  "healthy ast_parse run \<longleftrightarrow> ir_crash run = None \<and> store_ok ast_parse (ir_store run)"

definition owned_in :: "store \<Rightarrow> string \<Rightarrow> string \<Rightarrow> bool" where
  "owned_in db src n \<longleftrightarrow> (\<exists>e. get_entity db src n = Inr (Some e) \<and> en_origin e = Dbt_Import)"

lemma write_one_effect:
  assumes "healthy ast_parse run" "from_dbt i"
  shows "healthy ast_parse (write_one src now i run)"
    "entity_bound (ir_store (write_one src now i run)) = entity_bound (ir_store run)"
    "ir_write_failures (write_one src now i run) = ir_write_failures run @
       (if entity_bound (ir_store run) src i then [] else [(imported_name i, IntegrityError)])"
    "entity_bound (ir_store run) src i \<Longrightarrow> owned_in (ir_store (write_one src now i run)) src (imported_name i)"
    "\<not> entity_bound (ir_store run) src i \<or> n \<noteq> imported_name i \<Longrightarrow>
       get_entity (ir_store (write_one src now i run)) src n = get_entity (ir_store run) src n"
    "entity_bound (ir_store run) src i \<Longrightarrow> get_entity (ir_store (write_one src now i run)) src (imported_name i) = Inr (Some (ie_entity i))"
proof -
  note h = assms(1) [unfolded healthy_def] and d = assms(2) [unfolded from_dbt_def]
  have "healthy ast_parse (write_one src now i run) \<and> entity_bound (ir_store (write_one src now i run)) = entity_bound (ir_store run) \<and>
    ir_write_failures (write_one src now i run) = ir_write_failures run @
       (if entity_bound (ir_store run) src i then [] else [(imported_name i, IntegrityError)]) \<and>
    (entity_bound (ir_store run) src i \<longrightarrow> owned_in (ir_store (write_one src now i run)) src (imported_name i)) \<and>
    (entity_bound (ir_store run) src i \<longrightarrow> get_entity (ir_store (write_one src now i run)) src (imported_name i) = Inr (Some (ie_entity i))) \<and>
    (\<not> entity_bound (ir_store run) src i \<or> n \<noteq> imported_name i \<longrightarrow>
       get_entity (ir_store (write_one src now i run)) src n = get_entity (ir_store run) src n)"
  proof (cases "entity_bound (ir_store run) src i")
    case True
    then obtain db' where w: "write_entity src now (ie_entity i) (ir_store run) = Inr db'" using write_dbt_entity(1) [OF assms(2)] by blast
    have ok: "store_ok ast_parse db'" using write_entity_ok [OF _ _ w] h d by blast
    have r: "write_one src now i run = run\<lparr>ir_store := db'\<rparr>" using w h by (simp add: write_one_def)
    have "get_entity db' src (imported_name i) = Inr (Some (ie_entity i))"
      using written_entity_reads [OF _ w] d by (simp add: imported_name_def)
    moreover have "owned_in db' src (imported_name i)" using calculation d by (simp add: owned_in_def)
    ultimately show ?thesis using True ok h written_entity_others [OF w] write_entity_tables [OF w]
      by (simp add: r healthy_def imported_name_def) (simp add: entity_bound_def fun_eq_iff)
  next
    case False
    then have "write_one src now i run = run\<lparr>ir_write_failures := ir_write_failures run @ [(imported_name i, IntegrityError)]\<rparr>"
      using h write_dbt_entity(2) [OF assms(2) False] by (simp add: write_one_def)
    then show ?thesis using False h by (simp add: healthy_def)
  qed
  then show "healthy ast_parse (write_one src now i run)"
    "entity_bound (ir_store (write_one src now i run)) = entity_bound (ir_store run)"
    "ir_write_failures (write_one src now i run) = ir_write_failures run @
       (if entity_bound (ir_store run) src i then [] else [(imported_name i, IntegrityError)])"
    "entity_bound (ir_store run) src i \<Longrightarrow> owned_in (ir_store (write_one src now i run)) src (imported_name i)"
    "\<not> entity_bound (ir_store run) src i \<or> n \<noteq> imported_name i \<Longrightarrow>
       get_entity (ir_store (write_one src now i run)) src n = get_entity (ir_store run) src n"
    "entity_bound (ir_store run) src i \<Longrightarrow> get_entity (ir_store (write_one src now i run)) src (imported_name i) = Inr (Some (ie_entity i))"
    by blast+
qed

lemma run_entities_effect:
  assumes "healthy ast_parse run" "list_all from_dbt is"
  shows "healthy ast_parse (run_entities src clock k is run) \<and>
    ir_write_failures (run_entities src clock k is run) = ir_write_failures run @
      map (\<lambda>i. (imported_name i, IntegrityError)) (filter (\<lambda>i. \<not> entity_bound (ir_store run) src i) is) \<and>
    (\<forall>i \<in> set is. entity_bound (ir_store run) src i \<longrightarrow> owned_in (ir_store (run_entities src clock k is run)) src (imported_name i)) \<and>
    (\<forall>n. (\<forall>i \<in> set is. entity_bound (ir_store run) src i \<longrightarrow> imported_name i \<noteq> n) \<longrightarrow>
       get_entity (ir_store (run_entities src clock k is run)) src n = get_entity (ir_store run) src n) \<and>
    (\<forall>n. owned_in (ir_store run) src n \<longrightarrow> owned_in (ir_store (run_entities src clock k is run)) src n) \<and>
    (\<forall>before i later. is = before @ i # later \<and> entity_bound (ir_store run) src i \<and>
       (\<forall>x \<in> set later. entity_bound (ir_store run) src x \<longrightarrow> imported_name x \<noteq> imported_name i) \<longrightarrow>
       get_entity (ir_store (run_entities src clock k is run)) src (imported_name i) = Inr (Some (ie_entity i)))"
  using assms
proof (induction "is" arbitrary: run k)
  case (Cons i "is")
  let ?r = "write_one src (clock k) i run"
  have d: "from_dbt i" using Cons.prems(2) by simp
  note e = write_one_effect [OF Cons.prems(1) d, where src = src and now = "clock k"]
  have keep: "owned_in (ir_store ?r) src n" if "owned_in (ir_store run) src n" for n
    using that e(4) e(5) [where n = n] by (cases "entity_bound (ir_store run) src i \<and> n = imported_name i") (auto simp: owned_in_def)
  have "list_all from_dbt is" using Cons.prems(2) by simp
  note ih = Cons.IH [OF e(1) this, of "Suc k", unfolded e(2)]
  show ?case unfolding run_steps
  proof (intro conjI)
    show "healthy ast_parse (run_entities src clock (Suc k) is ?r)" using ih by blast
    show "ir_write_failures (run_entities src clock (Suc k) is ?r) = ir_write_failures run @
      map (\<lambda>i. (imported_name i, IntegrityError)) (filter (\<lambda>i. \<not> entity_bound (ir_store run) src i) (i # is))"
      using ih e(3) by simp
    show "\<forall>x \<in> set (i # is). entity_bound (ir_store run) src x \<longrightarrow> owned_in (ir_store (run_entities src clock (Suc k) is ?r)) src (imported_name x)"
      using ih e(4) by simp
    show "\<forall>n. (\<forall>x \<in> set (i # is). entity_bound (ir_store run) src x \<longrightarrow> imported_name x \<noteq> n) \<longrightarrow>
       get_entity (ir_store (run_entities src clock (Suc k) is ?r)) src n = get_entity (ir_store run) src n"
      using ih e(5) by auto
    show "\<forall>n. owned_in (ir_store run) src n \<longrightarrow> owned_in (ir_store (run_entities src clock (Suc k) is ?r)) src n"
      using ih keep by blast
    show "\<forall>before x later. i # is = before @ x # later \<and> entity_bound (ir_store run) src x \<and>
       (\<forall>y \<in> set later. entity_bound (ir_store run) src y \<longrightarrow> imported_name y \<noteq> imported_name x) \<longrightarrow>
       get_entity (ir_store (run_entities src clock (Suc k) is ?r)) src (imported_name x) = Inr (Some (ie_entity x))"
    proof (intro allI impI)
      fix before x later
      assume a: "i # is = before @ x # later \<and> entity_bound (ir_store run) src x \<and>
        (\<forall>y \<in> set later. entity_bound (ir_store run) src y \<longrightarrow> imported_name y \<noteq> imported_name x)"
      show "get_entity (ir_store (run_entities src clock (Suc k) is ?r)) src (imported_name x) = Inr (Some (ie_entity x))"
      proof (cases before)
        case Nil
        then show ?thesis using a ih e(6) by simp
      next
        case (Cons y rest)
        then have "is = rest @ x # later" using a by simp
        then show ?thesis using a ih by blast
      qed
    qed
  qed
qed (simp add: run_steps)

definition ends_exist :: "store \<Rightarrow> string \<Rightarrow> canonical_join \<Rightarrow> bool" where
  "ends_exist db src j \<longleftrightarrow> has_entity db (src, cj_source_entity j) \<and> has_entity db (src, cj_target_entity j)"

lemma write_one_join_effect:
  assumes "healthy ast_parse run" "join_ok j"
  shows "healthy ast_parse (write_one_join src now j run)"
    "st_entities (ir_store (write_one_join src now j run)) = st_entities (ir_store run)"
    "ir_write_failures (write_one_join src now j run) = ir_write_failures run @
       (if ends_exist (ir_store run) src j then [] else [(cj_name j, IntegrityError)])"
    "ends_exist (ir_store run) src j \<Longrightarrow> get_canonical_join (ir_store (write_one_join src now j run)) src (cj_name j) = Inr (Some j)"
    "n \<noteq> cj_name j \<Longrightarrow> get_canonical_join (ir_store (write_one_join src now j run)) src n = get_canonical_join (ir_store run) src n"
proof -
  note h = assms(1) [unfolded healthy_def]
  have all: "healthy ast_parse (write_one_join src now j run) \<and>
    st_entities (ir_store (write_one_join src now j run)) = st_entities (ir_store run) \<and>
    ir_write_failures (write_one_join src now j run) = ir_write_failures run @
       (if ends_exist (ir_store run) src j then [] else [(cj_name j, IntegrityError)]) \<and>
    (ends_exist (ir_store run) src j \<longrightarrow> get_canonical_join (ir_store (write_one_join src now j run)) src (cj_name j) = Inr (Some j)) \<and>
    (n \<noteq> cj_name j \<longrightarrow> get_canonical_join (ir_store (write_one_join src now j run)) src n = get_canonical_join (ir_store run) src n)"
  proof (cases "ends_exist (ir_store run) src j")
    case True
    then obtain db' where w: "write_canonical_join src now j (ir_store run) = Inr db'"
      by (simp add: write_canonical_join_def ends_exist_def)
    have "store_ok ast_parse db'" using write_join_ok [OF _ assms(2) w] h by blast
    moreover have "write_one_join src now j run = run\<lparr>ir_store := db'\<rparr>" using w h by (simp add: write_one_join_def)
    ultimately show ?thesis using True h written_join_reads [OF assms(2) w] by (simp add: healthy_def)
  next
    case False
    then have "write_one_join src now j run = run\<lparr>ir_write_failures := ir_write_failures run @ [(cj_name j, IntegrityError)]\<rparr>"
      using h by (auto simp: write_one_join_def write_canonical_join_def ends_exist_def)
    then show ?thesis using False h by (simp add: healthy_def)
  qed
  show "healthy ast_parse (write_one_join src now j run)"
    "st_entities (ir_store (write_one_join src now j run)) = st_entities (ir_store run)"
    "ir_write_failures (write_one_join src now j run) = ir_write_failures run @
       (if ends_exist (ir_store run) src j then [] else [(cj_name j, IntegrityError)])"
    "ends_exist (ir_store run) src j \<Longrightarrow> get_canonical_join (ir_store (write_one_join src now j run)) src (cj_name j) = Inr (Some j)"
    "n \<noteq> cj_name j \<Longrightarrow> get_canonical_join (ir_store (write_one_join src now j run)) src n = get_canonical_join (ir_store run) src n"
    using all by blast+
qed

lemma ends_exist_cong: "st_entities db' = st_entities db \<Longrightarrow> ends_exist db' = ends_exist db"
  by (simp add: ends_exist_def has_entity_def fun_eq_iff)

lemma run_joins_effect:
  assumes "healthy ast_parse run" "list_all join_ok js"
  shows "healthy ast_parse (run_joins src clock k js run) \<and>
    st_entities (ir_store (run_joins src clock k js run)) = st_entities (ir_store run) \<and>
    ir_write_failures (run_joins src clock k js run) = ir_write_failures run @
      map (\<lambda>j. (cj_name j, IntegrityError)) (filter (\<lambda>j. \<not> ends_exist (ir_store run) src j) js) \<and>
    (\<forall>n. n \<notin> cj_name ` set js \<longrightarrow>
       get_canonical_join (ir_store (run_joins src clock k js run)) src n = get_canonical_join (ir_store run) src n) \<and>
    (\<forall>xs j ys. js = xs @ j # ys \<and> cj_name j \<notin> cj_name ` set ys \<and> ends_exist (ir_store run) src j \<longrightarrow>
       get_canonical_join (ir_store (run_joins src clock k js run)) src (cj_name j) = Inr (Some j))"
  using assms
proof (induction js arbitrary: run k)
  case (Cons j js)
  let ?r = "write_one_join src (clock k) j run"
  note e = write_one_join_effect [OF Cons.prems(1), where src = src and now = "clock k" and j = j]
  have j: "join_ok j" and js: "list_all join_ok js" using Cons.prems(2) by simp_all
  note ih = Cons.IH [OF e(1) [OF j] js, of "Suc k", unfolded ends_exist_cong [OF e(2) [OF j]]]
  show ?case unfolding run_steps
  proof (intro conjI)
    show "healthy ast_parse (run_joins src clock (Suc k) js ?r)" using ih by blast
    show "st_entities (ir_store (run_joins src clock (Suc k) js ?r)) = st_entities (ir_store run)" using ih e(2) [OF j] by simp
    show "ir_write_failures (run_joins src clock (Suc k) js ?r) = ir_write_failures run @
      map (\<lambda>j. (cj_name j, IntegrityError)) (filter (\<lambda>j. \<not> ends_exist (ir_store run) src j) (j # js))"
      using ih e(3) [OF j] by simp
    show "\<forall>n. n \<notin> cj_name ` set (j # js) \<longrightarrow>
       get_canonical_join (ir_store (run_joins src clock (Suc k) js ?r)) src n = get_canonical_join (ir_store run) src n"
      using ih e(5) [OF j] by simp
    show "\<forall>xs x ys. j # js = xs @ x # ys \<and> cj_name x \<notin> cj_name ` set ys \<and> ends_exist (ir_store run) src x \<longrightarrow>
       get_canonical_join (ir_store (run_joins src clock (Suc k) js ?r)) src (cj_name x) = Inr (Some x)"
    proof (intro allI impI)
      fix xs x ys
      assume a: "j # js = xs @ x # ys \<and> cj_name x \<notin> cj_name ` set ys \<and> ends_exist (ir_store run) src x"
      show "get_canonical_join (ir_store (run_joins src clock (Suc k) js ?r)) src (cj_name x) = Inr (Some x)"
      proof (cases xs)
        case Nil
        then show ?thesis using a ih e(4) [OF j] by simp
      next
        case (Cons y zs)
        then have "js = zs @ x # ys" using a by simp
        then show ?thesis using a ih by blast
      qed
    qed
  qed
qed (simp add: run_steps)

subsection \<open>Plans and what they leave\<close>

lemma importable_Some:
  assumes "importable manifest live_table m = Some i"
  shows "dbt_model_to_entity m manifest = Inr i" "verify_against_live_schema i m live_table = Inr ()"
    "from_dbt i" "imported_name i = dm_name m"
  using assms model_to_entity_Inr [of m manifest i]
  by (auto simp: importable_def from_dbt_def imported_name_def split: sum.splits)

lemma planned_set:
  assumes "store_ok ast_parse db" "plan_dbt_import manifest live_table src db = Inr p"
  shows "set (planned_entities p) = {i. \<exists>m \<in> set (mf_models manifest). importable manifest live_table m = Some i}"
proof -
  obtain es where es: "list_entities db (Some src) = Inr es" using assms(2) by (auto simp: plan_dbt_import_def result_simps)
  have f: "set (planned_entities p) = set (List.map_filter added (verdicts manifest live_table src db))
      \<union> set (List.map_filter updated (verdicts manifest live_table src db))
      \<union> fst ` set (List.map_filter taken (verdicts manifest live_table src db))"
    using assms(2) unfolding plan_fields [OF assms(1) es] by (auto simp: planned_entities_def)
  show ?thesis
  proof (intro equalityI subsetI)
    fix i assume "i \<in> set (planned_entities p)"
    then show "i \<in> {i. \<exists>m \<in> set (mf_models manifest). importable manifest live_table m = Some i}"
      unfolding f by (auto simp: set_map_filter verdicts_def judge_cases)
  next
    fix i assume "i \<in> {i. \<exists>m \<in> set (mf_models manifest). importable manifest live_table m = Some i}"
    then obtain m where m: "m \<in> set (mf_models manifest)" "importable manifest live_table m = Some i" by blast
    let ?v = "judge_model manifest live_table (existing_entity db src) m"
    have v: "?v \<in> set (verdicts manifest live_table src db)" using m(1) by (simp add: verdicts_def)
    consider "added ?v = Some i" | "updated ?v = Some i" | org where "taken ?v = Some (i, org)"
      using m(2) judge_cases(1-3) [of manifest live_table "existing_entity db src" m]
      by (cases "existing_entity db src (imported_name i)") auto
    then show "i \<in> set (planned_entities p)"
    proof cases
      case 1
      then show ?thesis unfolding f using v by (auto simp: set_map_filter)
    next
      case 2
      then show ?thesis unfolding f using v by (auto simp: set_map_filter)
    next
      case (3 org)
      then have "(i, org) \<in> set (List.map_filter taken (verdicts manifest live_table src db))" using v by (auto simp: set_map_filter)
      then show ?thesis unfolding f by force
    qed
  qed
qed

lemma planned_from_dbt:
  assumes "store_ok ast_parse db" "plan_dbt_import manifest live_table src db = Inr p"
  shows "list_all from_dbt (planned_entities p)"
  using planned_set [OF assms] importable_Some(3) by (auto simp: list_all_iff)

lemma planned_joins:
  assumes "store_ok ast_parse db" "plan_dbt_import manifest live_table src db = Inr p"
  shows "list_all join_ok (pn_joins_to_write p)" "list_all (writable_join manifest live_table src db) (pn_joins_to_write p)"
proof -
  obtain es where es: "list_entities db (Some src) = Inr es" using assms(2) by (auto simp: plan_dbt_import_def result_simps)
  show "list_all join_ok (pn_joins_to_write p)" "list_all (writable_join manifest live_table src db) (pn_joins_to_write p)"
    using assms(2) candidate_joins unfolding plan_fields [OF assms(1) es] by (auto simp: list_all_iff)
qed

lemma get_entity_has: "store_ok ast_parse db \<Longrightarrow> (\<exists>e. get_entity db src n = Inr (Some e)) \<longleftrightarrow> has_entity db (src, n)"
  using store_entity [of ast_parse db src n] find_row_None [of entity_key "(src, n)" "st_entities db"]
  by (auto simp: get_entity_def has_entity_def split: option.splits)

lemma apply_plan_runs:
  "apply_dbt_import_plan p src clock db =
     run_joins src clock (length (planned_entities p)) (pn_joins_to_write p)
       (run_entities src clock 0 (planned_entities p) \<lparr>ir_store = db, ir_write_failures = [], ir_crash = None\<rparr>)"
  by (simp add: apply_dbt_import_plan_def run_entities_def run_joins_def Let_def)

lemma import_effect:
  fixes clock
  assumes db: "store_ok ast_parse db" and p: "plan_dbt_import manifest live_table src db = Inr p"
  defines "run \<equiv> apply_dbt_import_plan p src clock db"
  shows "healthy ast_parse run"
    "ir_write_failures run = [] \<longleftrightarrow> (\<forall>i \<in> set (planned_entities p). entity_bound db src i)"
    "\<forall>i \<in> set (planned_entities p). entity_bound db src i \<longrightarrow> owned_in (ir_store run) src (imported_name i)"
    "\<forall>n. (\<forall>i \<in> set (planned_entities p). entity_bound db src i \<longrightarrow> imported_name i \<noteq> n) \<longrightarrow>
       get_entity (ir_store run) src n = get_entity db src n"
    "ir_write_failures run = [] \<Longrightarrow> pn_joins_to_write p = xs @ j # ys \<Longrightarrow> cj_name j \<notin> cj_name ` set ys \<Longrightarrow>
       get_canonical_join (ir_store run) src (cj_name j) = Inr (Some j)"
    "ir_write_failures run =
       map (\<lambda>i. (imported_name i, IntegrityError)) (filter (\<lambda>i. \<not> entity_bound db src i) (planned_entities p)) @
       map (\<lambda>j. (cj_name j, IntegrityError)) (filter (\<lambda>j. \<not> ends_exist (ir_store run) src j) (pn_joins_to_write p))"
    "planned_entities p = before @ i # later \<Longrightarrow> entity_bound db src i \<Longrightarrow>
       \<forall>x \<in> set later. entity_bound db src x \<longrightarrow> imported_name x \<noteq> imported_name i \<Longrightarrow>
       get_entity (ir_store run) src (imported_name i) = Inr (Some (ie_entity i))"
proof -
  let ?run0 = "\<lparr>ir_store = db, ir_write_failures = [], ir_crash = None\<rparr>"
  let ?run1 = "run_entities src clock 0 (planned_entities p) ?run0"
  have h0: "healthy ast_parse ?run0" using db by (simp add: healthy_def)
  note e = run_entities_effect [OF h0 planned_from_dbt [OF db p], of src clock 0, simplified]
  have h1: "healthy ast_parse ?run1" using e by blast
  note r = run_joins_effect [OF h1 planned_joins(1) [OF db p], of src clock "length (planned_entities p)",
      folded apply_plan_runs, folded run_def]
  have same: "get_entity (ir_store run) src n = get_entity (ir_store ?run1) src n" for n
    using r by (simp add: get_entity_def)
  show "healthy ast_parse run" using r by blast
  show "\<forall>i \<in> set (planned_entities p). entity_bound db src i \<longrightarrow> owned_in (ir_store run) src (imported_name i)"
    using e same by (simp add: owned_in_def)
  show "\<forall>n. (\<forall>i \<in> set (planned_entities p). entity_bound db src i \<longrightarrow> imported_name i \<noteq> n) \<longrightarrow>
       get_entity (ir_store run) src n = get_entity db src n"
    using e same by simp
  have has: "has_entity (ir_store run) = has_entity (ir_store ?run1)" using r by (simp add: has_entity_def fun_eq_iff)
  show "ir_write_failures run =
       map (\<lambda>i. (imported_name i, IntegrityError)) (filter (\<lambda>i. \<not> entity_bound db src i) (planned_entities p)) @
       map (\<lambda>j. (cj_name j, IntegrityError)) (filter (\<lambda>j. \<not> ends_exist (ir_store run) src j) (pn_joins_to_write p))"
    using e r by (simp add: ends_exist_def has)
  show "get_entity (ir_store run) src (imported_name i) = Inr (Some (ie_entity i))"
    if "planned_entities p = before @ i # later" "entity_bound db src i"
      "\<forall>x \<in> set later. entity_bound db src x \<longrightarrow> imported_name x \<noteq> imported_name i"
    using e same that by simp
  have ends: "list_all (ends_exist (ir_store ?run1) src) (pn_joins_to_write p)"
    if all: "\<forall>i \<in> set (planned_entities p). entity_bound db src i"
  proof -
    have "has_entity (ir_store ?run1) (src, n)" if n: "will_exist manifest live_table src db n" for n
    proof -
      have "\<exists>x. get_entity (ir_store ?run1) src n = Inr (Some x)"
      proof (cases "\<exists>i \<in> set (planned_entities p). imported_name i = n")
        case True
        then show ?thesis using e all by (auto simp: owned_in_def)
      next
        case False
        then have "\<exists>x. get_entity db src n = Inr (Some x)" using n planned_set [OF db p] by (auto simp: will_exist_def)
        then show ?thesis using e False by auto
      qed
      then show ?thesis using get_entity_has [of ast_parse "ir_store ?run1" src n] h1 by (simp add: healthy_def)
    qed
    then show ?thesis using planned_joins(2) [OF db p] by (auto simp: list_all_iff writable_join_def ends_exist_def)
  qed
  show none: "ir_write_failures run = [] \<longleftrightarrow> (\<forall>i \<in> set (planned_entities p). entity_bound db src i)"
  proof
    assume "ir_write_failures run = []"
    then show "\<forall>i \<in> set (planned_entities p). entity_bound db src i" using r e by (auto simp: filter_empty_conv)
  next
    assume all: "\<forall>i \<in> set (planned_entities p). entity_bound db src i"
    then show "ir_write_failures run = []" using r e ends [OF all] by (auto simp: filter_empty_conv list_all_iff)
  qed
  assume f: "ir_write_failures run = []" "pn_joins_to_write p = xs @ j # ys" "cj_name j \<notin> cj_name ` set ys"
  then have "ends_exist (ir_store ?run1) src j" using ends none by (simp add: list_all_iff)
  then show "get_canonical_join (ir_store run) src (cj_name j) = Inr (Some j)" using r f by blast
qed

subsection \<open>What a model asks for\<close>

text \<open>Stated apart from the code's checks. The first rule that some column satisfies decides the identity, and only one column may satisfy it.\<close>

definition identity_rules :: "(identity_method \<times> (dbt_column \<Rightarrow> bool)) list" where
  "identity_rules =
     [(Primary_Key_Constraint, \<lambda>c. \<exists>k \<in> set (dk_constraints c). dc_type k = ''primary_key''),
      (Unique_Not_Null_Constraints, \<lambda>c. (\<exists>k \<in> set (dk_constraints c). dc_type k = ''unique'') \<and> (\<exists>k \<in> set (dk_constraints c). dc_type k = ''not_null'')),
      (Unique_Not_Null_Tests, \<lambda>c. dt_is_unique (dk_tests c) \<and> dt_is_not_null (dk_tests c))]"

definition identified :: "dbt_model \<Rightarrow> identity_method \<Rightarrow> string \<Rightarrow> bool" where
  "identified m how n \<longleftrightarrow> (\<exists>stronger rule weaker. identity_rules = stronger @ (how, rule) # weaker \<and>
     (\<forall>(other, holds) \<in> set stronger. \<forall>c \<in> set (dm_columns m). \<not> holds c) \<and>
     (\<exists>c. filter rule (dm_columns m) = [c] \<and> dk_name c = n))"

definition entity_asked :: "dbt_manifest \<Rightarrow> dbt_model \<Rightarrow> identity_method \<Rightarrow> string \<Rightarrow> dbt_imported_entity" where
  "entity_asked manifest m how n =
     \<lparr>ie_entity =
        \<lparr>en_name = dm_name m, en_description = dm_description m,
         en_binding = \<lparr>bd_qualified_table = dm_schema_name m @ ''.'' @ dm_identifier m\<rparr>,
         en_identity = n, en_origin = Dbt_Import, en_inference_method = Manually_Authored,
         en_validation_state = Applied, en_group = Other_Group, en_bind_confidence = None, en_rationale = []\<rparr>,
      ie_dbt_unique_id = dm_unique_id m, ie_identity_resolution_method = how,
      ie_upstream_sources = map (\<lambda>s. ds_schema_name s @ ''.'' @ ds_identifier s)
        (List.map_filter (mf_sources_by_id manifest) (dm_depends_on_sources m))\<rparr>"

text \<open>The live table has the columns the model declares, and the identity (the last column of that name) is not nullable.\<close>

definition matches_live :: "live_source \<Rightarrow> dbt_model \<Rightarrow> string \<Rightarrow> bool" where
  "matches_live live_table m n \<longleftrightarrow>
     (\<exists>live. live_table (dm_identifier m) (dm_schema_name m) = Some live \<and>
        dk_name ` set (dm_columns m) \<subseteq> co_name ` set (tb_columns live) \<and>
        (\<exists>xs c ys. tb_columns live = xs @ c # ys \<and> co_name c = n \<and> n \<notin> co_name ` set ys \<and> \<not> co_nullable c))"

definition asks_for :: "dbt_manifest \<Rightarrow> live_source \<Rightarrow> dbt_model \<Rightarrow> dbt_imported_entity \<Rightarrow> bool" where
  "asks_for manifest live_table m i \<longleftrightarrow> (\<exists>how n. identified m how n \<and> i = entity_asked manifest m how n \<and>
     entity_ok (ie_entity i) \<and> matches_live live_table m n)"

text \<open>The verdicts that are right for a model.\<close>

definition judged_rightly :: "dbt_manifest \<Rightarrow> live_source \<Rightarrow> string \<Rightarrow> store \<Rightarrow> dbt_model \<Rightarrow> model_verdict \<Rightarrow> bool" where
  "judged_rightly manifest live_table src db m v \<longleftrightarrow>
     (case v of
        Skip_Model k \<Rightarrow> ks_dbt_unique_id k = dm_unique_id m \<and>
          (case ks_reason k of
             Identity_Resolution \<Rightarrow> \<not> (\<exists>how n. identified m how n)
           | Mapping_Skip \<Rightarrow> \<exists>how n. identified m how n \<and> \<not> entity_ok (ie_entity (entity_asked manifest m how n))
           | Schema_Drift_Skip \<Rightarrow> \<exists>how n. identified m how n \<and> entity_ok (ie_entity (entity_asked manifest m how n)) \<and>
               \<not> matches_live live_table m n)
      | Add_Entity i \<Rightarrow> asks_for manifest live_table m i \<and> get_entity db src (dm_name m) = Inr None
      | Update_Entity i \<Rightarrow> asks_for manifest live_table m i \<and>
          (\<exists>e. get_entity db src (dm_name m) = Inr (Some e) \<and> en_origin e = Dbt_Import)
      | Take_Entity i org \<Rightarrow> asks_for manifest live_table m i \<and>
          (\<exists>e. get_entity db src (dm_name m) = Inr (Some e) \<and> en_origin e = org \<and> org \<noteq> Dbt_Import))"

lemma identity_rules_split:
  "identity_rules = stronger @ (how, rule) # weaker \<longleftrightarrow>
     (stronger = [] \<and> (how, rule) = identity_rules ! 0 \<and> weaker = drop 1 identity_rules) \<or>
     (stronger = take 1 identity_rules \<and> (how, rule) = identity_rules ! 1 \<and> weaker = drop 2 identity_rules) \<or>
     (stronger = take 2 identity_rules \<and> (how, rule) = identity_rules ! 2 \<and> weaker = [])"
  by (auto simp: identity_rules_def Cons_eq_append_conv eval_nat_numeral)

lemma rule_columns:
  "filter (snd (identity_rules ! 0)) (dm_columns m) = columns_with_constraint m ''primary_key''"
  "filter (snd (identity_rules ! 1)) (dm_columns m) = columns_with_constraint_pair m ''unique'' ''not_null''"
  "filter (snd (identity_rules ! 2)) (dm_columns m) = columns_with_unique_not_null_tests m"
  by (simp_all add: identity_rules_def columns_with_constraint_def columns_with_constraint_pair_def
      columns_with_unique_not_null_tests_def list_ex_iff)

lemma identified_iff:
  "identified m how n \<longleftrightarrow>
     (how = Primary_Key_Constraint \<and> (\<exists>c. columns_with_constraint m ''primary_key'' = [c] \<and> dk_name c = n)) \<or>
     (how = Unique_Not_Null_Constraints \<and> columns_with_constraint m ''primary_key'' = [] \<and>
        (\<exists>c. columns_with_constraint_pair m ''unique'' ''not_null'' = [c] \<and> dk_name c = n)) \<or>
     (how = Unique_Not_Null_Tests \<and> columns_with_constraint m ''primary_key'' = [] \<and>
        columns_with_constraint_pair m ''unique'' ''not_null'' = [] \<and>
        (\<exists>c. columns_with_unique_not_null_tests m = [c] \<and> dk_name c = n))"
proof -
  have t: "take 1 identity_rules = [identity_rules ! 0]" "take 2 identity_rules = [identity_rules ! 0, identity_rules ! 1]"
    and h: "fst (identity_rules ! 0) = Primary_Key_Constraint" "fst (identity_rules ! 1) = Unique_Not_Null_Constraints"
      "fst (identity_rules ! 2) = Unique_Not_Null_Tests"
    by (simp_all add: identity_rules_def)
  have e: "(\<forall>c \<in> set (dm_columns m). \<not> snd r c) \<longleftrightarrow> filter (snd r) (dm_columns m) = []" for r :: "identity_method \<times> (dbt_column \<Rightarrow> bool)"
    by (simp add: filter_empty_conv)
  have p: "(how, rule) = r \<longleftrightarrow> how = fst r \<and> rule = snd r" for rule and r :: "identity_method \<times> (dbt_column \<Rightarrow> bool)"
    by (auto simp: prod_eq_iff)
  show ?thesis
    unfolding identified_def identity_rules_split p h t
    by (simp add: case_prod_beta e rule_columns rule_columns(2) [simplified] ex_disj_distrib conj_disj_distribR)
qed

lemma resolved_identity:
  "resolve_dbt_identity m = Inr r \<longleftrightarrow> identified m (di_method r) (di_column_name r)"
  "identified m how n \<Longrightarrow> resolve_dbt_identity m = Inr \<lparr>di_column_name = n, di_method = how\<rparr>"
  by (cases r) (auto simp: identified_iff resolve_dbt_identity_def split: list.splits)

lemma upstream_sources:
  "resolve_upstream_sources m manifest = map (\<lambda>s. ds_schema_name s @ ''.'' @ ds_identifier s)
     (List.map_filter (mf_sources_by_id manifest) (dm_depends_on_sources m))"
proof -
  have "List.map_filter (\<lambda>i. map_option f (g i)) xs = map f (List.map_filter g xs)" for f :: "dbt_source \<Rightarrow> string" and g and xs :: "string list"
    by (induction xs) (auto simp: List.map_filter_simps split: option.split)
  then show ?thesis by (simp add: resolve_upstream_sources_def)
qed

lemma mapped_entity:
  assumes "identified m how n"
  shows "entity_ok (ie_entity (entity_asked manifest m how n)) \<Longrightarrow> dbt_model_to_entity m manifest = Inr (entity_asked manifest m how n)"
    "\<not> entity_ok (ie_entity (entity_asked manifest m how n)) \<Longrightarrow> \<exists>e. dbt_model_to_entity m manifest = Inl (Mapping_Failed (dm_unique_id m) e)"
  using resolved_identity(2) [OF assms]
  by (auto simp: dbt_model_to_entity_def make_binding_def check_entity_def entity_ok_def entity_asked_def en_qualified_table_def
      upstream_sources)

lemma unmapped_entity:
  assumes "\<not> (\<exists>how n. identified m how n)"
  obtains e where "dbt_model_to_entity m manifest = Inl e" "\<And>i x. e \<noteq> Mapping_Failed i x"
proof -
  obtain e where e: "resolve_dbt_identity m = Inl e" using assms resolved_identity(1) [of m] by (cases "resolve_dbt_identity m") auto
  then have "\<And>i x. e \<noteq> Mapping_Failed i x" by (auto simp: resolve_dbt_identity_def split: list.splits)
  moreover have "dbt_model_to_entity m manifest = Inl e" by (simp add: dbt_model_to_entity_def e)
  ultimately show ?thesis using that by blast
qed

lemma last_of_name:
  "map_of (rev (map (\<lambda>c. (co_name c, c)) cs)) n = Some c \<longleftrightarrow> (\<exists>xs ys. cs = xs @ c # ys \<and> co_name c = n \<and> n \<notin> co_name ` set ys)"
proof (induction cs rule: rev_induct)
  case (snoc d cs)
  have "(\<exists>xs ys. cs @ [d] = xs @ c # ys \<and> co_name c = n \<and> n \<notin> co_name ` set ys) \<longleftrightarrow>
      c = d \<and> co_name d = n \<or> co_name d \<noteq> n \<and> (\<exists>xs ys. cs = xs @ c # ys \<and> co_name c = n \<and> n \<notin> co_name ` set ys)" (is "?l \<longleftrightarrow> ?r")
  proof
    assume ?l
    then obtain xs ys where a: "cs @ [d] = xs @ c # ys" "co_name c = n" "n \<notin> co_name ` set ys" by blast
    show ?r
    proof (cases ys rule: rev_cases)
      case Nil
      then show ?thesis using a by simp
    next
      case (snoc zs z)
      then have "cs = xs @ c # zs" "z = d" using a(1) by simp_all
      then show ?thesis using a snoc by auto
    qed
  next
    assume ?r
    then show ?l
    proof
      assume "c = d \<and> co_name d = n"
      then show ?l by (intro exI [of _ cs] exI [of _ "[]"]) simp
    next
      assume "co_name d \<noteq> n \<and> (\<exists>xs ys. cs = xs @ c # ys \<and> co_name c = n \<and> n \<notin> co_name ` set ys)"
      then obtain xs ys where "co_name d \<noteq> n" "cs = xs @ c # ys" "co_name c = n" "n \<notin> co_name ` set ys" by blast
      then show ?l by (intro exI [of _ xs] exI [of _ "ys @ [d]"]) auto
    qed
  qed
  then show ?case using snoc.IH by auto
qed simp

lemma verified_live:
  "verify_against_live_schema i m live_table = Inr () \<longleftrightarrow> matches_live live_table m (en_identity (ie_entity i))"
proof (cases "live_table (dm_identifier m) (dm_schema_name m)")
  case None
  then show ?thesis by (simp add: verify_against_live_schema_def matches_live_def)
next
  case (Some live)
  let ?by = "map_of (rev (map (\<lambda>c. (co_name c, c)) (tb_columns live)))" and ?n = "en_identity (ie_entity i)"
  have "?by n = None \<longleftrightarrow> n \<notin> co_name ` set (tb_columns live)" for n by (simp add: map_of_eq_None_iff image_image)
  then have missing: "filter (\<lambda>n. ?by n = None) (map dk_name (dm_columns m)) = [] \<longleftrightarrow> dk_name ` set (dm_columns m) \<subseteq> co_name ` set (tb_columns live)"
    by (auto simp: filter_empty_conv)
  have "verify_against_live_schema i m live_table = Inr () \<longleftrightarrow>
      filter (\<lambda>n. ?by n = None) (map dk_name (dm_columns m)) = [] \<and> (\<exists>c. ?by ?n = Some c \<and> \<not> co_nullable c)"
    by (cases "?by ?n") (simp_all add: verify_against_live_schema_def Some Let_def)
  then show ?thesis unfolding missing last_of_name matches_live_def Some by blast
qed

lemma judged_right:
  assumes ex: "\<And>n. get_entity db src n = Inr (ex n)"
  shows "judged_rightly manifest live_table src db m (judge_model manifest live_table ex m)"
proof (cases "\<exists>how n. identified m how n")
  case False
  then obtain e where e: "dbt_model_to_entity m manifest = Inl e" "\<And>i x. e \<noteq> Mapping_Failed i x" by (rule unmapped_entity) blast
  have "judge_model manifest live_table ex m = Skip_Model \<lparr>ks_dbt_unique_id = dm_unique_id m, ks_reason = Identity_Resolution\<rparr>"
    unfolding judge_model_def e(1) using e(2) by (cases e) auto
  then show ?thesis using False by (simp add: judged_rightly_def)
next
  case True
  then obtain how n where id: "identified m how n" by blast
  let ?i = "entity_asked manifest m how n"
  have i: "en_identity (ie_entity ?i) = n" "en_name (ie_entity ?i) = dm_name m" by (simp_all add: entity_asked_def)
  show ?thesis
  proof (cases "entity_ok (ie_entity ?i)")
    case False
    then obtain e where e: "dbt_model_to_entity m manifest = Inl (Mapping_Failed (dm_unique_id m) e)" using mapped_entity(2) [OF id] by blast
    show ?thesis using id False by (auto simp: judge_model_def e judged_rightly_def)
  next
    case ok: True
    note mapped = mapped_entity(1) [OF id ok]
    show ?thesis
    proof (cases "verify_against_live_schema ?i m live_table")
      case (Inl e)
      then have "\<not> matches_live live_table m n" using verified_live [of ?i m live_table] by (simp add: i)
      then show ?thesis using id ok by (auto simp: judge_model_def mapped Inl judged_rightly_def)
    next
      case (Inr u)
      then have "asks_for manifest live_table m ?i" using verified_live [of ?i m live_table] id ok by (auto simp: i asks_for_def)
      then show ?thesis using ex [of "dm_name m"]
        by (auto simp: judge_model_def mapped Inr judged_rightly_def i split: option.split)
    qed
  qed
qed

lemma one_bucket:
  "length (List.map_filter added vs) + length (List.map_filter updated vs) + length (List.map_filter taken vs)
     + length (List.map_filter skipped vs) = length vs"
proof (induction vs)
  case (Cons v vs)
  then show ?case by (cases v) (simp_all add: List.map_filter_simps added_def updated_def taken_def skipped_def)
qed (simp add: List.map_filter_simps)

lemma verified_identity:
  assumes "verify_against_live_schema i m live_table = Inr ()"
  obtains live c where "live_table (dm_identifier m) (dm_schema_name m) = Some live" "c \<in> set (tb_columns live)"
    "co_name c = en_identity (ie_entity i)" "\<not> co_nullable c"
proof -
  obtain live where l: "live_table (dm_identifier m) (dm_schema_name m) = Some live"
    using assms by (auto simp: verify_against_live_schema_def split: option.splits)
  then obtain c where c: "map_of (rev (map (\<lambda>c. (co_name c, c)) (tb_columns live))) (en_identity (ie_entity i)) = Some c" "\<not> co_nullable c"
    using assms by (auto simp: verify_against_live_schema_def Let_def split: option.splits if_splits)
  have "c \<in> set (tb_columns live) \<and> co_name c = en_identity (ie_entity i)" using map_of_SomeD [OF c(1)] by auto
  then show ?thesis using l c(2) that by blast
qed

definition identity_verified :: "dbt_manifest \<Rightarrow> live_source \<Rightarrow> dbt_imported_entity \<Rightarrow> bool" where
  "identity_verified manifest live_table i \<longleftrightarrow>
     (\<exists>m \<in> set (mf_models manifest). \<exists>live. live_table (dm_identifier m) (dm_schema_name m) = Some live \<and>
        en_qualified_table (ie_entity i) = dm_schema_name m @ ''.'' @ dm_identifier m \<and>
        (\<exists>c \<in> set (tb_columns live). co_name c = en_identity (ie_entity i) \<and> \<not> co_nullable c))"

lemma importable_verified:
  assumes "m \<in> set (mf_models manifest)" "importable manifest live_table m = Some i"
  shows "identity_verified manifest live_table i"
proof -
  obtain live c where "live_table (dm_identifier m) (dm_schema_name m) = Some live" "c \<in> set (tb_columns live)"
    "co_name c = en_identity (ie_entity i)" "\<not> co_nullable c"
    by (rule verified_identity [OF importable_Some(2) [OF assms(2)]])
  then show ?thesis using assms(1) model_to_entity_Inr(4) [OF importable_Some(1) [OF assms(2)]]
    unfolding identity_verified_def by blast
qed

lemma map_filter_models: "(\<And>m. m \<in> set ms \<Longrightarrow> f (g m) = h m) \<Longrightarrow> List.map_filter f (map g ms) = List.map_filter h ms"
  by (induction ms) (auto simp: List.map_filter_simps split: option.split)

text \<open>C37: On a store with the integrity invariant the planner of a dbt import always answers and gives every model of the
  manifest the one verdict that is right for it; each of its four buckets holds exactly the verdicts of its kind, in order of name, or of id
  for the skipped. A model is skipped when no rule gives it an identity, when its entity would not be valid, or when the live
  table lacks it, one of its columns or an identity that is not nullable; otherwise the entity to be written is the one the model asks for, and it is added, updated
  or taken over as its name is new in the source, owned by dbt or somebody else's. What is to be written is a valid entity owned by dbt, and
  both ends of every join to be written are in the store already or are to be written.\<close>

theorem dbt_plan_sound:
  assumes db: "store_ok ast_parse db"
  shows "\<exists>p vs. plan_dbt_import manifest live_table src db = Inr p \<and>
    list_all2 (judged_rightly manifest live_table src db) (mf_models manifest) vs \<and>
    pn_to_add p = sort_key imported_name (List.map_filter added vs) \<and>
    pn_to_update p = sort_key imported_name (List.map_filter updated vs) \<and>
    pn_to_take_ownership p = sort_key (imported_name \<circ> fst) (List.map_filter taken vs) \<and>
    pn_skipped p = sort_key ks_dbt_unique_id (List.map_filter skipped vs) \<and>
    length (pn_to_add p) + length (pn_to_update p) + length (pn_to_take_ownership p) + length (pn_skipped p) = length (mf_models manifest) \<and>
    (\<forall>i \<in> set (planned_entities p). from_dbt i \<and> identity_verified manifest live_table i) \<and>
    (\<forall>j \<in> set (pn_joins_to_write p). \<forall>n \<in> {cj_source_entity j, cj_target_entity j}.
       has_entity db (src, n) \<or> n \<in> imported_name ` set (planned_entities p))"
proof -
  obtain es where es: "list_entities db (Some src) = Inr es"
    by (rule projected_entities [OF db, where src = src and tags = "\<lambda>k. None"])
  obtain p where p: "plan_dbt_import manifest live_table src db = Inr p" using plan_fields [OF db es] by blast
  let ?vs = "verdicts manifest live_table src db"
  have f: "pn_to_add p = sort_key imported_name (List.map_filter added ?vs)"
    "pn_to_update p = sort_key imported_name (List.map_filter updated ?vs)"
    "pn_to_take_ownership p = sort_key (imported_name \<circ> fst) (List.map_filter taken ?vs)"
    "pn_skipped p = sort_key ks_dbt_unique_id (List.map_filter skipped ?vs)"
    using p unfolding plan_fields [OF db es] by auto
  have answers: "\<exists>x. get_entity db src n = Inr x" for n
    using store_entity [OF db, of src n] find_row_None [of entity_key "(src, n)" "st_entities db"]
    by (cases "has_entity db (src, n)") (auto simp: get_entity_def has_entity_def)
  show ?thesis
  proof (intro exI [of _ p] exI [of _ ?vs] conjI)
    have right: "get_entity db src n = Inr (existing_entity db src n)" for n using answers [of n] by (auto simp: existing_entity_def)
    show "list_all2 (judged_rightly manifest live_table src db) (mf_models manifest) ?vs"
      unfolding verdicts_def by (simp add: list_all2_map2 list_all2_same judged_right [OF right])
    show "length (pn_to_add p) + length (pn_to_update p) + length (pn_to_take_ownership p) + length (pn_skipped p) = length (mf_models manifest)"
      using one_bucket [of ?vs] by (simp add: f verdicts_def)
    show "\<forall>i \<in> set (planned_entities p). from_dbt i \<and> identity_verified manifest live_table i"
      using planned_set [OF db p] importable_Some(3) importable_verified by auto
    have "has_entity db (src, n) \<or> n \<in> imported_name ` set (planned_entities p)" if "will_exist manifest live_table src db n" for n
      using that planned_set [OF db p] get_entity_has [OF db, of src n] by (force simp: will_exist_def)
    then show "\<forall>j \<in> set (pn_joins_to_write p). \<forall>n \<in> {cj_source_entity j, cj_target_entity j}.
       has_entity db (src, n) \<or> n \<in> imported_name ` set (planned_entities p)"
      using planned_joins(2) [OF db p] by (auto simp: list_all_iff writable_join_def)
  qed (rule p f)+
qed

text \<open>C38: Applying a plan on the store it was made for raises nothing and keeps the integrity invariant. The failures it reports are, in
  order and by name, the planned entities whose table is not indexed and then the planned joins that lack an end in the final store, each an integrity
  error, and nothing else; there is none exactly when every planned entity's table is indexed. A planned entity whose table is indexed ends up owned by dbt, as
  the last such entity of its name asks; a name with no such entity keeps what it had.\<close>

theorem dbt_apply_sound:
  assumes "store_ok ast_parse db" "plan_dbt_import manifest live_table src db = Inr p"
  shows "let run = apply_dbt_import_plan p src clock db in
    ir_crash run = None \<and> store_ok ast_parse (ir_store run) \<and>
    ir_write_failures run =
      map (\<lambda>i. (imported_name i, IntegrityError)) (filter (\<lambda>i. \<not> entity_bound db src i) (planned_entities p)) @
      map (\<lambda>j. (cj_name j, IntegrityError)) (filter (\<lambda>j. \<not> ends_exist (ir_store run) src j) (pn_joins_to_write p)) \<and>
    (ir_write_failures run = [] \<longleftrightarrow> (\<forall>i \<in> set (planned_entities p). entity_bound db src i)) \<and>
    (\<forall>i \<in> set (planned_entities p). entity_bound db src i \<longrightarrow> owned_in (ir_store run) src (imported_name i)) \<and>
    (\<forall>before i later. planned_entities p = before @ i # later \<and> entity_bound db src i \<and>
       (\<forall>x \<in> set later. entity_bound db src x \<longrightarrow> imported_name x \<noteq> imported_name i) \<longrightarrow>
       get_entity (ir_store run) src (imported_name i) = Inr (Some (ie_entity i))) \<and>
    (\<forall>n. (\<forall>i \<in> set (planned_entities p). entity_bound db src i \<longrightarrow> imported_name i \<noteq> n) \<longrightarrow>
       get_entity (ir_store run) src n = get_entity db src n)"
  using import_effect(1-4,6,7) [OF assms, where clock = clock] unfolding Let_def healthy_def by blast

subsection \<open>Planning again\<close>

lemma replan_updates:
  assumes "\<And>m i. m \<in> set (mf_models manifest) \<Longrightarrow> importable manifest live_table m = Some i \<Longrightarrow>
      \<exists>e. existing_entity db' src (imported_name i) = Some e \<and> en_origin e = Dbt_Import"
  shows "List.map_filter updated (verdicts manifest live_table src db') =
      List.map_filter (importable manifest live_table) (mf_models manifest)"
    "List.map_filter added (verdicts manifest live_table src db') = []"
    "List.map_filter taken (verdicts manifest live_table src db') = []"
proof -
  let ?judge = "judge_model manifest live_table (existing_entity db' src)"
  show "List.map_filter updated (verdicts manifest live_table src db') =
      List.map_filter (importable manifest live_table) (mf_models manifest)"
    unfolding verdicts_def
  proof (rule map_filter_models)
    show "updated (?judge m) = importable manifest live_table m" if m: "m \<in> set (mf_models manifest)" for m
    proof (cases "importable manifest live_table m")
      case None
      then show ?thesis using judge_cases(2) [of manifest live_table "existing_entity db' src" m] by (metis not_None_eq option.distinct(1))
    next
      case (Some i)
      then show ?thesis using judge_cases(2) [of manifest live_table "existing_entity db' src" m i] assms [OF m Some] by simp
    qed
  qed
  have "\<not> i \<in> set (List.map_filter added (verdicts manifest live_table src db'))" for i
    using assms by (fastforce simp: set_map_filter verdicts_def judge_cases)
  then show "List.map_filter added (verdicts manifest live_table src db') = []" by (metis list.set_intros(1) neq_Nil_conv)
  have "\<not> x \<in> set (List.map_filter taken (verdicts manifest live_table src db'))" for x
    using assms by (cases x) (fastforce simp: set_map_filter verdicts_def judge_cases)
  then show "List.map_filter taken (verdicts manifest live_table src db') = []" by (metis list.set_intros(1) neq_Nil_conv)
qed

lemma replan_skips:
  "List.map_filter skipped (verdicts manifest live_table src db') = List.map_filter skipped (verdicts manifest live_table src db)"
proof -
  have "List.map_filter skipped (map (judge_model manifest live_table f) ms) =
      List.map_filter (\<lambda>m. skipped (judge_model manifest live_table (\<lambda>n. None) m)) ms" for f ms
    by (rule map_filter_models) (rule skipped_cong)
  then show ?thesis unfolding verdicts_def by simp
qed

lemma orphaned_set:
  assumes d: "store_ok ast_parse d" "list_entities d (Some src) = Inr xs"
  shows "n \<in> set (orphaned manifest xs) \<longleftrightarrow>
    (\<exists>e. get_entity d src n = Inr (Some e) \<and> en_origin e = Dbt_Import) \<and> n \<notin> dm_name ` set (mf_models manifest)"
    (is "_ \<longleftrightarrow> ?owned \<and> ?gone")
proof
  assume "n \<in> set (orphaned manifest xs)"
  then show "?owned \<and> ?gone" using entity_listed(1) [OF d] by (auto simp: orphaned_def)
next
  assume "?owned \<and> ?gone"
  then obtain e where e: "get_entity d src n = Inr (Some e)" "en_origin e = Dbt_Import" ?gone by blast
  then show "n \<in> set (orphaned manifest xs)" using entity_listed(2) [OF d e(1)] by (auto simp: orphaned_def)
qed

lemma orphaned_same:
  assumes "store_ok ast_parse d" "list_entities d (Some src) = Inr xs" "store_ok ast_parse d'" "list_entities d' (Some src) = Inr ys"
    and same: "\<And>n. n \<notin> dm_name ` set (mf_models manifest) \<Longrightarrow> get_entity d' src n = get_entity d src n"
  shows "orphaned manifest ys = orphaned manifest xs"
proof (rule sorted_distinct_set_unique)
  show "sorted (orphaned manifest xs)" "sorted (orphaned manifest ys)" by (simp_all add: orphaned_def)
  show "distinct (orphaned manifest xs)" "distinct (orphaned manifest ys)"
    using listed_distinct [OF assms(1,2)] listed_distinct [OF assms(3,4)] by (simp_all add: orphaned_def distinct_map_filter)
  have "n \<in> set (orphaned manifest ys) \<longleftrightarrow> n \<in> set (orphaned manifest xs)" for n
    unfolding orphaned_set [OF assms(1,2)] orphaned_set [OF assms(3,4)]
    by (cases "n \<in> dm_name ` set (mf_models manifest)") (simp_all only: same not_True_eq_False not_False_eq_True simp_thms)
  then show "set (orphaned manifest ys) = set (orphaned manifest xs)" by (rule set_eqI)
qed

text \<open>C39: The import is idempotent: after an apply without failure, planning the same manifest again against the same live source
  finds nothing new and nothing to take over, updates every importable model, and agrees with the first plan in all the rest.\<close>

theorem dbt_reimport_only_updates:
  assumes db: "store_ok ast_parse db" and p: "plan_dbt_import manifest live_table src db = Inr p"
    and clean: "ir_write_failures (apply_dbt_import_plan p src clock db) = []"
  shows "plan_dbt_import manifest live_table src (ir_store (apply_dbt_import_plan p src clock db)) =
    Inr (p\<lparr>pn_to_add := [], pn_to_take_ownership := [],
           pn_to_update := sort_key imported_name (List.map_filter (importable manifest live_table) (mf_models manifest))\<rparr>)"
proof -
  let ?run = "apply_dbt_import_plan p src clock db"
  note e = import_effect [OF db p, where clock = clock]
  have ok: "store_ok ast_parse (ir_store ?run)" using e(1) by (simp add: healthy_def)
  obtain es where es: "list_entities db (Some src) = Inr es" by (rule projected_entities [OF db, where src = src and tags = "\<lambda>k. None"])
  obtain es' where es': "list_entities (ir_store ?run) (Some src) = Inr es'"
    by (rule projected_entities [OF ok, where src = src and tags = "\<lambda>k. None"])
  have own: "owned_in (ir_store ?run) src (imported_name i)" if "i \<in> set (planned_entities p)" for i using that clean e(2,3) by blast
  have rest: "get_entity (ir_store ?run) src n = get_entity db src n" if "n \<notin> imported_name ` set (planned_entities p)" for n
    by (rule mp [OF spec [OF e(4)]]) (use that in auto)
  have owned: "\<exists>e. existing_entity (ir_store ?run) src (imported_name i) = Some e \<and> en_origin e = Dbt_Import"
    if "m \<in> set (mf_models manifest)" "importable manifest live_table m = Some i" for m i
  proof -
    have "i \<in> set (planned_entities p)" using that planned_set [OF db p] by blast
    then show ?thesis using own [of i] by (auto simp: owned_in_def existing_entity_def)
  qed
  have will: "will_exist manifest live_table src (ir_store ?run) n = will_exist manifest live_table src db n" for n
    using planned_set [OF db p] rest [of n] by (cases "n \<in> imported_name ` set (planned_entities p)") (auto simp: will_exist_def)
  have wj: "writable_join manifest live_table src (ir_store ?run) = writable_join manifest live_table src db"
    by (simp add: fun_eq_iff writable_join_def will)
  have orphans: "orphaned manifest es' = orphaned manifest es"
  proof (rule orphaned_same [OF db es ok es'])
    show "get_entity (ir_store ?run) src n = get_entity db src n" if "n \<notin> dm_name ` set (mf_models manifest)" for n
      using that planned_set [OF db p] importable_Some(4) by (intro rest) fastforce
  qed
  have up: "List.map_filter updated (verdicts manifest live_table src (ir_store ?run)) =
      List.map_filter (importable manifest live_table) (mf_models manifest)" using owned by (rule replan_updates(1))
  have add: "List.map_filter added (verdicts manifest live_table src (ir_store ?run)) = []" using owned by (rule replan_updates(2))
  have take: "List.map_filter taken (verdicts manifest live_table src (ir_store ?run)) = []" using owned by (rule replan_updates(3))
  note replan = up add take replan_skips [of manifest live_table src "ir_store ?run" db]
  show ?thesis
    using p unfolding plan_fields [OF ok es'] plan_fields [OF db es] replan wj orphans by auto
qed

text \<open>C40: Joins are told apart by the name of their source model and column alone: of the planned joins of one name only the last is in
  the store after an apply without failure, in place of whatever join had that name before, and nothing is reported.\<close>

theorem dbt_join_last_wins:
  assumes "store_ok ast_parse db" "plan_dbt_import manifest live_table src db = Inr p"
    and "ir_write_failures (apply_dbt_import_plan p src clock db) = []"
    and "pn_joins_to_write p = xs @ j # ys" "cj_name j \<notin> cj_name ` set ys"
  shows "get_canonical_join (ir_store (apply_dbt_import_plan p src clock db)) src (cj_name j) = Inr (Some j)"
  by (rule import_effect(5) [OF assms])

subsection \<open>A small project\<close>

definition demo_model :: "string \<Rightarrow> dbt_model" where
  "demo_model n = \<lparr>dm_unique_id = ''model.shop.'' @ n, dm_name = n, dm_database = ''db'', dm_schema_name = ''public'',
     dm_identifier = ''orders'', dm_description = [],
     dm_columns = [\<lparr>dk_name = ''id'', dk_data_type = None, dk_description = [],
       dk_constraints = [\<lparr>dc_type = ''primary_key'', dc_name = None\<rparr>], dk_tests = \<lparr>dt_is_unique = False, dt_is_not_null = False\<rparr>\<rparr>],
     dm_depends_on_sources = []\<rparr>"

definition demo_relationship :: "string \<Rightarrow> dbt_relationship" where
  "demo_relationship target = \<lparr>rl_from_model_unique_id = ''model.shop.order'', rl_from_column = ''owner_id'',
     rl_to_model_name = target, rl_to_column = ''id''\<rparr>"

definition demo_manifest :: dbt_manifest where
  "demo_manifest = \<lparr>mf_manifest_version = 12, mf_dbt_project_name = ''shop'',
     mf_models = [demo_model ''order'', demo_model ''team'', demo_model ''user''], mf_sources_by_id = (\<lambda>i. None),
     mf_skipped = \<lparr>sc_metrics = 0, sc_snapshots = 0, sc_seeds = 0, sc_analyses = 0, sc_operations = 0, sc_exposures = 0, sc_other = 0\<rparr>,
     mf_relationships = [demo_relationship ''team'', demo_relationship ''user'']\<rparr>"

definition demo_live :: live_source where
  "demo_live identifier schema = (if identifier = ''orders'' \<and> schema = ''public'' then Some demo_orders else None)"

definition demo_plan :: dbt_import_plan where
  "demo_plan = (case plan_dbt_import demo_manifest demo_live ''s'' (demo_store Manual) of Inr p \<Rightarrow> p)"

definition demo_run :: import_run where
  "demo_run = apply_dbt_import_plan demo_plan ''s'' (\<lambda>n. 7) (demo_store Manual)"

lemma demo_plan_made: "plan_dbt_import demo_manifest demo_live ''s'' (demo_store Manual) = Inr demo_plan"
proof -
  have "\<not> (case plan_dbt_import demo_manifest demo_live ''s'' (demo_store Manual) of Inl e \<Rightarrow> True | Inr p \<Rightarrow> False)" by code_simp
  then show ?thesis by (auto simp: demo_plan_def split: sum.splits)
qed

lemma demo_buckets:
  "map imported_name (pn_to_add demo_plan) = [''team'', ''user'']" "map (imported_name \<circ> fst) (pn_to_take_ownership demo_plan) = [''order'']"
  "map cj_name (pn_joins_to_write demo_plan) = [''order_owner_id'', ''order_owner_id'']"
  "map cj_target_entity (pn_joins_to_write demo_plan) = [''team'', ''user'']"
  "ir_write_failures demo_run = []"
  by code_simp+

lemma demo_ok: "store_ok no_parse (demo_store Manual)"
  by (rule store_reach_ok [OF demo_store_reach(1)])

theorem dbt_plan_sound_witness:
  "(\<exists>vs. list_all2 (judged_rightly demo_manifest demo_live ''s'' (demo_store Manual)) (mf_models demo_manifest) vs \<and>
      map imported_name (sort_key imported_name (List.map_filter added vs)) = [''team'', ''user''] \<and>
      map (imported_name \<circ> fst) (sort_key (imported_name \<circ> fst) (List.map_filter taken vs)) = [''order'']) \<and>
   length (pn_to_add demo_plan) + length (pn_to_update demo_plan) + length (pn_to_take_ownership demo_plan) + length (pn_skipped demo_plan) = 3 \<and>
   list_all (identity_verified demo_manifest demo_live) (planned_entities demo_plan)"
proof -
  obtain p vs where "plan_dbt_import demo_manifest demo_live ''s'' (demo_store Manual) = Inr p"
    "list_all2 (judged_rightly demo_manifest demo_live ''s'' (demo_store Manual)) (mf_models demo_manifest) vs"
    "pn_to_add p = sort_key imported_name (List.map_filter added vs)"
    "pn_to_take_ownership p = sort_key (imported_name \<circ> fst) (List.map_filter taken vs)"
    "length (pn_to_add p) + length (pn_to_update p) + length (pn_to_take_ownership p) + length (pn_skipped p) = length (mf_models demo_manifest)"
    "\<forall>i \<in> set (planned_entities p). from_dbt i \<and> identity_verified demo_manifest demo_live i"
    using dbt_plan_sound [OF demo_ok, of demo_manifest demo_live "''s''"] by blast
  moreover have "length (mf_models demo_manifest) = 3" by (simp add: demo_manifest_def)
  ultimately show ?thesis using demo_buckets(1,2) by (auto simp: demo_plan_made list_all_iff)
qed

theorem dbt_apply_sound_witness:
  "get_entity (demo_store Manual) ''s'' ''order'' = Inr (Some (demo_entity Manual)) \<and>
   owned_in (ir_store demo_run) ''s'' ''order'' \<and> store_ok no_parse (ir_store demo_run)"
proof (intro conjI)
  show "get_entity (demo_store Manual) ''s'' ''order'' = Inr (Some (demo_entity Manual))" by code_simp
  note a = dbt_apply_sound [OF demo_ok demo_plan_made, of "\<lambda>n. 7", folded demo_run_def, unfolded Let_def]
  show "store_ok no_parse (ir_store demo_run)" using a by blast
  obtain i org where "(i, org) \<in> set (pn_to_take_ownership demo_plan)" "imported_name i = ''order''"
    using demo_buckets(2) by (cases "pn_to_take_ownership demo_plan") auto
  then have "i \<in> set (planned_entities demo_plan)" "imported_name i = ''order''" by (force simp: planned_entities_def)+
  then show "owned_in (ir_store demo_run) ''s'' ''order''" using a demo_buckets(5) by metis
qed

theorem dbt_reimport_only_updates_witness:
  "\<exists>p. plan_dbt_import demo_manifest demo_live ''s'' (ir_store demo_run) = Inr p \<and> pn_to_add p = [] \<and>
    map imported_name (pn_to_update p) = [''order'', ''team'', ''user'']"
proof -
  have "map imported_name (sort_key imported_name (List.map_filter (importable demo_manifest demo_live) (mf_models demo_manifest)))
      = [''order'', ''team'', ''user'']" by code_simp
  then show ?thesis
    using dbt_reimport_only_updates [OF demo_ok demo_plan_made, of "\<lambda>n. 7", folded demo_run_def, OF demo_buckets(5)] by simp
qed

theorem dbt_join_last_wins_witness:
  "map cj_name (pn_joins_to_write demo_plan) = [''order_owner_id'', ''order_owner_id''] \<and>
   (\<exists>j. get_canonical_join (ir_store demo_run) ''s'' ''order_owner_id'' = Inr (Some j) \<and> cj_target_entity j = ''user'')"
proof
  show names: "map cj_name (pn_joins_to_write demo_plan) = [''order_owner_id'', ''order_owner_id'']" by (rule demo_buckets(3))
  then obtain j1 j2 where two: "pn_joins_to_write demo_plan = [j1, j2]" by (auto simp: map_eq_Cons_conv)
  then have js: "pn_joins_to_write demo_plan = [j1] @ j2 # []" by simp
  then have j: "cj_name j2 = ''order_owner_id''" "cj_target_entity j2 = ''user''" using names demo_buckets(4) two by simp_all
  have "get_canonical_join (ir_store demo_run) ''s'' (cj_name j2) = Inr (Some j2)"
    using dbt_join_last_wins [OF demo_ok demo_plan_made, of "\<lambda>n. 7", folded demo_run_def, OF demo_buckets(5) js] by simp
  then show "\<exists>j. get_canonical_join (ir_store demo_run) ''s'' ''order_owner_id'' = Inr (Some j) \<and> cj_target_entity j = ''user''"
    using j by auto
qed

end
