(* ===== verification/Spec2Isabelle.thy ===== *)
theory Spec2Isabelle
  imports AuditMerkle AuditWriter PiiClassifier PiiStore PiiPolicy JoinGraph StoreInvariant Indexer CompilerValues ToolEnvelope DriftCheck ResolveJoin SemanticApply DbtImport
begin

text \<open>
  SchemaBrain: a semantic layer over a relational database for language-model agents. An indexer reads the
  schema of a source, profiles and enriches it and keeps the result in a SQLite store; operators add entities, canonical
  joins and metrics; a server answers the tools of an agent, compiles metrics to SQL, refuses what touches
  blocked personal data and writes every call to a hash-chained audit log. The source tree is that of
  schemabrain/ under src/; every theory names the files it models in its opening text.

  The values of the program. Text is \<^typ>\<open>string\<close>, the bytes of its UTF-8 form, so that lengths and prefixes in
  characters are \<open>py_len\<close> and \<open>py_take\<close>. Python's integers are \<^typ>\<open>int\<close> (or \<^typ>\<open>nat\<close> where the code counts); a dict
  is a map, or an association list where its order shows; a set that is iterated is sorted where the code sorts it.
  A raised exception is the left side of a sum, with a datatype of errors per component; \<open>rbind\<close> and
  \<open>rtraverse\<close> of Prelude thread it, and \<open>rbind_InrE\<close>, \<open>result_simps\<close> take such programs apart. Messages are left out.

  The audit log. AuditDigest holds SHA-256 (Sha256, on 32-bit words, executable) with the collision an attacker would need
  as an explicit pair; AuditMerkle is audit/merkle.py (root, proof, verification); Json is the part of json.dumps
  the payloads use; AuditCanonical is audit/canonical.py and audit/fingerprint.py; AuditChain is
  audit/chain.py and audit/verify.py over rows as SQLite can hold them; AuditWriter is audit/writer.py with the
  constraints and triggers of audit/ddl.py, a table and a writer with its cached tail as state. The lemmas show
  completeness and soundness of proofs, what one tampered row changes in a walk, that one writer keeps the chain
  whatever fails, and how two break it.

  Personal data. PiiCategories is pii/categories.py and pii/propagation.py; PiiClassifier is the rule table of
  pii/classifier.py with its regular expressions as string predicates; PiiConfidence is pii/confidence.py; PiiPolicy
  is pii/policy.py and pii/policy_yaml.py over the data of a parsed document; PiiStore is the column_pii_tags table of
  core/store.py. The lemmas show what the catastrophic floor guarantees over sequences of writes, and where it does not.

  The store. SchemaModels is core/models.py; CoreModel is core/entity.py, core/join.py and core/metric.py;
  GraphModel is core/graph.py; SemanticStore is the part of core/store.py for tables, entities, joins, metrics and
  the projection: a record of row lists, with the unique keys, CHECK constraints, foreign keys and cascades of the DDL
  in each operation. StoreInvariant has the inductive set of reachable stores, the invariant \<open>store_ok\<close> (keys
  unique, no dangling reference, every row readable) and its preservation by every operation. EnrichmentStore
  adds descriptions and embeddings, \<open>cache\<close> being the store with its enrichment and its tags.

  The indexer. ProfilerStats is profiler/stats.py, ColumnFingerprint is core/fingerprint.py, and Indexer is indexer.py: a
  pass over the tables of a source in the code's order of reads, calls and writes, with the external services as
  parameters that see the log of the calls so far. The lemmas relate the cache to the source after a
  pass, before a second one, in a dry run, and after a failure.

  The metric compiler. MeasureExpression is measure_expression.py over the syntax trees of ast.parse, which is a parameter;
  JoinGraph is the graph part of resolve.py (layered search within \<open>MAX_HOPS\<close> hops, choice of a chain, canonical
  paths); CompilerPlan is plan.py; MetricResolve is the rest of resolve.py over a record of four lookups, the
  \<open>catalog\<close>; SqlRows and SqlEmit are emit.py. The locale \<open>metric_catalog\<close> of PlanInvariant states what
  the compiler needs of the lookups; StoreCatalog interprets it on the SQLite store with \<open>store_ok\<close>, so that what is
  proved in it of plans holds on every reachable store. RequestErrors states, per error of the compiler, what of the request
  and the catalog it is about, and shows in the locale that every error has its condition. CompilerValues shows that values only reach bound parameters.
  The time-dimension search recurses on the unvisited part of the graph, and the other loops on their input, so no
  fuel is used in the compiler; the searches of JoinGraph recurse on the hop bound of the code.

  The tools. McpNames is mcp/_helpers.py, the grammar of names an agent sends; CloseMatch is the one function of difflib that
  is used; Firewall is mcp/_redaction.py and the three describe tools with the shapes of their answers; MetricFirewall
  is mcp/get_metric.py with the PII gate, the trust of an answer and mcp/metric_executor.py; ToolEnvelope is
  mcp/envelope.py and the handlers of these tools in mcp/server.py, and connects a response to the audit row. The
  lemmas show what an answer can disclose, that every outcome has its envelope, and what the audit row records.
  SuggestJoins is mcp/suggest_joins.py: the foreign-key graph, a search with a queue and a parent map, whose walk back is
  a partial function and shown to return on every map the search builds. ResolveJoin is mcp/resolve_join.py, the list
  tools, joins/bridges.py and their handlers; its locale \<open>join_lookup\<close> states what the lookups of
  joins and entities promise and is interpreted on the store.

  The drift check. DriftCheck is check/engine.py: the definitions of a store against the live source, with the two
  lookup caches of a run as state. Its locale \<open>lookups\<close> states that source and store answer; the lemmas show
  what a report means, and which stored metric keeps the check from reporting anything.

  Definition files. SemanticYaml is the three YAML grammars (entities/yaml_grammar.py, joins/yaml_grammar.py,
  metrics/yaml_grammar.py) over the value of a parsed document. The loader, which may raise an error of the YAML library or
  any other, and the dumper are parameters; of them it is used that a dumped mapping loads again and, for joins, whose file is put
  together by hand, that the blocks of such a text load as one mapping (a printer and a reader that do so are given). The lemmas
  show which exported definitions read back, and that what a parser accepts is valid. SemanticApply is the apply and
  export-all commands of cli.py over a file system: the loop over the files, the handlers, the refresh and the exit
  code; what each file must come to is stated by index, apart from the loop. Its locale \<open>definition_files\<close> states what the loop needs of a parser and a write, and is interpreted
  for entities, joins and metrics. GraphProjection is semantic/graph_projection.py, with the rows it is to serve as
  abstract specification.

  The dbt import. DbtImport is imports/dbt.py from the parsed manifest on: identity by constraints and tests, the
  entity of a model, joins of relationship tests, the check against the live schema, the plan and its application to
  the store. The verdict that is right for a model is stated apart from the planner; the lemmas show that a plan consists of
  these, what an apply reports and leaves in the store, and that a second import only updates.

  Not modelled: everything that is terminal output, process or file handling (cli.py beyond the apply and export commands,
  _ui.py, setup/, dashboard/, inspect/, datadict/, the renderers), network clients and language models (enrichment/,
  connectors/), the reading of a dbt manifest's JSON and the import of dbt metrics (imports/dbt_metrics.py), the suggesters
  and the mining of query logs (entities/suggest.py, metrics/suggest.py, joins/suggest.py, joins/mining.py, mining/), the
  evaluation harness, observability, the remaining tools of mcp/ (find_relevant_*, get_example_queries, _guards), and of
  core/store.py the connection, migrations, embedding search, example queries and cost ledger. Transactions are
  atomic steps; concurrent writers are modelled for the audit log only.
\<close>

end
